(* ===== verification/Prelude.thy ===== *)
theory Prelude
  imports Complex_Main "HOL-Library.Char_ord"
begin

text \<open>
  What every component of the development shares: Python values as the code receives them
  from JSON (\<open>pv\<close>), Python strings as lists of code points (\<open>ustr\<close>), the exceptions the
  code raises (\<open>exn\<close>) and results that are either an exception or a value (\<open>'a res\<close>),
  association lists as Python dictionaries, and the small list lemmas the components use.
\<close>

named_theorems text_simps \<open>evaluation of checks on Python strings\<close>
named_theorems res_elims \<open>inversion of operations that returned a value\<close>

section \<open>Python strings\<close>

text \<open>
  A Python \<open>str\<close> is a sequence of code points, so lengths count code points and a lone
  surrogate (which UTF-8 refuses) is a value. \<open>u\<close> embeds the ASCII literals of the source.
\<close>

type_synonym ustr = "nat list"

definition u :: "string \<Rightarrow> ustr" where
  "u s = map of_char s"

lemma u_eq_iff [simp]: "u s = u t \<longleftrightarrow> s = t"
proof -
  have "inj (of_char :: char \<Rightarrow> nat)" by (rule injI) (simp add: of_char_eq_iff)
  then show ?thesis by (simp add: u_def inj_map_eq_map)
qed

lemma length_u [simp]: "length (u s) = length s"
  by (simp add: u_def)

lemma u_Nil_iff [simp]: "u s = [] \<longleftrightarrow> s = []"
  by (simp add: u_def)

lemma u_append: "u (s @ t) = u s @ u t"
  by (simp add: u_def)

definition is_digit :: "nat \<Rightarrow> bool" where
  "is_digit c \<longleftrightarrow> 48 \<le> c \<and> c \<le> 57"

definition is_lower :: "nat \<Rightarrow> bool" where
  "is_lower c \<longleftrightarrow> 97 \<le> c \<and> c \<le> 122"

definition is_upper :: "nat \<Rightarrow> bool" where
  "is_upper c \<longleftrightarrow> 65 \<le> c \<and> c \<le> 90"

definition is_hex_lower :: "nat \<Rightarrow> bool" where
  "is_hex_lower c \<longleftrightarrow> is_digit c \<or> (97 \<le> c \<and> c \<le> 102)"

definition is_alnum :: "nat \<Rightarrow> bool" where
  "is_alnum c \<longleftrightarrow> is_digit c \<or> is_lower c \<or> is_upper c"

text \<open>\<open>re.fullmatch\<close> of a character class with a repetition count.\<close>

definition class_match :: "(nat \<Rightarrow> bool) \<Rightarrow> nat \<Rightarrow> nat \<Rightarrow> ustr \<Rightarrow> bool" where
  "class_match p lo hi s \<longleftrightarrow> lo \<le> length s \<and> length s \<le> hi \<and> list_all p s"

definition starts_with :: "ustr \<Rightarrow> ustr \<Rightarrow> bool" where
  "starts_with p s \<longleftrightarrow> take (length p) s = p"

lemma starts_with_append [simp]: "starts_with p (p @ s)"
  by (simp add: starts_with_def)

lemma starts_with_iff: "starts_with p s \<longleftrightarrow> (\<exists>t. s = p @ t)"
  by (metis append_eq_conv_conj starts_with_def)

text \<open>\<open>str.strip()\<close>: the code points \<open>str.isspace\<close> accepts, dropped at both ends.\<close>

definition py_space :: "nat \<Rightarrow> bool" where
  "py_space c \<longleftrightarrow> (9 \<le> c \<and> c \<le> 13) \<or> (28 \<le> c \<and> c \<le> 32) \<or> c = 133 \<or> c = 160 \<or> c = 5760
     \<or> (8192 \<le> c \<and> c \<le> 8202) \<or> c = 8232 \<or> c = 8233 \<or> c = 8239 \<or> c = 8287 \<or> c = 12288"

definition strip :: "ustr \<Rightarrow> ustr" where
  "strip s = rev (dropWhile py_space (rev (dropWhile py_space s)))"

lemma strip_Nil [simp]: "strip [] = []"
  by (simp add: strip_def)

lemma dropWhile_idem: "dropWhile p (dropWhile p xs) = dropWhile p xs"
  by (induction xs) auto

lemma hd_dropWhile_rev: "xs \<noteq> [] \<Longrightarrow> \<not> p (hd xs) \<Longrightarrow>
    dropWhile p (rev (dropWhile p (rev xs))) = rev (dropWhile p (rev xs))"
proof (induction xs)
  case (Cons x xs)
  have "rev (dropWhile p (rev xs @ [x])) = x # rev (dropWhile p (rev xs))"
    using Cons.prems by (cases "\<forall>y\<in>set xs. p y") (auto simp: dropWhile_append)
  then show ?case using Cons.prems by simp
qed simp

lemma strip_strip [simp]: "strip (strip s) = strip s"
proof (cases "dropWhile py_space s = []")
  case True
  then have "strip s = []" by (simp only: strip_def) simp
  then show ?thesis by (simp only: strip_Nil)
next
  case False
  let ?t = "dropWhile py_space s"
  have "\<not> py_space (hd ?t)" using False by (rule hd_dropWhile)
  with False have "dropWhile py_space (strip s) = strip s"
    unfolding strip_def by (rule hd_dropWhile_rev)
  then show ?thesis by (simp add: strip_def dropWhile_idem)
qed

lemma set_strip: "set (strip s) \<subseteq> set s"
  by (auto simp: strip_def dest!: set_dropWhileD)

text \<open>\<open>s.encode("utf-8", errors="strict")\<close> fails exactly on surrogate code points.\<close>

definition utf8_encodable :: "ustr \<Rightarrow> bool" where
  "utf8_encodable s \<longleftrightarrow> list_all (\<lambda>c. \<not> (55296 \<le> c \<and> c \<le> 57343)) s"

lemma utf8_encodable_strip: "utf8_encodable s \<Longrightarrow> utf8_encodable (strip s)"
  using set_strip [of s] by (auto simp: utf8_encodable_def list_all_iff)

lemma utf8_encodable_append [simp]: "utf8_encodable (s @ t) \<longleftrightarrow> utf8_encodable s \<and> utf8_encodable t"
  by (simp add: utf8_encodable_def)

lemma utf8_encodable_u [simp]: "utf8_encodable (u s)"
proof -
  have "\<not> 55296 \<le> (of_char c :: nat)" for c
    using nat_of_char_less_256 [of c] by linarith
  then show ?thesis by (simp add: utf8_encodable_def u_def list_all_iff)
qed

lemma utf8_encodable_ascii: "list_all (\<lambda>c. c < 128) s \<Longrightarrow> utf8_encodable s"
  by (auto simp: utf8_encodable_def list_all_iff)

lemma utf8_encodable_take: "utf8_encodable s \<Longrightarrow> utf8_encodable (take n s)"
  using set_take_subset [of n s] by (auto simp: utf8_encodable_def list_all_iff)

lemma utf8_encodable_drop: "utf8_encodable s \<Longrightarrow> utf8_encodable (drop n s)"
  using set_drop_subset [of n s] by (auto simp: utf8_encodable_def list_all_iff)

text \<open>\<open>s.encode()\<close>: UTF-8, bytes as numbers below 256.\<close>

type_synonym bytes = "nat list"

definition utf8_char :: "nat \<Rightarrow> bytes" where
  "utf8_char c = (if c < 128 then [c]
     else if c < 2048 then [192 + c div 64, 128 + c mod 64]
     else if c < 65536 then [224 + c div 4096, 128 + c div 64 mod 64, 128 + c mod 64]
     else [240 + c div 262144, 128 + c div 4096 mod 64, 128 + c div 64 mod 64, 128 + c mod 64])"

definition utf8 :: "ustr \<Rightarrow> bytes" where
  "utf8 s = concat (map utf8_char s)"

lemma utf8_append [simp]: "utf8 (s @ t) = utf8 s @ utf8 t"
  by (simp add: utf8_def)

text \<open>
  \<open>str(uuid.UUID(value)) == value\<close>: the printed form of a UUID is 36 lower-case characters
  with hyphens at 8, 13, 18 and 23, and every such string parses to itself, so the
  comparison accepts exactly the canonical form.
\<close>

definition uuid_canonical :: "ustr \<Rightarrow> bool" where
  "uuid_canonical s \<longleftrightarrow> length s = 36 \<and>
     list_all (\<lambda>(i, c). if i \<in> {8, 13, 18, 23} then c = 45 else is_hex_lower c) (enumerate 0 s)"

section \<open>Python values\<close>

text \<open>
  The values \<open>json.loads\<close> returns. A finite float is its rational value; \<open>PNonFinite\<close> is
  a NaN or an infinity. A dictionary is its list of items in insertion order, with distinct
  keys. \<open>True\<close> is not an \<open>int\<close> for \<open>type(x) is int\<close>.
\<close>

datatype pv =
    PNone
  | PBool bool
  | PInt int
  | PFloat rat
  | PNonFinite
  | PStr ustr
  | PList "pv list"
  | PDict "(ustr \<times> pv) list"

type_synonym pdict = "(ustr \<times> pv) list"

text \<open>\<open>d.get(k)\<close>: \<open>None\<close> for an absent key.\<close>

definition dget :: "pdict \<Rightarrow> string \<Rightarrow> pv" where
  "dget d k = (case map_of d (u k) of None \<Rightarrow> PNone | Some v \<Rightarrow> v)"

lemma dget_Nil [simp]: "dget [] k = PNone"
  by (simp add: dget_def)

lemma dget_Cons [simp]: "dget ((u k', v) # d) k = (if k' = k then v else dget d k)"
  by (simp add: dget_def)

text \<open>\<open>==\<close> of two values that are not containers: \<open>1 == 1.0 == True\<close>.\<close>

definition number_of_value :: "pv \<Rightarrow> rat option" where
  "number_of_value v = (case v of PInt n \<Rightarrow> Some (of_int n) | PFloat r \<Rightarrow> Some r
     | PBool b \<Rightarrow> Some (if b then 1 else 0) | _ \<Rightarrow> None)"

definition leaf_eq :: "pv \<Rightarrow> pv \<Rightarrow> bool" where
  "leaf_eq v w = (case (number_of_value v, number_of_value w) of
     (Some a, Some b) \<Rightarrow> a = b | (None, None) \<Rightarrow> v = w | _ \<Rightarrow> False)"

text \<open>\<open>{**d, k: v}\<close>\<close>

definition pdict_put :: "string \<Rightarrow> pv \<Rightarrow> pdict \<Rightarrow> pdict" where
  "pdict_put k v d = (if u k \<in> fst ` set d then map (\<lambda>(k', w). (k', if k' = u k then v else w)) d else d @ [(u k, v)])"

section \<open>Exceptions and results\<close>

text \<open>
  The exception classes the modelled code raises or distinguishes. \<open>Sql_Error\<close> is a driver
  exception with an integer first argument (the server's error number); \<open>Http_Error\<close> a
  \<open>requests\<close> exception with a response, its status code and the \<open>error.type\<close> of its body;
  \<open>Other_Error\<close> any exception without either (a timeout, a closed connection).
\<close>

datatype exn =
    Problem (problem_status: int) (problem_code: string)
  | Value_Error string
  | Runtime_Error string
  | Type_Error
  | Key_Error
  | Sql_Error int
  | Http_Error int "ustr option"
  | Other_Error string

type_synonym 'a res = "exn + 'a"

definition is_ok :: "'e + 'a \<Rightarrow> bool" where
  "is_ok r \<longleftrightarrow> (case r of Inl _ \<Rightarrow> False | Inr _ \<Rightarrow> True)"

lemma is_ok_simps [simp]: "is_ok (Inr x)" "\<not> is_ok (Inl e)"
  by (simp_all add: is_ok_def)

lemma is_ok_iff: "is_ok r \<longleftrightarrow> (\<exists>x. r = Inr x)"
  by (cases r) auto

definition bind_res :: "'e + 'a \<Rightarrow> ('a \<Rightarrow> 'e + 'b) \<Rightarrow> 'e + 'b" where
  "bind_res r f = (case r of Inl e \<Rightarrow> Inl e | Inr x \<Rightarrow> f x)"

lemma bind_res_simps [simp]: "bind_res (Inl e) f = Inl e" "bind_res (Inr x) f = f x"
  by (simp_all add: bind_res_def)

lemma bind_res_Inr_iff: "bind_res r f = Inr y \<longleftrightarrow> (\<exists>x. r = Inr x \<and> f x = Inr y)"
  by (cases r) auto

text \<open>
  Operations with effects: a function of the state that returns or raises, and leaves a state
  behind either way.
\<close>

type_synonym ('a, 's) eff = "'s \<Rightarrow> 'a res \<times> 's"

definition ret :: "'a \<Rightarrow> 's \<Rightarrow> ('e + 'a) \<times> 's" where
  "ret x s = (Inr x, s)"

definition raise_exn :: "'e \<Rightarrow> 's \<Rightarrow> ('e + 'a) \<times> 's" where
  "raise_exn e s = (Inl e, s)"

definition bind_eff ::
  "('s \<Rightarrow> ('e + 'a) \<times> 's) \<Rightarrow> ('a \<Rightarrow> 's \<Rightarrow> ('e + 'b) \<times> 's) \<Rightarrow> 's \<Rightarrow> ('e + 'b) \<times> 's" where
  "bind_eff m f s = (case m s of (Inl e, s') \<Rightarrow> (Inl e, s') | (Inr x, s') \<Rightarrow> f x s')"

lemma ret_simps [simp]: "ret x s = (Inr x, s)" "raise_exn e s = (Inl e, s)"
  by (simp_all add: ret_def raise_exn_def)

lemma bind_eff_Inr:
  "bind_eff m f s = (Inr y, s') \<longleftrightarrow> (\<exists>x s1. m s = (Inr x, s1) \<and> f x s1 = (Inr y, s'))"
  by (auto simp: bind_eff_def split: prod.splits sum.splits)

lemma bind_eff_Inl:
  "bind_eff m f s = (Inl e, s') \<longleftrightarrow> m s = (Inl e, s') \<or> (\<exists>x s1. m s = (Inr x, s1) \<and> f x s1 = (Inl e, s'))"
  by (auto simp: bind_eff_def split: prod.splits sum.splits)

text \<open>\<open>v.get(k)\<close> where \<open>v\<close> need not be a dictionary.\<close>

definition py_get :: "pv \<Rightarrow> string \<Rightarrow> pv res" where
  "py_get v k = (case v of PDict d \<Rightarrow> Inr (dget d k) | _ \<Rightarrow> Inl (Other_Error ''AttributeError''))"

definition py_get_dict :: "pv \<Rightarrow> string \<Rightarrow> pv res" where
  "py_get_dict v k = (case v of
       PDict d \<Rightarrow> Inr (case map_of d (u k) of None \<Rightarrow> PDict [] | Some x \<Rightarrow> x)
     | _ \<Rightarrow> Inl (Other_Error ''AttributeError''))"

definition require :: "bool \<Rightarrow> string \<Rightarrow> unit res" where
  "require ok code = (if ok then Inr () else Inl (Value_Error code))"

lemma require_simps [simp]:
  "require ok code = Inr x \<longleftrightarrow> ok" "bind_res (require True code) f = f ()"
  by (auto simp: require_def bind_res_def)

text \<open>\<open>str(n)\<close>, \<open>s.split(sep)\<close> and the truth value of an object.\<close>

fun nat_text :: "nat \<Rightarrow> ustr" where
  "nat_text n = (if n < 10 then [48 + n] else nat_text (n div 10) @ [48 + n mod 10])"

declare nat_text.simps [simp del]

lemma nat_text_nonempty [simp]: "nat_text n \<noteq> []"
  by (subst nat_text.simps) simp

lemma nat_text_digits: "list_all is_digit (nat_text n)"
proof (induction n rule: nat_text.induct)
  case (1 n)
  show ?case
  proof (cases "n < 10")
    case False
    then have "list_all is_digit (nat_text (n div 10))" by (rule 1)
    moreover have "is_digit (48 + n mod 10)" using mod_less_divisor [of 10 n] by (simp add: is_digit_def)
    ultimately show ?thesis using False by (simp add: nat_text.simps [of n])
  qed (simp add: nat_text.simps [of n] is_digit_def)
qed

definition int_text :: "int \<Rightarrow> ustr" where
  "int_text n = (if n < 0 then 45 # nat_text (nat (- n)) else nat_text (nat n))"

text \<open>\<open>s.split(sep)\<close>: the segments between the separators.\<close>

fun split_on :: "nat \<Rightarrow> ustr \<Rightarrow> ustr list" where
  "split_on sep [] = [[]]"
| "split_on sep (c # s) = (if c = sep then [] # split_on sep s
     else (case split_on sep s of [] \<Rightarrow> [[c]] | w # ws \<Rightarrow> (c # w) # ws))"

fun truthy :: "pv \<Rightarrow> bool" where
  "truthy PNone = False"
| "truthy (PBool b) = b"
| "truthy (PInt n) = (n \<noteq> 0)"
| "truthy (PFloat r) = (r \<noteq> 0)"
| "truthy PNonFinite = True"
| "truthy (PStr s) = (s \<noteq> [])"
| "truthy (PList vs) = (vs \<noteq> [])"
| "truthy (PDict d) = (d \<noteq> [])"

text \<open>\<open>d.get(k, default)\<close>\<close>

definition dget_or :: "pv \<Rightarrow> pdict \<Rightarrow> string \<Rightarrow> pv" where
  "dget_or v d k = (case map_of d (u k) of None \<Rightarrow> v | Some w \<Rightarrow> w)"

definition pkeys :: "pdict \<Rightarrow> ustr set" where
  "pkeys d = fst ` set d"

section \<open>Stores\<close>

text \<open>
  The interface of a store whose operations keep an invariant and only let it grow: what any
  number of other clients' operations, run in between, can do to it.
\<close>

locale guarded_store =
  fixes inv :: "'d \<Rightarrow> bool"
    and valid :: "'op \<Rightarrow> bool"
    and grows :: "'d \<Rightarrow> 'd \<Rightarrow> bool"
    and step :: "'op \<Rightarrow> 'd \<Rightarrow> 'd"
  assumes step_inv: "inv d \<Longrightarrow> valid a \<Longrightarrow> inv (step a d)"
    and step_grows: "inv d \<Longrightarrow> valid a \<Longrightarrow> grows d (step a d)"
    and grows_refl: "grows d d"
    and grows_trans: "grows d d' \<Longrightarrow> grows d' d'' \<Longrightarrow> grows d d''"
begin

lemma run_inv: "inv d \<Longrightarrow> list_all valid ops \<Longrightarrow> inv (fold step ops d)"
  by (induction ops arbitrary: d) (auto intro: step_inv)

lemma run_grows: "inv d \<Longrightarrow> list_all valid ops \<Longrightarrow> grows d (fold step ops d)"
proof (induction ops arbitrary: d)
  case (Cons a ops)
  then have "grows d (step a d)" "grows (step a d) (fold step ops (step a d))"
    by (auto intro: step_inv step_grows)
  then show ?case by (simp add: grows_trans)
qed (simp add: grows_refl)

end

section \<open>Lists\<close>

text \<open>The last element a predicate accepts, as a scan that keeps the latest match.\<close>

definition find_last :: "('a \<Rightarrow> bool) \<Rightarrow> 'a list \<Rightarrow> 'a option" where
  "find_last p xs = find p (rev xs)"

lemma find_cong_filter: "find p xs = (case filter p xs of [] \<Rightarrow> None | x # _ \<Rightarrow> Some x)"
  by (induction xs) auto

lemma find_last_filter:
  "find_last p xs = (if filter p xs = [] then None else Some (last (filter p xs)))"
proof -
  have "find_last p xs = (case rev (filter p xs) of [] \<Rightarrow> None | x # _ \<Rightarrow> Some x)"
    by (simp add: find_last_def find_cong_filter rev_filter)
  then show ?thesis
    by (cases "filter p xs" rule: rev_cases) auto
qed

lemma find_SomeD: "find p xs = Some x \<Longrightarrow> x \<in> set xs \<and> p x"
  by (induction xs) (auto split: if_splits)

lemma find_distinct_map:
  "distinct (map f xs) \<Longrightarrow> x \<in> set xs \<Longrightarrow> find (\<lambda>y. f y = f x) xs = Some x"
  by (induction xs) auto

lemma find_None_map: "find (\<lambda>y. f y = k) xs = None \<longleftrightarrow> k \<notin> f ` set xs"
  by (auto simp: find_None_iff)

lemma map_update_distinct:
  "distinct (map f xs) \<Longrightarrow> (\<And>x. f (g x) = f x) \<Longrightarrow>
   distinct (map f (map (\<lambda>x. if p x then g x else x) xs))"
proof -
  assume "distinct (map f xs)" and "\<And>x. f (g x) = f x"
  moreover from this(2) have "map f (map (\<lambda>x. if p x then g x else x) xs) = map f xs"
    by simp
  ultimately show ?thesis by (simp only:)
qed

lemma sum_list_map_if_unique:
  fixes h :: "'a \<Rightarrow> int"
  assumes "distinct (map f xs)" and "x \<in> set xs"
  shows "sum_list (map (\<lambda>y. h (if f y = f x then g y else y)) xs)
           = sum_list (map h xs) - h x + h (g x)"
  using assms
proof (induction xs)
  case (Cons a xs)
  show ?case
  proof (cases "f a = f x")
    case True
    with Cons.prems have "a = x" by auto
    moreover have "sum_list (map (\<lambda>y. h (if f y = f x then g y else y)) xs) = sum_list (map h xs)"
      using Cons.prems True by (intro arg_cong [where f = sum_list] map_cong) (force simp: image_iff)+
    ultimately show ?thesis by simp
  next
    case False
    with Cons show ?thesis by auto
  qed
qed simp

end
