(* ===== verification/Core_Orders.thy ===== *)
theory Core_Orders
  imports Prelude
begin

text \<open>
  \<open>mvp-lab/mvp_app/core.py\<close>: the business rules of the order service. An order the service
  made is the record \<open>order_data\<close>; an order that arrives as JSON (an event, a cache entry, a
  search document) is a dictionary (\<open>pdict\<close>) until \<open>validate_event\<close> has accepted it.
  Fresh UUIDs and the current time are arguments; \<open>iso_ok\<close> is the test
  \<open>datetime.fromisoformat\<close> makes (true when it returns) and \<open>loads\<close> is
  \<open>json.loads (base64.urlsafe_b64decode ...)\<close> (\<open>None\<close> when it raises \<open>ValueError\<close>).
  Log lines (\<open>emit\<close>) are not modelled.
\<close>

section \<open>Orders and their state machine\<close>

record order_data =
  o_id :: ustr
  o_item :: ustr
  o_quantity :: int
  o_unit_price :: int
  o_total :: int
  o_status :: ustr
  o_version :: int
  o_created_at :: ustr

definition order_fields :: "string list" where
  "order_fields = [''id'', ''item'', ''quantity'', ''unit_price'', ''total'', ''status'',
                   ''version'', ''created_at'']"

definition states :: "(ustr \<times> ustr list) list" where
  "states = [(u ''created'', [u ''paid'', u ''cancelled'']),
             (u ''paid'', [u ''shipped'', u ''cancelled'']),
             (u ''shipped'', []), (u ''cancelled'', [])]"

definition known_status :: "ustr \<Rightarrow> bool" where
  "known_status s \<longleftrightarrow> map_of states s \<noteq> None"

definition order_value :: "order_data \<Rightarrow> pdict" where
  "order_value x = [(u ''id'', PStr (o_id x)), (u ''item'', PStr (o_item x)),
     (u ''quantity'', PInt (o_quantity x)), (u ''unit_price'', PInt (o_unit_price x)),
     (u ''total'', PInt (o_total x)), (u ''status'', PStr (o_status x)),
     (u ''version'', PInt (o_version x)), (u ''created_at'', PStr (o_created_at x))]"

section \<open>Input checks\<close>

definition order_identifier :: "pv \<Rightarrow> ustr res" where
  "order_identifier v = (case v of
       PStr s \<Rightarrow> (if uuid_canonical s then Inr s else Inl (Problem 400 ''invalid_order_id''))
     | _ \<Rightarrow> Inl (Problem 400 ''invalid_order_id''))"

record new_data =
  n_item :: ustr
  n_quantity :: int
  n_unit_price :: int

definition create_input :: "pv \<Rightarrow> new_data res" where
  "create_input data = (case data of PDict d \<Rightarrow>
       (case dget d ''item'' of PStr item \<Rightarrow>
          if \<not> (1 \<le> length (strip item) \<and> length (strip item) \<le> 100)
          then Inl (Problem 400 ''item_must_be_1_to_100_characters'')
          else if \<not> utf8_encodable item then Inl (Problem 400 ''item_must_be_valid_unicode'')
          else (case dget d ''quantity'' of PInt quantity \<Rightarrow>
            if \<not> (1 \<le> quantity \<and> quantity \<le> 1000)
            then Inl (Problem 400 ''quantity_must_be_integer_1_to_1000'')
            else (case dget d ''unit_price'' of PInt unit_price \<Rightarrow>
              if \<not> (0 \<le> unit_price \<and> unit_price \<le> 100000000)
              then Inl (Problem 400 ''unit_price_must_be_integer_0_to_100000000'')
              else Inr \<lparr>n_item = strip item, n_quantity = quantity, n_unit_price = unit_price\<rparr>
            | _ \<Rightarrow> Inl (Problem 400 ''unit_price_must_be_integer_0_to_100000000''))
          | _ \<Rightarrow> Inl (Problem 400 ''quantity_must_be_integer_1_to_1000''))
        | _ \<Rightarrow> Inl (Problem 400 ''item_must_be_1_to_100_characters''))
     | _ \<Rightarrow> Inl (Problem 400 ''json_object_required''))"

definition key_char :: "nat \<Rightarrow> bool" where
  "key_char c \<longleftrightarrow> is_alnum c \<or> c \<in> set (u ''_.:-'')"

definition request_key :: "ustr \<Rightarrow> ustr option \<Rightarrow> ustr res" where
  "request_key fresh given =
     (let key = (case given of None \<Rightarrow> fresh | Some k \<Rightarrow> if k = [] then fresh else k)
      in if class_match key_char 1 80 key then Inr key
         else Inl (Problem 400 ''invalid_idempotency_key''))"

definition new_order :: "ustr \<Rightarrow> ustr \<Rightarrow> new_data \<Rightarrow> order_data" where
  "new_order fresh now data =
     \<lparr>o_id = fresh, o_item = n_item data, o_quantity = n_quantity data,
      o_unit_price = n_unit_price data, o_total = n_quantity data * n_unit_price data,
      o_status = u ''created'', o_version = 1, o_created_at = now\<rparr>"

definition transition :: "order_data \<Rightarrow> pv \<Rightarrow> order_data res" where
  "transition order data = (case data of PDict d \<Rightarrow>
       (case dget d ''expected_version'' of PInt expected \<Rightarrow>
          if expected \<noteq> o_version order then Inl (Problem 409 ''order_version_conflict'')
          else (case dget d ''status'' of PStr status \<Rightarrow>
            (case map_of states (o_status order) of
               None \<Rightarrow> Inl Key_Error
             | Some nexts \<Rightarrow>
                 if status \<notin> set nexts then Inl (Problem 409 ''invalid_status_transition'')
                 else Inr (order\<lparr>o_status := status, o_version := o_version order + 1\<rparr>))
          | _ \<Rightarrow> Inl (Problem 409 ''invalid_status_transition''))
        | _ \<Rightarrow> Inl (Problem 400 ''expected_version_required''))
     | _ \<Rightarrow> Inl (Problem 400 ''expected_version_required''))"

definition envelope :: "ustr \<Rightarrow> order_data \<Rightarrow> pv" where
  "envelope fresh order = PDict [(u ''schema_version'', PInt 1), (u ''event_id'', PStr fresh),
                                 (u ''order'', PDict (order_value order))]"

definition validate_fields :: "(ustr \<Rightarrow> bool) \<Rightarrow> pdict \<Rightarrow> pdict res" where
  "validate_fields iso_ok order = (case dget order ''version'' of PInt version \<Rightarrow>
       if version < 1 then Inl (Problem 422 ''invalid_event_version'')
       else (case (dget order ''status'', dget order ''total'') of (PStr status, PInt amount) \<Rightarrow>
         if \<not> known_status status then Inl (Problem 422 ''invalid_event_fields'')
         else (case (dget order ''quantity'', dget order ''unit_price'') of
             (PInt quantity, PInt unit_price) \<Rightarrow>
               if amount \<noteq> quantity * unit_price then Inl (Problem 422 ''invalid_event_total'')
               else (case dget order ''created_at'' of PStr created_at \<Rightarrow>
                 if iso_ok created_at then Inr order else Inl (Problem 422 ''invalid_event_timestamp'')
               | _ \<Rightarrow> Inl (Problem 422 ''invalid_event_timestamp''))
           | _ \<Rightarrow> Inl Key_Error)
       | _ \<Rightarrow> Inl (Problem 422 ''invalid_event_fields''))
     | _ \<Rightarrow> Inl (Problem 422 ''invalid_event_version''))"

definition validate_event :: "(ustr \<Rightarrow> bool) \<Rightarrow> pv \<Rightarrow> pdict res" where
  "validate_event iso_ok event = (case event of PDict d \<Rightarrow>
       if dget d ''schema_version'' \<noteq> PInt 1 then Inl (Problem 422 ''unsupported_event_schema'')
       else bind_res (order_identifier (dget d ''event_id'')) (\<lambda>_.
         (case dget d ''order'' of PDict order \<Rightarrow>
            bind_res (order_identifier (dget order ''id'')) (\<lambda>_.
            bind_res (create_input (PDict order)) (\<lambda>_.
            validate_fields iso_ok order))
          | _ \<Rightarrow> Inl (Problem 422 ''invalid_event_order'')))
     | _ \<Rightarrow> Inl (Problem 422 ''unsupported_event_schema''))"

section \<open>Order pages\<close>

record page_query =
  pq_limit :: int
  pq_q :: ustr
  pq_status :: ustr
  pq_after :: "(ustr \<times> ustr) option"

record page =
  pg_orders :: "order_data list"
  pg_has_more :: bool
  pg_next_cursor :: "ustr option"

definition single_string :: "pv \<Rightarrow> bool" where
  "single_string v \<longleftrightarrow> (case v of PList [PStr _] \<Rightarrow> True | _ \<Rightarrow> False)"

definition query_value :: "pdict \<Rightarrow> string \<Rightarrow> string \<Rightarrow> ustr" where
  "query_value query key dflt =
     (case dget query key of PList [PStr s] \<Rightarrow> s | _ \<Rightarrow> u dflt)"

definition decimal :: "ustr \<Rightarrow> int" where
  "decimal s = fold (\<lambda>c n. 10 * n + (int c - 48)) s 0"

definition cursor_char :: "nat \<Rightarrow> bool" where
  "cursor_char c \<longleftrightarrow> is_alnum c \<or> c = 95 \<or> c = 45"

definition page_cursor ::
  "(ustr \<Rightarrow> pv option) \<Rightarrow> (ustr \<Rightarrow> bool) \<Rightarrow> ustr \<Rightarrow> ustr \<Rightarrow> ustr \<Rightarrow> (ustr \<times> ustr) res" where
  "page_cursor loads iso_ok cursor q status =
     (if length cursor > 1024 \<or> \<not> class_match cursor_char 1 1024 cursor
      then Inl (Problem 400 ''invalid_order_cursor'')
      else (case loads cursor of
          Some (PList [PStr created_at, oid, q', status']) \<Rightarrow>
            if length created_at > 40 \<or> q' \<noteq> PStr q \<or> status' \<noteq> PStr status \<or> \<not> iso_ok created_at
            then Inl (Problem 400 ''invalid_order_cursor'')
            else (case order_identifier oid of
                Inr i \<Rightarrow> Inr (created_at, i)
              | Inl _ \<Rightarrow> Inl (Problem 400 ''invalid_order_cursor''))
        | _ \<Rightarrow> Inl (Problem 400 ''invalid_order_cursor'')))"

definition order_page_input ::
  "(ustr \<Rightarrow> pv option) \<Rightarrow> (ustr \<Rightarrow> bool) \<Rightarrow> pdict \<Rightarrow> page_query res" where
  "order_page_input loads iso_ok query =
     (if \<not> list_all (\<lambda>(k, v). k \<in> u ` {''limit'', ''cursor'', ''q'', ''status''} \<and> single_string v) query
      then Inl (Problem 400 ''invalid_order_page_parameters'')
      else let raw_limit = query_value query ''limit'' ''25'';
               q = strip (query_value query ''q'' '''');
               status = query_value query ''status'' '''';
               cursor = query_value query ''cursor'' '''';
               result = (\<lambda>after. \<lparr>pq_limit = decimal raw_limit, pq_q = q, pq_status = status,
                                  pq_after = after\<rparr>)
           in if \<not> class_match is_digit 1 3 raw_limit
                 \<or> \<not> (1 \<le> decimal raw_limit \<and> decimal raw_limit \<le> 100)
              then Inl (Problem 400 ''invalid_page_limit'')
              else if length q > 100 \<or> (status \<noteq> [] \<and> \<not> known_status status)
              then Inl (Problem 400 ''invalid_order_filter'')
              else if \<not> utf8_encodable q then Inl (Problem 400 ''invalid_order_filter'')
              else if cursor = [] then Inr (result None)
              else bind_res (page_cursor loads iso_ok cursor q status) (\<lambda>after. Inr (result (Some after))))"

text \<open>
  \<open>json.dumps\<close> of a list of strings with \<open>ensure_ascii=False\<close>, \<open>str.encode()\<close> and
  \<open>base64.urlsafe_b64encode\<close> without the padding.
\<close>

definition hex_digit :: "nat \<Rightarrow> nat" where
  "hex_digit n = (if n < 10 then 48 + n else 87 + n)"

definition json_escape :: "nat \<Rightarrow> ustr" where
  "json_escape c = (if c = 34 \<or> c = 92 then [92, c] else if c = 10 then [92, 110]
     else if c = 13 then [92, 114] else if c = 9 then [92, 116] else if c = 12 then [92, 102]
     else if c = 8 then [92, 98]
     else if c < 32 then [92, 117, 48, 48, hex_digit (c div 16), hex_digit (c mod 16)] else [c])"

definition json_string :: "ustr \<Rightarrow> ustr" where
  "json_string s = [34] @ concat (map json_escape s) @ [34]"

definition b64_char :: "nat \<Rightarrow> nat" where
  "b64_char n = (if n < 26 then 65 + n else if n < 52 then 71 + n else if n < 62 then n - 4
                 else if n = 62 then 45 else 95)"

fun b64_url :: "nat list \<Rightarrow> ustr" where
  "b64_url [] = []"
| "b64_url [a] = [b64_char (a div 4), b64_char (a mod 4 * 16)]"
| "b64_url [a, b] = [b64_char (a div 4), b64_char (a mod 4 * 16 + b div 16), b64_char (b mod 16 * 4)]"
| "b64_url (a # b # c # r) = [b64_char (a div 4), b64_char (a mod 4 * 16 + b div 16),
     b64_char (b mod 16 * 4 + c div 64), b64_char (c mod 64)] @ b64_url r"

definition cursor_text :: "ustr \<Rightarrow> ustr \<Rightarrow> ustr \<Rightarrow> ustr \<Rightarrow> ustr" where
  "cursor_text created_at oid q status =
     b64_url (utf8 (u ''['' @ json_string created_at @ u '', '' @ json_string oid @ u '', ''
       @ json_string q @ u '', '' @ json_string status @ u '']''))"

definition order_page_result ::
  "order_data list \<Rightarrow> nat \<Rightarrow> ustr \<Rightarrow> ustr \<Rightarrow> page" where
  "order_page_result rows limit q status =
     (let more = length rows > limit;
          shown = take limit rows
      in \<lparr>pg_orders = shown, pg_has_more = more,
          pg_next_cursor = (if more then Some (cursor_text (o_created_at (last shown)) (o_id (last shown)) q status)
                            else None)\<rparr>)"

section \<open>Well-formed orders\<close>

definition wf_data :: "new_data \<Rightarrow> bool" where
  "wf_data n \<longleftrightarrow> strip (n_item n) = n_item n \<and> 1 \<le> length (n_item n) \<and> length (n_item n) \<le> 100
     \<and> utf8_encodable (n_item n) \<and> 1 \<le> n_quantity n \<and> n_quantity n \<le> 1000
     \<and> 0 \<le> n_unit_price n \<and> n_unit_price n \<le> 100000000"

text \<open>
  The stage of an order fixes its version: the status graph of \<open>STATES\<close> has no cycle and
  every step adds one.
\<close>

definition legal_stage :: "ustr \<Rightarrow> int \<Rightarrow> bool" where
  "legal_stage status version \<longleftrightarrow> (status, version) \<in>
     {(u ''created'', 1), (u ''paid'', 2), (u ''shipped'', 3), (u ''cancelled'', 2), (u ''cancelled'', 3)}"

definition order_data_of :: "order_data \<Rightarrow> new_data" where
  "order_data_of x = \<lparr>n_item = o_item x, n_quantity = o_quantity x, n_unit_price = o_unit_price x\<rparr>"

definition wf_order :: "(ustr \<Rightarrow> bool) \<Rightarrow> order_data \<Rightarrow> bool" where
  "wf_order iso_ok x \<longleftrightarrow> uuid_canonical (o_id x) \<and> wf_data (order_data_of x)
     \<and> o_total x = o_quantity x * o_unit_price x \<and> legal_stage (o_status x) (o_version x)
     \<and> iso_ok (o_created_at x)"

lemma dget_order_value [simp]:
  "dget (order_value x) ''id'' = PStr (o_id x)" "dget (order_value x) ''item'' = PStr (o_item x)"
  "dget (order_value x) ''quantity'' = PInt (o_quantity x)"
  "dget (order_value x) ''unit_price'' = PInt (o_unit_price x)"
  "dget (order_value x) ''total'' = PInt (o_total x)"
  "dget (order_value x) ''status'' = PStr (o_status x)"
  "dget (order_value x) ''version'' = PInt (o_version x)"
  "dget (order_value x) ''created_at'' = PStr (o_created_at x)"
  by (simp_all add: order_value_def)

lemma order_value_inj [simp]: "order_value x = order_value y \<longleftrightarrow> x = y"
  by (auto simp: order_value_def intro: order_data.equality)

lemma known_status_iff: "known_status s \<longleftrightarrow> s \<in> {u ''created'', u ''paid'', u ''shipped'', u ''cancelled''}"
  by (auto simp: known_status_def states_def)

lemma legal_stage_known: "legal_stage s n \<Longrightarrow> known_status s"
  by (auto simp: legal_stage_def known_status_iff)

lemma legal_stage_bounds: "legal_stage s n \<Longrightarrow> 1 \<le> n \<and> n \<le> 3"
  by (auto simp: legal_stage_def)

lemma order_identifier_iff [simp]:
  "order_identifier v = Inr i \<longleftrightarrow> v = PStr i \<and> uuid_canonical i"
  by (cases v) (auto simp: order_identifier_def)

lemma order_identifier_error: "order_identifier v = Inl e \<Longrightarrow> e = Problem 400 ''invalid_order_id''"
  by (auto simp: order_identifier_def split: pv.splits if_splits)

lemma create_input_iff:
  "create_input data = Inr n \<longleftrightarrow> (\<exists>d item. data = PDict d \<and> dget d ''item'' = PStr item
     \<and> utf8_encodable item \<and> 1 \<le> length (strip item) \<and> length (strip item) \<le> 100
     \<and> dget d ''quantity'' = PInt (n_quantity n) \<and> 1 \<le> n_quantity n \<and> n_quantity n \<le> 1000
     \<and> dget d ''unit_price'' = PInt (n_unit_price n) \<and> 0 \<le> n_unit_price n
     \<and> n_unit_price n \<le> 100000000 \<and> n_item n = strip item)"
proof (cases data)
  case (PDict d)
  show ?thesis
  proof (cases "dget d ''item''")
    case (PStr item)
    show ?thesis
      by (cases "dget d ''quantity''"; cases "dget d ''unit_price''"; cases n)
        (auto simp: create_input_def PDict PStr Suc_le_eq)
  qed (auto simp: create_input_def PDict)
qed (auto simp: create_input_def)

lemma create_input_wf: "create_input data = Inr n \<Longrightarrow> wf_data n"
  by (auto simp: create_input_iff wf_data_def utf8_encodable_strip)

lemma create_input_order_value:
  "wf_data (order_data_of x) \<Longrightarrow> create_input (PDict (order_value x)) = Inr (order_data_of x)"
  by (simp add: create_input_iff wf_data_def order_data_of_def)

lemma new_order_wf:
  "wf_data n \<Longrightarrow> uuid_canonical i \<Longrightarrow> iso_ok now \<Longrightarrow> wf_order iso_ok (new_order i now n)"
  by (simp add: wf_order_def new_order_def order_data_of_def legal_stage_def wf_data_def)

lemma transition_iff:
  "transition x data = Inr y \<longleftrightarrow> (\<exists>d status nexts. data = PDict d
     \<and> dget d ''expected_version'' = PInt (o_version x) \<and> dget d ''status'' = PStr status
     \<and> map_of states (o_status x) = Some nexts \<and> status \<in> set nexts
     \<and> y = x\<lparr>o_status := status, o_version := o_version x + 1\<rparr>)"
proof (cases data)
  case (PDict d)
  show ?thesis
    by (cases "dget d ''expected_version''"; cases "dget d ''status''";
        cases "map_of states (o_status x)") (auto simp: transition_def PDict)
qed (auto simp: transition_def)

lemma transition_stage:
  "transition x data = Inr y \<Longrightarrow> legal_stage (o_status x) (o_version x) \<Longrightarrow>
   legal_stage (o_status y) (o_version y)"
  by (auto simp: transition_iff legal_stage_def states_def)

lemma transition_wf: "transition x data = Inr y \<Longrightarrow> wf_order iso_ok x \<Longrightarrow> wf_order iso_ok y"
  using transition_stage [of x data y] by (auto simp: wf_order_def transition_iff order_data_of_def)

lemma transition_version: "transition x data = Inr y \<Longrightarrow> o_version y = o_version x + 1"
  by (auto simp: transition_iff)

lemma transition_id: "transition x data = Inr y \<Longrightarrow> o_id y = o_id x"
  by (auto simp: transition_iff)

lemma validate_fields_ok:
  assumes "wf_order iso_ok x"
  shows "validate_fields iso_ok (order_value x) = Inr (order_value x)"
  using assms legal_stage_known legal_stage_bounds by (force simp: validate_fields_def wf_order_def)

lemma validate_event_envelope:
  "wf_order iso_ok x \<Longrightarrow> uuid_canonical ev \<Longrightarrow> validate_event iso_ok (envelope ev x) = Inr (order_value x)"
  by (simp add: validate_event_def envelope_def validate_fields_ok create_input_order_value bind_res_def
      wf_order_def order_identifier_def)

lemma validate_fields_Inr:
  "validate_fields iso_ok d = Inr r \<Longrightarrow> r = d \<and> (\<exists>version status amount quantity unit_price created.
     dget d ''version'' = PInt version \<and> 1 \<le> version \<and> dget d ''status'' = PStr status
     \<and> known_status status \<and> dget d ''total'' = PInt amount \<and> dget d ''quantity'' = PInt quantity
     \<and> dget d ''unit_price'' = PInt unit_price \<and> amount = quantity * unit_price
     \<and> dget d ''created_at'' = PStr created \<and> iso_ok created)"
  by (auto simp: validate_fields_def split: pv.splits if_splits)

lemma validate_event_Inr:
  assumes "validate_event iso_ok event = Inr r"
  shows "\<exists>d. event = PDict d \<and> dget d ''schema_version'' = PInt 1
    \<and> is_ok (order_identifier (dget d ''event_id'')) \<and> dget d ''order'' = PDict r
    \<and> is_ok (order_identifier (dget r ''id'')) \<and> is_ok (create_input (PDict r))
    \<and> validate_fields iso_ok r = Inr r"
proof -
  obtain d where d: "event = PDict d" using assms by (cases event) (auto simp: validate_event_def)
  with assms obtain i o' where "dget d ''schema_version'' = PInt 1"
    "order_identifier (dget d ''event_id'') = Inr i" and o': "dget d ''order'' = PDict o'"
    by (auto simp: validate_event_def bind_res_Inr_iff split: if_splits pv.splits)
  moreover from this d assms have "is_ok (order_identifier (dget o' ''id''))"
    "is_ok (create_input (PDict o'))" "validate_fields iso_ok o' = Inr r"
    by (auto simp: validate_event_def bind_res_Inr_iff is_ok_iff split: if_splits)
  ultimately show ?thesis using d validate_fields_Inr [of iso_ok o' r] by (auto simp: is_ok_iff)
qed

section \<open>Page cursors\<close>

lemma length_utf8: "length (utf8 s) \<le> 4 * length s"
  by (induction s) (auto simp: utf8_def utf8_char_def)

lemma length_utf8_json_string: "length (utf8 (json_string s)) \<le> 6 * length s + 2"
proof -
  have "length (utf8 (json_escape c)) \<le> 6" for c
    by (auto simp: json_escape_def utf8_def utf8_char_def u_def hex_digit_def)
  then have "length (utf8 (concat (map json_escape s))) \<le> 6 * length s"
    by (induction s) (auto simp: utf8_append utf8_def [of "[]"] intro: add_mono)
  then show ?thesis by (simp add: json_string_def utf8_append) (simp add: utf8_def utf8_char_def)
qed

text \<open>Printable ASCII other than the quote and the backslash: what ids and timestamps hold.\<close>

definition plain_ascii :: "ustr \<Rightarrow> bool" where
  "plain_ascii s \<longleftrightarrow> list_all (\<lambda>c. 32 \<le> c \<and> c < 128 \<and> c \<noteq> 34 \<and> c \<noteq> 92) s"

lemma length_utf8_plain: "plain_ascii s \<Longrightarrow> length (utf8 (json_string s)) = length s + 2"
proof -
  assume s: "plain_ascii s"
  then have "length (utf8 (concat (map json_escape s))) = length s"
    by (induction s) (auto simp: plain_ascii_def utf8_def json_escape_def utf8_char_def)
  then show ?thesis by (simp add: json_string_def utf8_append) (simp add: utf8_def utf8_char_def)
qed

lemma length_b64_url: "3 * length (b64_url bs) \<le> 4 * length bs + 2"
  by (induction bs rule: b64_url.induct) auto

lemma b64_char_cursor: "cursor_char (b64_char n)"
  by (auto simp: b64_char_def cursor_char_def is_alnum_def is_upper_def is_lower_def is_digit_def)

lemma b64_url_cursor: "list_all cursor_char (b64_url bs)"
  by (induction bs rule: b64_url.induct) (auto simp: b64_char_cursor)

lemma b64_url_Nil_iff: "b64_url bs = [] \<longleftrightarrow> bs = []"
  by (induction bs rule: b64_url.induct) auto

lemma cursor_text_bound:
  assumes "plain_ascii c" "length c \<le> 40" "plain_ascii i" "length i = 36" "length q \<le> 100"
    and "plain_ascii s" "length s \<le> 9"
  shows "length (cursor_text c i q s) \<le> 1024"
proof -
  let ?bs = "utf8 (u ''['' @ json_string c @ u '', '' @ json_string i @ u '', ''
       @ json_string q @ u '', '' @ json_string s @ u '']'')"
  have "length (utf8 (u ''['')) = 1" "length (utf8 (u '']'')) = 1" "length (utf8 (u '', '')) = 2"
    by (simp_all add: utf8_def u_def utf8_char_def)
  with assms length_utf8_json_string [of q] have "length ?bs \<le> 701"
    by (simp add: utf8_append length_utf8_plain)
  then show ?thesis using length_b64_url [of ?bs] by (simp add: cursor_text_def)
qed

lemma cursor_text_class: "list_all cursor_char (cursor_text c i q s)" "cursor_text c i q s \<noteq> []"
proof -
  have "utf8 (u ''['' @ r) \<noteq> []" for r by (simp add: utf8_append) (simp add: utf8_def u_def utf8_char_def)
  then show "cursor_text c i q s \<noteq> []" by (simp only: cursor_text_def b64_url_Nil_iff not_False_eq_True)
qed (simp add: cursor_text_def b64_url_cursor)

lemma uuid_plain: "uuid_canonical i \<Longrightarrow> plain_ascii i \<and> length i = 36"
proof (intro conjI)
  assume i: "uuid_canonical i"
  have "32 \<le> i ! k \<and> i ! k < 128 \<and> i ! k \<noteq> 34 \<and> i ! k \<noteq> 92" if "k < length i" for k
  proof -
    have "(k, i ! k) \<in> set (enumerate 0 i)" using that by (auto simp: in_set_enumerate_eq)
    with i show ?thesis
      by (fastforce simp: uuid_canonical_def list_all_iff is_hex_lower_def is_digit_def split: if_splits)
  qed
  then show "plain_ascii i" by (simp add: plain_ascii_def list_all_length)
qed (simp add: uuid_canonical_def)

lemma known_status_plain: "s = [] \<or> known_status s \<Longrightarrow> plain_ascii s \<and> length s \<le> 9"
  by (auto simp: known_status_iff plain_ascii_def u_def)

lemma page_cursor_cursor_text:
  assumes "uuid_canonical i" "iso_ok c" "plain_ascii c" "length c \<le> 40" "length q \<le> 100"
    "s = [] \<or> known_status s"
    and "loads (cursor_text c i q s) = Some (PList [PStr c, PStr i, PStr q, PStr s])"
  shows "page_cursor loads iso_ok (cursor_text c i q s) q s = Inr (c, i)"
proof -
  have bound: "length (cursor_text c i q s) \<le> 1024"
    using assms uuid_plain known_status_plain by (intro cursor_text_bound) auto
  moreover have "1 \<le> length (cursor_text c i q s)"
    using cursor_text_class(2) [of c i q s] by (cases "cursor_text c i q s") auto
  ultimately have "class_match cursor_char 1 1024 (cursor_text c i q s)"
    by (simp add: class_match_def cursor_text_class(1))
  with bound assms show ?thesis
    by (simp add: page_cursor_def order_identifier_def)
qed

section \<open>Properties\<close>

text \<open>C2: Every request body \<open>create_input\<close> accepts becomes a normal form within the limits of
  the service (a stripped item of 1 to 100 encodable code points, a quantity of 1 to 1000, a
  price of 0 to 100000000), and the normal form, sent again, is accepted unchanged.\<close>

theorem create_input_normal_form:
  assumes "create_input data = Inr n"
  shows "wf_data n \<and> create_input (PDict [(u ''item'', PStr (n_item n)),
           (u ''quantity'', PInt (n_quantity n)), (u ''unit_price'', PInt (n_unit_price n))]) = Inr n"
  using create_input_wf [OF assms] by (simp add: create_input_iff wf_data_def)

theorem create_input_normal_form_witness:
  "\<exists>n. create_input (PDict [(u ''item'', PStr (u '' tea '')), (u ''quantity'', PInt 2),
      (u ''unit_price'', PInt 450)]) = Inr n \<and> n_item n = u ''tea'' \<and> wf_data n"
proof -
  let ?n = "\<lparr>n_item = u ''tea'', n_quantity = 2, n_unit_price = 450\<rparr>"
  have "strip (u '' tea '') = u ''tea''" "utf8_encodable (u '' tea '')"
    by (simp_all add: strip_def py_space_def u_def utf8_encodable_def)
  then have "create_input (PDict [(u ''item'', PStr (u '' tea '')), (u ''quantity'', PInt 2),
      (u ''unit_price'', PInt 450)]) = Inr ?n"
    by (simp add: create_input_iff)
  then show ?thesis using create_input_normal_form [of _ ?n] by auto
qed

text \<open>C1: On an order the service made, \<open>transition\<close> either raises one of its three documented
  problems or moves to a successor in \<open>STATES\<close>: the version grows by exactly one and stays at
  most 3, nothing but status and version changes, and a shipped or cancelled order never moves.\<close>

theorem transition_outcomes:
  assumes "legal_stage (o_status x) (o_version x)"
  shows "case transition x data of
      Inr y \<Rightarrow> legal_stage (o_status y) (o_version y) \<and> o_version y = o_version x + 1
        \<and> o_version y \<le> 3 \<and> y = x\<lparr>o_status := o_status y, o_version := o_version y\<rparr>
        \<and> o_status x \<in> {u ''created'', u ''paid''}
    | Inl e \<Rightarrow> e \<in> {Problem 400 ''expected_version_required'', Problem 409 ''order_version_conflict'',
                   Problem 409 ''invalid_status_transition''}"
proof (cases "transition x data")
  case (Inr y)
  have "o_status x \<in> {u ''created'', u ''paid''}" "y = x\<lparr>o_status := o_status y, o_version := o_version y\<rparr>"
    using Inr by (auto simp: transition_iff states_def split: if_splits)
  with Inr transition_stage [OF Inr assms] transition_version [OF Inr] show ?thesis
    by (auto dest: legal_stage_bounds)
next
  case (Inl e)
  have "map_of states (o_status x) \<noteq> None"
    using legal_stage_known [OF assms] by (simp add: known_status_def)
  with Inl show ?thesis by (auto simp: transition_def split: pv.splits if_splits)
qed

theorem transition_outcomes_witness:
  "\<exists>y. transition (new_order (u ''n'') (u ''t'') \<lparr>n_item = u ''tea'', n_quantity = 2, n_unit_price = 450\<rparr>)
        (PDict [(u ''expected_version'', PInt 1), (u ''status'', PStr (u ''paid''))]) = Inr y
      \<and> legal_stage (o_status y) (o_version y) \<and> o_version y = 2"
proof -
  let ?x = "new_order (u ''n'') (u ''t'') \<lparr>n_item = u ''tea'', n_quantity = 2, n_unit_price = 450\<rparr>"
  let ?d = "PDict [(u ''expected_version'', PInt 1), (u ''status'', PStr (u ''paid''))]"
  have "legal_stage (o_status ?x) (o_version ?x)" by (simp add: new_order_def legal_stage_def)
  moreover have "transition ?x ?d = Inr (?x\<lparr>o_status := u ''paid'', o_version := 2\<rparr>)"
    by (simp add: transition_iff new_order_def states_def)
  ultimately show ?thesis using transition_outcomes [of ?x ?d] by auto
qed

text \<open>Producer and consumer agree: the event \<open>envelope\<close> builds from any order the service
  made passes \<open>validate_event\<close> and hands the consumer exactly that order.\<close>

theorem envelope_validates:
  "wf_order iso_ok x \<Longrightarrow> uuid_canonical ev \<Longrightarrow> validate_event iso_ok (envelope ev x) = Inr (order_value x)"
  by (rule validate_event_envelope)

definition sample_uuid :: "ustr" where
  "sample_uuid = u ''0f8fad5b-d9cb-469f-a165-70867728950e''"

definition sample_order :: "order_data" where
  "sample_order = new_order sample_uuid (u ''2024-05-01T10:00:00.000+00:00'')
     \<lparr>n_item = u ''tea'', n_quantity = 2, n_unit_price = 450\<rparr>"

lemma sample_uuid_canonical: "uuid_canonical sample_uuid"
  by (simp add: uuid_canonical_def sample_uuid_def u_def is_hex_lower_def is_digit_def)

lemma sample_order_wf: "wf_order (\<lambda>_. True) sample_order"
  unfolding sample_order_def
  by (rule new_order_wf)
    (simp_all add: sample_uuid_canonical wf_data_def strip_def py_space_def u_def utf8_encodable_def)

theorem envelope_validates_witness:
  "validate_event (\<lambda>_. True) (envelope sample_uuid sample_order) = Inr (order_value sample_order)"
  by (rule envelope_validates) (simp_all add: sample_uuid_canonical sample_order_wf)

text \<open>C3: Whatever \<open>validate_event\<close> accepts (from Kafka, Redis or Elasticsearch) is a schema
  version 1 event whose order has a canonical id, a known status, a version of at least 1, a
  total equal to quantity times price, fields within the input limits and a timestamp that parses.\<close>

theorem validate_event_sound:
  assumes "validate_event iso_ok event = Inr d"
  shows "\<exists>e i item q p v s t. event = PDict e \<and> dget e ''schema_version'' = PInt 1
    \<and> dget e ''order'' = PDict d \<and> dget d ''id'' = PStr i \<and> uuid_canonical i
    \<and> dget d ''item'' = PStr item \<and> dget d ''quantity'' = PInt q \<and> dget d ''unit_price'' = PInt p
    \<and> wf_data \<lparr>n_item = strip item, n_quantity = q, n_unit_price = p\<rparr>
    \<and> dget d ''total'' = PInt (q * p) \<and> dget d ''version'' = PInt v \<and> 1 \<le> v
    \<and> dget d ''status'' = PStr s \<and> known_status s \<and> dget d ''created_at'' = PStr t \<and> iso_ok t"
proof -
  obtain e where e: "event = PDict e" "dget e ''schema_version'' = PInt 1" "dget e ''order'' = PDict d"
    and i: "is_ok (order_identifier (dget d ''id''))" and c: "is_ok (create_input (PDict d))"
    and f: "validate_fields iso_ok d = Inr d"
    using validate_event_Inr [OF assms] by auto
  obtain n where n: "create_input (PDict d) = Inr n" using c by (auto simp: is_ok_iff)
  have "wf_data n" by (rule create_input_wf [OF n])
  with n obtain item where "dget d ''item'' = PStr item" "dget d ''quantity'' = PInt (n_quantity n)"
    "dget d ''unit_price'' = PInt (n_unit_price n)"
    "wf_data \<lparr>n_item = strip item, n_quantity = n_quantity n, n_unit_price = n_unit_price n\<rparr>"
    by (auto simp: create_input_iff wf_data_def)
  with e i validate_fields_Inr [OF f] show ?thesis by (auto simp: is_ok_iff)
qed

theorem validate_event_sound_witness:
  "\<exists>v. dget (order_value sample_order) ''version'' = PInt v \<and> 1 \<le> v"
  using validate_event_sound [of "\<lambda>_. True" "envelope sample_uuid sample_order" "order_value sample_order"]
    validate_event_envelope [OF sample_order_wf sample_uuid_canonical] by auto

text \<open>A client can follow its pages: the cursor of a page that has more rows is at most 1024
  characters of the cursor alphabet, and \<open>order_page_input\<close> accepts it with the same filter and
  resumes after the last row shown. \<open>loads\<close> is only asked to invert the encoding.\<close>

theorem next_cursor_accepted:
  assumes "pg_next_cursor (order_page_result rows limit q status) = Some c"
    and "1 \<le> limit" "limit \<le> 100"
    and "\<And>x. x \<in> set rows \<Longrightarrow> uuid_canonical (o_id x) \<and> iso_ok (o_created_at x)
            \<and> plain_ascii (o_created_at x) \<and> length (o_created_at x) \<le> 40"
    and "strip q = q" "length q \<le> 100" "utf8_encodable q" "status = [] \<or> known_status status"
    and loads: "loads (cursor_text (o_created_at (rows ! (limit - 1))) (o_id (rows ! (limit - 1))) q status)
      = Some (PList [PStr (o_created_at (rows ! (limit - 1))), PStr (o_id (rows ! (limit - 1))), PStr q, PStr status])"
  shows "let x = rows ! (limit - 1)
    in length c \<le> 1024
     \<and> order_page_input loads iso_ok [(u ''cursor'', PList [PStr c]), (u ''q'', PList [PStr q]),
                                      (u ''status'', PList [PStr status])]
       = Inr \<lparr>pq_limit = 25, pq_q = q, pq_status = status, pq_after = Some (o_created_at x, o_id x)\<rparr>"
proof -
  let ?x = "last (take limit rows)"
  have more: "limit < length rows" and c: "c = cursor_text (o_created_at ?x) (o_id ?x) q status"
    using assms(1) by (auto simp: order_page_result_def Let_def split: if_splits)
  have x: "?x = rows ! (limit - 1)" using more assms(2) by (subst last_conv_nth) auto
  have "?x \<in> set rows" using more assms(2) by (simp add: x)
  note row = assms(4) [OF this]
  have "page_cursor loads iso_ok c q status = Inr (o_created_at ?x, o_id ?x)"
    unfolding c using row assms loads by (intro page_cursor_cursor_text) (auto simp: x)
  moreover have "length c \<le> 1024"
    unfolding c using row assms uuid_plain known_status_plain by (intro cursor_text_bound) auto
  moreover have "c \<noteq> []" unfolding c by (rule cursor_text_class)
  moreover have "decimal (u ''25'') = 25" "class_match is_digit 1 3 (u ''25'')"
    by (simp_all add: decimal_def class_match_def is_digit_def u_def)
  ultimately show ?thesis using assms(5-8)
    by (auto simp: x order_page_input_def single_string_def query_value_def Let_def)
qed

definition sample_loads :: "ustr \<Rightarrow> pv option" where
  "sample_loads c = (if c = cursor_text (o_created_at sample_order) sample_uuid [] []
     then Some (PList [PStr (o_created_at sample_order), PStr sample_uuid, PStr [], PStr []]) else None)"


theorem next_cursor_accepted_witness:
  "\<exists>c. pg_next_cursor (order_page_result [sample_order, sample_order] 1 [] []) = Some c \<and> length c \<le> 1024
     \<and> is_ok (order_page_input sample_loads (\<lambda>_. True) [(u ''cursor'', PList [PStr c]),
         (u ''q'', PList [PStr []]), (u ''status'', PList [PStr []])])"
proof -
  let ?rows = "[sample_order, sample_order]"
  let ?c = "cursor_text (o_created_at sample_order) (o_id sample_order) [] []"
  have c: "pg_next_cursor (order_page_result ?rows 1 [] []) = Some ?c"
    by (simp add: order_page_result_def)
  have "plain_ascii (o_created_at sample_order)" "length (o_created_at sample_order) \<le> 40"
    "o_id sample_order = sample_uuid"
    by (simp_all add: sample_order_def new_order_def plain_ascii_def u_def)
  then show ?thesis
    using next_cursor_accepted [OF c, of "\<lambda>_. True" sample_loads] c sample_uuid_canonical
    by (simp add: sample_loads_def Let_def utf8_encodable_def)
qed

end
