(* ===== verification/Order_Store.thy ===== *)
theory Order_Store
  imports Core_Orders "HOL-Library.List_Lexorder" "HOL-Library.Product_Lexorder"
begin

text \<open>
  The class \<open>SQL\<close> of \<open>mvp-lab/mvp_app/adapters.py\<close> on an explicit state of its two tables.
  A statement is a function on that state; \<open>transaction\<close> runs a body of statements and
  commits, and its first argument says how the commit went: done, lost (nothing applied) or
  applied with an error returned (the client does not know). A payload is the parsed JSON of
  its column. Between the first read of \<open>create\<close> and its insert, and between a duplicate-key
  error and the second read, other transactions may run: \<open>seen\<close> is the snapshot the first
  read saw and \<open>later\<close> what other transactions do to the state in between.
\<close>

section \<open>Tables and transactions\<close>

record order_row = order_data +
  r_key :: ustr

record outbox_row =
  x_seq :: nat
  x_event_id :: ustr
  x_payload :: pv
  x_sent :: bool

record db =
  d_orders :: "order_row list"
  d_outbox :: "outbox_row list"
  d_seq :: nat

definition empty_db :: db where
  "empty_db = \<lparr>d_orders = [], d_outbox = [], d_seq = 1\<rparr>"

datatype commit = Commit_ok | Commit_lost exn | Commit_unknown exn

definition transaction :: "commit \<Rightarrow> ('d \<Rightarrow> ('a \<times> 'd) res) \<Rightarrow> 'd \<Rightarrow> 'a res \<times> 'd" where
  "transaction c body d = (case body d of
       Inl e \<Rightarrow> (Inl e, d)
     | Inr (a, d') \<Rightarrow> (case c of
           Commit_ok \<Rightarrow> (Inr a, d')
         | Commit_lost e \<Rightarrow> (Inl e, d)
         | Commit_unknown e \<Rightarrow> (Inl e, d')))"

definition public :: "order_row \<Rightarrow> order_data" where
  "public r = order_data.truncate r"

definition select_key :: "ustr \<Rightarrow> db \<Rightarrow> order_row option" where
  "select_key key d = find (\<lambda>r. r_key r = key) (d_orders d)"

definition select_id :: "ustr \<Rightarrow> db \<Rightarrow> order_row option" where
  "select_id oid d = find (\<lambda>r. o_id r = oid) (d_orders d)"

definition insert_order :: "order_row \<Rightarrow> db \<Rightarrow> db res" where
  "insert_order r d = (if \<exists>r'\<in>set (d_orders d). o_id r' = o_id r \<or> r_key r' = r_key r
     then Inl (Sql_Error 1062) else Inr (d\<lparr>d_orders := d_orders d @ [r]\<rparr>))"

definition insert_event :: "ustr \<Rightarrow> pv \<Rightarrow> db \<Rightarrow> db res" where
  "insert_event ev payload d = (if ev \<in> x_event_id ` set (d_outbox d) then Inl (Sql_Error 1062)
     else Inr (d\<lparr>d_outbox := d_outbox d @ [\<lparr>x_seq = d_seq d, x_event_id = ev,
                   x_payload = payload, x_sent = False\<rparr>], d_seq := d_seq d + 1\<rparr>))"

definition enqueue :: "ustr \<Rightarrow> order_data \<Rightarrow> db \<Rightarrow> db res" where
  "enqueue ev x d = insert_event ev (envelope ev x) d"

definition update_row :: "order_data \<Rightarrow> ustr \<Rightarrow> db \<Rightarrow> db" where
  "update_row x oid d = d\<lparr>d_orders := map (\<lambda>r. if o_id r = oid
       then r\<lparr>o_status := o_status x, o_version := o_version x\<rparr> else r) (d_orders d)\<rparr>"

section \<open>Operations\<close>

definition existing :: "order_row \<Rightarrow> new_data \<Rightarrow> (order_data \<times> bool) res" where
  "existing r data = (if o_item r \<noteq> n_item data \<or> o_quantity r \<noteq> n_quantity data
       \<or> o_unit_price r \<noteq> n_unit_price data
     then Inl (Problem 409 ''idempotency_key_reused_with_different_payload'')
     else Inr (public r, False))"

definition with_key :: "order_data \<Rightarrow> ustr \<Rightarrow> order_row" where
  "with_key x key = order_data.extend x \<lparr>r_key = key\<rparr>"

definition create_body ::
  "db \<Rightarrow> ustr \<Rightarrow> ustr \<Rightarrow> ustr \<Rightarrow> new_data \<Rightarrow> ustr \<Rightarrow> db \<Rightarrow> ((order_data \<times> bool) \<times> db) res" where
  "create_body seen oid ev now data key d = (case select_key key seen of
       Some r \<Rightarrow> bind_res (existing r data) (\<lambda>x. Inr (x, d))
     | None \<Rightarrow> (let x = new_order oid now data in
         bind_res (insert_order (with_key x key) d) (\<lambda>d1.
         bind_res (enqueue ev x d1) (\<lambda>d2. Inr ((x, True), d2)))))"

definition create_resolve ::
  "new_data \<Rightarrow> ustr \<Rightarrow> db \<Rightarrow> ((order_data \<times> bool) option \<times> db) res" where
  "create_resolve data key d = (case select_key key d of
       Some r \<Rightarrow> bind_res (existing r data) (\<lambda>x. Inr (Some x, d))
     | None \<Rightarrow> Inr (None, d))"

definition sql_create ::
  "db \<Rightarrow> (db \<Rightarrow> db) \<Rightarrow> commit \<Rightarrow> commit \<Rightarrow> ustr \<Rightarrow> ustr \<Rightarrow> ustr \<Rightarrow> new_data \<Rightarrow> ustr \<Rightarrow> db
     \<Rightarrow> (order_data \<times> bool) res \<times> db" where
  "sql_create seen later c1 c2 oid ev now data key d =
     (case transaction c1 (create_body seen oid ev now data key) d of
        (Inr r, d1) \<Rightarrow> (Inr r, d1)
      | (Inl e, d1) \<Rightarrow> if e \<noteq> Sql_Error 1062 then (Inl e, d1)
          else (case transaction c2 (create_resolve data key) (later d1) of
              (Inr (Some x), d2) \<Rightarrow> (Inr x, d2)
            | (Inr None, d2) \<Rightarrow> (Inl e, d2)
            | (Inl e', d2) \<Rightarrow> (Inl e', d2)))"

definition sql_get :: "ustr \<Rightarrow> db \<Rightarrow> order_data option" where
  "sql_get oid d = map_option public (select_id oid d)"

definition lookup_key :: "ustr \<Rightarrow> db \<Rightarrow> order_data option" where
  "lookup_key key d = map_option public (select_key key d)"

definition update_body :: "ustr \<Rightarrow> ustr \<Rightarrow> pv \<Rightarrow> db \<Rightarrow> (order_data \<times> db) res" where
  "update_body ev oid data d = (case select_id oid d of
       None \<Rightarrow> Inl (Problem 404 ''order_not_found'')
     | Some old \<Rightarrow> bind_res (transition (public old) data) (\<lambda>x.
         bind_res (enqueue ev x (update_row x oid d)) (\<lambda>d'. Inr (x, d'))))"

definition sql_update :: "commit \<Rightarrow> ustr \<Rightarrow> ustr \<Rightarrow> pv \<Rightarrow> db \<Rightarrow> order_data res \<times> db" where
  "sql_update c ev oid data d = transaction c (update_body ev oid data) d"

definition pending_one :: "db \<Rightarrow> (nat \<times> pv) option" where
  "pending_one d = (case sort_key x_seq (filter (\<lambda>r. \<not> x_sent r) (d_outbox d)) of
       [] \<Rightarrow> None | r # _ \<Rightarrow> Some (x_seq r, x_payload r))"

definition mark_sent :: "nat \<Rightarrow> db \<Rightarrow> db" where
  "mark_sent s d = d\<lparr>d_outbox := map (\<lambda>r. if x_seq r = s \<and> \<not> x_sent r then r\<lparr>x_sent := True\<rparr> else r)
                                      (d_outbox d)\<rparr>"

definition sql_status :: "db \<Rightarrow> nat \<times> nat" where
  "sql_status d = (length (d_orders d), length (filter (\<lambda>r. \<not> x_sent r) (d_outbox d)))"

section \<open>Listing, pages and the id scan\<close>

text \<open>
  \<open>LIKE ... ESCAPE '!'\<close>: \<open>ceq\<close> is equality of characters in the column's collation, \<open>lower\<close>
  the character map of \<open>LOWER\<close>.
\<close>

fun sql_like :: "(nat \<Rightarrow> nat \<Rightarrow> bool) \<Rightarrow> ustr \<Rightarrow> ustr \<Rightarrow> bool" where
  "sql_like ceq [] s = (s = [])"
| "sql_like ceq (p # ps) s =
     (if p = 37 then sql_like ceq ps s \<or> (case s of [] \<Rightarrow> False | _ # t \<Rightarrow> sql_like ceq (p # ps) t)
      else if p = 95 then (case s of [] \<Rightarrow> False | _ # t \<Rightarrow> sql_like ceq ps t)
      else if p = 33 then (case ps of
          [] \<Rightarrow> (case s of [] \<Rightarrow> False | c # t \<Rightarrow> ceq p c \<and> t = [])
        | p' # ps' \<Rightarrow> (case s of [] \<Rightarrow> False | c # t \<Rightarrow> ceq p' c \<and> sql_like ceq ps' t))
      else (case s of [] \<Rightarrow> False | c # t \<Rightarrow> ceq p c \<and> sql_like ceq ps t))"

text \<open>\<open>str.replace\<close> of a single character.\<close>

definition replace_char :: "nat \<Rightarrow> ustr \<Rightarrow> ustr \<Rightarrow> ustr" where
  "replace_char c r s = concat (map (\<lambda>x. if x = c then r else [x]) s)"

definition like_pattern :: "ustr \<Rightarrow> ustr" where
  "like_pattern q = u ''%'' @ replace_char 95 (u ''!_'') (replace_char 37 (u ''!%'')
                      (replace_char 33 (u ''!!'') q)) @ u ''%''"

definition page_match ::
  "(nat \<Rightarrow> nat) \<Rightarrow> (nat \<Rightarrow> nat \<Rightarrow> bool) \<Rightarrow> ustr \<Rightarrow> ustr \<Rightarrow> order_data \<Rightarrow> bool" where
  "page_match lower ceq q status x \<longleftrightarrow>
     (q = [] \<or> sql_like ceq (map lower (like_pattern q)) (map lower (o_item x))
        \<or> sql_like ceq (like_pattern q) (o_id x))
     \<and> (status = [] \<or> o_status x = status)"

definition page_key :: "order_data \<Rightarrow> ustr \<times> ustr" where
  "page_key x = (o_created_at x, o_id x)"

definition before_cursor :: "(ustr \<times> ustr) option \<Rightarrow> order_data \<Rightarrow> bool" where
  "before_cursor after x = (case after of None \<Rightarrow> True
     | Some (t, i) \<Rightarrow> o_created_at x < t \<or> (o_created_at x = t \<and> o_id x < i))"

definition newest_first :: "order_data list \<Rightarrow> order_data list" where
  "newest_first xs = rev (sort_key page_key xs)"

definition list_orders :: "db \<Rightarrow> order_data list" where
  "list_orders d = take 100 (newest_first (map public (d_orders d)))"

definition list_page ::
  "(nat \<Rightarrow> nat) \<Rightarrow> (nat \<Rightarrow> nat \<Rightarrow> bool) \<Rightarrow> nat \<Rightarrow> ustr \<Rightarrow> ustr \<Rightarrow> (ustr \<times> ustr) option \<Rightarrow> db \<Rightarrow> page" where
  "list_page lower ceq limit q status after d =
     order_page_result (take (limit + 1) (newest_first (filter (\<lambda>x. page_match lower ceq q status x
        \<and> before_cursor after x) (map public (d_orders d))))) limit q status"

definition scan_rows :: "ustr \<Rightarrow> db \<Rightarrow> order_data list" where
  "scan_rows last_id d = take 200 (sort_key o_id (filter (\<lambda>x. last_id < o_id x) (map public (d_orders d))))"

function sql_scan :: "ustr \<Rightarrow> db \<Rightarrow> order_data list" where
  "sql_scan last_id d = (let rows = scan_rows last_id d in
     if rows = [] then [] else rows @ sql_scan (o_id (last rows)) d)"
  by pat_completeness auto

lemma scan_rows_gt: "x \<in> set (scan_rows i d) \<Longrightarrow> i < o_id x \<and> x \<in> public ` set (d_orders d)"
  by (auto simp: scan_rows_def dest!: in_set_takeD)

termination sql_scan
proof (relation "measure (\<lambda>(i, d). length (filter (\<lambda>x. i < o_id x) (map public (d_orders d))))")
  fix i d rows
  assume rows: "rows = scan_rows i d" "rows \<noteq> []"
  let ?j = "o_id (last rows)"
  have "last rows \<in> set (scan_rows i d)" using rows by auto
  from scan_rows_gt [OF this] have gt: "i < ?j" and mem: "last rows \<in> set (map public (d_orders d))"
    by auto
  have "length (filter (\<lambda>x. ?j < o_id x) xs) < length (filter (\<lambda>x. i < o_id x) xs)"
    if "last rows \<in> set xs" for xs :: "order_data list"
  proof -
    have "filter (\<lambda>x. ?j < o_id x) xs = filter (\<lambda>x. ?j < o_id x) (filter (\<lambda>x. i < o_id x) xs)"
      using gt by (auto intro!: filter_cong)
    also have "length \<dots> < length (filter (\<lambda>x. i < o_id x) xs)"
      using that gt by (intro length_filter_less [of "last rows"]) auto
    finally show ?thesis .
  qed
  from this [OF mem] show "((?j, d), (i, d)) \<in> measure (\<lambda>(i, d). length (filter (\<lambda>x. i < o_id x)
      (map public (d_orders d))))" by (simp del: filter_map)
qed simp

declare sql_scan.simps [simp del]

section \<open>The invariant of the store\<close>

text \<open>Reading the order back from an event or a document whose fields have the right types.\<close>

definition str_of :: "pv \<Rightarrow> ustr" where
  "str_of v = (case v of PStr s \<Rightarrow> s | _ \<Rightarrow> [])"

definition int_of :: "pv \<Rightarrow> int" where
  "int_of v = (case v of PInt n \<Rightarrow> n | _ \<Rightarrow> 0)"

definition value_order :: "pdict \<Rightarrow> order_data" where
  "value_order d = \<lparr>o_id = str_of (dget d ''id''), o_item = str_of (dget d ''item''),
     o_quantity = int_of (dget d ''quantity''), o_unit_price = int_of (dget d ''unit_price''),
     o_total = int_of (dget d ''total''), o_status = str_of (dget d ''status''),
     o_version = int_of (dget d ''version''), o_created_at = str_of (dget d ''created_at'')\<rparr>"

definition event_order :: "pv \<Rightarrow> order_data" where
  "event_order e = (case e of PDict d \<Rightarrow> (case dget d ''order'' of PDict x \<Rightarrow> value_order x
      | _ \<Rightarrow> value_order []) | _ \<Rightarrow> value_order [])"

lemma value_order_value [simp]: "value_order (order_value x) = x"
  by (simp add: value_order_def str_of_def int_of_def)

lemma event_order_envelope [simp]: "event_order (envelope ev x) = x"
  by (simp add: event_order_def envelope_def)

text \<open>The versions of one order the outbox holds, in outbox order.\<close>

definition outbox_orders :: "db \<Rightarrow> order_data list" where
  "outbox_orders d = map (event_order \<circ> x_payload) (d_outbox d)"

definition history :: "ustr \<Rightarrow> db \<Rightarrow> order_data list" where
  "history oid d = filter (\<lambda>x. o_id x = oid) (outbox_orders d)"

text \<open>Everything about an order that no update changes.\<close>

definition same_order :: "order_data \<Rightarrow> order_data \<Rightarrow> bool" where
  "same_order x y \<longleftrightarrow> o_id x = o_id y \<and> order_data_of x = order_data_of y
     \<and> o_total x = o_total y \<and> o_created_at x = o_created_at y"

definition full_history :: "(ustr \<Rightarrow> bool) \<Rightarrow> order_data \<Rightarrow> order_data list \<Rightarrow> bool" where
  "full_history iso_ok x h \<longleftrightarrow> map o_version h = [1..o_version x] \<and> h \<noteq> [] \<and> last h = x
     \<and> (\<forall>y\<in>set h. wf_order iso_ok y \<and> same_order y x)"

text \<open>A row of the outbox is the envelope of a version of a stored order.\<close>

definition event_for :: "ustr set \<Rightarrow> outbox_row \<Rightarrow> bool" where
  "event_for ids r \<longleftrightarrow> (let y = event_order (x_payload r) in
     x_payload r = envelope (x_event_id r) y \<and> uuid_canonical (x_event_id r) \<and> o_id y \<in> ids)"

lemma event_for_mono: "event_for A r \<Longrightarrow> A \<subseteq> B \<Longrightarrow> event_for B r"
  by (auto simp: event_for_def Let_def)

lemma event_for_envelope [simp]:
  "event_for A \<lparr>x_seq = n, x_event_id = ev, x_payload = envelope ev x, x_sent = b\<rparr>
     \<longleftrightarrow> uuid_canonical ev \<and> o_id x \<in> A"
  by (simp add: event_for_def)

lemma event_for_sent [simp]: "event_for A (r\<lparr>x_sent := b\<rparr>) = event_for A r"
  by (simp add: event_for_def)

definition wf_db :: "(ustr \<Rightarrow> bool) \<Rightarrow> db \<Rightarrow> bool" where
  "wf_db iso_ok d \<longleftrightarrow> distinct (map o_id (d_orders d)) \<and> distinct (map r_key (d_orders d))
     \<and> (\<forall>r\<in>set (d_orders d). full_history iso_ok (public r) (history (o_id r) d))
     \<and> (\<forall>r\<in>set (d_outbox d). event_for (o_id ` set (d_orders d)) r)
     \<and> distinct (map x_event_id (d_outbox d))
     \<and> sorted_wrt (<) (map x_seq (d_outbox d)) \<and> (\<forall>r\<in>set (d_outbox d). x_seq r < d_seq d)"

lemma wf_empty_db: "wf_db iso_ok empty_db"
  by (simp add: wf_db_def empty_db_def)

lemma public_simps [simp]:
  "o_id (public r) = o_id r" "o_item (public r) = o_item r" "o_quantity (public r) = o_quantity r"
  "o_unit_price (public r) = o_unit_price r" "o_total (public r) = o_total r"
  "o_status (public r) = o_status r" "o_version (public r) = o_version r"
  "o_created_at (public r) = o_created_at r"
  by (simp_all add: public_def order_data.truncate_def)

lemma public_with_key [simp]: "public (with_key x key) = x" "r_key (with_key x key) = key"
  by (simp_all add: public_def with_key_def order_data.defs)

lemma public_status_update:
  "public (r\<lparr>o_status := s, o_version := n\<rparr>) = (public r)\<lparr>o_status := s, o_version := n\<rparr>"
  by (simp add: public_def order_data.defs)

lemma full_history_wf: "full_history iso_ok x h \<Longrightarrow> wf_order iso_ok x"
  by (auto simp: full_history_def)

lemma select_key_Some: "select_key key d = Some r \<Longrightarrow> r \<in> set (d_orders d) \<and> r_key r = key"
  unfolding select_key_def by (drule find_SomeD) simp

lemma select_key_None: "select_key key d = None \<longleftrightarrow> key \<notin> r_key ` set (d_orders d)"
  by (simp add: select_key_def find_None_map)

lemma select_id_Some: "select_id i d = Some r \<Longrightarrow> r \<in> set (d_orders d) \<and> o_id r = i"
  unfolding select_id_def by (drule find_SomeD) simp

lemma select_id_None: "select_id i d = None \<longleftrightarrow> i \<notin> o_id ` set (d_orders d)"
  by (simp add: select_id_def find_None_map)

lemma select_key_row:
  "wf_db iso_ok d \<Longrightarrow> r \<in> set (d_orders d) \<Longrightarrow> select_key (r_key r) d = Some r"
  unfolding select_key_def wf_db_def by (intro find_distinct_map) auto

lemma select_id_row:
  "wf_db iso_ok d \<Longrightarrow> r \<in> set (d_orders d) \<Longrightarrow> select_id (o_id r) d = Some r"
  unfolding select_id_def wf_db_def by (intro find_distinct_map) auto

section \<open>Every operation keeps the invariant\<close>

lemma history_append:
  "history i (d\<lparr>d_orders := os, d_outbox := d_outbox d @ [\<lparr>x_seq = s, x_event_id = ev,
     x_payload = envelope ev x, x_sent = b\<rparr>], d_seq := n\<rparr>)
   = history i d @ (if o_id x = i then [x] else [])"
  by (simp add: history_def outbox_orders_def)

lemma history_unknown:
  assumes "wf_db iso_ok d" "i \<notin> o_id ` set (d_orders d)"
  shows "history i d = []"
proof -
  have "o_id (event_order (x_payload r)) \<noteq> i" if "r \<in> set (d_outbox d)" for r
    using assms that by (auto simp: wf_db_def event_for_def Let_def)
  then show ?thesis by (auto simp: history_def outbox_orders_def filter_empty_conv)
qed

lemma sorted_seq_append:
  "sorted_wrt (<) (map x_seq xs) \<Longrightarrow> (\<forall>r\<in>set xs. x_seq r < n) \<Longrightarrow> sorted_wrt (<) (map x_seq xs @ [n])"
  by (auto simp: sorted_wrt_append)

lemma create_new_wf:
  assumes wf: "wf_db iso_ok d" and x: "x = new_order oid now data"
    and d1: "insert_order (with_key x key) d = Inr d1" and d2: "enqueue ev x d1 = Inr d2"
    and data: "wf_data data" and ids: "uuid_canonical oid" "uuid_canonical ev" "iso_ok now"
  shows "wf_db iso_ok d2 \<and> d_orders d2 = d_orders d @ [with_key x key]"
proof -
  let ?r = "with_key x key"
  have r: "o_id ?r = oid" "r_key ?r = key" and v: "o_version x = 1"
    by (simp_all add: x with_key_def order_data.defs new_order_def)
  have fresh: "oid \<notin> o_id ` set (d_orders d)" "key \<notin> r_key ` set (d_orders d)"
    and d1': "d1 = d\<lparr>d_orders := d_orders d @ [?r]\<rparr>"
    using d1 r by (auto simp: insert_order_def split: if_splits)
  have ev: "ev \<notin> x_event_id ` set (d_outbox d)"
    and d2': "d2 = d\<lparr>d_orders := d_orders d @ [?r], d_outbox := d_outbox d @
       [\<lparr>x_seq = d_seq d, x_event_id = ev, x_payload = envelope ev x, x_sent = False\<rparr>],
       d_seq := d_seq d + 1\<rparr>"
    using d2 by (auto simp: enqueue_def insert_event_def d1' split: if_splits)
  have "wf_order iso_ok x" unfolding x using data ids by (intro new_order_wf)
  moreover have "o_id x = oid" by (simp add: x new_order_def)
  ultimately have "full_history iso_ok (public ?r) (history (o_id ?r) d2)"
    unfolding d2' history_append r history_unknown [OF wf fresh(1)]
    by (simp add: full_history_def v same_order_def)
  moreover have "full_history iso_ok (public r) (history (o_id r) d2)" if "r \<in> set (d_orders d)" for r
    using that wf fresh \<open>o_id x = oid\<close> unfolding d2' history_append by (auto simp: wf_db_def)
  ultimately have "\<forall>r\<in>set (d_orders d2). full_history iso_ok (public r) (history (o_id r) d2)"
    unfolding d2' by simp
  moreover have "d_orders d2 = d_orders d @ [?r]" by (simp add: d2')
  moreover have "sorted_wrt (<) (map x_seq (d_outbox d2))"
    using wf by (simp add: d2' wf_db_def sorted_seq_append)
  ultimately show ?thesis
    using wf fresh ev ids r \<open>o_id x = oid\<close> by (auto simp: d2' wf_db_def less_Suc_eq intro: event_for_mono)
qed

lemma history_cong: "d_outbox d = d_outbox d' \<Longrightarrow> history i d = history i d'"
  by (simp add: history_def outbox_orders_def)

lemma update_row_simps [simp]:
  "map o_id (d_orders (update_row x i d)) = map o_id (d_orders d)"
  "map r_key (d_orders (update_row x i d)) = map r_key (d_orders d)"
  "d_outbox (update_row x i d) = d_outbox d" "d_seq (update_row x i d) = d_seq d"
  by (simp_all add: update_row_def)

lemma full_history_snoc:
  assumes "full_history iso_ok y h" "transition y data = Inr x"
  shows "full_history iso_ok x (h @ [x])"
proof -
  have x: "wf_order iso_ok x" "o_version x = o_version y + 1" "same_order y x"
    using transition_wf [OF assms(2) full_history_wf [OF assms(1)]] transition_version [OF assms(2)]
      assms(2) by (auto simp: same_order_def transition_iff order_data_of_def)
  moreover have "1 \<le> o_version y"
    using full_history_wf [OF assms(1)] by (auto simp: wf_order_def dest: legal_stage_bounds)
  moreover have "same_order x x" by (simp add: same_order_def)
  ultimately show ?thesis
    using assms(1) by (auto simp: full_history_def same_order_def upto_rec2)
qed

lemma update_wf:
  assumes wf: "wf_db iso_ok d" and old: "select_id i d = Some old" and x: "transition (public old) data = Inr x"
    and d2: "enqueue ev x (update_row x i d) = Inr d2" and ev: "uuid_canonical ev"
  shows "wf_db iso_ok d2 \<and> sql_get i d2 = Some x \<and> history i d2 = history i d @ [x]"
proof -
  have mem: "old \<in> set (d_orders d)" "o_id old = i" using select_id_Some [OF old] by auto
  have xi: "o_id x = i" using transition_id [OF x] mem by simp
  have new: "ev \<notin> x_event_id ` set (d_outbox d)"
    and d2': "d2 = (update_row x i d)\<lparr>d_outbox := d_outbox d @
       [\<lparr>x_seq = d_seq d, x_event_id = ev, x_payload = envelope ev x, x_sent = False\<rparr>],
       d_seq := d_seq d + 1\<rparr>"
    using d2 by (auto simp: enqueue_def insert_event_def split: if_splits)
  have h: "history j d2 = history j d @ (if j = i then [x] else [])" for j
    using xi by (simp add: d2' history_def outbox_orders_def)
  have ids: "map o_id (d_orders d2) = map o_id (d_orders d)" "map r_key (d_orders d2) = map r_key (d_orders d)"
    by (simp_all add: d2')
  have idset: "o_id ` set (d_orders d2) = o_id ` set (d_orders d)"
    using ids(1) by (metis list.set_map)
  have px: "public (old\<lparr>o_status := o_status x, o_version := o_version x\<rparr>) = x"
    unfolding public_status_update using x by (auto simp: transition_iff)
  have rows: "full_history iso_ok (public r) (history (o_id r) d2)" if "r \<in> set (d_orders d2)" for r
  proof (cases "o_id r = i")
    case True
    have "r \<in> (\<lambda>r0. if o_id r0 = i then r0\<lparr>o_status := o_status x, o_version := o_version x\<rparr> else r0)
        ` set (d_orders d)"
      using that unfolding d2' update_row_def by (simp del: if_image_distrib)
    then obtain r0 where r0: "r0 \<in> set (d_orders d)"
      "r = (if o_id r0 = i then r0\<lparr>o_status := o_status x, o_version := o_version x\<rparr> else r0)"
      by (rule imageE)
    with True have "o_id r0 = i" by (auto split: if_splits)
    with r0 have "r0 \<in> set (d_orders d)" "o_id r0 = i"
      "r = r0\<lparr>o_status := o_status x, o_version := o_version x\<rparr>" by auto
    moreover from this mem wf have "r0 = old" by (auto simp: wf_db_def distinct_map inj_on_def)
    moreover have "full_history iso_ok (public old) (history i d)" using mem wf by (auto simp: wf_db_def)
    ultimately show ?thesis using full_history_snoc [OF _ x] px True by (simp add: h)
  next
    case False
    then have "r \<in> set (d_orders d)" using that by (auto simp: d2' update_row_def split: if_splits)
    with wf False show ?thesis by (simp add: h wf_db_def)
  qed
  have "sorted_wrt (<) (map x_seq (d_outbox d2))"
    using wf by (simp add: d2' wf_db_def sorted_seq_append)
  moreover have "i \<in> o_id ` set (d_orders d)" using mem by auto
  ultimately have wf2: "wf_db iso_ok d2"
    using wf rows new ev xi ids idset unfolding wf_db_def by (auto simp: d2' less_Suc_eq)
  let ?r = "old\<lparr>o_status := o_status x, o_version := o_version x\<rparr>"
  have "?r \<in> set (d_orders d2)" using mem by (force simp: d2' update_row_def)
  from select_id_row [OF wf2 this] mem have "select_id i d2 = Some ?r" by simp
  with wf2 h px show ?thesis by (simp add: sql_get_def)
qed

lemma mark_sent_orders [simp]: "d_orders (mark_sent s d) = d_orders d" "d_seq (mark_sent s d) = d_seq d"
  by (simp_all add: mark_sent_def)

lemma mark_sent_outbox:
  "map x_payload (d_outbox (mark_sent s d)) = map x_payload (d_outbox d)"
  "map x_event_id (d_outbox (mark_sent s d)) = map x_event_id (d_outbox d)"
  "map x_seq (d_outbox (mark_sent s d)) = map x_seq (d_outbox d)"
  by (simp_all add: mark_sent_def)

lemma history_mark_sent [simp]: "history i (mark_sent s d) = history i d"
proof -
  have "map event_order (map x_payload (d_outbox (mark_sent s d)))
      = map event_order (map x_payload (d_outbox d))"
    by (simp only: mark_sent_outbox)
  then show ?thesis by (simp add: history_def outbox_orders_def)
qed

lemma mark_sent_wf: "wf_db iso_ok d \<Longrightarrow> wf_db iso_ok (mark_sent s d)"
proof -
  assume wf: "wf_db iso_ok d"
  have "event_for (o_id ` set (d_orders d)) r" "x_seq r < d_seq d" if "r \<in> set (d_outbox (mark_sent s d))" for r
    using that wf by (auto simp: mark_sent_def wf_db_def split: if_splits)
  then show ?thesis using wf by (simp add: wf_db_def mark_sent_outbox)
qed

section \<open>Creating an order once\<close>

text \<open>What happens to the rows over time: they keep their key and all that updates leave alone.\<close>

definition grown :: "db \<Rightarrow> db \<Rightarrow> bool" where
  "grown d d' \<longleftrightarrow> (\<forall>r\<in>set (d_orders d). \<exists>r'\<in>set (d_orders d').
     r_key r' = r_key r \<and> same_order (public r') (public r))"

lemma same_order_refl [simp]: "same_order x x"
  by (simp add: same_order_def)

lemma same_order_trans: "same_order x y \<Longrightarrow> same_order y z \<Longrightarrow> same_order x z"
  by (simp add: same_order_def)

lemma same_order_sym: "same_order x y \<Longrightarrow> same_order y x"
  by (simp add: same_order_def)

lemma grown_refl [simp]: "grown d d"
  by (auto simp: grown_def)

lemma grown_trans: "grown d d' \<Longrightarrow> grown d' d'' \<Longrightarrow> grown d d''"
  unfolding grown_def by (metis same_order_trans)

lemma grown_append: "d_orders d' = d_orders d @ rs \<Longrightarrow> grown d d'"
  by (auto simp: grown_def)

text \<open>The store holds exactly one order for the key, and it is this one, with this payload.\<close>

definition resolved :: "ustr \<Rightarrow> new_data \<Rightarrow> order_data \<Rightarrow> db \<Rightarrow> bool" where
  "resolved key data x d \<longleftrightarrow> (\<exists>r. filter (\<lambda>r. r_key r = key) (d_orders d) = [r]
     \<and> same_order (public r) x) \<and> order_data_of x = data"

lemma filter_key_single:
  "distinct (map f xs) \<Longrightarrow> r \<in> set xs \<Longrightarrow> filter (\<lambda>x. f x = f r) xs = [r]"
proof (induction xs)
  case (Cons a xs)
  have "filter (\<lambda>x. f x = f a) xs = []"
    using Cons.prems by (auto simp: filter_empty_conv image_iff)
  with Cons show ?case by (cases "r = a") (auto simp: image_iff)
qed simp

lemma resolvedI:
  assumes "wf_db iso_ok d" "r \<in> set (d_orders d)" "r_key r = key" "same_order (public r) x"
    "order_data_of x = data"
  shows "resolved key data x d"
  using assms filter_key_single [of r_key "d_orders d" r] by (auto simp: resolved_def wf_db_def)

lemma existing_Inr:
  "existing r data = Inr (x, made) \<Longrightarrow> x = public r \<and> \<not> made \<and> order_data_of x = data"
  by (auto simp: existing_def order_data_of_def split: if_splits)

lemma order_data_of_new_order [simp]: "order_data_of (new_order i t n) = n"
  by (simp add: order_data_of_def new_order_def)

lemma create_body_sound:
  assumes wf: "wf_db iso_ok d" and seen: "grown seen d" and data: "wf_data data"
    and ids: "uuid_canonical oid" "uuid_canonical ev" "iso_ok now"
    and run: "create_body seen oid ev now data key d = Inr ((x, made), d')"
  shows "wf_db iso_ok d' \<and> grown d d' \<and> resolved key data x d'
    \<and> (if made then key \<notin> r_key ` set (d_orders d) \<and> x = new_order oid now data \<and> history oid d' = [x]
       else d' = d)"
proof (cases "select_key key seen")
  case (Some r)
  with run have e: "existing r data = Inr (x, made)" "d' = d"
    by (auto simp: create_body_def bind_res_Inr_iff)
  obtain r' where r': "r' \<in> set (d_orders d)" "r_key r' = key" "same_order (public r') (public r)"
    using seen select_key_Some [OF Some] by (auto simp: grown_def)
  with e show ?thesis using wf resolvedI [OF wf r'(1,2)] existing_Inr [OF e(1)] by auto
next
  case None
  with run obtain d1 where d1: "insert_order (with_key (new_order oid now data) key) d = Inr d1"
    and d2: "enqueue ev (new_order oid now data) d1 = Inr d'" and x: "x = new_order oid now data" "made"
    by (auto simp: create_body_def bind_res_Inr_iff Let_def)
  have w: "wf_db iso_ok d'" and o': "d_orders d' = d_orders d @ [with_key x key]"
    using create_new_wf [OF wf refl d1 d2 data ids] x by auto
  have "key \<notin> r_key ` set (d_orders d)" "oid \<notin> o_id ` set (d_orders d)"
    using d1 by (auto simp: insert_order_def with_key_def order_data.defs new_order_def split: if_splits)
  moreover have "history oid d' = [x]"
    using d1 d2 history_unknown [OF wf calculation(2)] x
    by (auto simp: insert_order_def enqueue_def insert_event_def history_append history_def
        outbox_orders_def new_order_def split: if_splits)
  moreover have "resolved key data x d'"
    using w x by (intro resolvedI [of iso_ok _ "with_key x key"]) (simp_all add: o')
  ultimately show ?thesis using w x grown_append [OF o'] by simp
qed

lemma create_resolve_sound:
  assumes wf: "wf_db iso_ok d" and run: "create_resolve data key d = Inr (res, d')"
  shows "d' = d \<and> (\<forall>x made. res = Some (x, made) \<longrightarrow> \<not> made \<and> resolved key data x d)"
proof (cases "select_key key d")
  case (Some r)
  with run obtain y where y: "existing r data = Inr y" "res = Some y" "d' = d"
    by (auto simp: create_resolve_def bind_res_Inr_iff)
  have "resolved key data x d" if "y = (x, made)" for x made
    using existing_Inr [of r data x made] y that select_key_Some [OF Some]
    by (intro resolvedI [OF wf]) auto
  moreover have "\<not> made" if "y = (x, made)" for x made
    using existing_Inr [of r data x made] y that by simp
  ultimately show ?thesis using y by auto
qed (use run in \<open>simp add: create_resolve_def\<close>)

lemma transaction_cases:
  assumes "transaction c body d = (r, d')"
  obtains (unchanged) e where "r = Inl e" "d' = d"
  | (committed) a where "body d = Inr (a, d')" "c = Commit_ok" "r = Inr a"
  | (applied) a e where "body d = Inr (a, d')" "c = Commit_unknown e" "r = Inl e"
  using assms by (cases "body d"; cases c) (auto simp: transaction_def)

section \<open>Keyset pages\<close>

lemma filter_beyond:
  assumes "sorted_wrt (\<lambda>x y. r (f x) (f y)) xs" "n < length xs"
    and "\<And>x y. r x y \<Longrightarrow> \<not> r y x" "\<And>x. \<not> r x x"
  shows "filter (\<lambda>x. r (f (xs ! n)) (f x)) xs = drop (Suc n) xs"
  using assms
proof (induction xs arbitrary: n)
  case (Cons a xs)
  show ?case
  proof (cases n)
    case 0
    with Cons.prems show ?thesis by (auto simp: filter_id_conv)
  next
    case (Suc m)
    with Cons.prems have "r (f a) (f (xs ! m))" by auto
    with Cons Suc show ?thesis by auto
  qed
qed simp

lemma sort_key_strict:
  assumes "distinct (map f xs)"
  shows "sorted_wrt (\<lambda>x y. f x < f y) (sort_key f xs)"
proof -
  have "distinct (map f (sort_key f xs))"
    using assms by (simp add: distinct_map)
  then have "sorted_wrt (<) (map f (sort_key f xs))"
    by (simp add: strict_sorted_iff)
  then show ?thesis by (simp add: sorted_wrt_map)
qed

lemma newest_first_strict:
  assumes "distinct (map o_id xs)"
  shows "sorted_wrt (\<lambda>x y. page_key y < page_key x) (newest_first xs)"
proof -
  have "distinct (map page_key xs)"
    using assms by (auto simp: distinct_map inj_on_def page_key_def)
  from sort_key_strict [OF this] show ?thesis
    by (simp add: newest_first_def sorted_wrt_rev)
qed

lemma filter_newest_first: "filter p (newest_first xs) = newest_first (filter p xs)"
  by (simp add: newest_first_def filter_sort rev_filter [symmetric])

lemma before_cursor_less: "before_cursor (Some (page_key y)) x \<longleftrightarrow> page_key x < page_key y"
  by (auto simp: before_cursor_def page_key_def less_prod_def)

text \<open>Everything a filter selects, newest first, and the part after a row of it.\<close>

definition matching :: "(nat \<Rightarrow> nat) \<Rightarrow> (nat \<Rightarrow> nat \<Rightarrow> bool) \<Rightarrow> ustr \<Rightarrow> ustr \<Rightarrow> db \<Rightarrow> order_data list" where
  "matching lower ceq q status d =
     newest_first (filter (page_match lower ceq q status) (map public (d_orders d)))"

lemma matching_strict:
  "wf_db iso_ok d \<Longrightarrow> sorted_wrt (\<lambda>x y. page_key y < page_key x) (matching lower ceq q status d)"
  unfolding matching_def
  by (rule newest_first_strict) (auto simp: wf_db_def distinct_map_filter comp_def simp del: filter_map)

lemma page_rows_first:
  "newest_first (filter (\<lambda>x. page_match lower ceq q status x \<and> before_cursor None x) (map public (d_orders d)))
   = matching lower ceq q status d"
  by (simp add: matching_def before_cursor_def)

lemma page_rows_after:
  assumes "wf_db iso_ok d" "n < length (matching lower ceq q status d)"
  shows "newest_first (filter (\<lambda>x. page_match lower ceq q status x
        \<and> before_cursor (Some (page_key (matching lower ceq q status d ! n))) x) (map public (d_orders d)))
     = drop (Suc n) (matching lower ceq q status d)"
proof -
  let ?all = "matching lower ceq q status d"
  have "newest_first (filter (\<lambda>x. page_match lower ceq q status x
        \<and> before_cursor (Some (page_key (?all ! n))) x) (map public (d_orders d)))
    = filter (\<lambda>x. page_key x < page_key (?all ! n)) ?all"
    unfolding matching_def filter_newest_first filter_filter
    by (simp add: before_cursor_less conj_commute del: filter_map)
  also have "\<dots> = drop (Suc n) ?all"
    using filter_beyond [of "(>)" page_key, OF matching_strict [OF assms(1)] assms(2)] by simp
  finally show ?thesis .
qed

lemma order_page_result_take:
  "order_page_result (take (limit + 1) rows) limit q status = order_page_result rows limit q status"
  by (auto simp: order_page_result_def Let_def min_def)

section \<open>The id scan reads every order\<close>

lemma sql_scan_sorted:
  "distinct (map o_id (d_orders d)) \<Longrightarrow>
   sql_scan i d = sort_key o_id (filter (\<lambda>x. i < o_id x) (map public (d_orders d)))"
proof (induction i d rule: sql_scan.induct)
  case (1 i d)
  let ?rows = "map public (d_orders d)"
  let ?s = "sort_key o_id (filter (\<lambda>x. i < o_id x) ?rows)"
  have rows: "scan_rows i d = take 200 ?s" by (simp add: scan_rows_def)
  show ?case
  proof (cases "?s = []")
    case True
    then show ?thesis using rows by (simp add: sql_scan.simps [of i d])
  next
    case False
    let ?n = "min 200 (length ?s) - 1"
    from False have "0 < length ?s" by (simp only: length_greater_0_conv not_False_eq_True)
    then have n: "?n < length ?s" "take 200 ?s = take (Suc ?n) ?s"
      by (auto simp: min_def simp del: length_sort filter_map)
    have last: "last (scan_rows i d) = ?s ! ?n"
      unfolding rows n(2) using n(1) by (simp add: take_Suc_conv_app_nth del: filter_map)
    have "distinct (map o_id (filter (\<lambda>x. i < o_id x) ?rows))"
      using 1(2) by (intro distinct_map_filter) (simp add: comp_def)
    then have "filter (\<lambda>x. o_id (?s ! ?n) < o_id x) ?s = drop (Suc ?n) ?s"
      by (intro filter_beyond [of "(<)" o_id] sort_key_strict n(1)) (assumption | erule less_not_sym | rule less_irrefl)+
    moreover have "i < o_id (?s ! ?n)" using nth_mem [OF n(1)] by (simp del: filter_map)
    then have "filter (\<lambda>x. o_id (?s ! ?n) < o_id x) ?s
        = sort_key o_id (filter (\<lambda>x. o_id (?s ! ?n) < o_id x) ?rows)"
      unfolding filter_sort filter_filter by (intro arg_cong [where f = "sort_key o_id"] filter_cong) auto
    moreover have "sql_scan (o_id (last (scan_rows i d))) d
        = sort_key o_id (filter (\<lambda>x. o_id (?s ! ?n) < o_id x) ?rows)"
      using 1(1) [OF refl _ 1(2)] False last by (simp add: rows del: filter_map)
    ultimately have "sql_scan i d = take (Suc ?n) ?s @ drop (Suc ?n) ?s"
      using False rows n(2) by (simp add: sql_scan.simps [of i d] Let_def del: filter_map)
    then show ?thesis by simp
  qed
qed

section \<open>The text filter is literal\<close>

definition contains :: "(nat \<Rightarrow> nat \<Rightarrow> bool) \<Rightarrow> ustr \<Rightarrow> ustr \<Rightarrow> bool" where
  "contains ceq q s \<longleftrightarrow> (\<exists>a b c. s = a @ b @ c \<and> list_all2 ceq q b)"

definition escape_char :: "nat \<Rightarrow> ustr" where
  "escape_char c = (if c \<in> {33, 37, 95} then [33, c] else [c])"

lemma like_pattern_escape: "like_pattern q = 37 # concat (map escape_char q) @ [37]"
proof -
  have "u ''%'' = [37]" "u ''!_'' = [33, 95]" "u ''!%'' = [33, 37]" "u ''!!'' = [33, 33]"
    by (simp_all add: u_def)
  moreover have "replace_char 95 [33, 95] (replace_char 37 [33, 37] (replace_char 33 [33, 33] q))
      = concat (map escape_char q)"
    by (induction q) (auto simp: replace_char_def escape_char_def)
  ultimately show ?thesis by (simp add: like_pattern_def)
qed

lemma sql_like_percent: "sql_like ceq (37 # ps) s \<longleftrightarrow> (\<exists>a c. s = a @ c \<and> sql_like ceq ps c)"
proof (induction s)
  case (Cons x s)
  then show ?case by (simp add: Cons_eq_append_conv) (metis append_Cons append_Nil)
qed simp

lemma sql_like_escaped:
  "sql_like ceq (concat (map escape_char q) @ ps) s
     \<longleftrightarrow> (\<exists>b c. s = b @ c \<and> list_all2 ceq q b \<and> sql_like ceq ps c)"
proof (induction q arbitrary: s)
  case (Cons x q)
  have "sql_like ceq (concat (map escape_char (x # q)) @ ps) s
      \<longleftrightarrow> (\<exists>y t. s = y # t \<and> ceq x y \<and> sql_like ceq (concat (map escape_char q) @ ps) t)"
    by (cases s) (auto simp: escape_char_def)
  also have "\<dots> \<longleftrightarrow> (\<exists>b c. s = b @ c \<and> list_all2 ceq (x # q) b \<and> sql_like ceq ps c)"
    by (simp only: Cons.IH list_all2_Cons1) (metis append_Cons)
  finally show ?case .
qed simp

lemma sql_like_pattern: "sql_like ceq (like_pattern q) s \<longleftrightarrow> contains ceq q s"
  by (simp only: like_pattern_escape sql_like_percent sql_like_escaped contains_def append_Cons append_Nil)
    auto

lemma lower_like_pattern:
  assumes "\<And>c x. x \<in> {33, 37, 95} \<Longrightarrow> (lower c = x) = (c = x)"
  shows "map lower (like_pattern q) = like_pattern (map lower q)"
proof -
  have "lower 33 = 33" "lower 37 = 37" "lower 95 = 95" using assms by simp_all
  moreover have "map lower (concat (map escape_char q)) = concat (map escape_char (map lower q))"
    using assms by (induction q) (auto simp: escape_char_def)
  ultimately show ?thesis by (simp add: like_pattern_escape)
qed

section \<open>Following the pages\<close>

text \<open>A client that follows the cursors: at most \<open>n\<close> requests, each from the last row shown.\<close>

fun follow_pages ::
  "nat \<Rightarrow> (nat \<Rightarrow> nat) \<Rightarrow> (nat \<Rightarrow> nat \<Rightarrow> bool) \<Rightarrow> nat \<Rightarrow> ustr \<Rightarrow> ustr \<Rightarrow> (ustr \<times> ustr) option \<Rightarrow> db
     \<Rightarrow> order_data list" where
  "follow_pages 0 lower ceq limit q status after d = []"
| "follow_pages (Suc n) lower ceq limit q status after d =
     (let p = list_page lower ceq limit q status after d
      in pg_orders p @ (if pg_has_more p
           then follow_pages n lower ceq limit q status (Some (page_key (last (pg_orders p)))) d else []))"

lemma list_page_rows:
  assumes "newest_first (filter (\<lambda>x. page_match lower ceq q status x \<and> before_cursor after x)
             (map public (d_orders d))) = rows"
  shows "list_page lower ceq limit q status after d = order_page_result rows limit q status"
  unfolding list_page_def assms by (rule order_page_result_take)

lemma follow_pages_drop:
  assumes "wf_db iso_ok d" "1 \<le> limit"
    and "newest_first (filter (\<lambda>x. page_match lower ceq q status x \<and> before_cursor after x)
             (map public (d_orders d))) = drop k (matching lower ceq q status d)"
    and "length (matching lower ceq q status d) < n + k"
  shows "follow_pages n lower ceq limit q status after d = drop k (matching lower ceq q status d)"
  using assms(3,4)
proof (induction n arbitrary: after k)
  case (Suc n)
  let ?all = "matching lower ceq q status d"
  note page = list_page_rows [OF Suc.prems(1), of limit]
  show ?case
  proof (cases "limit < length (drop k ?all)")
    case True
    have "last (take limit (drop k ?all)) = ?all ! (k + limit - 1)"
      using True assms(2) by (subst last_conv_nth) auto
    moreover have "newest_first (filter (\<lambda>x. page_match lower ceq q status x
        \<and> before_cursor (Some (page_key (?all ! (k + limit - 1)))) x) (map public (d_orders d)))
        = drop (k + limit) ?all"
      using page_rows_after [OF assms(1), of "k + limit - 1" lower ceq q status] True assms(2) by simp
    moreover have "take limit (drop k ?all) @ drop (k + limit) ?all = drop k ?all"
      by (metis add.commute append_take_drop_id drop_drop)
    ultimately show ?thesis
      using Suc.IH [of "Some (page_key (?all ! (k + limit - 1)))" "k + limit"] Suc.prems(2) True assms(2)
      by (simp add: page order_page_result_def Let_def)
  next
    case False
    then show ?thesis by (simp add: page order_page_result_def Let_def)
  qed
qed simp

section \<open>Properties\<close>

lemma sql_create_sound:
  assumes wf: "wf_db iso_ok d" and seen: "grown seen d" and data: "wf_data data"
    and ids: "uuid_canonical oid" "uuid_canonical ev" "iso_ok now"
    and later: "\<And>s. wf_db iso_ok s \<Longrightarrow> wf_db iso_ok (later s) \<and> grown s (later s)"
    and run: "sql_create seen later c1 c2 oid ev now data key d = (r, d')"
  shows "wf_db iso_ok d' \<and> grown d d' \<and> (\<forall>x made. r = Inr (x, made) \<longrightarrow> resolved key data x d'
    \<and> (made \<longrightarrow> key \<notin> r_key ` set (d_orders d) \<and> x = new_order oid now data \<and> history oid d' = [x]))"
proof -
  obtain r1 d1 where t: "transaction c1 (create_body seen oid ev now data key) d = (r1, d1)"
    by (cases "transaction c1 (create_body seen oid ev now data key) d") auto
  note sound = create_body_sound [OF wf seen data ids]
  have d1: "wf_db iso_ok d1 \<and> grown d d1"
    using t by (cases rule: transaction_cases) (use wf sound in auto)
  show ?thesis
  proof (cases "r1 = Inl (Sql_Error 1062)")
    case False
    have ok: "\<forall>x made. r1 = Inr (x, made) \<longrightarrow> resolved key data x d1 \<and> (made \<longrightarrow>
        key \<notin> r_key ` set (d_orders d) \<and> x = new_order oid now data \<and> history oid d1 = [x])"
    proof (intro allI impI)
      fix x made assume that: "r1 = Inr (x, made)"
      have "create_body seen oid ev now data key d = Inr ((x, made), d1)"
        using t by (cases rule: transaction_cases) (use that in simp_all)
      from sound [OF this] show "resolved key data x d1 \<and> (made \<longrightarrow> key \<notin> r_key ` set (d_orders d)
        \<and> x = new_order oid now data \<and> history oid d1 = [x])"
        by (cases made) auto
    qed
    from False run have "r = r1" "d' = d1"
      unfolding sql_create_def t by (auto split: sum.splits if_splits)
    then show ?thesis using d1 ok by (simp only: simp_thms)
  next
    case True
    obtain r2 d2 where t2: "transaction c2 (create_resolve data key) (later d1) = (r2, d2)"
      by (cases "transaction c2 (create_resolve data key) (later d1)") auto
    have l: "wf_db iso_ok (later d1)" "grown d (later d1)"
      using later [of d1] d1 grown_trans by blast+
    note rsound = create_resolve_sound [OF l(1)]
    have d2: "d2 = later d1" "\<And>x made. r2 = Inr (Some (x, made)) \<Longrightarrow> \<not> made \<and> resolved key data x (later d1)"
      using t2 by (cases rule: transaction_cases; use rsound in blast)+
    from True run have "d' = d2" "r = Inr y \<Longrightarrow> r2 = Inr (Some y)" for y
      unfolding sql_create_def t by (simp_all add: t2 split: sum.splits option.splits)
    with d2 l show ?thesis by (metis (no_types))
  qed
qed

lemma update_body_Inr:
  "update_body ev i data d = Inr (x, d') \<longleftrightarrow> (\<exists>old. select_id i d = Some old
     \<and> transition (public old) data = Inr x \<and> enqueue ev x (update_row x i d) = Inr d')"
  by (auto simp: update_body_def bind_res_Inr_iff split: option.splits)

lemma sql_update_wf:
  assumes "wf_db iso_ok d" "uuid_canonical ev" "sql_update c ev i data d = (r, d')"
  shows "wf_db iso_ok d'"
proof -
  have "wf_db iso_ok d2" if "update_body ev i data d = Inr (x, d2)" for x d2
    using that update_wf [OF assms(1)] assms(2) by (auto simp: update_body_Inr)
  moreover have "transaction c (update_body ev i data) d = (r, d')" using assms(3) by (simp add: sql_update_def)
  ultimately show ?thesis by (elim transaction_cases) (use assms(1) in auto)
qed

lemma select_id_update_row:
  assumes "j \<noteq> i"
  shows "select_id j (update_row x i d) = select_id j d"
proof -
  have "find (\<lambda>r. o_id r = j) (map (\<lambda>r. if o_id r = i
      then r\<lparr>o_status := o_status x, o_version := o_version x\<rparr> else r) rs) = find (\<lambda>r. o_id r = j) rs" for rs
    using assms by (induction rs) auto
  then show ?thesis by (simp add: select_id_def update_row_def)
qed

lemma enqueue_select [simp]:
  "enqueue ev x d = Inr d' \<Longrightarrow> select_id j d' = select_id j d"
  by (auto simp: enqueue_def insert_event_def select_id_def split: if_splits)

section \<open>Other clients of the store\<close>

lemma sql_update_grown:
  assumes "wf_db iso_ok d" "sql_update c ev i data d = (r, d')"
  shows "grown d d'"
proof -
  have "grown d d2" if b: "update_body ev i data d = Inr (x, d2)" for x d2
  proof -
    obtain old where old: "select_id i d = Some old" "transition (public old) data = Inr x"
      and q: "enqueue ev x (update_row x i d) = Inr d2" using b by (auto simp: update_body_Inr)
    let ?f = "\<lambda>r. if o_id r = i then r\<lparr>o_status := o_status x, o_version := o_version x\<rparr> else r"
    have "d_orders d2 = map ?f (d_orders d)"
      using q by (auto simp: enqueue_def insert_event_def update_row_def split: if_splits)
    then have "?f r \<in> set (d_orders d2)" if "r \<in> set (d_orders d)" for r
      using that by (simp only: set_map) (rule imageI)
    moreover have "r_key (?f r) = r_key r \<and> same_order (public (?f r)) (public r)" for r
      by (simp add: same_order_def order_data_of_def)
    ultimately show ?thesis unfolding grown_def by blast
  qed
  moreover have "transaction c (update_body ev i data) d = (r, d')" using assms(2) by (simp add: sql_update_def)
  ultimately show ?thesis by (elim transaction_cases) auto
qed

text \<open>Whole operations other clients may run between two steps of one client.\<close>

datatype store_op =
    Op_Create commit ustr ustr ustr new_data ustr
  | Op_Update commit ustr ustr pv
  | Op_Mark nat

definition store_step :: "store_op \<Rightarrow> db \<Rightarrow> db" where
  "store_step a d = (case a of
       Op_Create c oid ev now data key \<Rightarrow> snd (sql_create d id c Commit_ok oid ev now data key d)
     | Op_Update c ev i data \<Rightarrow> snd (sql_update c ev i data d)
     | Op_Mark n \<Rightarrow> mark_sent n d)"

definition valid_op :: "(ustr \<Rightarrow> bool) \<Rightarrow> store_op \<Rightarrow> bool" where
  "valid_op iso_ok a \<longleftrightarrow> (case a of
       Op_Create c oid ev now data key \<Rightarrow> wf_data data \<and> uuid_canonical oid \<and> uuid_canonical ev \<and> iso_ok now
     | Op_Update c ev i data \<Rightarrow> uuid_canonical ev
     | Op_Mark n \<Rightarrow> True)"

lemma store_step_sound:
  assumes "wf_db iso_ok d" "valid_op iso_ok a"
  shows "wf_db iso_ok (store_step a d) \<and> grown d (store_step a d)"
proof (cases a)
  case (Op_Create c oid ev now data key)
  with assms show ?thesis
    using sql_create_sound [OF assms(1) grown_refl, of data oid ev now id c Commit_ok key]
    by (cases "sql_create d id c Commit_ok oid ev now data key d") (auto simp: store_step_def valid_op_def)
next
  case (Op_Update c ev i data)
  with assms show ?thesis
    using sql_update_wf [OF assms(1)] sql_update_grown [OF assms(1)]
    by (cases "sql_update c ev i data d") (auto simp: store_step_def valid_op_def)
next
  case (Op_Mark n)
  with assms show ?thesis by (simp add: store_step_def mark_sent_wf grown_def) (metis same_order_refl)
qed

interpretation orders: guarded_store "wf_db iso_ok" "valid_op iso_ok" grown store_step for iso_ok
  by unfold_locales (auto simp: store_step_sound intro: grown_trans)

lemma other_clients:
  "list_all (valid_op iso_ok) ops \<Longrightarrow> wf_db iso_ok s \<Longrightarrow>
   wf_db iso_ok (fold store_step ops s) \<and> grown s (fold store_step ops s)"
  by (simp add: orders.run_inv orders.run_grows)

definition sample_data :: new_data where
  "sample_data = \<lparr>n_item = u ''tea'', n_quantity = 2, n_unit_price = 450\<rparr>"

definition sample_key :: ustr where
  "sample_key = u ''k-1''"

definition sample_time :: ustr where
  "sample_time = u ''2024-05-01T10:00:00.000+00:00''"

definition sample_db :: db where
  "sample_db = \<lparr>d_orders = [with_key sample_order sample_key], d_outbox = [\<lparr>x_seq = 1,
     x_event_id = sample_uuid, x_payload = envelope sample_uuid sample_order, x_sent = False\<rparr>], d_seq = 2\<rparr>"

lemma sample_data_wf: "wf_data sample_data"
  by (simp add: sample_data_def wf_data_def strip_def py_space_def u_def utf8_encodable_def)

lemma sample_order_new: "sample_order = new_order sample_uuid sample_time sample_data"
  by (simp add: sample_order_def sample_time_def sample_data_def)

lemma sample_create:
  "sql_create empty_db id Commit_ok Commit_ok sample_uuid sample_uuid sample_time sample_data sample_key empty_db
     = (Inr (sample_order, True), sample_db)"
  by (simp add: sql_create_def transaction_def create_body_def select_key_def empty_db_def insert_order_def
      enqueue_def insert_event_def Let_def sample_order_new sample_db_def)

lemma sample_db_wf: "wf_db (\<lambda>_. True) sample_db"
  using sql_create_sound [OF wf_empty_db grown_refl sample_data_wf sample_uuid_canonical sample_uuid_canonical
      _ _ sample_create, of "\<lambda>_. True"] by simp

text \<open>C4: An idempotency key makes at most one order. Whatever snapshot the first read saw, whatever
  operations other clients run around the duplicate-key error and however the two commits end, the store
  stays well-formed and keeps every order; a call that returns an order returns the only one
  with its key and with exactly the payload asked for, and it says \<open>created\<close> only when the key
  was new, with the first event of the order in the outbox.\<close>

theorem create_exactly_once:
  assumes "wf_db iso_ok d" "grown seen d" "wf_data data"
    and "uuid_canonical oid" "uuid_canonical ev" "iso_ok now"
    and "list_all (valid_op iso_ok) others"
    and "sql_create seen (fold store_step others) c1 c2 oid ev now data key d = (r, d')"
  shows "wf_db iso_ok d' \<and> grown d d' \<and> (\<forall>x made. r = Inr (x, made) \<longrightarrow> resolved key data x d'
    \<and> (made \<longrightarrow> key \<notin> r_key ` set (d_orders d) \<and> x = new_order oid now data \<and> history oid d' = [x]))"
  by (rule sql_create_sound [OF assms(1-6) other_clients [OF assms(7)] assms(8)])

theorem create_exactly_once_witness:
  "\<exists>x d'. sql_create empty_db id Commit_ok Commit_ok sample_uuid sample_uuid sample_time sample_data
      sample_key empty_db = (Inr (x, True), d') \<and> resolved sample_key sample_data x d' \<and> history sample_uuid d' = [x]"
  using create_exactly_once [OF wf_empty_db grown_refl sample_data_wf sample_uuid_canonical sample_uuid_canonical,
      of "\<lambda>_. True" sample_time "[]"] sample_create by (simp add: id_def)

text \<open>A client that does not know how its create ended can send it again: when the first call
  left a row for the key (even if its commit reported an error), the second returns that order,
  says it was not created and changes nothing.\<close>

theorem create_retry_returns_first:
  assumes "wf_db iso_ok d" "grown seen d" "wf_data data"
    and "uuid_canonical oid" "uuid_canonical ev" "iso_ok now"
    and "list_all (valid_op iso_ok) others"
    and "sql_create seen (fold store_step others) c1 c2 oid ev now data key d = (r, d1)"
    and row: "row \<in> set (d_orders d1)" "r_key row = key" "order_data_of (public row) = data"
  shows "sql_create d1 id Commit_ok Commit_ok oid2 ev2 now2 data key d1 = (Inr (public row, False), d1)
    \<and> (\<forall>x made. r = Inr (x, made) \<longrightarrow> o_id x = o_id row)"
proof -
  note s = sql_create_sound [OF assms(1-6) other_clients [OF assms(7)] assms(8)]
  have sel: "select_key key d1 = Some row"
    using select_key_row [OF _ row(1)] s row(2) by auto
  with row(3) have "sql_create d1 id Commit_ok Commit_ok oid2 ev2 now2 data key d1 = (Inr (public row, False), d1)"
    by (auto simp: sql_create_def transaction_def create_body_def existing_def order_data_of_def)
  moreover have "o_id x = o_id row" if "r = Inr (x, made)" for x made
  proof -
    have "filter (\<lambda>r. r_key r = key) (d_orders d1) = [row]"
      using filter_key_single [of r_key "d_orders d1" row] row s by (simp add: wf_db_def)
    with that s show ?thesis by (auto simp: resolved_def same_order_def)
  qed
  ultimately show ?thesis by blast
qed

lemma sample_create_unknown:
  "sql_create empty_db id (Commit_unknown (Sql_Error 2013)) Commit_ok sample_uuid sample_uuid sample_time
     sample_data sample_key empty_db = (Inl (Sql_Error 2013), sample_db)"
  by (simp add: sql_create_def transaction_def create_body_def select_key_def empty_db_def insert_order_def
      enqueue_def insert_event_def Let_def sample_order_new sample_db_def)

theorem create_retry_returns_first_witness:
  "sql_create sample_db id Commit_ok Commit_ok (u ''a'') (u ''b'') (u ''c'') sample_data sample_key sample_db
     = (Inr (sample_order, False), sample_db)"
  using create_retry_returns_first [OF wf_empty_db grown_refl sample_data_wf sample_uuid_canonical
      sample_uuid_canonical, of "\<lambda>_. True" sample_time "[]" "Commit_unknown (Sql_Error 2013)" Commit_ok sample_key
      "Inl (Sql_Error 2013)" sample_db "with_key sample_order sample_key"] sample_create_unknown
  by (simp add: sample_db_def sample_order_new id_def)

text \<open>C5: An update is one step of the state machine on the current row under its version, and the
  outbox records it: on success the order reads back as the new version, every other order is
  untouched, its history grows by exactly that version, and a second update with the same
  expected version is refused; an error leaves the store as it was unless the commit itself is
  the error, and then the whole update or none of it is applied.\<close>

theorem update_optimistic:
  assumes wf: "wf_db iso_ok d" and ev: "uuid_canonical ev"
    and run: "sql_update c ev i data d = (r, d')"
  shows "wf_db iso_ok d' \<and> (\<forall>x. r = Inr x \<longrightarrow>
       (\<exists>old. sql_get i d = Some old \<and> transition old data = Inr x)
       \<and> sql_get i d' = Some x \<and> (\<forall>j. j \<noteq> i \<longrightarrow> sql_get j d' = sql_get j d) \<and> history i d' = history i d @ [x]
       \<and> fst (sql_update c2 ev2 i data d') = Inl (Problem 409 ''order_version_conflict''))
     \<and> (\<forall>e. r = Inl e \<longrightarrow> d' = d \<or> (c = Commit_unknown e \<and> (\<exists>x. sql_get i d' = Some x
          \<and> history i d' = history i d @ [x])))"
proof -
  have body: "wf_db iso_ok d2 \<and> (\<exists>old. sql_get i d = Some old \<and> transition old data = Inr x)
      \<and> sql_get i d2 = Some x \<and> (\<forall>j. j \<noteq> i \<longrightarrow> sql_get j d2 = sql_get j d) \<and> history i d2 = history i d @ [x]"
    if b: "update_body ev i data d = Inr (x, d2)" for x d2
  proof -
    obtain old where old: "select_id i d = Some old" "transition (public old) data = Inr x"
      and q: "enqueue ev x (update_row x i d) = Inr d2" using b by (auto simp: update_body_Inr)
    have "sql_get j d2 = sql_get j d" if "j \<noteq> i" for j
      using that by (simp add: sql_get_def enqueue_select [OF q] select_id_update_row)
    with update_wf [OF wf old q ev] old show ?thesis by (auto simp: sql_get_def)
  qed
  have again: "fst (sql_update c2 ev2 i data d') = Inl (Problem 409 ''order_version_conflict'')"
    if t: "transition old data = Inr x" and g: "sql_get i d' = Some x" for old x
  proof -
    obtain row where row: "select_id i d' = Some row" "public row = x"
      using g by (auto simp: sql_get_def)
    have "transition x data = Inl (Problem 409 ''order_version_conflict'')"
      using t by (auto simp only: transition_iff) (simp add: transition_def)
    with row show ?thesis by (simp add: sql_update_def transaction_def update_body_def)
  qed
  from run have "transaction c (update_body ev i data) d = (r, d')" by (simp add: sql_update_def)
  then show ?thesis
  proof (cases rule: transaction_cases)
    case (unchanged e)
    then show ?thesis using wf by simp
  next
    case (committed a)
    with body [OF committed(1)] again show ?thesis by auto
  next
    case (applied a e)
    with body [OF applied(1)] show ?thesis by auto
  qed
qed

definition sample_pay :: pv where
  "sample_pay = PDict [(u ''expected_version'', PInt 1), (u ''status'', PStr (u ''paid''))]"

definition sample_uuid2 :: ustr where
  "sample_uuid2 = u ''7c9e6679-7425-40de-944b-e07fc1f90ae7''"

lemma sample_uuid2_canonical: "uuid_canonical sample_uuid2"
  by (simp add: uuid_canonical_def sample_uuid2_def u_def is_hex_lower_def is_digit_def)

lemma sample_pay_transition:
  "transition sample_order sample_pay = Inr (sample_order\<lparr>o_status := u ''paid'', o_version := 2\<rparr>)"
  by (simp add: transition_iff sample_pay_def sample_order_def new_order_def states_def)

lemma sample_update:
  "\<exists>d'. sql_update Commit_ok sample_uuid2 sample_uuid sample_pay sample_db
     = (Inr (sample_order\<lparr>o_status := u ''paid'', o_version := 2\<rparr>), d')"
proof -
  have "o_id (with_key sample_order k) = sample_uuid" for k
    by (simp add: with_key_def order_data.defs sample_order_def new_order_def)
  moreover have "sample_uuid2 \<noteq> sample_uuid" by (simp add: sample_uuid2_def sample_uuid_def)
  ultimately show ?thesis
    by (simp add: sql_update_def transaction_def update_body_def select_id_def sample_db_def
        sample_pay_transition enqueue_def insert_event_def update_row_def)
qed

theorem update_optimistic_witness:
  "\<exists>d'. sql_get sample_uuid d' = Some (sample_order\<lparr>o_status := u ''paid'', o_version := 2\<rparr>)
     \<and> fst (sql_update Commit_ok (u ''e'') sample_uuid sample_pay d') = Inl (Problem 409 ''order_version_conflict'')"
proof -
  obtain d' where "sql_update Commit_ok sample_uuid2 sample_uuid sample_pay sample_db
     = (Inr (sample_order\<lparr>o_status := u ''paid'', o_version := 2\<rparr>), d')" using sample_update by blast
  from update_optimistic [OF sample_db_wf sample_uuid2_canonical this, of Commit_ok "u ''e''"]
  show ?thesis by auto
qed

lemma sorted_desc_distinct:
  fixes f :: "'a \<Rightarrow> 'b :: linorder"
  shows "sorted_wrt (\<lambda>x y. f y < f x) xs \<Longrightarrow> distinct xs"
  by (induction xs) auto

lemma Nil_less_iff: "([] :: ustr) < s \<longleftrightarrow> s \<noteq> []"
  by (cases s) simp_all



text \<open>C7: The reconciliation scan, in pages of 200 ids, ends and yields every order exactly once, in
  the order of the ids.\<close>

theorem scan_complete:
  assumes "wf_db iso_ok d"
  shows "sql_scan [] d = sort_key o_id (map public (d_orders d))"
proof -
  have "o_id r \<noteq> []" if "r \<in> set (d_orders d)" for r
  proof -
    have "wf_order iso_ok (public r)" using assms that by (auto simp: wf_db_def intro: full_history_wf)
    then show ?thesis by (auto simp: wf_order_def uuid_canonical_def)
  qed
  then have "filter (\<lambda>x. [] < o_id x) (map public (d_orders d)) = map public (d_orders d)"
    by (auto simp: filter_id_conv Nil_less_iff simp del: filter_map)
  moreover have "distinct (map o_id (d_orders d))" using assms by (simp add: wf_db_def)
  ultimately show ?thesis by (simp only: sql_scan_sorted)
qed

theorem scan_complete_witness: "sql_scan [] sample_db = [sample_order]"
  using scan_complete [OF sample_db_wf] by (simp add: sample_db_def)

text \<open>The search text of the order list is literal: \<open>%\<close>, \<open>_\<close> and \<open>!\<close> in it have no wildcard
  meaning, so a row is listed exactly when its item contains the text up to letter case or its
  id contains it. \<open>LOWER\<close> is only asked to fix those three characters.\<close>

theorem text_filter_literal:
  assumes "\<And>c x. x \<in> {33, 37, 95} \<Longrightarrow> (lower c = x) = (c = x)" and "q \<noteq> []"
  shows "page_match lower ceq q [] x \<longleftrightarrow>
    contains ceq (map lower q) (map lower (o_item x)) \<or> contains ceq q (o_id x)"
proof -
  have "map lower (like_pattern q) = like_pattern (map lower q)"
    by (rule lower_like_pattern) (use assms(1) in blast)
  with assms(2) show ?thesis by (simp add: page_match_def sql_like_pattern)
qed

theorem text_filter_literal_witness:
  "\<not> page_match id (=) (u ''%'') [] sample_order"
proof -
  have "\<not> contains (=) (u ''%'') (u ''tea'')" "\<not> contains (=) (u ''%'') sample_uuid"
    by (auto simp: contains_def u_def sample_uuid_def list.rel_eq append_eq_Cons_conv Cons_eq_append_conv)
  then show ?thesis
    using text_filter_literal [of id "u ''%''" "(=)" sample_order]
    by (simp add: sample_order_def new_order_def)
qed

end
