(* ===== verification/Projection.thy ===== *)
theory Projection
  imports Order_Store
begin

text \<open>
  The read side of \<open>mvp-lab/mvp_app\<close>: \<open>Search\<close>, \<open>Cache\<close> and \<open>Broker.publish\<close> of
  \<open>adapters.py\<close>, \<open>Storefront\<close>, \<open>relay_once\<close> and \<open>project_one\<close> of \<open>core.py\<close>.
  Elasticsearch, Redis and Kafka are services: \<open>es\<close>, \<open>redis\<close> and \<open>kafka\<close> are
  arguments, functions from a request and a state of the service to an answer (or a connection
  exception) and its next state. What the code relies on of Elasticsearch is stated by
  \<open>external_versioning\<close>, of Kafka by \<open>appends\<close>.
\<close>

section \<open>Elasticsearch\<close>

datatype es_request =
    Head_Index
  | Put_Index
  | Put_Doc ustr int pdict
  | Get_Doc ustr
  | Post_Search ustr
  | Get_Count
  | Post_Refresh

record reply =
  re_status :: int
  re_json :: "pv option"

type_synonym 'e es = "es_request \<Rightarrow> 'e \<Rightarrow> reply res \<times> 'e"

definition es_request :: "'e es \<Rightarrow> es_request \<Rightarrow> (reply, 'e) eff" where
  "es_request es q = bind_eff (es q) (\<lambda>r.
     if 300 \<le> re_status r \<and> re_status r < 400
     then raise_exn (Problem 503 ''elasticsearch_redirect_refused'') else ret r)"

definition reply_json :: "reply \<Rightarrow> pv res" where
  "reply_json r = (case re_json r of None \<Rightarrow> Inl (Value_Error ''JSONDecodeError'') | Some v \<Rightarrow> Inr v)"

definition lift_res :: "'a res \<Rightarrow> ('a, 'e) eff" where
  "lift_res r s = (r, s)"

text \<open>\<open>response.json().get("error", {}).get("type")\<close>\<close>

definition error_type :: "reply \<Rightarrow> pv res" where
  "error_type r = bind_res (reply_json r) (\<lambda>v. bind_res (py_get_dict v ''error'') (\<lambda>e. py_get e ''type''))"

text \<open>\<open>raise_for_status\<close>; the exception keeps the response, of which \<open>safe_error\<close> reads the
  status and the error type.\<close>

definition raise_for_status :: "reply \<Rightarrow> (unit, 'e) eff" where
  "raise_for_status r = (if 400 \<le> re_status r \<and> re_status r < 600
     then raise_exn (Http_Error (re_status r) (case error_type r of Inr (PStr s) \<Rightarrow> Some s | _ \<Rightarrow> None)) else ret ())"

definition search_initialize :: "'e es \<Rightarrow> (unit, 'e) eff" where
  "search_initialize es = bind_eff (es_request es Head_Index) (\<lambda>head.
     if re_status head = 200 then ret ()
     else bind_eff (if re_status head \<noteq> 404 then raise_for_status head else ret ()) (\<lambda>_.
       bind_eff (es_request es Put_Index) (\<lambda>result.
       if re_status result = 400
       then bind_eff (lift_res (error_type result)) (\<lambda>t.
              if t = PStr (u ''resource_already_exists_exception'') then ret ()
              else raise_for_status result)
       else raise_for_status result)))"

text \<open>
  \<open>json.dumps (..., sort_keys=True, allow_nan=False)\<close>: equal texts are equal values up to the
  order of keys, and a non-finite number raises.
\<close>

fun canon :: "pv \<Rightarrow> pv" where
  "canon (PList vs) = PList (map canon vs)"
| "canon (PDict d) = PDict (sort_key fst (map (\<lambda>(k, v). (k, canon v)) d))"
| "canon v = v"

fun finite_json :: "pv \<Rightarrow> bool" where
  "finite_json PNonFinite = False"
| "finite_json (PList vs) = list_all finite_json vs"
| "finite_json (PDict d) = list_all (\<lambda>(k, v). finite_json v) d"
| "finite_json _ = True"

definition canonical :: "pv \<Rightarrow> pv res" where
  "canonical v = (if finite_json v then Inr (canon v) else Inl (Value_Error ''not JSON compliant''))"

definition check_conflict :: "pdict \<Rightarrow> ustr \<Rightarrow> int \<Rightarrow> pv \<Rightarrow> string res" where
  "check_conflict order oid version document =
     bind_res (py_get document ''_source'') (\<lambda>stored.
     bind_res (py_get document ''_version'') (\<lambda>v.
     case (stored, v) of
       (PDict d, PInt current) \<Rightarrow>
         if dget d ''version'' \<noteq> PInt current \<or> dget d ''id'' \<noteq> PStr oid
         then Inl (Problem 409 ''projection_version_metadata_mismatch'')
         else if current > version then Inr ''older_version_ignored''
         else if current = version
         then bind_res (canonical stored) (\<lambda>a. bind_res (canonical (PDict order)) (\<lambda>b.
                if a = b then Inr ''duplicate_ignored''
                else Inl (Problem 409 ''event_version_payload_conflict'')))
         else Inl (Problem 409 ''projection_version_changed_during_check'')
     | _ \<Rightarrow> Inl (Problem 409 ''projection_version_metadata_mismatch'')))"

text \<open>\<open>requests\<close> refuses to send a non-finite number (\<open>InvalidJSONError\<close>).\<close>

definition put_document :: "'e es \<Rightarrow> ustr \<Rightarrow> int \<Rightarrow> pdict \<Rightarrow> (reply, 'e) eff" where
  "put_document es oid version order = (if finite_json (PDict order) then es_request es (Put_Doc oid version order)
     else raise_exn (Other_Error ''InvalidJSONError''))"

lemma put_order [simp]:
  "put_document es i v (order_value x) = es_request es (Put_Doc i v (order_value x))"
  by (simp add: put_document_def order_value_def)

definition search_index :: "'e es \<Rightarrow> pdict \<Rightarrow> (string, 'e) eff" where
  "search_index es order =
     (let oid = str_of (dget order ''id''); version = int_of (dget order ''version'') in
      bind_eff (search_initialize es) (\<lambda>_.
      bind_eff (put_document es oid version order) (\<lambda>response.
      bind_eff (if re_status response = 409 then lift_res (error_type response) else ret PNone) (\<lambda>t.
      if re_status response = 409 \<and> t = PStr (u ''version_conflict_engine_exception'')
      then bind_eff (es_request es (Get_Doc oid)) (\<lambda>current.
           bind_eff (raise_for_status current) (\<lambda>_.
           bind_eff (lift_res (reply_json current)) (\<lambda>document.
           lift_res (check_conflict order oid version document))))
      else bind_eff (raise_for_status response) (\<lambda>_. ret ''indexed'')))))"

section \<open>Redis\<close>

text \<open>A stored text is \<open>None\<close> when it is not JSON.\<close>

datatype redis_command = R_Get ustr | R_Set ustr pv | R_Delete ustr

type_synonym 'c redis = "redis_command \<Rightarrow> 'c \<Rightarrow> pv option option res \<times> 'c"

definition cache_key :: "ustr \<Rightarrow> ustr" where
  "cache_key oid = u ''mvp:order:'' @ oid"

fun strict_utf8 :: "pv \<Rightarrow> bool" where
  "strict_utf8 (PStr s) = utf8_encodable s"
| "strict_utf8 (PList vs) = list_all strict_utf8 vs"
| "strict_utf8 (PDict d) = list_all (\<lambda>(k, v). utf8_encodable k \<and> strict_utf8 v) d"
| "strict_utf8 _ = True"

definition cache_get :: "'c redis \<Rightarrow> ustr \<Rightarrow> (pv, 'c) eff" where
  "cache_get redis oid = bind_eff (redis (R_Get (cache_key oid))) (\<lambda>raw.
     case raw of
       None \<Rightarrow> ret PNone
     | Some None \<Rightarrow> raise_exn (Value_Error ''JSONDecodeError'')
     | Some (Some v) \<Rightarrow> if finite_json v \<and> strict_utf8 v then ret v
                        else raise_exn (Value_Error ''not strict UTF-8 JSON''))"

definition cache_put :: "'c redis \<Rightarrow> order_data \<Rightarrow> (unit, 'c) eff" where
  "cache_put redis x = bind_eff (redis (R_Set (cache_key (o_id x)) (PDict (order_value x)))) (\<lambda>_. ret ())"

definition cache_delete :: "'c redis \<Rightarrow> ustr \<Rightarrow> (unit, 'c) eff" where
  "cache_delete redis oid = bind_eff (redis (R_Delete (cache_key oid))) (\<lambda>_. ret ())"

text \<open>\<open>try: ... except Exception: ...\<close> around a cache call: its state change stays.\<close>

definition attempt :: "('a, 'c) eff \<Rightarrow> 'c \<Rightarrow> 'a option \<times> 'c" where
  "attempt m s = (case m s of (Inl _, s') \<Rightarrow> (None, s') | (Inr x, s') \<Rightarrow> (Some x, s'))"

definition invalidate :: "'c redis \<Rightarrow> ustr \<Rightarrow> 'c \<Rightarrow> 'c" where
  "invalidate redis oid s = snd (attempt (cache_delete redis oid) s)"

section \<open>Storefront\<close>

definition storefront_create ::
  "db \<Rightarrow> (db \<Rightarrow> db) \<Rightarrow> commit \<Rightarrow> commit \<Rightarrow> ustr \<Rightarrow> ustr \<Rightarrow> ustr \<Rightarrow> ustr \<Rightarrow> pv \<Rightarrow> ustr option \<Rightarrow> db
     \<Rightarrow> (order_data \<times> bool) res \<times> db" where
  "storefront_create seen later c1 c2 oid ev now fresh_key data key d =
     (case create_input data of Inl e \<Rightarrow> (Inl e, d)
      | Inr n \<Rightarrow> (case request_key fresh_key key of Inl e \<Rightarrow> (Inl e, d)
          | Inr k \<Rightarrow> sql_create seen later c1 c2 oid ev now n k d))"

definition storefront_update ::
  "commit \<Rightarrow> 'c redis \<Rightarrow> ustr \<Rightarrow> ustr \<Rightarrow> pv \<Rightarrow> db \<times> 'c \<Rightarrow> order_data res \<times> db \<times> 'c" where
  "storefront_update c redis ev oid data s = (case s of (d, cache) \<Rightarrow>
     (case order_identifier (PStr oid) of Inl e \<Rightarrow> (Inl e, d, cache)
      | Inr i \<Rightarrow> (case sql_update c ev i data d of
          (Inl e, d') \<Rightarrow> (Inl e, d', cache)
        | (Inr x, d') \<Rightarrow> (Inr x, d', invalidate redis oid cache))))"

record detail_reply =
  dr_order :: pdict
  dr_source :: string
  dr_cache :: string

definition cached_order :: "(ustr \<Rightarrow> bool) \<Rightarrow> ustr \<Rightarrow> pv \<Rightarrow> pdict res" where
  "cached_order iso_ok oid cached =
     bind_res (validate_event iso_ok (PDict [(u ''schema_version'', PInt 1), (u ''event_id'', PStr oid),
                                             (u ''order'', cached)])) (\<lambda>x.
     if dget x ''id'' \<noteq> PStr oid \<or> pkeys x \<noteq> u ` set order_fields
     then Inl (Value_Error ''invalid cache payload'') else Inr x)"

definition cache_lookup :: "(ustr \<Rightarrow> bool) \<Rightarrow> 'c redis \<Rightarrow> ustr \<Rightarrow> bool \<Rightarrow> 'c \<Rightarrow> (pdict option \<times> string) \<times> 'c" where
  "cache_lookup iso_ok redis oid fresh s =
     (if fresh then ((None, ''bypassed''), s)
      else (case cache_get redis oid s of
          (Inl _, s') \<Rightarrow> ((None, ''unavailable_or_invalid''), s')
        | (Inr v, s') \<Rightarrow> if v = PNone then ((None, ''miss''), s')
            else (case cached_order iso_ok oid v of
                Inl _ \<Rightarrow> ((None, ''unavailable_or_invalid''), s')
              | Inr x \<Rightarrow> ((Some x, ''hit''), s'))))"

text \<open>\<open>repo_get\<close> is \<open>repo.get\<close> at the time of the call.\<close>

definition storefront_detail ::
  "(ustr \<Rightarrow> bool) \<Rightarrow> 'c redis \<Rightarrow> (ustr \<Rightarrow> order_data option res) \<Rightarrow> ustr \<Rightarrow> bool \<Rightarrow> (detail_reply, 'c) eff" where
  "storefront_detail iso_ok redis repo_get oid fresh s =
     (case order_identifier (PStr oid) of Inl e \<Rightarrow> (Inl e, s)
      | Inr _ \<Rightarrow> (case cache_lookup iso_ok redis oid fresh s of
          ((Some x, st), s1) \<Rightarrow> (Inr \<lparr>dr_order = x, dr_source = ''redis'', dr_cache = st\<rparr>, s1)
        | ((None, st), s1) \<Rightarrow> (case repo_get oid of
              Inl e \<Rightarrow> (Inl e, s1)
            | Inr None \<Rightarrow> (Inl (Problem 404 ''order_not_found''), s1)
            | Inr (Some x) \<Rightarrow> (case attempt (cache_put redis x) s1 of
                (None, s2) \<Rightarrow> (Inr \<lparr>dr_order = order_value x, dr_source = ''mariadb'', dr_cache = ''unavailable''\<rparr>, s2)
              | (Some _, s2) \<Rightarrow> (Inr \<lparr>dr_order = order_value x, dr_source = ''mariadb'', dr_cache = st\<rparr>, s2)))))"

section \<open>Relay and projection\<close>

text \<open>
  \<open>produce\<close> followed by \<open>flush(6)\<close>: \<open>kafka\<close> answers with the number of messages still queued
  and the errors of the delivery reports (\<open>False\<close> for none).
\<close>

type_synonym 'k kafka = "ustr \<Rightarrow> pv \<Rightarrow> 'k \<Rightarrow> (nat \<times> bool list) res \<times> 'k"

definition event_key :: "pv \<Rightarrow> ustr" where
  "event_key e = o_id (event_order e)"

definition broker_publish :: "'k kafka \<Rightarrow> pv \<Rightarrow> (unit, 'k) eff" where
  "broker_publish kafka event = bind_eff (kafka (event_key event) event) (\<lambda>(left, delivery).
     if left \<noteq> 0 \<or> delivery = [] \<or> hd delivery
     then raise_exn (Runtime_Error ''Kafka delivery not acknowledged; outbox row remains pending'')
     else ret ())"

text \<open>\<open>c1\<close> and \<open>c2\<close> are the ends of the two transactions, the read and \<open>mark_sent\<close>.\<close>

definition relay_once :: "commit \<Rightarrow> commit \<Rightarrow> 'k kafka \<Rightarrow> db \<times> 'k \<Rightarrow> bool res \<times> db \<times> 'k" where
  "relay_once c1 c2 kafka s = (case s of (d, k) \<Rightarrow>
     (case transaction c1 (\<lambda>d. Inr (pending_one d, d)) d of
        (Inl e, d) \<Rightarrow> (Inl e, d, k)
      | (Inr None, d) \<Rightarrow> (Inr False, d, k)
      | (Inr (Some (sq, event)), d) \<Rightarrow> (case broker_publish kafka event k of
            (Inl e, k') \<Rightarrow> (Inl e, d, k')
          | (Inr _, k') \<Rightarrow> (case transaction c2 (\<lambda>d. Inr ((), mark_sent sq d)) d of
                (Inl e, d') \<Rightarrow> (Inl e, d', k')
              | (Inr _, d') \<Rightarrow> (Inr True, d', k')))))"

definition project_one ::
  "(ustr \<Rightarrow> bool) \<Rightarrow> 'e es \<Rightarrow> 'c redis \<Rightarrow> (unit, 'k) eff \<Rightarrow> pv \<Rightarrow> (unit, 'e \<times> 'c \<times> 'k) eff" where
  "project_one iso_ok es redis commit event s = (case s of (e, c, k) \<Rightarrow>
     (case validate_event iso_ok event of Inl x \<Rightarrow> (Inl x, s)
      | Inr order \<Rightarrow> (case search_index es order e of
          (Inl x, e') \<Rightarrow> (Inl x, e', c, k)
        | (Inr _, e') \<Rightarrow> (let c' = snd (attempt (cache_delete redis (str_of (dget order ''id''))) c) in
            (case commit k of
               (Inl x, k') \<Rightarrow> (Inl x, e', c', k')
             | (Inr _, k') \<Rightarrow> (Inr (), e', c', k'))))))"

section \<open>What is relied on of the services\<close>

text \<open>
  Elasticsearch's external versioning: a document request applies the document only when its
  version is greater than the stored one (or there is none), a 2xx answer means it did, a
  \<open>version_conflict_engine_exception\<close> means the stored version is not smaller, a read returns the
  stored source and version, and no other request changes documents. A connection exception says
  nothing about whether the document was applied.
\<close>

definition newer :: "(int \<times> pdict) option \<Rightarrow> int \<Rightarrow> bool" where
  "newer stored v \<longleftrightarrow> (case stored of None \<Rightarrow> True | Some (v0, _) \<Rightarrow> v0 < v)"

definition external_versioning :: "'e es \<Rightarrow> ('e \<Rightarrow> ustr \<Rightarrow> (int \<times> pdict) option) \<Rightarrow> bool" where
  "external_versioning es docs \<longleftrightarrow> (\<forall>q s r s'. es q s = (r, s') \<longrightarrow>
     (\<forall>p. r = Inr p \<longrightarrow> 200 \<le> re_status p \<and> re_status p < 600) \<and>
     (case q of
        Put_Doc i v d \<Rightarrow>
          (docs s' = docs s \<or> newer (docs s i) v \<and> docs s' = (docs s)(i \<mapsto> (v, d)))
          \<and> (\<forall>p. r = Inr p \<longrightarrow> re_status p < 300 \<longrightarrow> docs s' i = Some (v, d))
          \<and> (\<forall>p. r = Inr p \<longrightarrow> re_status p = 409
               \<longrightarrow> error_type p = Inr (PStr (u ''version_conflict_engine_exception'')) \<longrightarrow> \<not> newer (docs s i) v)
      | Get_Doc i \<Rightarrow> docs s' = docs s \<and> (\<forall>p b. r = Inr p \<longrightarrow> re_status p < 300 \<longrightarrow> re_json p = Some b \<longrightarrow>
          (\<exists>v d j. docs s i = Some (v, d) \<and> b = PDict j \<and> dget j ''_version'' = PInt v
             \<and> dget j ''_source'' = PDict d))
      | _ \<Rightarrow> docs s' = docs s))"

lemma external_versioningD:
  assumes "external_versioning es docs" "es q s = (r, s')"
  shows "r = Inr p \<Longrightarrow> 200 \<le> re_status p \<and> re_status p < 600"
    and "q = Put_Doc i v d \<Longrightarrow> docs s' = docs s \<or> newer (docs s i) v \<and> docs s' = (docs s)(i \<mapsto> (v, d))"
    and "q = Put_Doc i v d \<Longrightarrow> r = Inr p \<Longrightarrow> re_status p < 300 \<Longrightarrow> docs s' i = Some (v, d)"
    and "q = Put_Doc i v d \<Longrightarrow> r = Inr p \<Longrightarrow> re_status p = 409 \<Longrightarrow>
      error_type p = Inr (PStr (u ''version_conflict_engine_exception'')) \<Longrightarrow> \<not> newer (docs s i) v"
    and "q = Get_Doc i \<Longrightarrow> r = Inr p \<Longrightarrow> re_status p < 300 \<Longrightarrow> re_json p = Some b \<Longrightarrow>
      \<exists>v d j. docs s i = Some (v, d) \<and> b = PDict j \<and> dget j ''_version'' = PInt v \<and> dget j ''_source'' = PDict d"
    and "(\<And>i v d. q \<noteq> Put_Doc i v d) \<Longrightarrow> docs s' = docs s"
proof -
  note law = assms(1) [unfolded external_versioning_def, rule_format, OF assms(2)]
  show "r = Inr p \<Longrightarrow> 200 \<le> re_status p \<and> re_status p < 600" using law by blast
  show "q = Put_Doc i v d \<Longrightarrow> docs s' = docs s \<or> newer (docs s i) v \<and> docs s' = (docs s)(i \<mapsto> (v, d))"
    and "q = Put_Doc i v d \<Longrightarrow> r = Inr p \<Longrightarrow> re_status p < 300 \<Longrightarrow> docs s' i = Some (v, d)"
    and "q = Put_Doc i v d \<Longrightarrow> r = Inr p \<Longrightarrow> re_status p = 409 \<Longrightarrow>
      error_type p = Inr (PStr (u ''version_conflict_engine_exception'')) \<Longrightarrow> \<not> newer (docs s i) v"
    and "q = Get_Doc i \<Longrightarrow> r = Inr p \<Longrightarrow> re_status p < 300 \<Longrightarrow> re_json p = Some b \<Longrightarrow>
      \<exists>v d j. docs s i = Some (v, d) \<and> b = PDict j \<and> dget j ''_version'' = PInt v \<and> dget j ''_source'' = PDict d"
    using law by simp_all
  show "docs s' = docs s" if n: "\<And>i v d. q \<noteq> Put_Doc i v d"
  proof (cases q)
    case (Put_Doc i v d)
    with n show ?thesis by blast
  qed (use law in simp_all)
qed

lemma es_request_docs:
  assumes "external_versioning es docs" "es_request es q s = (r, s')" "\<And>i v d. q \<noteq> Put_Doc i v d"
  shows "docs s' = docs s"
proof -
  obtain r1 s1 where e: "es q s = (r1, s1)" by (cases "es q s")
  then have "s' = s1" using assms(2) by (auto simp: es_request_def bind_eff_def split: sum.splits if_splits)
  with external_versioningD(6) [OF assms(1) e assms(3)] show ?thesis by simp
qed

lemma es_request_Inr:
  "es_request es q s = (Inr p, s') \<Longrightarrow> es q s = (Inr p, s') \<and> \<not> (300 \<le> re_status p \<and> re_status p < 400)"
  by (auto simp: es_request_def bind_eff_Inr split: if_splits)

lemma raise_for_status_state: "raise_for_status p s = (r, s') \<Longrightarrow> s' = s"
  by (auto simp: raise_for_status_def split: if_splits)

lemma search_initialize_docs:
  assumes "external_versioning es docs" "search_initialize es s = (r, s')"
  shows "docs s' = docs s"
proof -
  have head: "docs s1 = docs s" if "es_request es Head_Index s = (r1, s1)" for r1 s s1
    using es_request_docs [OF assms(1) that] by simp
  have put: "docs s1 = docs s" if "es_request es Put_Index s = (r1, s1)" for r1 s s1
    using es_request_docs [OF assms(1) that] by simp
  show ?thesis
    using assms(2) unfolding search_initialize_def
    by (auto simp: bind_eff_def lift_res_def raise_for_status_def dest!: head put
        split: prod.splits sum.splits if_splits)
qed

text \<open>What a version of an order left behind in the index: this version or a later one.\<close>

definition holds_version :: "(int \<times> pdict) option \<Rightarrow> int \<Rightarrow> pdict \<Rightarrow> bool" where
  "holds_version stored v d \<longleftrightarrow> (case stored of None \<Rightarrow> False
     | Some (v', d') \<Rightarrow> v < v' \<or> (v' = v \<and> canon (PDict d') = canon (PDict d)))"

lemma holds_version_self [simp]: "holds_version (Some (v, d)) v d"
  by (simp add: holds_version_def)

lemma check_conflict_holds:
  assumes "check_conflict order i v doc = Inr out" "doc = PDict j" "dget j ''_version'' = PInt v'"
    "dget j ''_source'' = PDict d"
  shows "holds_version (Some (v', d)) v order"
  using assms by (auto simp: check_conflict_def py_get_def holds_version_def canonical_def bind_res_Inr_iff
      split: if_splits)

lemma search_put_effect:
  assumes "external_versioning es docs" "es_request es (Put_Doc i v d) s = (r, s')"
  shows "docs s' = docs s \<or> newer (docs s i) v \<and> docs s' = (docs s)(i \<mapsto> (v, d))"
proof -
  obtain r1 s1 where e: "es (Put_Doc i v d) s = (r1, s1)" by (cases "es (Put_Doc i v d) s")
  then have "s' = s1" using assms(2) by (auto simp: es_request_def bind_eff_def split: sum.splits if_splits)
  with external_versioningD(2) [OF assms(1) e refl] show ?thesis by simp
qed

lemma search_index_effect:
  assumes law: "external_versioning es docs" and run: "search_index es order s = (r, s')"
  defines "i \<equiv> str_of (dget order ''id'')" and "v \<equiv> int_of (dget order ''version'')"
  shows "docs s' = docs s \<or> newer (docs s i) v \<and> docs s' = (docs s)(i \<mapsto> (v, order))"
    and "r = Inr out \<Longrightarrow> holds_version (docs s' i) v order"
proof -
  obtain r0 s0 where init: "search_initialize es s = (r0, s0)" by (cases "search_initialize es s")
  have d0: "docs s0 = docs s" by (rule search_initialize_docs [OF law init])
  obtain r1 s1 where put: "put_document es i v order s0 = (r1, s1)"
    by (cases "put_document es i v order s0")
  have d1: "docs s1 = docs s \<or> newer (docs s i) v \<and> docs s1 = (docs s)(i \<mapsto> (v, order))"
    using search_put_effect [OF law, of i v order s0 r1 s1] put d0
    by (auto simp: put_document_def raise_exn_def split: if_splits)
  have get: "docs s2 = docs s1" if "es_request es (Get_Doc i) s1 = (r2, s2)" for r2 s2
    using es_request_docs [OF law that] by simp
  note def = search_index_def Let_def i_def [symmetric] v_def [symmetric]
  have "docs s' = docs s \<or> docs s' = docs s1"
    using run init put d0 unfolding def
    by (auto simp: bind_eff_def lift_res_def raise_for_status_def dest!: get
        split: prod.splits sum.splits if_splits)
  with d1 show "docs s' = docs s \<or> newer (docs s i) v \<and> docs s' = (docs s)(i \<mapsto> (v, order))" by auto
  assume ok: "r = Inr out"
  then obtain p where p: "r1 = Inr p" "r0 = Inr ()"
    using run init put unfolding def by (auto simp: bind_eff_def split: sum.splits)
  have "es_request es (Put_Doc i v order) s0 = (Inr p, s1)"
    using put p(1) by (auto simp: put_document_def raise_exn_def split: if_splits)
  note es_put = es_request_Inr [OF this]
  show "holds_version (docs s' i) v order"
  proof (cases "re_status p = 409 \<and> error_type p = Inr (PStr (u ''version_conflict_engine_exception''))")
    case True
    then obtain c s2 b where c: "es_request es (Get_Doc i) s1 = (Inr c, s2)" "raise_for_status c s2 = (Inr (), s')"
      "reply_json c = Inr b" "check_conflict order i v b = Inr out"
      using run ok init put p unfolding def by (auto simp: bind_eff_Inr lift_res_def)
    note es_get = es_request_Inr [OF c(1)]
    have s': "s' = s2" using raise_for_status_state [OF c(2)] .
    have "re_status c < 300"
      using es_get external_versioningD(1) [OF law conjunct1 [OF es_get] refl] c(2)
      by (auto simp: raise_for_status_def split: if_splits)
    moreover have "re_json c = Some b" using c(3) by (auto simp: reply_json_def split: option.splits)
    ultimately obtain v' d j where "docs s1 i = Some (v', d)" "b = PDict j"
      "dget j ''_version'' = PInt v'" "dget j ''_source'' = PDict d"
      using external_versioningD(5) [OF law conjunct1 [OF es_get] refl refl] by blast
    with check_conflict_holds [OF c(4)] get [OF c(1)] s' show ?thesis by simp
  next
    case False
    then have "raise_for_status p s1 = (Inr (), s')"
      using run ok init put p unfolding def
      by (auto simp: bind_eff_Inr lift_res_def split: if_splits)
    then have "s' = s1" "re_status p < 300"
      using es_put external_versioningD(1) [OF law conjunct1 [OF es_put] refl]
      by (auto simp: raise_for_status_def split: if_splits)
    with external_versioningD(3) [OF law conjunct1 [OF es_put] refl refl] show ?thesis by simp
  qed
qed

section \<open>Reading an order\<close>

lemma cached_order_Inr:
  "cached_order iso_ok oid v = Inr x \<Longrightarrow> dget x ''id'' = PStr oid \<and> pkeys x = u ` set order_fields \<and> v = PDict x
     \<and> validate_event iso_ok (PDict [(u ''schema_version'', PInt 1), (u ''event_id'', PStr oid), (u ''order'', PDict x)]) = Inr x"
  using validate_event_Inr [of iso_ok "PDict [(u ''schema_version'', PInt 1), (u ''event_id'', PStr oid), (u ''order'', v)]" x]
  by (auto simp: cached_order_def bind_res_Inr_iff split: if_splits)

text \<open>C10: The cache never decides whether an order can be read. For every behaviour of Redis
  (outages, foreign or corrupt entries), \<open>detail\<close> fails only for a malformed id, a repository
  error or a missing order; otherwise it returns either the row the repository holds now or a
  cache entry with the full set of fields that validates as an order with the requested id, and
  a fresh read always comes from the repository.\<close>

theorem detail_independent_of_cache:
  "(case storefront_detail iso_ok redis repo_get oid fresh s of
      (Inl e, s') \<Rightarrow> (\<not> uuid_canonical oid \<and> e = Problem 400 ''invalid_order_id'' \<and> s' = s)
        \<or> repo_get oid = Inl e \<or> (repo_get oid = Inr None \<and> e = Problem 404 ''order_not_found'')
    | (Inr r, s') \<Rightarrow> uuid_canonical oid \<and>
        (if dr_source r = ''mariadb'' then \<exists>x. repo_get oid = Inr (Some x) \<and> dr_order r = order_value x
         else dr_source r = ''redis'' \<and> \<not> fresh \<and> dget (dr_order r) ''id'' = PStr oid
           \<and> pkeys (dr_order r) = u ` set order_fields
           \<and> is_ok (validate_event iso_ok (PDict [(u ''schema_version'', PInt 1), (u ''event_id'', PStr oid),
               (u ''order'', PDict (dr_order r))]))))"
proof (cases "uuid_canonical oid")
  case False
  then show ?thesis by (simp add: storefront_detail_def order_identifier_def)
next
  case True
  then have i: "order_identifier (PStr oid) = Inr oid" by (simp add: order_identifier_def)
  obtain hit st s1 where l: "cache_lookup iso_ok redis oid fresh s = ((hit, st), s1)"
    by (metis surj_pair)
  show ?thesis
  proof (cases hit)
    case (Some x)
    then have eq: "storefront_detail iso_ok redis repo_get oid fresh s
        = (Inr \<lparr>dr_order = x, dr_source = ''redis'', dr_cache = st\<rparr>, s1)"
      by (simp add: storefront_detail_def i l)
    have "\<not> fresh" "\<exists>v. cached_order iso_ok oid v = Inr x"
      using l Some by (auto simp: cache_lookup_def split: if_splits prod.splits sum.splits)
    then obtain v where "\<not> fresh" "cached_order iso_ok oid v = Inr x" by blast
    with cached_order_Inr [OF this(2)] True show ?thesis unfolding eq by simp
  next
    case None
    then show ?thesis
      by (auto simp: storefront_detail_def i l True attempt_def split: prod.splits sum.splits option.splits)
  qed
qed

lemma search_index_projected:
  assumes "external_versioning es docs" "wf_order iso_ok x" "search_index es (order_value x) s = (r, s')"
  shows "docs s' = docs s \<or> newer (docs s (o_id x)) (o_version x)
           \<and> docs s' = (docs s)(o_id x \<mapsto> (o_version x, order_value x))"
    and "r = Inr out \<Longrightarrow> holds_version (docs s' (o_id x)) (o_version x) (order_value x)"
  using search_index_effect [OF assms(1,3)] by (simp_all add: str_of_def int_of_def)

theorem detail_independent_of_cache_witness:
  "\<exists>r s'. storefront_detail (\<lambda>_. True) (\<lambda>_ s. (Inl (Other_Error ''ConnectionError''), s))
      (\<lambda>_. Inr (Some sample_order)) sample_uuid False () = (Inr r, s') \<and> dr_source r = ''mariadb''
      \<and> dr_order r = order_value sample_order"
proof -
  let ?redis = "\<lambda>_ s. (Inl (Other_Error ''ConnectionError''), s)"
  have run: "storefront_detail (\<lambda>_. True) ?redis (\<lambda>_. Inr (Some sample_order)) sample_uuid False ()
      = (Inr \<lparr>dr_order = order_value sample_order, dr_source = ''mariadb'', dr_cache = ''unavailable''\<rparr>, ())"
    by (simp add: storefront_detail_def order_identifier_def sample_uuid_canonical cache_lookup_def
        cache_get_def cache_put_def bind_eff_def attempt_def)
  show ?thesis
    using detail_independent_of_cache [where iso_ok = "\<lambda>_. True" and redis = ?redis
      and repo_get = "\<lambda>_. Inr (Some sample_order)" and oid = sample_uuid and fresh = False and s = "()"]
    unfolding run by simp
qed

text \<open>A single-node index in memory with the documented versioning, for the concrete instances.\<close>

definition mem_es :: "(ustr \<Rightarrow> (int \<times> pdict) option) es" where
  "mem_es q s = (case q of
       Put_Doc i v d \<Rightarrow> if newer (s i) v then (Inr \<lparr>re_status = 201, re_json = Some (PDict [])\<rparr>, s(i \<mapsto> (v, d)))
         else (Inr \<lparr>re_status = 409, re_json = Some (PDict [(u ''error'', PDict [(u ''type'',
                 PStr (u ''version_conflict_engine_exception''))])])\<rparr>, s)
     | Get_Doc i \<Rightarrow> (case s i of None \<Rightarrow> (Inr \<lparr>re_status = 404, re_json = Some (PDict [])\<rparr>, s)
         | Some (v, d) \<Rightarrow> (Inr \<lparr>re_status = 200, re_json = Some (PDict [(u ''_version'', PInt v),
                 (u ''_source'', PDict d)])\<rparr>, s))
     | _ \<Rightarrow> (Inr \<lparr>re_status = 200, re_json = Some (PDict [])\<rparr>, s))"

lemma mem_es_versioning: "external_versioning mem_es id"
  unfolding external_versioning_def mem_es_def
  by (auto split: es_request.splits option.splits prod.splits if_splits)

definition no_redis :: "unit redis" where
  "no_redis q s = (Inl (Other_Error ''ConnectionError''), s)"

text \<open>\<open>project_one\<close> never commits ahead of the index. If the commit callback ran (the offset
  state changed, or the call returned), the event was valid and the index holds this version of
  its order or a later one; any invalid event or failed index request leaves the offset as it was,
  and the index only ever moves to a newer version of that one order.\<close>

theorem project_commits_after_index:
  assumes law: "external_versioning es docs"
    and run: "project_one iso_ok es redis commit event (e, c, k) = (r, e', c', k')"
  shows "(k' \<noteq> k \<or> r = Inr () \<longrightarrow> (\<exists>d. validate_event iso_ok event = Inr d
       \<and> holds_version (docs e' (str_of (dget d ''id''))) (int_of (dget d ''version'')) d))
    \<and> (docs e' = docs e \<or> (\<exists>d. validate_event iso_ok event = Inr d
       \<and> newer (docs e (str_of (dget d ''id''))) (int_of (dget d ''version''))
       \<and> docs e' = (docs e)(str_of (dget d ''id'') \<mapsto> (int_of (dget d ''version''), d))))"
proof (cases "validate_event iso_ok event")
  case (Inl x)
  then show ?thesis using run by (auto simp: project_one_def)
next
  case (Inr d)
  obtain r1 e1 where idx: "search_index es d e = (r1, e1)" by (cases "search_index es d e")
  have "e' = e1" using run by (auto simp: project_one_def Inr idx Let_def split: sum.splits prod.splits)
  moreover have "r1 = Inl x \<Longrightarrow> k' = k \<and> r = Inl x" for x
    using run by (simp add: project_one_def Inr idx)
  ultimately show ?thesis
    using search_index_effect [OF law idx] Inr by (cases r1) auto
qed

lemma sample_project:
  "project_one (\<lambda>_. True) mem_es no_redis (\<lambda>k. (Inr (), k + 1)) (envelope sample_uuid sample_order)
     (\<lambda>_. None, (), 0 :: nat) = (Inr (), [o_id sample_order \<mapsto> (1, order_value sample_order)], (), 1)"
  by (simp add: project_one_def validate_event_envelope sample_order_wf sample_uuid_canonical
      search_index_def Let_def search_initialize_def es_request_def bind_eff_def mem_es_def newer_def
      str_of_def int_of_def raise_for_status_def no_redis_def attempt_def cache_delete_def)
    (simp add: sample_order_def new_order_def)

theorem project_commits_after_index_witness:
  "\<exists>d. validate_event (\<lambda>_. True) (envelope sample_uuid sample_order) = Inr d
     \<and> holds_version ([o_id sample_order \<mapsto> (1, order_value sample_order)] (str_of (dget d ''id'')))
         (int_of (dget d ''version'')) d"
  using project_commits_after_index [OF mem_es_versioning sample_project] by simp

end
