(* ===== verification/Worker.thy ===== *)
theory Worker
  imports Projection
begin

text \<open>
  \<open>mvp-lab/mvp_app/worker.py\<close> and \<open>worker_health.py\<close>: the checkpoint of a processed Kafka
  message, one turn of the consumer, the health receipt, and the whole order pipeline as a step
  relation: customers change the store, the relay publishes the outbox (and may publish twice),
  the consumer projects the log into the index and commits offsets.
\<close>

section \<open>Checkpoints\<close>

text \<open>A \<open>TopicPartition\<close> as the code reads it: a missing attribute is \<open>None\<close>.\<close>

record topic_partition =
  tp_error :: bool
  tp_topic :: pv
  tp_partition :: pv
  tp_offset :: pv

text \<open>\<open>commit\<close> is \<open>consumer.commit(message=message, asynchronous=False)\<close>; it answers a list or
  something else (\<open>None\<close>).\<close>

definition acknowledge ::
  "ustr \<Rightarrow> int \<Rightarrow> int \<Rightarrow> (topic_partition list option, 'k) eff \<Rightarrow> (unit, 'k) eff" where
  "acknowledge topic part offset commit = bind_eff commit (\<lambda>results. case results of
       Some [position] \<Rightarrow>
         if tp_error position \<or> tp_topic position \<noteq> PStr topic \<or> tp_partition position \<noteq> PInt part
            \<or> tp_offset position \<noteq> PInt (offset + 1)
         then raise_exn (Runtime_Error ''Kafka checkpoint identity/offset disagrees with processed message'')
         else ret ()
     | _ \<Rightarrow> raise_exn (Runtime_Error ''Kafka checkpoint was not confirmed''))"

text \<open>\<open>assigned\<close> is \<open>consumer.assignment()\<close>, \<open>offsets\<close> what \<open>get_watermark_offsets\<close>
  returns when it is asked (\<open>None\<close> when it is not a tuple).\<close>

definition idle_consumer_ready ::
  "topic_partition list option \<Rightarrow> pv list option res \<Rightarrow> ustr \<Rightarrow> bool res" where
  "idle_consumer_ready assigned offsets topic = (case assigned of
       Some [tp] \<Rightarrow>
         if tp_topic tp \<noteq> PStr topic \<or> tp_partition tp \<noteq> PInt 0 \<or> tp_error tp then Inr False
         else bind_res offsets (\<lambda>o'. case o' of
             Some [PInt low, PInt high] \<Rightarrow> if 0 \<le> low \<and> low \<le> high then Inr True
               else Inl (Runtime_Error ''Kafka readiness offset query was not confirmed'')
           | _ \<Rightarrow> Inl (Runtime_Error ''Kafka readiness offset query was not confirmed''))
     | _ \<Rightarrow> Inr False)"

text \<open>One polled message: decode (\<open>None\<close> is a value that is not JSON), validate, project, commit.\<close>

definition consume_message ::
  "(ustr \<Rightarrow> bool) \<Rightarrow> 'e es \<Rightarrow> 'c redis \<Rightarrow> (topic_partition list option, 'k) eff \<Rightarrow> ustr \<Rightarrow> int \<Rightarrow> int
     \<Rightarrow> pv option \<Rightarrow> (unit, 'e \<times> 'c \<times> 'k) eff" where
  "consume_message iso_ok es redis commit topic part offset text s = (case text of
       None \<Rightarrow> (Inl (Value_Error ''JSONDecodeError''), s)
     | Some event \<Rightarrow> project_one iso_ok es redis (acknowledge topic part offset commit) event s)"

section \<open>The health receipt\<close>

record loop_health =
  lh_ok :: bool
  lh_last :: "rat option"

record worker_health =
  wh_relay :: loop_health
  wh_consumer :: loop_health

text \<open>The object and the receipt file it last saved, with the time of the save.\<close>

record health_state =
  hs_data :: worker_health
  hs_saved :: worker_health
  hs_last_write :: rat

datatype loop_name = Relay | Consumer

definition loop_of :: "loop_name \<Rightarrow> worker_health \<Rightarrow> loop_health" where
  "loop_of n w = (case n of Relay \<Rightarrow> wh_relay w | Consumer \<Rightarrow> wh_consumer w)"

definition set_loop :: "loop_name \<Rightarrow> loop_health \<Rightarrow> worker_health \<Rightarrow> worker_health" where
  "set_loop n l w = (case n of Relay \<Rightarrow> w\<lparr>wh_relay := l\<rparr> | Consumer \<Rightarrow> w\<lparr>wh_consumer := l\<rparr>)"

definition health_init :: "rat \<Rightarrow> health_state" where
  "health_init now = (let w = \<lparr>wh_relay = \<lparr>lh_ok = False, lh_last = None\<rparr>,
                               wh_consumer = \<lparr>lh_ok = False, lh_last = None\<rparr>\<rparr>
     in \<lparr>hs_data = w, hs_saved = w, hs_last_write = now\<rparr>)"

definition health_save :: "rat \<Rightarrow> health_state \<Rightarrow> health_state" where
  "health_save now h = h\<lparr>hs_saved := hs_data h, hs_last_write := now\<rparr>"

text \<open>\<open>now\<close> and \<open>later\<close> are the two readings of the clock, in \<open>mark\<close> and in \<open>_save\<close>.\<close>

definition health_mark :: "loop_name \<Rightarrow> bool \<Rightarrow> rat \<Rightarrow> rat \<Rightarrow> health_state \<Rightarrow> health_state" where
  "health_mark n ok now later h =
     (let row = loop_of n (hs_data h);
          changed = (lh_ok row \<noteq> ok);
          row' = \<lparr>lh_ok = ok, lh_last = (if ok then Some now else lh_last row)\<rparr>;
          h' = h\<lparr>hs_data := set_loop n row' (hs_data h)\<rparr>
      in if changed \<or> now - hs_last_write h \<ge> 1 then health_save later h' else h')"

definition health_close :: "rat \<Rightarrow> health_state \<Rightarrow> health_state" where
  "health_close now h = (let w = hs_data h in
     health_save now (h\<lparr>hs_data := \<lparr>wh_relay = (wh_relay w)\<lparr>lh_ok := False\<rparr>,
                                     wh_consumer = (wh_consumer w)\<lparr>lh_ok := False\<rparr>\<rparr>\<rparr>))"

definition loop_value :: "loop_health \<Rightarrow> pv" where
  "loop_value l = PDict [(u ''ok'', PBool (lh_ok l)),
     (u ''last_success'', case lh_last l of None \<Rightarrow> PNone | Some t \<Rightarrow> PFloat t)]"

definition receipt_value :: "int \<Rightarrow> ustr \<Rightarrow> worker_health \<Rightarrow> pv" where
  "receipt_value pid start w = PDict [(u ''schema'', PInt 1), (u ''pid'', PInt pid),
     (u ''process_start'', PStr start),
     (u ''loops'', PDict [(u ''relay'', loop_value (wh_relay w)), (u ''consumer'', loop_value (wh_consumer w))])]"

definition fresh_loop :: "rat \<Rightarrow> pv \<Rightarrow> bool" where
  "fresh_loop now row = (case row of
       PDict r \<Rightarrow> dget r ''ok'' = PBool True \<and>
         (case dget r ''last_success'' of
            PInt t \<Rightarrow> 0 \<le> now - of_int t \<and> now - of_int t \<le> 30
          | PFloat t \<Rightarrow> 0 \<le> now - t \<and> now - t \<le> 30
          | _ \<Rightarrow> False)
     | _ \<Rightarrow> False)"

text \<open>\<open>start pid\<close> is \<open>process_start(pid)\<close>, \<open>None\<close> when it raises; \<open>data\<close> the parsed receipt,
  \<open>None\<close> when it cannot be opened, is not a private regular file of at most 4096 bytes, or is not JSON.\<close>

definition is_ready :: "(int \<Rightarrow> ustr option) \<Rightarrow> rat \<Rightarrow> pv option \<Rightarrow> bool" where
  "is_ready start now data = (case data of
       Some (PDict d) \<Rightarrow> dget d ''schema'' = PInt 1 \<and>
         (case dget d ''pid'' of
            PInt pid \<Rightarrow> 1 \<le> pid \<and> (case start pid of None \<Rightarrow> False | Some s \<Rightarrow> dget d ''process_start'' = PStr s) \<and>
              (case dget d ''loops'' of
                 PDict loops \<Rightarrow> pkeys loops = {u ''relay'', u ''consumer''} \<and> list_all (\<lambda>(_, row). fresh_loop now row) loops
               | _ \<Rightarrow> False)
          | _ \<Rightarrow> False)
     | _ \<Rightarrow> False)"

section \<open>What is relied on of Kafka\<close>

text \<open>
  \<open>logf\<close> is the partition's log and \<open>comf\<close> the group's committed offset. Publishing only
  appends copies of the event, at least one when the delivery report has no error; committing
  message \<open>n\<close> leaves the log and either moves the committed offset to \<open>n + 1\<close> or not, and an
  answer without an error and with that offset means it did.
\<close>

type_synonym 'k kcommit = "nat \<Rightarrow> (topic_partition list option, 'k) eff"

definition kafka_log :: "'k kafka \<Rightarrow> 'k kcommit \<Rightarrow> ('k \<Rightarrow> pv list) \<Rightarrow> ('k \<Rightarrow> nat) \<Rightarrow> bool" where
  "kafka_log kafka kcommit logf comf \<longleftrightarrow>
     (\<forall>key ev k r k'. kafka key ev k = (r, k') \<longrightarrow> comf k' = comf k
        \<and> (\<exists>n. logf k' = logf k @ replicate n ev
             \<and> (\<forall>del. r = Inr (0, False # del) \<longrightarrow> 0 < n))) \<and>
     (\<forall>n k r k'. kcommit n k = (r, k') \<longrightarrow> logf k' = logf k \<and> (comf k' = comf k \<or> comf k' = n + 1)
        \<and> (\<forall>tp. r = Inr (Some [tp]) \<longrightarrow> \<not> tp_error tp \<longrightarrow> tp_offset tp = PInt (int n + 1) \<longrightarrow> comf k' = n + 1))"

lemma publish_log:
  assumes "kafka_log kafka kcommit logf comf" "broker_publish kafka ev k = (r, k')"
  shows "comf k' = comf k" "\<exists>n. logf k' = logf k @ replicate n ev \<and> (r = Inr () \<longrightarrow> 0 < n)"
proof -
  obtain r1 k1 where k: "kafka (event_key ev) ev k = (r1, k1)" by (cases "kafka (event_key ev) ev k")
  have "k' = k1" and r: "r = Inr () \<Longrightarrow> \<exists>del. r1 = Inr (0, False # del)"
    using assms(2) k
    by (auto simp: broker_publish_def bind_eff_def neq_Nil_conv split: sum.splits prod.splits if_splits)
  moreover have "comf k1 = comf k \<and> (\<exists>n. logf k1 = logf k @ replicate n ev
             \<and> (\<forall>del. r1 = Inr (0, False # del) \<longrightarrow> 0 < n))"
    using assms(1) k unfolding kafka_log_def by blast
  ultimately show "comf k' = comf k" "\<exists>n. logf k' = logf k @ replicate n ev \<and> (r = Inr () \<longrightarrow> 0 < n)"
    by auto
qed

lemma acknowledge_commit:
  assumes "kafka_log kafka kcommit logf comf" "acknowledge topic part (int n) (kcommit n) k = (r, k')"
  shows "logf k' = logf k" "comf k' = comf k \<or> comf k' = n + 1" "r = Inr () \<Longrightarrow> comf k' = n + 1"
proof -
  obtain r1 k1 where k: "kcommit n k = (r1, k1)" by (cases "kcommit n k")
  then have "k' = k1" and r: "r = Inr () \<Longrightarrow> \<exists>tp. r1 = Inr (Some [tp]) \<and> \<not> tp_error tp
      \<and> tp_offset tp = PInt (int n + 1)"
    using assms(2)
    by (auto simp: acknowledge_def bind_eff_def split: sum.splits prod.splits option.splits list.splits if_splits)
  moreover have "logf k1 = logf k \<and> (comf k1 = comf k \<or> comf k1 = n + 1)
        \<and> (\<forall>tp. r1 = Inr (Some [tp]) \<longrightarrow> \<not> tp_error tp \<longrightarrow> tp_offset tp = PInt (int n + 1) \<longrightarrow> comf k1 = n + 1)"
    using assms(1) k unfolding kafka_log_def by blast
  ultimately show "logf k' = logf k" "comf k' = comf k \<or> comf k' = n + 1" "r = Inr () \<Longrightarrow> comf k' = n + 1"
    by auto
qed

section \<open>The pipeline\<close>

text \<open>The whole state; \<open>pi_pos\<close> is the offset the consumer reads next.\<close>

record ('e, 'c, 'k) pipe =
  pi_db :: db
  pi_es :: 'e
  pi_cache :: 'c
  pi_kafka :: 'k
  pi_pos :: nat

text \<open>
  One step of anything that runs: a create (whose first read may be an older state), an update, a
  customer's read, one turn of the relay however its transactions end, a late delivery of an
  event the producer still held, one message of the consumer however it ends, and a rejoin of the
  consumer at the committed offset.
\<close>

inductive pipe_step ::
  "(ustr \<Rightarrow> bool) \<Rightarrow> 'e es \<Rightarrow> 'c redis \<Rightarrow> 'k kafka \<Rightarrow> 'k kcommit \<Rightarrow> ('k \<Rightarrow> pv list) \<Rightarrow> ('k \<Rightarrow> nat)
     \<Rightarrow> ('e, 'c, 'k) pipe \<Rightarrow> ('e, 'c, 'k) pipe \<Rightarrow> bool"
  for iso_ok es redis kafka kcommit logf comf where
  create: "sql_create seen id c1 c2 oid ev now data key (pi_db s) = (r, d') \<Longrightarrow> grown seen (pi_db s) \<Longrightarrow>
    wf_data data \<Longrightarrow> uuid_canonical oid \<Longrightarrow> uuid_canonical ev \<Longrightarrow> iso_ok now \<Longrightarrow>
    pipe_step iso_ok es redis kafka kcommit logf comf s (s\<lparr>pi_db := d'\<rparr>)"
| update: "storefront_update c redis ev oid data (pi_db s, pi_cache s) = (r, d', c') \<Longrightarrow> uuid_canonical ev \<Longrightarrow>
    pipe_step iso_ok es redis kafka kcommit logf comf s (s\<lparr>pi_db := d', pi_cache := c'\<rparr>)"
| detail: "storefront_detail iso_ok redis (\<lambda>i. Inr (sql_get i (pi_db s))) oid fresh (pi_cache s) = (q, c') \<Longrightarrow>
    pipe_step iso_ok es redis kafka kcommit logf comf s (s\<lparr>pi_cache := c'\<rparr>)"
| relay: "relay_once c1 c2 kafka (pi_db s, pi_kafka s) = (b, d', k') \<Longrightarrow>
    pipe_step iso_ok es redis kafka kcommit logf comf s (s\<lparr>pi_db := d', pi_kafka := k'\<rparr>)"
| late: "p \<in> x_payload ` set (d_outbox (pi_db s)) \<Longrightarrow> logf k' = logf (pi_kafka s) @ [p] \<Longrightarrow>
    comf k' = comf (pi_kafka s) \<Longrightarrow>
    pipe_step iso_ok es redis kafka kcommit logf comf s (s\<lparr>pi_kafka := k'\<rparr>)"
| consume: "pi_pos s < length (logf (pi_kafka s)) \<Longrightarrow>
    consume_message iso_ok es redis (kcommit (pi_pos s)) topic part (int (pi_pos s))
      (Some (logf (pi_kafka s) ! pi_pos s)) (pi_es s, pi_cache s, pi_kafka s) = (q', e', c', k') \<Longrightarrow>
    pipe_step iso_ok es redis kafka kcommit logf comf s
      (s\<lparr>pi_es := e', pi_cache := c', pi_kafka := k', pi_pos := (if is_ok q' then pi_pos s + 1 else comf k')\<rparr>)"
| rejoin: "pipe_step iso_ok es redis kafka kcommit logf comf s (s\<lparr>pi_pos := comf (pi_kafka s)\<rparr>)"

definition pipe_start :: "('e \<Rightarrow> ustr \<Rightarrow> (int \<times> pdict) option) \<Rightarrow> ('k \<Rightarrow> pv list) \<Rightarrow> ('k \<Rightarrow> nat)
    \<Rightarrow> ('e, 'c, 'k) pipe \<Rightarrow> bool" where
  "pipe_start docs logf comf s \<longleftrightarrow> pi_db s = empty_db \<and> docs (pi_es s) = Map.empty
     \<and> logf (pi_kafka s) = [] \<and> comf (pi_kafka s) = 0 \<and> pi_pos s = 0"

section \<open>The invariant of the pipeline\<close>

text \<open>Every document is a version the store recorded; every message comes from the outbox and
  every sent row is in the log; the first \<open>n\<close> messages have reached the index.\<close>

definition docs_sound :: "db \<Rightarrow> (ustr \<Rightarrow> (int \<times> pdict) option) \<Rightarrow> bool" where
  "docs_sound d m \<longleftrightarrow> (\<forall>i v x. m i = Some (v, x) \<longrightarrow>
     (\<exists>y\<in>set (history i d). x = order_value y \<and> v = o_version y))"

definition log_sound :: "db \<Rightarrow> pv list \<Rightarrow> bool" where
  "log_sound d xs \<longleftrightarrow> set xs \<subseteq> x_payload ` set (d_outbox d)
     \<and> (\<forall>r\<in>set (d_outbox d). x_sent r \<longrightarrow> x_payload r \<in> set xs)"

definition reached :: "(ustr \<Rightarrow> (int \<times> pdict) option) \<Rightarrow> pv \<Rightarrow> bool" where
  "reached m p \<longleftrightarrow> (let y = event_order p in holds_version (m (o_id y)) (o_version y) (order_value y))"

definition pipe_inv :: "(ustr \<Rightarrow> bool) \<Rightarrow> ('e \<Rightarrow> ustr \<Rightarrow> (int \<times> pdict) option) \<Rightarrow> ('k \<Rightarrow> pv list)
    \<Rightarrow> ('k \<Rightarrow> nat) \<Rightarrow> ('e, 'c, 'k) pipe \<Rightarrow> bool" where
  "pipe_inv iso_ok docs logf comf s \<longleftrightarrow> wf_db iso_ok (pi_db s)
     \<and> docs_sound (pi_db s) (docs (pi_es s)) \<and> log_sound (pi_db s) (logf (pi_kafka s))
     \<and> pi_pos s \<le> length (logf (pi_kafka s)) \<and> comf (pi_kafka s) \<le> length (logf (pi_kafka s))
     \<and> list_all (reached (docs (pi_es s))) (take (max (pi_pos s) (comf (pi_kafka s))) (logf (pi_kafka s)))"

text \<open>A change of the store that only adds unsent events.\<close>

definition outbox_grows :: "db \<Rightarrow> db \<Rightarrow> bool" where
  "outbox_grows d d' \<longleftrightarrow> (\<exists>new. d_outbox d' = d_outbox d @ new \<and> (\<forall>r\<in>set new. \<not> x_sent r))"

lemma outbox_grows_refl [simp]: "outbox_grows d d"
  by (simp add: outbox_grows_def)

lemma transaction_outbox:
  assumes "transaction c body d = (r, d')" "\<And>a d'. body d = Inr (a, d') \<Longrightarrow> outbox_grows d d'"
  shows "outbox_grows d d'"
  using assms(1) by (cases rule: transaction_cases) (use assms(2) in auto)

lemma enqueue_outbox: "enqueue ev x d = Inr d' \<Longrightarrow> outbox_grows d d'"
  by (auto simp: enqueue_def insert_event_def outbox_grows_def split: if_splits)

lemma create_body_outbox: "create_body seen oid ev now data key d = Inr (a, d') \<Longrightarrow> outbox_grows d d'"
proof (cases "select_key key seen")
  case None
  assume "create_body seen oid ev now data key d = Inr (a, d')"
  with None obtain d1 x where "insert_order x d = Inr d1" "enqueue ev (new_order oid now data) d1 = Inr d'"
    by (auto simp: create_body_def Let_def bind_res_Inr_iff)
  then have "d_outbox d1 = d_outbox d" "outbox_grows d1 d'"
    using enqueue_outbox by (auto simp: insert_order_def split: if_splits)
  then show ?thesis by (simp add: outbox_grows_def)
qed (auto simp: create_body_def bind_res_Inr_iff)

lemma sql_create_outbox:
  assumes "sql_create seen id c1 c2 oid ev now data key d = (r, d')"
  shows "outbox_grows d d'"
proof -
  obtain r1 d1 where t: "transaction c1 (create_body seen oid ev now data key) d = (r1, d1)"
    by (cases "transaction c1 (create_body seen oid ev now data key) d") auto
  have g: "outbox_grows d d1" using t create_body_outbox by (rule transaction_outbox)
  obtain r2 d2 where t2: "transaction c2 (create_resolve data key) d1 = (r2, d2)"
    by (cases "transaction c2 (create_resolve data key) d1") auto
  have "d2 = d1" using t2
    by (cases rule: transaction_cases)
      (auto simp: create_resolve_def bind_res_Inr_iff split: option.splits)
  with assms g show ?thesis
    unfolding sql_create_def t by (auto simp: t2 split: sum.splits option.splits if_splits)
qed

lemma sql_update_outbox:
  assumes "sql_update c ev i data d = (r, d')"
  shows "outbox_grows d d'"
proof -
  have "outbox_grows d d2" if "update_body ev i data d = Inr (x, d2)" for x d2
    using that enqueue_outbox [of ev x "update_row x i d" d2] by (auto simp: update_body_Inr outbox_grows_def)
  with assms show ?thesis unfolding sql_update_def by (rule transaction_outbox)
qed

lemma outbox_grows_history: "outbox_grows d d' \<Longrightarrow> set (history i d) \<subseteq> set (history i d')"
  by (auto simp: history_def outbox_orders_def outbox_grows_def)

lemma docs_sound_mono:
  "docs_sound d m \<Longrightarrow> (\<And>i. set (history i d) \<subseteq> set (history i d')) \<Longrightarrow> docs_sound d' m"
  unfolding docs_sound_def by blast

lemma log_sound_grows: "log_sound d xs \<Longrightarrow> outbox_grows d d' \<Longrightarrow> log_sound d' xs"
  by (auto simp: log_sound_def outbox_grows_def)

lemma pipe_inv_store:
  assumes "pipe_inv iso_ok docs logf comf s" "wf_db iso_ok d'" "outbox_grows (pi_db s) d'"
  shows "pipe_inv iso_ok docs logf comf (s\<lparr>pi_db := d', pi_cache := c'\<rparr>)"
  using assms docs_sound_mono [of "pi_db s" _ d'] outbox_grows_history [of "pi_db s" d']
    log_sound_grows [of "pi_db s" _ d']
  by (simp add: pipe_inv_def)

lemma pipe_inv_log:
  assumes "pipe_inv iso_ok docs logf comf s" "logf k' = logf (pi_kafka s) @ xs" "comf k' = comf (pi_kafka s)"
    and "set xs \<subseteq> x_payload ` set (d_outbox (pi_db s))"
  shows "pipe_inv iso_ok docs logf comf (s\<lparr>pi_kafka := k'\<rparr>)"
  using assms by (auto simp: pipe_inv_def log_sound_def)

lemma pending_one_Some:
  "pending_one d = Some (sq, p) \<Longrightarrow> \<exists>r\<in>set (d_outbox d). x_seq r = sq \<and> x_payload r = p \<and> \<not> x_sent r"
proof -
  assume p: "pending_one d = Some (sq, p)"
  let ?xs = "sort_key x_seq (filter (\<lambda>r. \<not> x_sent r) (d_outbox d))"
  obtain r rs where r: "?xs = r # rs" using p by (cases ?xs) (auto simp: pending_one_def)
  have "set ?xs = set (filter (\<lambda>r. \<not> x_sent r) (d_outbox d))" by (rule set_sort)
  then have "r \<in> set (d_outbox d)" "\<not> x_sent r" unfolding r by auto
  with p r show ?thesis by (auto simp: pending_one_def)
qed

lemma pending_one_None: "pending_one d = None \<longleftrightarrow> (\<forall>r\<in>set (d_outbox d). x_sent r)"
proof -
  have "pending_one d = None \<longleftrightarrow> sort_key x_seq (filter (\<lambda>r. \<not> x_sent r) (d_outbox d)) = []"
    by (auto simp: pending_one_def split: list.splits)
  also have "\<dots> \<longleftrightarrow> filter (\<lambda>r. \<not> x_sent r) (d_outbox d) = []"
    by (metis length_0_conv length_sort)
  finally show ?thesis by (simp add: filter_empty_conv)
qed

lemma log_sound_mark:
  assumes "wf_db iso_ok d" "log_sound d xs" "r \<in> set (d_outbox d)" "x_payload r \<in> set xs"
  shows "log_sound (mark_sent (x_seq r) d) xs"
proof -
  have inj: "r' = r" if "r' \<in> set (d_outbox d)" "x_seq r' = x_seq r" for r'
    using assms(1,3) that by (auto simp: wf_db_def strict_sorted_iff distinct_map inj_on_def)
  have "x_payload ` set (d_outbox (mark_sent (x_seq r) d)) = x_payload ` set (d_outbox d)"
    by (metis list.set_map mark_sent_outbox(1))
  moreover have "x_payload r' \<in> set xs" if m: "r' \<in> set (d_outbox (mark_sent (x_seq r) d))" "x_sent r'" for r'
  proof -
    obtain q where q: "q \<in> set (d_outbox d)" "r' = (if x_seq q = x_seq r \<and> \<not> x_sent q then q\<lparr>x_sent := True\<rparr> else q)"
      using m(1) unfolding mark_sent_def by (simp del: if_image_distrib) blast
    show ?thesis
    proof (cases "x_sent q")
      case True
      with q assms(2) show ?thesis by (auto simp: log_sound_def)
    next
      case False
      with q m(2) have "x_seq q = x_seq r" by (auto split: if_splits)
      with inj [OF q(1)] q(2) assms(4) show ?thesis by simp
    qed
  qed
  ultimately show ?thesis using assms(2) by (simp add: log_sound_def)
qed

lemma pipe_inv_mark:
  assumes "pipe_inv iso_ok docs logf comf s" "r \<in> set (d_outbox (pi_db s))"
    "x_payload r \<in> set (logf (pi_kafka s))"
  shows "pipe_inv iso_ok docs logf comf (s\<lparr>pi_db := mark_sent (x_seq r) (pi_db s)\<rparr>)"
  using assms log_sound_mark [of iso_ok "pi_db s" "logf (pi_kafka s)" r] docs_sound_mono
  by (auto simp: pipe_inv_def mark_sent_wf docs_sound_def)

lemma pipe_inv_relay:
  assumes inv: "pipe_inv iso_ok docs logf comf s" and law: "kafka_log kafka kcommit logf comf"
    and run: "relay_once c1 c2 kafka (pi_db s, pi_kafka s) = (b, d', k')"
  shows "pipe_inv iso_ok docs logf comf (s\<lparr>pi_db := d', pi_kafka := k'\<rparr>)"
proof -
  let ?d = "pi_db s"
  obtain r1 d1 where t: "transaction c1 (\<lambda>d. Inr (pending_one d, d)) ?d = (r1, d1)"
    by (cases "transaction c1 (\<lambda>d. Inr (pending_one d, d)) ?d") auto
  then have d1: "d1 = ?d" "\<And>y. r1 = Inr y \<Longrightarrow> y = pending_one ?d"
    by (cases c1; auto simp: transaction_def)+
  show ?thesis
  proof (cases "\<exists>sq p. r1 = Inr (Some (sq, p))")
    case False
    then have "d' = ?d \<and> k' = pi_kafka s"
      using run d1(1) by (auto simp: relay_once_def t split: sum.splits option.splits prod.splits)
    with inv show ?thesis by simp
  next
    case True
    then obtain r where r: "r \<in> set (d_outbox ?d)" "r1 = Inr (Some (x_seq r, x_payload r))"
      using d1(2) pending_one_Some by metis
    obtain r2 k2 where p: "broker_publish kafka (x_payload r) (pi_kafka s) = (r2, k2)"
      by (cases "broker_publish kafka (x_payload r) (pi_kafka s)")
    obtain n where n: "logf k2 = logf (pi_kafka s) @ replicate n (x_payload r)" "r2 = Inr () \<Longrightarrow> 0 < n"
      using publish_log(2) [OF law p] by blast
    have inv2: "pipe_inv iso_ok docs logf comf (s\<lparr>pi_kafka := k2\<rparr>)"
      using r(1) by (intro pipe_inv_log [OF inv n(1) publish_log(1) [OF law p]]) auto
    have "(case r2 of Inl e \<Rightarrow> (Inl e, ?d, k2)
        | Inr _ \<Rightarrow> (case transaction c2 (\<lambda>d. Inr ((), mark_sent (x_seq r) d)) ?d of
                (Inl e, d') \<Rightarrow> (Inl e, d', k2) | (Inr _, d') \<Rightarrow> (Inr True, d', k2))) = (b, d', k')"
      using run unfolding relay_once_def by (simp add: t r(2) d1(1) p split: sum.splits)
    then have "k' = k2" "d' = ?d \<or> (r2 = Inr () \<and> d' = mark_sent (x_seq r) ?d)"
      by (cases r2; cases c2; force simp: transaction_def)+
    then show ?thesis
    proof (elim disjE)
      assume "d' = ?d"
      then show ?thesis using inv2 \<open>k' = k2\<close> by simp
    next
      assume m: "r2 = Inr () \<and> d' = mark_sent (x_seq r) ?d"
      then have "x_payload r \<in> set (logf k2)" using n by simp
      then have "pipe_inv iso_ok docs logf comf (s\<lparr>pi_kafka := k2, pi_db := d'\<rparr>)"
        using pipe_inv_mark [OF inv2, of r] r(1) m by simp
      moreover have "s\<lparr>pi_kafka := k2, pi_db := d'\<rparr> = s\<lparr>pi_db := d', pi_kafka := k2\<rparr>" by (cases s) simp
      ultimately show ?thesis using \<open>k' = k2\<close> by (simp only:)
    qed
  qed
qed

lemma outbox_event:
  assumes "wf_db iso_ok d" "p \<in> x_payload ` set (d_outbox d)"
  defines "y \<equiv> event_order p"
  shows "\<exists>ev. p = envelope ev y \<and> uuid_canonical ev" "wf_order iso_ok y" "y \<in> set (history (o_id y) d)"
    "o_id y \<in> o_id ` set (d_orders d)"
proof -
  obtain r where r: "r \<in> set (d_outbox d)" "p = x_payload r" using assms(2) by auto
  then have e: "event_for (o_id ` set (d_orders d)) r" using assms(1) by (simp add: wf_db_def)
  then show "\<exists>ev. p = envelope ev y \<and> uuid_canonical ev" and i: "o_id y \<in> o_id ` set (d_orders d)"
    using r by (auto simp: event_for_def Let_def y_def)
  have "y \<in> set (outbox_orders d)" using r by (auto simp: outbox_orders_def y_def)
  then show h: "y \<in> set (history (o_id y) d)" by (simp add: history_def)
  obtain row where "row \<in> set (d_orders d)" "o_id row = o_id y" using i by auto
  then have "full_history iso_ok (public row) (history (o_id y) d)" using assms(1) by (auto simp: wf_db_def)
  with h show "wf_order iso_ok y" by (auto simp: full_history_def)
qed

lemma holds_version_step:
  assumes "holds_version (m j) w x" "m' = m \<or> newer (m i) v \<and> m' = m(i \<mapsto> (v, y))"
  shows "holds_version (m' j) w x"
  using assms by (auto simp: holds_version_def newer_def split: option.splits prod.splits if_splits)

lemma reached_step:
  "reached m p \<Longrightarrow> m' = m \<or> newer (m i) v \<and> m' = m(i \<mapsto> (v, y)) \<Longrightarrow> reached m' p"
  unfolding reached_def Let_def by (rule holds_version_step)

lemma consume_effect:
  assumes es: "external_versioning es docs" and kl: "kafka_log kafka kcommit logf comf"
    and y: "wf_order iso_ok y" "uuid_canonical ev"
    and run: "consume_message iso_ok es redis (kcommit n) topic part (int n) (Some (envelope ev y)) (e, c, k)
      = (q, e', c', k')"
  shows "logf k' = logf k"
    and "docs e' = docs e \<or> newer (docs e (o_id y)) (o_version y)
           \<and> docs e' = (docs e)(o_id y \<mapsto> (o_version y, order_value y))"
    and "comf k' = comf k \<or> comf k' = n + 1 \<and> reached (docs e') (envelope ev y)"
    and "is_ok q \<Longrightarrow> comf k' = n + 1 \<and> reached (docs e') (envelope ev y)"
proof -
  note v = validate_event_envelope [OF y]
  obtain r1 e1 where idx: "search_index es (order_value y) e = (r1, e1)"
    by (cases "search_index es (order_value y) e")
  note eff = search_index_projected [OF es y(1) idx]
  have e: "e' = e1"
    using run by (auto simp: consume_message_def project_one_def v idx Let_def split: sum.splits prod.splits)
  have "logf k' = logf k \<and> (comf k' = comf k \<or> comf k' = n + 1 \<and> is_ok r1)
      \<and> (is_ok q \<longrightarrow> comf k' = n + 1 \<and> is_ok r1)"
  proof (cases r1)
    case (Inl x)
    then show ?thesis using run by (auto simp: consume_message_def project_one_def v idx)
  next
    case (Inr out)
    obtain a k1 where a: "acknowledge topic part (int n) (kcommit n) k = (a, k1)"
      by (cases "acknowledge topic part (int n) (kcommit n) k")
    with run Inr have "k' = k1" "is_ok q \<Longrightarrow> a = Inr ()"
      by (auto simp: consume_message_def project_one_def v idx Let_def split: sum.splits)
    with acknowledge_commit [OF kl a] Inr show ?thesis by auto
  qed
  moreover have "reached (docs e1) (envelope ev y)" if "is_ok r1"
    using eff(2) that by (auto simp: reached_def is_ok_iff)
  ultimately show "logf k' = logf k"
    "docs e' = docs e \<or> newer (docs e (o_id y)) (o_version y)
       \<and> docs e' = (docs e)(o_id y \<mapsto> (o_version y, order_value y))"
    "comf k' = comf k \<or> comf k' = n + 1 \<and> reached (docs e') (envelope ev y)"
    "is_ok q \<Longrightarrow> comf k' = n + 1 \<and> reached (docs e') (envelope ev y)"
    using eff(1) e by auto
qed

lemma docs_sound_step:
  "docs_sound d m \<Longrightarrow> y \<in> set (history (o_id y) d) \<Longrightarrow>
   m' = m \<or> newer (m (o_id y)) (o_version y) \<and> m' = m(o_id y \<mapsto> (o_version y, order_value y)) \<Longrightarrow>
   docs_sound d m'"
  by (auto simp: docs_sound_def split: if_splits)

lemma list_all_reached_step:
  "list_all (reached m) xs \<Longrightarrow> m' = m \<or> newer (m i) v \<and> m' = m(i \<mapsto> (v, y)) \<Longrightarrow> list_all (reached m') xs"
  unfolding list_all_iff by (blast intro: reached_step)

lemma take_max_reached:
  assumes "list_all P (take (max a b) xs)" "n < length xs" "P (xs ! n)" "n \<le> max a b"
  shows "list_all P (take (max (n + 1) b) xs)"
proof -
  have "P (xs ! m)" if "m < length xs" "m < max (n + 1) b" for m
  proof (cases "m = n")
    case False
    then have "m < max a b" using that assms(4) by auto
    with assms(1) that show ?thesis by (auto simp: list_all_length)
  qed (use assms in simp)
  then show ?thesis by (auto simp: list_all_length)
qed

lemma pipe_inv_consume:
  assumes inv: "pipe_inv iso_ok docs logf comf s"
    and es: "external_versioning es docs" and kl: "kafka_log kafka kcommit logf comf"
    and pos: "pi_pos s < length (logf (pi_kafka s))"
    and run: "consume_message iso_ok es redis (kcommit (pi_pos s)) topic part (int (pi_pos s))
      (Some (logf (pi_kafka s) ! pi_pos s)) (pi_es s, pi_cache s, pi_kafka s) = (q, e', c', k')"
  shows "pipe_inv iso_ok docs logf comf
    (s\<lparr>pi_es := e', pi_cache := c', pi_kafka := k', pi_pos := (if is_ok q then pi_pos s + 1 else comf k')\<rparr>)"
proof -
  let ?xs = "logf (pi_kafka s)" and ?n = "pi_pos s" and ?d = "pi_db s"
  let ?p = "?xs ! ?n"
  let ?y = "event_order ?p"
  have p: "?p \<in> x_payload ` set (d_outbox ?d)" using inv pos by (auto simp: pipe_inv_def log_sound_def)
  have wf: "wf_db iso_ok ?d" using inv by (simp add: pipe_inv_def)
  note y = outbox_event(2,3) [OF wf p]
  obtain ev where ev: "?p = envelope ev ?y" "uuid_canonical ev" using outbox_event(1) [OF wf p] by blast
  have run': "consume_message iso_ok es redis (kcommit ?n) topic part (int ?n) (Some (envelope ev ?y))
      (pi_es s, pi_cache s, pi_kafka s) = (q, e', c', k')" using run ev(1) by simp
  note eff = consume_effect [OF es kl y(1) ev(2) run']
  have ds: "docs_sound ?d (docs e')"
    using inv by (intro docs_sound_step [OF _ y(2) eff(2)]) (simp add: pipe_inv_def)
  have old: "list_all (reached (docs e')) (take (max ?n (comf (pi_kafka s))) ?xs)"
    using inv by (intro list_all_reached_step [OF _ eff(2)]) (simp add: pipe_inv_def)
  have new: "list_all (reached (docs e')) (take (max (?n + 1) (comf (pi_kafka s))) ?xs)"
    if "reached (docs e') ?p" using take_max_reached [OF old pos that] by simp
  show ?thesis
  proof (cases "comf k' = ?n + 1 \<and> reached (docs e') ?p")
    case True
    then have "list_all (reached (docs e')) (take (?n + 1) ?xs)"
      using new by (auto simp: list_all_length)
    with True inv ds eff(1) pos show ?thesis by (auto simp: pipe_inv_def)
  next
    case False
    then have "comf k' = comf (pi_kafka s)" "\<not> is_ok q" using eff(3,4) ev(1) by auto
    moreover have "list_all (reached (docs e')) (take (comf (pi_kafka s)) ?xs)"
      using old by (auto simp: list_all_length)
    ultimately show ?thesis using inv ds eff(1) by (simp add: pipe_inv_def)
  qed
qed

lemma pipe_inv_start: "pipe_start docs logf comf s \<Longrightarrow> pipe_inv iso_ok docs logf comf s"
  by (simp add: pipe_start_def pipe_inv_def wf_empty_db docs_sound_def log_sound_def) (simp add: empty_db_def)

lemma pipe_inv_step:
  assumes "pipe_step iso_ok es redis kafka kcommit logf comf s s'" "pipe_inv iso_ok docs logf comf s"
    and es: "external_versioning es docs" and kl: "kafka_log kafka kcommit logf comf"
  shows "pipe_inv iso_ok docs logf comf s'"
  using assms(1,2)
proof (cases rule: pipe_step.cases)
  case (create seen c1 c2 oid ev now data key r d')
  have wf: "wf_db iso_ok (pi_db s)" using assms(2) by (simp add: pipe_inv_def)
  have "wf_db iso_ok d'" using sql_create_sound [OF wf create(3-7) _ create(2)] by simp
  from pipe_inv_store [OF assms(2) this sql_create_outbox [OF create(2)], of "pi_cache s"]
  show ?thesis using create(1) by simp
next
  case (update c ev oid data r d' c')
  have wf: "wf_db iso_ok (pi_db s)" using assms(2) by (simp add: pipe_inv_def)
  have "wf_db iso_ok d' \<and> outbox_grows (pi_db s) d'"
  proof (cases "d' = pi_db s")
    case False
    then obtain r2 where "sql_update c ev oid data (pi_db s) = (r2, d')"
      using update(2) by (auto simp: storefront_update_def split: sum.splits prod.splits)
    with sql_update_wf [OF wf update(3) this] sql_update_outbox [OF this] show ?thesis by simp
  qed (use wf in simp)
  with pipe_inv_store [OF assms(2)] show ?thesis using update(1) by simp
next
  case (detail oid fresh q c')
  with assms(2) show ?thesis by (simp add: pipe_inv_def)
next
  case (relay c1 c2 b d' k')
  with pipe_inv_relay [OF assms(2) kl relay(2)] show ?thesis by simp
next
  case (late p k')
  with pipe_inv_log [OF assms(2) late(3,4)] show ?thesis by simp
next
  case (consume topic part q' e' c' k')
  with pipe_inv_consume [OF assms(2) es kl consume(2,3)] show ?thesis by simp
next
  case rejoin
  with assms(2) show ?thesis by (simp add: pipe_inv_def list_all_length)
qed

lemma pipe_inv_reachable:
  assumes "(pipe_step iso_ok es redis kafka kcommit logf comf)\<^sup>*\<^sup>* s0 s" "pipe_start docs logf comf s0"
    and "external_versioning es docs" "kafka_log kafka kcommit logf comf"
  shows "pipe_inv iso_ok docs logf comf s"
  using assms(1)
  by (induction rule: rtranclp_induct)
    (use pipe_inv_start [OF assms(2)] pipe_inv_step [OF _ _ assms(3,4)] in blast)+

section \<open>Properties\<close>

lemma full_history_last:
  assumes "full_history iso_ok x h" "y \<in> set h"
  shows "o_version y \<le> o_version x" "o_version y = o_version x \<Longrightarrow> y = x"
proof -
  have h: "map o_version h = [1..o_version x]" and l: "x \<in> set h" using assms(1) by (auto simp: full_history_def)
  have "o_version y \<in> set (map o_version h)" using assms(2) by simp
  then show "o_version y \<le> o_version x" unfolding h by simp
  have d: "distinct (map o_version h)" unfolding h by simp
  show "o_version y = o_version x \<Longrightarrow> y = x" using d assms(2) l by (auto simp: distinct_map inj_on_def)
qed

lemma history_stored:
  assumes "wf_db iso_ok d" "y \<in> set (history i d)"
  shows "\<exists>row\<in>set (d_orders d). o_id row = i \<and> full_history iso_ok (public row) (history i d)"
proof -
  obtain r where "r \<in> set (d_outbox d)" "y = event_order (x_payload r)" "o_id y = i"
    using assms(2) by (auto simp: history_def outbox_orders_def)
  then have "i \<in> o_id ` set (d_orders d)" using outbox_event(4) [OF assms(1)] by auto
  with assms(1) show ?thesis by (auto simp: wf_db_def)
qed

lemma docs_soundD:
  "docs_sound d m \<Longrightarrow> m i = Some (v, x) \<Longrightarrow> \<exists>y\<in>set (history i d). x = order_value y \<and> v = o_version y"
  unfolding docs_sound_def by blast

lemma quiescent_docs:
  assumes inv: "pipe_inv iso_ok docs logf comf s"
    and "pending_one (pi_db s) = None" "comf (pi_kafka s) = length (logf (pi_kafka s))"
  shows "docs (pi_es s) i = map_option (\<lambda>x. (o_version x, order_value x)) (sql_get i (pi_db s))"
proof -
  let ?d = "pi_db s" and ?m = "docs (pi_es s)"
  have wf: "wf_db iso_ok ?d" and ds: "docs_sound ?d ?m" and ls: "log_sound ?d (logf (pi_kafka s))"
    and all: "list_all (reached ?m) (logf (pi_kafka s))"
    using inv assms(3) by (auto simp: pipe_inv_def max_def split: if_splits)
  show ?thesis
  proof (cases "select_id i ?d")
    case None
    then have "history i ?d = []" using history_unknown [OF wf] by (simp add: select_id_None)
    with docs_soundD [OF ds, of i] have "?m i = None" by (cases "?m i") auto
    with None show ?thesis by (simp add: sql_get_def)
  next
    case (Some row)
    then have row: "row \<in> set (d_orders ?d)" "o_id row = i" using select_id_Some by auto
    then have h: "full_history iso_ok (public row) (history i ?d)" using wf by (auto simp: wf_db_def)
    then have "public row \<in> set (history i ?d)" by (metis full_history_def last_in_set)
    then obtain r where r: "r \<in> set (d_outbox ?d)" "event_order (x_payload r) = public row"
      by (auto simp: history_def outbox_orders_def)
    then have "x_payload r \<in> set (logf (pi_kafka s))"
      using assms(2) ls by (auto simp: pending_one_None log_sound_def)
    with all r(2) row(2) have "holds_version (?m i) (o_version row) (order_value (public row))"
      by (auto simp: list_all_iff reached_def Let_def)
    then obtain v x where m: "?m i = Some (v, x)" "o_version row \<le> v"
      by (auto simp: holds_version_def split: option.splits)
    with docs_soundD [OF ds] obtain y where y: "y \<in> set (history i ?d)" "x = order_value y" "v = o_version y"
      by blast
    with full_history_last [OF h y(1)] m(2) have "y = public row" by simp
    with m(1) y Some show ?thesis by (simp add: sql_get_def)
  qed
qed

text \<open>C8: No acknowledged order is lost to search. In every state the running system can reach
  (any interleaving of customers, relay crashes, duplicate and late deliveries, failed index and
  cache calls, unconfirmed commits and rejoins), once the outbox is drained and the committed
  offset has reached the end of the log, the index is exactly the store: every order under its
  id with its current version and content, and nothing else.\<close>

theorem drained_index_equals_store:
  assumes "(pipe_step iso_ok es redis kafka kcommit logf comf)\<^sup>*\<^sup>* s0 s" "pipe_start docs logf comf s0"
    and "external_versioning es docs" "kafka_log kafka kcommit logf comf"
    and "pending_one (pi_db s) = None" "comf (pi_kafka s) = length (logf (pi_kafka s))"
  shows "docs (pi_es s) i = map_option (\<lambda>x. (o_version x, order_value x)) (sql_get i (pi_db s))"
  by (rule quiescent_docs [OF pipe_inv_reachable [OF assms(1-4)] assms(5,6)])

text \<open>C9: At every moment the index is behind the store and never beside it: each document is a
  version of a stored order that the store really had, not newer than its row, and every message
  below the committed offset has its version, or a later one, in the index.\<close>

theorem index_never_ahead:
  assumes "(pipe_step iso_ok es redis kafka kcommit logf comf)\<^sup>*\<^sup>* s0 s" "pipe_start docs logf comf s0"
    and "external_versioning es docs" "kafka_log kafka kcommit logf comf"
  shows "(\<forall>i v x. docs (pi_es s) i = Some (v, x) \<longrightarrow> (\<exists>y row. y \<in> set (history i (pi_db s)) \<and> x = order_value y
       \<and> v = o_version y \<and> sql_get i (pi_db s) = Some row \<and> same_order y row \<and> v \<le> o_version row))
    \<and> (\<forall>n < comf (pi_kafka s). reached (docs (pi_es s)) (logf (pi_kafka s) ! n))"
proof -
  let ?d = "pi_db s"
  note inv = pipe_inv_reachable [OF assms]
  have wf: "wf_db iso_ok ?d" using inv by (simp add: pipe_inv_def)
  have "\<exists>y row. y \<in> set (history i ?d) \<and> x = order_value y \<and> v = o_version y \<and> sql_get i ?d = Some row
      \<and> same_order y row \<and> v \<le> o_version row" if m: "docs (pi_es s) i = Some (v, x)" for i v x
  proof -
    obtain y where y: "y \<in> set (history i ?d)" "x = order_value y" "v = o_version y"
      using inv docs_soundD [of "pi_db s" "docs (pi_es s)" i v x] m by (auto simp: pipe_inv_def)
    obtain row where row: "row \<in> set (d_orders ?d)" "o_id row = i"
      and h: "full_history iso_ok (public row) (history i ?d)" using history_stored [OF wf y(1)] by auto
    have "sql_get i ?d = Some (public row)" using select_id_row [OF wf row(1)] row(2) by (simp add: sql_get_def)
    moreover have "same_order y (public row)" using h y(1) by (simp add: full_history_def)
    ultimately show ?thesis using y full_history_last(1) [OF h y(1)] by auto
  qed
  moreover have "reached (docs (pi_es s)) (logf (pi_kafka s) ! n)" if "n < comf (pi_kafka s)" for n
    using inv that by (auto simp: pipe_inv_def list_all_length)
  ultimately show ?thesis by blast
qed

text \<open>A broker in memory: the log and the committed offset.\<close>

definition mem_kafka :: "(pv list \<times> nat) kafka" where
  "mem_kafka key ev k = (Inr (0, [False]), fst k @ [ev], snd k)"

definition mem_commit :: "(pv list \<times> nat) kcommit" where
  "mem_commit n k = (Inr (Some [\<lparr>tp_error = False, tp_topic = PStr (u ''t''), tp_partition = PInt 0,
      tp_offset = PInt (int n + 1)\<rparr>]), fst k, n + 1)"

lemma mem_kafka_log: "kafka_log mem_kafka mem_commit fst snd"
proof -
  have "\<exists>n. xs @ [ev] = xs @ replicate n ev \<and> 0 < n" for xs and ev :: pv
    by (rule exI [of _ 1]) simp
  then show ?thesis by (auto simp: kafka_log_def mem_kafka_def mem_commit_def)
qed

abbreviation mem_step where
  "mem_step \<equiv> pipe_step (\<lambda>_. True) mem_es no_redis mem_kafka mem_commit fst snd"

definition mem_start :: "(ustr \<Rightarrow> (int \<times> pdict) option, unit, pv list \<times> nat) pipe" where
  "mem_start = \<lparr>pi_db = empty_db, pi_es = Map.empty, pi_cache = (), pi_kafka = ([], 0), pi_pos = 0\<rparr>"

definition mem_end :: "(ustr \<Rightarrow> (int \<times> pdict) option, unit, pv list \<times> nat) pipe" where
  "mem_end = \<lparr>pi_db = mark_sent 1 sample_db, pi_es = [o_id sample_order \<mapsto> (1, order_value sample_order)],
     pi_cache = (), pi_kafka = ([envelope sample_uuid sample_order], 1), pi_pos = 1\<rparr>"

lemma mem_start_ok: "pipe_start id fst snd mem_start"
  by (simp add: pipe_start_def mem_start_def)

lemma mem_run: "mem_step\<^sup>*\<^sup>* mem_start mem_end"
proof -
  let ?s1 = "mem_start\<lparr>pi_db := sample_db\<rparr>"
  let ?s2 = "?s1\<lparr>pi_db := mark_sent 1 sample_db, pi_kafka := ([envelope sample_uuid sample_order], 0)\<rparr>"
  have "mem_step mem_start ?s1"
    by (rule pipe_step.create [OF _ grown_refl sample_data_wf sample_uuid_canonical sample_uuid_canonical])
      (use sample_create in \<open>simp_all add: mem_start_def\<close>)
  moreover have "pending_one sample_db = Some (1, envelope sample_uuid sample_order)"
    by (simp add: pending_one_def sample_db_def)
  then have "relay_once Commit_ok Commit_ok mem_kafka (pi_db ?s1, pi_kafka ?s1)
      = (Inr True, mark_sent 1 sample_db, ([envelope sample_uuid sample_order], 0))"
    by (simp add: relay_once_def transaction_def broker_publish_def mem_kafka_def bind_eff_def mem_start_def)
  then have "mem_step ?s1 ?s2" by (rule pipe_step.relay)
  moreover have "consume_message (\<lambda>_. True) mem_es no_redis (mem_commit 0) (u ''t'') 0 0
      (Some (envelope sample_uuid sample_order)) (Map.empty, (), [envelope sample_uuid sample_order], 0)
      = (Inr (), [o_id sample_order \<mapsto> (1, order_value sample_order)], (), ([envelope sample_uuid sample_order], 1))"
    by (simp add: consume_message_def project_one_def validate_event_envelope sample_order_wf sample_uuid_canonical
        search_index_def Let_def search_initialize_def es_request_def bind_eff_def mem_es_def newer_def
        str_of_def int_of_def raise_for_status_def no_redis_def attempt_def cache_delete_def acknowledge_def
        mem_commit_def)
      (simp add: sample_order_def new_order_def)
  then have "mem_step ?s2 (?s2\<lparr>pi_es := [o_id sample_order \<mapsto> (1, order_value sample_order)], pi_cache := (),
      pi_kafka := ([envelope sample_uuid sample_order], 1),
      pi_pos := (if is_ok (Inr () :: unit res) then pi_pos ?s2 + 1
                 else snd ([envelope sample_uuid sample_order], 1 :: nat))\<rparr>)"
    by (intro pipe_step.consume) (simp_all add: mem_start_def)
  then have "mem_step ?s2 mem_end" by (simp add: mem_start_def mem_end_def)
  ultimately show ?thesis by (meson converse_rtranclp_into_rtranclp rtranclp.rtrancl_refl)
qed

theorem drained_index_equals_store_witness:
  "pi_es mem_end sample_uuid = map_option (\<lambda>x. (o_version x, order_value x)) (sql_get sample_uuid (pi_db mem_end))"
proof -
  have "pending_one (pi_db mem_end) = None" "snd (pi_kafka mem_end) = length (fst (pi_kafka mem_end))"
    by (simp_all add: mem_end_def pending_one_def mark_sent_def sample_db_def)
  from drained_index_equals_store [OF mem_run mem_start_ok mem_es_versioning mem_kafka_log this, of sample_uuid]
  show ?thesis by simp
qed

theorem index_never_ahead_witness:
  "\<exists>y. y \<in> set (history (o_id sample_order) (pi_db mem_end)) \<and> order_value sample_order = order_value y"
proof -
  have "id (pi_es mem_end) (o_id sample_order) = Some (1, order_value sample_order)"
    by (simp add: mem_end_def)
  with index_never_ahead [OF mem_run mem_start_ok mem_es_versioning mem_kafka_log] show ?thesis by blast
qed

section \<open>Readiness means recent success of both loops\<close>

type_synonym mark = "loop_name \<times> bool \<times> rat \<times> rat"

definition health_run :: "rat \<Rightarrow> mark list \<Rightarrow> health_state" where
  "health_run t0 ms = fold (\<lambda>(n, ok, now, later). health_mark n ok now later) ms (health_init t0)"

definition latest_ok :: "loop_name \<Rightarrow> mark list \<Rightarrow> bool" where
  "latest_ok n ms = (case find_last (\<lambda>m. fst m = n) ms of None \<Rightarrow> False | Some (_, ok, _) \<Rightarrow> ok)"

lemma loop_of_set_loop [simp]: "loop_of m (set_loop n l w) = (if m = n then l else loop_of m w)"
  by (cases m; cases n) (simp_all add: loop_of_def set_loop_def)

lemma latest_ok_snoc: "latest_ok n (ms @ [(m, ok, now, later)]) = (if m = n then ok else latest_ok n ms)"
  by (simp add: latest_ok_def find_last_def)

lemma loop_of_init: "loop_of n (hs_data (health_init t0)) = \<lparr>lh_ok = False, lh_last = None\<rparr>"
  "loop_of n (hs_saved (health_init t0)) = \<lparr>lh_ok = False, lh_last = None\<rparr>"
  by (cases n; simp add: loop_of_def health_init_def Let_def)+

lemma health_run_inv:
  "lh_ok (loop_of n (hs_saved (health_run t0 ms))) = latest_ok n ms
   \<and> lh_ok (loop_of n (hs_data (health_run t0 ms))) = latest_ok n ms
   \<and> (\<forall>t. lh_last (loop_of n (hs_saved (health_run t0 ms))) = Some t \<longrightarrow> (\<exists>b. (n, True, t, b) \<in> set ms))
   \<and> (\<forall>t. lh_last (loop_of n (hs_data (health_run t0 ms))) = Some t \<longrightarrow> (\<exists>b. (n, True, t, b) \<in> set ms))"
proof (induction ms rule: rev_induct)
  case Nil
  then show ?case by (simp add: health_run_def loop_of_init latest_ok_def find_last_def)
next
  case (snoc m ms)
  obtain k ok a b where m: "m = (k, ok, a, b)" by (cases m)
  let ?h = "health_run t0 ms"
  have run: "health_run t0 (ms @ [(k, ok, a, b)]) = health_mark k ok a b ?h" by (simp add: health_run_def)
  let ?row = "\<lparr>lh_ok = ok, lh_last = (if ok then Some a else lh_last (loop_of k (hs_data ?h)))\<rparr>"
  have data: "hs_data (health_mark k ok a b ?h) = set_loop k ?row (hs_data ?h)"
    by (simp add: health_mark_def health_save_def Let_def)
  have saved: "hs_saved (health_mark k ok a b ?h) = set_loop k ?row (hs_data ?h)
      \<or> (hs_saved (health_mark k ok a b ?h) = hs_saved ?h \<and> lh_ok (loop_of k (hs_data ?h)) = ok)"
    by (simp add: health_mark_def health_save_def Let_def)
  show ?case
    unfolding m run data latest_ok_snoc using saved snoc.IH by (cases "k = n") (auto split: if_splits)
qed

lemma is_ready_receipt:
  assumes "is_ready start now (Some (receipt_value pid s w))"
  shows "fresh_loop now (loop_value (loop_of n w))"
proof -
  have "dget [(u ''schema'', PInt 1), (u ''pid'', PInt pid), (u ''process_start'', PStr s),
      (u ''loops'', x)] ''loops'' = x" for x by simp
  with assms have "list_all (\<lambda>(_, row). fresh_loop now row)
      [(u ''relay'', loop_value (wh_relay w)), (u ''consumer'', loop_value (wh_consumer w))]"
    by (simp add: is_ready_def receipt_value_def)
  then show ?thesis by (cases n) (simp_all add: loop_of_def)
qed

lemma fresh_loop_value:
  "fresh_loop now (loop_value l) \<longleftrightarrow> lh_ok l \<and> (\<exists>t. lh_last l = Some t \<and> 0 \<le> now - t \<and> now - t \<le> 30)"
  by (auto simp: fresh_loop_def loop_value_def split: option.splits)



end
