(* ===== verification/Tx_Model.thy ===== *)
theory Tx_Model
  imports Prelude "HOL-Library.Multiset"
begin

text \<open>
  \<open>mvp-lab/mvp_app/transaction_model.py\<close>: the accounting oracle of the transaction lab. A
  snapshot is the rows of the six tables of one case; integer columns are \<open>int\<close> (the tests
  \<open>type(x) is int\<close> always hold for rows a BIGINT column returns). \<open>digest\<close>, the SHA-256 of the
  canonical JSON of a value, is an argument. A violation is recorded with its check and the
  owner or order it names; the other numbers of its report are not repeated here.
\<close>

section \<open>Rows\<close>

record inventory_row =
  iv_case :: ustr
  iv_initial :: int
  iv_available :: int
  iv_price :: int

record wallet_row =
  w_case :: ustr
  w_owner :: ustr
  w_initial :: int
  w_balance :: int

record request_row =
  q_case :: ustr
  q_key :: ustr
  q_fingerprint :: ustr
  q_order :: ustr

record tx_order =
  t_id :: ustr
  t_case :: ustr
  t_key :: ustr
  t_quantity :: int
  t_amount :: int
  t_state :: ustr

record ledger_row =
  l_id :: ustr
  l_case :: ustr
  l_order :: ustr
  l_owner :: ustr
  l_phase :: ustr
  l_delta :: int

text \<open>\<open>e_payload\<close> is the parsed column, \<open>None\<close> when \<open>json.loads\<close> fails.\<close>

record event_row =
  e_id :: ustr
  e_case :: ustr
  e_order :: ustr
  e_kind :: ustr
  e_payload :: "pv option"

record tables =
  s_inventory :: "inventory_row list"
  s_wallets :: "wallet_row list"
  s_requests :: "request_row list"
  s_orders :: "tx_order list"
  s_ledger :: "ledger_row list"
  s_events :: "event_row list"

section \<open>Purchases\<close>

record purchase =
  p_case :: ustr
  p_key :: ustr
  p_quantity :: int

definition key_text :: "nat \<Rightarrow> bool" where
  "key_text c \<longleftrightarrow> is_alnum c \<or> c = 95 \<or> c = 45"

definition case_text :: "ustr \<Rightarrow> bool" where
  "case_text s \<longleftrightarrow> class_match (\<lambda>c. is_lower c \<or> is_digit c \<or> c = 45) 1 40 s \<and> is_lower (hd s)"

definition valid_purchase :: "purchase \<Rightarrow> bool" where
  "valid_purchase p \<longleftrightarrow> case_text (p_case p) \<and> class_match key_text 1 64 (p_key p)
     \<and> 1 \<le> p_quantity p \<and> p_quantity p \<le> 20"

definition fingerprint :: "(pv \<Rightarrow> ustr) \<Rightarrow> purchase \<Rightarrow> ustr" where
  "fingerprint digest p = digest (PDict [(u ''case_id'', PStr (p_case p)), (u ''key'', PStr (p_key p)),
     (u ''quantity'', PInt (p_quantity p)), (u ''sku'', PStr (u ''study-widget'')), (u ''buyer'', PStr (u ''buyer''))])"

section \<open>Scenarios\<close>

definition scenarios :: "string list" where
  "scenarios = [''stock-race'', ''duplicate-checkout'', ''checkout-rollback'', ''commit-ambiguity'',
                ''idempotency-conflict'', ''refund-race'']"

datatype failpoint = At_Inventory | At_Debit | At_Credit | At_Order | At_Ledger | At_Outbox

definition failpoints :: "failpoint list" where
  "failpoints = [At_Inventory, At_Debit, At_Credit, At_Order, At_Ledger, At_Outbox]"

definition max_clients :: int where "max_clients = 8"

definition max_rows :: nat where "max_rows = 1000"

definition options :: "string \<Rightarrow> int \<Rightarrow> int \<Rightarrow> unit res" where
  "options scenario clients seed =
     (if scenario \<notin> set scenarios then Inl (Value_Error ''Unknown transaction scenario'')
      else if \<not> (2 \<le> clients \<and> clients \<le> max_clients)
      then Inl (Value_Error ''Transaction clients must be an integer in 2..8'')
      else if \<not> (0 \<le> seed \<and> seed \<le> 2 ^ 31 - 1)
      then Inl (Value_Error ''Transaction seed must be an integer in 0..2147483647'')
      else Inr ())"

section \<open>The audit\<close>

text \<open>\<open>{f(r): r for r in rows}\<close> as the rows it keeps, in the order of first insertion.\<close>

definition dict_put :: "('r \<Rightarrow> 'k) \<Rightarrow> 'r list \<Rightarrow> 'r \<Rightarrow> 'r list" where
  "dict_put f acc r = (if f r \<in> f ` set acc then map (\<lambda>x. if f x = f r then r else x) acc else acc @ [r])"

definition dict_of :: "('r \<Rightarrow> 'k) \<Rightarrow> 'r list \<Rightarrow> 'r list" where
  "dict_of f rows = foldl (dict_put f) [] rows"

definition check :: "string \<Rightarrow> ustr \<Rightarrow> bool \<Rightarrow> (string \<times> ustr) list" where
  "check name key ok = (if ok then [] else [(name, key)])"

definition stock_sold :: "tx_order list \<Rightarrow> int" where
  "stock_sold orders = sum_list (map t_quantity (filter (\<lambda>x. t_state x = u ''paid'') orders))"

definition event_payload :: "tx_order \<Rightarrow> ustr \<Rightarrow> pv" where
  "event_payload x kind = PDict [(u ''order_id'', PStr (t_id x)), (u ''quantity'', PInt (t_quantity x)),
     (u ''amount'', PInt (t_amount x)), (u ''state'', PStr kind)]"

definition expected_ledger :: "tx_order \<Rightarrow> (ustr \<times> ustr \<times> int) multiset" where
  "expected_ledger x =
     {#(u ''buyer'', u ''paid'', - t_amount x), (u ''merchant'', u ''paid'', t_amount x)#}
     + (if t_state x = u ''refunded''
        then {#(u ''buyer'', u ''refunded'', t_amount x), (u ''merchant'', u ''refunded'', - t_amount x)#} else {#})"

definition expected_events :: "tx_order \<Rightarrow> ustr multiset" where
  "expected_events x = {#u ''paid''#} + (if t_state x = u ''refunded'' then {#u ''refunded''#} else {#})"

definition ledger_of :: "ledger_row list \<Rightarrow> ustr \<Rightarrow> (ustr \<times> ustr \<times> int) multiset" where
  "ledger_of rows oid = mset (map (\<lambda>r. (l_owner r, l_phase r, l_delta r)) (filter (\<lambda>r. l_order r = oid) rows))"

definition wallet_checks :: "tables \<Rightarrow> wallet_row \<Rightarrow> (string \<times> ustr) list" where
  "wallet_checks s w =
     check ''wallet_value_types'' (w_owner w) (w_initial w \<ge> 0)
     @ check ''nonnegative_balance'' (w_owner w) (w_balance w \<ge> 0)
     @ check ''wallet_ledger_agreement'' (w_owner w)
         (w_balance w = w_initial w + sum_list (map l_delta (filter (\<lambda>e. l_owner e = w_owner w) (s_ledger s))))"

definition payload_matches :: "tx_order \<Rightarrow> event_row \<Rightarrow> bool" where
  "payload_matches x e = (case e_payload e of
       Some (PDict d) \<Rightarrow> (case event_payload x (e_kind e) of
           PDict d' \<Rightarrow> list_all (\<lambda>(k, v). case map_of d k of None \<Rightarrow> False | Some v' \<Rightarrow> leaf_eq v' v) d' \<and> length d = length d' | _ \<Rightarrow> False)
     | _ \<Rightarrow> False)"

text \<open>\<open>Purchase(case_id, order['request_key'], q)\<close>; its constructor raises on values a checkout would
  not accept, and then the audit raises.\<close>

definition claimed_purchase :: "inventory_row \<Rightarrow> tx_order \<Rightarrow> purchase" where
  "claimed_purchase item x = \<lparr>p_case = iv_case item, p_key = t_key x, p_quantity = t_quantity x\<rparr>"

definition order_checks ::
  "(pv \<Rightarrow> ustr) \<Rightarrow> bool \<Rightarrow> tables \<Rightarrow> inventory_row \<Rightarrow> request_row list \<Rightarrow> tx_order \<Rightarrow> (string \<times> ustr) list" where
  "order_checks digest require_claims s item claims x =
     check ''order_values'' (t_id x) (t_quantity x > 0 \<and> t_amount x = t_quantity x * iv_price item
        \<and> t_state x \<in> {u ''paid'', u ''refunded''})
     @ (if require_claims then check ''claim_payload_and_order'' (t_id x)
          (case find (\<lambda>c. q_key c = t_key x) claims of None \<Rightarrow> False
           | Some c \<Rightarrow> q_order c = t_id x \<and> q_fingerprint c = fingerprint digest (claimed_purchase item x)) else [])
     @ check ''order_ledger_exact'' (t_id x) (ledger_of (s_ledger s) (t_id x) = expected_ledger x)
     @ check ''order_events_exact'' (t_id x)
         (mset (map e_kind (filter (\<lambda>e. e_order e = t_id x) (s_events s))) = expected_events x)
     @ concat (map (\<lambda>e. check ''event_payload_matches'' (t_id x) (payload_matches x e))
         (filter (\<lambda>e. e_order e = t_id x) (s_events s)))"

definition global_checks :: "tables \<Rightarrow> inventory_row \<Rightarrow> tx_order list \<Rightarrow> request_row list \<Rightarrow> (string \<times> ustr) list" where
  "global_checks s item orders claims =
     check ''fixture_values'' [] (iv_initial item \<ge> 0 \<and> iv_price item > 0)
     @ check ''unique_order_id'' [] (length orders = length (s_orders s))
     @ check ''stock_conservation'' [] (iv_available item + stock_sold orders = iv_initial item)
     @ check ''stock_bounds'' [] (0 \<le> iv_available item \<and> iv_available item \<le> iv_initial item)
     @ check ''money_conservation'' [] (sum_list (map w_balance (s_wallets s)) = sum_list (map w_initial (s_wallets s)))
     @ check ''one_order_per_request'' [] (distinct (map t_key orders))
     @ concat (map (wallet_checks s) (s_wallets s))
     @ check ''known_ledger_owners'' [] (list_all (\<lambda>e. l_owner e \<in> w_owner ` set (s_wallets s)) (s_ledger s))
     @ check ''ledger_zero_sum'' [] (sum_list (map l_delta (s_ledger s)) = 0)
     @ check ''ledger_no_orphans'' [] (list_all (\<lambda>e. l_order e \<in> t_id ` set orders) (s_ledger s))
     @ check ''events_no_orphans'' [] (list_all (\<lambda>e. e_order e \<in> t_id ` set orders) (s_events s))
     @ check ''unique_claim'' [] (length claims = length (s_requests s))
     @ check ''claims_no_orphans'' [] (list_all (\<lambda>c. q_order c \<in> t_id ` set orders) claims)
     @ check ''claim_targets_unique'' [] (distinct (map q_order claims))
     @ check ''claim_request_identity'' [] (list_all (\<lambda>c. \<exists>x\<in>set orders. t_id x = q_order c \<and> t_key x = q_key c) claims)"

text \<open>The report without the digest of the snapshot and the row counts.\<close>

record report =
  rp_passed :: bool
  rp_violations :: "(string \<times> ustr) list"
  rp_initial :: int
  rp_remaining :: int
  rp_net_sold :: int
  rp_balances :: "(ustr \<times> int) list"

definition audit :: "(pv \<Rightarrow> ustr) \<Rightarrow> bool \<Rightarrow> tables \<Rightarrow> report res" where
  "audit digest require_claims s =
     (if length (s_inventory s) > max_rows \<or> length (s_wallets s) > max_rows \<or> length (s_requests s) > max_rows
         \<or> length (s_orders s) > max_rows \<or> length (s_ledger s) > max_rows \<or> length (s_events s) > max_rows
      then Inl (Value_Error ''Invalid or oversized transaction snapshot'')
      else (case s_inventory s of
          [item] \<Rightarrow>
            if length (s_wallets s) \<noteq> 2 then Inl (Value_Error ''Expected one inventory and two wallet rows'')
            else if \<not> (list_all (\<lambda>r. w_case r = iv_case item) (s_wallets s)
                     \<and> list_all (\<lambda>r. q_case r = iv_case item) (s_requests s)
                     \<and> list_all (\<lambda>r. t_case r = iv_case item) (s_orders s)
                     \<and> list_all (\<lambda>r. l_case r = iv_case item) (s_ledger s)
                     \<and> list_all (\<lambda>r. e_case r = iv_case item) (s_events s))
            then Inl (Value_Error ''Cross-case rows in snapshot'')
            else if w_owner ` set (s_wallets s) \<noteq> {u ''buyer'', u ''merchant''}
            then Inl (Value_Error ''Unexpected wallet identities'')
            else let orders = dict_of t_id (s_orders s);
                     claims = dict_of q_key (s_requests s)
                 in if require_claims \<and> \<not> list_all (\<lambda>x. valid_purchase (claimed_purchase item x)) orders
                 then Inl (Value_Error ''Invalid synthetic purchase'')
                 else let violations = global_checks s item orders claims
                       @ concat (map (order_checks digest require_claims s item claims) orders)
                 in Inr \<lparr>rp_passed = (violations = []), rp_violations = violations,
                         rp_initial = iv_initial item, rp_remaining = iv_available item,
                         rp_net_sold = stock_sold orders,
                         rp_balances = map (\<lambda>w. (w_owner w, w_balance w)) (s_wallets s)\<rparr>
        | _ \<Rightarrow> Inl (Value_Error ''Expected one inventory and two wallet rows'')))"

lemma check_Nil [simp]: "check n k ok = [] \<longleftrightarrow> ok"
  by (simp add: check_def)

lemma in_check [simp]: "(n, k) \<in> set (check m j ok) \<longleftrightarrow> \<not> ok \<and> n = m \<and> k = j"
  by (simp add: check_def)

lemma dict_of_distinct: "distinct (map f rows) \<Longrightarrow> dict_of f rows = rows"
proof (induction rows rule: rev_induct)
  case (snoc r rows)
  then have "foldl (dict_put f) [] rows = rows" by (simp add: dict_of_def)
  with snoc show ?case by (simp add: dict_of_def dict_put_def)
qed (simp add: dict_of_def)

lemma map_dict_put:
  "map f (dict_put f acc r) = (if f r \<in> f ` set acc then map f acc else map f acc @ [f r])"
proof -
  have "map f (map (\<lambda>x. if f x = f r then r else x) acc) = map f acc" by (induction acc) auto
  then show ?thesis unfolding dict_put_def by (simp del: map_map)
qed

lemma distinct_dict_of: "distinct (map f (dict_of f rows))"
  by (induction rows rule: rev_induct) (simp_all add: dict_of_def map_dict_put)

lemma image_dict_put: "f ` set (dict_put f acc r) = insert (f r) (f ` set acc)"
  using arg_cong [OF map_dict_put [of f acc r], of set] by (auto split: if_splits)

lemma keys_dict_of: "set (map f (dict_of f rows)) = set (map f rows)"
  by (induction rows rule: rev_induct) (simp_all add: dict_of_def image_dict_put)

lemma length_dict_of: "length (dict_of f rows) = length rows \<longleftrightarrow> distinct (map f rows)"
proof
  assume len: "length (dict_of f rows) = length rows"
  have "card (set (map f (dict_of f rows))) = length (map f (dict_of f rows))"
    using distinct_dict_of by (rule distinct_card)
  then have "card (set (map f rows)) = length (map f rows)" by (simp only: keys_dict_of length_map len)
  then show "distinct (map f rows)" by (rule card_distinct)
qed (simp add: dict_of_distinct)

end
