(* ===== verification/Tx_Sql.thy ===== *)
theory Tx_Sql
  imports Tx_Model Order_Store
begin

text \<open>
  \<open>mvp-lab/mvp_app/transaction_sql.py\<close>: the checkout and refund transactions of the lab on the
  six tables. A session holds the committed tables and the tables its open transaction sees;
  a driver error a statement raises is an argument of the attempt, and so are its fresh ids, the
  end of its commit and, for the unlocked reads of the unsafe policies, the value that was read
  before other clients committed. The trace is not modelled.
\<close>

section \<open>Sessions and statements\<close>

datatype tx_exn =
    Rejected string
  | Injected failpoint
  | Commit_Unknown
  | Existing_Key
  | Tx_Sql_Error int
  | Tx_Runtime string
  | Tx_Value string

record session =
  x_durable :: tables
  x_work :: tables

type_synonym 'a tx = "session \<Rightarrow> (tx_exn + 'a) \<times> session"

datatype policy = Protected | Stale_Stock | No_Claim | Split_Commit | Unchecked_Replay

datatype statement = St_Claim | St_Select | St_Inventory | St_Debit | St_Credit | St_Order | St_Ledger | St_Event

record attempt_env =
  a_oid :: ustr
  a_ledger_ids :: "ustr \<times> ustr"
  a_event_id :: ustr
  a_fault :: "statement \<Rightarrow> int option"
  a_commit :: commit
  a_stale :: "int option"

definition statement ::
  "(statement \<Rightarrow> int option) \<Rightarrow> statement \<Rightarrow> (tables \<Rightarrow> tx_exn + 'a \<times> tables) \<Rightarrow> 'a tx" where
  "statement fault n f x = (case fault n of
       Some code \<Rightarrow> (Inl (Tx_Sql_Error code), x)
     | None \<Rightarrow> (case f (x_work x) of Inl e \<Rightarrow> (Inl e, x) | Inr (a, w) \<Rightarrow> (Inr a, x\<lparr>x_work := w\<rparr>)))"

text \<open>\<open>UPDATE ... WHERE\<close>: the new rows and the row count.\<close>

definition update_where :: "('r \<Rightarrow> bool) \<Rightarrow> ('r \<Rightarrow> 'r) \<Rightarrow> 'r list \<Rightarrow> 'r list \<times> nat" where
  "update_where p f rows = (map (\<lambda>r. if p r then f r else r) rows, length (filter p rows))"

definition insert_claim :: "request_row \<Rightarrow> tables \<Rightarrow> tx_exn + unit \<times> tables" where
  "insert_claim c t = (if \<exists>r\<in>set (s_requests t). q_case r = q_case c \<and> q_key r = q_key c
     then Inl (Tx_Sql_Error 1062) else Inr ((), t\<lparr>s_requests := s_requests t @ [c]\<rparr>))"

definition select_item :: "ustr \<Rightarrow> tables \<Rightarrow> tx_exn + inventory_row option \<times> tables" where
  "select_item c t = Inr (find (\<lambda>r. iv_case r = c) (s_inventory t), t)"

definition update_stock ::
  "(inventory_row \<Rightarrow> bool) \<Rightarrow> (inventory_row \<Rightarrow> int) \<Rightarrow> tables \<Rightarrow> tx_exn + nat \<times> tables" where
  "update_stock p f t = (let (rows, n) = update_where p (\<lambda>r. r\<lparr>iv_available := f r\<rparr>) (s_inventory t)
     in Inr (n, t\<lparr>s_inventory := rows\<rparr>))"

definition update_wallet :: "(wallet_row \<Rightarrow> bool) \<Rightarrow> int \<Rightarrow> tables \<Rightarrow> tx_exn + nat \<times> tables" where
  "update_wallet p delta t =
     (let (rows, n) = update_where p (\<lambda>r. r\<lparr>w_balance := w_balance r + delta\<rparr>) (s_wallets t)
      in Inr (n, t\<lparr>s_wallets := rows\<rparr>))"

definition tx_insert_order :: "tx_order \<Rightarrow> tables \<Rightarrow> tx_exn + unit \<times> tables" where
  "tx_insert_order x t = (if t_id x \<in> t_id ` set (s_orders t) then Inl (Tx_Sql_Error 1062)
     else Inr ((), t\<lparr>s_orders := s_orders t @ [x]\<rparr>))"

definition insert_ledger_row :: "ledger_row \<Rightarrow> tables \<Rightarrow> tx_exn + tables" where
  "insert_ledger_row r t = (if l_id r \<in> l_id ` set (s_ledger t) then Inl (Tx_Sql_Error 1062)
     else Inr (t\<lparr>s_ledger := s_ledger t @ [r]\<rparr>))"

definition ledger_rows :: "ustr \<times> ustr \<Rightarrow> tx_order \<Rightarrow> ustr \<Rightarrow> ledger_row \<times> ledger_row" where
  "ledger_rows ids x phase = (let sign = (if phase = u ''paid'' then -1 else 1) in
     (\<lparr>l_id = fst ids, l_case = t_case x, l_order = t_id x, l_owner = u ''buyer'', l_phase = phase,
       l_delta = sign * t_amount x\<rparr>,
      \<lparr>l_id = snd ids, l_case = t_case x, l_order = t_id x, l_owner = u ''merchant'', l_phase = phase,
       l_delta = - sign * t_amount x\<rparr>))"

definition insert_ledger :: "ustr \<times> ustr \<Rightarrow> tx_order \<Rightarrow> ustr \<Rightarrow> tables \<Rightarrow> tx_exn + unit \<times> tables" where
  "insert_ledger ids x phase t = (case ledger_rows ids x phase of (b, m) \<Rightarrow>
     bind_res (insert_ledger_row b t) (\<lambda>t1. bind_res (insert_ledger_row m t1) (\<lambda>t2. Inr ((), t2))))"

definition tx_insert_event :: "ustr \<Rightarrow> tx_order \<Rightarrow> ustr \<Rightarrow> tables \<Rightarrow> tx_exn + unit \<times> tables" where
  "tx_insert_event eid x phase t = (if eid \<in> e_id ` set (s_events t) then Inl (Tx_Sql_Error 1062)
     else Inr ((), t\<lparr>s_events := s_events t @ [\<lparr>e_id = eid, e_case = t_case x, e_order = t_id x, e_kind = phase,
            e_payload = Some (event_payload x phase)\<rparr>]\<rparr>))"

section \<open>Checkout\<close>

definition checkpoint :: "policy \<Rightarrow> failpoint option \<Rightarrow> failpoint \<Rightarrow> unit tx" where
  "checkpoint pol fail_at stage x =
     (let x' = (if pol = Split_Commit then x\<lparr>x_durable := x_work x\<rparr> else x)
      in if fail_at = Some stage then (Inl (Injected stage), x') else (Inr (), x'))"

definition claim_key :: "(pv \<Rightarrow> ustr) \<Rightarrow> attempt_env \<Rightarrow> policy \<Rightarrow> purchase \<Rightarrow> unit tx" where
  "claim_key digest a pol req =
     (if pol = Protected \<or> pol = Unchecked_Replay
      then (\<lambda>x. case statement (a_fault a) St_Claim (insert_claim \<lparr>q_case = p_case req, q_key = p_key req,
                  q_fingerprint = fingerprint digest req, q_order = a_oid a\<rparr>) x of
              (Inl (Tx_Sql_Error code), x') \<Rightarrow> (Inl (if code = 1062 then Existing_Key else Tx_Sql_Error code), x')
            | r \<Rightarrow> r)
      else ret ())"

definition take_stock :: "attempt_env \<Rightarrow> policy \<Rightarrow> purchase \<Rightarrow> inventory_row \<Rightarrow> unit tx" where
  "take_stock a pol req item =
     (if pol = Stale_Stock
      then (let available = (case a_stale a of Some n \<Rightarrow> n | None \<Rightarrow> iv_available item) in
        if available < p_quantity req then raise_exn (Rejected ''sold_out'')
        else bind_eff (statement (a_fault a) St_Inventory (update_stock (\<lambda>r. iv_case r = p_case req)
               (\<lambda>_. available - p_quantity req))) (\<lambda>_. ret ()))
      else bind_eff (statement (a_fault a) St_Inventory (update_stock
               (\<lambda>r. iv_case r = p_case req \<and> iv_available r \<ge> p_quantity req)
               (\<lambda>r. iv_available r - p_quantity req))) (\<lambda>n.
             if n \<noteq> 1 then raise_exn (Rejected ''sold_out'') else ret ()))"

definition after_stock :: "attempt_env \<Rightarrow> policy \<Rightarrow> failpoint option \<Rightarrow> purchase \<Rightarrow> inventory_row \<Rightarrow> tx_order tx" where
  "after_stock a pol fail_at req item =
     (let amount = p_quantity req * iv_price item;
          x = \<lparr>t_id = a_oid a, t_case = p_case req, t_key = p_key req, t_quantity = p_quantity req,
               t_amount = amount, t_state = u ''paid''\<rparr> in
      bind_eff (statement (a_fault a) St_Debit (update_wallet
        (\<lambda>r. w_case r = p_case req \<and> w_owner r = u ''buyer'' \<and> w_balance r \<ge> amount) (- amount))) (\<lambda>n.
      if n \<noteq> 1 then raise_exn (Rejected ''insufficient_funds'') else
      bind_eff (checkpoint pol fail_at At_Debit) (\<lambda>_.
      bind_eff (statement (a_fault a) St_Credit (update_wallet
        (\<lambda>r. w_case r = p_case req \<and> w_owner r = u ''merchant'') amount)) (\<lambda>n.
      if n \<noteq> 1 then raise_exn (Tx_Runtime ''Merchant fixture missing'') else
      bind_eff (checkpoint pol fail_at At_Credit) (\<lambda>_.
      bind_eff (statement (a_fault a) St_Order (tx_insert_order x)) (\<lambda>_.
      bind_eff (checkpoint pol fail_at At_Order) (\<lambda>_.
      bind_eff (statement (a_fault a) St_Ledger (insert_ledger (a_ledger_ids a) x (u ''paid''))) (\<lambda>_.
      bind_eff (checkpoint pol fail_at At_Ledger) (\<lambda>_.
      bind_eff (statement (a_fault a) St_Event (tx_insert_event (a_event_id a) x (u ''paid''))) (\<lambda>_.
      bind_eff (checkpoint pol fail_at At_Outbox) (\<lambda>_.
      ret x)))))))))))"

definition purchase_body ::
  "(pv \<Rightarrow> ustr) \<Rightarrow> attempt_env \<Rightarrow> policy \<Rightarrow> failpoint option \<Rightarrow> purchase \<Rightarrow> tx_order tx" where
  "purchase_body digest a pol fail_at req =
     bind_eff (claim_key digest a pol req) (\<lambda>_.
     bind_eff (statement (a_fault a) St_Select (select_item (p_case req))) (\<lambda>row.
     case row of None \<Rightarrow> raise_exn (Rejected ''unknown_case'') | Some item \<Rightarrow>
      bind_eff (take_stock a pol req item) (\<lambda>_.
      bind_eff (checkpoint pol fail_at At_Inventory) (\<lambda>_.
      after_stock a pol fail_at req item))))"

text \<open>\<open>_purchase\<close> on the committed tables: begin, body, commit; any error but an unknown commit
  rolls back.\<close>

definition purchase_once ::
  "(pv \<Rightarrow> ustr) \<Rightarrow> attempt_env \<Rightarrow> policy \<Rightarrow> failpoint option \<Rightarrow> bool \<Rightarrow> purchase \<Rightarrow> tables
     \<Rightarrow> (tx_exn + tx_order) \<times> tables" where
  "purchase_once digest a pol fail_at lose_response req d =
     (case purchase_body digest a pol fail_at req \<lparr>x_durable = d, x_work = d\<rparr> of
        (Inl e, x) \<Rightarrow> (Inl e, x_durable x)
      | (Inr order, x) \<Rightarrow> (case a_commit a of
            Commit_ok \<Rightarrow> ((if lose_response then Inl Commit_Unknown else Inr order), x_work x)
          | Commit_lost _ \<Rightarrow> (Inl Commit_Unknown, x_durable x)
          | Commit_unknown _ \<Rightarrow> (Inl Commit_Unknown, x_work x)))"

definition lookup :: "(pv \<Rightarrow> ustr) \<Rightarrow> bool \<Rightarrow> purchase \<Rightarrow> tables \<Rightarrow> tx_exn + tx_order option" where
  "lookup digest verify_payload req d =
     (case find (\<lambda>c. q_case c = p_case req \<and> q_key c = p_key req) (s_requests d) of
        None \<Rightarrow> Inr None
      | Some c \<Rightarrow>
          if verify_payload \<and> q_fingerprint c \<noteq> fingerprint digest req then Inl (Rejected ''idempotency_conflict'')
          else (case find (\<lambda>x. t_id x = q_order c) (s_orders d) of
              None \<Rightarrow> Inl (Tx_Runtime ''Committed request claim has no matching order'')
            | Some x \<Rightarrow>
                if t_case x \<noteq> p_case req \<or> t_key x \<noteq> p_key req \<or> (verify_payload \<and> t_quantity x \<noteq> p_quantity req)
                then Inl (Tx_Runtime ''Committed request claim has no matching order'') else Inr (Some x)))"

datatype tx_outcome = Created tx_order | Replayed tx_order

text \<open>The retry loop of \<open>purchase\<close>; the code makes three attempts.\<close>

fun purchase_tries ::
  "(pv \<Rightarrow> ustr) \<Rightarrow> attempt_env list \<Rightarrow> policy \<Rightarrow> failpoint option \<Rightarrow> bool \<Rightarrow> purchase \<Rightarrow> tables
     \<Rightarrow> (tx_exn + tx_outcome) \<times> tables" where
  "purchase_tries digest [] pol fail_at lose req d = (Inl (Tx_Runtime ''unreachable''), d)"
| "purchase_tries digest (a # rest) pol fail_at lose req d =
     (case purchase_once digest a pol fail_at lose req d of
        (Inr x, d') \<Rightarrow> (Inr (Created x), d')
      | (Inl e, d') \<Rightarrow> (case e of
            Existing_Key \<Rightarrow> (case lookup digest (pol \<noteq> Unchecked_Replay) req d' of
                Inl e' \<Rightarrow> (Inl e', d')
              | Inr None \<Rightarrow> (Inl (Tx_Runtime ''Unique request conflict without a committed request''), d')
              | Inr (Some x) \<Rightarrow> (Inr (Replayed x), d'))
          | Tx_Sql_Error code \<Rightarrow>
              if code \<notin> {1205, 1213} \<or> rest = [] \<or> pol \<notin> {Protected, Unchecked_Replay} then (Inl e, d')
              else purchase_tries digest rest pol fail_at lose req d'
          | _ \<Rightarrow> (Inl e, d')))"

definition purchase_op ::
  "(pv \<Rightarrow> ustr) \<Rightarrow> attempt_env \<times> attempt_env \<times> attempt_env \<Rightarrow> policy \<Rightarrow> failpoint option \<Rightarrow> bool \<Rightarrow> purchase
     \<Rightarrow> tables \<Rightarrow> (tx_exn + tx_outcome) \<times> tables" where
  "purchase_op digest as pol fail_at lose req d = (case as of (a1, a2, a3) \<Rightarrow>
     purchase_tries digest [a1, a2, a3] pol fail_at lose req d)"

section \<open>Refund, fixtures and snapshot\<close>

text \<open>\<open>stale\<close> is the row an unlocked read returned before other clients committed.\<close>

definition refund_body ::
  "attempt_env \<Rightarrow> tx_order option \<Rightarrow> bool \<Rightarrow> ustr \<Rightarrow> ustr \<Rightarrow> (bool \<times> ustr) tx" where
  "refund_body a stale locked c oid =
     bind_eff (statement (a_fault a) St_Select (\<lambda>t. Inr (case (if locked then None else stale) of
          Some x \<Rightarrow> Some x | None \<Rightarrow> find (\<lambda>x. t_id x = oid \<and> t_case x = c) (s_orders t), t))) (\<lambda>row.
     case row of None \<Rightarrow> raise_exn (Rejected ''order_missing'') | Some x \<Rightarrow>
     if t_state x = u ''refunded'' then ret (False, oid)
     else if t_state x \<noteq> u ''paid'' then raise_exn (Rejected ''invalid_refund_state'')
     else
     bind_eff (statement (a_fault a) St_Inventory (update_stock (\<lambda>r. iv_case r = c)
        (\<lambda>r. iv_available r + t_quantity x))) (\<lambda>_.
     bind_eff (statement (a_fault a) St_Debit (update_wallet (\<lambda>r. w_case r = c \<and> w_owner r = u ''buyer'') (t_amount x))) (\<lambda>_.
     bind_eff (statement (a_fault a) St_Credit (update_wallet (\<lambda>r. w_case r = c \<and> w_owner r = u ''merchant'') (- t_amount x))) (\<lambda>_.
     bind_eff (statement (a_fault a) St_Order (\<lambda>t. Inr ((), t\<lparr>s_orders :=
        map (\<lambda>r. if t_id r = oid then r\<lparr>t_state := u ''refunded''\<rparr> else r) (s_orders t)\<rparr>))) (\<lambda>_.
     bind_eff (statement (a_fault a) St_Ledger (insert_ledger (a_ledger_ids a) x (u ''refunded''))) (\<lambda>_.
     bind_eff (statement (a_fault a) St_Event (tx_insert_event (a_event_id a) x (u ''refunded''))) (\<lambda>_.
     ret (True, oid))))))))"

definition refund ::
  "attempt_env \<Rightarrow> tx_order option \<Rightarrow> bool \<Rightarrow> ustr \<Rightarrow> ustr \<Rightarrow> tables \<Rightarrow> (tx_exn + bool \<times> ustr) \<times> tables" where
  "refund a stale locked c oid d =
     (if \<not> case_text c then (Inl (Tx_Value ''Invalid synthetic purchase''), d)
      else if \<not> (class_match is_hex_lower 32 32 oid) then (Inl (Tx_Value ''Invalid synthetic order ID''), d)
      else (case refund_body a stale locked c oid \<lparr>x_durable = d, x_work = d\<rparr> of
          (Inl e, x) \<Rightarrow> (Inl e, x_durable x)
        | (Inr (False, i), x) \<Rightarrow> (Inr (False, i), x_durable x)
        | (Inr (True, i), x) \<Rightarrow> (case a_commit a of
              Commit_ok \<Rightarrow> (Inr (True, i), x_work x)
            | Commit_lost _ \<Rightarrow> (Inl Commit_Unknown, x_durable x)
            | Commit_unknown _ \<Rightarrow> (Inl Commit_Unknown, x_work x))))"

definition no_tables :: tables where
  "no_tables = \<lparr>s_inventory = [], s_wallets = [], s_requests = [], s_orders = [], s_ledger = [], s_events = []\<rparr>"

definition seed_case :: "ustr \<Rightarrow> int \<Rightarrow> int \<Rightarrow> int \<Rightarrow> tables \<Rightarrow> tx_exn + tables" where
  "seed_case c stock balance price d =
     (if \<not> case_text c then Inl (Tx_Value ''Invalid synthetic purchase'')
      else if \<not> (0 \<le> stock \<and> stock \<le> 1000000 \<and> 0 \<le> balance \<and> balance \<le> 1000000 \<and> 1 \<le> price \<and> price \<le> 1000000)
      then Inl (Tx_Value ''Invalid fixture quantities'')
      else if c \<in> iv_case ` set (s_inventory d) then Inl (Tx_Sql_Error 1062)
      else if \<exists>w\<in>set (s_wallets d). w_case w = c \<and> w_owner w \<in> {u ''buyer'', u ''merchant''} then Inl (Tx_Sql_Error 1062)
      else Inr (d\<lparr>s_inventory := s_inventory d @ [\<lparr>iv_case = c, iv_initial = stock, iv_available = stock, iv_price = price\<rparr>],
                  s_wallets := s_wallets d @ [\<lparr>w_case = c, w_owner = u ''buyer'', w_initial = balance, w_balance = balance\<rparr>,
                    \<lparr>w_case = c, w_owner = u ''merchant'', w_initial = 0, w_balance = 0\<rparr>]\<rparr>))"

definition snapshot :: "ustr \<Rightarrow> tables \<Rightarrow> tables" where
  "snapshot c d = \<lparr>s_inventory = sort_key iv_case (filter (\<lambda>r. iv_case r = c) (s_inventory d)),
     s_wallets = sort_key w_owner (filter (\<lambda>r. w_case r = c) (s_wallets d)),
     s_requests = sort_key q_key (filter (\<lambda>r. q_case r = c) (s_requests d)),
     s_orders = sort_key t_id (filter (\<lambda>r. t_case r = c) (s_orders d)),
     s_ledger = sort_key l_id (filter (\<lambda>r. l_case r = c) (s_ledger d)),
     s_events = sort_key e_id (filter (\<lambda>r. e_case r = c) (s_events d))\<rparr>"

definition within_budget :: "tables \<Rightarrow> bool" where
  "within_budget t \<longleftrightarrow> length (s_inventory t) \<le> max_rows \<and> length (s_wallets t) \<le> max_rows
     \<and> length (s_requests t) \<le> max_rows \<and> length (s_orders t) \<le> max_rows \<and> length (s_ledger t) \<le> max_rows
     \<and> length (s_events t) \<le> max_rows"

definition snapshot_op :: "ustr \<Rightarrow> tables \<Rightarrow> tx_exn + tables" where
  "snapshot_op c d =
     (if \<not> case_text c then Inl (Tx_Value ''Invalid synthetic purchase'')
      else if within_budget (snapshot c d) then Inr (snapshot c d)
      else Inl (Tx_Runtime ''Transaction snapshot row budget exceeded''))"

section \<open>Effects of a checkout\<close>

definition keeps_durable :: "'a tx \<Rightarrow> bool" where
  "keeps_durable m \<longleftrightarrow> (\<forall>x. x_durable (snd (m x)) = x_durable x)"

lemma keeps_durable_bind:
  "keeps_durable m \<Longrightarrow> (\<And>a. keeps_durable (f a)) \<Longrightarrow> keeps_durable (bind_eff m f)"
  by (auto simp: keeps_durable_def bind_eff_def split: prod.splits sum.splits) (metis snd_conv)+

lemma keeps_durable_simple [simp]:
  "keeps_durable (ret a)" "keeps_durable (raise_exn e)" "keeps_durable (statement fault n f)"
  "pol \<noteq> Split_Commit \<Longrightarrow> keeps_durable (checkpoint pol fail_at stage)"
  by (auto simp: keeps_durable_def statement_def checkpoint_def split: option.splits sum.splits)

lemma keeps_durable_claim [simp]: "keeps_durable (claim_key digest a pol req)"
  by (auto simp: keeps_durable_def claim_key_def statement_def
      split: option.splits sum.splits tx_exn.splits prod.splits)

lemma keeps_durable_stock [simp]: "keeps_durable (take_stock a pol req item)"
  by (auto simp: take_stock_def Let_def intro!: keeps_durable_bind)

lemma purchase_body_durable:
  "pol \<noteq> Split_Commit \<Longrightarrow> keeps_durable (purchase_body digest a pol fail_at req)"
  unfolding purchase_body_def after_stock_def Let_def
  by (intro keeps_durable_bind keeps_durable_claim keeps_durable_simple(3))
    (auto intro!: keeps_durable_bind split: option.splits)

lemma refund_body_durable: "keeps_durable (refund_body a stale locked c oid)"
  unfolding refund_body_def
  by (intro keeps_durable_bind keeps_durable_simple(3)) (auto intro!: keeps_durable_bind split: option.splits)

lemma statement_Inr:
  "statement fault n f x = (Inr a, x') \<longleftrightarrow> fault n = None \<and> (\<exists>w. f (x_work x) = Inr (a, w) \<and> x' = x\<lparr>x_work := w\<rparr>)"
  by (auto simp: statement_def split: option.splits sum.splits prod.splits)

lemma checkpoint_Inr:
  "pol \<noteq> Split_Commit \<Longrightarrow> checkpoint pol fail_at stage x = (Inr a, x') \<longleftrightarrow> x' = x \<and> fail_at \<noteq> Some stage"
  by (auto simp: checkpoint_def)

definition paid_order :: "attempt_env \<Rightarrow> purchase \<Rightarrow> inventory_row \<Rightarrow> tx_order" where
  "paid_order a req item = \<lparr>t_id = a_oid a, t_case = p_case req, t_key = p_key req, t_quantity = p_quantity req,
     t_amount = p_quantity req * iv_price item, t_state = u ''paid''\<rparr>"

definition paid_claim :: "(pv \<Rightarrow> ustr) \<Rightarrow> attempt_env \<Rightarrow> purchase \<Rightarrow> request_row" where
  "paid_claim digest a req = \<lparr>q_case = p_case req, q_key = p_key req, q_fingerprint = fingerprint digest req, q_order = a_oid a\<rparr>"

definition paid_event :: "attempt_env \<Rightarrow> tx_order \<Rightarrow> event_row" where
  "paid_event a x = \<lparr>e_id = a_event_id a, e_case = t_case x, e_order = t_id x, e_kind = u ''paid'',
     e_payload = Some (event_payload x (u ''paid''))\<rparr>"

text \<open>The tables after a protected checkout.\<close>

definition checked_out :: "(pv \<Rightarrow> ustr) \<Rightarrow> attempt_env \<Rightarrow> purchase \<Rightarrow> inventory_row \<Rightarrow> tables \<Rightarrow> tables" where
  "checked_out digest a req item d = (let x = paid_order a req item; c = p_case req; q = p_quantity req;
       amount = t_amount x; l = ledger_rows (a_ledger_ids a) x (u ''paid'') in
     \<lparr>s_inventory = map (\<lambda>r. if iv_case r = c \<and> iv_available r \<ge> q then r\<lparr>iv_available := iv_available r - q\<rparr> else r)
        (s_inventory d),
      s_wallets = map (\<lambda>r. if w_case r = c \<and> w_owner r = u ''merchant'' then r\<lparr>w_balance := w_balance r + amount\<rparr> else r)
        (map (\<lambda>r. if w_case r = c \<and> w_owner r = u ''buyer'' \<and> w_balance r \<ge> amount
                  then r\<lparr>w_balance := w_balance r + - amount\<rparr> else r) (s_wallets d)),
      s_requests = s_requests d @ [paid_claim digest a req],
      s_orders = s_orders d @ [x],
      s_ledger = s_ledger d @ [fst l, snd l],
      s_events = s_events d @ [paid_event a x]\<rparr>)"

text \<open>What a successful protected checkout found.\<close>

definition can_check_out :: "attempt_env \<Rightarrow> purchase \<Rightarrow> inventory_row \<Rightarrow> tables \<Rightarrow> bool" where
  "can_check_out a req item d \<longleftrightarrow> (let c = p_case req; q = p_quantity req; amount = q * iv_price item in
     find (\<lambda>r. iv_case r = c) (s_inventory d) = Some item
     \<and> (\<forall>r\<in>set (s_requests d). \<not> (q_case r = c \<and> q_key r = p_key req))
     \<and> length (filter (\<lambda>r. iv_case r = c \<and> iv_available r \<ge> q) (s_inventory d)) = 1
     \<and> length (filter (\<lambda>r. w_case r = c \<and> w_owner r = u ''buyer'' \<and> w_balance r \<ge> amount) (s_wallets d)) = 1
     \<and> a_oid a \<notin> t_id ` set (s_orders d))"

lemma purchase_body_Inr:
  assumes pol: "pol = Protected \<or> pol = Unchecked_Replay"
    and run: "purchase_body digest a pol fail_at req \<lparr>x_durable = d, x_work = d\<rparr> = (Inr x, s)"
  shows "\<exists>item. can_check_out a req item d \<and> x = paid_order a req item \<and> x_work s = checked_out digest a req item d"
proof -
  have ns: "pol \<noteq> Split_Commit" "pol \<noteq> Stale_Stock" using pol by auto
  obtain x1 where c: "claim_key digest a pol req \<lparr>x_durable = d, x_work = d\<rparr> = (Inr (), x1)"
    using run unfolding purchase_body_def after_stock_def by (auto simp: bind_eff_Inr)
  have c1: "\<forall>r\<in>set (s_requests d). \<not> (q_case r = p_case req \<and> q_key r = p_key req)"
    and x1: "x1 = \<lparr>x_durable = d, x_work = d\<lparr>s_requests := s_requests d @ [paid_claim digest a req]\<rparr>\<rparr>"
    using c pol by (auto simp: claim_key_def statement_def insert_claim_def paid_claim_def
        split: option.splits sum.splits tx_exn.splits if_splits)
  show ?thesis
    using run c1 unfolding purchase_body_def after_stock_def bind_eff_Inr c prod.inject sum.inject Let_def
    by (cases d) (auto simp: bind_eff_Inr statement_Inr checkpoint_Inr [OF ns(1)] take_stock_def ns x1
        select_item_def update_stock_def update_wallet_def update_where_def tx_insert_order_def insert_ledger_def
        insert_ledger_row_def tx_insert_event_def bind_res_Inr_iff c can_check_out_def checked_out_def
        paid_order_def paid_event_def Let_def ledger_rows_def
        split: option.splits if_splits prod.splits)
qed

end
