(* ===== verification/Tx_Audit.thy ===== *)
theory Tx_Audit
  imports Tx_Sql
begin

text \<open>
  The contract of the transaction lab: a protected checkout or refund keeps the audit of every case
  clean and is all or nothing, and the unsafe policies break it in the way the lessons say. The
  audit is first restated on the unsorted rows of a case (\<open>clean\<close>).
\<close>

section \<open>The audit as a predicate\<close>

definition rows_of :: "ustr \<Rightarrow> tables \<Rightarrow> tables" where
  "rows_of c d = \<lparr>s_inventory = filter (\<lambda>r. iv_case r = c) (s_inventory d),
     s_wallets = filter (\<lambda>r. w_case r = c) (s_wallets d),
     s_requests = filter (\<lambda>r. q_case r = c) (s_requests d),
     s_orders = filter (\<lambda>r. t_case r = c) (s_orders d),
     s_ledger = filter (\<lambda>r. l_case r = c) (s_ledger d),
     s_events = filter (\<lambda>r. e_case r = c) (s_events d)\<rparr>"

definition same_case :: "ustr \<Rightarrow> tables \<Rightarrow> bool" where
  "same_case c s \<longleftrightarrow> (\<forall>r\<in>set (s_wallets s). w_case r = c) \<and> (\<forall>r\<in>set (s_requests s). q_case r = c)
     \<and> (\<forall>r\<in>set (s_orders s). t_case r = c) \<and> (\<forall>r\<in>set (s_ledger s). l_case r = c)
     \<and> (\<forall>r\<in>set (s_events s). e_case r = c)"

definition stock_ok :: "inventory_row \<Rightarrow> tx_order list \<Rightarrow> bool" where
  "stock_ok item orders \<longleftrightarrow> 0 \<le> iv_initial item \<and> 0 < iv_price item
     \<and> iv_available item + stock_sold orders = iv_initial item \<and> 0 \<le> iv_available item
     \<and> iv_available item \<le> iv_initial item"

definition wallets_ok :: "wallet_row list \<Rightarrow> ledger_row list \<Rightarrow> bool" where
  "wallets_ok ws ls \<longleftrightarrow> length ws = 2 \<and> w_owner ` set ws = {u ''buyer'', u ''merchant''}
     \<and> sum_list (map w_balance ws) = sum_list (map w_initial ws)
     \<and> (\<forall>w\<in>set ws. 0 \<le> w_initial w \<and> 0 \<le> w_balance w
          \<and> w_balance w = w_initial w + sum_list (map l_delta (filter (\<lambda>e. l_owner e = w_owner w) ls)))"

definition claims_ok :: "request_row list \<Rightarrow> tx_order list \<Rightarrow> bool" where
  "claims_ok cs xs \<longleftrightarrow> distinct (map q_key cs) \<and> distinct (map q_order cs)
     \<and> (\<forall>c\<in>set cs. \<exists>x\<in>set xs. t_id x = q_order c \<and> t_key x = q_key c)"

definition claimed :: "(pv \<Rightarrow> ustr) \<Rightarrow> inventory_row \<Rightarrow> request_row list \<Rightarrow> tx_order \<Rightarrow> bool" where
  "claimed digest item cs x \<longleftrightarrow> (\<exists>c\<in>set cs. q_key c = t_key x \<and> q_order c = t_id x
     \<and> q_fingerprint c = fingerprint digest (claimed_purchase item x))"

definition order_ok :: "inventory_row \<Rightarrow> ledger_row list \<Rightarrow> event_row list \<Rightarrow> tx_order \<Rightarrow> bool" where
  "order_ok item ls es x \<longleftrightarrow> 0 < t_quantity x \<and> t_amount x = t_quantity x * iv_price item
     \<and> t_state x \<in> {u ''paid'', u ''refunded''} \<and> ledger_of ls (t_id x) = expected_ledger x
     \<and> mset (map e_kind (filter (\<lambda>e. e_order e = t_id x) es)) = expected_events x
     \<and> (\<forall>e\<in>set es. e_order e = t_id x \<longrightarrow> payload_matches x e)"

definition no_orphans :: "tx_order list \<Rightarrow> wallet_row list \<Rightarrow> ledger_row list \<Rightarrow> event_row list \<Rightarrow> bool" where
  "no_orphans xs ws ls es \<longleftrightarrow> (\<forall>l\<in>set ls. l_order l \<in> t_id ` set xs \<and> l_owner l \<in> w_owner ` set ws)
     \<and> (\<forall>e\<in>set es. e_order e \<in> t_id ` set xs) \<and> sum_list (map l_delta ls) = 0"

definition clean :: "(pv \<Rightarrow> ustr) \<Rightarrow> bool \<Rightarrow> tables \<Rightarrow> bool" where
  "clean digest claims s \<longleftrightarrow> (\<exists>item. s_inventory s = [item] \<and> same_case (iv_case item) s
     \<and> distinct (map t_id (s_orders s)) \<and> distinct (map t_key (s_orders s)) \<and> stock_ok item (s_orders s)
     \<and> wallets_ok (s_wallets s) (s_ledger s) \<and> claims_ok (s_requests s) (s_orders s)
     \<and> no_orphans (s_orders s) (s_wallets s) (s_ledger s) (s_events s)
     \<and> (\<forall>x\<in>set (s_orders s). order_ok item (s_ledger s) (s_events s) x)
     \<and> (claims \<longrightarrow> (\<forall>x\<in>set (s_orders s). valid_purchase (claimed_purchase item x) \<and> claimed digest item (s_requests s) x)))"

lemma find_key_claim:
  "distinct (map q_key cs) \<Longrightarrow>
   (case find (\<lambda>c. q_key c = k) cs of None \<Rightarrow> False | Some c \<Rightarrow> P c) \<longleftrightarrow> (\<exists>c\<in>set cs. q_key c = k \<and> P c)"
proof (induction cs)
  case (Cons a cs)
  then have "q_key a \<notin> q_key ` set cs" by simp
  then have "find (\<lambda>c. q_key c = q_key a) cs = None" by (simp add: find_None_map)
  with Cons \<open>q_key a \<notin> q_key ` set cs\<close> show ?case by (cases "q_key a = k") (auto simp: image_iff)
qed simp

lemma global_checks_clean:
  assumes "length xs = length (s_orders s) \<longleftrightarrow> d1" "length cs = length (s_requests s) \<longleftrightarrow> d2"
  shows "global_checks s item xs cs = [] \<longleftrightarrow> d1 \<and> d2 \<and> distinct (map t_key xs) \<and> stock_ok item xs
    \<and> sum_list (map w_balance (s_wallets s)) = sum_list (map w_initial (s_wallets s))
    \<and> (\<forall>w\<in>set (s_wallets s). 0 \<le> w_initial w \<and> 0 \<le> w_balance w
          \<and> w_balance w = w_initial w + sum_list (map l_delta (filter (\<lambda>e. l_owner e = w_owner w) (s_ledger s))))
    \<and> no_orphans xs (s_wallets s) (s_ledger s) (s_events s)
    \<and> distinct (map q_order cs) \<and> (\<forall>c\<in>set cs. \<exists>x\<in>set xs. t_id x = q_order c \<and> t_key x = q_key c)"
proof -
  have "(\<forall>c\<in>set cs. \<exists>x\<in>set xs. t_id x = q_order c \<and> t_key x = q_key c)
      \<longrightarrow> (\<forall>c\<in>set cs. q_order c \<in> t_id ` set xs)" by force
  then show ?thesis
    by (auto simp: global_checks_def wallet_checks_def assms stock_ok_def no_orphans_def list_all_iff
        simp del: image_iff)
qed

lemma order_checks_clean:
  assumes "distinct (map q_key cs)"
  shows "order_checks digest claims s item cs x = [] \<longleftrightarrow>
    order_ok item (s_ledger s) (s_events s) x \<and> (claims \<longrightarrow> claimed digest item cs x)"
  unfolding order_checks_def append_is_Nil_conv find_key_claim [OF assms] by (auto simp: order_ok_def claimed_def)

lemma audit_clean:
  "(\<exists>r. audit digest claims s = Inr r \<and> rp_passed r) \<longleftrightarrow> within_budget s \<and> clean digest claims s"
proof (cases "s_inventory s")
  case (Cons item rest)
  let ?os = "dict_of t_id (s_orders s)" and ?cs = "dict_of q_key (s_requests s)"
  have d: "global_checks s item ?os ?cs = [] \<and> (\<forall>x\<in>set ?os. order_checks digest claims s item ?cs x = [])
     \<longleftrightarrow> distinct (map t_id (s_orders s)) \<and> distinct (map q_key (s_requests s))
        \<and> global_checks s item (s_orders s) (s_requests s) = []
        \<and> (\<forall>x\<in>set (s_orders s). order_checks digest claims s item (s_requests s) x = [])"
    using length_dict_of [of t_id "s_orders s"] length_dict_of [of q_key "s_requests s"]
      dict_of_distinct [of t_id "s_orders s"] dict_of_distinct [of q_key "s_requests s"]
      global_checks_clean [of ?os s "distinct (map t_id (s_orders s))" ?cs "distinct (map q_key (s_requests s))" item]
    by auto
  show ?thesis
  proof (cases "rest = [] \<and> within_budget s")
    case True
    then have i: "s_inventory s = [item]" and b: "within_budget s" using Cons by auto
    have "(\<exists>r. audit digest claims s = Inr r \<and> rp_passed r) \<longleftrightarrow> length (s_wallets s) = 2 \<and> same_case (iv_case item) s
        \<and> w_owner ` set (s_wallets s) = {u ''buyer'', u ''merchant''}
        \<and> (claims \<longrightarrow> (\<forall>x\<in>set ?os. valid_purchase (claimed_purchase item x)))
        \<and> global_checks s item ?os ?cs = [] \<and> (\<forall>x\<in>set ?os. order_checks digest claims s item ?cs x = [])"
      using b by (auto simp: audit_def i within_budget_def same_case_def list_all_iff Let_def not_less)
    also have "\<dots> \<longleftrightarrow> length (s_wallets s) = 2 \<and> same_case (iv_case item) s
        \<and> w_owner ` set (s_wallets s) = {u ''buyer'', u ''merchant''}
        \<and> (claims \<longrightarrow> (\<forall>x\<in>set (s_orders s). valid_purchase (claimed_purchase item x)))
        \<and> distinct (map t_id (s_orders s)) \<and> distinct (map q_key (s_requests s))
        \<and> global_checks s item (s_orders s) (s_requests s) = []
        \<and> (\<forall>x\<in>set (s_orders s). order_checks digest claims s item (s_requests s) x = [])"
    proof (cases "distinct (map t_id (s_orders s))")
      case True
      show ?thesis using d unfolding dict_of_distinct [OF True] by (simp add: True)
    next
      case False
      then show ?thesis unfolding d by simp
    qed
    also have "\<dots> \<longleftrightarrow> clean digest claims s"
      using global_checks_clean [of "s_orders s" s True "s_requests s" True item] order_checks_clean
      by (auto simp: clean_def i wallets_ok_def claims_ok_def)
    finally show ?thesis using b by simp
  next
    case False
    then show ?thesis using Cons
      by (auto simp: audit_def clean_def within_budget_def not_less split: list.splits if_splits)
  qed
qed (simp add: audit_def clean_def)


section \<open>The order of rows does not matter\<close>

lemma sum_list_mset: "mset xs = mset ys \<Longrightarrow> sum_list (map f xs) = (sum_list (map f ys) :: int)"
  by (metis mset_map sum_mset_sum_list)

lemma sum_list_filter_mset:
  "mset xs = mset ys \<Longrightarrow> sum_list (map f (filter p xs)) = (sum_list (map f (filter p ys)) :: int)"
  by (rule sum_list_mset) simp

lemma distinct_map_mset: "mset xs = mset ys \<Longrightarrow> distinct (map f xs) = distinct (map f ys)"
  by (rule mset_eq_imp_distinct_iff) simp

lemma stock_ok_mset: "mset xs = mset ys \<Longrightarrow> stock_ok item xs = stock_ok item ys"
  by (simp add: stock_ok_def stock_sold_def sum_list_filter_mset [of xs ys])

lemma wallets_ok_mset:
  assumes "mset ws = mset ws'" "mset ls = mset ls'"
  shows "wallets_ok ws ls = wallets_ok ws' ls'"
  using mset_eq_length [OF assms(1)] mset_eq_setD [OF assms(1)] sum_list_mset [OF assms(1)]
    sum_list_filter_mset [OF assms(2)] by (simp add: wallets_ok_def)

lemma claims_ok_mset:
  assumes "mset cs = mset cs'" "mset xs = mset xs'"
  shows "claims_ok cs xs = claims_ok cs' xs'"
  using mset_eq_setD [OF assms(1)] mset_eq_setD [OF assms(2)]
  by (simp add: claims_ok_def distinct_map_mset [OF assms(1), of q_key] distinct_map_mset [OF assms(1), of q_order])

lemma no_orphans_mset:
  assumes "mset xs = mset xs'" "mset ws = mset ws'" "mset ls = mset ls'" "mset es = mset es'"
  shows "no_orphans xs ws ls es = no_orphans xs' ws' ls' es'"
  using assms [THEN mset_eq_setD] sum_list_mset [OF assms(3)] by (simp add: no_orphans_def)

lemma order_ok_mset:
  assumes "mset ls = mset ls'" "mset es = mset es'"
  shows "order_ok item ls es x = order_ok item ls' es' x"
  using assms mset_eq_setD [OF assms(2)] by (simp add: order_ok_def ledger_of_def)

definition same_rows :: "tables \<Rightarrow> tables \<Rightarrow> bool" where
  "same_rows s t \<longleftrightarrow> mset (s_inventory s) = mset (s_inventory t) \<and> mset (s_wallets s) = mset (s_wallets t)
     \<and> mset (s_requests s) = mset (s_requests t) \<and> mset (s_orders s) = mset (s_orders t)
     \<and> mset (s_ledger s) = mset (s_ledger t) \<and> mset (s_events s) = mset (s_events t)"

lemma clean_same_rows:
  assumes "same_rows s t" "clean digest claims s"
  shows "clean digest claims t"
proof -
  have m: "mset (s_wallets s) = mset (s_wallets t)" "mset (s_requests s) = mset (s_requests t)"
    "mset (s_orders s) = mset (s_orders t)" "mset (s_ledger s) = mset (s_ledger t)"
    "mset (s_events s) = mset (s_events t)" using assms(1) by (simp_all add: same_rows_def)
  note sets = m [THEN mset_eq_setD]
  obtain item where i: "s_inventory s = [item]" using assms(2) by (auto simp: clean_def)
  then have "mset (s_inventory t) = {#item#}" using assms(1) by (simp add: same_rows_def)
  then have i': "s_inventory t = [item]" by (simp add: mset_single_iff)
  have "claimed digest item (s_requests t) x = claimed digest item (s_requests s) x" for x
    by (simp add: claimed_def sets)
  moreover have "same_case (iv_case item) t = same_case (iv_case item) s" by (simp add: same_case_def sets)
  ultimately show ?thesis
    using assms(2) unfolding clean_def i i' list.inject
    by (simp add: sets stock_ok_mset [OF m(3)] wallets_ok_mset [OF m(1,4)] claims_ok_mset [OF m(2,3)]
        no_orphans_mset [OF m(3,1,4,5)] order_ok_mset [OF m(4,5)]
        distinct_map_mset [OF m(3), of t_id] distinct_map_mset [OF m(3), of t_key])
qed

lemma snapshot_same_rows: "same_rows (rows_of c d) (snapshot c d)" "same_rows (snapshot c d) (rows_of c d)"
  by (simp_all add: same_rows_def rows_of_def snapshot_def)

lemma snapshot_clean: "clean digest claims (snapshot c d) = clean digest claims (rows_of c d)"
  using clean_same_rows snapshot_same_rows by blast

section \<open>A checkout keeps every case clean\<close>

lemma rows_of_checked_out_other:
  assumes "c \<noteq> p_case req"
  shows "rows_of c (checked_out digest a req item d) = rows_of c d"
proof -
  have inv: "filter (\<lambda>r. iv_case r = c) (map (\<lambda>r. if iv_case r = p_case req \<and> q \<le> iv_available r
      then r\<lparr>iv_available := iv_available r - q\<rparr> else r) rows) = filter (\<lambda>r. iv_case r = c) rows" for q rows
    using assms by (induction rows) auto
  have wal: "filter (\<lambda>r. w_case r = c) (map (\<lambda>r. if w_case r = p_case req \<and> P r
      then r\<lparr>w_balance := w_balance r + n\<rparr> else r) rows) = filter (\<lambda>r. w_case r = c) rows" for P n rows
    using assms by (induction rows) auto
  show ?thesis
    using assms unfolding checked_out_def rows_of_def Let_def tables.simps inv
      wal [of "\<lambda>r. w_owner r = u ''merchant''"]
      wal [of "\<lambda>r. w_owner r = u ''buyer'' \<and> p_quantity req * iv_price item \<le> w_balance r"]
    by (simp add: paid_order_def ledger_rows_def paid_claim_def paid_event_def Let_def
        wal [of "\<lambda>r. w_owner r = u ''buyer'' \<and> p_quantity req * iv_price item \<le> w_balance r", simplified])
qed
lemma filter_map_keeps:
  "(\<And>r. p (f r) = p r) \<Longrightarrow> filter p (map f rows) = map f (filter p rows)"
  by (induction rows) auto

lemma rows_of_checked_out:
  "rows_of (p_case req) (checked_out digest a req item d) = checked_out digest a req item (rows_of (p_case req) d)"
  by (simp add: checked_out_def rows_of_def Let_def filter_map_keeps paid_order_def ledger_rows_def
      paid_claim_def paid_event_def del: filter_map map_map)

lemma can_check_out_rows:
  assumes "can_check_out a req item d" "s_inventory (rows_of (p_case req) d) = [item']"
  shows "item = item'" "iv_case item = p_case req" "p_quantity req \<le> iv_available item"
    "length (filter (\<lambda>r. w_owner r = u ''buyer'' \<and> p_quantity req * iv_price item \<le> w_balance r)
       (s_wallets (rows_of (p_case req) d))) = 1"
    "a_oid a \<notin> t_id ` set (s_orders (rows_of (p_case req) d))"
    "p_key req \<notin> q_key ` set (s_requests (rows_of (p_case req) d))"
proof -
  have f: "filter (\<lambda>r. iv_case r = p_case req) (s_inventory d) = [item']" using assms(2) by (simp add: rows_of_def)
  then have "find (\<lambda>r. iv_case r = p_case req) (s_inventory d) = Some item'" by (simp add: find_cong_filter)
  then show i: "item = item'" using assms(1) by (simp add: can_check_out_def Let_def)
  show "iv_case item = p_case req" 
  proof -
    have "item' \<in> set (filter (\<lambda>r. iv_case r = p_case req) (s_inventory d))" unfolding f by simp
    then show ?thesis using i by simp
  qed
  have "length (filter (\<lambda>r. p_quantity req \<le> iv_available r)
      (filter (\<lambda>r. iv_case r = p_case req) (s_inventory d))) = 1"
    using assms(1) by (simp add: can_check_out_def Let_def conj_commute)
  then show "p_quantity req \<le> iv_available item" unfolding f i by (simp split: if_splits)
qed (use assms(1) in \<open>auto simp: can_check_out_def rows_of_def Let_def conj_commute conj_left_commute\<close>)

lemma wallets_two:
  assumes "length ws = 2" "w_owner ` set ws = {u ''buyer'', u ''merchant''}"
  obtains (bm) b m where "ws = [b, m]" "w_owner b = u ''buyer''" "w_owner m = u ''merchant''"
  | (mb) b m where "ws = [m, b]" "w_owner b = u ''buyer''" "w_owner m = u ''merchant''"
proof -
  obtain x y where ws: "ws = [x, y]" using assms(1) by (auto simp: numeral_2_eq_2 length_Suc_conv)
  with assms(2) have "{w_owner x, w_owner y} = {u ''buyer'', u ''merchant''}" by simp
  then show thesis using ws bm mb by (auto simp: doubleton_eq_iff)
qed

lemma wallets_ok_move:
  assumes ok: "wallets_ok ws ls"
    and bal: "\<And>w. w \<in> set ws \<Longrightarrow> w_owner w = u ''buyer'' \<Longrightarrow> 0 \<le> w_balance w + - n"
      "\<And>w. w \<in> set ws \<Longrightarrow> w_owner w = u ''merchant'' \<Longrightarrow> 0 \<le> w_balance w + n"
    and l: "l_owner l1 = u ''buyer''" "l_delta l1 = - n" "l_owner l2 = u ''merchant''" "l_delta l2 = n"
    and ws': "ws' = map (\<lambda>r. if w_owner r = u ''merchant'' then r\<lparr>w_balance := w_balance r + n\<rparr> else r)
      (map (\<lambda>r. if w_owner r = u ''buyer'' then r\<lparr>w_balance := w_balance r + - n\<rparr> else r) ws)"
  shows "wallets_ok ws' (ls @ [l1, l2])"
proof -
  have "length ws = 2" "w_owner ` set ws = {u ''buyer'', u ''merchant''}" using ok by (auto simp: wallets_ok_def)
  then show ?thesis
  proof (cases rule: wallets_two)
    case (bm b m)
    then have "0 \<le> w_balance b + - n" "0 \<le> w_balance m + n" using bal by auto
    with ok bm l show ?thesis by (auto simp: wallets_ok_def ws')
  next
    case (mb b m)
    then have "0 \<le> w_balance b + - n" "0 \<le> w_balance m + n" using bal by auto
    with ok mb l show ?thesis by (auto simp: wallets_ok_def ws')
  qed
qed

lemma payload_matches_own:
  "e_payload e = Some (event_payload x (e_kind e)) \<Longrightarrow> payload_matches x e"
  by (auto simp: payload_matches_def event_payload_def leaf_eq_def split: option.splits)

lemma wallets_nonneg: "wallets_ok ws ls \<Longrightarrow> w \<in> set ws \<Longrightarrow> 0 \<le> w_balance w"
  unfolding wallets_ok_def by blast

lemma buyer_can_pay:
  assumes "wallets_ok ws ls"
    "length (filter (\<lambda>r. w_owner r = u ''buyer'' \<and> n \<le> w_balance r) ws) = 1"
  shows "w \<in> set ws \<Longrightarrow> w_owner w = u ''buyer'' \<Longrightarrow> n \<le> w_balance w"
proof -
  have "length ws = 2" "w_owner ` set ws = {u ''buyer'', u ''merchant''}" using assms(1) by (auto simp: wallets_ok_def)
  then show "w \<in> set ws \<Longrightarrow> w_owner w = u ''buyer'' \<Longrightarrow> n \<le> w_balance w"
    using assms(2) by (cases rule: wallets_two) (auto split: if_splits)
qed

lemma paid_order_simps [simp]:
  "t_id (paid_order a req item) = a_oid a" "t_case (paid_order a req item) = p_case req"
  "t_key (paid_order a req item) = p_key req" "t_quantity (paid_order a req item) = p_quantity req"
  "t_amount (paid_order a req item) = p_quantity req * iv_price item"
  "t_state (paid_order a req item) = u ''paid''"
  by (simp_all add: paid_order_def)

lemma ledger_of_fresh: "(\<forall>l\<in>set ls. l_order l \<noteq> i) \<Longrightarrow> ledger_of ls i = {#}"
  by (simp add: ledger_of_def filter_empty_conv)

lemma ledger_of_append: "ledger_of (ls @ ms) i = ledger_of ls i + ledger_of ms i"
  by (simp add: ledger_of_def)

lemma checked_out_wallets:
  fixes ws :: "wallet_row list"
  assumes "\<And>w. w \<in> set ws \<Longrightarrow> w_case w = c" "\<And>w. w \<in> set ws \<Longrightarrow> w_owner w = u ''buyer'' \<Longrightarrow> n \<le> w_balance w"
  shows "map (\<lambda>r. if w_case r = c \<and> w_owner r = u ''merchant'' then r\<lparr>w_balance := w_balance r + n\<rparr> else r)
        (map (\<lambda>r. if w_case r = c \<and> w_owner r = u ''buyer'' \<and> w_balance r \<ge> n
                  then r\<lparr>w_balance := w_balance r + - n\<rparr> else r) ws)
    = map (\<lambda>r. if w_owner r = u ''merchant'' then r\<lparr>w_balance := w_balance r + n\<rparr> else r)
      (map (\<lambda>r. if w_owner r = u ''buyer'' then r\<lparr>w_balance := w_balance r + - n\<rparr> else r) ws)"
proof -
  have "map f ws = map g ws" if "\<And>w. w \<in> set ws \<Longrightarrow> f w = g w" for f g :: "wallet_row \<Rightarrow> wallet_row"
    using that by (rule map_cong [OF refl])
  then show ?thesis unfolding map_map comp_def using assms by auto
qed

lemma map_owner_update:
  "map w_owner (map (\<lambda>r. if p r then r\<lparr>w_balance := f r\<rparr> else r) ws) = map w_owner ws"
  by (induction ws) auto

lemma order_ok_extend:
  assumes "order_ok item ls es x" "t_id x \<noteq> i" "l_order l1 = i" "l_order l2 = i" "e_order e = i" "iv_price item' = iv_price item"
  shows "order_ok item' (ls @ [l1, l2]) (es @ [e]) x"
  using assms by (auto simp: order_ok_def ledger_of_def)

lemma checked_out_clean:
  assumes cl: "clean digest True t" and i: "s_inventory t = [item]" "iv_case item = p_case req"
    and valid: "valid_purchase req" and q2: "p_quantity req \<le> iv_available item"
    and pay: "length (filter (\<lambda>r. w_owner r = u ''buyer'' \<and> p_quantity req * iv_price item \<le> w_balance r)
       (s_wallets t)) = 1"
    and fresh: "a_oid a \<notin> t_id ` set (s_orders t)" "p_key req \<notin> q_key ` set (s_requests t)"
  shows "clean digest True (checked_out digest a req item t)"
proof -
  let ?x = "paid_order a req item" and ?n = "p_quantity req * iv_price item"
  let ?l = "ledger_rows (a_ledger_ids a) ?x (u ''paid'')" and ?t = "checked_out digest a req item t"
  have q: "1 \<le> p_quantity req" "p_quantity req \<le> iv_available item" using valid q2 by (simp_all add: valid_purchase_def)
  have same: "same_case (p_case req) t" and dist: "distinct (map t_id (s_orders t))" "distinct (map t_key (s_orders t))"
    and stock: "stock_ok item (s_orders t)" and wal: "wallets_ok (s_wallets t) (s_ledger t)"
    and claims: "claims_ok (s_requests t) (s_orders t)"
    and orph: "no_orphans (s_orders t) (s_wallets t) (s_ledger t) (s_events t)"
    and ords: "\<forall>x\<in>set (s_orders t). order_ok item (s_ledger t) (s_events t) x"
    and cld: "\<forall>x\<in>set (s_orders t). claimed digest item (s_requests t) x"
    and val: "\<forall>x\<in>set (s_orders t). valid_purchase (claimed_purchase item x)"
    using cl unfolding clean_def i by (auto simp: i(2))
  have price: "0 < iv_price item" using stock by (simp add: stock_ok_def)
  have t: "s_inventory ?t = [item\<lparr>iv_available := iv_available item - p_quantity req\<rparr>]"
    "s_requests ?t = s_requests t @ [paid_claim digest a req]" "s_orders ?t = s_orders t @ [?x]"
    "s_ledger ?t = s_ledger t @ [fst ?l, snd ?l]" "s_events ?t = s_events t @ [paid_event a ?x]"
    using q by (simp_all add: checked_out_def Let_def i)
  have canpay: "\<And>w. w \<in> set (s_wallets t) \<Longrightarrow> w_owner w = u ''buyer'' \<Longrightarrow> ?n \<le> w_balance w"
    using buyer_can_pay [OF wal pay] .
  have wt: "s_wallets ?t = map (\<lambda>r. if w_owner r = u ''merchant'' then r\<lparr>w_balance := w_balance r + ?n\<rparr> else r)
      (map (\<lambda>r. if w_owner r = u ''buyer'' then r\<lparr>w_balance := w_balance r + - ?n\<rparr> else r) (s_wallets t))"
    unfolding checked_out_def Let_def tables.simps paid_order_simps using same canpay
    by (intro checked_out_wallets) (auto simp: same_case_def)
  have l: "l_owner (fst ?l) = u ''buyer''" "l_delta (fst ?l) = - ?n" "l_owner (snd ?l) = u ''merchant''"
    "l_delta (snd ?l) = ?n" "l_order (fst ?l) = a_oid a" "l_order (snd ?l) = a_oid a"
    "l_case (fst ?l) = p_case req" "l_case (snd ?l) = p_case req" "l_phase (fst ?l) = u ''paid''" "l_phase (snd ?l) = u ''paid''"
    by (simp_all add: ledger_rows_def Let_def)
  have w2: "wallets_ok (s_wallets ?t) (s_ledger ?t)"
    unfolding t by (rule wallets_ok_move [OF wal _ _ l(1-4) wt])
      (use canpay wallets_nonneg [OF wal] q price in \<open>auto intro: add_nonneg_nonneg\<close>)
  have owners: "w_owner ` set (s_wallets ?t) = w_owner ` set (s_wallets t)"
    unfolding wt by (metis map_owner_update set_map)
  have nokey: "p_key req \<notin> t_key ` set (s_orders t)" using cld fresh(2) by (force simp: claimed_def)
  have noled: "\<forall>l\<in>set (s_ledger t). l_order l \<noteq> a_oid a" and noev: "\<forall>e\<in>set (s_events t). e_order e \<noteq> a_oid a"
    using orph fresh(1) unfolding no_orphans_def by metis+
  have nocl: "a_oid a \<notin> q_order ` set (s_requests t)" using claims fresh(1) by (force simp: claims_ok_def)
  show ?thesis
    unfolding clean_def
  proof (intro exI conjI)
    show "s_inventory ?t = [item\<lparr>iv_available := iv_available item - p_quantity req\<rparr>]" by (rule t)
    show "same_case (iv_case (item\<lparr>iv_available := iv_available item - p_quantity req\<rparr>)) ?t"
      using same i l unfolding same_case_def wt t by (auto simp: paid_claim_def paid_event_def)
    show "distinct (map t_id (s_orders ?t))" "distinct (map t_key (s_orders ?t))"
      using dist fresh nokey unfolding t by auto
    show "stock_ok (item\<lparr>iv_available := iv_available item - p_quantity req\<rparr>) (s_orders ?t)"
      using stock q unfolding t by (simp add: stock_ok_def stock_sold_def)
    show "wallets_ok (s_wallets ?t) (s_ledger ?t)" by (rule w2)
    show "claims_ok (s_requests ?t) (s_orders ?t)"
      using claims fresh nocl unfolding t by (auto simp: claims_ok_def paid_claim_def)
    show "no_orphans (s_orders ?t) (s_wallets ?t) (s_ledger ?t) (s_events ?t)"
      using orph l wal unfolding no_orphans_def owners t by (auto simp: paid_event_def wallets_ok_def)
    show "\<forall>x\<in>set (s_orders ?t). order_ok (item\<lparr>iv_available := iv_available item - p_quantity req\<rparr>)
        (s_ledger ?t) (s_events ?t) x"
    proof
      fix x assume "x \<in> set (s_orders ?t)"
      then consider "x \<in> set (s_orders t)" | "x = ?x" unfolding t by auto
      then show "order_ok (item\<lparr>iv_available := iv_available item - p_quantity req\<rparr>) (s_ledger ?t) (s_events ?t) x"
      proof cases
        case 1
        then have "t_id x \<noteq> a_oid a" using fresh(1) by (metis imageI)
        with 1 ords l show ?thesis unfolding t
          by (intro order_ok_extend [where i = "a_oid a" and item = item]) (auto simp: paid_event_def)
      next
        case 2
        have "filter (\<lambda>e. e_order e = a_oid a) (s_events t) = []" using noev by (simp add: filter_empty_conv)
        with q price ledger_of_fresh [OF noled] show ?thesis unfolding t 2 order_ok_def ledger_of_append
          by (auto simp: paid_event_def ledger_of_def l expected_ledger_def expected_events_def
              intro!: payload_matches_own dest: noev [rule_format])
      qed
    qed
    have [simp]: "claimed_purchase (item\<lparr>iv_available := n\<rparr>) x = claimed_purchase item x" for n x
      by (simp add: claimed_purchase_def)
    have new: "claimed_purchase item ?x = req" using i(2) by (simp add: claimed_purchase_def)
    show "True \<longrightarrow> (\<forall>x\<in>set (s_orders ?t). valid_purchase (claimed_purchase
        (item\<lparr>iv_available := iv_available item - p_quantity req\<rparr>) x) \<and> claimed digest
        (item\<lparr>iv_available := iv_available item - p_quantity req\<rparr>) (s_requests ?t) x)"
      using cld val valid unfolding t claimed_def by (auto simp: new paid_claim_def)
  qed
qed

section \<open>All or nothing\<close>

lemma purchase_once_protected:
  assumes pol: "pol = Protected \<or> pol = Unchecked_Replay"
    and run: "purchase_once digest a pol fail_at lose req d = (r, d')"
  shows "d' = d \<and> (\<forall>x. r \<noteq> Inr x) \<or> (\<exists>item. can_check_out a req item d \<and> d' = checked_out digest a req item d
    \<and> (r = Inr (paid_order a req item) \<or> r = Inl Commit_Unknown))"
proof -
  obtain r1 s where b: "purchase_body digest a pol fail_at req \<lparr>x_durable = d, x_work = d\<rparr> = (r1, s)"
    by (cases "purchase_body digest a pol fail_at req \<lparr>x_durable = d, x_work = d\<rparr>")
  have "keeps_durable (purchase_body digest a pol fail_at req)"
    using pol by (intro purchase_body_durable) auto
  then have dur: "x_durable s = d" unfolding keeps_durable_def using b by (metis session.select_convs(1) snd_conv)
  show ?thesis
  proof (cases r1)
    case (Inl e)
    then show ?thesis using run dur by (auto simp: purchase_once_def b)
  next
    case (Inr x)
    then obtain item where "can_check_out a req item d" "x = paid_order a req item"
      "x_work s = checked_out digest a req item d" using purchase_body_Inr [OF pol, of digest a fail_at req d x s] b by auto
    then show ?thesis using run dur Inr
      by (cases "a_commit a") (auto simp: purchase_once_def b split: if_splits)
  qed
qed

lemma purchase_tries_protected:
  assumes pol: "pol = Protected \<or> pol = Unchecked_Replay"
    and run: "purchase_tries digest as pol fail_at lose req d = (r, d')"
  shows "d' = d \<and> (\<forall>x. r \<noteq> Inr (Created x)) \<or> (\<exists>a item. can_check_out a req item d \<and> d' = checked_out digest a req item d
    \<and> (r = Inr (Created (paid_order a req item)) \<or> r = Inl Commit_Unknown))"
  using run
proof (induction "as")
  case (Cons a rest)
  obtain r1 d1 where o1: "purchase_once digest a pol fail_at lose req d = (r1, d1)"
    by (cases "purchase_once digest a pol fail_at lose req d")
  show ?case
  proof (cases "r1 = Inl Commit_Unknown \<or> (\<exists>x. r1 = Inr x)")
    case True
    then have "d' = d1 \<and> (r1 = Inl Commit_Unknown \<and> r = Inl Commit_Unknown \<or> (\<exists>x. r1 = Inr x \<and> r = Inr (Created x)))"
      using Cons.prems by (auto simp: o1)
    with purchase_once_protected [OF pol o1] show ?thesis
      by (elim conjE disjE exE) (simp_all, blast+)
  next
    case False
    then have d1: "d1 = d" using purchase_once_protected [OF pol o1] by auto
    obtain e where e: "r1 = Inl e" "e \<noteq> Commit_Unknown" using False by (cases r1) auto
    show ?thesis
    proof (cases "\<exists>code. e = Tx_Sql_Error code \<and> code \<in> {1205, 1213} \<and> rest \<noteq> []")
      case True
      then have "purchase_tries digest rest pol fail_at lose req d = (r, d')"
        using Cons.prems pol by (auto simp: o1 e(1) d1)
      then show ?thesis by (rule Cons.IH)
    next
      case False
      then have "d' = d \<and> (\<forall>x. r \<noteq> Inr (Created x))"
        using Cons.prems pol e by (auto simp: o1 d1 split: tx_exn.splits sum.splits option.splits if_splits)
      then show ?thesis by blast
    qed
  qed
qed auto

definition passes :: "(pv \<Rightarrow> ustr) \<Rightarrow> ustr \<Rightarrow> tables \<Rightarrow> bool" where
  "passes digest c d \<longleftrightarrow> (case audit digest True (snapshot c d) of Inl _ \<Rightarrow> False | Inr r \<Rightarrow> rp_passed r)"

lemma passes_clean: "passes digest c d \<longleftrightarrow> within_budget (snapshot c d) \<and> clean digest True (rows_of c d)"
proof -
  have "passes digest c d \<longleftrightarrow> (\<exists>r. audit digest True (snapshot c d) = Inr r \<and> rp_passed r)"
    by (auto simp: passes_def split: sum.splits)
  then show ?thesis by (simp add: audit_clean snapshot_clean)
qed

lemma check_out_clean:
  assumes "can_check_out a req item d" "valid_purchase req" "clean digest True (rows_of c d)"
  shows "clean digest True (rows_of c (checked_out digest a req item d))"
proof (cases "c = p_case req")
  case False
  with assms(3) show ?thesis by (simp add: rows_of_checked_out_other)
next
  case True
  obtain item' where i: "s_inventory (rows_of c d) = [item']" using assms(3) by (auto simp: clean_def)
  note f = can_check_out_rows [OF assms(1) i [unfolded True]]
  show ?thesis
    unfolding True rows_of_checked_out
    by (rule checked_out_clean) (use assms i f True in auto)
qed

section \<open>A concrete shop\<close>

definition plain_env :: "string \<Rightarrow> attempt_env" where
  "plain_env i = \<lparr>a_oid = u i, a_ledger_ids = (u (i @ ''1''), u (i @ ''2'')), a_event_id = u (i @ ''e''),
     a_fault = (\<lambda>_. None), a_commit = Commit_ok, a_stale = None\<rparr>"

definition shop :: tables where
  "shop = \<lparr>s_inventory = [\<lparr>iv_case = u ''c'', iv_initial = 3, iv_available = 3, iv_price = 100\<rparr>],
     s_wallets = [\<lparr>w_case = u ''c'', w_owner = u ''buyer'', w_initial = 900, w_balance = 900\<rparr>,
                  \<lparr>w_case = u ''c'', w_owner = u ''merchant'', w_initial = 0, w_balance = 0\<rparr>],
     s_requests = [], s_orders = [], s_ledger = [], s_events = []\<rparr>"

definition shop_item :: inventory_row where
  "shop_item = \<lparr>iv_case = u ''c'', iv_initial = 3, iv_available = 3, iv_price = 100\<rparr>"

definition shop_req :: purchase where
  "shop_req = \<lparr>p_case = u ''c'', p_key = u ''k'', p_quantity = 2\<rparr>"

definition shop_digest :: "pv \<Rightarrow> ustr" where
  "shop_digest v = (case v of PDict d \<Rightarrow> (case dget d ''quantity'' of PInt n \<Rightarrow> [nat n] | _ \<Rightarrow> []) | _ \<Rightarrow> [])"

lemma shop_req_valid: "valid_purchase shop_req"
  by (simp add: valid_purchase_def shop_req_def case_text_def class_match_def key_text_def is_lower_def
      is_alnum_def u_def)

lemma shop_seeded: "seed_case (u ''c'') 3 900 100 no_tables = Inr shop"
  by (simp add: seed_case_def case_text_def class_match_def is_lower_def u_def no_tables_def shop_def)

lemma shop_clean: "clean digest True (rows_of (u ''c'') shop)"
  by (simp add: clean_def rows_of_def shop_def same_case_def stock_ok_def stock_sold_def wallets_ok_def
      claims_ok_def no_orphans_def)

lemma shop_snapshot: "snapshot (u ''c'') shop = shop"
  by (simp add: snapshot_def shop_def) (simp add: u_def)

lemma shop_passes: "passes digest (u ''c'') shop"
  by (simp add: passes_clean shop_clean shop_snapshot) (simp add: shop_def within_budget_def max_rows_def)

lemma shop_checkout:
  "purchase_op digest (plain_env i, plain_env j, plain_env k) Protected None False shop_req shop
     = (Inr (Created (paid_order (plain_env i) shop_req shop_item)),
        checked_out digest (plain_env i) shop_req shop_item shop)"
  by (simp add: purchase_op_def purchase_once_def purchase_body_def after_stock_def bind_eff_def claim_key_def statement_def
      insert_claim_def select_item_def take_stock_def update_stock_def update_wallet_def update_where_def
      checkpoint_def tx_insert_order_def insert_ledger_def insert_ledger_row_def tx_insert_event_def Let_def
      ledger_rows_def plain_env_def shop_def shop_req_def checked_out_def paid_order_def paid_claim_def
      paid_event_def shop_item_def bind_res_def)

lemma shop_budget: "within_budget (snapshot c (checked_out digest a shop_req shop_item shop))"
  unfolding within_budget_def snapshot_def tables.simps length_sort
  by (intro conjI order_trans [OF length_filter_le])
    (simp_all add: checked_out_def Let_def shop_def max_rows_def)

section \<open>Properties of the checkout\<close>

text \<open>C12: A protected checkout keeps every case's audit passing. From tables on which the audit of a
  case passes, whatever the attempts meet (injected failures at any boundary, driver errors at
  any statement, deadlock retries, duplicate keys, lost or unknown commits), the audit of the
  resulting rows passes again, for the purchase's own case and for every other one.\<close>

theorem checkout_preserves_audit:
  assumes "passes digest c d" "valid_purchase req" "pol = Protected \<or> pol = Unchecked_Replay"
    and "purchase_op digest as pol fail_at lose req d = (r, d')" "within_budget (snapshot c d')"
  shows "passes digest c d'"
proof -
  obtain a1 a2 a3 where "purchase_tries digest [a1, a2, a3] pol fail_at lose req d = (r, d')"
    using assms(4) by (cases "as") (simp add: purchase_op_def)
  from purchase_tries_protected [OF assms(3) this] show ?thesis
    using assms(1,5) check_out_clean [OF _ assms(2), of _ _ d digest c] by (auto simp: passes_clean)
qed

theorem checkout_preserves_audit_witness:
  "passes shop_digest (u ''c'') (checked_out shop_digest (plain_env ''a'') shop_req shop_item shop)"
  using checkout_preserves_audit [OF shop_passes shop_req_valid disjI1 [OF refl] shop_checkout [of shop_digest] shop_budget] .



section \<open>Replays and conflicts\<close>

lemma find_snoc_None: "find p xs = None \<Longrightarrow> find p (xs @ [y]) = (if p y then Some y else None)"
  by (induction xs) (auto split: if_splits)

lemma checked_out_claim:
  assumes "can_check_out a req item d" "p_case req2 = p_case req" "p_key req2 = p_key req"
  shows "find (\<lambda>c. q_case c = p_case req2 \<and> q_key c = p_key req2) (s_requests (checked_out digest a req item d))
      = Some (paid_claim digest a req)"
    and "find (\<lambda>x. t_id x = a_oid a) (s_orders (checked_out digest a req item d)) = Some (paid_order a req item)"
proof -
  have "find (\<lambda>c. q_case c = p_case req2 \<and> q_key c = p_key req2) (s_requests d) = None"
    using assms by (auto simp: find_None_iff can_check_out_def Let_def)
  then show "find (\<lambda>c. q_case c = p_case req2 \<and> q_key c = p_key req2) (s_requests (checked_out digest a req item d))
      = Some (paid_claim digest a req)"
    by (simp add: checked_out_def Let_def find_snoc_None paid_claim_def assms)
  have "find (\<lambda>x. t_id x = a_oid a) (s_orders d) = None"
    using assms(1) by (simp add: find_None_map can_check_out_def Let_def)
  then show "find (\<lambda>x. t_id x = a_oid a) (s_orders (checked_out digest a req item d)) = Some (paid_order a req item)"
    by (simp add: checked_out_def Let_def find_snoc_None)
qed

lemma second_purchase_existing:
  assumes "can_check_out a req item d" "p_case req2 = p_case req" "p_key req2 = p_key req"
    and "a_fault b St_Claim = None" "pol = Protected \<or> pol = Unchecked_Replay"
  shows "purchase_once digest b pol fail_at lose req2 (checked_out digest a req item d)
    = (Inl Existing_Key, checked_out digest a req item d)"
proof -
  have "\<exists>r\<in>set (s_requests (checked_out digest a req item d)). q_case r = p_case req2 \<and> q_key r = p_key req2"
    using checked_out_claim(1) [OF assms(1-3), of digest] by (auto dest: find_SomeD)
  then show ?thesis using assms(4,5)
    by (auto simp: purchase_once_def purchase_body_def after_stock_def bind_eff_def claim_key_def statement_def insert_claim_def)
qed

lemma lookup_checked_out:
  assumes "can_check_out a req item d" "p_case req2 = p_case req" "p_key req2 = p_key req"
  shows "lookup digest verify req2 (checked_out digest a req item d) =
    (if verify \<and> fingerprint digest req \<noteq> fingerprint digest req2 then Inl (Rejected ''idempotency_conflict'')
     else if verify \<and> p_quantity req \<noteq> p_quantity req2
     then Inl (Tx_Runtime ''Committed request claim has no matching order'')
     else Inr (Some (paid_order a req item)))"
  using assms checked_out_claim [OF assms, of digest] by (auto simp: lookup_def paid_claim_def)

text \<open>After a checkout was applied (confirmed or with its commit unknown), asking again is safe: the
  read-only lookup and a second checkout with the same key and payload both return the order that
  was made, and the tables stay as they are.\<close>

theorem applied_checkout_replays:
  assumes "pol = Protected \<or> pol = Unchecked_Replay"
    and "purchase_op digest as pol fail_at lose req d = (r, d')" "d' \<noteq> d" "a_fault b1 St_Claim = None"
  shows "\<exists>x. lookup digest True req d' = Inr (Some x)
    \<and> purchase_op digest (b1, b2, b3) Protected None False req d' = (Inr (Replayed x), d')
    \<and> t_key x = p_key req \<and> t_quantity x = p_quantity req \<and> (\<forall>y. r = Inr (Created y) \<longrightarrow> y = x)"
proof -
  obtain a1 a2 a3 where "purchase_tries digest [a1, a2, a3] pol fail_at lose req d = (r, d')"
    using assms(2) by (cases "as") (simp add: purchase_op_def)
  from purchase_tries_protected [OF assms(1) this] assms(3) obtain a item where
    c: "can_check_out a req item d" "d' = checked_out digest a req item d"
    "r = Inr (Created (paid_order a req item)) \<or> r = Inl Commit_Unknown" by auto
  have "lookup digest True req d' = Inr (Some (paid_order a req item))"
    by (simp add: lookup_checked_out [OF c(1)] c(2))
  moreover have "purchase_op digest (b1, b2, b3) Protected None False req d' = (Inr (Replayed (paid_order a req item)), d')"
    using second_purchase_existing [OF c(1) refl refl assms(4) disjI1 [OF refl], of digest None False] calculation
    by (simp add: purchase_op_def c(2))
  ultimately show ?thesis using c(3) by auto
qed

theorem applied_checkout_replays_witness:
  "\<exists>x. lookup shop_digest True shop_req (checked_out shop_digest (plain_env ''a'') shop_req shop_item shop) = Inr (Some x)
     \<and> t_quantity x = 2"
proof -
  have "checked_out shop_digest (plain_env ''a'') shop_req shop_item shop \<noteq> shop"
    by (simp add: checked_out_def Let_def shop_def)
  from applied_checkout_replays [OF disjI1 [OF refl] shop_checkout [of shop_digest] this, of "plain_env ''b''"]
  show ?thesis by (auto simp: plain_env_def shop_req_def)
qed

text \<open>C14: A key cannot be used for another payload: once a checkout was applied, the protected checkout
  with the same key and another quantity is rejected as a conflict and changes no row, while
  the unchecked replay of the lesson answers with the old order and its old quantity. The digests
  of the two payloads are only assumed to differ.\<close>

theorem key_reuse_conflicts:
  assumes "pol = Protected \<or> pol = Unchecked_Replay"
    and "purchase_op digest as pol fail_at lose req d = (r, d')" "d' \<noteq> d"
    and "p_case req2 = p_case req" "p_key req2 = p_key req" "p_quantity req2 \<noteq> p_quantity req"
    and "fingerprint digest req \<noteq> fingerprint digest req2" "a_fault b1 St_Claim = None"
  shows "purchase_op digest (b1, b2, b3) Protected None False req2 d' = (Inl (Rejected ''idempotency_conflict''), d')
    \<and> (\<exists>x. purchase_op digest (b1, b2, b3) Unchecked_Replay None False req2 d' = (Inr (Replayed x), d')
         \<and> t_quantity x = p_quantity req \<and> t_quantity x \<noteq> p_quantity req2)"
proof -
  obtain a1 a2 a3 where "purchase_tries digest [a1, a2, a3] pol fail_at lose req d = (r, d')"
    using assms(2) by (cases "as") (simp add: purchase_op_def)
  from purchase_tries_protected [OF assms(1) this] assms(3) obtain a item where
    c: "can_check_out a req item d" "d' = checked_out digest a req item d" by auto
  note s = second_purchase_existing [OF c(1) assms(4,5,8), where fail_at = None and lose = False and digest = digest]
  show ?thesis
    using s [of Protected] s [of Unchecked_Replay] lookup_checked_out [OF c(1) assms(4,5), of digest] assms(6,7)
    by (simp add: purchase_op_def c(2))
qed

theorem key_reuse_conflicts_witness:
  "fst (purchase_op shop_digest (plain_env ''b'', plain_env ''c'', plain_env ''d'') Protected None False
      \<lparr>p_case = u ''c'', p_key = u ''k'', p_quantity = 1\<rparr> (checked_out shop_digest (plain_env ''a'') shop_req shop_item shop))
   = Inl (Rejected ''idempotency_conflict'')"
proof -
  let ?req2 = "\<lparr>p_case = u ''c'', p_key = u ''k'', p_quantity = 1\<rparr>"
  have n: "checked_out shop_digest (plain_env ''a'') shop_req shop_item shop \<noteq> shop"
    by (simp add: checked_out_def Let_def shop_def)
  have "p_case ?req2 = p_case shop_req" "p_key ?req2 = p_key shop_req" "p_quantity ?req2 \<noteq> p_quantity shop_req"
    "fingerprint shop_digest shop_req \<noteq> fingerprint shop_digest ?req2"
    by (simp_all add: shop_req_def fingerprint_def shop_digest_def)
  from key_reuse_conflicts [OF disjI1 [OF refl] shop_checkout [of shop_digest] n this, of "plain_env ''b''"]
  show ?thesis by (simp add: plain_env_def)
qed

section \<open>What the unsafe policies do\<close>

text \<open>Statements of a split-commit checkout after the stock was taken.\<close>

definition residue :: "inventory_row list \<Rightarrow> 'a tx \<Rightarrow> bool" where
  "residue rows m \<longleftrightarrow> (\<forall>x r x'. s_inventory (x_work x) = rows \<longrightarrow> m x = (r, x') \<longrightarrow>
     s_inventory (x_work x') = rows \<and> (\<forall>f. r = Inl (Injected f) \<longrightarrow> s_inventory (x_durable x') = rows))"

lemma residue_bind: "residue rows m \<Longrightarrow> (\<And>a. residue rows (f a)) \<Longrightarrow> residue rows (bind_eff m f)"
proof -
  assume m: "residue rows m" and f: "\<And>a. residue rows (f a)"
  show ?thesis
    unfolding residue_def
  proof (intro allI impI)
    fix x r x' assume x: "s_inventory (x_work x) = rows" and run: "bind_eff m f x = (r, x')"
    obtain r1 x1 where m1: "m x = (r1, x1)" by (cases "m x")
    note one = m [unfolded residue_def, rule_format, OF x m1]
    show "s_inventory (x_work x') = rows \<and> (\<forall>g. r = Inl (Injected g) \<longrightarrow> s_inventory (x_durable x') = rows)"
    proof (cases r1)
      case (Inl e)
      with one run show ?thesis by (auto simp: bind_eff_def m1)
    next
      case (Inr a)
      then have "f a x1 = (r, x')" using run by (simp add: bind_eff_def m1)
      from f [unfolded residue_def, rule_format, OF conjunct1 [OF one] this] show ?thesis .
    qed
  qed
qed

lemma residue_simple [simp]:
  "residue rows (ret a)" "(\<And>f. e \<noteq> Injected f) \<Longrightarrow> residue rows (raise_exn e)"
  "residue rows (checkpoint Split_Commit fail_at stage)"
  by (auto simp: residue_def checkpoint_def Let_def split: if_splits)

lemma residue_statement:
  assumes "\<And>t a w. g t = Inr (a, w) \<Longrightarrow> s_inventory w = s_inventory t" "\<And>t f. g t \<noteq> Inl (Injected f)"
  shows "residue rows (statement fault n g)"
  unfolding residue_def
proof (intro allI impI)
  fix x r x' assume x: "s_inventory (x_work x) = rows" and run: "statement fault n g x = (r, x')"
  show "s_inventory (x_work x') = rows \<and> (\<forall>f. r = Inl (Injected f) \<longrightarrow> s_inventory (x_durable x') = rows)"
  proof (cases "g (x_work x)")
    case (Inl e)
    then have "e \<noteq> Injected f" for f using assms(2) by metis
    with Inl x run show ?thesis by (auto simp: statement_def split: option.splits)
  next
    case (Inr q)
    obtain a w where p: "q = (a, w)" by (cases q)
    then have "s_inventory w = rows" using assms(1) Inr x by metis
    with Inr x run p show ?thesis by (cases "fault n") (auto simp: statement_def)
  qed
qed

lemma update_where_changes:
  assumes "length (filter p rows) = 1" "\<And>r. p r \<Longrightarrow> f r \<noteq> r"
  shows "map (\<lambda>r. if p r then f r else r) rows \<noteq> rows"
proof
  assume eq: "map (\<lambda>r. if p r then f r else r) rows = rows"
  obtain r where r: "r \<in> set rows" "p r" using assms(1) by (metis filter_False length_0_conv zero_neq_one)
  have "map (\<lambda>r. if p r then f r else r) rows = map (\<lambda>r. r) rows" using eq by simp
  then have "(if p r then f r else r) = r" using r(1) by (simp only: map_eq_conv)
  with r assms(2) show False by simp
qed

lemma residue_update_wallet: "residue rows (statement fault n (update_wallet p k))"
  by (rule residue_statement) (auto simp: update_wallet_def update_where_def)

lemma residue_after_stock: "residue rows (after_stock a Split_Commit fail_at req item)"
  unfolding after_stock_def Let_def
  by (auto intro!: residue_bind residue_update_wallet residue_statement
      simp: tx_insert_order_def insert_ledger_def insert_ledger_row_def tx_insert_event_def bind_res_def
      split: if_splits prod.splits sum.splits)

lemma split_commit_inventory:
  assumes run: "purchase_body digest a Split_Commit (Some f) req \<lparr>x_durable = d, x_work = d\<rparr> = (Inl (Injected f), x)"
  shows "length (filter (\<lambda>r. iv_case r = p_case req \<and> iv_available r \<ge> p_quantity req) (s_inventory d)) = 1
    \<and> s_inventory (x_durable x) = map (\<lambda>r. if iv_case r = p_case req \<and> iv_available r \<ge> p_quantity req
        then r\<lparr>iv_available := iv_available r - p_quantity req\<rparr> else r) (s_inventory d)"
proof -
  let ?p = "\<lambda>r. iv_case r = p_case req \<and> iv_available r \<ge> p_quantity req"
  let ?rows = "map (\<lambda>r. if ?p r then r\<lparr>iv_available := iv_available r - p_quantity req\<rparr> else r) (s_inventory d)"
  let ?k = "\<lambda>item. bind_eff (checkpoint Split_Commit (Some f) At_Inventory) (\<lambda>_. after_stock a Split_Commit (Some f) req item)"
  have "a_fault a St_Select = None" "find (\<lambda>r. iv_case r = p_case req) (s_inventory d) \<noteq> None"
    using run by (auto simp: purchase_body_def bind_eff_def claim_key_def statement_def select_item_def
        split: option.splits)
  then obtain item where sel: "a_fault a St_Select = None"
    and item: "find (\<lambda>r. iv_case r = p_case req) (s_inventory d) = Some item" by auto
  have ret: "bind_eff (ret ()) g = g ()" for g :: "unit \<Rightarrow> tx_order tx" by (simp add: bind_eff_def fun_eq_iff)
  have step: "bind_eff (statement (a_fault a) St_Select (select_item (p_case req))) g \<lparr>x_durable = d, x_work = d\<rparr>
      = g (Some item) \<lparr>x_durable = d, x_work = d\<rparr>" for g :: "inventory_row option \<Rightarrow> tx_order tx"
    by (simp add: bind_eff_def statement_def select_item_def sel item)
  have run2: "bind_eff (take_stock a Split_Commit req item) (\<lambda>_. ?k item) \<lparr>x_durable = d, x_work = d\<rparr> = (Inl (Injected f), x)"
    using run by (simp add: purchase_body_def claim_key_def ret step)
  obtain r1 x1 where ts: "take_stock a Split_Commit req item \<lparr>x_durable = d, x_work = d\<rparr> = (r1, x1)"
    by (cases "take_stock a Split_Commit req item \<lparr>x_durable = d, x_work = d\<rparr>")
  have r1: "r1 = Inr ()"
    using run2 ts by (cases r1) (auto simp: bind_eff_def take_stock_def statement_def update_stock_def
        update_where_def split: option.splits if_splits)
  then have "length (filter ?p (s_inventory d)) = 1" and rows: "s_inventory (x_work x1) = ?rows"
    using ts by (auto simp: take_stock_def bind_eff_Inr statement_Inr update_stock_def update_where_def split: if_splits)
  moreover have "?k item x1 = (Inl (Injected f), x)"
    using run2 r1 ts by (simp add: bind_eff_def [of "take_stock a Split_Commit req item"])
  moreover have "residue ?rows (?k item)"
    by (rule residue_bind) (simp_all add: residue_after_stock)
  ultimately show ?thesis using rows unfolding residue_def by blast
qed

text \<open>The rollback lesson separates the two implementations at every one of the six failure points:
  when the injected failure is reported, the protected checkout has left every row as it was and
  the split-commit checkout has not.\<close>

theorem failure_residue:
  assumes "1 \<le> p_quantity req"
  shows "(purchase_once digest a Protected (Some f) lose req d = (Inl (Injected f), d1) \<longrightarrow> d1 = d)
    \<and> (purchase_once digest a Split_Commit (Some f) lose req d = (Inl (Injected f), d2) \<longrightarrow> d2 \<noteq> d)"
proof (intro conjI impI)
  assume "purchase_once digest a Protected (Some f) lose req d = (Inl (Injected f), d1)"
  from purchase_once_protected [OF _ this] show "d1 = d" by auto
next
  assume run: "purchase_once digest a Split_Commit (Some f) lose req d = (Inl (Injected f), d2)"
  obtain r s where b: "purchase_body digest a Split_Commit (Some f) req \<lparr>x_durable = d, x_work = d\<rparr> = (r, s)"
    by (cases "purchase_body digest a Split_Commit (Some f) req \<lparr>x_durable = d, x_work = d\<rparr>")
  have "r = Inl (Injected f)" "d2 = x_durable s"
    using run b by (auto simp: purchase_once_def split: sum.splits commit.splits if_splits)
  with split_commit_inventory [of digest a f req d s] b
  have one: "length (filter (\<lambda>r. iv_case r = p_case req \<and> iv_available r \<ge> p_quantity req) (s_inventory d)) = 1"
    and inv: "s_inventory d2 = map (\<lambda>r. if iv_case r = p_case req \<and> iv_available r \<ge> p_quantity req
        then r\<lparr>iv_available := iv_available r - p_quantity req\<rparr> else r) (s_inventory d)" by auto
  have "r\<lparr>iv_available := iv_available r - p_quantity req\<rparr> \<noteq> r" for r :: inventory_row
    using assms by (cases r) simp
  from update_where_changes [OF one this] show "d2 \<noteq> d" using inv by metis
qed

theorem failure_residue_witness:
  "snd (purchase_once shop_digest (plain_env ''a'') Split_Commit (Some At_Inventory) False shop_req shop) \<noteq> shop"
proof -
  obtain d2 where "purchase_once shop_digest (plain_env ''a'') Split_Commit (Some At_Inventory) False shop_req shop
      = (Inl (Injected At_Inventory), d2)"
    by (simp add: purchase_once_def purchase_body_def after_stock_def bind_eff_def claim_key_def statement_def
        select_item_def take_stock_def update_stock_def update_where_def checkpoint_def Let_def
        plain_env_def shop_def shop_req_def)
  moreover have "1 \<le> p_quantity shop_req" by (simp add: shop_req_def)
  ultimately show ?thesis
    using failure_residue [of shop_req shop_digest "plain_env ''a''" At_Inventory False shop] by simp
qed

end
