(* ===== verification/Tx_Drill.thy ===== *)
theory Tx_Drill
  imports Tx_Sql
begin

text \<open>
  \<open>mvp-lab/mvp_app/transaction_drill.py\<close>, which runs an unsafe and a protected implementation of a
  transaction scenario and audits both, with \<open>plan\<close> and \<open>verify_result\<close> of \<open>transaction_model.py\<close>, the host's
  check of its evidence. The clients of a parallel step run in an order and with the ids, faults and stale reads the
  environment gives them. The Korean goals and scope texts of the plan are not kept.
\<close>

section \<open>Plan and evidence\<close>

definition failpoint_name :: "failpoint \<Rightarrow> string" where
  "failpoint_name f = (case f of At_Inventory \<Rightarrow> ''inventory'' | At_Debit \<Rightarrow> ''debit'' | At_Credit \<Rightarrow> ''credit''
     | At_Order \<Rightarrow> ''order'' | At_Ledger \<Rightarrow> ''ledger'' | At_Outbox \<Rightarrow> ''outbox'')"

definition drill_price :: "int \<Rightarrow> int" where "drill_price seed = 100 + seed mod 101"

record drill_plan =
  dp_scenario :: string
  dp_clients :: int
  dp_seed :: int
  dp_price :: int
  dp_stages :: "failpoint list"

definition drill_plan_of :: "string \<Rightarrow> int \<Rightarrow> int \<Rightarrow> drill_plan res" where
  "drill_plan_of scenario clients seed = bind_res (options scenario clients seed) (\<lambda>_.
     Inr \<lparr>dp_scenario = scenario, dp_clients = clients, dp_seed = seed, dp_price = drill_price seed,
       dp_stages = (if scenario = ''checkout-rollback'' then failpoints else [])\<rparr>)"

datatype outcome = O_Created tx_order | O_Replayed tx_order | O_Refunded ustr | O_Refund_Replayed ustr | O_Rejected string
  | O_Injected failpoint | O_Unknown | O_Error

record evidence =
  ev_case :: ustr
  ev_outcomes :: "outcome list"
  ev_snapshot :: tables
  ev_audit :: report
  ev_unchanged :: "bool option"
  ev_retry :: "outcome option"
  ev_recovered :: "(tables \<times> report) option"

record drill_result =
  dr_plan :: drill_plan
  dr_status :: string
  dr_observed :: bool
  dr_negative :: bool
  dr_protected :: bool
  dr_clean :: bool
  dr_cases :: "evidence list"
  dr_trace :: nat

section \<open>Attempts\<close>

definition attempt_error :: "tx_exn \<Rightarrow> outcome" where
  "attempt_error e = (case e of Rejected reason \<Rightarrow> O_Rejected reason | Injected f \<Rightarrow> O_Injected f | Commit_Unknown \<Rightarrow> O_Unknown
     | _ \<Rightarrow> O_Error)"

type_synonym tries = "attempt_env \<times> attempt_env \<times> attempt_env"

definition try_purchase :: "(pv \<Rightarrow> ustr) \<Rightarrow> tries \<Rightarrow> policy \<Rightarrow> failpoint option \<Rightarrow> bool \<Rightarrow> purchase \<Rightarrow> tables \<Rightarrow> outcome \<times> tables" where
  "try_purchase digest as pol fail_at lose req d = (case purchase_op digest as pol fail_at lose req d of
       (Inl e, d') \<Rightarrow> (attempt_error e, d')
     | (Inr (Created x), d') \<Rightarrow> (O_Created x, d') | (Inr (Replayed x), d') \<Rightarrow> (O_Replayed x, d'))"

definition try_refund :: "attempt_env \<Rightarrow> tx_order option \<Rightarrow> bool \<Rightarrow> ustr \<Rightarrow> ustr \<Rightarrow> tables \<Rightarrow> outcome \<times> tables" where
  "try_refund a stale locked c oid d = (case refund a stale locked c oid d of
       (Inl e, d') \<Rightarrow> (attempt_error e, d')
     | (Inr (True, i), d') \<Rightarrow> (O_Refunded i, d') | (Inr (False, i), d') \<Rightarrow> (O_Refund_Replayed i, d'))"

fun run_clients :: "(nat \<Rightarrow> tables \<Rightarrow> outcome \<times> tables) \<Rightarrow> nat list \<Rightarrow> tables \<Rightarrow> (nat \<times> outcome) list \<times> tables" where
  "run_clients f [] d = ([], d)"
| "run_clients f (i # js) d = (case f i d of (r, d1) \<Rightarrow> (case run_clients f js d1 of (rs, d2) \<Rightarrow> ((i, r) # rs, d2)))"

definition parallel :: "nat \<Rightarrow> nat list \<Rightarrow> (nat \<Rightarrow> tables \<Rightarrow> outcome \<times> tables) \<Rightarrow> (outcome list, tables) eff" where
  "parallel n order f d = (case run_clients f order d of (rs, d') \<Rightarrow>
     if set order = {..<n} then (Inr (map (\<lambda>i. the (map_of rs i)) [0..<n]), d')
     else (Inl (Runtime_Error ''Unfinished SQL clients''), d'))"

definition clean_outcomes :: "outcome list \<Rightarrow> bool" where
  "clean_outcomes os \<longleftrightarrow> list_all (\<lambda>r. r \<noteq> O_Error) os"

definition kind :: "outcome \<Rightarrow> string" where
  "kind r = (case r of O_Created _ \<Rightarrow> ''created'' | O_Replayed _ \<Rightarrow> ''replayed'' | O_Refunded _ \<Rightarrow> ''refunded''
     | O_Refund_Replayed _ \<Rightarrow> ''replayed'' | O_Rejected _ \<Rightarrow> ''rejected'' | O_Injected _ \<Rightarrow> ''injected_failure''
     | O_Unknown \<Rightarrow> ''commit_unknown'' | O_Error \<Rightarrow> ''unexpected_error'')"

text \<open>\<open>counts(row) == {...}\<close> for positive counts.\<close>

definition tally :: "outcome list \<Rightarrow> (string \<times> int) list \<Rightarrow> bool" where
  "tally os ns \<longleftrightarrow> list_all (\<lambda>(k, n). int (length (filter (\<lambda>r. kind r = k) os)) = n) ns
     \<and> list_all (\<lambda>r. kind r \<in> fst ` set ns) os"

definition outcome_order :: "outcome \<Rightarrow> tx_order option" where
  "outcome_order r = (case r of O_Created x \<Rightarrow> Some x | O_Replayed x \<Rightarrow> Some x | _ \<Rightarrow> None)"

section \<open>Steps of a case\<close>

definition tx_error :: "tx_exn \<Rightarrow> exn" where
  "tx_error e = (case e of Tx_Value m \<Rightarrow> Value_Error m | Tx_Runtime m \<Rightarrow> Runtime_Error m | Tx_Sql_Error n \<Rightarrow> Sql_Error n
     | _ \<Rightarrow> Other_Error ''transaction'')"

definition label :: "bool \<Rightarrow> string" where "label safe = (if safe then ''protected'' else ''unsafe'')"

definition balance_of :: "int \<Rightarrow> int \<Rightarrow> int" where "balance_of clients seed = drill_price seed * (clients + 10) * 3"

definition seed_drill :: "int \<Rightarrow> int \<Rightarrow> ustr \<Rightarrow> int \<Rightarrow> (unit, tables) eff" where
  "seed_drill clients seed c stock d = (case seed_case c stock (balance_of clients seed) (drill_price seed) d of
       Inl e \<Rightarrow> (Inl (tx_error e), d) | Inr d' \<Rightarrow> (Inr (), d'))"

definition take_snapshot :: "ustr \<Rightarrow> (tables, tables) eff" where
  "take_snapshot c d = ((case snapshot_op c d of Inl e \<Rightarrow> Inl (tx_error e) | Inr s \<Rightarrow> Inr s), d)"

definition drill_step :: "(tables \<Rightarrow> outcome \<times> tables) \<Rightarrow> (outcome, tables) eff" where
  "drill_step f d = (case f d of (r, d') \<Rightarrow> (Inr r, d'))"

definition observe :: "(pv \<Rightarrow> ustr) \<Rightarrow> ustr \<Rightarrow> outcome list \<Rightarrow> bool \<Rightarrow> (evidence, tables) eff" where
  "observe digest c outs claims = bind_eff (take_snapshot c) (\<lambda>s d. (bind_res (audit digest claims s) (\<lambda>a.
     Inr \<lparr>ev_case = c, ev_outcomes = outs, ev_snapshot = s, ev_audit = a, ev_unchanged = None, ev_retry = None,
       ev_recovered = None\<rparr>), d))"

definition violation :: "evidence \<Rightarrow> string \<Rightarrow> bool" where
  "violation row name = list_ex (\<lambda>v. fst v = name) (rp_violations (ev_audit row))"

definition clean_row :: "evidence \<Rightarrow> bool" where
  "clean_row row = rp_passed (ev_audit row)"

record drill_env =
  de_tries :: "ustr \<Rightarrow> nat \<Rightarrow> tries"
  de_refund :: "ustr \<Rightarrow> nat \<Rightarrow> attempt_env \<times> tx_order option"
  de_order :: "ustr \<Rightarrow> nat list"

section \<open>The scenarios\<close>

text \<open>Each returns the evidence of one implementation and whether what was to be seen was seen.\<close>

definition stock_race :: "(pv \<Rightarrow> ustr) \<Rightarrow> drill_env \<Rightarrow> int \<Rightarrow> int \<Rightarrow> bool \<Rightarrow> (evidence \<times> bool, tables) eff" where
  "stock_race digest env clients seed safe = (let c = u (label safe) in
     bind_eff (seed_drill clients seed c 1) (\<lambda>_.
     bind_eff (parallel (nat clients) (de_order env c) (\<lambda>i. try_purchase digest (de_tries env c i)
        (if safe then Protected else Stale_Stock) None False \<lparr>p_case = c, p_key = u ''request-'' @ nat_text i, p_quantity = 1\<rparr>)) (\<lambda>outs.
     bind_eff (observe digest c outs safe) (\<lambda>row.
     ret (row, if safe then clean_row row \<and> tally outs [(''created'', 1), (''rejected'', clients - 1)]
           \<and> filter (\<lambda>r. kind r = ''rejected'') outs = replicate (nat (clients - 1)) (O_Rejected ''sold_out'')
         else tally outs [(''created'', clients)] \<and> violation row ''stock_conservation'')))))"

definition duplicate_checkout :: "(pv \<Rightarrow> ustr) \<Rightarrow> drill_env \<Rightarrow> int \<Rightarrow> int \<Rightarrow> bool \<Rightarrow> (evidence \<times> bool, tables) eff" where
  "duplicate_checkout digest env clients seed safe = (let c = u (label safe) in
     bind_eff (seed_drill clients seed c (clients + 4)) (\<lambda>_.
     bind_eff (parallel (nat clients) (de_order env c) (\<lambda>i. try_purchase digest (de_tries env c i)
        (if safe then Protected else No_Claim) None False \<lparr>p_case = c, p_key = u ''same-key'', p_quantity = 1\<rparr>)) (\<lambda>outs.
     bind_eff (observe digest c outs safe) (\<lambda>row.
     ret (row, if safe then clean_row row \<and> tally outs [(''created'', 1), (''replayed'', clients - 1)]
           \<and> (\<exists>i\<in>set (map (map_option t_id \<circ> outcome_order) outs). i \<noteq> None \<and>
                list_all (\<lambda>r. map_option t_id (outcome_order r) = i) outs)
         else tally outs [(''created'', clients)] \<and> violation row ''one_order_per_request'')))))"

definition rollback_case :: "(pv \<Rightarrow> ustr) \<Rightarrow> drill_env \<Rightarrow> int \<Rightarrow> int \<Rightarrow> failpoint \<Rightarrow> bool \<Rightarrow> (evidence \<times> bool, tables) eff" where
  "rollback_case digest env clients seed f safe =
     (let c = u (label safe @ ''-'' @ failpoint_name f); req = \<lparr>p_case = c, p_key = u ''retry-same-key'', p_quantity = 1\<rparr> in
      bind_eff (seed_drill clients seed c (clients + 4)) (\<lambda>_.
      bind_eff (take_snapshot c) (\<lambda>earlier.
      bind_eff (drill_step (try_purchase digest (de_tries env c 0) (if safe then Protected else Split_Commit) (Some f) False req)) (\<lambda>first.
      bind_eff (observe digest c [first] safe) (\<lambda>row.
      let unchanged = (earlier = ev_snapshot row); injected = (first = O_Injected f);
          row1 = row\<lparr>ev_unchanged := Some unchanged\<rparr> in
      if \<not> safe then ret (row1, injected \<and> \<not> unchanged)
      else bind_eff (drill_step (try_purchase digest (de_tries env c 1) Protected None False req)) (\<lambda>again.
           bind_eff (take_snapshot c) (\<lambda>recovered.
           bind_eff (\<lambda>d. (audit digest True recovered, d)) (\<lambda>a.
           ret (row1\<lparr>ev_retry := Some again, ev_recovered := Some (recovered, a)\<rparr>,
                injected \<and> unchanged \<and> kind again = ''created'' \<and> rp_passed a)))))))))"

definition reconcile :: "(pv \<Rightarrow> ustr) \<Rightarrow> bool \<Rightarrow> purchase \<Rightarrow> (tx_order option, tables) eff" where
  "reconcile digest safe req d = ((if safe then (case lookup digest True req d of Inl e \<Rightarrow> Inl (tx_error e) | Inr x \<Rightarrow> Inr x)
     else Inr None), d)"

definition commit_ambiguity :: "(pv \<Rightarrow> ustr) \<Rightarrow> drill_env \<Rightarrow> int \<Rightarrow> int \<Rightarrow> bool \<Rightarrow> (evidence \<times> bool, tables) eff" where
  "commit_ambiguity digest env clients seed safe =
     (let c = u (label safe); req = \<lparr>p_case = c, p_key = u ''same-key'', p_quantity = 1\<rparr>;
          pol = (if safe then Protected else No_Claim) in
      bind_eff (seed_drill clients seed c (clients + 4)) (\<lambda>_.
      bind_eff (drill_step (try_purchase digest (de_tries env c 0) pol None True req)) (\<lambda>first.
      bind_eff (take_snapshot c) (\<lambda>committed.
      bind_eff (reconcile digest safe req) (\<lambda>found.
      bind_eff (take_snapshot c) (\<lambda>again.
      bind_eff (drill_step (try_purchase digest (de_tries env c 1) pol None False req)) (\<lambda>second.
      bind_eff (observe digest c [first, second] safe) (\<lambda>row.
      ret (row, if safe then first = O_Unknown \<and> kind second = ''replayed'' \<and> found \<noteq> None \<and> outcome_order second = found
             \<and> committed = again \<and> clean_row row \<and> length (s_orders (ev_snapshot row)) = 1
           else first = O_Unknown \<and> kind second = ''created'' \<and> violation row ''one_order_per_request'')))))))))"

definition idempotency_conflict :: "(pv \<Rightarrow> ustr) \<Rightarrow> drill_env \<Rightarrow> int \<Rightarrow> int \<Rightarrow> bool \<Rightarrow> (evidence \<times> bool, tables) eff" where
  "idempotency_conflict digest env clients seed safe =
     (let c = u (label safe); req = (\<lambda>n. \<lparr>p_case = c, p_key = u ''same-key'', p_quantity = n\<rparr>) in
      bind_eff (seed_drill clients seed c (clients + 4)) (\<lambda>_.
      bind_eff (drill_step (try_purchase digest (de_tries env c 0) Protected None False (req 1))) (\<lambda>first.
      bind_eff (take_snapshot c) (\<lambda>earlier.
      bind_eff (drill_step (try_purchase digest (de_tries env c 1) (if safe then Protected else Unchecked_Replay) None False (req 2))) (\<lambda>second.
      bind_eff (observe digest c [first, second] True) (\<lambda>row.
      ret (row, if safe then kind first = ''created'' \<and> second = O_Rejected ''idempotency_conflict''
             \<and> earlier = ev_snapshot row \<and> clean_row row
           else kind first = ''created'' \<and> kind second = ''replayed'' \<and> map_option t_quantity (outcome_order second) \<noteq> Some 2)))))))"

text \<open>\<open>repo.purchase(...)['order']\<close>; an error of the checkout is not caught.\<close>

definition first_order :: "(pv \<Rightarrow> ustr) \<Rightarrow> tries \<Rightarrow> purchase \<Rightarrow> (tx_order, tables) eff" where
  "first_order digest as req d = (case purchase_op digest as Protected None False req d of
       (Inl e, d') \<Rightarrow> (Inl (tx_error e), d') | (Inr (Created x), d') \<Rightarrow> (Inr x, d') | (Inr (Replayed x), d') \<Rightarrow> (Inr x, d'))"

definition refund_race :: "(pv \<Rightarrow> ustr) \<Rightarrow> drill_env \<Rightarrow> int \<Rightarrow> int \<Rightarrow> bool \<Rightarrow> (evidence \<times> bool, tables) eff" where
  "refund_race digest env clients seed safe = (let c = u (label safe) in
     bind_eff (seed_drill clients seed c (clients + 4)) (\<lambda>_.
     bind_eff (first_order digest (de_tries env c 0) \<lparr>p_case = c, p_key = u ''same-key'', p_quantity = 1\<rparr>) (\<lambda>x.
       bind_eff (parallel (nat clients) (de_order env c) (\<lambda>i. try_refund (fst (de_refund env c i)) (snd (de_refund env c i)) safe c (t_id x))) (\<lambda>outs.
       bind_eff (observe digest c outs True) (\<lambda>row.
       ret (row, if safe then clean_row row \<and> tally outs [(''refunded'', 1), (''replayed'', clients - 1)]
            else tally outs [(''refunded'', clients)] \<and> violation row ''order_ledger_exact'' \<and> violation row ''stock_conservation''))))))"

section \<open>The run\<close>

text \<open>One implementation after the other, unsafe first.\<close>

definition both :: "(bool \<Rightarrow> (evidence \<times> bool, tables) eff) \<Rightarrow> (evidence list \<times> bool \<times> bool, tables) eff" where
  "both body = bind_eff (body False) (\<lambda>r1. bind_eff (body True) (\<lambda>r2. ret ([fst r1, fst r2], snd r1, snd r2)))"

fun boundaries :: "(failpoint \<Rightarrow> bool \<Rightarrow> (evidence \<times> bool, tables) eff) \<Rightarrow> failpoint list \<Rightarrow> (evidence list \<times> bool \<times> bool, tables) eff" where
  "boundaries body [] = ret ([], True, True)"
| "boundaries body (f # fs) = bind_eff (both (body f)) (\<lambda>r. bind_eff (boundaries body fs) (\<lambda>rest.
     ret (fst r @ fst rest, fst (snd r) \<and> fst (snd rest), snd (snd r) \<and> snd (snd rest))))"

definition drill_cases :: "(pv \<Rightarrow> ustr) \<Rightarrow> drill_env \<Rightarrow> string \<Rightarrow> int \<Rightarrow> int \<Rightarrow> (evidence list \<times> bool \<times> bool, tables) eff" where
  "drill_cases digest env scenario clients seed =
     (if scenario = ''stock-race'' then both (stock_race digest env clients seed)
      else if scenario = ''duplicate-checkout'' then both (duplicate_checkout digest env clients seed)
      else if scenario = ''checkout-rollback'' then boundaries (rollback_case digest env clients seed) failpoints
      else if scenario = ''commit-ambiguity'' then both (commit_ambiguity digest env clients seed)
      else if scenario = ''idempotency-conflict'' then both (idempotency_conflict digest env clients seed)
      else both (refund_race digest env clients seed))"

definition drill_status :: "bool \<Rightarrow> bool \<Rightarrow> bool \<Rightarrow> string" where
  "drill_status expected_unsafe protected_ok clean =
     (if \<not> protected_ok \<or> \<not> clean then ''failed'' else if expected_unsafe then ''passed'' else ''inconclusive'')"

text \<open>\<open>initialize\<close> refuses a schema that has tables; \<open>trace\<close> is how many events the run traced.\<close>

definition drill_run :: "(pv \<Rightarrow> ustr) \<Rightarrow> drill_env \<Rightarrow> nat \<Rightarrow> string \<Rightarrow> int \<Rightarrow> int \<Rightarrow> (drill_result, tables) eff" where
  "drill_run digest env trace scenario clients seed d = (case drill_plan_of scenario clients seed of Inl e \<Rightarrow> (Inl e, d)
     | Inr p \<Rightarrow>
       if d \<noteq> no_tables then (Inl (Value_Error ''Requires an EMPTY disposable schema''), d)
       else bind_eff (drill_cases digest env scenario clients seed) (\<lambda>r.
         let clean = list_all (\<lambda>c. clean_outcomes (ev_outcomes c)) (fst r);
             status = drill_status (fst (snd r)) (snd (snd r)) clean in
         ret \<lparr>dr_plan = p, dr_status = status, dr_observed = (status = ''passed''), dr_negative = fst (snd r),
              dr_protected = snd (snd r), dr_clean = clean, dr_cases = fst r, dr_trace = trace\<rparr>) d)"

section \<open>Verification by the host\<close>

definition expected_cases :: "string \<Rightarrow> ustr list" where
  "expected_cases scenario = (if scenario = ''checkout-rollback''
     then concat (map (\<lambda>f. [u (''unsafe-'' @ failpoint_name f), u (''protected-'' @ failpoint_name f)]) failpoints)
     else [u ''unsafe'', u ''protected''])"

definition claims_of :: "string \<Rightarrow> ustr \<Rightarrow> bool" where
  "claims_of scenario c = (\<not> starts_with (u ''unsafe'') c \<or> scenario \<in> {''refund-race'', ''idempotency-conflict''})"

definition fixture_ok :: "string \<Rightarrow> int \<Rightarrow> int \<Rightarrow> tables \<Rightarrow> bool" where
  "fixture_ok scenario clients seed s = (case s_inventory s of [] \<Rightarrow> False
     | item # _ \<Rightarrow> iv_price item = drill_price seed \<and> iv_initial item = (if scenario = ''stock-race'' then 1 else clients + 4))"

definition funding_ok :: "int \<Rightarrow> int \<Rightarrow> tables \<Rightarrow> bool" where
  "funding_ok clients seed s = (set (map (\<lambda>w. (w_owner w, w_initial w)) (s_wallets s))
     = {(u ''buyer'', balance_of clients seed), (u ''merchant'', 0)})"

definition verify_row :: "(pv \<Rightarrow> ustr) \<Rightarrow> string \<Rightarrow> int \<Rightarrow> int \<Rightarrow> string \<Rightarrow> evidence \<Rightarrow> unit res" where
  "verify_row digest scenario clients seed status row =
     bind_res (audit digest (claims_of scenario (ev_case row)) (ev_snapshot row)) (\<lambda>computed.
     bind_res (require (computed = ev_audit row) ''Saved transaction audit does not match underlying rows'') (\<lambda>_.
     bind_res (require (fixture_ok scenario clients seed (ev_snapshot row)) ''Fixture inventory differs from planned inputs'') (\<lambda>_.
     bind_res (require (funding_ok clients seed (ev_snapshot row)) ''Fixture funding differs from planned inputs'') (\<lambda>_.
     bind_res (require (ev_outcomes row \<noteq> []) ''Missing operation outcomes'') (\<lambda>_.
     bind_res (if starts_with (u ''protected'') (ev_case row) \<and> scenario = ''checkout-rollback'' then
         (case ev_recovered row of None \<Rightarrow> Inl Key_Error
          | Some (s, a) \<Rightarrow> bind_res (audit digest True s) (\<lambda>a'.
              bind_res (require (a' = a) ''Recovery audit differs from recovered rows'') (\<lambda>_.
              require (status = ''passed'' \<longrightarrow> ev_unchanged row = Some True \<and> map_option kind (ev_retry row) = Some ''created''
                \<and> rp_passed a) ''Successful rollback requires zero residue and a validated retry'')))
       else Inr ()) (\<lambda>_.
     require (\<not> (status = ''passed'' \<and> starts_with (u ''protected'') (ev_case row) \<and> \<not> rp_passed computed))
       ''Successful lesson contains a failed protected audit''))))))"

fun verify_rows :: "(evidence \<Rightarrow> unit res) \<Rightarrow> evidence list \<Rightarrow> unit res" where
  "verify_rows f [] = Inr ()"
| "verify_rows f (r # rs) = bind_res (f r) (\<lambda>_. verify_rows f rs)"

definition verify_result :: "(pv \<Rightarrow> ustr) \<Rightarrow> drill_result \<Rightarrow> string \<Rightarrow> int \<Rightarrow> int \<Rightarrow> unit res" where
  "verify_result digest v scenario clients seed =
     bind_res (drill_plan_of scenario clients seed) (\<lambda>p.
     bind_res (require (dr_plan v = p \<and> dr_status v \<in> {''passed'', ''failed'', ''inconclusive''})
        ''Missing or mismatched transaction evidence header'') (\<lambda>_.
     bind_res (require (map ev_case (dr_cases v) = expected_cases scenario) ''Missing or duplicate comparison cases'') (\<lambda>_.
     bind_res (require (1 \<le> dr_trace v \<and> dr_trace v \<le> 4096) ''Missing or oversized transaction trace'') (\<lambda>_.
     bind_res (verify_rows (verify_row digest scenario clients seed (dr_status v)) (dr_cases v)) (\<lambda>_.
     bind_res (require (dr_observed v = (dr_status v = ''passed'')) ''Observation flag and status disagree'') (\<lambda>_.
     require (dr_status v = ''passed'' \<longrightarrow> dr_negative v \<and> dr_protected v \<and> dr_clean v)
        ''Incomplete successful lesson assertions''))))))"

section \<open>What the operations of a case keep\<close>

type_synonym fixture = "(ustr \<times> int \<times> int) list \<times> (ustr \<times> ustr \<times> int) list"

definition fixtures :: "tables \<Rightarrow> fixture" where
  "fixtures t = (map (\<lambda>r. (iv_case r, iv_initial r, iv_price r)) (s_inventory t),
     map (\<lambda>w. (w_case w, w_owner w, w_initial w)) (s_wallets t))"

definition row_cases :: "tables \<Rightarrow> ustr set" where
  "row_cases t = q_case ` set (s_requests t) \<union> t_case ` set (s_orders t) \<union> l_case ` set (s_ledger t) \<union> e_case ` set (s_events t)"

definition untouched :: "fixture \<Rightarrow> ustr set \<Rightarrow> tables \<Rightarrow> bool" where
  "untouched F C t \<longleftrightarrow> fixtures t = F \<and> row_cases t \<subseteq> C"

definition keeps :: "(tables \<Rightarrow> bool) \<Rightarrow> 'a tx \<Rightarrow> bool" where
  "keeps p m \<longleftrightarrow> (\<forall>x. p (x_durable x) \<and> p (x_work x) \<longrightarrow> p (x_durable (snd (m x))) \<and> p (x_work (snd (m x))))"

lemma keeps_bind: "keeps p m \<Longrightarrow> (\<And>a. keeps p (f a)) \<Longrightarrow> keeps p (bind_eff m f)"
  unfolding keeps_def bind_eff_def by (auto split: prod.splits sum.splits)

lemma keeps_simple [simp]: "keeps p (ret a)" "keeps p (raise_exn e)" "keeps p (checkpoint pol fail_at stage)"
  by (auto simp: keeps_def checkpoint_def)

lemma keeps_statement: "(\<And>t a t'. p t \<Longrightarrow> f t = Inr (a, t') \<Longrightarrow> p t') \<Longrightarrow> keeps p (statement fault n f)"
  by (auto simp: keeps_def statement_def split: option.splits sum.splits prod.splits)

lemma row_cases_simps [simp]:
  "row_cases (t\<lparr>s_inventory := a\<rparr>) = row_cases t" "row_cases (t\<lparr>s_wallets := b\<rparr>) = row_cases t"
  "row_cases (t\<lparr>s_requests := s_requests t @ [q]\<rparr>) = insert (q_case q) (row_cases t)"
  "row_cases (t\<lparr>s_orders := s_orders t @ [x]\<rparr>) = insert (t_case x) (row_cases t)"
  "row_cases (t\<lparr>s_ledger := s_ledger t @ [l, m]\<rparr>) = insert (l_case l) (insert (l_case m) (row_cases t))"
  "row_cases (t\<lparr>s_events := s_events t @ [e]\<rparr>) = insert (e_case e) (row_cases t)"
  by (auto simp: row_cases_def)

lemma fixtures_simps [simp]:
  "fixtures (t\<lparr>s_requests := c\<rparr>) = fixtures t" "fixtures (t\<lparr>s_orders := e\<rparr>) = fixtures t"
  "fixtures (t\<lparr>s_ledger := f\<rparr>) = fixtures t" "fixtures (t\<lparr>s_events := g\<rparr>) = fixtures t"
  "fixtures (t\<lparr>s_inventory := map (\<lambda>r. if p r then r\<lparr>iv_available := h r\<rparr> else r) (s_inventory t)\<rparr>) = fixtures t"
  "fixtures (t\<lparr>s_wallets := map (\<lambda>r. if p' r then r\<lparr>w_balance := h' r\<rparr> else r) (s_wallets t)\<rparr>) = fixtures t"
  by (auto simp: fixtures_def)

lemma untouched_steps:
  "untouched F C t \<Longrightarrow> q_case q \<in> C \<Longrightarrow> insert_claim q t = Inr (a, t') \<Longrightarrow> untouched F C t'"
  "untouched F C t \<Longrightarrow> select_item c t = Inr (b, t') \<Longrightarrow> untouched F C t'"
  "untouched F C t \<Longrightarrow> update_stock p h t = Inr (n, t') \<Longrightarrow> untouched F C t'"
  "untouched F C t \<Longrightarrow> update_wallet p' k t = Inr (n, t') \<Longrightarrow> untouched F C t'"
  "untouched F C t \<Longrightarrow> t_case x \<in> C \<Longrightarrow> tx_insert_order x t = Inr (a, t') \<Longrightarrow> untouched F C t'"
  "untouched F C t \<Longrightarrow> t_case x \<in> C \<Longrightarrow> insert_ledger ids x phase t = Inr (a, t') \<Longrightarrow> untouched F C t'"
  "untouched F C t \<Longrightarrow> t_case x \<in> C \<Longrightarrow> tx_insert_event i x phase t = Inr (a, t') \<Longrightarrow> untouched F C t'"
  by (auto simp: untouched_def insert_claim_def select_item_def update_stock_def update_wallet_def update_where_def
      tx_insert_order_def insert_ledger_def insert_ledger_row_def tx_insert_event_def ledger_rows_def Let_def
      bind_res_Inr_iff split: if_splits)

lemma keeps_untouched [simp]:
  "q_case q \<in> C \<Longrightarrow> keeps (untouched F C) (statement fault n (insert_claim q))"
  "keeps (untouched F C) (statement fault n (select_item c))"
  "keeps (untouched F C) (statement fault n (update_stock p h))"
  "keeps (untouched F C) (statement fault n (update_wallet p' k))"
  "t_case x \<in> C \<Longrightarrow> keeps (untouched F C) (statement fault n (tx_insert_order x))"
  "t_case x \<in> C \<Longrightarrow> keeps (untouched F C) (statement fault n (insert_ledger ids x phase))"
  "t_case x \<in> C \<Longrightarrow> keeps (untouched F C) (statement fault n (tx_insert_event i x phase))"
  subgoal by (rule keeps_statement) (erule untouched_steps(1); assumption)
  subgoal by (rule keeps_statement) (erule untouched_steps(2); assumption)
  subgoal by (rule keeps_statement) (erule untouched_steps(3); assumption)
  subgoal by (rule keeps_statement) (erule untouched_steps(4); assumption)
  subgoal by (rule keeps_statement) (erule untouched_steps(5); assumption)
  subgoal by (rule keeps_statement) (erule untouched_steps(6); assumption)
  subgoal by (rule keeps_statement) (erule untouched_steps(7); assumption)
  done

lemma claim_key_session: "snd (claim_key digest a pol req x) = (if pol = Protected \<or> pol = Unchecked_Replay
   then snd (statement (a_fault a) St_Claim (insert_claim \<lparr>q_case = p_case req, q_key = p_key req,
    q_fingerprint = fingerprint digest req, q_order = a_oid a\<rparr>) x) else x)"
  by (auto simp: claim_key_def split: prod.splits sum.splits tx_exn.splits)

lemma keeps_claim: "p_case req \<in> C \<Longrightarrow> keeps (untouched F C) (claim_key digest a pol req)"
  using keeps_untouched(1) [of "\<lparr>q_case = p_case req, q_key = p_key req, q_fingerprint = fingerprint digest req,
    q_order = a_oid a\<rparr>" C F "a_fault a" St_Claim]
  by (simp add: keeps_def claim_key_session)

lemma keeps_take_stock: "keeps (untouched F C) (take_stock a pol req item)"
  by (auto simp: take_stock_def Let_def intro!: keeps_bind)

lemma keeps_purchase_body: "p_case req \<in> C \<Longrightarrow> keeps (untouched F C) (purchase_body digest a pol f req)"
  unfolding purchase_body_def after_stock_def Let_def
  by (intro keeps_bind keeps_claim keeps_untouched(2)) (auto intro!: keeps_bind keeps_take_stock split: option.splits)

lemma keeps_refund_body: "keeps (untouched F UNIV) (refund_body a stale locked c oid)"
proof -
  have r: "keeps (untouched F UNIV) (statement fault n (\<lambda>t. Inr (g t, t)))" for fault n and g :: "tables \<Rightarrow> 'b"
    by (rule keeps_statement) simp
  have w: "keeps (untouched F UNIV) (statement fault n (\<lambda>t. Inr ((), t\<lparr>s_orders := h t\<rparr>)))" for fault n h
    by (rule keeps_statement) (auto simp: untouched_def)
  show ?thesis unfolding refund_body_def
    by (rule keeps_bind, rule r) (auto intro!: keeps_bind w split: option.splits)
qed

lemma keeps_start:
  assumes "keeps p m" and "p d"
  shows "p (x_durable (snd (m \<lparr>x_durable = d, x_work = d\<rparr>)))" and "p (x_work (snd (m \<lparr>x_durable = d, x_work = d\<rparr>)))"
  using assms by (auto simp: keeps_def)

lemma purchase_once_untouched:
  "p_case req \<in> C \<Longrightarrow> untouched F C d \<Longrightarrow> untouched F C (snd (purchase_once digest a pol f lose req d))"
  using keeps_start [OF keeps_purchase_body, of req C F d digest a pol f]
  by (auto simp: purchase_once_def split: prod.splits sum.splits commit.splits)

lemma purchase_tries_untouched:
  "p_case req \<in> C \<Longrightarrow> untouched F C d \<Longrightarrow> untouched F C (snd (purchase_tries digest tries pol f lose req d))"
proof (induction tries arbitrary: d)
  case (Cons a rest)
  obtain r d1 where o1: "purchase_once digest a pol f lose req d = (r, d1)" by fastforce
  have "untouched F C d1" using purchase_once_untouched [OF Cons.prems, of digest a pol f lose] o1 by simp
  then show ?case using Cons.IH [OF Cons.prems(1)] o1
    by (auto split: sum.splits tx_exn.splits option.splits)
qed simp

lemma try_purchase_untouched:
  "p_case req \<in> C \<Longrightarrow> untouched F C d \<Longrightarrow> untouched F C (snd (try_purchase digest tries pol f lose req d))"
  using purchase_tries_untouched [of req C F d digest "case tries of (a, b, c) \<Rightarrow> [a, b, c]" pol f lose]
  by (auto simp: try_purchase_def purchase_op_def split: prod.splits sum.splits tx_outcome.splits)

lemma first_order_untouched:
  "p_case req \<in> C \<Longrightarrow> untouched F C d \<Longrightarrow> untouched F C (snd (first_order digest tries req d))"
  using purchase_tries_untouched [of req C F d digest "case tries of (a, b, c) \<Rightarrow> [a, b, c]" Protected None False]
  by (auto simp: first_order_def purchase_op_def split: prod.splits sum.splits tx_outcome.splits)

lemma try_refund_untouched: "untouched F UNIV d \<Longrightarrow> untouched F UNIV (snd (try_refund a stale locked c oid d))"
  using keeps_start [OF keeps_refund_body, of F d a stale locked c oid]
  by (auto simp: try_refund_def refund_def split: prod.splits sum.splits commit.splits bool.splits if_splits)

lemma run_clients_keeps: "(\<And>i d. p d \<Longrightarrow> p (snd (f i d))) \<Longrightarrow> p d \<Longrightarrow> p (snd (run_clients f js d))"
proof (induction js arbitrary: d)
  case (Cons i js)
  obtain r d1 where "f i d = (r, d1)" by fastforce
  then show ?case using Cons.prems(1) [OF Cons.prems(2), of i] Cons.IH [OF Cons.prems(1), of d1]
    by (auto split: prod.splits)
qed simp

lemma parallel_Inr:
  assumes "parallel n js f d = (Inr outs, d')" and "\<And>i d. p d \<Longrightarrow> p (snd (f i d))" and "p d"
  shows "p d' \<and> length outs = n"
  using assms run_clients_keeps [of p f d js] by (auto simp: parallel_def split: prod.splits if_splits)

lemma drill_step_Inr: "drill_step f d = (Inr r, d') \<longleftrightarrow> f d = (r, d')"
  by (auto simp: drill_step_def split: prod.splits)

lemma bind_drill:
  "bind_eff m f s = (Inr y, s') \<longleftrightarrow> (\<exists>x s1. m s = (Inr x, s1) \<and> f x s1 = (Inr y, s'))"
  by (auto simp: bind_eff_def split: prod.splits sum.splits)

lemma take_snapshot_Inr:
  "take_snapshot c d = (Inr s, d') \<longleftrightarrow> d' = d \<and> case_text c \<and> within_budget (snapshot c d) \<and> s = snapshot c d"
  by (auto simp: take_snapshot_def snapshot_op_def tx_error_def)

lemma observe_Inr:
  "observe digest c outs claims d = (Inr row, d') \<longleftrightarrow> d' = d \<and> case_text c \<and> within_budget (snapshot c d)
     \<and> (\<exists>a. audit digest claims (snapshot c d) = Inr a \<and>
          row = \<lparr>ev_case = c, ev_outcomes = outs, ev_snapshot = snapshot c d, ev_audit = a, ev_unchanged = None,
            ev_retry = None, ev_recovered = None\<rparr>)"
  by (auto simp: observe_def bind_drill take_snapshot_Inr bind_res_Inr_iff)

section \<open>Fixtures\<close>

definition owners_ok :: "tables \<Rightarrow> bool" where
  "owners_ok t \<longleftrightarrow> (\<forall>(c, w, n)\<in>set (snd (fixtures t)). w = u ''buyer'' \<or> w = u ''merchant'')"

definition planted :: "int \<Rightarrow> int \<Rightarrow> int \<Rightarrow> ustr \<Rightarrow> fixture \<Rightarrow> bool" where
  "planted clients seed stock c F \<longleftrightarrow> filter (\<lambda>r. fst r = c) (fst F) = [(c, stock, drill_price seed)]
     \<and> set (filter (\<lambda>r. fst r = c) (snd F)) = {(c, u ''buyer'', balance_of clients seed), (c, u ''merchant'', 0)}"

lemma seeded:
  assumes "seed_drill clients seed c stock d = (Inr r, d')" and "owners_ok d"
  shows "planted clients seed stock c (fixtures d')" and "owners_ok d'" and "row_cases d' = row_cases d"
    and "fst ` set (fst (fixtures d')) = insert c (fst ` set (fst (fixtures d)))"
    and "c \<notin> fst ` set (fst (fixtures d))"
proof -
  have s: "seed_case c stock (balance_of clients seed) (drill_price seed) d = Inr d'"
    using assms(1) by (auto simp: seed_drill_def split: sum.splits)
  have w: "w_case w \<noteq> c" if "w \<in> set (s_wallets d)" for w
  proof -
    have "w_owner w = u ''buyer'' \<or> w_owner w = u ''merchant''" using assms(2) that by (auto simp: owners_ok_def fixtures_def)
    then show ?thesis using s that by (auto simp: seed_case_def split: if_splits)
  qed
  have i: "c \<notin> iv_case ` set (s_inventory d)" using s by (auto simp: seed_case_def split: if_splits)
  have d': "fixtures d' = (fst (fixtures d) @ [(c, stock, drill_price seed)],
      snd (fixtures d) @ [(c, u ''buyer'', balance_of clients seed), (c, u ''merchant'', 0)])" "row_cases d' = row_cases d"
    using s by (auto simp: seed_case_def fixtures_def row_cases_def split: if_splits)
  have no: "filter (\<lambda>r. fst r = c) (fst (fixtures d)) = []" "filter (\<lambda>r. fst r = c) (snd (fixtures d)) = []"
    using w i by (auto simp: filter_empty_conv fixtures_def)
  show "planted clients seed stock c (fixtures d')" by (simp add: planted_def d' no)
  show "owners_ok d'" using assms(2) by (auto simp: owners_ok_def d')
  show "row_cases d' = row_cases d" by (rule d')
  show "fst ` set (fst (fixtures d')) = insert c (fst ` set (fst (fixtures d)))" by (simp add: d')
  show "c \<notin> fst ` set (fst (fixtures d))" using i by (auto simp: fixtures_def)
qed

lemma owners_fixtures: "fixtures t = fixtures t' \<Longrightarrow> owners_ok t \<Longrightarrow> owners_ok t'"
  by (simp add: owners_ok_def)

lemma planted_rows:
  assumes "planted clients seed (if scenario = ''stock-race'' then 1 else clients + 4) c (fixtures d)"
  shows "fixture_ok scenario clients seed (snapshot c d)" and "funding_ok clients seed (snapshot c d)"
proof -
  have f: "map (\<lambda>r. (iv_case r, iv_initial r, iv_price r)) (filter (\<lambda>r. iv_case r = c) (s_inventory d))
      = [(c, if scenario = ''stock-race'' then 1 else clients + 4, drill_price seed)]"
    using assms by (simp add: planted_def fixtures_def filter_map comp_def)
  then obtain r where r: "filter (\<lambda>r. iv_case r = c) (s_inventory d) = [r]"
    "iv_initial r = (if scenario = ''stock-race'' then 1 else clients + 4)" "iv_price r = drill_price seed" by auto
  show "fixture_ok scenario clients seed (snapshot c d)"
    unfolding fixture_ok_def snapshot_def tables.select_convs r(1) by (simp add: r)
  have "(\<lambda>w. (w_owner w, w_initial w)) ` set (filter (\<lambda>r. w_case r = c) (s_wallets d))
      = snd ` set (filter (\<lambda>r. fst r = c) (snd (fixtures d)))"
    by (force simp: fixtures_def)
  then show "funding_ok clients seed (snapshot c d)"
    using assms by (simp add: funding_ok_def snapshot_def planted_def)
qed

section \<open>Evidence\<close>

definition sound_row :: "(pv \<Rightarrow> ustr) \<Rightarrow> string \<Rightarrow> int \<Rightarrow> int \<Rightarrow> ustr \<Rightarrow> evidence \<Rightarrow> bool" where
  "sound_row digest scenario clients seed c row \<longleftrightarrow> ev_case row = c
     \<and> audit digest (claims_of scenario c) (ev_snapshot row) = Inr (ev_audit row)
     \<and> fixture_ok scenario clients seed (ev_snapshot row) \<and> funding_ok clients seed (ev_snapshot row) \<and> ev_outcomes row \<noteq> []"

definition sound_body :: "(pv \<Rightarrow> ustr) \<Rightarrow> string \<Rightarrow> int \<Rightarrow> int \<Rightarrow> (bool \<Rightarrow> (evidence \<times> bool, tables) eff) \<Rightarrow> bool" where
  "sound_body digest scenario clients seed body \<longleftrightarrow> (\<forall>safe d row ok d'. body safe d = (Inr (row, ok), d') \<and> owners_ok d \<longrightarrow>
     owners_ok d' \<and> sound_row digest scenario clients seed (u (label safe)) row \<and> (safe \<and> ok \<longrightarrow> clean_row row))"

lemma observed:
  assumes seed: "seed_drill clients seed c (if scenario = ''stock-race'' then 1 else clients + 4) d = (Inr r, d1)" "owners_ok d"
    and kept: "untouched (fixtures d1) C d2"
    and obs: "observe digest c outs claims d2 = (Inr row, d3)"
    and "claims = claims_of scenario c" and "outs \<noteq> []"
  shows "owners_ok d3 \<and> d3 = d2 \<and> sound_row digest scenario clients seed c row \<and> ev_outcomes row = outs"
proof -
  have f: "fixtures d2 = fixtures d1" using kept by (simp add: untouched_def)
  have p: "planted clients seed (if scenario = ''stock-race'' then 1 else clients + 4) c (fixtures d2)" "owners_ok d2"
    using seeded(1,2) [OF seed] f owners_fixtures [OF f [symmetric]] by simp_all
  show ?thesis using obs assms(5,6) p(2) planted_rows [OF p(1)] by (auto simp: observe_Inr sound_row_def)
qed

lemma untouched_start: "untouched (fixtures d) UNIV d" by (simp add: untouched_def)

lemma step_untouched:
  "drill_step (try_purchase digest tries pol f lose req) d = (Inr r, d') \<Longrightarrow> p_case req \<in> C \<Longrightarrow> untouched F C d \<Longrightarrow> untouched F C d'"
  using try_purchase_untouched [of req C F d digest tries pol f lose] by (simp add: drill_step_Inr)

lemma claims_label:
  "claims_of scenario (u (label safe)) \<longleftrightarrow> safe \<or> scenario \<in> {''refund-race'', ''idempotency-conflict''}"
  by (simp add: claims_of_def starts_with_def label_def u_def)

lemma stock_race_sound:
  assumes "2 \<le> clients" shows "sound_body digest ''stock-race'' clients seed (stock_race digest env clients seed)"
  unfolding sound_body_def
proof (intro allI impI, elim conjE)
  fix safe d row ok d'
  assume run: "stock_race digest env clients seed safe d = (Inr (row, ok), d')" and own: "owners_ok d"
  let ?c = "u (label safe)"
  let ?f = "\<lambda>i. try_purchase digest (de_tries env ?c i) (if safe then Protected else Stale_Stock) None False
    \<lparr>p_case = ?c, p_key = u ''request-'' @ nat_text i, p_quantity = 1\<rparr>"
  from run obtain d1 outs d2 where seed: "seed_drill clients seed ?c 1 d = (Inr (), d1)"
    and par: "parallel (nat clients) (de_order env ?c) ?f d1 = (Inr outs, d2)"
    and obs: "observe digest ?c outs safe d2 = (Inr row, d')" and ok: "safe \<and> ok \<longrightarrow> clean_row row"
    by (auto simp: stock_race_def Let_def bind_drill)
  have "untouched (fixtures d1) UNIV d2 \<and> length outs = nat clients"
    by (rule parallel_Inr [OF par]) (auto intro: try_purchase_untouched simp: untouched_start)
  moreover from this have "outs \<noteq> []" using assms by (cases outs) auto
  ultimately show "owners_ok d' \<and> sound_row digest ''stock-race'' clients seed ?c row \<and> (safe \<and> ok \<longrightarrow> clean_row row)"
    using observed [of clients seed ?c "''stock-race''" d "()" d1 UNIV d2 digest outs safe row d'] seed own obs ok assms
    by (auto simp: claims_label)
qed

lemma duplicate_sound:
  assumes "2 \<le> clients" shows "sound_body digest ''duplicate-checkout'' clients seed (duplicate_checkout digest env clients seed)"
  unfolding sound_body_def
proof (intro allI impI, elim conjE)
  fix safe d row ok d'
  assume run: "duplicate_checkout digest env clients seed safe d = (Inr (row, ok), d')" and own: "owners_ok d"
  let ?c = "u (label safe)"
  let ?f = "\<lambda>i. try_purchase digest (de_tries env ?c i) (if safe then Protected else No_Claim) None False
    \<lparr>p_case = ?c, p_key = u ''same-key'', p_quantity = 1\<rparr>"
  from run obtain d1 outs d2 where seed: "seed_drill clients seed ?c (clients + 4) d = (Inr (), d1)"
    and par: "parallel (nat clients) (de_order env ?c) ?f d1 = (Inr outs, d2)"
    and obs: "observe digest ?c outs safe d2 = (Inr row, d')" and ok: "safe \<and> ok \<longrightarrow> clean_row row"
    by (auto simp: duplicate_checkout_def Let_def bind_drill)
  have "untouched (fixtures d1) UNIV d2 \<and> length outs = nat clients"
    by (rule parallel_Inr [OF par]) (auto intro: try_purchase_untouched simp: untouched_start)
  moreover from this have "outs \<noteq> []" using assms by (cases outs) auto
  ultimately show "owners_ok d' \<and> sound_row digest ''duplicate-checkout'' clients seed ?c row \<and> (safe \<and> ok \<longrightarrow> clean_row row)"
    using observed [of clients seed ?c "''duplicate-checkout''" d "()" d1 UNIV d2 digest outs safe row d'] seed own obs ok assms
    by (auto simp: claims_label)
qed

lemma refund_race_sound:
  assumes "2 \<le> clients" shows "sound_body digest ''refund-race'' clients seed (refund_race digest env clients seed)"
  unfolding sound_body_def
proof (intro allI impI, elim conjE)
  fix safe d row ok d'
  assume run: "refund_race digest env clients seed safe d = (Inr (row, ok), d')" and own: "owners_ok d"
  let ?c = "u (label safe)"
  from run obtain d1 x d2 outs d3 where seed: "seed_drill clients seed ?c (clients + 4) d = (Inr (), d1)"
    and fst: "first_order digest (de_tries env ?c 0) \<lparr>p_case = ?c, p_key = u ''same-key'', p_quantity = 1\<rparr> d1 = (Inr x, d2)"
    and par: "parallel (nat clients) (de_order env ?c)
      (\<lambda>i. try_refund (fst (de_refund env ?c i)) (snd (de_refund env ?c i)) safe ?c (t_id x)) d2 = (Inr outs, d3)"
    and obs: "observe digest ?c outs True d3 = (Inr row, d')" and ok: "safe \<and> ok \<longrightarrow> clean_row row"
    by (auto simp: refund_race_def Let_def bind_drill)
  have "untouched (fixtures d1) UNIV d2"
    using first_order_untouched [OF _ untouched_start, of _ d1 digest "de_tries env ?c 0"] fst by (metis UNIV_I snd_conv)
  then have "untouched (fixtures d1) UNIV d3 \<and> length outs = nat clients"
    by (intro parallel_Inr [OF par]) (auto intro: try_refund_untouched)
  moreover from this have "outs \<noteq> []" using assms by (cases outs) auto
  ultimately show "owners_ok d' \<and> sound_row digest ''refund-race'' clients seed ?c row \<and> (safe \<and> ok \<longrightarrow> clean_row row)"
    using observed [of clients seed ?c "''refund-race''" d "()" d1 UNIV d3 digest outs True row d'] seed own obs ok assms
    by (auto simp: claims_label)
qed

lemma reconcile_Inr: "reconcile digest safe req d = (Inr x, d') \<Longrightarrow> d' = d"
  by (simp add: reconcile_def)

lemma ambiguity_sound: "sound_body digest ''commit-ambiguity'' clients seed (commit_ambiguity digest env clients seed)"
  unfolding sound_body_def
proof (intro allI impI, elim conjE)
  fix safe d row ok d'
  assume run: "commit_ambiguity digest env clients seed safe d = (Inr (row, ok), d')" and own: "owners_ok d"
  let ?c = "u (label safe)" and ?p = "if safe then Protected else No_Claim"
  let ?r = "\<lparr>p_case = ?c, p_key = u ''same-key'', p_quantity = 1\<rparr>"
  from run obtain d1 r1 d2 r2 d3 where seed: "seed_drill clients seed ?c (clients + 4) d = (Inr (), d1)"
    and s1: "drill_step (try_purchase digest (de_tries env ?c 0) ?p None True ?r) d1 = (Inr r1, d2)"
    and s2: "drill_step (try_purchase digest (de_tries env ?c 1) ?p None False ?r) d2 = (Inr r2, d3)"
    and obs: "observe digest ?c [r1, r2] safe d3 = (Inr row, d')" and ok: "safe \<and> ok \<longrightarrow> clean_row row"
    by (auto simp: commit_ambiguity_def Let_def bind_drill take_snapshot_Inr dest!: reconcile_Inr)
  have "untouched (fixtures d1) UNIV d3"
    by (intro step_untouched [OF s2] step_untouched [OF s1] untouched_start UNIV_I)
  then show "owners_ok d' \<and> sound_row digest ''commit-ambiguity'' clients seed ?c row \<and> (safe \<and> ok \<longrightarrow> clean_row row)"
    using observed [of clients seed ?c "''commit-ambiguity''" d "()" d1 UNIV d3 digest "[r1, r2]" safe row d'] seed own obs ok
    by (auto simp: claims_label)
qed

lemma conflict_sound: "sound_body digest ''idempotency-conflict'' clients seed (idempotency_conflict digest env clients seed)"
  unfolding sound_body_def
proof (intro allI impI, elim conjE)
  fix safe d row ok d'
  assume run: "idempotency_conflict digest env clients seed safe d = (Inr (row, ok), d')" and own: "owners_ok d"
  let ?c = "u (label safe)" and ?p = "if safe then Protected else Unchecked_Replay"
  let ?r = "\<lambda>n. \<lparr>p_case = ?c, p_key = u ''same-key'', p_quantity = n\<rparr>"
  from run obtain d1 r1 d2 r2 d3 where seed: "seed_drill clients seed ?c (clients + 4) d = (Inr (), d1)"
    and s1: "drill_step (try_purchase digest (de_tries env ?c 0) Protected None False (?r 1)) d1 = (Inr r1, d2)"
    and s2: "drill_step (try_purchase digest (de_tries env ?c 1) ?p None False (?r 2)) d2 = (Inr r2, d3)"
    and obs: "observe digest ?c [r1, r2] True d3 = (Inr row, d')" and ok: "safe \<and> ok \<longrightarrow> clean_row row"
    by (auto simp: idempotency_conflict_def Let_def bind_drill take_snapshot_Inr)
  have "untouched (fixtures d1) UNIV d3"
    by (intro step_untouched [OF s2] step_untouched [OF s1] untouched_start UNIV_I)
  then show "owners_ok d' \<and> sound_row digest ''idempotency-conflict'' clients seed ?c row \<and> (safe \<and> ok \<longrightarrow> clean_row row)"
    using observed [of clients seed ?c "''idempotency-conflict''" d "()" d1 UNIV d3 digest "[r1, r2]" True row d'] seed own obs ok
    by (auto simp: claims_label)
qed

definition settled :: "tables \<Rightarrow> bool" where
  "settled t \<longleftrightarrow> owners_ok t \<and> row_cases t \<subseteq> fst ` set (fst (fixtures t))"

lemma buyer_first: "sort_key w_owner [\<lparr>w_case = c, w_owner = u ''buyer'', w_initial = b, w_balance = b\<rparr>,
     \<lparr>w_case = c, w_owner = u ''merchant'', w_initial = m, w_balance = m\<rparr>]
   = [\<lparr>w_case = c, w_owner = u ''buyer'', w_initial = b, w_balance = b\<rparr>,
     \<lparr>w_case = c, w_owner = u ''merchant'', w_initial = m, w_balance = m\<rparr>]"
  by (simp add: u_def)

lemma fresh_snapshot:
  assumes "seed_drill clients seed c stock d = (Inr r, d')" and "settled d"
  shows "snapshot c d' = no_tables\<lparr>s_inventory := [\<lparr>iv_case = c, iv_initial = stock, iv_available = stock,
       iv_price = drill_price seed\<rparr>],
     s_wallets := [\<lparr>w_case = c, w_owner = u ''buyer'', w_initial = balance_of clients seed, w_balance = balance_of clients seed\<rparr>,
       \<lparr>w_case = c, w_owner = u ''merchant'', w_initial = 0, w_balance = 0\<rparr>]\<rparr>"
    and "0 \<le> stock \<and> 1 \<le> drill_price seed \<and> 0 \<le> balance_of clients seed"
proof -
  have s: "seed_case c stock (balance_of clients seed) (drill_price seed) d = Inr d'"
    using assms(1) by (auto simp: seed_drill_def split: sum.splits)
  have own: "owners_ok d" and sub: "row_cases d \<subseteq> fst ` set (fst (fixtures d))" using assms(2) by (auto simp: settled_def)
  have c: "c \<notin> row_cases d" using seeded(5) [OF assms(1) own] sub by auto
  have w: "filter (\<lambda>r. w_case r = c) (s_wallets d) = []" "filter (\<lambda>r. iv_case r = c) (s_inventory d) = []"
    using s own by (auto simp: seed_case_def filter_empty_conv owners_ok_def fixtures_def split: if_splits)
  have n: "filter (\<lambda>r. q_case r = c) (s_requests d) = []" "filter (\<lambda>r. t_case r = c) (s_orders d) = []"
    "filter (\<lambda>r. l_case r = c) (s_ledger d) = []" "filter (\<lambda>r. e_case r = c) (s_events d) = []"
    using c by (auto simp: filter_empty_conv row_cases_def)
  have d': "d' = d\<lparr>s_inventory := s_inventory d @ [\<lparr>iv_case = c, iv_initial = stock, iv_available = stock, iv_price = drill_price seed\<rparr>],
                  s_wallets := s_wallets d @ [\<lparr>w_case = c, w_owner = u ''buyer'', w_initial = balance_of clients seed, w_balance = balance_of clients seed\<rparr>,
                    \<lparr>w_case = c, w_owner = u ''merchant'', w_initial = 0, w_balance = 0\<rparr>]\<rparr>"
    "0 \<le> stock \<and> 1 \<le> drill_price seed \<and> 0 \<le> balance_of clients seed"
    using s by (auto simp: seed_case_def split: if_splits)
  show "snapshot c d' = no_tables\<lparr>s_inventory := [\<lparr>iv_case = c, iv_initial = stock, iv_available = stock,
       iv_price = drill_price seed\<rparr>],
     s_wallets := [\<lparr>w_case = c, w_owner = u ''buyer'', w_initial = balance_of clients seed, w_balance = balance_of clients seed\<rparr>,
       \<lparr>w_case = c, w_owner = u ''merchant'', w_initial = 0, w_balance = 0\<rparr>]\<rparr>"
    unfolding snapshot_def d'(1) using w n buyer_first [of c "balance_of clients seed" 0] by (simp add: no_tables_def)
  show "0 \<le> stock \<and> 1 \<le> drill_price seed \<and> 0 \<le> balance_of clients seed" by (rule d')
qed

lemma fresh_passes:
  assumes "seed_drill clients seed c stock d = (Inr r, d')" and "settled d"
    and "audit digest claims (snapshot c d') = Inr a"
  shows "rp_passed a"
  using assms(3) fresh_snapshot(2) [OF assms(1,2)] unfolding fresh_snapshot(1) [OF assms(1,2)]
  by (auto simp: audit_def no_tables_def Let_def dict_of_def global_checks_def wallet_checks_def check_def stock_sold_def max_rows_def)

definition recovered_row :: "(pv \<Rightarrow> ustr) \<Rightarrow> bool \<Rightarrow> evidence \<Rightarrow> bool" where
  "recovered_row digest ok row \<longleftrightarrow> (case ev_recovered row of None \<Rightarrow> False | Some (s, a) \<Rightarrow> audit digest True s = Inr a
     \<and> (ok \<longrightarrow> ev_unchanged row = Some True \<and> map_option kind (ev_retry row) = Some ''created'' \<and> rp_passed a \<and> clean_row row))"

lemma settled_untouched:
  "settled d \<Longrightarrow> untouched (fixtures d) (fst ` set (fst (fixtures d))) d' \<Longrightarrow> settled d'"
  by (auto simp: settled_def untouched_def owners_ok_def)

lemma claims_rollback: "claims_of ''checkout-rollback'' (u (label safe @ s)) \<longleftrightarrow> safe"
  by (simp add: claims_of_def starts_with_def label_def u_def)

lemma rollback_sound:
  assumes run: "rollback_case digest env clients seed f safe d = (Inr (row, ok), d')" and start: "settled d"
  shows "settled d' \<and> sound_row digest ''checkout-rollback'' clients seed (u (label safe @ ''-'' @ failpoint_name f)) row
    \<and> (safe \<longrightarrow> recovered_row digest ok row)"
proof -
  let ?c = "u (label safe @ ''-'' @ failpoint_name f)" and ?p = "if safe then Protected else Split_Commit"
  let ?r = "\<lparr>p_case = ?c, p_key = u ''retry-same-key'', p_quantity = 1\<rparr>"
  have own: "owners_ok d" using start by (simp add: settled_def)
  from run obtain d1 r1 d2 row0 d3 where seed: "seed_drill clients seed ?c (clients + 4) d = (Inr (), d1)"
    and s1: "drill_step (try_purchase digest (de_tries env ?c 0) ?p (Some f) False ?r) d1 = (Inr r1, d2)"
    and obs: "observe digest ?c [r1] safe d2 = (Inr row0, d3)"
    and unsafe: "\<not> safe \<Longrightarrow> d' = d3 \<and> row = row0\<lparr>ev_unchanged := Some (snapshot ?c d1 = ev_snapshot row0)\<rparr>"
    and safe: "safe \<Longrightarrow> \<exists>again a. drill_step (try_purchase digest (de_tries env ?c 1) Protected None False ?r) d3 = (Inr again, d')
      \<and> audit digest True (snapshot ?c d') = Inr a
      \<and> row = row0\<lparr>ev_unchanged := Some (snapshot ?c d1 = ev_snapshot row0), ev_retry := Some again,
          ev_recovered := Some (snapshot ?c d', a)\<rparr>
      \<and> (ok \<longrightarrow> snapshot ?c d1 = ev_snapshot row0 \<and> kind again = ''created'' \<and> rp_passed a)"
    by (cases safe; clarsimp simp: rollback_case_def Let_def bind_drill take_snapshot_Inr; rule that, assumption, assumption, assumption; fastforce)
  have [simp]: "d3 = d2" using obs by (simp add: observe_Inr)
  let ?F = "fixtures d1" and ?C = "fst ` set (fst (fixtures d1))"
  have c: "?c \<in> ?C" unfolding seeded(4) [OF seed own] by (rule insertI1)
  have "settled d1" using seeded(2,3,4) [OF seed own] start by (auto simp: settled_def)
  then have u1: "untouched ?F ?C d1" by (simp add: untouched_def settled_def)
  have u2: "untouched ?F ?C d2" by (rule step_untouched [OF s1 _ u1]) (simp only: purchase.select_convs c)
  have obs2: "owners_ok d3 \<and> d3 = d2 \<and> sound_row digest ''checkout-rollback'' clients seed ?c row0 \<and> ev_outcomes row0 = [r1]"
    by (rule observed [OF _ own u2 obs]) (use seed in \<open>simp_all add: claims_rollback\<close>)
  show ?thesis
  proof (cases safe)
    case False
    then show ?thesis using unsafe obs2 settled_untouched [OF \<open>settled d1\<close> u2] by (simp add: sound_row_def)
  next
    case True
    then obtain again a where again: "drill_step (try_purchase digest (de_tries env ?c 1) Protected None False ?r) d2 = (Inr again, d')"
      and a: "audit digest True (snapshot ?c d') = Inr a"
      and row: "row = row0\<lparr>ev_unchanged := Some (snapshot ?c d1 = ev_snapshot row0), ev_retry := Some again,
          ev_recovered := Some (snapshot ?c d', a)\<rparr>"
      and ok: "ok \<longrightarrow> snapshot ?c d1 = ev_snapshot row0 \<and> kind again = ''created'' \<and> rp_passed a"
      using safe by auto
    have "untouched ?F ?C d'" by (rule step_untouched [OF again _ u2]) (simp only: purchase.select_convs c)
    moreover have "rp_passed (ev_audit row0)" if "snapshot ?c d1 = ev_snapshot row0"
      using fresh_passes [OF seed start] obs2 that by (auto simp: sound_row_def)
    ultimately show ?thesis using True obs2 settled_untouched [OF \<open>settled d1\<close>] a ok
      by (auto simp: row sound_row_def recovered_row_def clean_row_def)
  qed
qed

section \<open>The host accepts the evidence of a run\<close>

lemma starts_protected:
  "starts_with (u ''protected'') (u (label safe @ s)) \<longleftrightarrow> safe" "starts_with (u ''protected'') (u (label safe)) \<longleftrightarrow> safe"
  by (simp_all add: starts_with_def label_def u_def)

lemma verify_row_ok:
  assumes "sound_row digest scenario clients seed c row"
    and "starts_with (u ''protected'') c \<Longrightarrow> scenario = ''checkout-rollback'' \<Longrightarrow> recovered_row digest (status = ''passed'') row"
    and "starts_with (u ''protected'') c \<Longrightarrow> status = ''passed'' \<Longrightarrow> clean_row row"
  shows "verify_row digest scenario clients seed status row = Inr ()"
  using assms by (auto simp: verify_row_def sound_row_def recovered_row_def clean_row_def require_def split: option.splits)

lemma verify_rows_ok: "(\<And>r. r \<in> set rs \<Longrightarrow> f r = Inr ()) \<Longrightarrow> verify_rows f rs = Inr ()"
  by (induction rs) auto

lemma both_sound:
  assumes "both body d = (Inr r, d')" and "owners_ok d" and "sound_body digest scenario clients seed body"
  shows "\<exists>r1 r2. fst r = [r1, r2] \<and> sound_row digest scenario clients seed (u (label False)) r1
    \<and> sound_row digest scenario clients seed (u (label True)) r2 \<and> (snd (snd r) \<longrightarrow> clean_row r2)"
proof -
  from assms(1) obtain p1 d1 p2 where r: "r = ([fst p1, fst p2], snd p1, snd p2)"
    and b: "body False d = (Inr p1, d1)" "body True d1 = (Inr p2, d')"
    by (auto simp: both_def bind_drill)
  have s: "owners_ok d2' \<and> sound_row digest scenario clients seed (u (label safe)) (fst p) \<and> (safe \<and> snd p \<longrightarrow> clean_row (fst p))"
    if "body safe d1' = (Inr p, d2')" and "owners_ok d1'" for safe d1' p d2'
    using assms(3) that by (cases p) (auto simp: sound_body_def)
  show ?thesis using s [OF b(1) assms(2)] s [OF b(2)] by (simp add: r)
qed

lemma recovered_mono: "recovered_row digest ok row \<Longrightarrow> (ok' \<Longrightarrow> ok) \<Longrightarrow> recovered_row digest ok' row"
  by (auto simp: recovered_row_def split: option.splits)

lemma boundaries_sound:
  "boundaries (rollback_case digest env clients seed) fs d = (Inr r, d') \<Longrightarrow> settled d \<Longrightarrow>
     map ev_case (fst r) = concat (map (\<lambda>f. [u (''unsafe-'' @ failpoint_name f), u (''protected-'' @ failpoint_name f)]) fs)
     \<and> (\<forall>row\<in>set (fst r). \<exists>safe s. sound_row digest ''checkout-rollback'' clients seed (u (label safe @ s)) row
          \<and> (safe \<longrightarrow> recovered_row digest (snd (snd r)) row))"
proof (induction fs arbitrary: d r)
  case (Cons f fs)
  from Cons.prems(1) obtain p1 d1 p2 d2 rest where
    b: "rollback_case digest env clients seed f False d = (Inr p1, d1)" "rollback_case digest env clients seed f True d1 = (Inr p2, d2)"
    and rest: "boundaries (rollback_case digest env clients seed) fs d2 = (Inr rest, d')"
    and r: "r = ([fst p1, fst p2] @ fst rest, snd p1 \<and> fst (snd rest), snd p2 \<and> snd (snd rest))"
    by (auto simp: both_def bind_drill)
  have s1: "settled d1 \<and> sound_row digest ''checkout-rollback'' clients seed (u (label False @ ''-'' @ failpoint_name f)) (fst p1)"
    using rollback_sound [of digest env clients seed f False d "fst p1" "snd p1" d1] b(1) Cons.prems(2) by simp
  then have s2: "settled d2 \<and> sound_row digest ''checkout-rollback'' clients seed (u (label True @ ''-'' @ failpoint_name f)) (fst p2)
     \<and> recovered_row digest (snd p2) (fst p2)"
    using rollback_sound [of digest env clients seed f True d1 "fst p2" "snd p2" d2] b(2) by simp
  have ih: "map ev_case (fst rest) = concat (map (\<lambda>f. [u (''unsafe-'' @ failpoint_name f), u (''protected-'' @ failpoint_name f)]) fs)"
    "\<forall>row\<in>set (fst rest). \<exists>safe s. sound_row digest ''checkout-rollback'' clients seed (u (label safe @ s)) row
          \<and> (safe \<longrightarrow> recovered_row digest (snd (snd rest)) row)"
    using Cons.IH [OF rest] s2 by blast+
  have rows: "\<exists>safe s. sound_row digest ''checkout-rollback'' clients seed (u (label safe @ s)) row
          \<and> (safe \<longrightarrow> recovered_row digest (snd (snd r)) row)" if row: "row \<in> set (fst r)" for row
  proof -
    consider "row = fst p1" | "row = fst p2" | "row \<in> set (fst rest)" using row by (auto simp: r)
    then show ?thesis
    proof cases
      case 1 then show ?thesis using s1 by blast
    next
      case 2
      have "recovered_row digest (snd (snd r)) row" using s2 unfolding 2 by (rule_tac recovered_mono [of digest "snd p2"]) (auto simp: r)
      then show ?thesis using s2 unfolding 2 by blast
    next
      case 3
      then obtain safe s where x: "sound_row digest ''checkout-rollback'' clients seed (u (label safe @ s)) row"
        "safe \<longrightarrow> recovered_row digest (snd (snd rest)) row" using ih(2) by blast
      have "safe \<longrightarrow> recovered_row digest (snd (snd r)) row" using x(2) recovered_mono by (auto simp: r)
      then show ?thesis using x(1) by blast
    qed
  qed
  have "ev_case (fst p1) = u (''unsafe-'' @ failpoint_name f)" "ev_case (fst p2) = u (''protected-'' @ failpoint_name f)"
    using s1 s2 by (auto simp: sound_row_def label_def)
  then show ?case using rows by (auto simp: r ih(1))
qed simp

lemma bodies_sound:
  assumes "drill_cases digest env scenario clients seed no_tables = (Inr r, d')" and "options scenario clients seed = Inr ()"
    and "scenario \<noteq> ''checkout-rollback''"
  shows "\<exists>body. both body no_tables = (Inr r, d') \<and> sound_body digest scenario clients seed body"
proof -
  have "2 \<le> clients" "scenario \<in> set scenarios" using assms(2) by (auto simp: options_def split: if_splits)
  note b = stock_race_sound [OF this(1)] duplicate_sound [OF this(1)] refund_race_sound [OF this(1)] ambiguity_sound conflict_sound
  have "scenario = ''stock-race'' \<or> scenario = ''duplicate-checkout'' \<or> scenario = ''checkout-rollback''
    \<or> scenario = ''commit-ambiguity'' \<or> scenario = ''idempotency-conflict'' \<or> scenario = ''refund-race''"
    using \<open>scenario \<in> set scenarios\<close> unfolding scenarios_def list.set insert_iff empty_iff by (simp only: simp_thms)
  then show ?thesis
  proof (elim disjE)
    assume s: "scenario = ''stock-race''"
    show ?thesis unfolding s by (rule exI, rule conjI [OF _ b(1)]) (use assms(1) s in \<open>simp add: drill_cases_def\<close>)
  next
    assume s: "scenario = ''duplicate-checkout''"
    show ?thesis unfolding s by (rule exI, rule conjI [OF _ b(2)]) (use assms(1) s in \<open>simp add: drill_cases_def\<close>)
  next
    assume "scenario = ''checkout-rollback''"
    then show ?thesis using assms(3) by (rule notE [rotated])
  next
    assume s: "scenario = ''commit-ambiguity''"
    show ?thesis unfolding s by (rule exI, rule conjI [OF _ b(4)]) (use assms(1) s in \<open>simp add: drill_cases_def\<close>)
  next
    assume s: "scenario = ''idempotency-conflict''"
    show ?thesis unfolding s by (rule exI, rule conjI [OF _ b(5)]) (use assms(1) s in \<open>simp add: drill_cases_def\<close>)
  next
    assume s: "scenario = ''refund-race''"
    show ?thesis unfolding s by (rule exI, rule conjI [OF _ b(3)]) (use assms(1) s in \<open>simp add: drill_cases_def\<close>)
  qed
qed

lemma rows_verify:
  assumes "drill_cases digest env scenario clients seed no_tables = (Inr r, d')" and "options scenario clients seed = Inr ()"
    and "status = ''passed'' \<Longrightarrow> snd (snd r)"
  shows "map ev_case (fst r) = expected_cases scenario
    \<and> verify_rows (verify_row digest scenario clients seed status) (fst r) = Inr ()"
proof (cases "scenario = ''checkout-rollback''")
  case True
  have b: "boundaries (rollback_case digest env clients seed) failpoints no_tables = (Inr r, d')"
    using assms(1) by (simp add: drill_cases_def True)
  have "settled no_tables" by (simp add: settled_def owners_ok_def fixtures_def row_cases_def no_tables_def)
  note facts = boundaries_sound [OF b this]
  have "verify_row digest scenario clients seed status row = Inr ()" if row: "row \<in> set (fst r)" for row
  proof -
    obtain safe s where x: "sound_row digest scenario clients seed (u (label safe @ s)) row"
      "safe \<longrightarrow> recovered_row digest (snd (snd r)) row" using facts row unfolding True by blast
    then have "safe \<longrightarrow> recovered_row digest (status = ''passed'') row" using assms(3) recovered_mono by blast
    then show ?thesis using verify_row_ok [OF x(1)] unfolding starts_protected
      by (auto simp: recovered_row_def split: option.splits)
  qed
  then show ?thesis using facts verify_rows_ok by (simp add: expected_cases_def True)
next
  case False
  obtain body where body: "both body no_tables = (Inr r, d')" "sound_body digest scenario clients seed body"
    using bodies_sound [OF assms(1,2) False] by blast
  have "owners_ok no_tables" by (simp add: owners_ok_def fixtures_def no_tables_def)
  then obtain r1 r2 where x: "fst r = [r1, r2]" "sound_row digest scenario clients seed (u (label False)) r1"
    "sound_row digest scenario clients seed (u (label True)) r2" "snd (snd r) \<longrightarrow> clean_row r2"
    using both_sound [OF body(1) _ body(2)] by blast
  have "verify_row digest scenario clients seed status r1 = Inr ()"
    by (rule verify_row_ok [OF x(2)]) (simp_all only: starts_protected simp_thms False)
  moreover have "verify_row digest scenario clients seed status r2 = Inr ()"
    using x(4) assms(3) False by (intro verify_row_ok [OF x(3)]) auto
  ultimately show ?thesis using x(1-3) False by (simp add: expected_cases_def sound_row_def label_def)
qed


text \<open>A run in which the server is lost at every statement of a checkout still leaves verifiable evidence.\<close>

definition lost_env :: drill_env where
  "lost_env = (let a = \<lparr>a_oid = [], a_ledger_ids = ([], []), a_event_id = [], a_fault = (\<lambda>_. Some 2013), a_commit = Commit_ok,
       a_stale = None\<rparr>
     in \<lparr>de_tries = (\<lambda>c i. (a, a, a)), de_refund = (\<lambda>c i. (a, None)), de_order = (\<lambda>c. [1, 0])\<rparr>)"

lemma lost_checkout:
  "pol = Protected \<or> pol = Unchecked_Replay \<Longrightarrow> try_purchase digest (de_tries lost_env c i) pol None False req d = (O_Error, d)"
  by (auto simp: try_purchase_def purchase_op_def lost_env_def Let_def purchase_once_def purchase_body_def bind_eff_def
      claim_key_def statement_def attempt_error_def)

lemma fresh_audit:
  assumes "seed_drill clients seed c stock d = (Inr r, d')" and "settled d"
  shows "\<exists>a. audit digest claims (snapshot c d') = Inr a"
  using fresh_snapshot(2) [OF assms] unfolding fresh_snapshot(1) [OF assms]
  by (auto simp: audit_def no_tables_def Let_def dict_of_def max_rows_def)

lemma seeded_settled: "seed_drill clients seed c stock d = (Inr r, d') \<Longrightarrow> settled d \<Longrightarrow> settled d'"
  using seeded [of clients seed c stock d r d'] by (simp add: settled_def subset_insertI2)

lemma lost_case:
  assumes seed: "seed_drill 2 42 (u (label safe)) 6 d = (Inr (), d')" and "settled d"
  shows "\<exists>row. idempotency_conflict digest lost_env 2 42 safe d = (Inr (row, False), d') \<and> ev_outcomes row = [O_Error, O_Error]"
proof -
  let ?c = "u (label safe)" and ?p = "if safe then Protected else Unchecked_Replay"
  have "case_text ?c" using seed by (auto simp: seed_drill_def seed_case_def split: if_splits sum.splits)
  moreover have "within_budget (snapshot ?c d')"
    unfolding fresh_snapshot(1) [OF assms] by (simp add: within_budget_def no_tables_def max_rows_def)
  moreover obtain a where a: "audit digest True (snapshot ?c d') = Inr a" using fresh_audit [OF assms] by blast
  ultimately show ?thesis
    using seed lost_checkout [of Protected] lost_checkout [of ?p]
    by (simp add: idempotency_conflict_def Let_def bind_eff_def drill_step_def take_snapshot_def snapshot_op_def observe_def
        bind_res_def kind_def)
qed

lemma lost_run: "\<exists>v d. drill_run digest lost_env 5 ''idempotency-conflict'' 2 42 no_tables = (Inr v, d) \<and> dr_status v = ''failed''"
proof -
  have s0: "settled no_tables" by (simp add: settled_def owners_ok_def fixtures_def row_cases_def no_tables_def)
  obtain d1 where d1: "seed_drill 2 42 (u (label False)) 6 no_tables = (Inr (), d1)" "iv_case ` set (s_inventory d1) = {u ''unsafe''}"
    "w_case ` set (s_wallets d1) = {u ''unsafe''}"
    by (auto simp: seed_drill_def seed_case_def no_tables_def case_text_def class_match_def is_lower_def u_def label_def
        balance_of_def drill_price_def)
  have s1: "settled d1" by (rule seeded_settled [OF d1(1) s0])
  have new: "case_text (u ''protected'')" by (simp add: u_def case_text_def class_match_def is_lower_def)
  have "\<not> (w_case w = u ''protected'')" if "w \<in> set (s_wallets d1)" for w
  proof -
    have "w_case w \<in> w_case ` set (s_wallets d1)" using that by (rule imageI)
    then show ?thesis unfolding d1(3) by simp
  qed
  then obtain d2 where d2: "seed_drill 2 42 (u (label True)) 6 d1 = (Inr (), d2)"
    using new d1(2) by (auto simp: seed_drill_def seed_case_def label_def balance_of_def drill_price_def)
  obtain r1 r2 where "idempotency_conflict digest lost_env 2 42 False no_tables = (Inr (r1, False), d1)"
    "idempotency_conflict digest lost_env 2 42 True d1 = (Inr (r2, False), d2)"
    using lost_case [OF d1(1) s0] lost_case [OF d2 s1] by blast
  then show ?thesis
    by (simp add: drill_run_def drill_plan_of_def options_def scenarios_def max_clients_def drill_cases_def both_def
        bind_eff_def drill_status_def Let_def)
qed


end
