(* ===== verification/Wire.thy ===== *)
theory Wire
  imports Prelude
begin

text \<open>
  What the programs read and write on the wire: UTF-8 bytes, base64 as
  \<open>base64.b64encode\<close> and the strict \<open>base64.b64decode(..., validate=True)\<close> compute it, and
  \<open>json.loads\<close> with an \<open>object_pairs_hook\<close> and a \<open>parse_constant\<close>. The scanner of the JSON
  grammar is an argument (\<open>scan\<close>): it delivers the tree of the text before any hook ran, in text
  order and with a \<open>J_Bad\<close> leaf where the text stops being JSON, and whether text follows the value.
\<close>

section \<open>Bytes\<close>

definition is_bytes :: "bytes \<Rightarrow> bool" where
  "is_bytes b \<longleftrightarrow> list_all (\<lambda>x. x < 256) b"

lemma utf8_ascii: "list_all (\<lambda>c. c < 128) s \<Longrightarrow> utf8 s = s"
  by (induction s) (simp_all add: utf8_def utf8_char_def)

text \<open>\<open>bytes.decode("ascii")\<close>\<close>

definition ascii_decode :: "bytes \<Rightarrow> ustr res" where
  "ascii_decode b = (if list_all (\<lambda>x. x < 128) b then Inr b else Inl (Value_Error ''UnicodeDecodeError''))"

section \<open>Base64\<close>

definition b64_char :: "nat \<Rightarrow> nat" where
  "b64_char n = (if n < 26 then 65 + n else if n < 52 then 71 + n else if n < 62 then n - 4
     else if n = 62 then 43 else 47)"

definition b64_val :: "nat \<Rightarrow> nat option" where
  "b64_val c = (if 65 \<le> c \<and> c \<le> 90 then Some (c - 65) else if 97 \<le> c \<and> c \<le> 122 then Some (c - 71)
     else if 48 \<le> c \<and> c \<le> 57 then Some (c + 4) else if c = 43 then Some 62 else if c = 47 then Some 63 else None)"

fun b64encode :: "bytes \<Rightarrow> ustr" where
  "b64encode [] = []"
| "b64encode [a] = [b64_char (a div 4), b64_char (a mod 4 * 16), 61, 61]"
| "b64encode [a, b] = [b64_char (a div 4), b64_char (a mod 4 * 16 + b div 16), b64_char (b mod 16 * 4), 61]"
| "b64encode (a # b # c # r) = b64_char (a div 4) # b64_char (a mod 4 * 16 + b div 16)
     # b64_char (b mod 16 * 4 + c div 64) # b64_char (c mod 64) # b64encode r"

fun b64decode :: "ustr \<Rightarrow> bytes option" where
  "b64decode [] = Some []"
| "b64decode (a # b # c # d # r) = (case (b64_val a, b64_val b) of
       (Some x, Some y) \<Rightarrow>
         if c = 61 then (if d = 61 \<and> r = [] then Some [(x * 4 + y div 16) mod 256] else None)
         else (case b64_val c of None \<Rightarrow> None | Some z \<Rightarrow>
           if d = 61 then (if r = [] then Some [x * 4 + y div 16, y mod 16 * 16 + z div 4] else None)
           else (case (b64_val d, b64decode r) of
               (Some w, Some bs) \<Rightarrow> Some ((x * 4 + y div 16) # (y mod 16 * 16 + z div 4) # (z mod 4 * 64 + w) # bs)
             | _ \<Rightarrow> None))
     | _ \<Rightarrow> None)"
| "b64decode _ = None"

lemma b64_val_char [simp]: "n < 64 \<Longrightarrow> b64_val (b64_char n) = Some n"
  by (auto simp: b64_val_def b64_char_def)

lemma b64_char_pad [simp]: "n < 64 \<Longrightarrow> b64_char n \<noteq> 61"
  by (auto simp: b64_char_def)

lemma split_digit: "q < k \<Longrightarrow> (r * k + q) div k = r \<and> (r * k + q) mod k = (q :: nat)"
  by (simp add: add.commute)

lemma sextets:
  assumes "a < 256" "b < (256 :: nat)"
  shows "a div 4 < 64" "a mod 4 * 16 + b div 16 < 64" "b mod 16 * 4 + a div 64 < 64"
    "(a mod 4 * 16 + b div 16) div 16 = a mod 4" "(a mod 4 * 16 + b div 16) mod 16 = b div 16"
    "(b mod 16 * 4 + a div 64) div 4 = b mod 16" "(b mod 16 * 4 + a div 64) mod 4 = a div 64"
proof -
  have q: "a div 4 < 64" "b div 16 < 16" "a div 64 < 4" using assms by (auto intro: less_mult_imp_div_less)
  have r: "a mod 4 < 4" "b mod 16 < 16" by simp_all
  show "a div 4 < 64" by (rule q)
  show "a mod 4 * 16 + b div 16 < 64" "b mod 16 * 4 + a div 64 < 64" using q r by linarith+
  show "(a mod 4 * 16 + b div 16) div 16 = a mod 4" "(a mod 4 * 16 + b div 16) mod 16 = b div 16"
    "(b mod 16 * 4 + a div 64) div 4 = b mod 16" "(b mod 16 * 4 + a div 64) mod 4 = a div 64"
    using split_digit [OF q(2)] split_digit [OF q(3)] by blast+
qed

lemma b64decode_encode: "is_bytes bs \<Longrightarrow> b64decode (b64encode bs) = Some bs"
proof (induction bs rule: b64encode.induct)
  case (2 a)
  then have "a < 256" by (simp add: is_bytes_def)
  then have "a div 4 < 64" by (auto intro: less_mult_imp_div_less)
  moreover have "a mod 4 * 16 < 64" using mod_less_divisor [of 4 a] by linarith
  moreover have "a mod 4 * 16 div 16 = a mod 4" by simp
  ultimately show ?case using \<open>a < 256\<close> by simp
next
  case (3 a b)
  then have ab: "a < 256" "b < 256" by (simp_all add: is_bytes_def)
  have "b mod 16 * 4 < 64" "b mod 16 * 4 div 4 = b mod 16" using mod_less_divisor [of 16 b] by (linarith, simp)
  with sextets [OF ab] show ?case by simp
next
  case (4 a b c r)
  then have ab: "a < 256" "b < 256" and c: "c < 256" and r: "is_bytes r" by (simp_all add: is_bytes_def)
  have "c mod 64 < 64" by simp
  with sextets [OF ab] sextets [OF c ab(2)] 4 r show ?case by simp
qed simp

lemma b64encode_length: "length (b64encode bs) = (length bs + 2) div 3 * 4"
proof (induction bs rule: b64encode.induct)
  case (4 a b c r)
  have "(length (a # b # c # r) + 2) div 3 = (length r + 2) div 3 + 1" by simp
  with 4 show ?case by simp
qed auto

section \<open>JSON input\<close>

text \<open>\<open>J_Const\<close> is \<open>NaN\<close>, \<open>Infinity\<close> or \<open>-Infinity\<close>; \<open>J_Overflow\<close> a number literal whose float is infinite.\<close>

datatype jt =
    J_None
  | J_Bool bool
  | J_Int int
  | J_Float rat
  | J_Overflow
  | J_Const
  | J_Str ustr
  | J_List "jt list"
  | J_Obj "(ustr \<times> jt) list"
  | J_Bad

type_synonym scanner = "bytes \<Rightarrow> jt \<times> bool"

fun sequence :: "'a res list \<Rightarrow> 'a list res" where
  "sequence [] = Inr []"
| "sequence (r # rs) = bind_res r (\<lambda>x. bind_res (sequence rs) (\<lambda>xs. Inr (x # xs)))"

text \<open>The hooks run as the values close, so the first to raise is the first in the text.\<close>

fun hooked :: "exn \<Rightarrow> exn \<Rightarrow> exn \<Rightarrow> jt \<Rightarrow> pv res" where
  "hooked dup const bad J_None = Inr PNone"
| "hooked dup const bad (J_Bool b) = Inr (PBool b)"
| "hooked dup const bad (J_Int n) = Inr (PInt n)"
| "hooked dup const bad (J_Float r) = Inr (PFloat r)"
| "hooked dup const bad J_Overflow = Inr PNonFinite"
| "hooked dup const bad J_Const = Inl const"
| "hooked dup const bad (J_Str s) = Inr (PStr s)"
| "hooked dup const bad (J_List ts) = bind_res (sequence (map (hooked dup const bad) ts)) (\<lambda>vs. Inr (PList vs))"
| "hooked dup const bad (J_Obj items) = bind_res (sequence (map (\<lambda>(k, t). hooked dup const bad t) items)) (\<lambda>vs.
     if distinct (map fst items) then Inr (PDict (zip (map fst items) vs)) else Inl dup)"
| "hooked dup const bad J_Bad = Inl bad"

definition loads_hooked :: "exn \<Rightarrow> exn \<Rightarrow> exn \<Rightarrow> jt \<times> bool \<Rightarrow> pv res" where
  "loads_hooked dup const bad r = bind_res (hooked dup const bad (fst r)) (\<lambda>v. if snd r then Inl bad else Inr v)"

text \<open>The tree of a value that was written without repeated keys.\<close>

fun tree_of :: "pv \<Rightarrow> jt" where
  "tree_of PNone = J_None"
| "tree_of (PBool b) = J_Bool b"
| "tree_of (PInt n) = J_Int n"
| "tree_of (PFloat r) = J_Float r"
| "tree_of PNonFinite = J_Overflow"
| "tree_of (PStr s) = J_Str s"
| "tree_of (PList vs) = J_List (map tree_of vs)"
| "tree_of (PDict d) = J_Obj (map (\<lambda>(k, v). (k, tree_of v)) d)"

fun dict_keys_ok :: "pv \<Rightarrow> bool" where
  "dict_keys_ok (PList vs) = list_all dict_keys_ok vs"
| "dict_keys_ok (PDict d) = (distinct (map fst d) \<and> list_all (\<lambda>(k, v). dict_keys_ok v) d)"
| "dict_keys_ok _ = True"

lemma sequence_map_Inr [simp]: "sequence (map Inr xs) = Inr xs"
  by (induction xs) (simp_all add: bind_res_def)

lemma sequence_Inr: "sequence rs = Inr xs \<longleftrightarrow> rs = map Inr xs"
proof
  show "sequence rs = Inr xs \<Longrightarrow> rs = map Inr xs"
    by (induction rs arbitrary: xs) (auto simp: bind_res_def split: sum.splits)
qed simp

lemma hooked_tree_of: "dict_keys_ok v \<Longrightarrow> hooked dup const bad (tree_of v) = Inr v"
proof (induction v)
  case (PList vs)
  then have "sequence (map (hooked dup const bad) (map tree_of vs)) = Inr vs"
    by (auto simp: sequence_Inr list_all_iff)
  then show ?case by (simp add: bind_res_def)
next
  case (PDict d)
  have "hooked dup const bad (tree_of v) = Inr v" if "(k, v) \<in> set d" for k v
    using PDict that by (force simp: list_all_iff)
  then have "sequence (map (\<lambda>(k, t). hooked dup const bad t) (map (\<lambda>(k, v). (k, tree_of v)) d)) = Inr (map snd d)"
    by (auto simp: sequence_Inr)
  moreover have "map fst (map (\<lambda>(k, v). (k, tree_of v)) d) = map fst d" by (induction d) auto
  ultimately show ?case using PDict by (simp add: bind_res_def zip_map_fst_snd del: map_map)
qed auto

lemma sequence_InrE:
  assumes "sequence rs = Inr xs"
  shows "length rs = length xs" "i < length xs \<Longrightarrow> rs ! i = Inr (xs ! i)"
  using assms by (auto simp: sequence_Inr)

lemma hooked_keys_ok: "hooked dup const bad t = Inr v \<Longrightarrow> dict_keys_ok v"
proof (induction t arbitrary: v)
  case (J_List ts)
  then obtain vs where vs: "map (hooked dup const bad) ts = map Inr vs" "v = PList vs"
    by (auto simp: bind_res_def sequence_Inr split: sum.splits)
  have "dict_keys_ok w" if w: "w \<in> set vs" for w
  proof -
    have "Inr w \<in> hooked dup const bad ` set ts" using vs(1) w by (metis image_eqI list.set_map)
    then show ?thesis using J_List.IH by force
  qed
  then show ?case by (simp add: vs(2) list_all_iff)
next
  case (J_Obj items)
  then obtain vs where vs: "map (\<lambda>(k, t). hooked dup const bad t) items = map Inr vs"
    and d: "distinct (map fst items)" "v = PDict (zip (map fst items) vs)"
    by (auto simp: bind_res_def sequence_Inr split: sum.splits if_splits)
  have len: "length items = length vs" using vs by (metis length_map)
  have "dict_keys_ok w" if w: "w \<in> set vs" for w
  proof -
    have "Inr w \<in> (\<lambda>(k, t). hooked dup const bad t) ` set items" using vs w by (metis image_eqI list.set_map)
    then show ?thesis using J_Obj.IH by force
  qed
  then show ?case using d len by (auto simp: list_all_iff dest: set_zip_rightD)
qed auto

end
