(* ===== verification/Message_Safety.thy ===== *)
theory Message_Safety
  imports Projection Wire
begin

text \<open>
  \<open>mvp-lab/mvp_app/message_safety.py\<close> and \<open>observability.py\<close>: which failures of a consumed
  record are permanent, the quarantine envelope and its check, the repair of a quarantined event
  from the SQL rows, and the order of the effects of \<open>process_record\<close>. The SHA-256 of bytes
  (\<open>sha\<close>) and of canonical JSON text (\<open>sha_json\<close>, on its normal form), \<open>uuid.uuid5\<close> and the JSON
  scanner are arguments; the search index, the cache, the commit of the source offset, the
  quarantine topic and the checkpoints are the callbacks the caller passes.
\<close>

section \<open>Diagnostics\<close>

datatype error_code = Code_Int int | Code_Str string

text \<open>What \<open>safe_error\<close> keeps of an exception, without the name of its class.\<close>

record diagnostic =
  dg_code :: "error_code option"
  dg_category :: "string option"
  dg_status :: "int option"
  dg_type :: "ustr option"

definition es_types :: "ustr list" where
  "es_types = map u [''mapper_parsing_exception'', ''strict_dynamic_mapping_exception'',
     ''unavailable_shards_exception'', ''index_not_found_exception'', ''version_conflict_engine_exception'',
     ''cluster_block_exception'', ''es_rejected_execution_exception'', ''illegal_argument_exception'',
     ''resource_already_exists_exception'', ''security_exception'']"

definition sql_category :: "int \<Rightarrow> string option" where
  "sql_category n = map_of [(1045, ''authentication''), (1205, ''lock_wait_timeout''), (1213, ''deadlock''),
     (2003, ''connection''), (2006, ''connection_lost''), (2013, ''connection_lost'')] n"

definition code_text :: "string \<Rightarrow> bool" where
  "code_text c \<longleftrightarrow> class_match (\<lambda>x. is_lower x \<or> is_digit x \<or> x = 95) 1 80 (u c)"

definition error_code :: "exn \<Rightarrow> error_code option" where
  "error_code e = (case e of
       Problem _ c \<Rightarrow> if code_text c then Some (Code_Str c) else None
     | Sql_Error n \<Rightarrow> Some (Code_Int n)
     | _ \<Rightarrow> None)"

definition safe_error :: "exn \<Rightarrow> diagnostic" where
  "safe_error e = \<lparr>dg_code = error_code e,
     dg_category = (case error_code e of Some (Code_Int n) \<Rightarrow> sql_category n | _ \<Rightarrow> None),
     dg_status = (case e of Http_Error status _ \<Rightarrow> Some status | _ \<Rightarrow> None),
     dg_type = (case e of Http_Error _ kind \<Rightarrow> Some (case kind of
          Some k \<Rightarrow> if k \<in> set es_types then k else u ''unclassified_http_error''
        | None \<Rightarrow> u ''unclassified_http_error'') | _ \<Rightarrow> None)\<rparr>"

section \<open>Scope\<close>

record scope =
  sc_project :: ustr
  sc_run :: ustr
  sc_token :: ustr

definition max_message :: nat where "max_message = 32 * 1024"

definition project_text :: "ustr \<Rightarrow> bool" where
  "project_text s \<longleftrightarrow> s = u ''db-lab-mvp'' \<or> starts_with (u ''db-lab-mvp-'') s
     \<and> class_match (\<lambda>c. is_lower c \<or> is_digit c \<or> c = 45) 1 24 (drop 11 s)"

definition run_text :: "ustr \<Rightarrow> bool" where
  "run_text s \<longleftrightarrow> starts_with (u ''msg-'') s \<and> class_match is_hex_lower 24 24 (drop 4 s)"

definition valid_scope :: "scope \<Rightarrow> unit res" where
  "valid_scope s = (if \<not> project_text (sc_project s) then Inl (Value_Error ''Invalid message lab project'')
     else if \<not> run_text (sc_run s) \<or> \<not> class_match is_hex_lower 32 32 (sc_token s)
     then Inl (Value_Error ''Invalid message lab run or ownership token'') else Inr ())"

definition scope_suffix :: "(bytes \<Rightarrow> ustr) \<Rightarrow> scope \<Rightarrow> ustr" where
  "scope_suffix sha s = take 10 (sha (utf8 (sc_project s))) @ u ''-'' @ drop 4 (sc_run s)"

definition scope_topic :: "(bytes \<Rightarrow> ustr) \<Rightarrow> scope \<Rightarrow> ustr" where
  "scope_topic sha s = u ''mvp.study.'' @ scope_suffix sha s @ u ''.events''"

definition scope_dlq :: "(bytes \<Rightarrow> ustr) \<Rightarrow> scope \<Rightarrow> ustr" where
  "scope_dlq sha s = u ''mvp.study.'' @ scope_suffix sha s @ u ''.dlq''"

definition scope_group :: "(bytes \<Rightarrow> ustr) \<Rightarrow> scope \<Rightarrow> ustr" where
  "scope_group sha s = u ''mvp.study.'' @ scope_suffix sha s @ u ''.consumer''"

definition scope_index :: "(bytes \<Rightarrow> ustr) \<Rightarrow> scope \<Rightarrow> ustr" where
  "scope_index sha s = u ''mvp-study-'' @ scope_suffix sha s"

definition scope_cache_prefix :: "(bytes \<Rightarrow> ustr) \<Rightarrow> scope \<Rightarrow> ustr" where
  "scope_cache_prefix sha s = u ''mvp:study:'' @ scope_suffix sha s @ u '':''"

definition scope_public :: "(bytes \<Rightarrow> ustr) \<Rightarrow> scope \<Rightarrow> pdict" where
  "scope_public sha s = [(u ''project'', PStr (sc_project s)), (u ''run_id'', PStr (sc_run s)),
     (u ''topic'', PStr (scope_topic sha s)), (u ''dlq'', PStr (scope_dlq sha s)),
     (u ''group'', PStr (scope_group sha s)), (u ''index'', PStr (scope_index sha s)),
     (u ''cache_prefix'', PStr (scope_cache_prefix sha s))]"

section \<open>Decoding\<close>

text \<open>A missing value (a tombstone) is \<open>None\<close>.\<close>

definition decode :: "(ustr \<Rightarrow> bool) \<Rightarrow> scanner \<Rightarrow> bytes option \<Rightarrow> pdict res" where
  "decode iso_ok scan raw = (case raw of
       None \<Rightarrow> Inl (Problem 422 ''invalid_event_size'')
     | Some b \<Rightarrow>
         if b = [] \<or> max_message < length b then Inl (Problem 422 ''invalid_event_size'')
         else bind_res (loads_hooked (Problem 422 ''duplicate_json_key'') (Problem 422 ''nonfinite_json_number'')
                          (Problem 422 ''invalid_event_json'') (scan b)) (\<lambda>event.
              bind_res (validate_event iso_ok event) (\<lambda>_.
              case event of PDict d \<Rightarrow> Inr d | _ \<Rightarrow> Inl Type_Error)))"

definition event_order_dict :: "pdict \<Rightarrow> pdict" where
  "event_order_dict event = (case dget event ''order'' of PDict d \<Rightarrow> d | _ \<Rightarrow> [])"

definition decode_record :: "(ustr \<Rightarrow> bool) \<Rightarrow> scanner \<Rightarrow> bytes option \<Rightarrow> bytes option \<Rightarrow> pdict res" where
  "decode_record iso_ok scan key raw = bind_res (decode iso_ok scan raw) (\<lambda>event.
     if key \<noteq> Some (utf8 (str_of (dget (event_order_dict event) ''id'')))
     then Inl (Problem 422 ''event_key_mismatch'') else Inr event)"

datatype stage = Decode | Project

definition mapping_errors :: "ustr list" where
  "mapping_errors = map u [''mapper_parsing_exception'', ''strict_dynamic_mapping_exception'']"

definition permanent_reason :: "exn \<Rightarrow> stage \<Rightarrow> ustr option" where
  "permanent_reason e st = (case st of
       Decode \<Rightarrow> (case e of Problem status code \<Rightarrow> if status \<in> {400, 422} then Some (u code) else None | _ \<Rightarrow> None)
     | Project \<Rightarrow> (case e of
         Problem _ code \<Rightarrow> if code = ''event_version_payload_conflict'' then Some (u code) else None
       | _ \<Rightarrow> if dg_status (safe_error e) = Some 400
           then (case dg_type (safe_error e) of Some k \<Rightarrow> if k \<in> set mapping_errors then Some k else None | None \<Rightarrow> None)
           else None))"

section \<open>The quarantine envelope\<close>

fun encodable_json :: "pv \<Rightarrow> bool" where
  "encodable_json (PStr s) = utf8_encodable s"
| "encodable_json (PList vs) = list_all encodable_json vs"
| "encodable_json (PDict d) = list_all (\<lambda>(k, v). utf8_encodable k \<and> encodable_json v) d"
| "encodable_json _ = True"

definition canonical_text :: "pv \<Rightarrow> pv res" where
  "canonical_text v = (if \<not> finite_json v then Inl (Value_Error ''not JSON compliant'')
     else if \<not> encodable_json v then Inl (Value_Error ''UnicodeEncodeError'') else Inr (canon v))"

definition quarantine_record ::
  "(bytes \<Rightarrow> ustr) \<Rightarrow> (pv \<Rightarrow> ustr) \<Rightarrow> scope \<Rightarrow> ustr \<Rightarrow> pdict \<Rightarrow> bytes option \<Rightarrow> bytes option \<Rightarrow> pv \<Rightarrow> pdict res" where
  "quarantine_record sha sha_json s topic_id position key raw reason =
     (if topic_id = [] \<or> dget position ''topic'' \<noteq> PStr (scope_topic sha s)
         \<or> \<not> leaf_eq (dget position ''partition'') (PInt 0)
         \<or> (case dget position ''offset'' of PInt n \<Rightarrow> n < 0 | _ \<Rightarrow> True)
      then Inl (Value_Error ''Foreign or invalid source position'')
      else (case raw of None \<Rightarrow> Inl (Value_Error ''Cannot preserve oversized message; leave source offset uncommitted'')
      | Some raw \<Rightarrow>
        if max_message < length raw
        then Inl (Value_Error ''Cannot preserve oversized message; leave source offset uncommitted'')
        else (case key of None \<Rightarrow> Inl (Value_Error ''Missing or oversized key; no automatic repair'')
        | Some key \<Rightarrow>
          if 128 < length key then Inl (Value_Error ''Missing or oversized key; no automatic repair'')
          else let source = pdict_put ''topic_id'' (PStr topic_id) position;
                   ident = PDict [(u ''scope'', PStr (scope_suffix sha s)), (u ''source'', PDict source),
                     (u ''raw_sha256'', PStr (sha raw)), (u ''key_sha256'', PStr (sha key))]
               in bind_res (canonical_text ident) (\<lambda>c. Inr
                 [(u ''schema'', PInt 1), (u ''run_id'', PStr (sc_run s)), (u ''owner'', PStr (sc_token s)),
                  (u ''dlq_id'', PStr (sha_json c)), (u ''source'', PDict source), (u ''reason'', reason),
                  (u ''raw_sha256'', PStr (sha raw)), (u ''raw_b64'', PStr (b64encode raw)),
                  (u ''key_b64'', PStr (b64encode key))]))))"

text \<open>\<open>d[k]\<close> and \<open>base64.b64decode(d[k], validate=True)\<close>; every failure is a malformed envelope.\<close>

definition subscript :: "pv \<Rightarrow> string \<Rightarrow> pv res" where
  "subscript v k = (case v of PDict d \<Rightarrow> (case map_of d (u k) of None \<Rightarrow> Inl Key_Error | Some w \<Rightarrow> Inr w)
     | _ \<Rightarrow> Inl Type_Error)"

text \<open>A value used as a string, and \<open>v.get(k, default)\<close>.\<close>

definition as_text :: "pv \<Rightarrow> ustr res" where
  "as_text v = (case v of PStr s \<Rightarrow> Inr s | _ \<Rightarrow> Inl Type_Error)"

lemma as_text_Inr: "as_text v = Inr i \<longleftrightarrow> v = PStr i"
  by (cases v) (auto simp: as_text_def)

definition get_or :: "pv \<Rightarrow> pv \<Rightarrow> string \<Rightarrow> pv res" where
  "get_or w v k = (case v of PDict d \<Rightarrow> Inr (dget_or w d k) | _ \<Rightarrow> Inl (Other_Error ''AttributeError''))"

definition b64_field :: "pv \<Rightarrow> bytes res" where
  "b64_field v = (case v of PStr s \<Rightarrow> (case b64decode s of None \<Rightarrow> Inl (Value_Error ''binascii.Error'') | Some b \<Rightarrow> Inr b)
     | _ \<Rightarrow> Inl Type_Error)"

definition rebuild ::
  "(bytes \<Rightarrow> ustr) \<Rightarrow> (pv \<Rightarrow> ustr) \<Rightarrow> scope \<Rightarrow> ustr \<Rightarrow> pv \<Rightarrow> ((bytes \<times> bytes) \<times> pdict) res" where
  "rebuild sha sha_json s topic_id rec =
     bind_res (subscript rec ''raw_b64'') (\<lambda>v. bind_res (b64_field v) (\<lambda>raw.
     bind_res (subscript rec ''key_b64'') (\<lambda>v. bind_res (b64_field v) (\<lambda>key.
     bind_res (subscript rec ''source'') (\<lambda>source.
     bind_res (subscript source ''topic'') (\<lambda>t. bind_res (subscript source ''partition'') (\<lambda>p.
     bind_res (subscript source ''offset'') (\<lambda>n. bind_res (subscript rec ''reason'') (\<lambda>reason.
     bind_res (quarantine_record sha sha_json s topic_id
         [(u ''topic'', t), (u ''partition'', p), (u ''offset'', n)] (Some key) (Some raw) reason) (\<lambda>r.
     Inr ((key, raw), r)))))))))))"

definition checked_quarantine ::
  "(bytes \<Rightarrow> ustr) \<Rightarrow> (pv \<Rightarrow> ustr) \<Rightarrow> pv \<Rightarrow> scope \<Rightarrow> ustr \<Rightarrow> (bytes \<times> bytes) res" where
  "checked_quarantine sha sha_json rec s topic_id =
     (case rec of PDict d \<Rightarrow>
       if \<not> leaf_eq (dget d ''schema'') (PInt 1) \<or> dget d ''owner'' \<noteq> PStr (sc_token s)
          \<or> dget d ''run_id'' \<noteq> PStr (sc_run s)
       then Inl (Value_Error ''Foreign quarantine envelope'')
       else (case rebuild sha sha_json s topic_id rec of
           Inl _ \<Rightarrow> Inl (Value_Error ''Malformed quarantine envelope'')
         | Inr (pair, expected) \<Rightarrow>
             bind_res (canonical_text (PDict expected)) (\<lambda>a. bind_res (canonical_text rec) (\<lambda>b.
             if a \<noteq> b then Inl (Value_Error ''Quarantine identity/hash mismatch'') else Inr pair)))
     | _ \<Rightarrow> Inl (Value_Error ''Foreign quarantine envelope''))"

definition rebuild_event ::
  "(ustr \<Rightarrow> bool) \<Rightarrow> (pv \<Rightarrow> ustr) \<Rightarrow> (ustr \<Rightarrow> ustr) \<Rightarrow> pv \<Rightarrow> scope \<Rightarrow> order_data \<Rightarrow> pv res" where
  "rebuild_event iso_ok sha_json uuid5 rec s original =
     bind_res (subscript rec ''dlq_id'') (\<lambda>dlq.
     bind_res (canonical_text (PDict (order_value original))) (\<lambda>c.
     let event = PDict [(u ''schema_version'', PInt 1),
           (u ''event_id'', PStr (uuid5 (str_of dlq @ sha_json c))),
           (u ''order'', PDict (order_value original)),
           (u ''repair'', PDict [(u ''dlq_id'', dlq), (u ''basis'', PStr (u ''current_sql'')),
              (u ''run_id'', PStr (sc_run s))])]
     in bind_res (validate_event iso_ok event) (\<lambda>_. Inr event)))"

text \<open>The row of an allow-listed fixture of this run; \<open>stored\<close> is \<open>repo.lookup_key\<close>.\<close>

definition authoritative :: "scope \<Rightarrow> (ustr \<Rightarrow> ustr option) \<Rightarrow> (ustr \<Rightarrow> order_data option) \<Rightarrow> ustr \<Rightarrow> order_data res" where
  "authoritative s allowed stored oid =
     (let outside = Inl (Value_Error ''Repair outside the fixture allowlist of this run'');
          missing = Inl (Value_Error ''Authoritative fixture missing; repair refused'') in
      case allowed oid of None \<Rightarrow> outside
      | Some key \<Rightarrow> if key = [] \<or> \<not> starts_with (sc_run s @ u ''-'') key then outside
          else (case stored key of None \<Rightarrow> missing
          | Some original \<Rightarrow> if o_id original \<noteq> oid then missing else Inr original))"

definition repair_event ::
  "(ustr \<Rightarrow> bool) \<Rightarrow> (bytes \<Rightarrow> ustr) \<Rightarrow> (pv \<Rightarrow> ustr) \<Rightarrow> (ustr \<Rightarrow> ustr) \<Rightarrow> pv \<Rightarrow> scope \<Rightarrow> ustr
     \<Rightarrow> (ustr \<Rightarrow> ustr option) \<Rightarrow> (ustr \<Rightarrow> order_data option) \<Rightarrow> pv res" where
  "repair_event iso_ok sha sha_json uuid5 rec s topic_id allowed stored =
     bind_res (checked_quarantine sha sha_json rec s topic_id) (\<lambda>pair.
     bind_res (ascii_decode (fst pair)) (\<lambda>t. bind_res (order_identifier (PStr t)) (\<lambda>oid.
     bind_res (authoritative s allowed stored oid) (\<lambda>original.
     rebuild_event iso_ok sha_json uuid5 rec s original))))"

section \<open>One record\<close>

record 'w ports =
  pt_index :: "pdict \<Rightarrow> (string, 'w) eff"
  pt_cache_delete :: "ustr \<Rightarrow> (unit, 'w) eff"
  pt_commit :: "(unit, 'w) eff"
  pt_quarantine :: "pdict \<Rightarrow> (pv, 'w) eff"
  pt_checkpoint :: "string \<Rightarrow> (unit, 'w) eff"

datatype msg_exn = Failed exn | Poison_Blocked ustr pdict

datatype msg_result =
    Quarantined ustr pv pv
  | Projected string pv pv pv "diagnostic option"

definition lift_exn :: "('a, 'w) eff \<Rightarrow> 'w \<Rightarrow> (msg_exn + 'a) \<times> 'w" where
  "lift_exn m w = (case m w of (Inl e, w') \<Rightarrow> (Inl (Failed e), w') | (Inr x, w') \<Rightarrow> (Inr x, w'))"

definition reject_record ::
  "(bytes \<Rightarrow> ustr) \<Rightarrow> (pv \<Rightarrow> ustr) \<Rightarrow> scope \<Rightarrow> ustr \<Rightarrow> pdict \<Rightarrow> bytes option \<Rightarrow> bytes option \<Rightarrow> 'w ports \<Rightarrow> string
     \<Rightarrow> exn \<Rightarrow> stage \<Rightarrow> 'w \<Rightarrow> (msg_exn + msg_result) \<times> 'w" where
  "reject_record sha sha_json s topic_id position key raw p policy e st =
     (case permanent_reason e st of None \<Rightarrow> raise_exn (Failed e)
     | Some reason \<Rightarrow>
       if policy = ''strict'' then raise_exn (Poison_Blocked reason position)
       else (case quarantine_record sha sha_json s topic_id position key raw (PStr reason) of
           Inl e' \<Rightarrow> raise_exn (Failed e')
         | Inr rec \<Rightarrow>
             bind_eff (lift_exn (pt_quarantine p rec)) (\<lambda>receipt.
             bind_eff (lift_exn (pt_checkpoint p ''after_dlq_ack'')) (\<lambda>_.
             bind_eff (lift_exn (pt_commit p)) (\<lambda>_.
             ret (Quarantined reason (dget rec ''dlq_id'') receipt))))))"

definition finish_record :: "'w ports \<Rightarrow> pdict \<Rightarrow> string \<Rightarrow> 'w \<Rightarrow> (msg_exn + msg_result) \<times> 'w" where
  "finish_record p event outcome =
     (let order = event_order_dict event in
      bind_eff (lift_exn (pt_checkpoint p ''after_projection'')) (\<lambda>_ w.
      case pt_cache_delete p (str_of (dget order ''id'')) w of (r, w') \<Rightarrow>
      bind_eff (lift_exn (pt_commit p)) (\<lambda>_.
      ret (Projected outcome (dget event ''event_id'') (dget order ''id'') (dget order ''version'')
        (case r of Inl e \<Rightarrow> Some (safe_error e) | Inr _ \<Rightarrow> None))) w'))"

definition process_record ::
  "(ustr \<Rightarrow> bool) \<Rightarrow> scanner \<Rightarrow> (bytes \<Rightarrow> ustr) \<Rightarrow> (pv \<Rightarrow> ustr) \<Rightarrow> scope \<Rightarrow> ustr \<Rightarrow> pdict
     \<Rightarrow> bytes option \<Rightarrow> bytes option \<Rightarrow> 'w ports \<Rightarrow> string \<Rightarrow> 'w \<Rightarrow> (msg_exn + msg_result) \<times> 'w" where
  "process_record iso_ok scan sha sha_json s topic_id position key raw p policy w =
     (if policy \<noteq> ''strict'' \<and> policy \<noteq> ''quarantine''
      then (Inl (Failed (Value_Error ''Unknown message error policy'')), w)
      else (case decode_record iso_ok scan key raw of
          Inl e \<Rightarrow> reject_record sha sha_json s topic_id position key raw p policy e Decode w
        | Inr event \<Rightarrow> (case pt_index p (event_order_dict event) w of
              (Inl e, w') \<Rightarrow> reject_record sha sha_json s topic_id position key raw p policy e Project w'
            | (Inr outcome, w') \<Rightarrow> finish_record p event outcome w')))"

section \<open>Order of the effects\<close>

datatype act =
    Did_index pdict
  | Did_delete ustr
  | Did_commit
  | Did_quarantine pdict
  | Did_checkpoint string

text \<open>A callback that also notes that it ran and whether it returned.\<close>

definition noted :: "act \<Rightarrow> ('a, 'w) eff \<Rightarrow> ('a, (act \<times> bool) list \<times> 'w) eff" where
  "noted a m s = (case m (snd s) of (r, w) \<Rightarrow> (r, (fst s @ [(a, is_ok r)], w)))"

definition noting :: "'w ports \<Rightarrow> ((act \<times> bool) list \<times> 'w) ports" where
  "noting p = \<lparr>pt_index = (\<lambda>order. noted (Did_index order) (pt_index p order)),
     pt_cache_delete = (\<lambda>oid. noted (Did_delete oid) (pt_cache_delete p oid)),
     pt_commit = noted Did_commit (pt_commit p),
     pt_quarantine = (\<lambda>rec. noted (Did_quarantine rec) (pt_quarantine p rec)),
     pt_checkpoint = (\<lambda>name. noted (Did_checkpoint name) (pt_checkpoint p name))\<rparr>"

lemma noting_simps [simp]:
  "pt_index (noting p) order = noted (Did_index order) (pt_index p order)"
  "pt_cache_delete (noting p) oid = noted (Did_delete oid) (pt_cache_delete p oid)"
  "pt_commit (noting p) = noted Did_commit (pt_commit p)"
  "pt_quarantine (noting p) rec = noted (Did_quarantine rec) (pt_quarantine p rec)"
  "pt_checkpoint (noting p) name = noted (Did_checkpoint name) (pt_checkpoint p name)"
  by (simp_all add: noting_def)

lemma lift_noted:
  "lift_exn (noted a m) (tr, w) = (case m w of
     (Inl e, w') \<Rightarrow> (Inl (Failed e), (tr @ [(a, False)], w')) | (Inr x, w') \<Rightarrow> (Inr x, (tr @ [(a, True)], w')))"
  by (auto simp: lift_exn_def noted_def split: prod.splits sum.splits)

lemma some_bool [simp]: "\<exists>x. x" "Ex Not"
  by blast+

text \<open>The traces of a record that is not projected: nothing, or the envelope with its checkpoint and commit.\<close>

definition reject_traces :: "ustr option \<Rightarrow> string \<Rightarrow> (act \<times> bool) list \<Rightarrow> bool" where
  "reject_traces reason policy tr \<longleftrightarrow> tr = [] \<or> policy \<noteq> ''strict'' \<and> reason \<noteq> None \<and> (\<exists>rec.
     tr = [(Did_quarantine rec, False)]
     \<or> tr = [(Did_quarantine rec, True), (Did_checkpoint ''after_dlq_ack'', False)]
     \<or> (\<exists>ok. tr = [(Did_quarantine rec, True), (Did_checkpoint ''after_dlq_ack'', True), (Did_commit, ok)]))"

lemma reject_record_trace:
  assumes "reject_record sha sha_json s topic_id position key raw (noting p) policy e st (tr, w) = (r, (tr', w'))"
  shows "\<exists>more. tr' = tr @ more \<and> reject_traces (permanent_reason e st) policy more
     \<and> (is_ok r \<longrightarrow> (Did_commit, True) \<in> set more)"
  using assms
  by (auto simp: reject_record_def bind_eff_def lift_noted raise_exn_def ret_def reject_traces_def is_ok_def
      split: option.splits if_splits sum.splits prod.splits)

lemma finish_record_trace:
  assumes "finish_record (noting p) event outcome (tr, w) = (r, (tr', w'))"
  shows "\<exists>more. tr' = tr @ more \<and> (is_ok r \<longrightarrow> (Did_commit, True) \<in> set more)
     \<and> (more = [(Did_checkpoint ''after_projection'', False)]
        \<or> (\<exists>oid d ok. more = [(Did_checkpoint ''after_projection'', True), (Did_delete oid, d), (Did_commit, ok)]))"
  using assms
  by (auto simp: finish_record_def Let_def bind_eff_def lift_noted noted_def raise_exn_def ret_def is_ok_def
      split: sum.splits prod.splits)

text \<open>C15: The source offset of a record is committed only as the last effect, and only after its order
  was indexed or its envelope was acknowledged by the quarantine topic; nothing is quarantined
  unless the policy says so and the failure is permanent: the bytes are no valid event (status 400
  or 422), the stored version has another content, or Elasticsearch refused the mapping with
  status 400. A timeout, an authentication or server error, or any error of the cache, the
  quarantine or the commit never makes a record eligible. The call returns only if it committed.\<close>

theorem commit_after_effect:
  assumes "process_record iso_ok scan sha sha_json s topic_id position key raw (noting p) policy ([], w) = (r, (tr, w'))"
  shows "((Did_commit, ok) \<in> set tr \<longrightarrow> last tr = (Did_commit, ok)
            \<and> ((\<exists>order. (Did_index order, True) \<in> set tr) \<or> (\<exists>rec. (Did_quarantine rec, True) \<in> set tr)))
    \<and> (is_ok r \<longrightarrow> (Did_commit, True) \<in> set tr)
    \<and> ((Did_quarantine rec, b) \<in> set tr \<longrightarrow> policy = ''quarantine''
         \<and> ((\<exists>status code. status \<in> {400, 422} \<and> decode_record iso_ok scan key raw = Inl (Problem status code))
            \<or> (\<exists>order e. fst (pt_index p order w) = Inl e \<and> ((\<exists>status. e = Problem status ''event_version_payload_conflict'')
                 \<or> (\<exists>kind\<in>set mapping_errors. e = Http_Error 400 (Some kind))))))"
proof (cases "policy = ''strict'' \<or> policy = ''quarantine''")
  case False
  then show ?thesis using assms by (auto simp: process_record_def is_ok_def)
next
  case policy: True
  have decode: "\<exists>status. status \<in> {400, 422} \<and> (\<exists>code. e = Problem status code)"
    if "permanent_reason e Decode \<noteq> None" for e
    using that by (cases e) (auto simp: permanent_reason_def split: if_splits)
  have project: "(\<exists>status. e = Problem status ''event_version_payload_conflict'')
      \<or> (\<exists>kind\<in>set mapping_errors. e = Http_Error 400 (Some kind))"
    if "permanent_reason e Project \<noteq> None" for e
    using that by (cases e) (auto simp: permanent_reason_def safe_error_def mapping_errors_def
        split: if_splits option.splits)
  show ?thesis
  proof (cases "decode_record iso_ok scan key raw")
    case (Inl e)
    from assms policy have "reject_record sha sha_json s topic_id position key raw (noting p) policy e Decode ([], w) = (r, (tr, w'))"
      by (auto simp: process_record_def Inl)
    from reject_record_trace [OF this] have t: "reject_traces (permanent_reason e Decode) policy tr"
      "is_ok r \<longrightarrow> (Did_commit, True) \<in> set tr" by auto
    with decode [of e] policy show ?thesis unfolding reject_traces_def by (auto simp: Inl)
  next
    case (Inr event)
    obtain r1 w1 where i: "pt_index p (event_order_dict event) w = (r1, w1)" by (cases "pt_index p (event_order_dict event) w")
    show ?thesis
    proof (cases r1)
      case (Inl e)
      from assms policy have "reject_record sha sha_json s topic_id position key raw (noting p) policy e Project
          ([(Did_index (event_order_dict event), False)], w1) = (r, (tr, w'))"
        by (auto simp: process_record_def \<open>decode_record iso_ok scan key raw = Inr event\<close> noted_def i Inl is_ok_def)
      from reject_record_trace [OF this] obtain more where t: "tr = (Did_index (event_order_dict event), False) # more"
        "reject_traces (permanent_reason e Project) policy more" "is_ok r \<longrightarrow> (Did_commit, True) \<in> set more" by auto
      have "fst (pt_index p (event_order_dict event) w) = Inl e" by (simp add: i Inl)
      with t project [of e] policy show ?thesis unfolding reject_traces_def by (auto; blast)
    next
      case (Inr outcome)
      from assms policy have "finish_record (noting p) event outcome
          ([(Did_index (event_order_dict event), True)], w1) = (r, (tr, w'))"
        by (auto simp: process_record_def \<open>decode_record iso_ok scan key raw = Inr event\<close> noted_def i Inr is_ok_def)
      from finish_record_trace [OF this] show ?thesis by auto
    qed
  qed
qed

text \<open>Callbacks that all succeed and leave no state.\<close>

definition quiet_ports :: "unit ports" where
  "quiet_ports = \<lparr>pt_index = (\<lambda>_. ret ''indexed''), pt_cache_delete = (\<lambda>_. ret ()), pt_commit = ret (),
     pt_quarantine = (\<lambda>_. ret PNone), pt_checkpoint = (\<lambda>_. ret ())\<rparr>"

theorem commit_after_effect_witness:
  "\<exists>tr. process_record (\<lambda>_. True) (\<lambda>_. (J_Bad, False)) id (\<lambda>_. []) \<lparr>sc_project = [], sc_run = [], sc_token = []\<rparr> (u ''t'')
     [(u ''topic'', PStr (u ''mvp.study.-.events'')), (u ''partition'', PInt 0), (u ''offset'', PInt 7)]
     (Some []) (Some [1]) (noting quiet_ports) ''quarantine'' ([], ())
     = (Inr (Quarantined (u ''invalid_event_json'') (PStr []) PNone), (tr, ())) \<and> last tr = (Did_commit, True)"
proof -
  let ?p = "process_record (\<lambda>_. True) (\<lambda>_. (J_Bad, False)) id (\<lambda>_. []) \<lparr>sc_project = [], sc_run = [], sc_token = []\<rparr> (u ''t'')
     [(u ''topic'', PStr (u ''mvp.study.-.events'')), (u ''partition'', PInt 0), (u ''offset'', PInt 7)]
     (Some []) (Some [1]) (noting quiet_ports) ''quarantine'' ([], ())"
  have "fst ?p = Inr (Quarantined (u ''invalid_event_json'') (PStr []) PNone)"
    by (simp add: process_record_def decode_record_def decode_def max_message_def loads_hooked_def bind_res_def
        reject_record_def permanent_reason_def quarantine_record_def scope_topic_def scope_suffix_def
        leaf_eq_def number_of_value_def Let_def canonical_text_def bind_eff_def lift_noted quiet_ports_def ret_def
        pdict_put_def utf8_def) (simp add: utf8_encodable_def u_def)
  then obtain tr where p: "?p = (Inr (Quarantined (u ''invalid_event_json'') (PStr []) PNone), (tr, ()))"
    by (cases ?p) auto
  from commit_after_effect [OF p] have "last tr = (Did_commit, True)" by (simp add: is_ok_def)
  with p show ?thesis by blast
qed

section \<open>The envelope\<close>

lemma b64_char_ascii: "b64_char n < 128"
  by (auto simp: b64_char_def)

lemma b64encode_encodable [simp]: "utf8_encodable (b64encode bs)"
proof (rule utf8_encodable_ascii)
  show "list_all (\<lambda>c. c < 128) (b64encode bs)"
    by (induction bs rule: b64encode.induct) (simp_all add: b64_char_ascii)
qed

lemma hex_encodable: "class_match is_hex_lower n m s \<Longrightarrow> utf8_encodable s"
  by (rule utf8_encodable_ascii) (auto simp: class_match_def is_hex_lower_def is_digit_def list_all_iff)

lemma scope_encodable:
  assumes "valid_scope s = Inr ()"
  shows "utf8_encodable (sc_run s)" "utf8_encodable (sc_token s)"
proof -
  have run: "run_text (sc_run s)" and tok: "class_match is_hex_lower 32 32 (sc_token s)"
    using assms by (auto simp: valid_scope_def split: if_splits)
  have "sc_run s = u ''msg-'' @ drop 4 (sc_run s)"
  proof -
    have "take 4 (sc_run s) = u ''msg-''" using run by (simp add: run_text_def starts_with_def numeral_eq_Suc)
    then show ?thesis by (metis append_take_drop_id)
  qed
  moreover have "utf8_encodable (u ''msg-'' @ drop 4 (sc_run s))"
    using run hex_encodable by (auto simp: run_text_def)
  ultimately show "utf8_encodable (sc_run s)" by simp
  show "utf8_encodable (sc_token s)" using tok by (rule hex_encodable)
qed

lemma map_of_source:
  "map_of (pdict_put ''topic_id'' v [(u ''topic'', t), (u ''partition'', p), (u ''offset'', n)]) (u ''topic'') = Some t"
  "map_of (pdict_put ''topic_id'' v [(u ''topic'', t), (u ''partition'', p), (u ''offset'', n)]) (u ''partition'') = Some p"
  "map_of (pdict_put ''topic_id'' v [(u ''topic'', t), (u ''partition'', p), (u ''offset'', n)]) (u ''offset'') = Some n"
  by (simp_all add: pdict_put_def)

lemma quarantine_record_Inr:
  assumes "quarantine_record sha sha_json s topic_id position (Some key) (Some raw) reason = Inr rec"
  obtains c where "canonical_text (PDict [(u ''scope'', PStr (scope_suffix sha s)),
      (u ''source'', PDict (pdict_put ''topic_id'' (PStr topic_id) position)),
      (u ''raw_sha256'', PStr (sha raw)), (u ''key_sha256'', PStr (sha key))]) = Inr c"
    "rec = [(u ''schema'', PInt 1), (u ''run_id'', PStr (sc_run s)), (u ''owner'', PStr (sc_token s)),
      (u ''dlq_id'', PStr (sha_json c)), (u ''source'', PDict (pdict_put ''topic_id'' (PStr topic_id) position)),
      (u ''reason'', reason), (u ''raw_sha256'', PStr (sha raw)), (u ''raw_b64'', PStr (b64encode raw)),
      (u ''key_b64'', PStr (b64encode key))]"
  using assms by (auto simp: quarantine_record_def Let_def bind_res_def split: if_splits sum.splits pv.splits)

lemma canonical_text_Inr: "canonical_text v = Inr c \<longleftrightarrow> finite_json v \<and> encodable_json v \<and> c = canon v"
  by (auto simp: canonical_text_def)

lemma own_envelope_accepted:
  assumes "valid_scope s = Inr ()" "is_bytes raw" "is_bytes key" "utf8_encodable rs"
    and "\<forall>b. utf8_encodable (sha b)" "\<forall>v. utf8_encodable (sha_json v)"
    and "position = [(u ''topic'', t), (u ''partition'', p), (u ''offset'', n)]"
    and q: "quarantine_record sha sha_json s topic_id position (Some key) (Some raw) (PStr rs) = Inr rec"
  shows "checked_quarantine sha sha_json (PDict rec) s topic_id = Inr (key, raw)"
proof -
  let ?src = "pdict_put ''topic_id'' (PStr topic_id) position"
  obtain c where c: "canonical_text (PDict [(u ''scope'', PStr (scope_suffix sha s)), (u ''source'', PDict ?src),
      (u ''raw_sha256'', PStr (sha raw)), (u ''key_sha256'', PStr (sha key))]) = Inr c"
    and rec: "rec = [(u ''schema'', PInt 1), (u ''run_id'', PStr (sc_run s)), (u ''owner'', PStr (sc_token s)),
      (u ''dlq_id'', PStr (sha_json c)), (u ''source'', PDict ?src),
      (u ''reason'', PStr rs), (u ''raw_sha256'', PStr (sha raw)), (u ''raw_b64'', PStr (b64encode raw)),
      (u ''key_b64'', PStr (b64encode key))]"
    using q by (rule quarantine_record_Inr)
  have src: "finite_json (PDict ?src)" "encodable_json (PDict ?src)" using c by (auto simp: canonical_text_Inr)
  have canon_ok: "canonical_text (PDict rec) = Inr (canon (PDict rec))"
    using src scope_encodable [OF assms(1)] assms(4-6) by (simp add: canonical_text_Inr rec)
  have "rebuild sha sha_json s topic_id (PDict rec) = Inr ((key, raw), rec)"
    using q assms(7) b64decode_encode [OF assms(2)] b64decode_encode [OF assms(3)] map_of_source
    by (simp add: rebuild_def rec subscript_def b64_field_def bind_res_def)
  then show ?thesis
    using canon_ok by (simp add: checked_quarantine_def bind_res_def) (simp add: rec dget_def leaf_eq_def number_of_value_def)
qed


definition sample_scope :: scope where
  "sample_scope = \<lparr>sc_project = u ''db-lab-mvp'', sc_run = u ''msg-0123456789abcdef01234567'',
     sc_token = u ''0123456789abcdef0123456789abcdef''\<rparr>"

definition length_digest :: "bytes \<Rightarrow> ustr" where
  "length_digest b = replicate (length b mod 16) 48"

lemma sample_scope_valid: "valid_scope sample_scope = Inr ()"
  by (simp add: valid_scope_def sample_scope_def project_text_def run_text_def starts_with_def class_match_def
      is_hex_lower_def is_digit_def u_def)

lemma length_digest_law: "\<forall>b. utf8_encodable (length_digest b)"
  by (intro allI utf8_encodable_ascii) (simp add: length_digest_def list_all_length)

lemma sample_scope_parts:
  "utf8_encodable (drop 4 (sc_run sample_scope))" "utf8_encodable (take 10 (length_digest b))"
  using length_digest_law utf8_encodable_take utf8_encodable_drop scope_encodable [OF sample_scope_valid] by blast+

lemma sample_envelope:
  assumes "is_bytes key" "length key \<le> 128"
  shows "\<exists>rec. quarantine_record length_digest (\<lambda>_. u ''ab'') sample_scope (u ''T1'')
       [(u ''topic'', PStr (scope_topic length_digest sample_scope)), (u ''partition'', PInt 0), (u ''offset'', PInt 7)]
       (Some key) (Some [1, 255, 3, 4]) (PStr (u ''invalid_event_json'')) = Inr rec
     \<and> checked_quarantine length_digest (\<lambda>_. u ''ab'') (PDict rec) sample_scope (u ''T1'') = Inr (key, [1, 255, 3, 4])
     \<and> subscript (PDict rec) ''dlq_id'' = Inr (PStr (u ''ab''))"
proof -
  obtain rec where rec: "quarantine_record length_digest (\<lambda>_. u ''ab'') sample_scope (u ''T1'')
       [(u ''topic'', PStr (scope_topic length_digest sample_scope)), (u ''partition'', PInt 0), (u ''offset'', PInt 7)]
       (Some key) (Some [1, 255, 3, 4]) (PStr (u ''invalid_event_json'')) = Inr rec"
    using assms(2) length_digest_law sample_scope_parts
    by (auto simp: quarantine_record_def leaf_eq_def number_of_value_def max_message_def canonical_text_def
        bind_res_def Let_def pdict_put_def scope_topic_def scope_suffix_def)
  have "checked_quarantine length_digest (\<lambda>_. u ''ab'') (PDict rec) sample_scope (u ''T1'') = Inr (key, [1, 255, 3, 4])"
    by (rule own_envelope_accepted [OF sample_scope_valid _ assms(1) utf8_encodable_u length_digest_law _ refl rec])
      (simp_all add: is_bytes_def)
  moreover have "subscript (PDict rec) ''dlq_id'' = Inr (PStr (u ''ab''))"
    by (rule quarantine_record_Inr [OF rec]) (simp add: subscript_def)
  ultimately show ?thesis using rec by blast
qed

lemma validate_event_with_extra:
  assumes "wf_order iso_ok x" "uuid_canonical ev"
  shows "validate_event iso_ok (PDict [(u ''schema_version'', PInt 1), (u ''event_id'', PStr ev),
     (u ''order'', PDict (order_value x)), (u ''repair'', r)]) = Inr (order_value x)"
proof -
  have "dget [(u ''schema_version'', PInt 1), (u ''event_id'', PStr ev), (u ''order'', PDict (order_value x)), (u ''repair'', r)] k
      = (if k = ''repair'' then r else dget [(u ''schema_version'', PInt 1), (u ''event_id'', PStr ev),
          (u ''order'', PDict (order_value x))] k)" for k
    by (auto simp: dget_def)
  then show ?thesis using validate_event_envelope [OF assms] by (simp add: validate_event_def envelope_def)
qed


text \<open>C17: A repaired event never carries quarantined bytes: it is rebuilt from the row the database has now
  for an allow-listed key of this run, whose id is the key bytes of the accepted envelope; it
  passes the event validation and yields exactly that row.\<close>

theorem repair_from_current_row:
  assumes "repair_event iso_ok sha sha_json uuid5 env s topic_id allowed (\<lambda>k. lookup_key k d) = Inr event"
  shows "\<exists>key raw k x. checked_quarantine sha sha_json env s topic_id = Inr (key, raw)
    \<and> lookup_key k d = Some x \<and> key = o_id x \<and> allowed (o_id x) = Some k \<and> starts_with (sc_run s @ u ''-'') k
    \<and> validate_event iso_ok event = Inr (order_value x)"
proof -
  from assms obtain key raw t i x where q: "checked_quarantine sha sha_json env s topic_id = Inr (key, raw)"
    and t: "ascii_decode key = Inr t" "order_identifier (PStr t) = Inr i"
    and x: "authoritative s allowed (\<lambda>k. lookup_key k d) i = Inr x"
    and ev: "rebuild_event iso_ok sha_json uuid5 env s x = Inr event"
    unfolding repair_event_def bind_res_Inr_iff by auto
  have i: "i = key" using t by (auto simp: ascii_decode_def order_identifier_def split: if_splits)
  obtain k where k: "allowed i = Some k" "lookup_key k d = Some x" "starts_with (sc_run s @ u ''-'') k" "o_id x = i"
    using x by (auto simp: authoritative_def Let_def split: option.splits if_splits)
  from ev obtain v where v: "validate_event iso_ok event = Inr v" "\<exists>a b c. event = PDict [(u ''schema_version'', a),
      (u ''event_id'', b), (u ''order'', PDict (order_value x)), (u ''repair'', c)]"
    by (auto simp: rebuild_event_def bind_res_Inr_iff Let_def)
  have "v = order_value x" using v validate_event_Inr [OF v(1)] by (auto simp: dget_def)
  with q k v(1) i show ?thesis by blast
qed

definition repair_key :: ustr where
  "repair_key = sc_run sample_scope @ u ''-1''"

definition repair_db :: db where
  "repair_db = sample_db\<lparr>d_orders := [with_key sample_order repair_key]\<rparr>"

lemma sample_uuid_bytes: "is_bytes sample_uuid" "ascii_decode sample_uuid = Inr sample_uuid"
  "length sample_uuid = 36" "uuid_canonical sample_uuid"
  by (simp_all add: sample_uuid_def u_def is_bytes_def ascii_decode_def uuid_canonical_def is_hex_lower_def
      is_digit_def enumerate_eq_zip upt_rec)

theorem repair_from_current_row_witness:
  "\<exists>env event. repair_event (\<lambda>_. True) length_digest (\<lambda>_. u ''ab'') (\<lambda>_. sample_uuid) env sample_scope (u ''T1'')
     [sample_uuid \<mapsto> repair_key] (\<lambda>k. lookup_key k repair_db) = Inr event
   \<and> validate_event (\<lambda>_. True) event = Inr (order_value sample_order)"
proof -
  obtain rec where rec: "checked_quarantine length_digest (\<lambda>_. u ''ab'') (PDict rec) sample_scope (u ''T1'')
      = Inr (sample_uuid, [1, 255, 3, 4])" "subscript (PDict rec) ''dlq_id'' = Inr (PStr (u ''ab''))"
    using sample_envelope [OF sample_uuid_bytes(1)] sample_uuid_bytes(3) by fastforce
  have look: "lookup_key repair_key repair_db = Some sample_order"
    by (simp add: lookup_key_def select_key_def repair_db_def sample_db_def)
  have key: "repair_key \<noteq> []" "starts_with (sc_run sample_scope @ u ''-'') repair_key"
    by (simp_all add: repair_key_def starts_with_def) (simp add: u_def)
  have wf: "wf_order (\<lambda>_. True) sample_order" by (rule sample_order_wf)
  have fin: "canonical_text (PDict (order_value sample_order)) = Inr (canon (PDict (order_value sample_order)))"
    by (simp add: canonical_text_Inr order_value_def sample_order_def new_order_def sample_uuid_def)
  have oid: "o_id sample_order = sample_uuid" by (simp add: sample_order_def new_order_def)
  obtain event where "rebuild_event (\<lambda>_. True) (\<lambda>_. u ''ab'') (\<lambda>_. sample_uuid) (PDict rec) sample_scope sample_order = Inr event"
    using wf sample_uuid_bytes(4) by (auto simp: rebuild_event_def rec(2) bind_res_def fin Let_def
        validate_event_with_extra)
  then have run: "repair_event (\<lambda>_. True) length_digest (\<lambda>_. u ''ab'') (\<lambda>_. sample_uuid) (PDict rec) sample_scope (u ''T1'')
     [sample_uuid \<mapsto> repair_key] (\<lambda>k. lookup_key k repair_db) = Inr event"
    using look key oid sample_uuid_bytes by (simp add: repair_event_def rec(1) bind_res_def order_identifier_def authoritative_def Let_def)
  from repair_from_current_row [OF run] have "validate_event (\<lambda>_. True) event = Inr (order_value sample_order)"
    using rec(1) look by (auto simp: oid split: if_splits)
  with run show ?thesis by blast
qed

end
