(* ===== verification/Event_Log.thy ===== *)
theory Event_Log
  imports Projection
begin

text \<open>
  Operations whose state carries a log of the calls they made: what an operation appends to the log, composed along
  the steps of a program. A component whose safety is an order of calls (verify before removing, read before writing)
  is run on its environment with each call recorded.
\<close>

definition recording :: "('a res \<Rightarrow> 'c list) \<Rightarrow> ('a, 's) eff \<Rightarrow> ('a, 's \<times> 'c list) eff" where
  "recording f m = (\<lambda>(s, log). case m s of (r, s') \<Rightarrow> (r, s', log @ f r))"

text \<open>What an operation appends to the log.\<close>

definition logs :: "('a, 's \<times> 'c list) eff \<Rightarrow> ('a res \<Rightarrow> 'c list \<Rightarrow> bool) \<Rightarrow> bool" where
  "logs m f \<longleftrightarrow> (\<forall>s log. \<exists>ext. snd (snd (m (s, log))) = log @ ext \<and> f (fst (m (s, log))) ext)"

lemma logs_bind:
  assumes "logs m f" and "\<And>a. logs (k a) (g a)"
  shows "logs (bind_eff m k) (\<lambda>r ext. (\<exists>e. r = Inl e \<and> f (Inl e) ext) \<or> (\<exists>a e1 e2. ext = e1 @ e2 \<and> f (Inr a) e1 \<and> g a r e2))"
  unfolding logs_def
proof (intro allI)
  fix s log
  obtain r s1 log1 where m: "m (s, log) = (r, s1, log1)" by (metis prod.exhaust)
  obtain e1 where e1: "log1 = log @ e1" "f r e1" using assms(1) m unfolding logs_def by (metis fst_conv snd_conv)
  show "\<exists>ext. snd (snd (bind_eff m k (s, log))) = log @ ext \<and>
      ((\<exists>e. fst (bind_eff m k (s, log)) = Inl e \<and> f (Inl e) ext) \<or>
       (\<exists>a e1 e2. ext = e1 @ e2 \<and> f (Inr a) e1 \<and> g a (fst (bind_eff m k (s, log))) e2))"
  proof (cases r)
    case (Inl e)
    then show ?thesis using m e1 by (auto simp: bind_eff_def)
  next
    case (Inr a)
    obtain e2 where "snd (snd (k a (s1, log1))) = log1 @ e2" "g a (fst (k a (s1, log1))) e2"
      using assms(2) unfolding logs_def by blast
    then show ?thesis using m e1 Inr by (auto simp: bind_eff_def)
  qed
qed

lemma logs_mono: "logs m f \<Longrightarrow> (\<And>r ext. f r ext \<Longrightarrow> g r ext) \<Longrightarrow> logs m g"
  unfolding logs_def by blast

lemma logs_bindI:
  assumes "logs m f" and "\<And>a. logs (k a) (g a)"
    and "\<And>e ext. f (Inl e) ext \<Longrightarrow> h (Inl e) ext" and "\<And>a r e1 e2. f (Inr a) e1 \<Longrightarrow> g a r e2 \<Longrightarrow> h r (e1 @ e2)"
  shows "logs (bind_eff m k) h"
  by (rule logs_mono [OF logs_bind [OF assms(1,2)]]) (use assms(3,4) in blast)

lemma logs_quiet [simp]:
  "logs (ret a) (\<lambda>r ext. r = Inr a \<and> ext = [])" "logs (raise_exn e) (\<lambda>r ext. r = Inl e \<and> ext = [])"
  "logs (lift_res x) (\<lambda>r ext. r = x \<and> ext = [])"
  "logs (raise_for_status y) (\<lambda>r ext. ext = [])"
  by (auto simp: logs_def lift_res_def raise_for_status_def)

lemma logs_recording: "logs (recording f m) (\<lambda>r ext. ext = f r)"
  by (auto simp: logs_def recording_def split: prod.splits)

lemma logs_if: "(b \<Longrightarrow> logs m f) \<Longrightarrow> (\<not> b \<Longrightarrow> logs m' f) \<Longrightarrow> logs (if b then m else m') f"
  by simp

lemma logs_ret: "P (Inr a) [] \<Longrightarrow> logs (ret a) P" "P (Inl e) [] \<Longrightarrow> logs (raise_exn e) P" "P x [] \<Longrightarrow> logs (lift_res x) P"
  by (auto simp: logs_def lift_res_def)

section \<open>Justified events\<close>

text \<open>Every event of a log is justified by the events before it.\<close>

definition safe_log :: "('c list \<Rightarrow> 'c \<Rightarrow> bool) \<Rightarrow> 'c list \<Rightarrow> bool" where
  "safe_log ok ext \<longleftrightarrow> (\<forall>i<length ext. ok (take i ext) (ext ! i))"

lemma safe_log_simps [simp]: "safe_log ok []" "safe_log ok [c] \<longleftrightarrow> ok [] c"
  by (simp_all add: safe_log_def)

lemma safe_log_snoc: "safe_log ok (ext @ [c]) \<longleftrightarrow> safe_log ok ext \<and> ok ext c"
  by (auto simp: safe_log_def nth_append less_Suc_eq)

lemma safe_logD: "safe_log ok (pre @ c # post) \<Longrightarrow> ok pre c"
  unfolding safe_log_def by (drule spec [of _ "length pre"]) simp

locale justified_events =
  fixes ok :: "'c list \<Rightarrow> 'c \<Rightarrow> bool"
  assumes ok_mono: "ok prev c \<Longrightarrow> set prev \<subseteq> set prev' \<Longrightarrow> ok prev' c"
begin

lemma safe_append: "safe_log ok a \<Longrightarrow> safe_log ok b \<Longrightarrow> safe_log ok (a @ b)"
proof (induction b rule: rev_induct)
  case (snoc c b)
  then show ?case using ok_mono [of b c "a @ b"] by (simp add: safe_log_snoc flip: append_assoc)
qed simp

lemma safe_after: "safe_log ok a \<Longrightarrow> ok a c \<Longrightarrow> safe_log ok (a @ [c])"
  by (simp add: safe_log_snoc)

lemma safe_bind:
  "logs m (\<lambda>_. safe_log ok) \<Longrightarrow> (\<And>a. logs (k a) (\<lambda>_. safe_log ok)) \<Longrightarrow> logs (bind_eff m k) (\<lambda>_. safe_log ok)"
  by (rule logs_bindI [where f = "\<lambda>_. safe_log ok" and g = "\<lambda>_ _. safe_log ok"]) (auto intro: safe_append)

end

section \<open>Steps\<close>

text \<open>
  A triple over the log: started on a justified log that \<open>P\<close> holds of, the operation leaves a justified log, and when it
  returns \<open>a\<close>, \<open>Q a\<close> holds of it. What is known of a log is \<open>stable\<close> when it stays known as the log grows.
\<close>

definition steps :: "('c list \<Rightarrow> 'c \<Rightarrow> bool) \<Rightarrow> ('c list \<Rightarrow> bool) \<Rightarrow> ('a, 's \<times> 'c list) eff \<Rightarrow> ('a \<Rightarrow> 'c list \<Rightarrow> bool) \<Rightarrow> bool" where
  "steps ok P m Q \<longleftrightarrow> (\<forall>s lg. P lg \<and> safe_log ok lg \<longrightarrow> safe_log ok (snd (snd (m (s, lg))))
     \<and> (\<forall>a. fst (m (s, lg)) = Inr a \<longrightarrow> Q a (snd (snd (m (s, lg))))))"

definition stable :: "('c list \<Rightarrow> bool) \<Rightarrow> bool" where
  "stable P \<longleftrightarrow> (\<forall>lg c. P lg \<longrightarrow> P (lg @ [c]))"

lemma steps_ret [intro]: "(\<And>lg. P lg \<Longrightarrow> Q a lg) \<Longrightarrow> steps ok P (ret a) Q"
  and steps_raise [intro]: "steps ok P (raise_exn e) Q"
  and steps_lift: "(\<And>a lg. x = Inr a \<Longrightarrow> P lg \<Longrightarrow> Q a lg) \<Longrightarrow> steps ok P (lift_res x) Q"
  by (auto simp: steps_def lift_res_def)

lemma steps_bind:
  assumes "steps ok P m Q" and "\<And>a. steps ok (Q a) (k a) R"
  shows "steps ok P (bind_eff m k) R"
  unfolding steps_def
proof (intro allI impI)
  fix s lg
  assume p: "P lg \<and> safe_log ok lg"
  obtain r s1 l1 where m: "m (s, lg) = (r, s1, l1)" by (metis prod.exhaust)
  have l1: "safe_log ok l1" "\<And>a. r = Inr a \<Longrightarrow> Q a l1" using assms(1) p m unfolding steps_def by (metis fst_conv snd_conv)+
  show "safe_log ok (snd (snd (bind_eff m k (s, lg)))) \<and> (\<forall>a. fst (bind_eff m k (s, lg)) = Inr a \<longrightarrow> R a (snd (snd (bind_eff m k (s, lg)))))"
  proof (cases r)
    case (Inr a)
    then show ?thesis using assms(2) [of a] l1 m unfolding steps_def by (simp add: bind_eff_def)
  qed (use l1 m in \<open>simp add: bind_eff_def\<close>)
qed

lemma steps_if: "(b \<Longrightarrow> steps ok P m Q) \<Longrightarrow> (\<not> b \<Longrightarrow> steps ok P m' Q) \<Longrightarrow> steps ok P (if b then m else m') Q"
  by simp

lemma steps_conseq: "steps ok P' m Q' \<Longrightarrow> (\<And>lg. P lg \<Longrightarrow> P' lg) \<Longrightarrow> (\<And>a lg. Q' a lg \<Longrightarrow> Q a lg) \<Longrightarrow> steps ok P m Q"
  unfolding steps_def by blast

lemma steps_fact: "(A \<Longrightarrow> steps ok P m Q) \<Longrightarrow> steps ok (\<lambda>lg. P lg \<and> A) m Q"
  unfolding steps_def by blast

lemma steps_recording:
  assumes "\<And>r c lg. c \<in> set (f r) \<Longrightarrow> P lg \<Longrightarrow> ok lg c" and "\<And>r. length (f r) \<le> 1"
    and "\<And>a lg. P lg \<Longrightarrow> Q a (lg @ f (Inr a))"
  shows "steps ok P (recording f m) Q"
  unfolding steps_def
proof (intro allI impI)
  fix s lg
  assume p: "P lg \<and> safe_log ok lg"
  obtain r s1 where m: "m s = (r, s1)" by fastforce
  have "safe_log ok (lg @ f r)" using assms(1) [of _ r lg] assms(2) [of r] p by (cases "f r") (auto simp: safe_log_snoc)
  then show "safe_log ok (snd (snd (recording f m (s, lg)))) \<and>
      (\<forall>a. fst (recording f m (s, lg)) = Inr a \<longrightarrow> Q a (snd (snd (recording f m (s, lg)))))"
    using m p assms(3) by (auto simp: recording_def)
qed

lemma stable_intros [intro!]: "stable (\<lambda>lg. c \<in> set lg)"
  "stable P \<Longrightarrow> stable Q \<Longrightarrow> stable (\<lambda>lg. P lg \<and> Q lg)" "(\<And>x. stable (R x)) \<Longrightarrow> stable (\<lambda>lg. \<exists>x. R x lg)"
  unfolding stable_def by auto

lemma stableD: "stable P \<Longrightarrow> P lg \<Longrightarrow> P (lg @ [c])"
  unfolding stable_def by blast

lemma steps_safe: "steps ok (\<lambda>_. True) m Q \<Longrightarrow> snd (snd (m (s, []))) = pre @ c # post \<Longrightarrow> ok pre c"
  unfolding steps_def by (metis safe_log_simps(1) safe_logD)

end
