(* ===== verification/Message_Runtime.thy ===== *)
theory Message_Runtime
  imports Message_Safety Event_Log
begin

text \<open>
  \<open>mvp-lab/mvp_app/message_runtime.py\<close>: the Kafka, Elasticsearch and Redis transport of the message drills. The
  cluster is a record of operations on its state; other clients may change that state between any two calls. The log
  of a watched cluster is the calls the runtime made, with what a description returned. The loops that wait for a
  deadline take the readings of the clock from the cluster and a number of rounds.
\<close>

section \<open>The cluster\<close>

record topic_info =
  ti_id :: ustr
  ti_internal :: bool
  ti_partitions :: nat

datatype index_request = Idx_Head | Idx_Put pdict | Idx_Settings | Idx_Mapping | Idx_Delete | Idx_Doc ustr

record 's cluster =
  cl_topics :: "(ustr list, 's) eff"
  cl_describe :: "ustr \<Rightarrow> (topic_info, 's) eff"
  cl_create :: "ustr \<Rightarrow> pdict \<Rightarrow> (unit, 's) eff"
  cl_delete :: "ustr \<Rightarrow> (unit, 's) eff"
  cl_index :: "index_request \<Rightarrow> (reply, 's) eff"
  cl_clock :: "'s \<Rightarrow> rat \<times> 's"

record study =
  st_topic :: ustr
  st_dlq :: ustr
  st_index :: ustr
  st_prefix :: ustr
  st_owner :: ustr
  st_run :: ustr

definition study_of :: "(bytes \<Rightarrow> ustr) \<Rightarrow> scope \<Rightarrow> study" where
  "study_of sha s = \<lparr>st_topic = scope_topic sha s, st_dlq = scope_dlq sha s, st_index = scope_index sha s,
     st_prefix = scope_cache_prefix sha s, st_owner = sc_token s, st_run = sc_run s\<rparr>"

section \<open>Cache keys of a run\<close>

definition scoped_get :: "'c redis \<Rightarrow> study \<Rightarrow> ustr \<Rightarrow> (pv, 'c) eff" where
  "scoped_get redis st oid = bind_eff (redis (R_Get (st_prefix st @ oid))) (\<lambda>raw. case raw of
       None \<Rightarrow> ret PNone
     | Some None \<Rightarrow> raise_exn (Value_Error ''JSONDecodeError'')
     | Some (Some v) \<Rightarrow> ret v)"

definition scoped_put :: "'c redis \<Rightarrow> study \<Rightarrow> pdict \<Rightarrow> (unit, 'c) eff" where
  "scoped_put redis st x = bind_eff (lift_res (canonical_text (PDict x))) (\<lambda>v.
     bind_eff (redis (R_Set (st_prefix st @ str_of (dget x ''id'')) v)) (\<lambda>_. ret ()))"

definition scoped_delete :: "'c redis \<Rightarrow> study \<Rightarrow> ustr \<Rightarrow> (unit, 'c) eff" where
  "scoped_delete redis st oid = bind_eff (redis (R_Delete (st_prefix st @ oid))) (\<lambda>_. ret ())"

section \<open>Resources\<close>

definition in_study :: "study \<Rightarrow> ustr \<Rightarrow> bool" where
  "in_study st name \<longleftrightarrow> name = st_topic st \<or> name = st_dlq st"

definition no_topic_ids :: "ustr list" where
  "no_topic_ids = [[], u ''None'', u ''AAAAAAAAAAAAAAAAAAAAAA'']"

definition describe :: "'s cluster \<Rightarrow> study \<Rightarrow> ustr \<Rightarrow> (ustr, 's) eff" where
  "describe cl st name = (if \<not> in_study st name then raise_exn (Value_Error ''Topic outside message run'')
     else bind_eff (cl_describe cl name) (\<lambda>t.
       if ti_id t \<in> set no_topic_ids \<or> ti_internal t \<or> ti_partitions t \<noteq> 1
       then raise_exn (Runtime_Error ''Invalid topic identity/partition count'') else ret (ti_id t)))"

definition topic_config :: pdict where
  "topic_config = [(u ''retention.ms'', PStr (u ''86400000'')), (u ''retention.bytes'', PStr (u ''1048576'')),
     (u ''max.message.bytes'', PStr (u ''65536'')), (u ''segment.bytes'', PStr (u ''1048576''))]"

definition create_topic :: "'s cluster \<Rightarrow> study \<Rightarrow> ustr \<Rightarrow> (ustr \<times> ustr, 's) eff" where
  "create_topic cl st name = (if \<not> in_study st name then raise_exn (Value_Error ''Foreign topic'')
     else bind_eff (cl_topics cl) (\<lambda>names.
       if name \<in> set names then raise_exn (Runtime_Error ''Study topic already exists; never adopt existing data'')
       else bind_eff (cl_create cl name topic_config) (\<lambda>_.
            bind_eff (describe cl st name) (\<lambda>i. ret (name, i)))))"

definition study_meta :: "study \<Rightarrow> pdict" where
  "study_meta st = [(u ''study_owner'', PStr (st_owner st)), (u ''study_run'', PStr (st_run st))]"

text \<open>\<open>response.json()[index][part]\<close>; a failing subscript raises.\<close>

definition index_part :: "reply \<Rightarrow> study \<Rightarrow> string \<Rightarrow> pv res" where
  "index_part r st part = bind_res (reply_json r) (\<lambda>v. case v of
       PDict d \<Rightarrow> (case map_of d (st_index st) of None \<Rightarrow> Inl Key_Error | Some w \<Rightarrow> subscript w part)
     | _ \<Rightarrow> Inl Type_Error)"

definition owner_meta :: "study \<Rightarrow> pv \<Rightarrow> bool" where
  "owner_meta st m = (case m of PDict d \<Rightarrow> length d = 2 \<and> map_of d (u ''study_owner'') = Some (PStr (st_owner st))
       \<and> map_of d (u ''study_run'') = Some (PStr (st_run st)) | _ \<Rightarrow> False)"

definition index_identity :: "'s cluster \<Rightarrow> study \<Rightarrow> (ustr, 's) eff" where
  "index_identity cl st =
     bind_eff (cl_index cl Idx_Settings) (\<lambda>r.
     bind_eff (raise_for_status r) (\<lambda>_.
     bind_eff (lift_res (bind_res (index_part r st ''settings'') (\<lambda>s. subscript s ''index.uuid''))) (\<lambda>uuid.
     bind_eff (cl_index cl Idx_Mapping) (\<lambda>r.
     bind_eff (raise_for_status r) (\<lambda>_.
     bind_eff (lift_res (bind_res (index_part r st ''mappings'') (\<lambda>m. py_get_dict m ''_meta''))) (\<lambda>m.
     case uuid of PStr i \<Rightarrow> if \<not> owner_meta st m \<or> i = [] then raise_exn (Runtime_Error ''Index owner/identity mismatch'')
                            else ret i
       | _ \<Rightarrow> raise_exn (Runtime_Error ''Index owner/identity mismatch'')))))))"

definition index_fields :: pdict where
  "index_fields = map (\<lambda>(k, t). (u k, PDict [(u ''type'', PStr (u t))]))
     [(''id'', ''keyword''), (''item'', ''text''), (''quantity'', ''integer''), (''unit_price'', ''long''),
      (''total'', ''long''), (''status'', ''keyword''), (''version'', ''long''), (''created_at'', ''date'')]"

definition index_body :: "study \<Rightarrow> pdict" where
  "index_body st = [(u ''settings'', PDict [(u ''number_of_shards'', PInt 1), (u ''number_of_replicas'', PInt 0)]),
     (u ''mappings'', PDict [(u ''dynamic'', PStr (u ''strict'')), (u ''_meta'', PDict (study_meta st)),
        (u ''properties'', PDict index_fields)])]"

definition create_index :: "'s cluster \<Rightarrow> study \<Rightarrow> (ustr \<times> ustr, 's) eff" where
  "create_index cl st = bind_eff (cl_index cl Idx_Head) (\<lambda>r.
     if re_status r \<noteq> 404
     then bind_eff (raise_for_status r) (\<lambda>_. raise_exn (Runtime_Error ''Study index already exists; not adopted''))
     else bind_eff (cl_index cl (Idx_Put (index_body st))) (\<lambda>r.
          bind_eff (raise_for_status r) (\<lambda>_.
          bind_eff (index_identity cl st) (\<lambda>i. ret (st_index st, i)))))"

text \<open>The recovery ledger: topic ids by name and the index with its UUID.\<close>

record ledger =
  lg_topics :: "(ustr \<times> ustr) list"
  lg_index :: "(ustr \<times> ustr) option"

definition ledger_in_scope :: "study \<Rightarrow> ledger \<Rightarrow> unit res" where
  "ledger_in_scope st l = (if \<not> list_all (\<lambda>(n, _). in_study st n) (lg_topics l) then Inl (Value_Error ''Foreign topic in resource ledger'')
     else case lg_index l of None \<Rightarrow> Inr ()
     | Some (n, _) \<Rightarrow> if n \<noteq> st_index st then Inl (Value_Error ''Foreign index in resource ledger'') else Inr ())"

fun verify_topics :: "'s cluster \<Rightarrow> study \<Rightarrow> ledger \<Rightarrow> bool \<Rightarrow> ustr list \<Rightarrow> ustr list \<Rightarrow> (ustr list, 's) eff" where
  "verify_topics cl st l missing present [] = ret []"
| "verify_topics cl st l missing present (n # ns) =
     (if n \<notin> set present
      then (if \<not> missing then raise_exn (Runtime_Error ''Expected study topic missing'')
            else verify_topics cl st l missing present ns)
      else case map_of (lg_topics l) n of
        None \<Rightarrow> raise_exn (Runtime_Error ''Topic UUID missing or changed; cleanup refused'')
      | Some i \<Rightarrow> if i = [] then raise_exn (Runtime_Error ''Topic UUID missing or changed; cleanup refused'')
          else bind_eff (describe cl st n) (\<lambda>j.
            if j \<noteq> i then raise_exn (Runtime_Error ''Topic UUID missing or changed; cleanup refused'')
            else bind_eff (verify_topics cl st l missing present ns) (\<lambda>live. ret (n # live))))"

definition verify_index :: "'s cluster \<Rightarrow> study \<Rightarrow> ledger \<Rightarrow> bool \<Rightarrow> (bool, 's) eff" where
  "verify_index cl st l missing = bind_eff (cl_index cl Idx_Head) (\<lambda>r.
     if re_status r \<noteq> 404
     then bind_eff (raise_for_status r) (\<lambda>_. case lg_index l of
         None \<Rightarrow> raise_exn (Runtime_Error ''Index UUID missing or changed; cleanup refused'')
       | Some (_, i) \<Rightarrow> bind_eff (index_identity cl st) (\<lambda>j.
           if j \<noteq> i then raise_exn (Runtime_Error ''Index UUID missing or changed; cleanup refused'') else ret True))
     else if \<not> missing then raise_exn (Runtime_Error ''Study index missing'') else ret False)"

definition verify_resources :: "'s cluster \<Rightarrow> study \<Rightarrow> ledger \<Rightarrow> bool \<Rightarrow> (ustr list \<times> bool, 's) eff" where
  "verify_resources cl st l missing =
     bind_eff (lift_res (ledger_in_scope st l)) (\<lambda>_.
     bind_eff (cl_topics cl) (\<lambda>present.
     bind_eff (verify_topics cl st l missing present [st_topic st, st_dlq st]) (\<lambda>live.
     bind_eff (verify_index cl st l missing) (\<lambda>index. ret (live, index)))))"

section \<open>Removal\<close>

definition remove_index :: "'s cluster \<Rightarrow> study \<Rightarrow> ledger \<Rightarrow> (unit, 's) eff" where
  "remove_index cl st l = bind_eff (index_identity cl st) (\<lambda>j.
     case lg_index l of None \<Rightarrow> raise_exn Type_Error | Some (_, i) \<Rightarrow>
     if j \<noteq> i then raise_exn (Runtime_Error ''Index identity changed before removal'')
     else bind_eff (cl_index cl Idx_Delete) (\<lambda>r. raise_for_status r))"

fun remove_topics :: "'s cluster \<Rightarrow> study \<Rightarrow> ledger \<Rightarrow> ustr list \<Rightarrow> (unit, 's) eff" where
  "remove_topics cl st l [] = ret ()"
| "remove_topics cl st l (n # ns) = bind_eff (describe cl st n) (\<lambda>j. case map_of (lg_topics l) n of
       None \<Rightarrow> raise_exn Key_Error
     | Some i \<Rightarrow> if j \<noteq> i then raise_exn (Runtime_Error ''Topic identity changed before removal'')
         else bind_eff (cl_delete cl n) (\<lambda>_. remove_topics cl st l ns))"

fun wait_gone :: "nat \<Rightarrow> 's cluster \<Rightarrow> rat \<Rightarrow> ustr list \<Rightarrow> (unit, 's) eff" where
  "wait_gone 0 cl deadline live = raise_exn (Other_Error ''waiting'')"
| "wait_gone (Suc n) cl deadline live = bind_eff (cl_topics cl) (\<lambda>names.
     if set live \<inter> set names = {} then ret ()
     else (\<lambda>s. case cl_clock cl s of (t, s') \<Rightarrow>
       if deadline \<le> t then (Inl (Runtime_Error ''Topic deletion has not become visible; retain recovery ledger''), s')
       else wait_gone n cl deadline live s'))"

definition cleanup :: "nat \<Rightarrow> 's cluster \<Rightarrow> study \<Rightarrow> ledger \<Rightarrow> (ustr list \<times> bool, 's) eff" where
  "cleanup rounds cl st l = bind_eff (verify_resources cl st l True) (\<lambda>(live, index).
     bind_eff (if index then remove_index cl st l else ret ()) (\<lambda>_.
     bind_eff (remove_topics cl st l live) (\<lambda>_.
     bind_eff (\<lambda>s. case cl_clock cl s of (t, s') \<Rightarrow> (Inr (t + 15), s')) (\<lambda>deadline.
     bind_eff (wait_gone rounds cl deadline live) (\<lambda>_. ret (live, index))))))"

section \<open>Records\<close>

text \<open>
  \<open>pr_send\<close> produces one record and flushes: how many stayed in the queue and the delivery reports, each an offset
  or an error.
\<close>

record 's kafka_client =
  kc_send :: "ustr \<Rightarrow> bytes \<Rightarrow> bytes \<Rightarrow> (nat \<times> int option list, 's) eff"
  kc_watermarks :: "ustr \<Rightarrow> (int \<times> int, 's) eff"
  kc_committed :: "ustr \<Rightarrow> (int option, 's) eff"

definition publish :: "'s kafka_client \<Rightarrow> study \<Rightarrow> ustr \<Rightarrow> bytes \<Rightarrow> bytes \<Rightarrow> nat \<times> 's \<Rightarrow> int res \<times> nat \<times> 's" where
  "publish kc st topic key v = (\<lambda>(sent, s).
     if \<not> in_study st topic then (Inl (Value_Error ''Publish outside study scope''), sent, s)
     else if max_message * 2 < length v then (Inl (Value_Error ''Invalid/oversized study record''), sent, s)
     else if 100 < Suc sent then (Inl (Runtime_Error ''Study publish budget exhausted''), Suc sent, s)
     else case kc_send kc topic key v s of
         (Inl e, s') \<Rightarrow> (Inl e, Suc sent, s')
       | (Inr (0, Some offset # _), s') \<Rightarrow> (Inr offset, Suc sent, s')
       | (Inr _, s') \<Rightarrow> (Inl (Runtime_Error ''Study record not acknowledged; do not commit source''), Suc sent, s'))"

text \<open>Where a reader of a topic starts: the given offset, or the committed one.\<close>

definition reader_start :: "'s kafka_client \<Rightarrow> study \<Rightarrow> ustr \<Rightarrow> int option \<Rightarrow> (int, 's) eff" where
  "reader_start kc st topic offset = (if \<not> in_study st topic then raise_exn (Value_Error ''Read outside study scope'')
     else bind_eff (kc_watermarks kc topic) (\<lambda>(low, high).
       bind_eff (case offset of Some n \<Rightarrow> ret n
         | None \<Rightarrow> bind_eff (kc_committed kc topic) (\<lambda>c. case c of
               None \<Rightarrow> raise_exn (Runtime_Error ''Cannot read committed position'')
             | Some n \<Rightarrow> if n \<ge> 0 then ret n
                 else if low \<noteq> 0 then raise_exn (Runtime_Error ''No checkpoint and retained prefix is missing; no silent reset'')
                 else ret 0)) (\<lambda>n.
       if low \<le> n \<and> n \<le> high then ret n
       else raise_exn (Runtime_Error ''Checkpoint outside retained log; no silent offset reset''))))"

definition watermark :: "'s kafka_client \<Rightarrow> study \<Rightarrow> ustr \<Rightarrow> (int \<times> int \<times> int option, 's) eff" where
  "watermark kc st topic =
     bind_eff (reader_start kc st topic (Some 0)) (\<lambda>_.
     bind_eff (kc_watermarks kc topic) (\<lambda>(low, high).
     bind_eff (kc_committed kc topic) (\<lambda>c. case c of
         None \<Rightarrow> raise_exn (Runtime_Error ''Cannot read committed position'')
       | Some n \<Rightarrow> ret (low, high, if n \<ge> 0 then Some n else None))))"

text \<open>The polls made before the deadline.\<close>

datatype poll = No_Message | Eof | Poll_Error | Message "bytes option"

fun next_message :: "poll list \<Rightarrow> bytes option res \<times> poll list" where
  "next_message [] = (Inl (Runtime_Error ''Expected study message not observed before deadline''), [])"
| "next_message (p # ps) = (case p of
       No_Message \<Rightarrow> next_message ps
     | Eof \<Rightarrow> next_message ps
     | Poll_Error \<Rightarrow> (Inl (Runtime_Error ''Kafka study poll error''), ps)
     | Message v \<Rightarrow> (Inr v, ps))"

fun read_records :: "(bytes \<Rightarrow> pv option) \<Rightarrow> nat \<Rightarrow> (poll list) list \<Rightarrow> pv list res" where
  "read_records parse 0 polls = Inr []"
| "read_records parse (Suc n) polls = (case polls of [] \<Rightarrow> Inl (Runtime_Error ''Expected study message not observed before deadline'')
     | ps # rest \<Rightarrow> bind_res (fst (next_message ps)) (\<lambda>v. case v of
           None \<Rightarrow> Inl (Runtime_Error ''Invalid DLQ size'')
         | Some raw \<Rightarrow> if max_message * 2 < length raw then Inl (Runtime_Error ''Invalid DLQ size'')
             else case parse raw of None \<Rightarrow> Inl (Value_Error ''JSONDecodeError'')
               | Some x \<Rightarrow> bind_res (read_records parse n rest) (\<lambda>xs. Inr (x # xs))))"

definition read_dlq :: "'s kafka_client \<Rightarrow> study \<Rightarrow> (bytes \<Rightarrow> pv option) \<Rightarrow> (poll list) list \<Rightarrow> (pv list, 's) eff" where
  "read_dlq kc st parse polls =
     bind_eff (watermark kc st (st_dlq st)) (\<lambda>(_, high, _).
     if high > 32 then raise_exn (Runtime_Error ''DLQ inspection budget exceeded'')
     else bind_eff (reader_start kc st (st_dlq st) (Some 0)) (\<lambda>_. lift_res (read_records parse (nat high) polls)))"

section \<open>Reconciliation of a run\<close>

definition exact :: "'s cluster \<Rightarrow> ustr \<Rightarrow> (pv, 's) eff" where
  "exact cl oid = bind_eff (cl_index cl (Idx_Doc oid)) (\<lambda>r.
     if re_status r = 404 then ret PNone
     else bind_eff (raise_for_status r) (\<lambda>_. lift_res (bind_res (reply_json r) (\<lambda>v. subscript v ''_source''))))"

text \<open>\<open>other is not None and canonical(other) == canonical(original)\<close>; serialising an order of a column cannot fail.\<close>

definition same_json :: "pv \<Rightarrow> pv \<Rightarrow> bool res" where
  "same_json other original = (if other = PNone then Inr False
     else bind_res (canonical_text other) (\<lambda>a. bind_res (canonical_text original) (\<lambda>b. Inr (a = b))))"

definition audit_matched :: "pv \<Rightarrow> pv \<Rightarrow> pv list \<Rightarrow> pv \<Rightarrow> bool res" where
  "audit_matched cached stored matches original =
     bind_res (same_json stored original) (\<lambda>a. if \<not> a \<or> length matches \<noteq> 1 then Inr False else
     bind_res (same_json (hd matches) original) (\<lambda>b. if \<not> b then Inr False else
     if cached = PNone then Inr True else same_json cached original))"

record audit_row =
  au_order :: ustr
  au_matched :: bool
  au_stable :: bool

text \<open>The store, the cache, the document and the search of one order are read once each, the store twice.\<close>

definition audit_order ::
  "(ustr \<Rightarrow> (pv, 's) eff) \<Rightarrow> (ustr \<Rightarrow> (pv, 's) eff) \<Rightarrow> (ustr \<Rightarrow> (pv list, 's) eff) \<Rightarrow> 's cluster \<Rightarrow> ustr \<times> ustr \<Rightarrow> (audit_row, 's) eff" where
  "audit_order by_key cache find_orders cl f =
     bind_eff (by_key (snd f)) (\<lambda>first.
     bind_eff (cache (fst f)) (\<lambda>cached.
     bind_eff (exact cl (fst f)) (\<lambda>stored.
     bind_eff (find_orders (fst f)) (\<lambda>orders.
     let matches = filter (\<lambda>x. case x of PDict d \<Rightarrow> dget d ''id'' = PStr (fst f) | _ \<Rightarrow> False) orders in
     bind_eff (by_key (snd f)) (\<lambda>original.
     let stable = (case original of PDict d \<Rightarrow> original = first \<and> dget d ''id'' = PStr (fst f) | _ \<Rightarrow> False) in
     bind_eff (lift_res (if stable then audit_matched cached stored matches original else Inr False)) (\<lambda>ok.
     ret \<lparr>au_order = fst f, au_matched = ok, au_stable = stable\<rparr>))))))"

fun audit_orders ::
  "(ustr \<Rightarrow> (pv, 's) eff) \<Rightarrow> (ustr \<Rightarrow> (pv, 's) eff) \<Rightarrow> (ustr \<Rightarrow> (pv list, 's) eff) \<Rightarrow> 's cluster \<Rightarrow> (ustr \<times> ustr) list \<Rightarrow> (audit_row list, 's) eff" where
  "audit_orders by_key cache find_orders cl [] = ret []"
| "audit_orders by_key cache find_orders cl (f # fs) = bind_eff (audit_order by_key cache find_orders cl f) (\<lambda>r.
     bind_eff (audit_orders by_key cache find_orders cl fs) (\<lambda>rs. ret (r # rs)))"

definition audit_run ::
  "(ustr \<Rightarrow> (pv, 's) eff) \<Rightarrow> (ustr \<Rightarrow> (pv, 's) eff) \<Rightarrow> (ustr \<Rightarrow> (pv list, 's) eff) \<Rightarrow> 's cluster \<Rightarrow> (ustr \<times> ustr) list \<Rightarrow> (bool \<times> audit_row list, 's) eff" where
  "audit_run by_key cache find_orders cl fixtures = bind_eff (audit_orders by_key cache find_orders cl fixtures) (\<lambda>rows.
     ret (list_all au_matched rows, rows))"

section \<open>What the runtime did to the cluster\<close>

datatype call = Saw_Topic ustr ustr | Removed_Topic ustr | Saw_Index ustr | Saw_Owner bool | Removed_Index | Put_Something

text \<open>A cluster that records what a description returned and which resource was removed or created.\<close>

definition seen_uuid :: "study \<Rightarrow> reply res \<Rightarrow> call list" where
  "seen_uuid st r = (case r of Inl _ \<Rightarrow> [] | Inr r \<Rightarrow> (case bind_res (index_part r st ''settings'') (\<lambda>s. subscript s ''index.uuid'') of
       Inr (PStr i) \<Rightarrow> [Saw_Index i] | _ \<Rightarrow> []))"

definition seen_owner :: "study \<Rightarrow> reply res \<Rightarrow> call list" where
  "seen_owner st r = (case r of Inl _ \<Rightarrow> [Saw_Owner False] | Inr r \<Rightarrow> (case bind_res (index_part r st ''mappings'') (\<lambda>m. py_get_dict m ''_meta'') of
       Inr m \<Rightarrow> [Saw_Owner (owner_meta st m)] | _ \<Rightarrow> [Saw_Owner False]))"

definition watched :: "study \<Rightarrow> 's cluster \<Rightarrow> ('s \<times> call list) cluster" where
  "watched st cl = \<lparr>cl_topics = recording (\<lambda>_. []) (cl_topics cl),
     cl_describe = (\<lambda>n. recording (\<lambda>r. case r of Inl _ \<Rightarrow> [] | Inr t \<Rightarrow> [Saw_Topic n (ti_id t)]) (cl_describe cl n)),
     cl_create = (\<lambda>n c. recording (\<lambda>_. [Put_Something]) (cl_create cl n c)),
     cl_delete = (\<lambda>n. recording (\<lambda>_. [Removed_Topic n]) (cl_delete cl n)),
     cl_index = (\<lambda>q. recording (\<lambda>r. case q of Idx_Settings \<Rightarrow> seen_uuid st r | Idx_Mapping \<Rightarrow> seen_owner st r
         | Idx_Delete \<Rightarrow> [Removed_Index] | Idx_Put _ \<Rightarrow> [Put_Something] | _ \<Rightarrow> []) (cl_index cl q)),
     cl_clock = (\<lambda>(s, log). case cl_clock cl s of (t, s') \<Rightarrow> (t, s', log))\<rparr>"

text \<open>A removal follows at once the description that gave the identity of the ledger.\<close>

definition removal :: "call \<Rightarrow> bool" where
  "removal c \<longleftrightarrow> (case c of Removed_Topic _ \<Rightarrow> True | Removed_Index \<Rightarrow> True | Put_Something \<Rightarrow> True | _ \<Rightarrow> False)"

lemma removal_simps [simp]:
  "\<not> removal (Saw_Topic n i)" "\<not> removal (Saw_Index i)" "\<not> removal (Saw_Owner b)"
  "removal (Removed_Topic n)" "removal Removed_Index" "removal Put_Something"
  by (simp_all add: removal_def)

definition allowed :: "ledger \<Rightarrow> call list \<Rightarrow> call \<Rightarrow> bool" where
  "allowed l prev c \<longleftrightarrow> (case c of
       Removed_Topic n \<Rightarrow> (case prev of Saw_Topic m i # _ \<Rightarrow> m = n \<and> map_of (lg_topics l) n = Some i | _ \<Rightarrow> False)
     | Removed_Index \<Rightarrow> (case prev of Saw_Owner True # Saw_Index i # _ \<Rightarrow> map_option snd (lg_index l) = Some i | _ \<Rightarrow> False)
     | Put_Something \<Rightarrow> False
     | _ \<Rightarrow> True)"

fun guarded_from :: "ledger \<Rightarrow> call list \<Rightarrow> call list \<Rightarrow> bool" where
  "guarded_from l prev [] = True"
| "guarded_from l prev (c # cs) = (allowed l prev c \<and> guarded_from l (c # prev) cs)"

definition removed_topics :: "call list \<Rightarrow> ustr list" where
  "removed_topics cs = concat (map (\<lambda>c. case c of Removed_Topic n \<Rightarrow> [n] | _ \<Rightarrow> []) cs)"

lemma guarded_append: "guarded_from l prev (a @ b) \<longleftrightarrow> guarded_from l prev a \<and> guarded_from l (rev a @ prev) b"
  by (induction a arbitrary: prev) auto

lemma guarded_quiet: "list_all (\<lambda>c. \<not> removal c) ext \<Longrightarrow> guarded_from l prev ext"
  by (induction ext arbitrary: prev) (auto simp: allowed_def removal_def split: call.splits)

lemma removed_append [simp]: "removed_topics (a @ b) = removed_topics a @ removed_topics b"
  by (simp add: removed_topics_def)

lemma removed_Cons [simp]:
  "removed_topics [] = []" "removed_topics (Removed_Topic n # cs) = n # removed_topics cs"
  "removed_topics (Saw_Topic n i # cs) = removed_topics cs"
  by (simp_all add: removed_topics_def)

lemma removed_quiet: "list_all (\<lambda>c. \<not> removal c) ext \<Longrightarrow> removed_topics ext = [] \<and> Removed_Index \<notin> set ext"
  by (induction ext) (auto simp: removed_topics_def removal_def split: call.splits)

abbreviation quiet :: "call list \<Rightarrow> bool" where "quiet ext \<equiv> list_all (\<lambda>c. \<not> removal c) ext"

lemma logs_cluster:
  "logs (cl_topics (watched st cl)) (\<lambda>r ext. ext = [])"
  "logs (cl_describe (watched st cl) n) (\<lambda>r ext. ext = (case r of Inl _ \<Rightarrow> [] | Inr t \<Rightarrow> [Saw_Topic n (ti_id t)]))"
  "logs (cl_delete (watched st cl) n) (\<lambda>r ext. ext = [Removed_Topic n])"
  "logs (cl_index (watched st cl) Idx_Head) (\<lambda>r ext. ext = [])"
  "logs (cl_index (watched st cl) Idx_Settings) (\<lambda>r ext. ext = seen_uuid st r)"
  "logs (cl_index (watched st cl) Idx_Mapping) (\<lambda>r ext. ext = seen_owner st r)"
  "logs (cl_index (watched st cl) Idx_Delete) (\<lambda>r ext. ext = [Removed_Index])"
  by (simp_all add: watched_def logs_recording)

lemma quiet_seen [simp]: "quiet (seen_uuid st r)" "quiet (seen_owner st r)"
  by (auto simp: seen_uuid_def seen_owner_def removal_def split: sum.splits pv.splits)

lemma logs_describe: "logs (describe (watched st cl) st n)
    (\<lambda>r ext. quiet ext \<and> (\<forall>j. r = Inr j \<longrightarrow> ext = [Saw_Topic n j] \<and> in_study st n))"
proof -
  have "logs (bind_eff (cl_describe (watched st cl) n) (\<lambda>t.
      if ti_id t \<in> set no_topic_ids \<or> ti_internal t \<or> ti_partitions t \<noteq> 1
      then raise_exn (Runtime_Error ''Invalid topic identity/partition count'') else ret (ti_id t)))
    (\<lambda>r ext. quiet ext \<and> (\<forall>j. r = Inr j \<longrightarrow> ext = [Saw_Topic n j]))"
    by (rule logs_bindI [OF logs_cluster(2), where g = "\<lambda>t r ext. ext = [] \<and> (\<forall>j. r = Inr j \<longrightarrow> j = ti_id t)"])
      (auto simp: removal_def intro!: logs_if logs_ret)
  then show ?thesis unfolding describe_def by (auto intro!: logs_if logs_ret elim: logs_mono)
qed

lemma logs_identity: "logs (index_identity (watched st cl) st)
    (\<lambda>r ext. quiet ext \<and> (\<forall>i. r = Inr i \<longrightarrow> ext = [Saw_Index i, Saw_Owner True]))"
  unfolding index_identity_def
proof (rule logs_bindI [OF logs_cluster(5), where
      g = "\<lambda>a r ext. quiet ext \<and> (\<forall>i. r = Inr i \<longrightarrow> seen_uuid st (Inr a) @ ext = [Saw_Index i, Saw_Owner True])"])
  fix a
  let ?u = "bind_res (index_part a st ''settings'') (\<lambda>s. subscript s ''index.uuid'')"
  let ?rest = "\<lambda>uuid. bind_eff (cl_index (watched st cl) Idx_Mapping) (\<lambda>r. bind_eff (raise_for_status r) (\<lambda>_.
     bind_eff (lift_res (bind_res (index_part r st ''mappings'') (\<lambda>m. py_get_dict m ''_meta''))) (\<lambda>m.
     case uuid of PStr i \<Rightarrow> if \<not> owner_meta st m \<or> i = [] then raise_exn (Runtime_Error ''Index owner/identity mismatch'')
                            else ret i
       | _ \<Rightarrow> raise_exn (Runtime_Error ''Index owner/identity mismatch''))))"
  have rest: "logs (?rest uuid) (\<lambda>r ext. quiet ext \<and> (\<forall>i. r = Inr i \<longrightarrow> uuid = PStr i \<and> ext = [Saw_Owner True]))" for uuid
  proof (rule logs_bindI [OF logs_cluster(6), where
        g = "\<lambda>b r ext. ext = [] \<and> (\<forall>i. r = Inr i \<longrightarrow> uuid = PStr i \<and> seen_owner st (Inr b) = [Saw_Owner True])"])
    fix b
    let ?m = "bind_res (index_part b st ''mappings'') (\<lambda>m. py_get_dict m ''_meta'')"
    show "logs (bind_eff (raise_for_status b) (\<lambda>_. bind_eff (lift_res ?m) (\<lambda>m.
     case uuid of PStr i \<Rightarrow> if \<not> owner_meta st m \<or> i = [] then raise_exn (Runtime_Error ''Index owner/identity mismatch'')
                            else ret i
       | _ \<Rightarrow> raise_exn (Runtime_Error ''Index owner/identity mismatch'')))) 
      (\<lambda>r ext. ext = [] \<and> (\<forall>i. r = Inr i \<longrightarrow> uuid = PStr i \<and> seen_owner st (Inr b) = [Saw_Owner True]))"
    proof (rule logs_bindI [OF logs_quiet(4), where
          g = "\<lambda>_ r ext. ext = [] \<and> (\<forall>i. r = Inr i \<longrightarrow> uuid = PStr i \<and> seen_owner st (Inr b) = [Saw_Owner True])"])
      have c: "logs (case uuid of PStr i \<Rightarrow> if \<not> owner_meta st m \<or> i = [] then raise_exn (Runtime_Error ''Index owner/identity mismatch'')
                            else ret i
       | _ \<Rightarrow> raise_exn (Runtime_Error ''Index owner/identity mismatch''))
        (\<lambda>r ext. ext = [] \<and> (\<forall>i. r = Inr i \<longrightarrow> uuid = PStr i \<and> owner_meta st m))" for m
        by (cases uuid) (auto intro!: logs_if logs_ret)
      show "logs (bind_eff (lift_res ?m) (\<lambda>m.
     case uuid of PStr i \<Rightarrow> if \<not> owner_meta st m \<or> i = [] then raise_exn (Runtime_Error ''Index owner/identity mismatch'')
                            else ret i
       | _ \<Rightarrow> raise_exn (Runtime_Error ''Index owner/identity mismatch'')))
      (\<lambda>r ext. ext = [] \<and> (\<forall>i. r = Inr i \<longrightarrow> uuid = PStr i \<and> seen_owner st (Inr b) = [Saw_Owner True]))"
        by (rule logs_bindI [OF logs_quiet(3) c]) (auto simp: seen_owner_def split: sum.splits)
    qed auto
  qed auto
  show "logs (bind_eff (raise_for_status a) (\<lambda>_. bind_eff (lift_res ?u) ?rest))
     (\<lambda>r ext. quiet ext \<and> (\<forall>i. r = Inr i \<longrightarrow> seen_uuid st (Inr a) @ ext = [Saw_Index i, Saw_Owner True]))"
  proof (rule logs_bindI [OF logs_quiet(4), where
      g = "\<lambda>_ r ext. quiet ext \<and> (\<forall>i. r = Inr i \<longrightarrow> seen_uuid st (Inr a) @ ext = [Saw_Index i, Saw_Owner True])"])
    show "logs (bind_eff (lift_res ?u) ?rest)
     (\<lambda>r ext. quiet ext \<and> (\<forall>i. r = Inr i \<longrightarrow> seen_uuid st (Inr a) @ ext = [Saw_Index i, Saw_Owner True]))"
    proof (rule logs_bindI [OF logs_quiet(3) rest])
      fix uuid r and e1 e2 :: "call list"
      assume u: "Inr uuid = ?u \<and> e1 = []" and r: "quiet e2 \<and> (\<forall>i. r = Inr i \<longrightarrow> uuid = PStr i \<and> e2 = [Saw_Owner True])"
      have "seen_uuid st (Inr a) = [Saw_Index i]" if "uuid = PStr i" for i
        unfolding seen_uuid_def sum.case conjunct1 [OF u, symmetric] that pv.case by (rule refl)
      then show "quiet (e1 @ e2) \<and> (\<forall>i. r = Inr i \<longrightarrow> seen_uuid st (Inr a) @ e1 @ e2 = [Saw_Index i, Saw_Owner True])"
        using r u by (cases r) simp_all
    qed simp
  qed auto
qed auto

lemma logs_verify_topics: "logs (verify_topics (watched st cl) st l missing names ns)
    (\<lambda>r ext. quiet ext \<and> (\<forall>live. r = Inr live \<longrightarrow>
       (\<forall>n\<in>set live. in_study st n \<and> (\<exists>i. map_of (lg_topics l) n = Some i \<and> Saw_Topic n i \<in> set ext))))"
proof (induction ns)
  case Nil
  show ?case unfolding verify_topics.simps by (rule logs_ret) simp
next
  case (Cons n ns)
  let ?P = "\<lambda>r ext. quiet ext \<and> (\<forall>live. r = Inr live \<longrightarrow>
       (\<forall>n\<in>set live. in_study st n \<and> (\<exists>i. map_of (lg_topics l) n = Some i \<and> Saw_Topic n i \<in> set ext)))"
  have k: "logs (if j \<noteq> i then raise_exn (Runtime_Error ''Topic UUID missing or changed; cleanup refused'')
      else bind_eff (verify_topics (watched st cl) st l missing names ns) (\<lambda>live. ret (n # live)))
      (\<lambda>r ext. quiet ext \<and> (\<forall>live. r = Inr live \<longrightarrow> j = i \<and> (\<exists>rest. live = n # rest \<and> ?P (Inr rest) ext)))" for i j
    by (auto intro!: logs_if logs_ret logs_bindI [OF Cons.IH, where g = "\<lambda>live r ext. r = Inr (n # live) \<and> ext = []"])
  have "logs (bind_eff (describe (watched st cl) st n) (\<lambda>j.
      if j \<noteq> i then raise_exn (Runtime_Error ''Topic UUID missing or changed; cleanup refused'')
      else bind_eff (verify_topics (watched st cl) st l missing names ns) (\<lambda>live. ret (n # live)))) ?P"
    if "map_of (lg_topics l) n = Some i" for i
  proof (rule logs_bindI [OF logs_describe k])
    fix j r e1 e2
    assume "quiet e1 \<and> (\<forall>j'. Inr j = Inr j' \<longrightarrow> e1 = [Saw_Topic n j'] \<and> in_study st n)"
      and "quiet e2 \<and> (\<forall>live. r = Inr live \<longrightarrow> j = i \<and> (\<exists>rest. live = n # rest \<and> ?P (Inr rest) e2))"
    then show "?P r (e1 @ e2)" using that by (cases r) auto
  qed simp
  then show ?case using Cons.IH by (auto intro!: logs_ret split: option.splits)
qed

lemma logs_verify_index: "logs (verify_index (watched st cl) st l missing)
    (\<lambda>r ext. quiet ext \<and> (r = Inr True \<longrightarrow>
       (\<exists>n i. lg_index l = Some (n, i) \<and> Saw_Index i \<in> set ext \<and> Saw_Owner True \<in> set ext)))"
proof -
  let ?P = "\<lambda>r ext. quiet ext \<and> (r = Inr True \<longrightarrow>
       (\<exists>n i. lg_index l = Some (n, i) \<and> Saw_Index i \<in> set ext \<and> Saw_Owner True \<in> set ext))"
  have i: "logs (bind_eff (index_identity (watched st cl) st) (\<lambda>j.
       if j \<noteq> i then raise_exn (Runtime_Error ''Index UUID missing or changed; cleanup refused'') else ret True)) ?P"
    if "lg_index l = Some (n, i)" for n i
    by (rule logs_bindI [OF logs_identity, where g = "\<lambda>j r ext. ext = [] \<and> (r = Inr True \<longrightarrow> j = i)"])
      (use that in \<open>auto intro!: logs_if logs_ret\<close>)
  have s: "logs (bind_eff (raise_for_status r) (\<lambda>_. case lg_index l of
         None \<Rightarrow> raise_exn (Runtime_Error ''Index UUID missing or changed; cleanup refused'')
       | Some (_, i) \<Rightarrow> bind_eff (index_identity (watched st cl) st) (\<lambda>j.
           if j \<noteq> i then raise_exn (Runtime_Error ''Index UUID missing or changed; cleanup refused'') else ret True))) ?P" for r
  proof (rule logs_bindI [OF logs_quiet(4), where g = "\<lambda>_. ?P"])
    show "logs (case lg_index l of
         None \<Rightarrow> raise_exn (Runtime_Error ''Index UUID missing or changed; cleanup refused'')
       | Some (_, i) \<Rightarrow> bind_eff (index_identity (watched st cl) st) (\<lambda>j.
           if j \<noteq> i then raise_exn (Runtime_Error ''Index UUID missing or changed; cleanup refused'') else ret True)) ?P"
    proof (cases "lg_index l")
      case None
      show ?thesis unfolding None option.case by (rule logs_ret) simp
    next
      case (Some p)
      then show ?thesis using i [of "fst p" "snd p"] by (cases p) simp
    qed
  qed auto
  show ?thesis unfolding verify_index_def
    by (rule logs_bindI [OF logs_cluster(4), where g = "\<lambda>_. ?P"]) (auto intro!: logs_ret s)
qed

lemma logs_remove_index: "logs (remove_index (watched st cl) st l)
    (\<lambda>r ext. (\<forall>prev. guarded_from l prev ext) \<and> removed_topics ext = [] \<and> (r = Inr () \<longrightarrow> Removed_Index \<in> set ext))"
proof -
  let ?P = "\<lambda>r ext. (\<forall>prev. guarded_from l prev ext) \<and> removed_topics ext = [] \<and> (r = Inr () \<longrightarrow> Removed_Index \<in> set ext)"
  have del: "logs (bind_eff (cl_index (watched st cl) Idx_Delete) (\<lambda>r. raise_for_status r)) (\<lambda>r ext. ext = [Removed_Index])"
    by (rule logs_bindI [OF logs_cluster(7), where g = "\<lambda>_ r ext. ext = []"]) auto
  have k: "logs (case lg_index l of None \<Rightarrow> raise_exn Type_Error | Some (_, i) \<Rightarrow>
     if j \<noteq> i then raise_exn (Runtime_Error ''Index identity changed before removal'')
     else bind_eff (cl_index (watched st cl) Idx_Delete) (\<lambda>r. raise_for_status r))
     (\<lambda>r ext. ext = [] \<and> r \<noteq> Inr () \<or> ext = [Removed_Index] \<and> map_option snd (lg_index l) = Some j)" for j
  proof (cases "lg_index l")
    case None
    show ?thesis unfolding None option.case by (rule logs_ret) simp
  next
    case (Some p)
    show ?thesis unfolding Some option.case
      by (cases p) (auto intro!: logs_if logs_ret intro: logs_mono [OF del])
  qed
  show ?thesis unfolding remove_index_def
  proof (rule logs_bindI [OF logs_identity k])
    fix e :: exn and ext
    assume "quiet ext \<and> (\<forall>i. Inl e = Inr i \<longrightarrow> ext = [Saw_Index i, Saw_Owner True])"
    then show "?P (Inl e) ext" by (auto simp: guarded_quiet removed_quiet)
  next
    fix j r e1 e2
    assume "quiet e1 \<and> (\<forall>i. Inr j = Inr i \<longrightarrow> e1 = [Saw_Index i, Saw_Owner True])"
      and "e2 = [] \<and> r \<noteq> Inr () \<or> e2 = [Removed_Index] \<and> map_option snd (lg_index l) = Some j"
    then show "?P r (e1 @ e2)" by (auto simp: allowed_def removed_topics_def)
  qed
qed

lemma logs_remove_topics: "logs (remove_topics (watched st cl) st l ns)
    (\<lambda>r ext. (\<forall>prev. guarded_from l prev ext) \<and> Removed_Index \<notin> set ext \<and> set (removed_topics ext) \<subseteq> set ns
      \<and> (r = Inr () \<longrightarrow> removed_topics ext = ns))"
proof (induction ns)
  case Nil
  show ?case unfolding remove_topics.simps by (rule logs_ret) simp
next
  case (Cons n ns)
  let ?Q = "\<lambda>ns r ext. (\<forall>prev. guarded_from l prev ext) \<and> Removed_Index \<notin> set ext \<and> set (removed_topics ext) \<subseteq> set ns
      \<and> (r = Inr () \<longrightarrow> removed_topics ext = ns)"
  have del: "logs (bind_eff (cl_delete (watched st cl) n) (\<lambda>_. remove_topics (watched st cl) st l ns))
     (\<lambda>r ext. ext = [Removed_Topic n] \<and> r \<noteq> Inr () \<or> (\<exists>e. ext = Removed_Topic n # e \<and> ?Q ns r e))"
    by (rule logs_bindI [OF logs_cluster(3) Cons.IH]) auto
  have k: "logs (case map_of (lg_topics l) n of None \<Rightarrow> raise_exn Key_Error
     | Some i \<Rightarrow> if j \<noteq> i then raise_exn (Runtime_Error ''Topic identity changed before removal'')
         else bind_eff (cl_delete (watched st cl) n) (\<lambda>_. remove_topics (watched st cl) st l ns))
     (\<lambda>r ext. ext = [] \<and> r \<noteq> Inr () \<or> map_of (lg_topics l) n = Some j \<and>
        (ext = [Removed_Topic n] \<and> r \<noteq> Inr () \<or> (\<exists>e. ext = Removed_Topic n # e \<and> ?Q ns r e)))" for j
  proof (cases "map_of (lg_topics l) n")
    case None
    show ?thesis unfolding None option.case by (rule logs_ret) simp
  next
    case (Some i)
    show ?thesis unfolding Some option.case
      by (auto intro!: logs_if logs_ret intro: logs_mono [OF del])
  qed
  show ?case unfolding remove_topics.simps
  proof (rule logs_bindI [OF logs_describe k])
    fix e :: exn and ext
    assume "quiet ext \<and> (\<forall>j. Inl e = Inr j \<longrightarrow> ext = [Saw_Topic n j] \<and> in_study st n)"
    then show "?Q (n # ns) (Inl e) ext" by (auto simp: guarded_quiet removed_quiet)
  next
    fix j r e1 e2
    assume "quiet e1 \<and> (\<forall>i. Inr j = Inr i \<longrightarrow> e1 = [Saw_Topic n i] \<and> in_study st n)"
      and "e2 = [] \<and> r \<noteq> Inr () \<or> map_of (lg_topics l) n = Some j \<and>
        (e2 = [Removed_Topic n] \<and> r \<noteq> Inr () \<or> (\<exists>e. e2 = Removed_Topic n # e \<and> ?Q ns r e))"
    then show "?Q (n # ns) r (e1 @ e2)" by (auto simp: allowed_def)
  qed
qed

lemma logs_wait: "logs (wait_gone k (watched st cl) deadline live) (\<lambda>r ext. ext = [])"
proof (induction k)
  case (Suc k)
  have w: "logs (\<lambda>s. case cl_clock (watched st cl) s of (t, s') \<Rightarrow>
       if deadline \<le> t then (Inl (Runtime_Error m), s') else wait_gone k (watched st cl) deadline live s') (\<lambda>r ext. ext = [])" for m
    unfolding logs_def
  proof (intro allI)
    fix s log
    obtain t s' where c: "cl_clock cl s = (t, s')" by fastforce
    show "\<exists>ext. snd (snd (case cl_clock (watched st cl) (s, log) of (t, s') \<Rightarrow>
       if deadline \<le> t then (Inl (Runtime_Error m), s') else wait_gone k (watched st cl) deadline live s')) = log @ ext \<and> ext = []"
      using Suc.IH c unfolding logs_def by (simp add: watched_def)
  qed
  show ?case unfolding wait_gone.simps
    by (rule logs_bindI [OF logs_cluster(1), where g = "\<lambda>_ r ext. ext = []"]) (auto intro!: logs_if w intro: logs_mono [OF logs_quiet(1)])
qed (auto simp: logs_def)

lemma logs_clock: "logs (\<lambda>s. case cl_clock (watched st cl) s of (t, s') \<Rightarrow> (Inr (f t), s')) (\<lambda>r ext. ext = [])"
  by (auto simp: logs_def watched_def split: prod.splits)

text \<open>What verification established in the log \<open>v\<close> for the removals of \<open>w\<close>.\<close>

definition verified :: "study \<Rightarrow> ledger \<Rightarrow> call list \<Rightarrow> call list \<Rightarrow> bool" where
  "verified st l v w \<longleftrightarrow> (\<forall>n\<in>set (removed_topics w). in_study st n \<and> (\<exists>i. map_of (lg_topics l) n = Some i \<and> Saw_Topic n i \<in> set v))
     \<and> (Removed_Index \<in> set w \<longrightarrow> (\<exists>n i. lg_index l = Some (n, i) \<and> Saw_Index i \<in> set v \<and> Saw_Owner True \<in> set v))"

definition cleaned :: "(ustr list \<times> bool) res \<Rightarrow> call list \<Rightarrow> bool" where
  "cleaned r w \<longleftrightarrow> (case r of Inl _ \<Rightarrow> True | Inr (live, index) \<Rightarrow> removed_topics w = live \<and> (index \<longrightarrow> Removed_Index \<in> set w))"

lemma logs_verify: "logs (verify_resources (watched st cl) st l missing)
    (\<lambda>r ext. quiet ext \<and> (\<forall>live index. r = Inr (live, index) \<longrightarrow>
       (\<forall>n\<in>set live. in_study st n \<and> (\<exists>i. map_of (lg_topics l) n = Some i \<and> Saw_Topic n i \<in> set ext))
       \<and> (index \<longrightarrow> (\<exists>n i. lg_index l = Some (n, i) \<and> Saw_Index i \<in> set ext \<and> Saw_Owner True \<in> set ext))))"
    (is "logs _ ?P")
proof -
  have i: "logs (bind_eff (verify_index (watched st cl) st l missing) (\<lambda>index. ret (live, index)))
     (\<lambda>r ext. quiet ext \<and> (\<forall>p. r = Inr p \<longrightarrow> fst p = live \<and> (snd p \<longrightarrow> (\<exists>n i. lg_index l = Some (n, i) \<and> Saw_Index i \<in> set ext \<and> Saw_Owner True \<in> set ext))))" for live
    by (rule logs_bindI [OF logs_verify_index, where g = "\<lambda>b r ext. ext = [] \<and> r = Inr (live, b)"])
      (auto intro!: logs_ret)
  have t: "logs (bind_eff (verify_topics (watched st cl) st l missing names ns) (\<lambda>live.
     bind_eff (verify_index (watched st cl) st l missing) (\<lambda>index. ret (live, index)))) ?P" for names ns
  proof (rule logs_bindI [OF logs_verify_topics i])
  qed fastforce+
  show ?thesis unfolding verify_resources_def
    by (rule logs_bindI [OF logs_quiet(3), where g = "\<lambda>_. ?P"], rule logs_bindI [OF logs_cluster(1) t]) auto
qed

lemma logs_wait_clean: "logs (bind_eff (\<lambda>s. case cl_clock (watched st cl) s of (t, s') \<Rightarrow> (Inr (t + 15), s')) (\<lambda>deadline.
     bind_eff (wait_gone rounds (watched st cl) deadline live) (\<lambda>_. ret (live, index)))) (\<lambda>r ext. ext = [] \<and> (r = Inr (live, index) \<or> (\<exists>e. r = Inl e)))"
proof (rule logs_bindI [OF logs_clock])
  show "logs (bind_eff (wait_gone rounds (watched st cl) deadline live) (\<lambda>_. ret (live, index)))
     (\<lambda>r ext. ext = [] \<and> (r = Inr (live, index) \<or> (\<exists>e. r = Inl e)))" for deadline
    by (rule logs_bindI [OF logs_wait, where g = "\<lambda>_ r ext. ext = [] \<and> r = Inr (live, index)"]) (auto intro!: logs_ret)
qed auto

lemma logs_removal: "logs (bind_eff (if index then remove_index (watched st cl) st l else ret ()) (\<lambda>_.
     bind_eff (remove_topics (watched st cl) st l live) (\<lambda>_.
     bind_eff (\<lambda>s. case cl_clock (watched st cl) s of (t, s') \<Rightarrow> (Inr (t + 15), s')) (\<lambda>deadline.
     bind_eff (wait_gone rounds (watched st cl) deadline live) (\<lambda>_. ret (live, index))))))
   (\<lambda>r w. (\<forall>prev. guarded_from l prev w) \<and> set (removed_topics w) \<subseteq> set live \<and> (Removed_Index \<in> set w \<longrightarrow> index)
      \<and> cleaned r w \<and> (\<forall>p. r = Inr p \<longrightarrow> p = (live, index)))"
proof (rule logs_bindI)
  show "logs (if index then remove_index (watched st cl) st l else ret ())
    (\<lambda>r ext. (\<forall>prev. guarded_from l prev ext) \<and> removed_topics ext = [] \<and> (Removed_Index \<in> set ext \<longrightarrow> index)
       \<and> (r = Inr () \<and> index \<longrightarrow> Removed_Index \<in> set ext))"
    by (rule logs_if) (auto intro: logs_mono [OF logs_remove_index] logs_mono [OF logs_quiet(1)])
  show "logs (bind_eff (remove_topics (watched st cl) st l live) (\<lambda>_.
     bind_eff (\<lambda>s. case cl_clock (watched st cl) s of (t, s') \<Rightarrow> (Inr (t + 15), s')) (\<lambda>deadline.
     bind_eff (wait_gone rounds (watched st cl) deadline live) (\<lambda>_. ret (live, index)))))
   (\<lambda>r w. (\<forall>prev. guarded_from l prev w) \<and> Removed_Index \<notin> set w \<and> set (removed_topics w) \<subseteq> set live
      \<and> (\<forall>p. r = Inr p \<longrightarrow> p = (live, index) \<and> removed_topics w = live))" for a
    by (rule logs_bindI [OF logs_remove_topics logs_wait_clean]) auto
qed (auto simp: cleaned_def guarded_append split: sum.splits)

text \<open>C29: Cleaning up a message run removes only what the recovery ledger names, whatever other clients of the cluster do
  between the calls: every topic of the ledger that exists, and the index, was described once with the identity of the
  ledger before the first removal, each removal directly follows a second description that still gave that identity (for
  the index also the owner token and the run), nothing is created, and a cleanup that returns removed exactly the
  topics and the index it reports.\<close>

theorem cleanup_removes_owned:
  assumes "cleanup rounds (watched st cl) st l (s, []) = (r, s', cs)"
  shows "\<exists>v w. cs = v @ w \<and> list_all (\<lambda>c. \<not> removal c) v \<and> guarded_from l [] w \<and> verified st l v w \<and> cleaned r w"
proof -
  have "logs (cleanup rounds (watched st cl) st l) (\<lambda>r ext. \<exists>v w. ext = v @ w \<and> quiet v \<and> guarded_from l [] w \<and> verified st l v w \<and> cleaned r w)"
    unfolding cleanup_def
  proof (rule logs_bindI [OF logs_verify])
    show "logs (case p of (live, index) \<Rightarrow> bind_eff (if index then remove_index (watched st cl) st l else ret ()) (\<lambda>_.
     bind_eff (remove_topics (watched st cl) st l live) (\<lambda>_.
     bind_eff (\<lambda>s. case cl_clock (watched st cl) s of (t, s') \<Rightarrow> (Inr (t + 15), s')) (\<lambda>deadline.
     bind_eff (wait_gone rounds (watched st cl) deadline live) (\<lambda>_. ret (live, index))))))
     (\<lambda>r w. (\<forall>prev. guarded_from l prev w) \<and> set (removed_topics w) \<subseteq> set (fst p) \<and> (Removed_Index \<in> set w \<longrightarrow> snd p)
      \<and> cleaned r w \<and> (\<forall>q. r = Inr q \<longrightarrow> q = p))" for p
      using logs_removal [of "snd p" st cl l "fst p" rounds] unfolding case_prod_beta' prod.collapse by (simp only: case_prod_beta prod.collapse)
  next
    fix e :: exn and ext
    assume "quiet ext \<and> (\<forall>live index. Inl e = Inr (live, index) \<longrightarrow>
       (\<forall>n\<in>set live. in_study st n \<and> (\<exists>i. map_of (lg_topics l) n = Some i \<and> Saw_Topic n i \<in> set ext))
       \<and> (index \<longrightarrow> (\<exists>n i. lg_index l = Some (n, i) \<and> Saw_Index i \<in> set ext \<and> Saw_Owner True \<in> set ext)))"
    then show "\<exists>v w. ext = v @ w \<and> quiet v \<and> guarded_from l [] w \<and> verified st l v w \<and> cleaned (Inl e) w"
      by (intro exI [of _ ext] exI [of _ "[]"]) (simp add: verified_def cleaned_def)
  next
    fix p r and v w
    assume v: "quiet v \<and> (\<forall>live index. Inr p = (Inr (live, index) :: (ustr list \<times> bool) res) \<longrightarrow>
       (\<forall>n\<in>set live. in_study st n \<and> (\<exists>i. map_of (lg_topics l) n = Some i \<and> Saw_Topic n i \<in> set v))
       \<and> (index \<longrightarrow> (\<exists>n i. lg_index l = Some (n, i) \<and> Saw_Index i \<in> set v \<and> Saw_Owner True \<in> set v)))"
      and w: "(\<forall>prev. guarded_from l prev w) \<and> set (removed_topics w) \<subseteq> set (fst p) \<and> (Removed_Index \<in> set w \<longrightarrow> snd p)
      \<and> cleaned r w \<and> (\<forall>q. r = Inr q \<longrightarrow> q = p)"
    have "verified st l v w" using v w by (cases p) (auto simp: verified_def)
    then show "\<exists>v' w'. v @ w = v' @ w' \<and> quiet v' \<and> guarded_from l [] w' \<and> verified st l v' w' \<and> cleaned r w'" using v w by blast
  qed
  then show ?thesis using assms unfolding logs_def by (metis append_Nil fst_conv snd_conv)
qed

text \<open>A cluster with the topics of one run.\<close>

definition two_topics :: "(ustr \<times> ustr) list cluster" where
  "two_topics = \<lparr>cl_topics = (\<lambda>s. (Inr (map fst s), s)),
     cl_describe = (\<lambda>n s. (case map_of s n of Some i \<Rightarrow> Inr \<lparr>ti_id = i, ti_internal = False, ti_partitions = 1\<rparr>
        | None \<Rightarrow> Inl (Other_Error ''UNKNOWN_TOPIC_OR_PART''), s)),
     cl_create = (\<lambda>n c s. (Inr (), (n, n) # s)),
     cl_delete = (\<lambda>n s. (Inr (), filter (\<lambda>p. fst p \<noteq> n) s)),
     cl_index = (\<lambda>q s. (Inr \<lparr>re_status = 404, re_json = None\<rparr>, s)),
     cl_clock = (\<lambda>s. (0, s))\<rparr>"

definition tiny_study :: study where
  "tiny_study = \<lparr>st_topic = [1], st_dlq = [2], st_index = [3], st_prefix = [4], st_owner = [5], st_run = [6]\<rparr>"

theorem cleanup_removes_owned_witness:
  "\<exists>w. [Saw_Topic [1] [7], Saw_Topic [2] [8], Saw_Topic [1] [7], Removed_Topic [1], Saw_Topic [2] [8], Removed_Topic [2]]
       = [Saw_Topic [1] [7], Saw_Topic [2] [8]] @ w
     \<and> (\<exists>v u. [Saw_Topic [1] [7], Saw_Topic [2] [8]] @ w = v @ u \<and> list_all (\<lambda>c. \<not> removal c) v
        \<and> guarded_from \<lparr>lg_topics = [([1], [7]), ([2], [8])], lg_index = None\<rparr> [] u \<and> removed_topics u = [[1], [2]])"
proof -
  let ?l = "\<lparr>lg_topics = [([1], [7]), ([2], [8])], lg_index = None\<rparr> :: ledger"
  have r: "cleanup 1 (watched tiny_study two_topics) tiny_study ?l ([([1], [7]), ([2], [8]), ([9], [9])], [])
      = (Inr ([[1], [2]], False), [([9], [9])], [Saw_Topic [1] [7], Saw_Topic [2] [8], Saw_Topic [1] [7], Removed_Topic [1], Saw_Topic [2] [8], Removed_Topic [2]])"
    by code_simp
  from cleanup_removes_owned [OF r] show ?thesis by (auto simp: cleaned_def)
qed

end
