(* ===== verification/Message_Drill.thy ===== *)
theory Message_Drill
  imports Message_Runtime "HOL-Library.AList"
begin

text \<open>
  \<open>mvp-lab/mvp_app/message_drill.py\<close>: the message drills. The desk is what a drill calls: the runtime of a run
  (\<open>runtime_desk\<close> is \<open>message_runtime.py\<close>), the order repository, the clock and \<open>uuid4\<close>. The state of the drill is
  the offsets it received and the world of the desk. \<open>InjectedBoundary\<close> is an \<open>Other_Error\<close>; the log lines the drill
  prints are not modelled. Whatever the desk answers, the calls of a drill follow \<open>drill_allows\<close>.
\<close>

section \<open>What a drill calls\<close>

record received =
  rc_topic :: ustr
  rc_partition :: int
  rc_offset :: int
  rc_key :: "bytes option"
  rc_value :: "bytes option"

record 'w desk =
  dk_verify :: "(unit, 'w) eff"
  dk_watermark :: "ustr \<Rightarrow> (int \<times> int \<times> int option, 'w) eff"
  dk_create :: "pdict \<Rightarrow> ustr \<Rightarrow> (order_data \<times> bool, 'w) eff"
  dk_update :: "ustr \<Rightarrow> pdict \<Rightarrow> (order_data, 'w) eff"
  dk_rows :: "(ustr \<Rightarrow> order_data option, 'w) eff"
  dk_cache_put :: "pdict \<Rightarrow> (unit, 'w) eff"
  dk_cache_delete :: "ustr \<Rightarrow> (unit, 'w) eff"
  dk_publish :: "ustr \<Rightarrow> bytes \<Rightarrow> pv \<Rightarrow> (int, 'w) eff"
  dk_reader :: "(unit, 'w) eff"
  dk_close :: "'w \<Rightarrow> 'w"
  dk_next :: "(received, 'w) eff"
  dk_index :: "pdict \<Rightarrow> (string, 'w) eff"
  dk_acknowledge :: "received \<Rightarrow> (unit, 'w) eff"
  dk_read_dlq :: "(pv list, 'w) eff"
  dk_exact :: "ustr \<Rightarrow> (pv, 'w) eff"
  dk_audit :: "(ustr \<times> ustr) list \<Rightarrow> (bool, 'w) eff"
  dk_clock :: "'w \<Rightarrow> rat \<times> 'w"
  dk_uuid :: "(ustr, 'w) eff"

text \<open>What is not under the repository's control: the timestamp parser, the JSON scanner, the hashes and \<open>uuid5\<close>.\<close>

record trusted =
  tr_iso :: "ustr \<Rightarrow> bool"
  tr_scan :: scanner
  tr_sha :: "bytes \<Rightarrow> ustr"
  tr_sha_json :: "pv \<Rightarrow> ustr"
  tr_uuid5 :: "ustr \<Rightarrow> ustr"

record drill_ids =
  di_trusted :: trusted
  di_scope :: scope
  di_topic_id :: ustr

definition source_topic :: "drill_ids \<Rightarrow> ustr" where
  "source_topic e = scope_topic (tr_sha (di_trusted e)) (di_scope e)"

definition dlq_topic :: "drill_ids \<Rightarrow> ustr" where
  "dlq_topic e = scope_dlq (tr_sha (di_trusted e)) (di_scope e)"

record 'w drill =
  dr_received :: "int list"
  dr_world :: 'w

definition on_world :: "('w \<Rightarrow> (msg_exn + 'a) \<times> 'w) \<Rightarrow> 'w drill \<Rightarrow> (msg_exn + 'a) \<times> 'w drill" where
  "on_world m s = (case m (dr_world s) of (r, w) \<Rightarrow> (r, s\<lparr>dr_world := w\<rparr>))"

definition ask :: "('a, 'w) eff \<Rightarrow> 'w drill \<Rightarrow> (msg_exn + 'a) \<times> 'w drill" where
  "ask m = on_world (lift_exn m)"

definition given :: "'a res \<Rightarrow> 's \<Rightarrow> (msg_exn + 'a) \<times> 's" where
  "given r = lift_exn (lift_res r)"

definition need :: "bool \<Rightarrow> string \<Rightarrow> 's \<Rightarrow> (msg_exn + unit) \<times> 's" where
  "need truth reason = (if truth then ret () else raise_exn (Failed (Runtime_Error reason)))"

section \<open>Fixtures\<close>

fun check_empty :: "'w desk \<Rightarrow> ustr list \<Rightarrow> 'w drill \<Rightarrow> (msg_exn + unit) \<times> 'w drill" where
  "check_empty d [] = ret ()"
| "check_empty d (t # ts) = bind_eff (ask (dk_watermark d t)) (\<lambda>(low, high, committed).
     bind_eff (need (low = 0 \<and> high = 0 \<and> committed = None) ''New message run must start with empty topics and no checkpoint'')
       (\<lambda>_. check_empty d ts))"

definition fixture_key :: "scope \<Rightarrow> string \<Rightarrow> ustr" where
  "fixture_key s name = sc_run s @ u ''-'' @ u name"

definition fixture_input :: "ustr \<Rightarrow> pdict" where
  "fixture_input key = [(u ''item'', PStr key), (u ''quantity'', PInt 2), (u ''unit_price'', PInt 17)]"

definition create_fixture :: "'w desk \<Rightarrow> scope \<Rightarrow> string \<Rightarrow> 'w drill \<Rightarrow> (msg_exn + order_data) \<times> 'w drill" where
  "create_fixture d s name = (let key = fixture_key s name in
     bind_eff (ask (dk_create d (fixture_input key) key)) (\<lambda>(order, created).
     bind_eff (need created ''Message fixture key already existed; run cannot be adopted'') (\<lambda>_.
     bind_eff (ask (dk_cache_put d (order_value order))) (\<lambda>_. ret order))))"

record fixtures =
  fx_keys :: "(ustr \<times> ustr) list"
  fx_a :: order_data
  fx_b :: order_data
  fx_c :: order_data

definition prepare :: "'w desk \<Rightarrow> drill_ids \<Rightarrow> 'w drill \<Rightarrow> (msg_exn + fixtures) \<times> 'w drill" where
  "prepare d e = (let s = di_scope e in
     bind_eff (ask (dk_verify d)) (\<lambda>_.
     bind_eff (check_empty d [source_topic e, dlq_topic e]) (\<lambda>_.
     bind_eff (create_fixture d s ''a'') (\<lambda>a.
     bind_eff (create_fixture d s ''b'') (\<lambda>b.
     bind_eff (create_fixture d s ''c'') (\<lambda>c.
     ret \<lparr>fx_keys = AList.update (o_id c) (fixture_key s ''c'') (AList.update (o_id b) (fixture_key s ''b'')
            [(o_id a, fixture_key s ''a'')]), fx_a = a, fx_b = b, fx_c = c\<rparr>))))))"

section \<open>Sending and consuming\<close>

definition send :: "'w desk \<Rightarrow> drill_ids \<Rightarrow> pdict \<Rightarrow> 'w drill \<Rightarrow> (msg_exn + int) \<times> 'w drill" where
  "send d e event = bind_eff (given (canonical_text (PDict event))) (\<lambda>v.
     ask (dk_publish d (source_topic e) (utf8 (str_of (dget (event_order_dict event) ''id''))) v))"

fun send_all :: "'w desk \<Rightarrow> drill_ids \<Rightarrow> pdict list \<Rightarrow> 'w drill \<Rightarrow> (msg_exn + unit) \<times> 'w drill" where
  "send_all d e [] = ret ()"
| "send_all d e (x # xs) = bind_eff (send d e x) (\<lambda>_. send_all d e xs)"

definition new_envelope :: "'w desk \<Rightarrow> order_data \<Rightarrow> 'w drill \<Rightarrow> (msg_exn + pdict) \<times> 'w drill" where
  "new_envelope d x = bind_eff (ask (dk_uuid d)) (\<lambda>fresh. ret (case envelope fresh x of PDict p \<Rightarrow> p | _ \<Rightarrow> []))"

definition injected :: exn where "injected = Other_Error ''InjectedBoundary''"

definition receipt_of :: "ustr \<Rightarrow> int \<Rightarrow> pv" where
  "receipt_of topic offset = PDict [(u ''topic'', PStr topic), (u ''partition'', PInt 0), (u ''offset'', PInt offset)]"

definition drill_ports :: "'w desk \<Rightarrow> drill_ids \<Rightarrow> received \<Rightarrow> string option \<Rightarrow> 'w ports" where
  "drill_ports d e m inject = \<lparr>pt_index = dk_index d, pt_cache_delete = dk_cache_delete d, pt_commit = dk_acknowledge d m,
     pt_quarantine = (\<lambda>rec. bind_eff (lift_res (canonical_text (PDict rec))) (\<lambda>v.
        bind_eff (dk_publish d (dlq_topic e) (utf8 (str_of (dget rec ''dlq_id''))) v) (\<lambda>n. ret (receipt_of (dlq_topic e) n)))),
     pt_checkpoint = (\<lambda>name. if inject = Some name then raise_exn injected else ret ())\<rparr>"

definition position_of :: "received \<Rightarrow> pdict" where
  "position_of m = [(u ''topic'', PStr (rc_topic m)), (u ''partition'', PInt (rc_partition m)), (u ''offset'', PInt (rc_offset m))]"

definition note_received :: "received \<Rightarrow> 'w drill \<Rightarrow> (msg_exn + unit) \<times> 'w drill" where
  "note_received m s = (Inr (), s\<lparr>dr_received := dr_received s @ [rc_offset m]\<rparr>)"

fun consume_some :: "'w desk \<Rightarrow> drill_ids \<Rightarrow> string \<Rightarrow> string option \<Rightarrow> nat \<Rightarrow> 'w drill \<Rightarrow> (msg_exn + msg_result list) \<times> 'w drill" where
  "consume_some d e policy inject 0 = ret []"
| "consume_some d e policy inject (Suc n) =
     bind_eff (ask (dk_next d)) (\<lambda>m.
     bind_eff (note_received m) (\<lambda>_.
     bind_eff (on_world (process_record (tr_iso (di_trusted e)) (tr_scan (di_trusted e)) (tr_sha (di_trusted e)) (tr_sha_json (di_trusted e))
        (di_scope e) (di_topic_id e) (position_of m) (rc_key m) (rc_value m) (drill_ports d e m inject) policy)) (\<lambda>r.
     bind_eff (consume_some d e policy inject n) (\<lambda>rs. ret (r # rs)))))"

text \<open>The reader is closed whether or not a record was refused.\<close>

definition consume :: "'w desk \<Rightarrow> drill_ids \<Rightarrow> string \<Rightarrow> string option \<Rightarrow> nat \<Rightarrow> 'w drill \<Rightarrow> (msg_exn + msg_result list) \<times> 'w drill" where
  "consume d e policy inject n = bind_eff (ask (dk_reader d)) (\<lambda>_ s. case consume_some d e policy inject n s of
     (r, s') \<Rightarrow> (r, s'\<lparr>dr_world := dk_close d (dr_world s')\<rparr>))"

definition outcome_of :: "msg_result \<Rightarrow> string" where
  "outcome_of r = (case r of Quarantined _ _ _ \<Rightarrow> ''quarantined'' | Projected outcome _ _ _ _ \<Rightarrow> outcome)"

text \<open>An injected exception must end the step, and only that exception is caught.\<close>

definition expect_injected :: "string \<Rightarrow> ('w drill \<Rightarrow> (msg_exn + 'a) \<times> 'w drill) \<Rightarrow> 'w drill \<Rightarrow> (msg_exn + unit) \<times> 'w drill" where
  "expect_injected reason m s = (case m s of
       (Inr _, s') \<Rightarrow> (Inl (Failed (Runtime_Error reason)), s')
     | (Inl e, s') \<Rightarrow> if e = Failed injected then (Inr (), s') else (Inl e, s'))"

section \<open>Repair\<close>

fun distinct_records :: "drill_ids \<Rightarrow> pv list \<Rightarrow> (pv \<times> pv) list \<Rightarrow> (pv \<times> pv) list res" where
  "distinct_records e [] unique = Inr unique"
| "distinct_records e (r # rs) unique =
     bind_res (checked_quarantine (tr_sha (di_trusted e)) (tr_sha_json (di_trusted e)) r (di_scope e) (di_topic_id e)) (\<lambda>_.
     bind_res (subscript r ''dlq_id'') (\<lambda>i.
     bind_res (case map_of unique i of None \<Rightarrow> Inr True
        | Some x \<Rightarrow> bind_res (canonical_text x) (\<lambda>a. bind_res (canonical_text r) (\<lambda>b. Inr (a = b)))) (\<lambda>same.
     if \<not> same then Inl (Runtime_Error ''Conflicting copies of the same quarantine record'')
     else distinct_records e rs (AList.update i r unique))))"

fun repair_all :: "'w desk \<Rightarrow> drill_ids \<Rightarrow> (ustr \<times> ustr) list \<Rightarrow> pv list \<Rightarrow> 'w drill \<Rightarrow> (msg_exn + int list) \<times> 'w drill" where
  "repair_all d e fixtures [] = ret []"
| "repair_all d e fixtures (r # rs) =
     bind_eff (ask (dk_rows d)) (\<lambda>stored.
     bind_eff (given (repair_event (tr_iso (di_trusted e)) (tr_sha (di_trusted e)) (tr_sha_json (di_trusted e))
        (tr_uuid5 (di_trusted e)) r (di_scope e) (di_topic_id e) (map_of fixtures) stored)) (\<lambda>event.
     bind_eff (send d e (case event of PDict p \<Rightarrow> p | _ \<Rightarrow> [])) (\<lambda>n.
     bind_eff (repair_all d e fixtures rs) (\<lambda>ns. ret (n # ns)))))"

definition repair :: "'w desk \<Rightarrow> drill_ids \<Rightarrow> (ustr \<times> ustr) list \<Rightarrow> nat \<Rightarrow> 'w drill \<Rightarrow> (msg_exn + (pv list \<times> int list \<times> nat)) \<times> 'w drill" where
  "repair d e fixtures expected =
     bind_eff (ask (dk_read_dlq d)) (\<lambda>records.
     bind_eff (given (distinct_records e records [])) (\<lambda>unique.
     bind_eff (need (length unique = expected) ''Unexpected number of distinct poison records'') (\<lambda>_.
     bind_eff (repair_all d e fixtures (map snd unique)) (\<lambda>receipts.
     bind_eff (consume d e ''strict'' None (length receipts)) (\<lambda>_.
     ret (records, receipts, length unique))))))"

section \<open>Scenarios\<close>

definition poison_scenarios :: "string list" where
  "poison_scenarios = [''poison-schema'', ''mapping-reject'', ''dlq-commit-gap'', ''version-collision'']"

definition message_scenarios :: "string list" where
  "message_scenarios = poison_scenarios @ [''projection-commit-gap'', ''replay-ordering'']"

definition spoil :: "string \<Rightarrow> pdict \<Rightarrow> pdict" where
  "spoil scenario event =
     (if scenario = ''mapping-reject''
      then pdict_put ''order'' (PDict (pdict_put ''unexpected_study_field'' (PStr (u ''mapping-reject'')) (event_order_dict event))) event
      else if scenario = ''version-collision''
      then pdict_put ''order'' (PDict (pdict_put ''item'' (PStr (u ''CORRUPTED-SAME-VERSION'')) (event_order_dict event))) event
      else pdict_put ''schema_version'' (PInt 99) event)"

definition poison_events :: "'w desk \<Rightarrow> fixtures \<Rightarrow> string \<Rightarrow> 'w drill \<Rightarrow> (msg_exn + pdict list) \<times> 'w drill" where
  "poison_events d f scenario =
     bind_eff (new_envelope d (fx_a f)) (\<lambda>good.
     bind_eff (new_envelope d (if scenario = ''version-collision'' then fx_a f else fx_c f)) (\<lambda>bad.
     bind_eff (new_envelope d (fx_b f)) (\<lambda>healthy.
     if scenario = ''version-collision''
     then bind_eff (new_envelope d (fx_c f)) (\<lambda>extra. ret [good, spoil scenario bad, healthy, extra])
     else ret [good, spoil scenario bad, healthy])))"

definition expected_reason :: "string \<Rightarrow> ustr" where
  "expected_reason scenario = u (if scenario = ''version-collision'' then ''event_version_payload_conflict''
     else if scenario = ''mapping-reject'' then ''strict_dynamic_mapping_exception'' else ''unsupported_event_schema'')"

definition expect_poison :: "string \<Rightarrow> ('w drill \<Rightarrow> (msg_exn + 'a) \<times> 'w drill) \<Rightarrow> 'w drill \<Rightarrow> (msg_exn + unit) \<times> 'w drill" where
  "expect_poison scenario m s = (case m s of
       (Inr _, s') \<Rightarrow> (Inl (Failed (Runtime_Error ''Strict consumer unexpectedly crossed the poison record'')), s')
     | (Inl (Failed e), s') \<Rightarrow> (Inl (Failed e), s')
     | (Inl (Poison_Blocked reason position), s') \<Rightarrow>
         bind_eff (need (dget position ''offset'' = PInt 1) ''Poison block at an unexpected source offset'') (\<lambda>_.
         need (reason = expected_reason scenario \<or> scenario = ''mapping-reject'' \<and> reason = u ''mapper_parsing_exception'')
           ''Observed failure is not the scenario requested'') s')"

definition committed_at :: "'w desk \<Rightarrow> drill_ids \<Rightarrow> int \<Rightarrow> string \<Rightarrow> 'w drill \<Rightarrow> (msg_exn + unit) \<times> 'w drill" where
  "committed_at d e n reason = bind_eff (ask (dk_watermark d (source_topic e))) (\<lambda>(_, _, c). need (c = Some n) reason)"

definition check_blocked :: "'w desk \<Rightarrow> drill_ids \<Rightarrow> fixtures \<Rightarrow> string \<Rightarrow> 'w drill \<Rightarrow> (msg_exn + unit) \<times> 'w drill" where
  "check_blocked d e f scenario =
     bind_eff (committed_at d e 1 ''Source offset advanced past the failed event'') (\<lambda>_.
     bind_eff (ask (dk_exact d (o_id (fx_b f)))) (\<lambda>later.
     bind_eff (need (later = PNone) ''Later normal event was processed past the poison event'') (\<lambda>_.
     if scenario = ''version-collision''
     then bind_eff (ask (dk_exact d (o_id (fx_a f)))) (\<lambda>kept.
          bind_eff (given (same_json kept (PDict (order_value (fx_a f))))) (\<lambda>same.
          need same ''Same-version conflict overwrote the document''))
     else ret ())))"

definition dlq_gap :: "'w desk \<Rightarrow> drill_ids \<Rightarrow> 'w drill \<Rightarrow> (msg_exn + unit) \<times> 'w drill" where
  "dlq_gap d e =
     bind_eff (expect_injected ''DLQ boundary injection did not execute'' (consume d e ''quarantine'' (Some ''after_dlq_ack'') 1)) (\<lambda>_.
     bind_eff (committed_at d e 1 ''Source committed during DLQ ACK gap'') (\<lambda>_.
     bind_eff (ask (dk_read_dlq d)) (\<lambda>records.
     need (length records = 1) ''DLQ ACK did not produce a readable record'')))"

datatype observation =
    Repaired "pv list" "int list" nat
  | Redelivered "int list" "pv list"
  | Replayed "string list" "int list" "pv list"

definition poison :: "'w desk \<Rightarrow> drill_ids \<Rightarrow> fixtures \<Rightarrow> string \<Rightarrow> 'w drill \<Rightarrow> (msg_exn + observation) \<times> 'w drill" where
  "poison d e f scenario =
     bind_eff (poison_events d f scenario) (\<lambda>events.
     bind_eff (send_all d e events) (\<lambda>_.
     bind_eff (expect_poison scenario (consume d e ''strict'' None (length events))) (\<lambda>_.
     bind_eff (check_blocked d e f scenario) (\<lambda>_.
     bind_eff (if scenario = ''dlq-commit-gap'' then dlq_gap d e else ret ()) (\<lambda>_.
     bind_eff (consume d e ''quarantine'' None (length events - 1)) (\<lambda>_.
     bind_eff (committed_at d e (int (length events)) ''Source did not progress after durable quarantine'') (\<lambda>_.
     bind_eff (ask (dk_exact d (o_id (fx_b f)))) (\<lambda>later.
     bind_eff (need (later \<noteq> PNone) ''Later healthy order still blocked'') (\<lambda>_.
     bind_eff (repair d e (fx_keys f) 1) (\<lambda>(records, receipts, distinct_count).
     bind_eff (need (scenario \<noteq> ''dlq-commit-gap'' \<or> length records = 2 \<and> distinct_count = 1)
        ''Expected repeated quarantine of the same source position'') (\<lambda>_.
     ret (Repaired records receipts distinct_count))))))))))))"

fun send_orders :: "'w desk \<Rightarrow> drill_ids \<Rightarrow> order_data list \<Rightarrow> 'w drill \<Rightarrow> (msg_exn + unit) \<times> 'w drill" where
  "send_orders d e [] = ret ()"
| "send_orders d e (x # xs) = bind_eff (new_envelope d x) (\<lambda>event. bind_eff (send d e event) (\<lambda>_. send_orders d e xs))"

definition received_offsets :: "'w drill \<Rightarrow> (msg_exn + int list) \<times> 'w drill" where
  "received_offsets s = (Inr (dr_received s), s)"

definition projection_gap :: "'w desk \<Rightarrow> drill_ids \<Rightarrow> fixtures \<Rightarrow> 'w drill \<Rightarrow> (msg_exn + observation) \<times> 'w drill" where
  "projection_gap d e f =
     bind_eff (send_orders d e [fx_a f, fx_b f, fx_c f]) (\<lambda>_.
     bind_eff (expect_injected ''Projection boundary injection did not execute'' (consume d e ''strict'' (Some ''after_projection'') 1)) (\<lambda>_.
     bind_eff (ask (dk_watermark d (source_topic e))) (\<lambda>(_, _, c).
     bind_eff (need (c = None \<or> c = Some 0) ''Checkpoint advanced during projection gap'') (\<lambda>_.
     bind_eff (ask (dk_exact d (o_id (fx_a f)))) (\<lambda>doc.
     bind_eff (need (doc \<noteq> PNone) ''No actual projection before injected gap'') (\<lambda>_.
     bind_eff (consume d e ''strict'' None 3) (\<lambda>result.
     bind_eff (need (map outcome_of (take 1 result) = [''duplicate_ignored'']) ''Redelivered projection was not an identical duplicate'') (\<lambda>_.
     bind_eff received_offsets (\<lambda>offsets.
     bind_eff (need (take 2 offsets = [0, 0]) ''The uncommitted source offset was not redelivered'') (\<lambda>_.
     bind_eff (ask (dk_read_dlq d)) (\<lambda>records.
     ret (Redelivered offsets records))))))))))))"

definition next_version :: "'w desk \<Rightarrow> order_data \<Rightarrow> string \<Rightarrow> 'w drill \<Rightarrow> (msg_exn + order_data) \<times> 'w drill" where
  "next_version d x state = ask (dk_update d (o_id x)
     [(u ''expected_version'', PInt (o_version x)), (u ''status'', PStr (u state))])"

definition ordering :: "'w desk \<Rightarrow> drill_ids \<Rightarrow> fixtures \<Rightarrow> 'w drill \<Rightarrow> (msg_exn + observation) \<times> 'w drill" where
  "ordering d e f =
     bind_eff (next_version d (fx_a f) ''paid'') (\<lambda>paid.
     bind_eff (next_version d paid ''shipped'') (\<lambda>shipped.
     bind_eff (send_orders d e [paid, fx_a f, shipped, paid, shipped, fx_a f, fx_b f, fx_c f]) (\<lambda>_.
     bind_eff (consume d e ''strict'' None 8) (\<lambda>result.
     let outcomes = map outcome_of result in
     bind_eff (need (length (filter ((=) ''older_version_ignored'') outcomes) = 3
          \<and> length (filter ((=) ''duplicate_ignored'') outcomes) = 1) ''Old/duplicate records not classified as expected'') (\<lambda>_.
     bind_eff (ask (dk_read_dlq d)) (\<lambda>records.
     ret (Replayed outcomes (map o_version [fx_a f, paid, shipped]) records)))))))"

section \<open>A run\<close>

definition read_clock :: "'w desk \<Rightarrow> 'w drill \<Rightarrow> (msg_exn + rat) \<times> 'w drill" where
  "read_clock d s = (case dk_clock d (dr_world s) of (t, w) \<Rightarrow> (Inr t, s\<lparr>dr_world := w\<rparr>))"

text \<open>Audits until two in a row match or the deadline has passed.\<close>

fun audit_until :: "nat \<Rightarrow> 'w desk \<Rightarrow> (ustr \<times> ustr) list \<Rightarrow> rat \<Rightarrow> nat \<Rightarrow> bool list \<Rightarrow> 'w drill \<Rightarrow> (msg_exn + nat \<times> bool list) \<times> 'w drill" where
  "audit_until 0 d fixtures deadline consecutive audits = raise_exn (Failed (Other_Error ''waiting''))"
| "audit_until (Suc n) d fixtures deadline consecutive audits = bind_eff (read_clock d) (\<lambda>t.
     if deadline \<le> t then ret (consecutive, audits)
     else bind_eff (ask (dk_audit d fixtures)) (\<lambda>matched.
       let c = if matched then Suc consecutive else 0 in
       if c = 2 then ret (c, audits @ [matched]) else audit_until n d fixtures deadline c (audits @ [matched])))"

record report =
  rp_scenario :: string
  rp_observation :: observation
  rp_audits :: "bool list"
  rp_fixtures :: "(ustr \<times> ustr) list"
  rp_checkpoint :: "int \<times> int \<times> int option"

definition final_checks :: "nat \<Rightarrow> 'w desk \<Rightarrow> drill_ids \<Rightarrow> (ustr \<times> ustr) list \<Rightarrow> 'w drill \<Rightarrow> (msg_exn + (bool list \<times> int \<times> int \<times> int option)) \<times> 'w drill" where
  "final_checks rounds d e fixtures =
     bind_eff (read_clock d) (\<lambda>now.
     bind_eff (audit_until rounds d fixtures (now + 20) 0 []) (\<lambda>(consecutive, audits).
     bind_eff (need (consecutive = 2) ''Source/search/cache did not match on two final observations'') (\<lambda>_.
     bind_eff (ask (dk_watermark d (source_topic e))) (\<lambda>(low, high, committed).
     bind_eff (need (committed = Some high) ''Study consumer has uncommitted events'') (\<lambda>_.
     ret (drop (length audits - 2) audits, low, high, committed))))))"

definition run_drill :: "nat \<Rightarrow> 'w desk \<Rightarrow> drill_ids \<Rightarrow> string \<Rightarrow> 'w drill \<Rightarrow> (msg_exn + report) \<times> 'w drill" where
  "run_drill rounds d e scenario =
     (if scenario \<notin> set message_scenarios then raise_exn (Failed (Value_Error ''Unsupported message scenario''))
      else bind_eff (prepare d e) (\<lambda>f.
           bind_eff (if scenario = ''projection-commit-gap'' then projection_gap d e f
                     else if scenario = ''replay-ordering'' then ordering d e f else poison d e f scenario) (\<lambda>observation.
           bind_eff (final_checks rounds d e (fx_keys f)) (\<lambda>(audits, checkpoint).
           ret \<lparr>rp_scenario = scenario, rp_observation = observation, rp_audits = audits,
                rp_fixtures = fx_keys f, rp_checkpoint = checkpoint\<rparr>))))"

section \<open>The helper process\<close>

text \<open>
  \<open>MessageRuntime\<close> as a desk. The world counts the records published; the repository, the polls of a reader, the search,
  the parser and the serialiser are what the services answer with.
\<close>

record 's services =
  sv_cluster :: "'s cluster"
  sv_kafka :: "'s kafka_client"
  sv_es :: "'s es"
  sv_redis :: "'s redis"
  sv_create :: "pdict \<Rightarrow> ustr \<Rightarrow> (order_data \<times> bool, 's) eff"
  sv_update :: "ustr \<Rightarrow> pdict \<Rightarrow> (order_data, 's) eff"
  sv_rows :: "(ustr \<Rightarrow> order_data option, 's) eff"
  sv_next :: "(received, 's) eff"
  sv_acknowledge :: "received \<Rightarrow> (unit, 's) eff"
  sv_close :: "'s \<Rightarrow> 's"
  sv_find :: "ustr \<Rightarrow> (pv list, 's) eff"
  sv_uuid :: "(ustr, 's) eff"
  sv_dlq_polls :: "poll list list"
  sv_parse :: "bytes \<Rightarrow> pv option"
  sv_dumps :: "pv \<Rightarrow> bytes"

definition counted :: "('a, 's) eff \<Rightarrow> ('a, nat \<times> 's) eff" where
  "counted m = (\<lambda>(n, s). case m s of (r, s') \<Rightarrow> (r, n, s'))"

definition stored_value :: "'s services \<Rightarrow> ustr \<Rightarrow> (pv, 's) eff" where
  "stored_value sv key = bind_eff (sv_rows sv) (\<lambda>rows. ret (case rows key of None \<Rightarrow> PNone | Some x \<Rightarrow> PDict (order_value x)))"

definition runtime_desk :: "'s services \<Rightarrow> study \<Rightarrow> ledger \<Rightarrow> (nat \<times> 's) desk" where
  "runtime_desk sv st l = (let cl = sv_cluster sv; kc = sv_kafka sv in
     \<lparr>dk_verify = counted (bind_eff (verify_resources cl st l False) (\<lambda>_. ret ())),
      dk_watermark = (\<lambda>t. counted (watermark kc st t)),
      dk_create = (\<lambda>x key. counted (sv_create sv x key)),
      dk_update = (\<lambda>i x. counted (sv_update sv i x)),
      dk_rows = counted (sv_rows sv),
      dk_cache_put = (\<lambda>x. counted (scoped_put (sv_redis sv) st x)),
      dk_cache_delete = (\<lambda>i. counted (scoped_delete (sv_redis sv) st i)),
      dk_publish = (\<lambda>t k v. publish kc st t k (sv_dumps sv v)),
      dk_reader = counted (bind_eff (reader_start kc st (st_topic st) None) (\<lambda>_. ret ())),
      dk_close = (\<lambda>(n, s). (n, sv_close sv s)),
      dk_next = counted (sv_next sv),
      dk_index = (\<lambda>x. counted (search_index (sv_es sv) x)),
      dk_acknowledge = (\<lambda>m. counted (sv_acknowledge sv m)),
      dk_read_dlq = counted (read_dlq kc st (sv_parse sv) (sv_dlq_polls sv)),
      dk_exact = (\<lambda>i. counted (exact cl i)),
      dk_audit = (\<lambda>fx. counted (bind_eff (audit_run (stored_value sv) (scoped_get (sv_redis sv) st) (sv_find sv) cl fx) (\<lambda>(ok, _). ret ok))),
      dk_clock = (\<lambda>(n, s). case cl_clock cl s of (t, s') \<Rightarrow> (t, n, s')),
      dk_uuid = counted (sv_uuid sv)\<rparr>)"

definition mvp_settings :: "(string \<times> string) list" where
  "mvp_settings = [(''sql_host'', ''mariadb''), (''sql_database'', ''mvp''), (''sql_user'', ''mvp''),
     (''kafka_bootstrap'', ''kafka:9092''), (''kafka_topic'', ''mvp.orders.v1''), (''kafka_group'', ''mvp.search.v1''),
     (''es_url'', ''http://elasticsearch:9200''), (''es_index'', ''mvp-orders-v1''), (''redis_host'', ''redis'')]"

definition runtime_settings :: "(string \<Rightarrow> ustr) \<Rightarrow> ustr option \<Rightarrow> scope \<Rightarrow> unit res" where
  "runtime_settings settings project s =
     (if project \<noteq> Some (sc_project s) \<or> list_ex (\<lambda>(k, v). settings k \<noteq> u v) mvp_settings
      then Inl (Value_Error ''API environment is not the selected normal MVP; no message resource touched'') else Inr ())"

datatype helper_action = Create_Topic | Create_Index | Run_Drill | Inspect_Run | Cleanup_Run

record helper_request =
  hr_size :: nat
  hr_scope :: scope
  hr_resources :: ledger
  hr_topic :: "ustr option"
  hr_scenario :: "string option"

datatype helper_result =
    Made ustr ustr
  | Drilled report
  | Inspected "int \<times> int \<times> int option" "pv list" "pv list"
  | Cleaned "ustr list" bool

definition perform :: "nat \<Rightarrow> trusted \<Rightarrow> 's services \<Rightarrow> helper_request \<Rightarrow> helper_action \<Rightarrow> nat \<times> 's \<Rightarrow> (msg_exn + helper_result) \<times> nat \<times> 's" where
  "perform rounds tr sv q action =
     (let st = study_of (tr_sha tr) (hr_scope q); l = hr_resources q; cl = sv_cluster sv; kc = sv_kafka sv in
      case action of
        Create_Topic \<Rightarrow> lift_exn (case hr_topic q of None \<Rightarrow> raise_exn Key_Error
          | Some name \<Rightarrow> counted (bind_eff (create_topic cl st name) (\<lambda>(n, i). ret (Made n i))))
      | Create_Index \<Rightarrow> lift_exn (counted (bind_eff (create_index cl st) (\<lambda>(n, i). ret (Made n i))))
      | Cleanup_Run \<Rightarrow> lift_exn (counted (bind_eff (cleanup rounds cl st l) (\<lambda>(live, index). ret (Cleaned live index))))
      | Inspect_Run \<Rightarrow> lift_exn (counted (bind_eff (verify_resources cl st l False) (\<lambda>_.
          bind_eff (watermark kc st (st_topic st)) (\<lambda>checkpoint.
          bind_eff (read_dlq kc st (sv_parse sv) (sv_dlq_polls sv)) (\<lambda>dlq.
          bind_eff (sv_find sv []) (\<lambda>projection. ret (Inspected checkpoint dlq projection)))))))
      | Run_Drill \<Rightarrow> (\<lambda>w. case map_of (lg_topics l) (st_topic st) of
            None \<Rightarrow> (Inl (Failed Key_Error), w)
          | Some i \<Rightarrow> (case hr_scenario q of None \<Rightarrow> (Inl (Failed Key_Error), w)
            | Some scenario \<Rightarrow> (case run_drill rounds (runtime_desk sv st l)
                  \<lparr>di_trusted = tr, di_scope = hr_scope q, di_topic_id = i\<rparr> scenario \<lparr>dr_received = [], dr_world = w\<rparr> of
                (Inl x, s) \<Rightarrow> (Inl x, dr_world s) | (Inr report, s) \<Rightarrow> (Inr (Drilled report), dr_world s)))))"

text \<open>Nothing is touched before the request, the scope, the environment and the lock of the run are checked.\<close>

definition helper :: "nat \<Rightarrow> trusted \<Rightarrow> 's services \<Rightarrow> (string \<Rightarrow> ustr) \<Rightarrow> ustr option \<Rightarrow> bool \<Rightarrow> helper_request \<Rightarrow> helper_action
    \<Rightarrow> nat \<times> 's \<Rightarrow> (msg_exn + helper_result) \<times> nat \<times> 's" where
  "helper rounds tr sv settings project locked q action =
     (if 65536 < hr_size q then raise_exn (Failed (Value_Error ''Message control input too large''))
      else bind_eff (given (valid_scope (hr_scope q))) (\<lambda>_.
           bind_eff (given (runtime_settings settings project (hr_scope q))) (\<lambda>_.
           if locked then raise_exn (Failed (Runtime_Error ''Study helper is still running; recovery refused''))
           else perform rounds tr sv q action)))"


section \<open>The order of the calls of a drill\<close>

text \<open>The calls that matter, with what they answered; a trace holds them newest first.\<close>

datatype deed =
    Verified bool
  | Watched ustr "(int \<times> int \<times> int option) option"
  | Created ustr "ustr option"
  | Updated ustr "ustr option"
  | Cached ustr
  | Dropped ustr
  | Published ustr bool
  | Took "int option"
  | Indexed bool
  | Committed
  | Audited bool

definition answer :: "'a res \<Rightarrow> 'a option" where
  "answer r = (case r of Inl _ \<Rightarrow> None | Inr x \<Rightarrow> Some x)"

lemma answer_simps [simp]: "answer (Inl e) = None" "answer (Inr x) = Some x"
  by (simp_all add: answer_def)

definition noted_as :: "('a res \<Rightarrow> deed) \<Rightarrow> ('a, 'w) eff \<Rightarrow> ('a, deed list \<times> 'w) eff" where
  "noted_as f m s = (case m (snd s) of (r, w) \<Rightarrow> (r, f r # fst s, w))"

definition unnoted :: "('a, 'w) eff \<Rightarrow> ('a, deed list \<times> 'w) eff" where
  "unnoted m s = (case m (snd s) of (r, w) \<Rightarrow> (r, fst s, w))"

definition noting_desk :: "'w desk \<Rightarrow> (deed list \<times> 'w) desk" where
  "noting_desk d = \<lparr>dk_verify = noted_as (\<lambda>r. Verified (is_ok r)) (dk_verify d),
     dk_watermark = (\<lambda>t. noted_as (\<lambda>r. Watched t (answer r)) (dk_watermark d t)),
     dk_create = (\<lambda>x key. noted_as (\<lambda>r. Created key (case r of Inr (x, True) \<Rightarrow> Some (o_id x) | _ \<Rightarrow> None)) (dk_create d x key)),
     dk_update = (\<lambda>i x. noted_as (\<lambda>r. Updated i (map_option o_id (answer r))) (dk_update d i x)),
     dk_rows = unnoted (dk_rows d),
     dk_cache_put = (\<lambda>x. noted_as (\<lambda>_. Cached (str_of (dget x ''id''))) (dk_cache_put d x)),
     dk_cache_delete = (\<lambda>i. noted_as (\<lambda>_. Dropped i) (dk_cache_delete d i)),
     dk_publish = (\<lambda>t k v. noted_as (\<lambda>r. Published t (is_ok r)) (dk_publish d t k v)),
     dk_reader = unnoted (dk_reader d),
     dk_close = (\<lambda>s. (fst s, dk_close d (snd s))),
     dk_next = noted_as (\<lambda>r. Took (map_option rc_offset (answer r))) (dk_next d),
     dk_index = (\<lambda>x. noted_as (\<lambda>r. Indexed (is_ok r)) (dk_index d x)),
     dk_acknowledge = (\<lambda>m. noted_as (\<lambda>_. Committed) (dk_acknowledge d m)),
     dk_read_dlq = unnoted (dk_read_dlq d),
     dk_exact = (\<lambda>i. unnoted (dk_exact d i)),
     dk_audit = (\<lambda>fx. noted_as (\<lambda>r. Audited (r = Inr True)) (dk_audit d fx)),
     dk_clock = (\<lambda>s. case dk_clock d (snd s) of (t, w) \<Rightarrow> (t, fst s, w)),
     dk_uuid = unnoted (dk_uuid d)\<rparr>"

text \<open>A record was taken and its offset not yet committed; it also took effect: indexed, or acknowledged by the DLQ.\<close>

fun open_record :: "deed list \<Rightarrow> bool" where
  "open_record [] = False"
| "open_record (Took n # tr) = (n \<noteq> None)"
| "open_record (Committed # tr) = False"
| "open_record (_ # tr) = open_record tr"

fun took_effect :: "ustr \<Rightarrow> deed list \<Rightarrow> bool" where
  "took_effect dlq [] = False"
| "took_effect dlq (Took n # tr) = False"
| "took_effect dlq (Committed # tr) = False"
| "took_effect dlq (Indexed ok # tr) = (ok \<or> took_effect dlq tr)"
| "took_effect dlq (Published t ok # tr) = (t = dlq \<and> ok \<or> took_effect dlq tr)"
| "took_effect dlq (_ # tr) = took_effect dlq tr"

definition created_as :: "drill_ids \<Rightarrow> string \<Rightarrow> ustr \<Rightarrow> deed list \<Rightarrow> bool" where
  "created_as e name i tr \<longleftrightarrow> Created (fixture_key (di_scope e) name) (Some i) \<in> set tr"

definition all_created :: "drill_ids \<Rightarrow> deed list \<Rightarrow> bool" where
  "all_created e tr \<longleftrightarrow> list_all (\<lambda>name. list_ex (\<lambda>c. case c of Created key (Some _) \<Rightarrow> key = fixture_key (di_scope e) name | _ \<Rightarrow> False) tr)
     [''a'', ''b'', ''c'']"

definition seen_empty :: "drill_ids \<Rightarrow> deed list \<Rightarrow> bool" where
  "seen_empty e tr \<longleftrightarrow> Verified True \<in> set tr \<and> Watched (source_topic e) (Some (0, 0, None)) \<in> set tr
     \<and> Watched (dlq_topic e) (Some (0, 0, None)) \<in> set tr"

text \<open>When a drill may make a call, given the calls before it.\<close>

definition drill_allows :: "drill_ids \<Rightarrow> string \<Rightarrow> deed list \<Rightarrow> deed \<Rightarrow> bool" where
  "drill_allows e scenario prev c = (case c of
       Verified _ \<Rightarrow> prev = []
     | Watched _ _ \<Rightarrow> Verified True \<in> set prev
     | Created key _ \<Rightarrow> seen_empty e prev \<and> key \<in> fixture_key (di_scope e) ` {''a'', ''b'', ''c''}
     | Updated i _ \<Rightarrow> scenario = ''replay-ordering'' \<and> all_created e prev
         \<and> (created_as e ''a'' i prev \<or> list_ex (\<lambda>d. case d of Updated _ (Some j) \<Rightarrow> j = i | _ \<Rightarrow> False) prev)
     | Cached i \<Rightarrow> created_as e ''a'' i prev \<or> created_as e ''b'' i prev \<or> created_as e ''c'' i prev
     | Published t _ \<Rightarrow> all_created e prev
         \<and> (t = source_topic e \<or> t = dlq_topic e \<and> scenario \<in> set poison_scenarios \<and> open_record prev)
     | Took _ \<Rightarrow> all_created e prev
     | Indexed _ \<Rightarrow> open_record prev
     | Dropped _ \<Rightarrow> took_effect (dlq_topic e) prev
     | Committed \<Rightarrow> open_record prev \<and> took_effect (dlq_topic e) prev
     | Audited _ \<Rightarrow> all_created e prev)"

fun justified :: "(deed list \<Rightarrow> deed \<Rightarrow> bool) \<Rightarrow> deed list \<Rightarrow> bool" where
  "justified ok [] = True"
| "justified ok (c # prev) = (ok prev c \<and> justified ok prev)"

text \<open>How the trace of a drill that reports ends.\<close>

fun ends_settled :: "drill_ids \<Rightarrow> deed list \<Rightarrow> bool" where
  "ends_settled e (Watched t (Some (_, high, c)) # Audited True # Audited True # _) = (t = source_topic e \<and> c = Some high)"
| "ends_settled e _ = False"

subsection \<open>Triples over the trace\<close>

text \<open>
  Started on a justified trace that \<open>F\<close> holds of, the operation leaves a justified one, of which \<open>G a\<close> holds when it
  returns \<open>a\<close> and \<open>E\<close> when it raises; \<open>tr\<close> reads the trace in the state.
\<close>

definition gives ::
  "('s \<Rightarrow> deed list) \<Rightarrow> (deed list \<Rightarrow> deed \<Rightarrow> bool) \<Rightarrow> (deed list \<Rightarrow> bool) \<Rightarrow> ('s \<Rightarrow> ('e + 'a) \<times> 's)
     \<Rightarrow> ('a \<Rightarrow> deed list \<Rightarrow> bool) \<Rightarrow> (deed list \<Rightarrow> bool) \<Rightarrow> bool" where
  "gives tr ok F m G E \<longleftrightarrow> (\<forall>s r s'. m s = (r, s') \<and> justified ok (tr s) \<and> F (tr s) \<longrightarrow> justified ok (tr s')
     \<and> (\<forall>x. r = Inl x \<longrightarrow> E (tr s')) \<and> (\<forall>a. r = Inr a \<longrightarrow> G a (tr s')))"

lemma givesD:
  assumes "gives tr ok F m G E" and "m s = (r, s')" and "justified ok (tr s)" and "F (tr s)"
  shows "justified ok (tr s')" "r = Inl x \<Longrightarrow> E (tr s')" "r = Inr a \<Longrightarrow> G a (tr s')"
  using assms unfolding gives_def by blast+

definition kept :: "(deed list \<Rightarrow> bool) \<Rightarrow> bool" where
  "kept F \<longleftrightarrow> (\<forall>tr c. F tr \<longrightarrow> F (c # tr))"

lemma keptD: "kept F \<Longrightarrow> F tr \<Longrightarrow> F (c # tr)"
  by (auto simp: kept_def)

lemma gives_bind [intro]:
  assumes "gives tr ok F m G E" and "\<And>a. gives tr ok (G a) (k a) H E"
  shows "gives tr ok F (bind_eff m k) H E"
  unfolding gives_def
proof (intro allI impI)
  fix s r s'
  assume s: "bind_eff m k s = (r, s') \<and> justified ok (tr s) \<and> F (tr s)"
  obtain r1 s1 where m: "m s = (r1, s1)" by fastforce
  note one = givesD [OF assms(1) m]
  show "justified ok (tr s') \<and> (\<forall>x. r = Inl x \<longrightarrow> E (tr s')) \<and> (\<forall>a. r = Inr a \<longrightarrow> H a (tr s'))"
  proof (cases r1)
    case (Inl x)
    then show ?thesis using one s m by (auto simp: bind_eff_def)
  next
    case (Inr a)
    then have "k a s1 = (r, s')" using s m by (simp add: bind_eff_def)
    then show ?thesis using givesD [OF assms(2) [of a], of s1 r s'] one s Inr by blast
  qed
qed

lemma gives_conseq:
  assumes "gives tr ok F' m G' E'" and "\<And>t. F t \<Longrightarrow> F' t" and "\<And>a t. G' a t \<Longrightarrow> G a t" and "\<And>t. E' t \<Longrightarrow> E t"
  shows "gives tr ok F m G E"
  using assms unfolding gives_def by blast

lemma gives_ret: "(\<And>t. F t \<Longrightarrow> G a t) \<Longrightarrow> gives tr ok F (ret a) G E"
  and gives_raise: "(\<And>t. F t \<Longrightarrow> E t) \<Longrightarrow> gives tr ok F (raise_exn x) G E"
  and gives_lift: "(\<And>t. F t \<Longrightarrow> E t) \<Longrightarrow> gives tr ok F (lift_res y) (\<lambda>_. F) E"
  by (auto simp: gives_def lift_res_def)

lemma gives_lift_exn:
  assumes "gives tr ok F m G E"
  shows "gives tr ok F (lift_exn m) G E"
  using assms unfolding gives_def lift_exn_def by (auto split: prod.splits sum.splits)

definition trace_of :: "(deed list \<times> 'w) drill \<Rightarrow> deed list" where
  "trace_of s = fst (dr_world s)"

lemma gives_on_world:
  assumes "gives fst ok F m G E"
  shows "gives trace_of ok F (on_world m) G E"
  unfolding gives_def on_world_def by (auto simp: trace_of_def split: prod.splits dest: givesD [OF assms])

lemma gives_ask: "gives fst ok F m G E \<Longrightarrow> gives trace_of ok F (ask m) G E"
  unfolding ask_def by (intro gives_on_world gives_lift_exn)

lemma gives_noted:
  assumes "\<And>r t. F t \<Longrightarrow> ok t (f r)" and "\<And>a t. F t \<Longrightarrow> G a (f (Inr a) # t)" and "\<And>x t. F t \<Longrightarrow> E (f (Inl x) # t)"
  shows "gives fst ok F (noted_as f m) G E"
  using assms unfolding gives_def noted_as_def by (auto split: prod.splits)

lemma gives_unnoted:
  assumes "\<And>t. F t \<Longrightarrow> E t"
  shows "gives fst ok F (unnoted m) (\<lambda>_. F) E"
  using assms unfolding gives_def unnoted_def by (auto split: prod.splits)

lemma gives_given: "(\<And>t. F t \<Longrightarrow> E t) \<Longrightarrow> gives tr ok F (given r) (\<lambda>_. F) E"
  unfolding given_def by (intro gives_lift_exn gives_lift)

lemma gives_need: "(\<And>t. F t \<Longrightarrow> E t) \<Longrightarrow> gives tr ok F (need truth reason) (\<lambda>_ t. F t \<and> truth) E"
  unfolding need_def by (auto intro: gives_ret gives_raise)

section \<open>One record\<close>

lemma open_simps [simp]: "kept (\<lambda>t. c \<in> set t)" "kept F \<Longrightarrow> kept H \<Longrightarrow> kept (\<lambda>t. F t \<and> H t)" "kept (created_as e name i)"
  "kept (all_created e)"
  by (auto simp: kept_def created_as_def all_created_def)

text \<open>A record that was taken is rejected or finished without a call the drill may not make.\<close>

definition handling :: "drill_ids \<Rightarrow> (deed list \<Rightarrow> bool) \<Rightarrow> deed list \<Rightarrow> bool" where
  "handling e F t \<longleftrightarrow> F t \<and> all_created e t \<and> open_record t"

lemma quarantine_gives:
  assumes "kept F" and "scenario \<in> set poison_scenarios"
  shows "gives fst (drill_allows e scenario) (handling e F) (pt_quarantine (drill_ports (noting_desk d) e m inject) rec)
    (\<lambda>_ t. handling e F t \<and> took_effect (dlq_topic e) t) F"
proof -
  have "gives fst (drill_allows e scenario) (handling e F) (noted_as (\<lambda>r. Published (dlq_topic e) (is_ok r)) (dk_publish d (dlq_topic e) k v))
      (\<lambda>_ t. handling e F t \<and> took_effect (dlq_topic e) t) F" for k v
    by (rule gives_noted) (use assms in \<open>auto simp: handling_def drill_allows_def all_created_def keptD\<close>)
  then show ?thesis
    by (auto simp: drill_ports_def noting_desk_def handling_def intro!: gives_ret gives_bind [OF gives_lift])
qed

lemma desk_gives:
  assumes "kept F"
  shows commit_gives: "gives fst (drill_allows e scenario) (\<lambda>t. handling e F t \<and> took_effect (dlq_topic e) t)
      (pt_commit (drill_ports (noting_desk d) e m inject)) (\<lambda>_. F) F"
    and checkpoint_gives: "gives fst (drill_allows e scenario) (\<lambda>t. handling e F t \<and> P t)
      (pt_checkpoint (drill_ports (noting_desk d) e m inject) name) (\<lambda>_ t. handling e F t \<and> P t) F"
    and index_gives: "gives fst (drill_allows e scenario) (handling e F) (pt_index (drill_ports (noting_desk d) e m inject) x)
      (\<lambda>_ t. handling e F t \<and> took_effect (dlq_topic e) t) (handling e F)"
    and drop_gives: "gives fst (drill_allows e scenario) (\<lambda>t. handling e F t \<and> took_effect (dlq_topic e) t)
      (pt_cache_delete (drill_ports (noting_desk d) e m inject) i)
      (\<lambda>_ t. handling e F t \<and> took_effect (dlq_topic e) t) (\<lambda>t. handling e F t \<and> took_effect (dlq_topic e) t)"
  using assms by (auto simp: drill_ports_def noting_desk_def handling_def drill_allows_def all_created_def
      intro!: gives_noted gives_ret gives_raise keptD [of F])

lemma reject_gives:
  assumes "kept F" and "policy = ''strict'' \<or> scenario \<in> set poison_scenarios"
  shows "gives fst (drill_allows e scenario) (handling e F)
    (reject_record sha sha_json s topic_id position key raw (drill_ports (noting_desk d) e m inject) policy x st) (\<lambda>_. F) F"
proof -
  have F: "handling e F t \<Longrightarrow> F t" for t by (simp add: handling_def)
  note steps = gives_lift_exn [OF quarantine_gives [OF assms(1)]] gives_lift_exn [OF checkpoint_gives [OF assms(1)]]
    gives_lift_exn [OF commit_gives [OF assms(1)]]
  show ?thesis
    using assms(2) unfolding reject_record_def
    by (auto split: option.splits sum.splits intro!: gives_raise F gives_bind [OF steps(1)] gives_bind [OF steps(2)]
        gives_bind [OF steps(3)] gives_ret)
qed

lemma finish_gives:
  assumes "kept F"
  shows "gives fst (drill_allows e scenario) (\<lambda>t. handling e F t \<and> took_effect (dlq_topic e) t)
    (finish_record (drill_ports (noting_desk d) e m inject) event outcome) (\<lambda>_. F) F"
proof -
  let ?p = "drill_ports (noting_desk d) e m inject" and ?H = "\<lambda>t. handling e F t \<and> took_effect (dlq_topic e) t"
  have drop: "gives fst (drill_allows e scenario) ?H (\<lambda>w. case pt_cache_delete ?p i w of (r, w') \<Rightarrow>
      bind_eff (lift_exn (pt_commit ?p)) (\<lambda>_. ret (f r)) w') (\<lambda>_. F) F" for i and f :: "unit res \<Rightarrow> msg_result"
  proof -
    have c: "gives fst (drill_allows e scenario) ?H (bind_eff (lift_exn (pt_commit ?p)) (\<lambda>_. ret (f r))) (\<lambda>_. F) F" for r
      by (rule gives_bind [OF gives_lift_exn [OF commit_gives [OF assms]]]) (rule gives_ret)
    show ?thesis unfolding gives_def
    proof (intro allI impI)
      fix s r s'
      assume s: "(case pt_cache_delete ?p i s of (r, w') \<Rightarrow> bind_eff (lift_exn (pt_commit ?p)) (\<lambda>_. ret (f r)) w') = (r, s')
        \<and> justified (drill_allows e scenario) (fst s) \<and> ?H (fst s)"
      obtain r1 s1 where m: "pt_cache_delete ?p i s = (r1, s1)" by (metis surj_pair)
      have moved: "bind_eff (lift_exn (pt_commit ?p)) (\<lambda>_. ret (f r1)) s1 = (r, s')" using s m by simp
      have "justified (drill_allows e scenario) (fst s1) \<and> ?H (fst s1)"
        using givesD [OF drop_gives [OF assms] m] s by (cases r1) auto
      then show "justified (drill_allows e scenario) (fst s') \<and> (\<forall>x. r = Inl x \<longrightarrow> F (fst s')) \<and> (\<forall>a. r = Inr a \<longrightarrow> F (fst s'))"
        using givesD [OF c [of r1] moved] s m by blast
    qed
  qed
  show ?thesis unfolding finish_record_def Let_def
    by (rule gives_bind [OF gives_lift_exn [OF checkpoint_gives [OF assms]]]) (rule drop)
qed

lemma process_gives:
  assumes "kept F" and "policy = ''strict'' \<or> scenario \<in> set poison_scenarios"
  shows "gives fst (drill_allows e scenario) (handling e F)
    (process_record iso_ok scan sha sha_json s topic_id position key raw (drill_ports (noting_desk d) e m inject) policy) (\<lambda>_. F) F"
    (is "gives fst ?ok ?H ?m _ _")
  unfolding gives_def
proof (intro allI impI)
  let ?p = "drill_ports (noting_desk d) e m inject"
  fix w r w'
  assume w: "?m w = (r, w') \<and> justified ?ok (fst w) \<and> ?H (fst w)"
  have H: "?H t \<Longrightarrow> F t" for t by (simp add: handling_def)
  let ?reject = "\<lambda>x st. reject_record sha sha_json s topic_id position key raw ?p policy x st"
  have reject: "justified ?ok (fst w') \<and> (\<forall>x. r = Inl x \<longrightarrow> F (fst w')) \<and> (\<forall>a. r = Inr a \<longrightarrow> F (fst w'))"
    if "?reject x st w1 = (r, w')" "justified ?ok (fst w1)" "?H (fst w1)" for x st w1
    using givesD [OF reject_gives [OF assms] that] by blast
  show "justified ?ok (fst w') \<and> (\<forall>x. r = Inl x \<longrightarrow> F (fst w')) \<and> (\<forall>a. r = Inr a \<longrightarrow> F (fst w'))"
  proof (cases "policy \<noteq> ''strict'' \<and> policy \<noteq> ''quarantine''")
    case policy: False
    show ?thesis
    proof (cases "decode_record iso_ok scan key raw")
      case (Inl x)
      then have "?reject x Decode w = (r, w')" using policy w by (auto simp: process_record_def)
      then show ?thesis using w reject by blast
    next
      case event: (Inr event)
      obtain r1 w1 where i: "pt_index ?p (event_order_dict event) w = (r1, w1)" by (metis surj_pair)
      have one: "justified ?ok (fst w1)" "r1 = Inl x \<Longrightarrow> ?H (fst w1)" "r1 = Inr a \<Longrightarrow> ?H (fst w1) \<and> took_effect (dlq_topic e) (fst w1)" for x a
        using givesD [OF index_gives [OF assms(1)] i] w by auto
      show ?thesis
      proof (cases r1)
        case (Inl x)
        then have "?reject x Project w1 = (r, w')" using policy w i event by (auto simp: process_record_def)
        then show ?thesis using one Inl reject by blast
      next
        case (Inr outcome)
        then have "finish_record ?p event outcome w1 = (r, w')" using policy w i event by (auto simp: process_record_def)
        from givesD [OF finish_gives [OF assms(1)] this] one(1) one(3) [OF Inr] show ?thesis by blast
      qed
    qed
  qed (use w H in \<open>auto simp: process_record_def\<close>)
qed

section \<open>The steps of a drill\<close>

text \<open>An operation of the drill keeps what is known of the trace, on return and when it raises.\<close>

definition stays :: "drill_ids \<Rightarrow> string \<Rightarrow> (deed list \<Rightarrow> bool) \<Rightarrow> ((deed list \<times> 'w) drill \<Rightarrow> (msg_exn + 'a) \<times> (deed list \<times> 'w) drill) \<Rightarrow> bool" where
  "stays e scenario F m \<longleftrightarrow> gives trace_of (drill_allows e scenario) F m (\<lambda>_. F) F"

definition ready :: "drill_ids \<Rightarrow> (deed list \<Rightarrow> bool) \<Rightarrow> bool" where
  "ready e F \<longleftrightarrow> kept F \<and> (\<forall>t. F t \<longrightarrow> all_created e t \<and> Verified True \<in> set t)"

lemma readyD: "ready e F \<Longrightarrow> kept F" "ready e F \<Longrightarrow> F t \<Longrightarrow> all_created e t" "ready e F \<Longrightarrow> F t \<Longrightarrow> Verified True \<in> set t"
  by (auto simp: ready_def)

named_theorems staying

lemma stays_bind [staying]: "stays e sc F m \<Longrightarrow> (\<And>a. stays e sc F (k a)) \<Longrightarrow> stays e sc F (bind_eff m k)"
  unfolding stays_def by (rule gives_bind)

lemma stays_plain [staying]: "stays e sc F (ret a)" "stays e sc F (raise_exn x)" "stays e sc F (given r)" "stays e sc F (need b reason)"
  "stays e sc F received_offsets" "stays e sc F (note_received m)"
  unfolding stays_def need_def
  by (auto intro: gives_ret gives_raise gives_given) (auto simp: gives_def received_offsets_def note_received_def trace_of_def)

lemma stays_clock [staying]: "stays e sc F (read_clock (noting_desk d))"
  by (auto simp: stays_def gives_def read_clock_def noting_desk_def trace_of_def split: prod.splits)

lemma stays_quiet [staying]: "stays e sc F (ask (dk_rows (noting_desk d)))" "stays e sc F (ask (dk_reader (noting_desk d)))"
  "stays e sc F (ask (dk_read_dlq (noting_desk d)))" "stays e sc F (ask (dk_exact (noting_desk d) i))"
  "stays e sc F (ask (dk_uuid (noting_desk d)))"
  unfolding stays_def noting_desk_def by (auto intro!: gives_ask gives_unnoted)

lemma stays_watermark [staying]: "ready e F \<Longrightarrow> stays e sc F (ask (dk_watermark (noting_desk d) t))"
  and stays_audit [staying]: "ready e F \<Longrightarrow> stays e sc F (ask (dk_audit (noting_desk d) fx))"
  and stays_publish [staying]: "ready e F \<Longrightarrow> stays e sc F (ask (dk_publish (noting_desk d) (source_topic e) k v))"
  unfolding stays_def noting_desk_def
  by (auto intro!: gives_ask gives_noted simp: drill_allows_def readyD keptD)

lemma stays_if [staying]: "(b \<Longrightarrow> stays e sc F m) \<Longrightarrow> (\<not> b \<Longrightarrow> stays e sc F m') \<Longrightarrow> stays e sc F (if b then m else m')"
  by simp

lemma stays_pair [staying]: "(\<And>x y. stays e sc F (m x y)) \<Longrightarrow> stays e sc F (case p of (x, y) \<Rightarrow> m x y)"
  by (cases p) simp

text \<open>A handler that leaves the state where the operation left it, or goes on with such an operation.\<close>

lemma stays_handler:
  assumes "stays e sc F m" and "\<And>r. stays e sc F (h r)"
  shows "stays e sc F (\<lambda>s. case m s of (r, s') \<Rightarrow> h r s')"
  unfolding stays_def gives_def
proof (intro allI impI)
  fix s r s'
  assume s: "(case m s of (r, s') \<Rightarrow> h r s') = (r, s') \<and> justified (drill_allows e sc) (trace_of s) \<and> F (trace_of s)"
  obtain r1 s1 where m: "m s = (r1, s1)" by fastforce
  with s have h: "h r1 s1 = (r, s')" by simp
  have "justified (drill_allows e sc) (trace_of s1) \<and> F (trace_of s1)"
    using givesD [OF assms(1) [unfolded stays_def] m] s by (cases r1) auto
  with givesD [OF assms(2) [unfolded stays_def] h] show "justified (drill_allows e sc) (trace_of s')
      \<and> (\<forall>x. r = Inl x \<longrightarrow> F (trace_of s')) \<and> (\<forall>a. r = Inr a \<longrightarrow> F (trace_of s'))"
    by blast
qed

lemma stays_injected [staying]:
  assumes "stays e sc F m"
  shows "stays e sc F (expect_injected reason m)"
proof -
  have "expect_injected reason m = (\<lambda>s. case m s of (r, s') \<Rightarrow> (case r of Inr _ \<Rightarrow> raise_exn (Failed (Runtime_Error reason))
      | Inl x \<Rightarrow> if x = Failed injected then ret () else raise_exn x) s')"
    by (rule ext) (auto simp: expect_injected_def split: prod.splits sum.splits)
  moreover have "stays e sc F \<dots>"
    using assms by (rule stays_handler) (auto split: sum.splits intro: stays_plain)
  ultimately show ?thesis by simp
qed

lemma stays_expected [staying]:
  assumes "stays e sc F m"
  shows "stays e sc F (expect_poison scenario m)"
proof -
  let ?h = "\<lambda>r. case r of Inr _ \<Rightarrow> raise_exn (Failed (Runtime_Error ''Strict consumer unexpectedly crossed the poison record''))
      | Inl (Failed x) \<Rightarrow> raise_exn (Failed x)
      | Inl (Poison_Blocked reason position) \<Rightarrow>
          bind_eff (need (dget position ''offset'' = PInt 1) ''Poison block at an unexpected source offset'') (\<lambda>_.
          need (reason = expected_reason scenario \<or> scenario = ''mapping-reject'' \<and> reason = u ''mapper_parsing_exception'')
            ''Observed failure is not the scenario requested'')"
  have "expect_poison scenario m = (\<lambda>s. case m s of (r, s') \<Rightarrow> ?h r s')"
    by (rule ext) (auto simp: expect_poison_def split: prod.splits sum.splits msg_exn.splits)
  moreover have "stays e sc F \<dots>"
    using assms by (rule stays_handler) (auto split: sum.splits msg_exn.splits intro!: stays_plain stays_bind)
  ultimately show ?thesis by simp
qed

lemma stays_taken:
  assumes "ready e F"
  shows "gives trace_of (drill_allows e sc) F (ask (dk_next (noting_desk d))) (\<lambda>_. handling e F) F"
  unfolding noting_desk_def
  by (auto intro!: gives_ask gives_noted keptD [OF open_simps(4)] keptD [OF readyD(1) [OF assms]]
      simp: drill_allows_def handling_def readyD [OF assms])

lemma stays_consume_some:
  assumes "ready e F" and "policy = ''strict'' \<or> sc \<in> set poison_scenarios"
  shows "stays e sc F (consume_some (noting_desk d) e policy inject n)"
proof (induction n)
  case (Suc n)
  have note_it: "gives trace_of (drill_allows e sc) (handling e F) (note_received m) (\<lambda>_. handling e F) F" for m
    by (auto simp: gives_def note_received_def handling_def trace_of_def)
  show ?case unfolding stays_def consume_some.simps
    by (intro gives_bind [OF stays_taken [OF assms(1)]] gives_bind [OF note_it]
        gives_bind [OF gives_on_world [OF process_gives [OF readyD(1) [OF assms(1)] assms(2)]]]
        stays_bind [unfolded stays_def] Suc [unfolded stays_def] stays_plain [unfolded stays_def])
qed (simp only: consume_some.simps stays_plain)

lemma stays_consume:
  assumes "ready e F" and "policy = ''strict'' \<or> sc \<in> set poison_scenarios"
  shows "stays e sc F (consume (noting_desk d) e policy inject n)"
proof -
  have "stays e sc F (\<lambda>s. case consume_some (noting_desk d) e policy inject n s of
     (r, s') \<Rightarrow> (r, s'\<lparr>dr_world := dk_close (noting_desk d) (dr_world s')\<rparr>))"
    using stays_consume_some [OF assms] by (rule stays_handler) (auto simp: stays_def gives_def noting_desk_def trace_of_def)
  then show ?thesis unfolding consume_def by (intro stays_bind stays_quiet)
qed

lemma stays_strict [staying]: "ready e F \<Longrightarrow> stays e sc F (consume (noting_desk d) e ''strict'' inject n)"
  and stays_quarantine [staying]: "ready e F \<Longrightarrow> sc \<in> set poison_scenarios \<Longrightarrow> stays e sc F (consume (noting_desk d) e policy inject n)"
  by (rule stays_consume; simp)+

lemma stays_send [staying]: "ready e F \<Longrightarrow> stays e sc F (send (noting_desk d) e event)"
  and stays_envelope [staying]: "stays e sc F (new_envelope (noting_desk d) x)"
  and stays_committed [staying]: "ready e F \<Longrightarrow> stays e sc F (committed_at (noting_desk d) e n reason)"
  unfolding send_def new_envelope_def committed_at_def by (intro staying; assumption)+

lemma stays_sends [staying]: "ready e F \<Longrightarrow> stays e sc F (send_all (noting_desk d) e xs)"
  and stays_orders [staying]: "ready e F \<Longrightarrow> stays e sc F (send_orders (noting_desk d) e ys)"
proof -
  assume F: "ready e F"
  show "stays e sc F (send_all (noting_desk d) e xs)"
    by (induction xs) (simp_all only: send_all.simps stays_plain stays_bind stays_send [OF F])
  show "stays e sc F (send_orders (noting_desk d) e ys)"
    by (induction ys) (simp_all only: send_orders.simps stays_plain stays_bind stays_send [OF F] stays_envelope)
qed

lemma stays_repair_all [staying]: "ready e F \<Longrightarrow> stays e sc F (repair_all (noting_desk d) e fx rs)"
  by (induction rs) (simp_all only: repair_all.simps stays_plain stays_bind stays_send stays_quiet)

lemma stays_repair [staying]: "ready e F \<Longrightarrow> stays e sc F (repair (noting_desk d) e fx n)"
  unfolding repair_def by (intro staying)

lemma stays_blocked [staying]: "ready e F \<Longrightarrow> stays e sc F (check_blocked (noting_desk d) e f scenario)"
  unfolding check_blocked_def by (intro staying)

lemma stays_gap [staying]: "ready e F \<Longrightarrow> sc \<in> set poison_scenarios \<Longrightarrow> stays e sc F (dlq_gap (noting_desk d) e)"
  unfolding dlq_gap_def by (intro staying)

lemma stays_events [staying]: "stays e sc F (poison_events (noting_desk d) f scenario)"
  unfolding poison_events_def by (intro staying)

lemma stays_projection: "ready e F \<Longrightarrow> stays e sc F (projection_gap (noting_desk d) e f)"
  unfolding projection_gap_def by (intro staying)

lemma stays_poison: "ready e F \<Longrightarrow> sc \<in> set poison_scenarios \<Longrightarrow> stays e sc F (poison (noting_desk d) e f sc)"
  unfolding poison_def by (intro staying)

section \<open>Fixtures and versions\<close>

definition prepared :: "drill_ids \<Rightarrow> fixtures \<Rightarrow> deed list \<Rightarrow> bool" where
  "prepared e f t \<longleftrightarrow> all_created e t \<and> Verified True \<in> set t \<and> created_as e ''a'' (o_id (fx_a f)) t"

lemma ready_prepared: "ready e (prepared e f)" "ready e F \<Longrightarrow> ready e (\<lambda>t. F t \<and> c \<in> set t)"
  by (auto simp: ready_def prepared_def [abs_def] intro!: open_simps)

lemma all_created_iff: "all_created e t \<longleftrightarrow> (\<exists>a b c. created_as e ''a'' a t \<and> created_as e ''b'' b t \<and> created_as e ''c'' c t)"
proof -
  have "list_ex (\<lambda>c. case c of Created key (Some _) \<Rightarrow> key = k | _ \<Rightarrow> False) t \<longleftrightarrow> (\<exists>i. Created k (Some i) \<in> set t)" for k
    by (induction t) (auto split: deed.splits option.splits)
  then show ?thesis by (simp add: all_created_def created_as_def)
qed

lemma empty_gives:
  assumes "kept F" and "\<And>t. F t \<Longrightarrow> Verified True \<in> set t"
  shows "gives trace_of (drill_allows e sc) F (check_empty (noting_desk d) [x, y])
    (\<lambda>_ t. F t \<and> Watched x (Some (0, 0, None)) \<in> set t \<and> Watched y (Some (0, 0, None)) \<in> set t) (\<lambda>_. True)"
proof -
  have one: "gives trace_of (drill_allows e sc) H (bind_eff (ask (dk_watermark (noting_desk d) x)) (\<lambda>(low, high, committed).
      bind_eff (need (low = 0 \<and> high = 0 \<and> committed = None) reason) (\<lambda>_. k))) G (\<lambda>_. True)"
    if k: "gives trace_of (drill_allows e sc) (\<lambda>t. H t \<and> Watched x (Some (0, 0, None)) \<in> set t) k G (\<lambda>_. True)"
      and H: "kept H" "\<And>t. H t \<Longrightarrow> Verified True \<in> set t" for H x k reason and G :: "unit \<Rightarrow> deed list \<Rightarrow> bool"
  proof (rule gives_bind)
    show "gives trace_of (drill_allows e sc) H (ask (dk_watermark (noting_desk d) x))
        (\<lambda>a t. H t \<and> Watched x (Some a) \<in> set t) (\<lambda>_. True)"
      using H(2) by (auto simp: noting_desk_def drill_allows_def intro!: gives_ask gives_noted keptD [OF H(1)])
    show "gives trace_of (drill_allows e sc) (\<lambda>t. H t \<and> Watched x (Some a) \<in> set t)
        (case a of (low, high, committed) \<Rightarrow> bind_eff (need (low = 0 \<and> high = 0 \<and> committed = None) reason) (\<lambda>_. k)) G (\<lambda>_. True)" for a
      by (cases a) (auto intro!: gives_bind [OF gives_need] gives_conseq [OF k])
  qed
  show ?thesis unfolding check_empty.simps
    by (intro one gives_ret) (use assms in auto)
qed

lemma fixture_gives:
  assumes "kept F" and "\<And>t. F t \<Longrightarrow> seen_empty e t" and "name \<in> {''a'', ''b'', ''c''}"
  shows "gives trace_of (drill_allows e sc) F (create_fixture (noting_desk d) (di_scope e) name)
    (\<lambda>x t. F t \<and> created_as e name (o_id x) t) (\<lambda>_. True)"
proof -
  have create: "gives trace_of (drill_allows e sc) F (ask (dk_create (noting_desk d) p (fixture_key (di_scope e) name)))
      (\<lambda>(x, c) t. F t \<and> (c \<longrightarrow> created_as e name (o_id x) t)) (\<lambda>_. True)" for p
    using assms(2,3) by (auto simp: noting_desk_def drill_allows_def created_as_def split: bool.splits intro!: gives_ask gives_noted keptD [OF assms(1)])
  have cache: "gives trace_of (drill_allows e sc) (\<lambda>t. F t \<and> created_as e name (o_id x) t)
      (ask (dk_cache_put (noting_desk d) (order_value x))) (\<lambda>_ t. F t \<and> created_as e name (o_id x) t) (\<lambda>_. True)" for x
    using assms(3) by (auto simp: noting_desk_def drill_allows_def str_of_def intro!: gives_ask gives_noted keptD [OF assms(1)] keptD [OF open_simps(3)])
  have rest: "gives trace_of (drill_allows e sc) (\<lambda>t. F t \<and> (c \<longrightarrow> created_as e name (o_id x) t))
      (bind_eff (need c reason) (\<lambda>_. bind_eff (ask (dk_cache_put (noting_desk d) (order_value x))) (\<lambda>_. ret x)))
      (\<lambda>x t. F t \<and> created_as e name (o_id x) t) (\<lambda>_. True)" for c x reason
  proof (rule gives_bind [OF gives_need])
    show "gives trace_of (drill_allows e sc) (\<lambda>t. (F t \<and> (c \<longrightarrow> created_as e name (o_id x) t)) \<and> c)
        (bind_eff (ask (dk_cache_put (noting_desk d) (order_value x))) (\<lambda>_. ret x))
        (\<lambda>x t. F t \<and> created_as e name (o_id x) t) (\<lambda>_. True)"
      by (rule gives_conseq [OF gives_bind [OF cache gives_ret]]) auto
  qed simp
  show ?thesis unfolding create_fixture_def Let_def
    by (rule gives_bind [OF create]) (use rest in \<open>auto split: prod.split\<close>)
qed

lemma prepare_gives:
  "gives trace_of (drill_allows e sc) (\<lambda>t. t = []) (prepare (noting_desk d) e) (prepared e) (\<lambda>_. True)"
proof -
  let ?g = "gives trace_of (drill_allows e sc)"
  have verify: "?g (\<lambda>t. t = []) (ask (dk_verify (noting_desk d))) (\<lambda>_ t. Verified True \<in> set t) (\<lambda>_. True)"
    by (auto simp: noting_desk_def drill_allows_def intro!: gives_ask gives_noted)
  have empty: "?g (\<lambda>t. Verified True \<in> set t) (check_empty (noting_desk d) [source_topic e, dlq_topic e]) (\<lambda>_. seen_empty e) (\<lambda>_. True)"
    by (rule gives_conseq [OF empty_gives]) (auto simp: seen_empty_def)
  have kept: "kept (seen_empty e)" "kept (\<lambda>t. seen_empty e t \<and> created_as e ''a'' i t)"
      "kept (\<lambda>t. (seen_empty e t \<and> created_as e ''a'' i t) \<and> created_as e ''b'' j t)" for i j
    by (auto simp: kept_def seen_empty_def created_as_def)
  have a: "?g (seen_empty e) (create_fixture (noting_desk d) (di_scope e) ''a'') (\<lambda>x t. seen_empty e t \<and> created_as e ''a'' (o_id x) t) (\<lambda>_. True)"
    and b: "?g (\<lambda>t. seen_empty e t \<and> created_as e ''a'' i t) (create_fixture (noting_desk d) (di_scope e) ''b'')
      (\<lambda>x t. (seen_empty e t \<and> created_as e ''a'' i t) \<and> created_as e ''b'' (o_id x) t) (\<lambda>_. True)"
    and c: "?g (\<lambda>t. (seen_empty e t \<and> created_as e ''a'' i t) \<and> created_as e ''b'' j t) (create_fixture (noting_desk d) (di_scope e) ''c'')
      (\<lambda>x t. ((seen_empty e t \<and> created_as e ''a'' i t) \<and> created_as e ''b'' j t) \<and> created_as e ''c'' (o_id x) t) (\<lambda>_. True)" for i j
    by (rule fixture_gives [OF kept(1)] fixture_gives [OF kept(2)] fixture_gives [OF kept(3)]; simp)+
  show ?thesis unfolding prepare_def Let_def
    by (rule gives_bind [OF verify], rule gives_bind [OF empty], rule gives_bind [OF a], rule gives_bind [OF b],
        rule gives_bind [OF c], rule gives_ret) (auto simp: prepared_def all_created_iff seen_empty_def)
qed

lemma version_gives:
  assumes "ready e F" and "\<And>t. F t \<Longrightarrow> created_as e ''a'' (o_id x) t \<or> (\<exists>i. Updated i (Some (o_id x)) \<in> set t)"
  shows "gives trace_of (drill_allows e ''replay-ordering'') F (next_version (noting_desk d) x state)
    (\<lambda>y t. F t \<and> Updated (o_id x) (Some (o_id y)) \<in> set t) F"
  unfolding next_version_def noting_desk_def
  using assms(2) by (fastforce simp: drill_allows_def list_ex_iff intro!: gives_ask gives_noted readyD [OF assms(1)] keptD [OF readyD(1) [OF assms(1)]])

lemma stays_ordering: "stays e ''replay-ordering'' (prepared e f) (ordering (noting_desk d) e f)"
proof -
  let ?G = "\<lambda>y t. prepared e f t \<and> Updated (o_id (fx_a f)) (Some (o_id y)) \<in> set t"
  let ?H = "\<lambda>y z t. ?G y t \<and> Updated (o_id y) (Some (o_id z)) \<in> set t"
  have ready: "ready e (?G y)" "ready e (?H y z)" for y z by (intro ready_prepared)+
  have one: "gives trace_of (drill_allows e ''replay-ordering'') (prepared e f) (next_version (noting_desk d) (fx_a f) ''paid'') ?G (prepared e f)"
    by (rule version_gives [OF ready_prepared(1)]) (simp add: prepared_def)
  have two: "gives trace_of (drill_allows e ''replay-ordering'') (?G y) (next_version (noting_desk d) y ''shipped'') (?H y) (prepared e f)" for y
    by (rule gives_conseq [OF version_gives [OF ready(1)]]) auto
  have rest: "stays e ''replay-ordering'' (?H y z) (bind_eff (send_orders (noting_desk d) e xs) (\<lambda>_.
      bind_eff (consume (noting_desk d) e ''strict'' None 8) (\<lambda>result. bind_eff (need (b result) reason) (\<lambda>_.
      bind_eff (ask (dk_read_dlq (noting_desk d))) (\<lambda>records. ret (k result records))))))" for y z xs b reason k
    by (intro staying ready)
  show ?thesis unfolding stays_def ordering_def Let_def
    by (rule gives_bind [OF one], rule gives_bind [OF two], rule gives_conseq [OF rest [unfolded stays_def]]) auto
qed

section \<open>The end of a drill\<close>

fun streak :: "nat \<Rightarrow> deed list \<Rightarrow> bool" where
  "streak 0 t = True"
| "streak (Suc n) (Audited True # t) = streak n t"
| "streak (Suc n) _ = False"

lemma streak_Suc: "streak (Suc n) t \<longleftrightarrow> (\<exists>t'. t = Audited True # t' \<and> streak n t')"
  by (cases "(Suc n, t)" rule: streak.cases) auto

lemma audit_gives:
  assumes "ready e F"
  shows "gives trace_of (drill_allows e sc) (\<lambda>t. F t \<and> streak c t) (audit_until n (noting_desk d) fx deadline c audits)
    (\<lambda>(c', _) t. F t \<and> streak c' t) F"
proof (induction n arbitrary: c audits)
  case (Suc n)
  have clock: "gives trace_of (drill_allows e sc) (\<lambda>t. F t \<and> streak c t) (read_clock (noting_desk d)) (\<lambda>_ t. F t \<and> streak c t) F"
    by (rule gives_conseq [OF stays_clock [of e sc "\<lambda>t. F t \<and> streak c t", unfolded stays_def]]) auto
  have audit: "gives trace_of (drill_allows e sc) (\<lambda>t. F t \<and> streak c t) (ask (dk_audit (noting_desk d) fx))
      (\<lambda>ok t. F t \<and> streak (if ok then Suc c else 0) t) F"
    by (auto simp: noting_desk_def drill_allows_def intro!: gives_ask gives_noted readyD [OF assms] keptD [OF readyD(1) [OF assms]])
  have next_round: "gives trace_of (drill_allows e sc) (\<lambda>t. F t \<and> streak c' t)
      (if c' = 2 then ret (c', l) else audit_until n (noting_desk d) fx deadline c' l) (\<lambda>(c', _) t. F t \<and> streak c' t) F" for c' l
    using Suc [of c' l] by (auto intro: gives_ret)
  show ?case unfolding audit_until.simps Let_def
    by (rule gives_bind [OF clock]) (auto intro!: gives_ret gives_bind [OF audit] next_round)
qed (auto intro: gives_raise)

lemma final_gives:
  assumes "ready e F"
  shows "gives trace_of (drill_allows e sc) F (final_checks n (noting_desk d) e fx) (\<lambda>_ t. ends_settled e t) (\<lambda>_. True)"
proof -
  let ?g = "gives trace_of (drill_allows e sc)"
  have clock: "?g F (read_clock (noting_desk d)) (\<lambda>_ t. F t \<and> streak 0 t) (\<lambda>_. True)"
    by (rule gives_conseq [OF stays_clock [of e sc F, unfolded stays_def]]) auto
  have audits: "?g (\<lambda>t. F t \<and> streak 0 t) (audit_until n (noting_desk d) fx deadline 0 []) (\<lambda>(c, _) t. F t \<and> streak c t) (\<lambda>_. True)" for deadline
    by (rule gives_conseq [OF audit_gives [OF assms]]) auto
  have two: "streak 2 t \<longleftrightarrow> (\<exists>t'. t = Audited True # Audited True # t')" for t
    by (auto simp: numeral_2_eq_2 streak_Suc)
  have last: "?g (\<lambda>t. (F t \<and> streak c t) \<and> c = 2) (ask (dk_watermark (noting_desk d) (source_topic e)))
      (\<lambda>(low, high, committed) t. \<exists>t'. t = Watched (source_topic e) (Some (low, high, committed)) # Audited True # Audited True # t') (\<lambda>_. True)" for c
    by (auto simp: noting_desk_def drill_allows_def two intro!: gives_ask gives_noted readyD [OF assms])
  have done_with: "?g (\<lambda>t. \<exists>t'. t = Watched (source_topic e) (Some (low, high, committed)) # Audited True # Audited True # t')
      (bind_eff (need (committed = Some high) reason) (\<lambda>_. ret x)) (\<lambda>_ t. ends_settled e t) (\<lambda>_. True)" for low high committed reason and x :: "bool list \<times> int \<times> int \<times> int option"
    by (rule gives_bind [OF gives_need]) (auto intro: gives_ret)
  show ?thesis unfolding final_checks_def
    by (rule gives_bind [OF clock], rule gives_bind [OF audits])
      (auto split: prod.split intro!: gives_bind [OF gives_need] gives_bind [OF last] done_with)
qed

lemma run_gives:
  "gives trace_of (drill_allows e sc) (\<lambda>t. t = []) (run_drill rounds (noting_desk d) e sc) (\<lambda>_. ends_settled e) (\<lambda>_. True)"
proof (cases "sc \<in> set message_scenarios")
  case True
  have body: "gives trace_of (drill_allows e sc) (prepared e f) (if sc = ''projection-commit-gap'' then projection_gap (noting_desk d) e f
      else if sc = ''replay-ordering'' then ordering (noting_desk d) e f else poison (noting_desk d) e f sc) (\<lambda>_. prepared e f) (\<lambda>_. True)" for f
    by (rule gives_conseq [where E' = "prepared e f" and G' = "\<lambda>_. prepared e f" and F' = "prepared e f"])
      (use True in \<open>auto simp: message_scenarios_def stays_def [symmetric] intro!: stays_projection stays_poison stays_ordering ready_prepared\<close>)
  have last: "gives trace_of (drill_allows e sc) (prepared e f) (bind_eff (final_checks rounds (noting_desk d) e (fx_keys f)) (\<lambda>(a, c). ret (k a c)))
      (\<lambda>_. ends_settled e) (\<lambda>_. True)" for f and k :: "bool list \<Rightarrow> int \<times> int \<times> int option \<Rightarrow> report"
    by (rule gives_bind [OF final_gives [OF ready_prepared(1)]]) (auto split: prod.split intro: gives_ret)
  show ?thesis unfolding run_drill_def
    using True by (auto intro!: gives_bind [OF prepare_gives] gives_bind [OF body] last)
qed (auto simp: run_drill_def intro: gives_raise)

text \<open>C40: Whatever the services answer and wherever a message drill ends, its calls keep to its bounds: it first checks
  the resources and finds both topics empty without a checkpoint, creates only the three orders of its run, updates only
  the first of them and only to replay its versions, sends to its source topic only after all three exist and to the
  DLQ only in a poison scenario while a record is open, and commits an offset only for a record it took that was indexed
  or acknowledged by the DLQ since. A drill that reports ended with two matching audits in a row and a committed
  position at the end of its topic.\<close>

theorem drill_calls_bounded:
  "case run_drill rounds (noting_desk d) e scenario \<lparr>dr_received = [], dr_world = ([], w)\<rparr> of (r, s) \<Rightarrow>
     justified (drill_allows e scenario) (trace_of s) \<and> (case r of Inl _ \<Rightarrow> True | Inr _ \<Rightarrow> ends_settled e (trace_of s))"
proof -
  obtain r s where "run_drill rounds (noting_desk d) e scenario \<lparr>dr_received = [], dr_world = ([], w)\<rparr> = (r, s)" by fastforce
  with givesD [OF run_gives this] show ?thesis by (auto simp: trace_of_def split: sum.split)
qed

end
