(* ===== verification/Policy.thy ===== *)
theory Policy
  imports Prelude "HOL-Library.List_Lexorder"
begin

text \<open>
  \<open>ansible/module_utils/db_lab_policy.py\<close>: the plan the Ansible entry point may run. Options
  and parameters are Python values; the text of a float (\<open>ftext\<close>) and the rounding of a float
  product (\<open>fl\<close>) are arguments. The checks of paths on disk (\<open>regular_path\<close>,
  \<open>validate_project\<close>) are I/O and not modelled.
\<close>

section \<open>Tables\<close>

definition targets :: "string list" where
  "targets = [''mvp'', ''all'', ''elasticsearch'', ''elasticsearch9'', ''kafka'', ''mariadb'', ''redis'', ''k8s'']"

definition simulations :: "string list" where
  "simulations = [''baseline'', ''kafka-outage'', ''es-outage'', ''redis-outage'', ''db-freeze'',
     ''worker-freeze'', ''redis-recreate'', ''redis-switch'', ''row-lock'', ''duplicate-retry'',
     ''version-race'', ''db-network-delay'', ''db-network-loss'']"

definition transactions :: "string list" where
  "transactions = [''stock-race'', ''duplicate-checkout'', ''checkout-rollback'',
     ''commit-ambiguity'', ''idempotency-conflict'', ''refund-race'']"

definition drills :: "string list" where
  "drills = [''backup-restore'', ''upgrade-restore'', ''redis-disk-full'', ''redis-oom'', ''deadlock''] @ transactions"

definition message_scenarios :: "string list" where
  "message_scenarios = [''poison-schema'', ''mapping-reject'', ''projection-commit-gap'', ''dlq-commit-gap'',
     ''replay-ordering'', ''version-collision'']"

definition unfaulted :: "string list" where
  "unfaulted = [''baseline'', ''row-lock'', ''duplicate-retry'', ''version-race'']"

definition paired :: "string list" where
  "paired = filter (\<lambda>s. s \<notin> set unfaulted) simulations"

definition suites :: "string list" where
  "suites = [''core'', ''simulations'', ''transactions'', ''messages'', ''network'', ''resources'', ''recovery'',
     ''all'', ''candidate'']"

definition services :: "string list" where
  "services = [''mariadb'', ''kafka'', ''elasticsearch'', ''redis'', ''api'', ''worker'', ''redis-spare'']"

definition workloads :: "string list" where
  "workloads = [''mixed'', ''read-heavy'', ''write-heavy'', ''hot-key'']"

definition numeric :: "(string \<times> int \<times> int) list" where
  "numeric = [(''seed'', 0, 2 ^ 32 - 1), (''seconds'', 15, 180), (''workers'', 1, 8), (''fault_at'', 1, 179),
     (''fault_for'', 1, 30), (''recovery_timeout'', 5, 300), (''clients'', 2, 8), (''step_timeout'', 120, 1200)]"

definition sim_keys :: "string list" where
  "sim_keys = [''seed'', ''seconds'', ''rate'', ''workers'', ''fault_at'', ''fault_for'', ''recovery_timeout'', ''workload'']"

definition is_in :: "pv \<Rightarrow> string list \<Rightarrow> bool" where
  "is_in v names = (\<exists>n\<in>set names. v = PStr (u n))"

section \<open>Checked values\<close>

definition text_ok :: "nat \<Rightarrow> pv \<Rightarrow> bool" where
  "text_ok limit v = (case v of PStr s \<Rightarrow> s \<noteq> [] \<and> length s \<le> limit \<and> list_all (\<lambda>c. \<not> (c < 32 \<or> c = 127)) s | _ \<Rightarrow> False)"

definition absolute :: "pv \<Rightarrow> ustr res" where
  "absolute v = (case v of
       PStr s \<Rightarrow> bind_res (require (text_ok 2048 v \<and> starts_with (u ''/'') s \<and> \<not> starts_with (u ''//'') s)
             ''absolute_posix_path_required'') (\<lambda>_.
           bind_res (require (u ''..'' \<notin> set (split_on 47 s) \<and> s \<noteq> u ''/'') ''unsafe_path'') (\<lambda>_. Inr s))
     | _ \<Rightarrow> Inl (Value_Error ''absolute_posix_path_required''))"

text \<open>\<open>str(Path(root) / name)\<close>\<close>

definition path_join :: "ustr \<Rightarrow> ustr \<Rightarrow> ustr" where
  "path_join base name = concat (map (\<lambda>w. 47 # w) (filter (\<lambda>w. w \<noteq> [] \<and> w \<noteq> [46]) (split_on 47 base) @ [name]))"

definition run_id_of :: "pv \<Rightarrow> string \<Rightarrow> ustr res" where
  "run_id_of v kind = (let n = (if kind = ''msg'' then 24 else 12); pre = u (kind @ ''-'') in
     case v of PStr s \<Rightarrow> bind_res (require (starts_with pre s \<and> class_match is_hex_lower n n (drop (length pre) s))
         ''invalid_run_id'') (\<lambda>_. Inr s)
     | _ \<Rightarrow> Inl (Value_Error ''invalid_run_id''))"

definition digest_suffix :: "ustr \<Rightarrow> bool" where
  "digest_suffix s \<longleftrightarrow> s = [] \<or> starts_with (u ''@sha256:'') s \<and> class_match is_hex_lower 64 64 (drop 8 s)"

definition tag_suffix :: "ustr \<Rightarrow> bool" where
  "tag_suffix s = (let p = (\<lambda>c. is_lower c \<or> is_digit c \<or> c = 46 \<or> c = 45) in
     (case s of c # r \<Rightarrow> if c = 45 then takeWhile p r \<noteq> [] \<and> digest_suffix (dropWhile p r) else digest_suffix s
      | [] \<Rightarrow> True))"

definition version_text :: "ustr \<Rightarrow> bool" where
  "version_text s = (let r1 = dropWhile is_digit s in
     takeWhile is_digit s \<noteq> [] \<and> (case r1 of d # r2 \<Rightarrow> d = 46 \<and> takeWhile is_digit r2 \<noteq> [] \<and>
       (case dropWhile is_digit r2 of c # r3 \<Rightarrow>
           if c = 46 then takeWhile is_digit r3 \<noteq> [] \<and> tag_suffix (dropWhile is_digit r3) else tag_suffix (c # r3)
        | [] \<Rightarrow> True)
     | [] \<Rightarrow> False))"

definition image_text :: "ustr \<Rightarrow> bool" where
  "image_text s = (let t = (if starts_with (u ''docker.io/library/'') s then drop 18 s
        else if starts_with (u ''library/'') s then drop 8 s else s)
     in starts_with (u ''mariadb:'') t \<and> version_text (drop 8 t))"

section \<open>Options\<close>

definition value_text :: "(rat \<Rightarrow> ustr) \<Rightarrow> pv \<Rightarrow> ustr" where
  "value_text ftext v = (case v of PInt n \<Rightarrow> int_text n | PFloat r \<Rightarrow> ftext r | PStr s \<Rightarrow> s | _ \<Rightarrow> [])"

text \<open>The double that the literal \<open>.2\<close> denotes.\<close>

definition one_fifth :: rat where
  "one_fifth = 3602879701896397 / 18014398509481984"

definition flag_of :: "string \<Rightarrow> ustr" where
  "flag_of k = u (''--'' @ map (\<lambda>c. if c = CHR ''_'' then CHR ''-'' else c) k)"

definition encode_option :: "(rat \<Rightarrow> ustr) \<Rightarrow> string \<Rightarrow> pv \<Rightarrow> ustr list res" where
  "encode_option ftext k v =
     (let out = Inr [flag_of k, value_text ftext v] in
      case map_of numeric k of
        Some (lo, hi) \<Rightarrow> bind_res (require (case v of PInt n \<Rightarrow> lo \<le> n \<and> n \<le> hi | _ \<Rightarrow> False)
            (''option_out_of_range_'' @ k)) (\<lambda>_. out)
      | None \<Rightarrow>
        if k = ''rate'' then bind_res (require (case v of PInt n \<Rightarrow> 1 \<le> n \<and> n \<le> 10
             | PFloat r \<Rightarrow> one_fifth \<le> r \<and> r \<le> 10 | _ \<Rightarrow> False) ''option_out_of_range_rate'') (\<lambda>_. out)
        else if k = ''workload'' then bind_res (require (is_in v workloads) ''invalid_workload'') (\<lambda>_. out)
        else if k = ''keep'' then (case v of PBool b \<Rightarrow> Inr (if b then [u ''--keep''] else [])
             | _ \<Rightarrow> Inl (Value_Error ''keep_requires_boolean''))
        else if k = ''candidate_image'' then bind_res (require (case v of PStr s \<Rightarrow> image_text s | _ \<Rightarrow> False)
             ''explicit_mariadb_image_required'') (\<lambda>_. out)
        else if k = ''snapshot'' then bind_res (absolute v) (\<lambda>_. out)
        else Inl (Value_Error ''unsupported_options''))"

fun encode_all :: "(rat \<Rightarrow> ustr) \<Rightarrow> string list \<Rightarrow> pdict \<Rightarrow> ustr list res" where
  "encode_all ftext allowed [] = Inr []"
| "encode_all ftext allowed ((k, v) # d) = (case find (\<lambda>n. u n = k) allowed of
     None \<Rightarrow> Inl (Value_Error ''unsupported_options'')
   | Some n \<Rightarrow> bind_res (encode_option ftext n v) (\<lambda>a. bind_res (encode_all ftext allowed d) (\<lambda>b. Inr (a @ b))))"

definition encode_options :: "(rat \<Rightarrow> ustr) \<Rightarrow> pdict \<Rightarrow> string list \<Rightarrow> ustr list res" where
  "encode_options ftext options allowed =
     bind_res (require (set (map fst options) \<subseteq> u ` set allowed) ''unsupported_options'') (\<lambda>_.
     encode_all ftext allowed (sort_key fst options))"

definition int_opt :: "int \<Rightarrow> pdict \<Rightarrow> string \<Rightarrow> int" where
  "int_opt n d k = (case dget_or (PInt n) d k of PInt m \<Rightarrow> m | _ \<Rightarrow> n)"

text \<open>The options were encoded before, so a given one has its type.\<close>

definition bounded_plan :: "(rat \<Rightarrow> rat) \<Rightarrow> pv \<Rightarrow> pdict \<Rightarrow> unit res" where
  "bounded_plan fl name d =
     (let seconds = int_opt 40 d ''seconds''; workers = int_opt 4 d ''workers'';
          fault_at = int_opt 8 d ''fault_at''; fault_for = int_opt 10 d ''fault_for'' in
      bind_res (require (case dget_or (PInt 2) d ''rate'' of
           PInt rate \<Rightarrow> seconds * rate \<le> 400 | PFloat rate \<Rightarrow> fl (of_int seconds * rate) \<le> 400 | _ \<Rightarrow> False)
           ''workflow_budget_exceeded'') (\<lambda>_.
      bind_res (require (fault_at < seconds) ''fault_at_outside_run'') (\<lambda>_.
      bind_res (require (is_in name [''baseline'', ''duplicate-retry'', ''version-race'']
           \<or> fault_at + fault_for + 5 \<le> seconds) ''post_fault_observation_required'') (\<lambda>_.
      require (name \<noteq> PStr (u ''version-race'') \<or> workers \<ge> 2) ''version_race_requires_two_workers''))))"

section \<open>Kubernetes and benchmarks\<close>

definition k8s_name :: "nat \<Rightarrow> pv \<Rightarrow> bool" where
  "k8s_name limit v = (case v of PStr s \<Rightarrow> s \<noteq> [] \<and> length s \<le> limit
       \<and> list_all (\<lambda>c. is_lower c \<or> is_digit c \<or> c = 45) s \<and> hd s \<noteq> 45 \<and> last s \<noteq> 45 | _ \<Rightarrow> False)"

fun join_commas :: "ustr list \<Rightarrow> ustr" where
  "join_commas [] = []"
| "join_commas [s] = s"
| "join_commas (s # t # r) = s @ 44 # join_commas (t # r)"

definition str_value :: "pv \<Rightarrow> ustr" where
  "str_value v = (case v of PStr s \<Rightarrow> s | _ \<Rightarrow> [])"

fun values_args :: "pv list \<Rightarrow> ustr list res" where
  "values_args [] = Inr []"
| "values_args (v # vs) = bind_res (absolute v) (\<lambda>p. bind_res (values_args vs) (\<lambda>r. Inr (u ''-f'' # p # r)))"

record k8s_plan =
  kp_env :: "(string \<times> ustr) list"
  kp_args :: "ustr list"
  kp_name :: ustr

definition context_ok :: "pv \<Rightarrow> pv \<Rightarrow> bool" where
  "context_ok ctx allowed = (case allowed of
       PList cs \<Rightarrow> cs \<noteq> [] \<and> length cs \<le> 20 \<and> list_all (\<lambda>c. text_ok 200 c \<and> 44 \<notin> set (str_value c)) cs \<and> ctx \<in> set cs
     | _ \<Rightarrow> False)"

definition kube_values :: "string \<Rightarrow> pv \<Rightarrow> ustr list res" where
  "kube_values action v = (case v of
       PList vs \<Rightarrow> if 8 < length vs then Inl (Value_Error ''invalid_values_files'')
         else bind_res (require (vs = [] \<or> action \<in> {''up'', ''preflight'', ''lint'', ''template''})
             ''values_not_used_by_action'') (\<lambda>_. values_args vs)
     | _ \<Rightarrow> Inl (Value_Error ''invalid_values_files''))"

definition kube_plan :: "string \<Rightarrow> pv \<Rightarrow> k8s_plan res" where
  "kube_plan action config = (case config of PDict d \<Rightarrow>
     bind_res (require (set (map fst d) \<subseteq> u ` {''context'', ''allowed_contexts'', ''namespace'', ''release'', ''kubeconfig'',
         ''values_files''}) ''unsupported_k8s_option'') (\<lambda>_.
     let ctx = dget d ''context''; allowed = dget d ''allowed_contexts''; ns = dget d ''namespace'';
         release = dget_or (PStr (u ''db-lab'')) d ''release'' in
     bind_res (require (text_ok 200 ctx \<and> \<not> starts_with (u ''-'') (str_value ctx)) ''explicit_k8s_context_required'') (\<lambda>_.
     bind_res (require (context_ok ctx allowed) ''k8s_context_not_allowed'') (\<lambda>_.
     bind_res (require (k8s_name 63 ns) ''invalid_k8s_name'') (\<lambda>_.
     bind_res (require (k8s_name 53 release) ''invalid_k8s_name'') (\<lambda>_.
     bind_res (require (\<not> is_in ns [''default'', ''kube-system'', ''kube-public'', ''kube-node-lease''])
         ''protected_namespace'') (\<lambda>_.
     bind_res (if truthy (dget d ''kubeconfig'') then bind_res (absolute (dget d ''kubeconfig'')) (\<lambda>p.
         Inr [(''DB_LAB_KUBECONFIG'', p)]) else Inr []) (\<lambda>conf.
     bind_res (kube_values action (dget_or (PList []) d ''values_files'')) (\<lambda>args. Inr
         \<lparr>kp_env = [(''DB_LAB_CONTEXT'', str_value ctx),
             (''DB_LAB_ALLOWED_CONTEXTS'', join_commas (map str_value (case allowed of PList cs \<Rightarrow> cs | _ \<Rightarrow> []))),
             (''DB_LAB_NAMESPACE'', str_value ns), (''DB_LAB_RELEASE'', str_value release)] @ conf,
          kp_args = args, kp_name = str_value ns @ u ''/'' @ str_value release\<rparr>))))))))
   | _ \<Rightarrow> Inl (Value_Error ''k8s_configuration_required''))"

definition benchmark_databases :: "(string \<times> string \<times> string list) list" where
  "benchmark_databases = [(''elasticsearch'', ''es7'', [''rate'', ''batch'']), (''elasticsearch9'', ''es9'', [''rate'', ''batch'']),
     (''kafka'', ''kafka'', [''rate'', ''payload'']), (''mariadb'', ''mariadb'', [''workers'']),
     (''redis'', ''redis'', [''rate'', ''workers'', ''keys'', ''payload''])]"

definition benchmark_ranges :: "(string \<times> int \<times> int) list" where
  "benchmark_ranges = [(''seconds'', 5, 600), (''rate'', 1, 10000), (''workers'', 1, 64), (''batch'', 1, 1000),
     (''keys'', 1, 50000), (''payload'', 32, 8192)]"

fun benchmark_args :: "pdict \<Rightarrow> ustr list res" where
  "benchmark_args [] = Inr []"
| "benchmark_args ((k, v) # d) = (case find (\<lambda>(n, _). u n = k) benchmark_ranges of
     None \<Rightarrow> Inl Key_Error
   | Some (n, lo, hi) \<Rightarrow> (case v of
       PInt m \<Rightarrow> bind_res (require (lo \<le> m \<and> m \<le> hi) (''benchmark_option_out_of_range_'' @ n)) (\<lambda>_.
         bind_res (benchmark_args d) (\<lambda>r. Inr (u (''--'' @ n) # int_text m # r)))
     | _ \<Rightarrow> Inl (Value_Error (''benchmark_option_out_of_range_'' @ n))))"

definition benchmark_plan :: "string \<Rightarrow> pdict \<Rightarrow> ustr list \<Rightarrow> ustr list list res" where
  "benchmark_plan target options prefix = (case map_of benchmark_databases target of
     None \<Rightarrow> Inl (Value_Error ''benchmark_requires_one_supported_database'')
   | Some (db, accepted) \<Rightarrow>
       bind_res (require (set (map fst options) \<subseteq> u ` set (''seconds'' # accepted)) ''unsupported_benchmark_option'') (\<lambda>_.
       bind_res (benchmark_args (sort_key fst options)) (\<lambda>args.
       Inr [prefix @ [u ''benchmark'', u db] @ args])))"

section \<open>The plan\<close>

record branch =
  br_args :: "ustr list"
  br_category :: string
  br_phrase :: "ustr option"
  br_commands :: "ustr list list"
  br_allowed :: "string list"
  br_opts :: pdict
  br_name :: pv

definition lab_actions :: "string list" where
  "lab_actions = [''help'', ''list'', ''init'', ''doctor'', ''preflight'', ''health'', ''status'', ''up'', ''down'',
     ''restart'', ''test'', ''reset'', ''benchmark'']"

definition lab_category :: "string \<Rightarrow> string" where
  "lab_category action = (if action \<in> {''init'', ''up'', ''down'', ''restart'', ''benchmark''} then ''change''
     else if action = ''reset'' then ''destroy'' else ''observe'')"

definition lab_args :: "string \<Rightarrow> string \<Rightarrow> ustr list" where
  "lab_args target action = (if action \<in> {''help'', ''list''} then [u action] else [u action, u target])
     @ (if action \<in> {''health'', ''preflight''} then [u ''--json''] else [])
     @ (if action = ''reset'' then [u ''--yes''] else [])"

definition lab_branch :: "string \<Rightarrow> string \<Rightarrow> pv \<Rightarrow> pv \<Rightarrow> pdict \<Rightarrow> ustr list \<Rightarrow> branch res" where
  "lab_branch target action verb name opts prefix =
     bind_res (require (verb = PNone \<and> name = PNone) ''unused_verb_or_name'') (\<lambda>_.
     bind_res (require (action \<in> set lab_actions) ''unsupported_lab_action'') (\<lambda>_.
     bind_res (if action = ''benchmark'' then benchmark_plan target opts prefix
       else Inr [prefix @ lab_args target action]) (\<lambda>commands.
     Inr \<lparr>br_args = [], br_category = lab_category action,
       br_phrase = (if action = ''reset'' then Some (u (''DELETE:'' @ target)) else None),
       br_commands = commands, br_allowed = [], br_opts = opts, br_name = name\<rparr>)))"

definition k8s_branch :: "string \<Rightarrow> pv \<Rightarrow> pv \<Rightarrow> pdict \<Rightarrow> pv \<Rightarrow> ustr list \<Rightarrow> (branch \<times> (string \<times> ustr) list) res" where
  "k8s_branch action verb name opts config prefix =
     bind_res (require (verb = PNone \<and> name = PNone) ''unused_verb_or_name'') (\<lambda>_.
     bind_res (require (action \<in> {''init'', ''preflight'', ''lint'', ''template'', ''up'', ''status'', ''history'', ''values'', ''down''})
         ''unsupported_k8s_action'') (\<lambda>_.
     bind_res (kube_plan action config) (\<lambda>kp.
     let args = [u ''k8s'', u action] @ kp_args kp @ (if action = ''down'' then [u ''--yes''] else []) in
     Inr (\<lparr>br_args = [], br_category = (if action \<in> {''init'', ''up''} then ''change'' else if action = ''down'' then ''destroy'' else ''observe''),
            br_phrase = (if action = ''down'' then Some (u ''UNINSTALL:'' @ kp_name kp) else None),
            br_commands = [prefix @ args], br_allowed = [], br_opts = opts, br_name = name\<rparr>, kp_env kp))))"

definition plain_actions :: "string list" where
  "plain_actions = [''init'', ''up'', ''down'', ''status'', ''doctor'', ''diagnose'', ''smoke'', ''test'', ''inspect-runtime'',
     ''help'', ''bind-target'', ''rebuild-search'', ''restart'']"

definition plain_category :: "string \<Rightarrow> string" where
  "plain_category action = (if action \<in> {''init'', ''up'', ''down'', ''smoke'', ''restart'', ''rebuild-search'', ''bind-target''}
     then ''change'' else ''observe'')"

definition plain_branch :: "string \<Rightarrow> pv \<Rightarrow> pv \<Rightarrow> pdict \<Rightarrow> ustr list \<Rightarrow> branch res" where
  "plain_branch action verb name opts prefix =
     bind_res (require (verb = PNone \<and> name = PNone) ''unused_verb_or_name'') (\<lambda>_.
     Inr \<lparr>br_args = [u ''mvp'', u action] @ (if action \<in> {''bind-target'', ''rebuild-search''} then [u ''--yes''] else []),
          br_category = plain_category action,
          br_phrase = (if action = ''bind-target'' then Some (u ''BIND:mvp'') else None),
          br_commands = (if action = ''restart''
             then [prefix @ [u ''mvp'', u ''down''], prefix @ [u ''mvp'', u ''up'']] else []),
          br_allowed = [], br_opts = opts, br_name = name\<rparr>)"

definition service_actions :: "string list" where
  "service_actions = [''stop'', ''resume'', ''recreate'', ''logs'', ''experiment'', ''sql'']"

definition service_category :: "string \<Rightarrow> pv \<Rightarrow> string" where
  "service_category action name = (if action \<in> {''stop'', ''recreate'', ''experiment''}
     then (if action = ''experiment'' \<and> name = PStr (u ''normal'') then ''change'' else ''fault'')
     else if action = ''resume'' then ''change'' else ''observe'')"

definition service_choices :: "string \<Rightarrow> string list" where
  "service_choices action = (if action = ''experiment'' then [''normal'', ''redis-spare'', ''bad-db-password'', ''fresh-search'']
     else if action = ''sql'' then [''orders'', ''outbox'', ''counts'', ''ping''] else services)"

definition service_branch :: "string \<Rightarrow> pv \<Rightarrow> pv \<Rightarrow> pdict \<Rightarrow> branch res" where
  "service_branch action verb name opts =
     bind_res (require (verb = PNone) ''unused_verb'') (\<lambda>_.
     bind_res (require (is_in name (service_choices action) \<or> action = ''logs'' \<and> name = PNone) ''invalid_service_mode_or_query'') (\<lambda>_.
     Inr \<lparr>br_args = [u ''mvp'', u action] @ (if name = PNone then [] else [str_value name])
            @ (if action \<in> {''stop'', ''recreate'', ''experiment''} then [u ''--yes''] else []),
          br_category = service_category action name,
          br_phrase = None, br_commands = [], br_allowed = [], br_opts = opts, br_name = name\<rparr>))"

definition scenario_choices :: "string \<Rightarrow> string list" where
  "scenario_choices action = (if action = ''simulate'' then simulations else if action = ''drills'' then drills
     else if action = ''messages'' then message_scenarios else if action = ''verify'' then suites else paired)"

definition scenario_verbs :: "string \<Rightarrow> string list" where
  "scenario_verbs action = [''list'', ''plan'', ''run'']
     @ (if action \<in> {''simulate'', ''drills'', ''messages''} then [''recover''] else [])
     @ (if action = ''drills'' then [''prepare''] else []) @ (if action = ''messages'' then [''inspect'', ''cleanup''] else [])
     @ (if action = ''verify'' then [''report'', ''export''] else []) @ (if action = ''study'' then [''compare''] else [])"

definition has_key :: "pdict \<Rightarrow> string \<Rightarrow> bool" where
  "has_key d k \<longleftrightarrow> u k \<in> set (map fst d)"

definition scenario_options :: "string \<Rightarrow> bool \<Rightarrow> pv \<Rightarrow> pdict \<Rightarrow> string list res" where
  "scenario_options action run name opts =
     (let image = require (has_key opts ''candidate_image'') ''candidate_image_required'' in
      if action \<in> {''simulate'', ''study''} then Inr (sim_keys @ (if action = ''study'' \<and> run then [''step_timeout''] else []))
      else if action = ''drills'' then
        (if is_in name transactions then Inr [''clients'', ''seed'']
         else if name = PStr (u ''backup-restore'') \<and> run then Inr [''snapshot'']
         else if name = PStr (u ''upgrade-restore'') \<and> run
         then bind_res image (\<lambda>_. Inr [''snapshot'', ''candidate_image''])
         else Inr [])
      else if action = ''messages'' \<and> run then Inr [''keep'']
      else if action = ''verify'' then
        (if name = PStr (u ''candidate'')
         then bind_res image (\<lambda>_. Inr ((if run then [''step_timeout''] else []) @ [''candidate_image'']))
         else Inr (if run then [''step_timeout''] else []))
      else Inr [])"

definition run_category :: "string \<Rightarrow> pv \<Rightarrow> bool \<Rightarrow> string" where
  "run_category action name run = (if run then
     (if action = ''simulate'' \<and> is_in name [''baseline'', ''duplicate-retry'', ''version-race'']
         \<or> action = ''verify'' \<and> name = PStr (u ''core'') then ''change'' else ''fault'') else ''observe'')"

definition scenario_run :: "string \<Rightarrow> pv \<Rightarrow> pv \<Rightarrow> pdict \<Rightarrow> branch res" where
  "scenario_run action verb name0 opts =
     (let name = (if action = ''verify'' \<and> name0 = PNone then PStr (u ''core'') else name0);
          run = (verb = PStr (u ''run'')) in
      bind_res (require (is_in name (scenario_choices action)) ''unknown_scenario_or_suite'') (\<lambda>_.
      bind_res (scenario_options action run name opts) (\<lambda>allowed.
      Inr \<lparr>br_args = [u ''mvp'', u action, str_value verb, str_value name] @ (if run then [u ''--yes''] else []),
           br_category = run_category action name run,
           br_phrase = None, br_commands = [], br_allowed = allowed, br_opts = opts, br_name = name\<rparr>)))"

definition scenario_branch :: "string \<Rightarrow> pv \<Rightarrow> pv \<Rightarrow> pdict \<Rightarrow> branch res" where
  "scenario_branch action verb name opts =
     bind_res (require (is_in verb (scenario_verbs action)) ''unsupported_subcommand'') (\<lambda>_.
     let args = [u ''mvp'', u action, str_value verb];
         out = (\<lambda>more category opts'. Inr \<lparr>br_args = args @ more, br_category = category, br_phrase = None,
            br_commands = [], br_allowed = [], br_opts = opts', br_name = name\<rparr>) in
     if is_in verb [''list'', ''recover'', ''prepare''] then
       bind_res (require (name = PNone) ''unused_name'') (\<lambda>_.
       if verb = PStr (u ''list'') then out [] ''observe'' opts else out [u ''--yes''] ''change'' opts)
     else if is_in verb [''report'', ''export'', ''inspect'', ''cleanup''] then
       bind_res (run_id_of name (if action = ''verify'' then ''accept'' else ''msg'')) (\<lambda>i.
       if verb = PStr (u ''cleanup'') then out [i, u ''--yes''] ''change'' opts else out [i] ''observe'' opts)
     else if verb = PStr (u ''compare'') then
       bind_res (require (name = PNone \<and> set (map fst opts) = {u ''baseline_id'', u ''fault_id''})
           ''compare_requires_two_run_ids'') (\<lambda>_.
       bind_res (run_id_of (dget opts ''baseline_id'') ''sim'') (\<lambda>i.
       bind_res (run_id_of (dget opts ''fault_id'') ''sim'') (\<lambda>j.
       bind_res (require (i \<noteq> j) ''compare_requires_distinct_runs'') (\<lambda>_. out [i, j] ''observe'' []))))
     else scenario_run action verb name opts)"

definition mvp_branch :: "(rat \<Rightarrow> ustr) \<Rightarrow> (rat \<Rightarrow> rat) \<Rightarrow> string \<Rightarrow> pv \<Rightarrow> pv \<Rightarrow> pdict \<Rightarrow> ustr list \<Rightarrow> branch res" where
  "mvp_branch ftext fl action verb name opts prefix =
     bind_res (if action \<in> set plain_actions then plain_branch action verb name opts prefix
       else if action \<in> set service_actions then service_branch action verb name opts
       else if action \<in> {''simulate'', ''drills'', ''messages'', ''verify'', ''study''} then scenario_branch action verb name opts
       else Inl (Value_Error ''unsupported_mvp_action'')) (\<lambda>b.
     bind_res (encode_options ftext (br_opts b) (br_allowed b)) (\<lambda>more.
     bind_res (if action \<in> {''simulate'', ''study''} \<and> is_in verb [''plan'', ''run''] then bounded_plan fl (br_name b) (br_opts b)
       else Inr ()) (\<lambda>_.
     Inr (b\<lparr>br_commands := (if br_commands b = [] then [prefix @ br_args b @ more] else br_commands b)\<rparr>))))"

record plan =
  pl_target :: string
  pl_action :: string
  pl_verb :: pv
  pl_name :: pv
  pl_commands :: "ustr list list"
  pl_env :: "(string \<times> ustr) list"
  pl_category :: string
  pl_consent :: "string list"
  pl_phrase :: "ustr option"
  pl_root :: ustr
  pl_check :: bool

definition consent_of :: "string \<Rightarrow> string list" where
  "consent_of category = (if category \<in> {''change'', ''fault'', ''destroy''} then [''allow_changes''] else [])
     @ (if category = ''fault'' then [''allow_faults''] else []) @ (if category = ''destroy'' then [''allow_destroy''] else [])"

definition give_consent :: "pdict \<Rightarrow> ustr \<Rightarrow> branch \<Rightarrow> unit res" where
  "give_consent params confirmation b =
     bind_res (case find (\<lambda>f. dget params f \<noteq> PBool True) (consent_of (br_category b)) of
         None \<Rightarrow> Inr () | Some f \<Rightarrow> Inl (Value_Error (''explicit_'' @ f @ ''_required''))) (\<lambda>_.
     require (case br_phrase b of None \<Rightarrow> True | Some p \<Rightarrow> confirmation = p) ''explicit_confirmation_required'')"

definition flags_boolean :: "pdict \<Rightarrow> bool" where
  "flags_boolean params \<longleftrightarrow> list_all (\<lambda>f. case dget_or (PBool False) params f of PBool _ \<Rightarrow> True | _ \<Rightarrow> False)
     [''allow_changes'', ''allow_faults'', ''allow_destroy'']"

text \<open>An action no list names is kept apart from every name by the empty string.\<close>

definition action_names :: "string list" where
  "action_names = lab_actions @ plain_actions @ service_actions @ [''simulate'', ''drills'', ''messages'', ''verify'', ''study'',
     ''lint'', ''template'', ''history'', ''values'']"

definition action_name :: "pv \<Rightarrow> string" where
  "action_name v = (case find (\<lambda>a. v = PStr (u a)) action_names of Some a \<Rightarrow> a | None \<Rightarrow> [])"

definition choose_branch ::
  "(rat \<Rightarrow> ustr) \<Rightarrow> (rat \<Rightarrow> rat) \<Rightarrow> string \<Rightarrow> string \<Rightarrow> pv \<Rightarrow> pv \<Rightarrow> pdict \<Rightarrow> pv \<Rightarrow> ustr list
     \<Rightarrow> (branch \<times> (string \<times> ustr) list) res" where
  "choose_branch ftext fl target action verb name opts k8s prefix =
     (if target = ''mvp'' then bind_res (mvp_branch ftext fl action verb name opts prefix) (\<lambda>b. Inr (b, []))
      else if target = ''k8s'' then k8s_branch action verb name opts k8s prefix
      else bind_res (lab_branch target action verb name opts prefix) (\<lambda>b. Inr (b, [])))"

definition finish_plan ::
  "pdict \<Rightarrow> bool \<Rightarrow> ustr \<Rightarrow> string \<Rightarrow> string \<Rightarrow> pv \<Rightarrow> ustr \<Rightarrow> branch \<times> (string \<times> ustr) list \<Rightarrow> plan res" where
  "finish_plan params check_mode base target action verb confirmation r = (case r of (b, env) \<Rightarrow>
     bind_res (require (target = ''mvp'' \<or> action = ''benchmark'' \<or> br_opts b = []) ''unused_options'') (\<lambda>_.
     bind_res (require (target = ''k8s'' \<or> \<not> truthy (dget params ''k8s'')) ''k8s_options_for_non_k8s_target'') (\<lambda>_.
     bind_res (if check_mode then Inr () else give_consent params confirmation b) (\<lambda>_.
     Inr \<lparr>pl_target = target, pl_action = action, pl_verb = verb, pl_name = br_name b, pl_commands = br_commands b,
          pl_env = env, pl_category = br_category b, pl_consent = consent_of (br_category b), pl_phrase = br_phrase b,
          pl_root = base, pl_check = check_mode\<rparr>))))"

definition build_request ::
  "(rat \<Rightarrow> ustr) \<Rightarrow> (rat \<Rightarrow> rat) \<Rightarrow> pdict \<Rightarrow> bool \<Rightarrow> ustr \<Rightarrow> string \<Rightarrow> pdict \<Rightarrow> plan res" where
  "build_request ftext fl params check_mode base target req =
     bind_res (require (set (map fst req) \<subseteq> u ` {''action'', ''verb'', ''name'', ''options''}) ''invalid_request'') (\<lambda>_.
     let action_v = dget_or (PStr (u ''status'')) req ''action''; verb = dget req ''verb''; name = dget req ''name'' in
     bind_res (require (text_ok 40 action_v \<and> (verb = PNone \<or> text_ok 40 verb) \<and> (name = PNone \<or> text_ok 512 name))
         ''invalid_command_tokens'') (\<lambda>_.
     case dget_or (PDict []) req ''options'' of
       PDict opts \<Rightarrow>
         bind_res (require (flags_boolean params) ''consent_must_be_boolean'') (\<lambda>_.
         (case dget_or (PStr []) params ''confirmation'' of
            PStr confirmation \<Rightarrow>
              bind_res (choose_branch ftext fl target (action_name action_v) verb name opts (dget_or (PDict []) params ''k8s'')
                  [u ''bash'', path_join base (u ''all.sh''), u ''--fail-fast''])
                (finish_plan params check_mode base target (action_name action_v) verb confirmation)
          | _ \<Rightarrow> Inl (Value_Error ''confirmation_must_be_string'')))
     | _ \<Rightarrow> Inl (Value_Error ''options_must_be_mapping'')))"

definition build_plan :: "(rat \<Rightarrow> ustr) \<Rightarrow> (rat \<Rightarrow> rat) \<Rightarrow> pdict \<Rightarrow> bool \<Rightarrow> plan res" where
  "build_plan ftext fl params check_mode =
     bind_res (absolute (dget params ''project_root'')) (\<lambda>base.
     case find (\<lambda>t. dget_or (PStr (u ''mvp'')) params ''target'' = PStr (u t)) targets of
       None \<Rightarrow> Inl (Value_Error ''unknown_target'')
     | Some target \<Rightarrow>
         (case dget_or (PDict [(u ''action'', PStr (u ''status''))]) params ''request'' of
            PDict req \<Rightarrow> build_request ftext fl params check_mode base target req
          | _ \<Rightarrow> Inl (Value_Error ''invalid_request'')))"

section \<open>What a plan may contain\<close>

definition dash :: "ustr \<Rightarrow> bool" where
  "dash s \<longleftrightarrow> (case s of [] \<Rightarrow> False | c # _ \<Rightarrow> c = 45)"

definition option_flags :: "ustr list" where
  "option_flags = map u [''--json'', ''-f'', ''--keep'', ''--rate'', ''--workload'', ''--candidate-image'', ''--snapshot'']
     @ map (\<lambda>(k, _). flag_of k) numeric @ map (\<lambda>(k, _). u (''--'' @ k)) benchmark_ranges"

text \<open>An argument of a plan: it does not look like an option, or is one of the fixed options, or it is
  the confirmation flag of a plan that is not an observation.\<close>

definition guarded :: "string \<Rightarrow> ustr \<Rightarrow> bool" where
  "guarded category t \<longleftrightarrow> \<not> dash t \<or> t \<in> set option_flags \<or> t = u ''--yes'' \<and> category \<noteq> ''observe''"

definition branch_ok :: "ustr list \<Rightarrow> branch \<Rightarrow> bool" where
  "branch_ok prefix b \<longleftrightarrow> list_all (guarded (br_category b)) (br_args b)
     \<and> br_category b \<in> {''observe'', ''change'', ''fault'', ''destroy''}
     \<and> (br_category b = ''destroy'' \<longrightarrow> br_phrase b \<noteq> None)
     \<and> (\<forall>cmd\<in>set (br_commands b). \<exists>args. cmd = prefix @ args \<and> list_all (guarded (br_category b)) args)"

lemma dash_u [simp]: "dash (u []) = False" "dash (u (c # cs)) \<longleftrightarrow> c = CHR ''-''"
proof -
  have "of_char c = (45 :: nat) \<longleftrightarrow> of_char c = (of_char CHR ''-'' :: nat)" by simp
  then show "dash (u (c # cs)) \<longleftrightarrow> c = CHR ''-''" by (simp add: dash_def u_def del: of_char_Char)
qed (simp add: dash_def u_def)

lemma not_dash_in: "is_in v names \<Longrightarrow> list_all (\<lambda>n. \<not> dash (u n)) names \<Longrightarrow> \<not> dash (str_value v)"
  by (auto simp: is_in_def str_value_def list_all_iff)

lemma not_dash_member: "n \<in> set names \<Longrightarrow> list_all (\<lambda>n. \<not> dash (u n)) names \<Longrightarrow> \<not> dash (u n)"
  by (auto simp: list_all_iff)

lemma names_not_dash [simp]:
  "list_all (\<lambda>n. \<not> dash (u n)) targets" "list_all (\<lambda>n. \<not> dash (u n)) lab_actions"
  "list_all (\<lambda>n. \<not> dash (u n)) plain_actions" "list_all (\<lambda>n. \<not> dash (u n)) service_actions"
  "list_all (\<lambda>n. \<not> dash (u n)) services" "list_all (\<lambda>n. \<not> dash (u n)) simulations"
  "list_all (\<lambda>n. \<not> dash (u n)) transactions" "list_all (\<lambda>n. \<not> dash (u n)) message_scenarios"
  "list_all (\<lambda>n. \<not> dash (u n)) suites" "list_all (\<lambda>n. \<not> dash (u n)) workloads"
  by (simp_all add: targets_def lab_actions_def plain_actions_def service_actions_def services_def
      simulations_def transactions_def message_scenarios_def suites_def workloads_def)

lemma scenario_not_dash [simp]:
  "list_all (\<lambda>n. \<not> dash (u n)) (scenario_choices action)" "list_all (\<lambda>n. \<not> dash (u n)) (scenario_verbs action)"
proof -
  have "list_all P (filter q xs)" if "list_all P xs" for P q and xs :: "string list"
    using that by (induction xs) auto
  then show "list_all (\<lambda>n. \<not> dash (u n)) (scenario_choices action)"
    by (simp add: scenario_choices_def drills_def paired_def)
  show "list_all (\<lambda>n. \<not> dash (u n)) (scenario_verbs action)"
    by (simp add: scenario_verbs_def)
qed

lemma nat_text_not_dash: "\<not> dash (nat_text n)"
  using nat_text_digits [of n] by (auto simp: dash_def is_digit_def split: list.splits)

lemma int_text_not_dash: "0 \<le> n \<Longrightarrow> \<not> dash (int_text n)"
  by (simp add: int_text_def nat_text_not_dash)

lemma absolute_not_dash: "absolute v = Inr s \<Longrightarrow> \<not> dash s \<and> v = PStr s"
  by (auto simp: absolute_def bind_res_Inr_iff starts_with_def dash_def u_def split: pv.splits list.splits)

lemma run_id_not_dash: "run_id_of v kind = Inr s \<Longrightarrow> kind \<in> {''accept'', ''msg'', ''sim''} \<Longrightarrow> \<not> dash s"
  by (cases s) (auto simp: run_id_of_def bind_res_Inr_iff starts_with_def dash_def u_def Let_def split: pv.splits)

lemma values_args_ok: "values_args vs = Inr args \<Longrightarrow> list_all (guarded c) args"
  by (induction vs arbitrary: args) (auto simp: bind_res_Inr_iff guarded_def option_flags_def dest!: absolute_not_dash)

lemma image_not_dash: "image_text s \<Longrightarrow> \<not> dash s"
proof -
  assume img: "image_text s"
  show ?thesis
  proof
    assume "dash s"
    then obtain r where s: "s = 45 # r" by (auto simp: dash_def split: list.splits)
    then have "\<not> starts_with (u ''docker.io/library/'') s" "\<not> starts_with (u ''library/'') s"
      "\<not> starts_with (u ''mariadb:'') s" by (simp_all add: starts_with_def u_def)
    with img show False by (simp add: image_text_def)
  qed
qed

lemma numeric_flags: "map_of numeric k = Some r \<Longrightarrow> flag_of k \<in> set option_flags"
  by (auto simp: option_flags_def dest!: map_of_SomeD intro: image_eqI [where x = "(k, r)"])

lemma named_flags: "k \<in> {''rate'', ''workload'', ''candidate_image'', ''snapshot''} \<Longrightarrow> flag_of k \<in> set option_flags"
  by (auto simp: option_flags_def flag_of_def)

lemma numeric_nonneg: "map_of numeric k = Some (lo, hi) \<Longrightarrow> 0 \<le> lo"
  by (auto simp: numeric_def split: if_splits)

lemma encode_option_ok:
  assumes ftext: "\<forall>r>0. \<not> dash (ftext r)" and run: "encode_option ftext k v = Inr out"
  shows "list_all (guarded c) out"
proof (cases "map_of numeric k")
  case (Some r)
  obtain lo hi where r: "r = (lo, hi)" by (cases r)
  then obtain n where "v = PInt n" "lo \<le> n" "out = [flag_of k, value_text ftext v]"
    using run Some by (auto simp: encode_option_def Let_def bind_res_Inr_iff split: pv.splits)
  moreover have "0 \<le> lo" using Some r numeric_nonneg by auto
  ultimately show ?thesis using numeric_flags [OF Some] int_text_not_dash [of n]
    by (simp add: guarded_def value_text_def)
next
  case None
  have pos: "0 < r" if "one_fifth \<le> r" for r
    using that unfolding one_fifth_def by (rule order.strict_trans2 [rotated]) simp
  consider "k = ''rate''" | "k = ''workload''" | "k = ''keep''" | "k = ''candidate_image''" | "k = ''snapshot''"
    | "k \<notin> {''rate'', ''workload'', ''keep'', ''candidate_image'', ''snapshot''}" by auto
  then show ?thesis
  proof cases
    case 1
    then have "out = [flag_of k, value_text ftext v] \<and> \<not> dash (value_text ftext v)"
      using run None ftext int_text_not_dash
      by (auto simp: encode_option_def Let_def bind_res_Inr_iff value_text_def dest: pos split: pv.splits)
    with 1 named_flags [of k] show ?thesis by (simp add: guarded_def)
  next
    case 2
    then have "is_in v workloads" "out = [flag_of k, value_text ftext v]"
      using run None by (auto simp: encode_option_def Let_def bind_res_Inr_iff)
    moreover from this have "value_text ftext v = str_value v"
      by (auto simp: is_in_def value_text_def str_value_def)
    ultimately show ?thesis using 2 named_flags [of k] not_dash_in [of v workloads] by (simp add: guarded_def)
  next
    case 3
    then show ?thesis
      using run None by (auto simp: encode_option_def Let_def guarded_def option_flags_def split: pv.splits)
  next
    case 4
    then obtain s where "v = PStr s" "image_text s" "out = [flag_of k, value_text ftext v]"
      using run None by (auto simp: encode_option_def Let_def bind_res_Inr_iff split: pv.splits)
    with 4 named_flags [of k] image_not_dash show ?thesis by (simp add: guarded_def value_text_def)
  next
    case 5
    then obtain s where "v = PStr s" "\<not> dash s" "out = [flag_of k, value_text ftext v]"
      using run None by (auto simp: encode_option_def Let_def bind_res_Inr_iff dest!: absolute_not_dash)
    with 5 named_flags [of k] show ?thesis by (simp add: guarded_def value_text_def)
  next
    case 6
    then show ?thesis using run None by (simp add: encode_option_def Let_def)
  qed
qed

lemma encode_options_ok:
  assumes ftext: "\<forall>r>0. \<not> dash (ftext r)" and run: "encode_options ftext opts allowed = Inr out"
  shows "list_all (guarded c) out"
proof -
  have "list_all (guarded c) out" if "encode_all ftext allowed d = Inr out" for d
    using that
    by (induction d arbitrary: out)
      (auto simp: bind_res_Inr_iff split: option.splits dest!: encode_option_ok [OF ftext, where c = c])
  then show ?thesis using run by (auto simp: encode_options_def bind_res_Inr_iff)
qed

lemma guarded_simps [simp]:
  "guarded c (u ''--yes'') \<longleftrightarrow> c \<noteq> ''observe''" "guarded c (u ''--json'')" "guarded c (u ''-f'')"
  by (auto simp: guarded_def option_flags_def flag_of_def numeric_def benchmark_ranges_def)

lemma guarded_plain [simp]: "\<not> dash t \<Longrightarrow> guarded c t"
  by (simp add: guarded_def)

lemma benchmark_args_ok: "benchmark_args d = Inr args \<Longrightarrow> list_all (guarded c) args"
proof (induction d arbitrary: args)
  case (Cons p d)
  obtain k v where p: "p = (k, v)" by (cases p)
  obtain q where f: "find (\<lambda>(n, _). u n = k) benchmark_ranges = Some q"
    using Cons.prems by (cases "find (\<lambda>(n, _). u n = k) benchmark_ranges") (auto simp: p)
  obtain n lo hi where q: "q = (n, lo, hi)" by (cases q)
  have mem: "(n, lo, hi) \<in> set benchmark_ranges" using find_SomeD [OF f] q by auto
  obtain m r where m: "lo \<le> m" "benchmark_args d = Inr r" "args = u (''--'' @ n) # int_text m # r"
    using Cons.prems by (auto simp: p f q bind_res_Inr_iff split: pv.splits)
  have "0 \<le> m" using mem m(1) by (auto simp: benchmark_ranges_def)
  moreover have "u (''--'' @ n) \<in> set option_flags" using mem by (force simp: option_flags_def)
  ultimately show ?case using Cons.IH [OF m(2)] m(3) int_text_not_dash [of m] by (simp add: guarded_def)
qed simp

lemma benchmark_plan_ok:
  "benchmark_plan target opts prefix = Inr cs \<Longrightarrow> \<forall>cmd\<in>set cs. \<exists>args. cmd = prefix @ args \<and> list_all (guarded c) args"
  by (auto simp: benchmark_plan_def bind_res_Inr_iff benchmark_databases_def benchmark_args_ok split: option.splits if_splits)

lemma categories:
  "lab_category action \<in> {''observe'', ''change'', ''destroy''}" "lab_category action = ''destroy'' \<Longrightarrow> action = ''reset''"
  "lab_category ''reset'' = ''destroy''" "lab_category ''benchmark'' = ''change''"
  "plain_category action \<in> {''observe'', ''change''}" "plain_category ''bind-target'' = ''change''"
  "plain_category ''rebuild-search'' = ''change''"
  "service_category action name \<in> {''observe'', ''change'', ''fault''}"
  "action \<in> {''stop'', ''recreate'', ''experiment''} \<Longrightarrow> service_category action name \<noteq> ''observe''"
  "run_category action name run \<in> {''observe'', ''change'', ''fault''}" "run_category action name True \<noteq> ''observe''"
  by (simp_all add: lab_category_def plain_category_def service_category_def run_category_def split: if_splits)

lemma not_destroy: "c \<in> {''observe'', ''change'', ''fault''} \<Longrightarrow> c \<noteq> ''destroy''"
  by auto

lemma branch_okI:
  assumes "br_category b \<in> {''observe'', ''change'', ''fault''}" "list_all (guarded (br_category b)) (br_args b)"
    and "\<forall>cmd\<in>set (br_commands b). \<exists>args. cmd = prefix @ args \<and> list_all (guarded (br_category b)) args"
  shows "branch_ok prefix b"
  using assms not_destroy [OF assms(1)] by (auto simp: branch_ok_def)

lemma lab_args_ok:
  assumes "action \<in> set lab_actions" "\<not> dash (u target)"
  shows "list_all (guarded (lab_category action)) (lab_args target action)"
proof -
  have "\<not> dash (u action)" using assms(1) by (rule not_dash_member) simp
  then show ?thesis using assms(2) categories(3) by (simp add: lab_args_def)
qed

lemma lab_branch_ok:
  assumes "lab_branch target action verb name opts prefix = Inr b" "\<not> dash (u target)"
  shows "branch_ok prefix b"
proof -
  obtain cs where act: "action \<in> set lab_actions"
    and cs: "(if action = ''benchmark'' then benchmark_plan target opts prefix else Inr [prefix @ lab_args target action]) = Inr cs"
    and b: "b = \<lparr>br_args = [], br_category = lab_category action,
       br_phrase = (if action = ''reset'' then Some (u (''DELETE:'' @ target)) else None),
       br_commands = cs, br_allowed = [], br_opts = opts, br_name = name\<rparr>"
    using assms(1) unfolding lab_branch_def bind_res_Inr_iff require_simps by blast
  have "\<forall>cmd\<in>set cs. \<exists>args. cmd = prefix @ args \<and> list_all (guarded (lab_category action)) args"
    using cs lab_args_ok [OF act assms(2)] benchmark_plan_ok [of target opts prefix cs] by (auto split: if_splits)
  then show ?thesis
    using categories(1,2) [of action] by (auto simp: b branch_ok_def)
qed

lemma k8s_branch_Inr:
  assumes "k8s_branch action verb name opts config prefix = Inr (b, env)"
  obtains kp where "kube_plan action config = Inr kp" "b = \<lparr>br_args = [],
        br_category = (if action \<in> {''init'', ''up''} then ''change'' else if action = ''down'' then ''destroy'' else ''observe''),
        br_phrase = (if action = ''down'' then Some (u ''UNINSTALL:'' @ kp_name kp) else None),
        br_commands = [prefix @ [u ''k8s'', u action] @ kp_args kp @ (if action = ''down'' then [u ''--yes''] else [])],
        br_allowed = [], br_opts = opts, br_name = name\<rparr>"
    "action \<in> {''init'', ''preflight'', ''lint'', ''template'', ''up'', ''status'', ''history'', ''values'', ''down''}"
  using assms unfolding k8s_branch_def bind_res_Inr_iff Let_def by auto

lemma k8s_branch_ok:
  assumes "k8s_branch action verb name opts config prefix = Inr (b, env)"
  shows "branch_ok prefix b"
proof -
  have k: "list_all (guarded c) (kp_args kp)" if kp: "kube_plan action config = Inr kp" for kp c
  proof (cases config)
    case (PDict d)
    then obtain v where "kube_values action v = Inr (kp_args kp)"
      using kp by (auto simp: kube_plan_def bind_res_Inr_iff Let_def)
    then show ?thesis by (auto simp: kube_values_def bind_res_Inr_iff values_args_ok split: pv.splits if_splits)
  qed (use kp in \<open>simp_all add: kube_plan_def\<close>)
  obtain kp where kp: "kube_plan action config = Inr kp" and b: "b = \<lparr>br_args = [],
        br_category = (if action \<in> {''init'', ''up''} then ''change'' else if action = ''down'' then ''destroy'' else ''observe''),
        br_phrase = (if action = ''down'' then Some (u ''UNINSTALL:'' @ kp_name kp) else None),
        br_commands = [prefix @ [u ''k8s'', u action] @ kp_args kp @ (if action = ''down'' then [u ''--yes''] else [])],
        br_allowed = [], br_opts = opts, br_name = name\<rparr>"
    and act: "action \<in> {''init'', ''preflight'', ''lint'', ''template'', ''up'', ''status'', ''history'', ''values'', ''down''}"
    using assms by (rule k8s_branch_Inr)
  have "\<not> dash (u action)" using act by auto
  then show ?thesis using k [OF kp] by (simp add: b branch_ok_def)
qed

lemma plain_branch_ok:
  assumes "plain_branch action verb name opts prefix = Inr b" "action \<in> set plain_actions"
  shows "branch_ok prefix b"
proof -
  have "\<not> dash (u action)" using assms(2) by (rule not_dash_member) simp
  moreover have b: "b = \<lparr>br_args = [u ''mvp'', u action] @ (if action \<in> {''bind-target'', ''rebuild-search''} then [u ''--yes''] else []),
          br_category = plain_category action,
          br_phrase = (if action = ''bind-target'' then Some (u ''BIND:mvp'') else None),
          br_commands = (if action = ''restart''
             then [prefix @ [u ''mvp'', u ''down''], prefix @ [u ''mvp'', u ''up'']] else []),
          br_allowed = [], br_opts = opts, br_name = name\<rparr>"
    using assms(1) unfolding plain_branch_def bind_res_Inr_iff by blast
  ultimately have "list_all (guarded (br_category b)) (br_args b)" "br_category b = ''observe'' \<or> br_category b = ''change''"
    using categories(5) [of action] categories(6,7) by auto
  moreover have "\<forall>cmd\<in>set (br_commands b). \<exists>args. cmd = prefix @ args \<and> list_all (guarded (br_category b)) args"
    by (auto simp: b)
  ultimately show ?thesis by (intro branch_okI) auto
qed

lemma service_branch_ok:
  assumes "service_branch action verb name opts = Inr b" "action \<in> set service_actions"
  shows "branch_ok prefix b"
proof -
  have a: "\<not> dash (u action)" using assms(2) by (rule not_dash_member) simp
  have "list_all (\<lambda>n. \<not> dash (u n)) (service_choices action)" by (simp add: service_choices_def)
  then have n: "is_in name (service_choices action) \<Longrightarrow> \<not> dash (str_value name)" by (rule not_dash_in [rotated])
  obtain b': "is_in name (service_choices action) \<or> name = PNone"
    and b: "b = \<lparr>br_args = [u ''mvp'', u action] @ (if name = PNone then [] else [str_value name])
            @ (if action \<in> {''stop'', ''recreate'', ''experiment''} then [u ''--yes''] else []),
        br_category = service_category action name, br_phrase = None, br_commands = [], br_allowed = [],
        br_opts = opts, br_name = name\<rparr>"
    using assms(1) unfolding service_branch_def bind_res_Inr_iff require_simps by blast
  have "list_all (guarded (service_category action name)) (br_args b)"
    using a n b' categories(9) [of action name] by (auto simp: b)
  then show ?thesis using categories(8) [of action name] by (intro branch_okI) (simp_all add: b)
qed

lemma scenario_run_ok:
  assumes "scenario_run action verb name opts = Inr b" "\<not> dash (u action)" "\<not> dash (str_value verb)"
  shows "branch_ok prefix b"
proof -
  have n: "is_in v (scenario_choices action) \<Longrightarrow> \<not> dash (str_value v)" for v
    by (rule not_dash_in [OF _ scenario_not_dash(1)])
  obtain nm allowed where nm: "is_in nm (scenario_choices action)"
    and b: "b = \<lparr>br_args = [u ''mvp'', u action, str_value verb, str_value nm]
          @ (if verb = PStr (u ''run'') then [u ''--yes''] else []),
        br_category = run_category action nm (verb = PStr (u ''run'')), br_phrase = None, br_commands = [],
        br_allowed = allowed, br_opts = opts, br_name = nm\<rparr>"
    using assms(1) unfolding scenario_run_def Let_def bind_res_Inr_iff require_simps by blast
  have "list_all (guarded (br_category b)) (br_args b)"
    using assms(2,3) n [OF nm] categories(11) [of action nm] by (auto simp: b)
  then show ?thesis using categories(10) [of action nm "verb = PStr (u ''run'')"] by (intro branch_okI) (simp_all add: b)
qed

lemma scenario_branch_ok:
  assumes "scenario_branch action verb name opts = Inr b" "\<not> dash (u action)"
  shows "branch_ok prefix b"
proof -
  have v: "is_in verb (scenario_verbs action) \<Longrightarrow> \<not> dash (str_value verb)"
    by (rule not_dash_in [OF _ scenario_not_dash(2)])
  let ?simple = "\<lambda>more category b. br_args b = [u ''mvp'', u action, str_value verb] @ more \<and> br_category b = category
      \<and> br_phrase b = None \<and> br_commands b = []"
  have vd: "\<not> dash (str_value verb)" using assms(1) v by (auto simp: scenario_branch_def bind_res_Inr_iff)
  have simple: "branch_ok prefix b" if "?simple more category b" "list_all (guarded category) more"
      "category \<in> {''observe'', ''change''}" for more category
    using that vd assms(2) by (auto simp: branch_ok_def)
  consider (names) "is_in verb [''list'', ''recover'', ''prepare'']"
    | (runs) "\<not> is_in verb [''list'', ''recover'', ''prepare'']" "is_in verb [''report'', ''export'', ''inspect'', ''cleanup'']"
    | (compare) "\<not> is_in verb [''list'', ''recover'', ''prepare'']" "\<not> is_in verb [''report'', ''export'', ''inspect'', ''cleanup'']"
        "verb = PStr (u ''compare'')"
    | (run) "\<not> is_in verb [''list'', ''recover'', ''prepare'']" "\<not> is_in verb [''report'', ''export'', ''inspect'', ''cleanup'']"
        "verb \<noteq> PStr (u ''compare'')" by blast
  then show ?thesis
  proof cases
    case names
    then have "?simple [] ''observe'' b \<or> ?simple [u ''--yes''] ''change'' b"
      using assms(1) by (auto simp: scenario_branch_def bind_res_Inr_iff Let_def split: if_splits)
    then show ?thesis using simple [of "[]" "''observe''"] simple [of "[u ''--yes'']" "''change''"] by auto
  next
    case runs
    let ?kind = "if action = ''verify'' then ''accept'' else ''msg''"
    from runs obtain i where "run_id_of name ?kind = Inr i"
      "(if verb = PStr (u ''cleanup'') then ?simple [i, u ''--yes''] ''change'' b else ?simple [i] ''observe'' b)"
      using assms(1) by (cases "run_id_of name ?kind") (auto simp: scenario_branch_def bind_res_def Let_def require_def
          simp del: require_simps split: if_splits)
    moreover from this(1) have "\<not> dash i" by (auto dest!: run_id_not_dash split: if_splits)
    ultimately show ?thesis using simple [of "[i]" "''observe''"] simple [of "[i, u ''--yes'']" "''change''"]
      by (auto split: if_splits)
  next
    case compare
    then obtain i j where "run_id_of (dget opts ''baseline_id'') ''sim'' = Inr i" "run_id_of (dget opts ''fault_id'') ''sim'' = Inr j"
      "?simple [i, j] ''observe'' b"
      using assms(1) by (auto simp: scenario_branch_def bind_res_Inr_iff Let_def)
    moreover from this(1,2) have "\<not> dash i" "\<not> dash j" by (auto dest!: run_id_not_dash)
    ultimately show ?thesis using simple [of "[i, j]" "''observe''"] by auto
  next
    case run
    then have "scenario_run action verb name opts = Inr b"
      using assms(1) by (auto simp: scenario_branch_def bind_res_Inr_iff Let_def)
    then show ?thesis using assms(2) vd by (rule scenario_run_ok)
  qed
qed

lemma mvp_branch_ok:
  assumes "mvp_branch ftext fl action verb name opts prefix = Inr b" "\<forall>r>0. \<not> dash (ftext r)"
  shows "branch_ok prefix b"
proof -
  obtain b0 more where b0: "(if action \<in> set plain_actions then plain_branch action verb name opts prefix
       else if action \<in> set service_actions then service_branch action verb name opts
       else if action \<in> {''simulate'', ''drills'', ''messages'', ''verify'', ''study''} then scenario_branch action verb name opts
       else Inl (Value_Error ''unsupported_mvp_action'')) = Inr b0"
    and more: "encode_options ftext (br_opts b0) (br_allowed b0) = Inr more"
    and b: "b = b0\<lparr>br_commands := (if br_commands b0 = [] then [prefix @ br_args b0 @ more] else br_commands b0)\<rparr>"
    using assms(1) unfolding mvp_branch_def bind_res_Inr_iff by auto
  have "branch_ok prefix b0"
    using b0 plain_branch_ok service_branch_ok scenario_branch_ok [of action verb name opts b0 prefix]
    by (auto split: if_splits)
  then show ?thesis using encode_options_ok [OF assms(2) more] by (auto simp: b branch_ok_def)
qed

lemma build_plan_branch:
  assumes run: "build_plan ftext fl params check_mode = Inr p"
  obtains req target verb name opts confirmation b env k8s where
    "dget_or (PDict [(u ''action'', PStr (u ''status''))]) params ''request'' = PDict req"
    "dget_or (PDict []) req ''options'' = PDict opts" "dget_or (PStr []) params ''confirmation'' = PStr confirmation"
    "target \<in> set targets" "pl_target p = target" "pl_verb p = dget req ''verb''"
    "choose_branch ftext fl target (pl_action p) (dget req ''verb'') name opts k8s
       [u ''bash'', path_join (pl_root p) (u ''all.sh''), u ''--fail-fast''] = Inr (b, env)"
    "pl_category p = br_category b" "pl_commands p = br_commands b" "pl_phrase p = br_phrase b" "pl_name p = br_name b"
    "\<not> check_mode \<Longrightarrow> give_consent params confirmation b = Inr ()"
proof -
  obtain base where base: "(case find (\<lambda>t. dget_or (PStr (u ''mvp'')) params ''target'' = PStr (u t)) targets of
       None \<Rightarrow> Inl (Value_Error ''unknown_target'')
     | Some target \<Rightarrow>
         (case dget_or (PDict [(u ''action'', PStr (u ''status''))]) params ''request'' of
            PDict req \<Rightarrow> build_request ftext fl params check_mode base target req
          | _ \<Rightarrow> Inl (Value_Error ''invalid_request''))) = Inr p"
    using run unfolding build_plan_def bind_res_Inr_iff by blast
  then obtain target where 0: "find (\<lambda>t. dget_or (PStr (u ''mvp'')) params ''target'' = PStr (u t)) targets = Some target"
    by (cases "find (\<lambda>t. dget_or (PStr (u ''mvp'')) params ''target'' = PStr (u t)) targets") auto
  obtain req where 1: "find (\<lambda>t. dget_or (PStr (u ''mvp'')) params ''target'' = PStr (u t)) targets = Some target"
    "dget_or (PDict [(u ''action'', PStr (u ''status''))]) params ''request'' = PDict req"
    "build_request ftext fl params check_mode base target req = Inr p"
    using base 0 by (cases "dget_or (PDict [(u ''action'', PStr (u ''status''))]) params ''request''") auto
  then obtain opts confirmation b env where 2: "dget_or (PDict []) req ''options'' = PDict opts"
    "dget_or (PStr []) params ''confirmation'' = PStr confirmation"
    "choose_branch ftext fl target (action_name (dget_or (PStr (u ''status'')) req ''action'')) (dget req ''verb'')
       (dget req ''name'') opts (dget_or (PDict []) params ''k8s'')
       [u ''bash'', path_join base (u ''all.sh''), u ''--fail-fast''] = Inr (b, env)"
    "finish_plan params check_mode base target (action_name (dget_or (PStr (u ''status'')) req ''action''))
       (dget req ''verb'') confirmation (b, env) = Inr p"
    by (auto simp: build_request_def bind_res_Inr_iff Let_def split: pv.splits)
  show thesis
    by (rule that [OF 1(2) 2(1,2) _ _ _ _]) (use 1 2 find_SomeD [OF 1(1)] in \<open>auto simp: finish_plan_def bind_res_Inr_iff\<close>)
qed
lemma choose_branch_ok:
  assumes "choose_branch ftext fl target action verb name opts k8s prefix = Inr (b, env)" "target \<in> set targets"
    "\<forall>r>0. \<not> dash (ftext r)"
  shows "branch_ok prefix b"
proof -
  have "\<not> dash (u target)" using assms(2) by (rule not_dash_member) simp
  then show ?thesis
    using assms(1) mvp_branch_ok [OF _ assms(3)] lab_branch_ok [of target action verb name opts prefix b]
      k8s_branch_ok [of action verb name opts k8s prefix b env]
    by (auto simp: choose_branch_def bind_res_Inr_iff split: if_splits)
qed

lemma mvp_branch_phrase:
  assumes "mvp_branch ftext fl action verb name opts prefix = Inr b" "br_phrase b = Some phrase"
  shows "phrase \<noteq> []"
proof -
  obtain b0 more where b0: "(if action \<in> set plain_actions then plain_branch action verb name opts prefix
       else if action \<in> set service_actions then service_branch action verb name opts
       else if action \<in> {''simulate'', ''drills'', ''messages'', ''verify'', ''study''} then scenario_branch action verb name opts
       else Inl (Value_Error ''unsupported_mvp_action'')) = Inr b0" "br_phrase b0 = Some phrase"
    using assms unfolding mvp_branch_def bind_res_Inr_iff by auto
  have "br_phrase b0 = None" if "scenario_branch action verb name opts = Inr b0"
    using that by (auto simp: scenario_branch_def scenario_run_def bind_res_Inr_iff Let_def split: if_splits)
  moreover have "br_phrase b0 = None" if "service_branch action verb name opts = Inr b0"
    using that by (auto simp: service_branch_def bind_res_Inr_iff)
  moreover have "br_phrase b0 \<noteq> Some []" if "plain_branch action verb name opts prefix = Inr b0"
    using that by (auto simp: plain_branch_def bind_res_Inr_iff split: if_splits)
  ultimately show ?thesis using b0 by (auto split: if_splits)
qed

lemma choose_branch_phrase:
  assumes "choose_branch ftext fl target action verb name opts k8s prefix = Inr (b, env)" "br_phrase b = Some phrase"
  shows "phrase \<noteq> []"
proof -
  have "phrase \<noteq> []" if "lab_branch target action verb name opts prefix = Inr b"
    using that assms(2) unfolding lab_branch_def bind_res_Inr_iff by (elim exE conjE) (auto split: if_splits)
  moreover have "phrase \<noteq> []" if k: "k8s_branch action verb name opts k8s prefix = Inr (b, env)"
  proof -
    from k show ?thesis by (rule k8s_branch_Inr) (use assms(2) in \<open>auto split: if_splits\<close>)
  qed
  ultimately show ?thesis
    using assms mvp_branch_phrase [of ftext fl action verb name opts prefix b phrase]
    by (auto simp: choose_branch_def bind_res_Inr_iff split: if_splits)
qed

lemma consents:
  assumes "give_consent params confirmation b = Inr ()"
  shows "f \<in> set (consent_of (br_category b)) \<Longrightarrow> dget params f = PBool True"
    and "br_phrase b = Some phrase \<Longrightarrow> confirmation = phrase"
  using assms by (auto simp: give_consent_def bind_res_Inr_iff find_None_iff split: option.splits)


text \<open>A destructive plan on one of the database labs.\<close>

definition reset_params :: pdict where
  "reset_params = [(u ''project_root'', PStr (u ''/lab'')), (u ''target'', PStr (u ''redis'')),
     (u ''request'', PDict [(u ''action'', PStr (u ''reset''))]), (u ''allow_changes'', PBool True),
     (u ''allow_destroy'', PBool True), (u ''confirmation'', PStr (u ''DELETE:redis''))]"

lemma reset_plan:
  "\<exists>p. build_plan ftext fl reset_params False = Inr p \<and> pl_category p = ''destroy''
     \<and> pl_commands p = [[u ''bash'', u ''/lab/all.sh'', u ''--fail-fast'', u ''reset'', u ''redis'', u ''--yes'']]
     \<and> pl_action p = ''reset'' \<and> pl_target p = ''redis''"
proof -
  have "absolute (PStr (u ''/lab'')) = Inr (u ''/lab'')"
    by (simp add: absolute_def bind_res_def require_def text_ok_def starts_with_def u_def)
  moreover have "path_join (u ''/lab'') (u ''all.sh'') = u ''/lab/all.sh''" by (simp add: path_join_def u_def)
  moreover have "action_name (PStr (u ''reset'')) = ''reset''" by (simp add: action_name_def action_names_def lab_actions_def)
  moreover have "text_ok 40 (PStr (u ''reset''))" by (simp add: text_ok_def u_def)
  ultimately show ?thesis
    by (simp add: build_plan_def reset_params_def dget_def dget_or_def targets_def bind_res_def build_request_def
        require_def flags_boolean_def choose_branch_def lab_branch_def lab_actions_def lab_args_def lab_category_def
        finish_plan_def give_consent_def consent_of_def)
qed


section \<open>The budget of a simulation\<close>

lemma encode_all_each:
  "encode_all ftext allowed d = Inr out \<Longrightarrow> (k, v) \<in> set d \<Longrightarrow> \<exists>n a. u n = k \<and> encode_option ftext n v = Inr a"
  by (induction d arbitrary: out) (auto simp: bind_res_Inr_iff split: option.splits dest!: find_SomeD)

lemma encode_option_int:
  assumes "encode_option ftext k v = Inr a" "map_of numeric k = Some (lo, hi)"
  shows "\<exists>n. v = PInt n \<and> lo \<le> n \<and> n \<le> hi"
  using assms by (auto simp: encode_option_def Let_def bind_res_Inr_iff split: pv.splits)

lemma encoded_int_range:
  assumes run: "encode_options ftext d allowed = Inr out" and k: "map_of numeric k = Some (lo, hi)" "lo \<le> n" "n \<le> hi"
  shows "lo \<le> int_opt n d k \<and> int_opt n d k \<le> hi"
proof (cases "map_of d (u k)")
  case (Some v)
  then have "(u k, v) \<in> set (sort_key fst d)" by (simp add: map_of_SomeD)
  moreover have "encode_all ftext allowed (sort_key fst d) = Inr out"
    using run by (simp add: encode_options_def bind_res_Inr_iff)
  ultimately obtain m a where "u m = u k" "encode_option ftext m v = Inr a" using encode_all_each by blast
  then obtain i where "v = PInt i" "lo \<le> i" "i \<le> hi" using encode_option_int [of ftext k v a] k(1) by auto
  with Some show ?thesis by (simp add: int_opt_def dget_or_def)
next
  case None
  then show ?thesis using k(2,3) by (simp add: int_opt_def dget_or_def)
qed

lemma mvp_simulation:
  assumes "mvp_branch ftext fl action verb name opts prefix = Inr b" "action \<in> {''simulate'', ''study''}"
    "is_in verb [''plan'', ''run'']"
  shows "bounded_plan fl (br_name b) opts = Inr ()" "\<exists>allowed out. encode_options ftext opts allowed = Inr out"
proof -
  have no: "action \<notin> set plain_actions" "action \<notin> set service_actions"
    using assms(2) by (auto simp: plain_actions_def service_actions_def)
  obtain b0 out where b0: "scenario_branch action verb name opts = Inr b0"
    "encode_options ftext (br_opts b0) (br_allowed b0) = Inr out" "bounded_plan fl (br_name b0) (br_opts b0) = Inr ()"
    "br_name b = br_name b0"
    using assms no unfolding mvp_branch_def bind_res_Inr_iff by auto
  have "scenario_run action verb name opts = Inr b0"
    using b0(1) assms(3) by (auto simp: scenario_branch_def bind_res_Inr_iff Let_def is_in_def)
  then have "br_opts b0 = opts" by (auto simp: scenario_run_def bind_res_Inr_iff Let_def)
  with b0 show "bounded_plan fl (br_name b) opts = Inr ()" "\<exists>allowed out. encode_options ftext opts allowed = Inr out"
    by auto
qed

text \<open>C19: Every simulation or study that is planned is finite and observed to its end: it lasts 15 to 180
  seconds with one to eight workers and at most 400 requests, its fault starts within the run and
  lasts at most 30 seconds and, unless the scenario injects none, at least five seconds remain to
  observe after it. This holds for the options given and for the defaults of those left out.\<close>

theorem simulation_is_bounded:
  assumes "build_plan ftext fl params check_mode = Inr p" "pl_target p = ''mvp''"
    and "pl_action p \<in> {''simulate'', ''study''}" "is_in (pl_verb p) [''plan'', ''run'']"
    and "dget_or PNone params ''request'' = PDict req" "dget_or (PDict []) req ''options'' = PDict opts"
  shows "15 \<le> int_opt 40 opts ''seconds'' \<and> int_opt 40 opts ''seconds'' \<le> 180
    \<and> 1 \<le> int_opt 4 opts ''workers'' \<and> int_opt 4 opts ''workers'' \<le> 8
    \<and> (case dget_or (PInt 2) opts ''rate'' of PInt r \<Rightarrow> int_opt 40 opts ''seconds'' * r \<le> 400
         | PFloat r \<Rightarrow> fl (of_int (int_opt 40 opts ''seconds'') * r) \<le> 400 | _ \<Rightarrow> False)
    \<and> 1 \<le> int_opt 8 opts ''fault_at'' \<and> int_opt 8 opts ''fault_at'' < int_opt 40 opts ''seconds''
    \<and> int_opt 10 opts ''fault_for'' \<le> 30
    \<and> (is_in (pl_name p) [''baseline'', ''duplicate-retry'', ''version-race'']
       \<or> int_opt 8 opts ''fault_at'' + int_opt 10 opts ''fault_for'' + 5 \<le> int_opt 40 opts ''seconds'')"
proof -
  obtain req' target name opts' b env k8s where b:
    "dget_or (PDict [(u ''action'', PStr (u ''status''))]) params ''request'' = PDict req'"
    "dget_or (PDict []) req' ''options'' = PDict opts'" "target = pl_target p" "pl_verb p = dget req' ''verb''"
    "choose_branch ftext fl target (pl_action p) (dget req' ''verb'') name opts' k8s
       [u ''bash'', path_join (pl_root p) (u ''all.sh''), u ''--fail-fast''] = Inr (b, env)"
    "pl_name p = br_name b"
    using assms(1) by (rule build_plan_branch) blast
  have o: "opts' = opts"
    using b(1,2) assms(5,6) by (auto simp: dget_or_def split: option.splits)
  obtain prefix where m: "mvp_branch ftext fl (pl_action p) (pl_verb p) name opts prefix = Inr b"
    using b(3-5) assms(2) by (auto simp: choose_branch_def bind_res_Inr_iff o)
  note sim = mvp_simulation [OF m assms(3,4)]
  obtain allowed out where enc: "encode_options ftext opts allowed = Inr out" using sim(2) by blast
  have ranges: "map_of numeric ''seconds'' = Some (15, 180)" "map_of numeric ''workers'' = Some (1, 8)"
    "map_of numeric ''fault_at'' = Some (1, 179)" "map_of numeric ''fault_for'' = Some (1, 30)"
    by (simp_all add: numeric_def)
  note r = encoded_int_range [OF enc ranges(1), of 40] encoded_int_range [OF enc ranges(2), of 4]
    encoded_int_range [OF enc ranges(3), of 8] encoded_int_range [OF enc ranges(4), of 10]
  show ?thesis
    using r sim(1) unfolding bounded_plan_def Let_def bind_res_Inr_iff require_simps b(6) by auto
qed

definition sim_params :: pdict where
  "sim_params = [(u ''project_root'', PStr (u ''/lab'')), (u ''request'', PDict [(u ''action'', PStr (u ''simulate'')),
     (u ''verb'', PStr (u ''plan'')), (u ''name'', PStr (u ''es-outage'')),
     (u ''options'', PDict [(u ''seconds'', PInt 60)])])]"

lemma sim_plan_built:
  "\<exists>p. build_plan (\<lambda>_. []) id sim_params True = Inr p \<and> pl_target p = ''mvp'' \<and> pl_action p = ''simulate'' \<and>
    pl_verb p = PStr (u ''plan'') \<and> pl_name p = PStr (u ''es-outage'')"
proof -
  have a: "absolute (PStr (u ''/lab'')) = Inr (u ''/lab'')"
    by (simp add: absolute_def bind_res_def require_def text_ok_def starts_with_def u_def)
  have n: "action_name (PStr (u ''simulate'')) = ''simulate''"
    by (simp add: action_name_def action_names_def lab_actions_def plain_actions_def service_actions_def)
  have t: "text_ok 40 (PStr (u ''simulate''))" "text_ok 40 (PStr (u ''plan''))" "text_ok 512 (PStr (u ''es-outage''))"
    by (simp_all add: text_ok_def u_def)
  have bp: "bounded_plan id (PStr (u ''es-outage'')) [(u ''seconds'', PInt 60)] = Inr ()"
    by (simp add: bounded_plan_def bind_res_def require_def int_opt_def dget_or_def is_in_def)
  have en: "encode_options (\<lambda>_. []) [(u ''seconds'', PInt 60)] sim_keys = Inr [flag_of ''seconds'', int_text 60]"
    by (simp add: encode_options_def sim_keys_def require_def bind_res_def encode_option_def numeric_def value_text_def)
  have "mvp_branch (\<lambda>_. []) id ''simulate'' (PStr (u ''plan'')) (PStr (u ''es-outage'')) [(u ''seconds'', PInt 60)] prefix
      = Inr \<lparr>br_args = [u ''mvp'', u ''simulate'', u ''plan'', u ''es-outage''], br_category = ''observe'', br_phrase = None,
          br_commands = [prefix @ [u ''mvp'', u ''simulate'', u ''plan'', u ''es-outage'', flag_of ''seconds'', int_text 60]],
          br_allowed = sim_keys, br_opts = [(u ''seconds'', PInt 60)], br_name = PStr (u ''es-outage'')\<rparr>" for prefix
    by (simp add: mvp_branch_def plain_actions_def service_actions_def scenario_branch_def scenario_verbs_def is_in_def
        require_def bind_res_def scenario_run_def scenario_choices_def simulations_def scenario_options_def
        run_category_def str_value_def en bp)
  then show ?thesis
    using a n t by (simp add: build_plan_def sim_params_def dget_def dget_or_def targets_def bind_res_def build_request_def
        require_def flags_boolean_def choose_branch_def finish_plan_def)
qed

lemma sim_params_request:
  "dget_or PNone sim_params ''request'' = PDict [(u ''action'', PStr (u ''simulate'')),
     (u ''verb'', PStr (u ''plan'')), (u ''name'', PStr (u ''es-outage'')),
     (u ''options'', PDict [(u ''seconds'', PInt 60)])]"
  by (simp add: sim_params_def dget_or_def)

theorem simulation_is_bounded_witness:
  "\<exists>p. build_plan (\<lambda>_. []) id sim_params True = Inr p \<and> is_in (pl_name p) [''es-outage'']"
proof -
  obtain p where p: "build_plan (\<lambda>_. []) id sim_params True = Inr p" "pl_target p = ''mvp''" "pl_action p = ''simulate''"
    "pl_verb p = PStr (u ''plan'')" "pl_name p = PStr (u ''es-outage'')" using sim_plan_built by blast
  from simulation_is_bounded [OF p(1,2) _ _ sim_params_request] p show ?thesis by (auto simp: is_in_def dget_or_def)
qed

end
