(* ===== verification/Execution.thy ===== *)
theory Execution
  imports Policy
begin

text \<open>
  \<open>ansible/module_utils/db_lab_execution.py\<close> and the entry point \<open>ansible/library/db_lab_control.py\<close>:
  one command under a deadline with bounded logs, and the plan's commands one after the other.
  The child process and the clock are observations: every turn of the wait loop sees whether the
  child lives, whether a signal came in, the time and what the pipes had to read. The files of the
  project, SHA-256 and the outcome of one command are arguments of what uses them.
\<close>

section \<open>One command\<close>

datatype stream = Stdout | Stderr

record watch =
  wa_logs :: "stream \<Rightarrow> bytes"
  wa_counts :: "stream \<Rightarrow> nat"
  wa_open :: "stream list"
  wa_timed_out :: bool
  wa_interrupted :: bool
  wa_term_at :: "rat option"
  wa_signals :: "string list"

definition watch_start :: watch where
  "watch_start = \<lparr>wa_logs = (\<lambda>_. []), wa_counts = (\<lambda>_. 0), wa_open = [Stdout, Stderr], wa_timed_out = False,
     wa_interrupted = False, wa_term_at = None, wa_signals = []\<rparr>"

text \<open>What one turn observes; \<open>tk_reads\<close> are the results of \<open>os.read\<close>, empty at the end of a pipe.\<close>

record tick =
  tk_alive :: bool
  tk_interrupt :: bool
  tk_now :: rat
  tk_reads :: "(stream \<times> bytes) list"

record deadline =
  dl_started :: rat
  dl_timeout :: rat
  dl_grace :: rat
  dl_limit :: nat

definition log_limit :: nat where "log_limit = 2 * 1024 * 1024"

definition over_grace :: "deadline \<Rightarrow> rat \<Rightarrow> rat \<Rightarrow> watch \<Rightarrow> bool" where
  "over_grace d extra now s = (case wa_term_at s of None \<Rightarrow> False | Some t \<Rightarrow> dl_grace d + extra \<le> now - t)"

definition mark_time :: "deadline \<Rightarrow> tick \<Rightarrow> watch \<Rightarrow> watch" where
  "mark_time d t s = s\<lparr>wa_timed_out := wa_timed_out s \<or> dl_timeout d \<le> tk_now t - dl_started d,
     wa_interrupted := wa_interrupted s \<or> tk_interrupt t\<rparr>"

definition terminate :: "tick \<Rightarrow> watch \<Rightarrow> watch" where
  "terminate t s = (if (wa_timed_out s \<or> wa_interrupted s) \<and> wa_term_at s = None
     then s\<lparr>wa_term_at := Some (tk_now t), wa_signals := wa_signals s @ [''TERM'']\<rparr> else s)"

definition kill_late :: "deadline \<Rightarrow> tick \<Rightarrow> watch \<Rightarrow> watch" where
  "kill_late d t s = (if over_grace d 0 (tk_now t) s then s\<lparr>wa_signals := wa_signals s @ [''KILL'']\<rparr> else s)"

text \<open>A pipe that is not registered any more is not reported by \<open>select\<close>.\<close>

definition take_chunk :: "nat \<Rightarrow> stream \<times> bytes \<Rightarrow> watch \<Rightarrow> watch" where
  "take_chunk limit r s = (case r of (f, chunk) \<Rightarrow>
     if f \<notin> set (wa_open s) then s
     else if chunk = [] then s\<lparr>wa_open := filter (\<lambda>g. g \<noteq> f) (wa_open s)\<rparr>
     else s\<lparr>wa_logs := (wa_logs s)(f := wa_logs s f @ take (limit - wa_counts s f) chunk),
            wa_counts := (wa_counts s)(f := wa_counts s f + length chunk)\<rparr>)"

text \<open>The wait loop; without an observation left it is still waiting, and the result is \<open>None\<close>.\<close>

fun wait_loop :: "deadline \<Rightarrow> tick list \<Rightarrow> watch \<Rightarrow> watch option" where
  "wait_loop d [] s = None"
| "wait_loop d (t # ts) s =
     (if wa_open s = [] \<and> \<not> tk_alive t then Some s
      else let s1 = kill_late d t (terminate t (mark_time d t s)) in
        if over_grace d 2 (tk_now t) s1 then Some s1
        else wait_loop d ts (fold (take_chunk (dl_limit d)) (tk_reads t) s1))"

record child =
  ch_rc :: int
  ch_native :: int
  ch_timed_out :: bool
  ch_interrupted :: bool
  ch_stdout :: nat
  ch_stderr :: nat
  ch_truncated :: bool

definition child_of :: "nat \<Rightarrow> int \<Rightarrow> watch \<Rightarrow> child" where
  "child_of limit native s =
     \<lparr>ch_rc = (if wa_interrupted s then 130 else if wa_timed_out s then 124 else native), ch_native = native,
      ch_timed_out = wa_timed_out s, ch_interrupted = wa_interrupted s, ch_stdout = wa_counts s Stdout,
      ch_stderr = wa_counts s Stderr, ch_truncated = (limit < wa_counts s Stdout \<or> limit < wa_counts s Stderr)\<rparr>"

text \<open>
  \<open>execute\<close>: \<open>spawned\<close> is what opening the log files and starting the child raises, if anything;
  \<open>first\<close> and \<open>again\<close> are the answers of the two \<open>wait(timeout=2)\<close> calls, \<open>late\<close> a signal during them.
\<close>

definition execute_child ::
  "exn option \<Rightarrow> deadline \<Rightarrow> tick list \<Rightarrow> int option \<Rightarrow> int option \<Rightarrow> bool \<Rightarrow> (child res) option" where
  "execute_child spawned d ts first again late = (case spawned of Some e \<Rightarrow> Some (Inl e)
     | None \<Rightarrow> map_option (\<lambda>s0. let s = s0\<lparr>wa_interrupted := wa_interrupted s0 \<or> late\<rparr> in case first of
           Some rc \<Rightarrow> Inr (child_of (dl_limit d) rc s)
         | None \<Rightarrow> (case again of Some rc \<Rightarrow> Inr (child_of (dl_limit d) rc s)
              | None \<Rightarrow> Inl (Other_Error ''TimeoutExpired''))) (wait_loop d ts watch_start))"

section \<open>The environment files\<close>

definition lab_dirs :: "(string \<times> string) list" where
  "lab_dirs = [(''elasticsearch'', ''elasticsearch''), (''elasticsearch9'', ''elasticsearch-9''), (''kafka'', ''kafka-lab''),
     (''mariadb'', ''mariadb-ha-lab''), (''redis'', ''redis-lab''), (''mvp'', ''mvp-lab'')]"

datatype env_file = Env_Link | Env_Absent | Env_Irregular | Env_File bytes

definition fingerprint_of :: "(bytes \<Rightarrow> ustr) \<Rightarrow> env_file \<Rightarrow> ustr option res" where
  "fingerprint_of sha f = (case f of
       Env_Link \<Rightarrow> Inl (Value_Error ''symlink_env_refused'')
     | Env_Absent \<Rightarrow> Inr None
     | Env_Irregular \<Rightarrow> Inl (Value_Error ''required_path_missing'')
     | Env_File b \<Rightarrow> if length b \<le> 1024 * 1024 then Inr (Some (sha b)) else Inl (Value_Error ''env_size_exceeded''))"

fun fingerprints :: "(bytes \<Rightarrow> ustr) \<Rightarrow> (string \<Rightarrow> env_file) \<Rightarrow> string list \<Rightarrow> (string \<times> ustr option) list res" where
  "fingerprints sha files [] = Inr []"
| "fingerprints sha files (t # ts) = (case map_of lab_dirs t of
       None \<Rightarrow> fingerprints sha files ts
     | Some dir \<Rightarrow> bind_res (fingerprint_of sha (files dir)) (\<lambda>h.
         bind_res (fingerprints sha files ts) (\<lambda>rest. Inr ((t, h) # rest))))"

definition environment_fingerprint ::
  "(bytes \<Rightarrow> ustr) \<Rightarrow> string \<Rightarrow> (string \<Rightarrow> env_file) \<Rightarrow> (string \<times> ustr option) list res" where
  "environment_fingerprint sha target files = fingerprints sha files
     (if target = ''all'' then filter (\<lambda>k. k \<notin> {''mvp'', ''elasticsearch9''}) (map fst lab_dirs) else [target])"

section \<open>The plan\<close>

text \<open>The state a run changes: the environment files and what was done, in order.\<close>

datatype run_event = Wrote_Plan | Ran nat "ustr list" int | Failed_To_Run nat "ustr list" | Wrote_Result

record host =
  ho_env :: "string \<Rightarrow> env_file"
  ho_events :: "run_event list"

definition noted :: "run_event \<Rightarrow> host \<Rightarrow> host" where
  "noted e h = h\<lparr>ho_events := ho_events h @ [e]\<rparr>"

record run_result =
  rr_changed :: bool
  rr_rc :: int
  rr_failed :: bool
  rr_children :: "child list"
  rr_error :: string
  rr_share :: "ustr list"

definition run_result_start :: run_result where
  "run_result_start = \<lparr>rr_changed = False, rr_rc = 0, rr_failed = False, rr_children = [], rr_error = [], rr_share = []\<rparr>"

text \<open>\<open>run\<close> is \<open>execute\<close>: what the command returns and the files it leaves.\<close>

type_synonym runner = "nat \<Rightarrow> ustr list \<Rightarrow> (string \<Rightarrow> env_file) \<Rightarrow> child res \<times> (string \<Rightarrow> env_file)"

fun run_commands :: "runner \<Rightarrow> bool \<Rightarrow> nat \<Rightarrow> ustr list list \<Rightarrow> run_result \<Rightarrow> host \<Rightarrow> (exn option \<times> run_result) \<times> host" where
  "run_commands run changing i [] r h = ((None, r), h)"
| "run_commands run changing i (argv # rest) r h =
     (let r1 = (if changing then r\<lparr>rr_changed := True\<rparr> else r) in
      case run i argv (ho_env h) of
        (Inl e, env) \<Rightarrow> ((Some e, r1), noted (Failed_To_Run i argv) (h\<lparr>ho_env := env\<rparr>))
      | (Inr c, env) \<Rightarrow>
        let h1 = noted (Ran i argv (ch_rc c)) (h\<lparr>ho_env := env\<rparr>);
            r2 = r1\<lparr>rr_children := rr_children r1 @ [c], rr_rc := ch_rc c\<rparr> in
        if ch_rc c \<noteq> 0 then ((None, r2\<lparr>rr_failed := True\<rparr>), h1)
        else run_commands run changing (Suc i) rest r2 h1)"

text \<open>\<open>share_paths\<close>; \<open>sizes\<close> is the size of a regular file, \<open>None\<close> when it is not one.\<close>

fun share_checked :: "(ustr \<Rightarrow> nat option) \<Rightarrow> ustr list \<Rightarrow> ustr list res" where
  "share_checked sizes [] = Inr []"
| "share_checked sizes (p # ps) = (case sizes p of
       None \<Rightarrow> Inl (Value_Error ''required_path_missing'')
     | Some n \<Rightarrow> bind_res (require (n \<le> 2 * 1024 * 1024) ''export_size_exceeded'') (\<lambda>_.
         bind_res (share_checked sizes ps) (\<lambda>rest. Inr (p # rest))))"

definition share_paths :: "(ustr \<Rightarrow> nat option) \<Rightarrow> ustr \<Rightarrow> pv \<Rightarrow> ustr list res" where
  "share_paths sizes base name = bind_res (run_id_of name ''accept'') (\<lambda>n.
     share_checked sizes (map (\<lambda>f. path_join base (u ''mvp-lab/reports/share/'' @ n @ [47] @ u f))
       [''summary.json'', ''report.md'', ''junit.xml'']))"

text \<open>\<open>except (OSError, ValueError, RuntimeError)\<close> and the error code it reports.\<close>

definition controller_error :: "exn \<Rightarrow> string option" where
  "controller_error e = (case e of
       Value_Error code \<Rightarrow> Some code
     | Runtime_Error _ \<Rightarrow> Some ''controller_execution_error''
     | Other_Error n \<Rightarrow> if n = ''OSError'' then Some ''controller_execution_error'' else None
     | _ \<Rightarrow> None)"

text \<open>The steps after the commands: what init changed and the exported files.\<close>

definition after_commands ::
  "(bytes \<Rightarrow> ustr) \<Rightarrow> (ustr \<Rightarrow> nat option) \<Rightarrow> plan \<Rightarrow> (string \<times> ustr option) list option \<Rightarrow> run_result \<Rightarrow> host
     \<Rightarrow> exn option \<times> run_result" where
  "after_commands sha sizes p before r h =
     (let fp = (case before of Some b \<Rightarrow> if rr_rc r = 0 then
             (case environment_fingerprint sha (pl_target p) (ho_env h) of Inl e \<Rightarrow> (Some e, r)
              | Inr a \<Rightarrow> (None, r\<lparr>rr_changed := b \<noteq> a\<rparr>)) else (None, r)
           | None \<Rightarrow> (None, r)) in
      case fp of (Some e, r1) \<Rightarrow> (Some e, r1)
      | (None, r1) \<Rightarrow>
        if pl_target p = ''mvp'' \<and> pl_action p = ''verify'' \<and> pl_verb p = PStr (u ''export'') \<and> rr_rc r1 = 0
        then (case share_paths sizes (pl_root p) (pl_name p) of Inl e \<Rightarrow> (Some e, r1)
              | Inr ps \<Rightarrow> (None, r1\<lparr>rr_share := ps\<rparr>))
        else (None, r1))"

text \<open>\<open>lock\<close> is what the state directory, the lock file and the report directories raise, if anything.\<close>

definition execute_plan ::
  "runner \<Rightarrow> (bytes \<Rightarrow> ustr) \<Rightarrow> (ustr \<Rightarrow> nat option) \<Rightarrow> exn option \<Rightarrow> plan \<Rightarrow> int \<Rightarrow> host \<Rightarrow> run_result res \<times> host" where
  "execute_plan run sha sizes lock p timeout h =
     (if timeout < 30 \<or> 43200 < timeout then (Inl (Value_Error ''timeout_out_of_range''), h)
      else case lock of Some e \<Rightarrow> (Inl e, h)
      | None \<Rightarrow>
        (case (if pl_action p = ''init'' then map_sum id Some (environment_fingerprint sha (pl_target p) (ho_env h)) else Inr None) of
           Inl e \<Rightarrow> (Inl e, h)
         | Inr before \<Rightarrow>
           (case run_commands run (pl_category p \<in> {''change'', ''fault'', ''destroy''}) 0 (pl_commands p) run_result_start
               (noted Wrote_Plan h) of
              ((stopped, r), h1) \<Rightarrow>
                (case (case stopped of Some e \<Rightarrow> (Some e, r) | None \<Rightarrow> after_commands sha sizes p before r h1) of
                   (None, r1) \<Rightarrow> (Inr r1, noted Wrote_Result h1)
                 | (Some e, r1) \<Rightarrow> (case controller_error e of
                      None \<Rightarrow> (Inl e, h1)
                    | Some code \<Rightarrow> (Inr (r1\<lparr>rr_failed := True, rr_rc := 1, rr_error := code\<rparr>), noted Wrote_Result h1))))))"

section \<open>The entry point\<close>

text \<open>\<open>directory\<close> and \<open>regular\<close> are what the checks of the project directory and of a readable file
  of it raise, if anything.\<close>

definition required_files :: "string \<Rightarrow> string list" where
  "required_files target = [''all.sh'', ''scripts/control.py''] @
     (case map_of lab_dirs target of Some d \<Rightarrow> [d @ ''/lab.sh'']
      | None \<Rightarrow> if target = ''all'' then map (\<lambda>(k, d). d @ ''/lab.sh'') (filter (\<lambda>(k, d). k \<noteq> ''mvp'') lab_dirs)
          else if target = ''k8s'' then [''helmchart/Chart.yaml'', ''scripts/k8s_guard.py''] else [])"

definition validate_project :: "(ustr \<Rightarrow> exn option) \<Rightarrow> (ustr \<Rightarrow> exn option) \<Rightarrow> pv \<Rightarrow> string \<Rightarrow> ustr res" where
  "validate_project directory regular v target = bind_res (absolute v) (\<lambda>base.
     case directory base of Some e \<Rightarrow> Inl e
     | None \<Rightarrow> (case List.map_filter (\<lambda>f. regular (path_join base (u f))) (required_files target) of
         e # _ \<Rightarrow> Inl e | [] \<Rightarrow> Inr base))"

datatype module_exit = Not_Run plan | Ran_Ok run_result | Ran_Failed run_result | Refused string

definition refused :: "exn \<Rightarrow> host \<Rightarrow> module_exit res \<times> host" where
  "refused e h = (let filesystem = Inr (Refused ''Adapter validation or filesystem failure'') in case e of
       Value_Error code \<Rightarrow> (Inr (Refused code), h)
     | Other_Error n \<Rightarrow> ((if n = ''OSError'' then filesystem else Inl e), h)
     | Type_Error \<Rightarrow> (filesystem, h)
     | _ \<Rightarrow> (Inl e, h))"

definition control ::
  "(rat \<Rightarrow> ustr) \<Rightarrow> (rat \<Rightarrow> rat) \<Rightarrow> (ustr \<Rightarrow> exn option) \<Rightarrow> (ustr \<Rightarrow> exn option) \<Rightarrow> runner \<Rightarrow> (bytes \<Rightarrow> ustr) \<Rightarrow> (ustr \<Rightarrow> nat option)
     \<Rightarrow> exn option \<Rightarrow> pdict \<Rightarrow> string \<Rightarrow> int \<Rightarrow> bool \<Rightarrow> host \<Rightarrow> module_exit res \<times> host" where
  "control ftext fl directory regular run sha sizes lock params target timeout check_mode h =
     (if timeout < 30 \<or> 43200 < timeout then refused (Value_Error ''timeout_out_of_range'') h
      else (case build_plan ftext fl params check_mode of Inl e \<Rightarrow> refused e h
      | Inr p \<Rightarrow> (case validate_project directory regular (dget params ''project_root'') target of Inl e \<Rightarrow> refused e h
        | Inr _ \<Rightarrow>
          if check_mode then (Inr (Not_Run p), h)
          else (case execute_plan run sha sizes lock p timeout h of
              (Inl e, h1) \<Rightarrow> refused e h1
            | (Inr r, h1) \<Rightarrow> (Inr (if rr_failed r then Ran_Failed r else Ran_Ok r), h1)))))"

section \<open>The wait loop\<close>

definition watch_ok :: "nat \<Rightarrow> watch \<Rightarrow> bool" where
  "watch_ok limit s \<longleftrightarrow> (\<forall>f. length (wa_logs s f) = min limit (wa_counts s f)) \<and>
     (wa_term_at s \<noteq> None \<longrightarrow> wa_timed_out s \<or> wa_interrupted s)"

lemma watch_ok_start: "watch_ok limit watch_start"
  by (simp add: watch_ok_def watch_start_def)

lemma watch_ok_turn: "watch_ok limit s \<Longrightarrow> watch_ok limit (kill_late d t (terminate t (mark_time d t s)))"
  by (auto simp: watch_ok_def kill_late_def terminate_def mark_time_def)

lemma watch_ok_chunk: "watch_ok limit s \<Longrightarrow> watch_ok limit (take_chunk limit r s)"
  by (cases r) (auto simp: watch_ok_def take_chunk_def min_def)

lemma watch_ok_chunks: "watch_ok limit s \<Longrightarrow> watch_ok limit (fold (take_chunk limit) rs s)"
  by (induction rs arbitrary: s) (simp_all add: watch_ok_chunk)

lemma chunk_term: "wa_term_at (take_chunk limit r s) = wa_term_at s"
  by (cases r) (simp add: take_chunk_def)

lemma chunks_term: "wa_term_at (fold (take_chunk limit) rs s) = wa_term_at s"
  by (induction rs arbitrary: s) (simp_all add: chunk_term)

lemma over_grace_ok: "over_grace d extra now s \<Longrightarrow> watch_ok limit s \<Longrightarrow> wa_timed_out s \<or> wa_interrupted s"
  by (auto simp: over_grace_def watch_ok_def split: option.splits)

lemma wait_loop_ok:
  "wait_loop d ts s = Some s' \<Longrightarrow> watch_ok (dl_limit d) s \<Longrightarrow>
   watch_ok (dl_limit d) s' \<and> (wa_open s' = [] \<or> wa_timed_out s' \<or> wa_interrupted s')"
proof (induction d ts s rule: wait_loop.induct)
  case (2 d t ts s)
  let ?s1 = "kill_late d t (terminate t (mark_time d t s))"
  have ok: "watch_ok (dl_limit d) ?s1" using 2(3) by (rule watch_ok_turn)
  consider "wa_open s = []" "\<not> tk_alive t" | "wa_open s \<noteq> [] \<or> tk_alive t" "over_grace d 2 (tk_now t) ?s1"
    | "wa_open s \<noteq> [] \<or> tk_alive t" "\<not> over_grace d 2 (tk_now t) ?s1" by blast
  then show ?case
  proof cases
    case 1
    then show ?thesis using 2(2,3) by simp
  next
    case 2
    then have "s' = ?s1" using \<open>wait_loop d (t # ts) s = Some s'\<close> by (auto simp: Let_def)
    with ok over_grace_ok [OF 2(2) ok] show ?thesis by blast
  next
    case 3
    have "wait_loop d ts (fold (take_chunk (dl_limit d)) (tk_reads t) ?s1) = Some s'"
      using 3 2(2) by (auto simp: Let_def)
    then show ?thesis using 2(1) [OF _ refl 3(2)] 3(1) watch_ok_chunks [OF ok] by blast
  qed
qed simp

lemma turn_term:
  "wa_term_at s = Some a \<Longrightarrow> wa_term_at (kill_late d t (terminate t (mark_time d t s))) = Some a"
  "wa_term_at s = None \<Longrightarrow> wa_term_at (kill_late d t (terminate t (mark_time d t s))) \<in> {None, Some (tk_now t)}"
  "wa_term_at s = None \<Longrightarrow> dl_timeout d \<le> tk_now t - dl_started d \<Longrightarrow>
     wa_term_at (kill_late d t (terminate t (mark_time d t s))) = Some (tk_now t)"
  by (auto simp: kill_late_def terminate_def mark_time_def)

lemma ends_after_term:
  "wa_term_at s = Some a \<Longrightarrow> t2 \<in> set ts \<Longrightarrow> dl_grace d + 2 \<le> tk_now t2 - a \<Longrightarrow> wait_loop d ts s \<noteq> None"
proof (induction ts arbitrary: s)
  case (Cons t ts)
  let ?s1 = "kill_late d t (terminate t (mark_time d t s))"
  have at: "wa_term_at ?s1 = Some a" using Cons.prems(1) by (rule turn_term)
  show ?case
  proof (cases "t2 = t")
    case True
    then have "over_grace d 2 (tk_now t) ?s1" using at Cons.prems(3) by (simp add: over_grace_def)
    then show ?thesis by (simp add: Let_def)
  next
    case False
    then have "wait_loop d ts (fold (take_chunk (dl_limit d)) (tk_reads t) ?s1) \<noteq> None"
      using Cons.prems by (intro Cons.IH) (simp_all add: chunks_term at)
    then show ?thesis by (simp add: Let_def)
  qed
qed simp

lemma ends_in_time:
  assumes "dl_timeout d \<le> tk_now t1 - dl_started d" "dl_grace d + 2 \<le> tk_now t2 - tk_now t1"
  shows "sorted (map tk_now (pre @ [t1])) \<Longrightarrow> t2 \<in> set rest \<Longrightarrow> wa_term_at s = None \<Longrightarrow>
    wait_loop d (pre @ t1 # rest) s \<noteq> None"
proof (induction pre arbitrary: s)
  case Nil
  let ?s1 = "kill_late d t1 (terminate t1 (mark_time d t1 s))"
  have "wa_term_at ?s1 = Some (tk_now t1)" using Nil(3) assms(1) by (rule turn_term)
  then have "wait_loop d rest (fold (take_chunk (dl_limit d)) (tk_reads t1) ?s1) \<noteq> None"
    using Nil(2) assms(2) by (intro ends_after_term [of _ "tk_now t1" t2]) (simp_all add: chunks_term)
  then show ?case by (simp add: Let_def)
next
  case (Cons t pre)
  let ?s1 = "kill_late d t (terminate t (mark_time d t s))"
  let ?s2 = "fold (take_chunk (dl_limit d)) (tk_reads t) ?s1"
  have "wa_term_at ?s2 \<in> {None, Some (tk_now t)}" using turn_term(2) [OF Cons.prems(3)] by (simp add: chunks_term)
  moreover have "wait_loop d (pre @ t1 # rest) ?s2 \<noteq> None" if "wa_term_at ?s2 = None"
    using Cons.prems that by (intro Cons.IH) simp_all
  moreover have "wait_loop d (pre @ t1 # rest) ?s2 \<noteq> None" if "wa_term_at ?s2 = Some (tk_now t)"
  proof (rule ends_after_term [OF that])
    show "t2 \<in> set (pre @ t1 # rest)" using Cons.prems(2) by simp
    have "tk_now t \<le> tk_now t1" using Cons.prems(1) by simp
    then show "dl_grace d + 2 \<le> tk_now t2 - tk_now t" using assms(2) by linarith
  qed
  ultimately have "wait_loop d (pre @ t1 # rest) ?s2 \<noteq> None" by blast
  then show ?case by (simp add: Let_def)
qed

text \<open>C23: A command ends. Whatever the child and its descendants do (never exit, never close a pipe, write
  without end), the wait loop is left at the latest at the first turn that lies the grace period and two
  seconds after the first turn past the deadline, having kept of each stream exactly what fits the limit; and
  a zero return code is given only to a child that exited with 0 and whose two pipes were read to the end,
  never to one that was timed out or interrupted.\<close>

theorem command_ends:
  assumes "sorted (map tk_now (pre @ [t1]))" "t2 \<in> set rest"
    and "dl_timeout d \<le> tk_now t1 - dl_started d" "dl_grace d + 2 \<le> tk_now t2 - tk_now t1"
  shows "\<exists>s. wait_loop d (pre @ t1 # rest) watch_start = Some s
    \<and> (\<forall>f. length (wa_logs s f) = min (dl_limit d) (wa_counts s f))
    \<and> (\<forall>native late. ch_rc (child_of (dl_limit d) native (s\<lparr>wa_interrupted := wa_interrupted s \<or> late\<rparr>)) = 0 \<longrightarrow>
          native = 0 \<and> \<not> late \<and> wa_open s = [] \<and> \<not> wa_timed_out s)"
proof -
  have "wait_loop d (pre @ t1 # rest) watch_start \<noteq> None"
    using assms by (intro ends_in_time [OF assms(3,4)]) (simp_all add: watch_start_def)
  then obtain s where s: "wait_loop d (pre @ t1 # rest) watch_start = Some s" by blast
  from wait_loop_ok [OF s watch_ok_start] show ?thesis
    by (intro exI [of _ s]) (auto simp: s watch_ok_def child_of_def split: if_splits)
qed

definition stuck_tick :: "rat \<Rightarrow> tick" where
  "stuck_tick now = \<lparr>tk_alive = True, tk_interrupt = False, tk_now = now, tk_reads = [(Stdout, [120, 121, 122])]\<rparr>"

theorem command_ends_witness:
  "\<exists>s. wait_loop \<lparr>dl_started = 0, dl_timeout = 30, dl_grace = 15, dl_limit = 2\<rparr>
      ([stuck_tick 1] @ stuck_tick 31 # [stuck_tick 46, stuck_tick 48, stuck_tick 49]) watch_start = Some s
    \<and> length (wa_logs s Stdout) = min 2 (wa_counts s Stdout)"
  using command_ends [of "[stuck_tick 1]" "stuck_tick 31" "stuck_tick 48" "[stuck_tick 46, stuck_tick 48, stuck_tick 49]"
      "\<lparr>dl_started = 0, dl_timeout = 30, dl_grace = 15, dl_limit = 2\<rparr>"]
  by (simp add: stuck_tick_def) blast

section \<open>The order of the commands\<close>

fun ran :: "run_event list \<Rightarrow> (ustr list \<times> int option) list" where
  "ran [] = []"
| "ran (Ran i argv rc # es) = (argv, Some rc) # ran es"
| "ran (Failed_To_Run i argv # es) = (argv, None) # ran es"
| "ran (e # es) = ran es"

lemma ran_append [simp]: "ran (es @ es') = ran es @ ran es'"
  by (induction es rule: ran.induct) simp_all

definition in_order :: "ustr list list \<Rightarrow> run_event list \<Rightarrow> bool" where
  "in_order commands es \<longleftrightarrow> map fst (ran es) = take (length (ran es)) commands \<and>
     list_all (\<lambda>x. snd x = Some 0) (butlast (ran es))"

lemma run_commands_trace:
  "run_commands run ch i cmds r h = ((e, r'), h') \<Longrightarrow> \<not> rr_failed r \<Longrightarrow>
   \<exists>es. ho_events h' = ho_events h @ es \<and> in_order cmds es \<and>
     (e = None \<and> \<not> rr_failed r' \<longrightarrow> ran es = map (\<lambda>c. (c, Some 0)) cmds)"
proof (induction cmds arbitrary: i r h)
  case Nil
  then show ?case by (intro exI [of _ "[]"]) (auto simp: in_order_def)
next
  case (Cons argv cmds)
  let ?r1 = "if ch then r\<lparr>rr_changed := True\<rparr> else r"
  obtain out env where out: "run i argv (ho_env h) = (out, env)" by fastforce
  show ?case
  proof (cases out)
    case (Inl x)
    then show ?thesis using Cons.prems(1)
      by (intro exI [of _ "[Failed_To_Run i argv]"]) (auto simp: out noted_def in_order_def Let_def)
  next
    case (Inr c)
    let ?h1 = "noted (Ran i argv (ch_rc c)) (h\<lparr>ho_env := env\<rparr>)"
    let ?r2 = "?r1\<lparr>rr_children := rr_children ?r1 @ [c], rr_rc := ch_rc c\<rparr>"
    show ?thesis
    proof (cases "ch_rc c = 0")
      case False
      then show ?thesis using Cons.prems(1) Inr
        by (intro exI [of _ "[Ran i argv (ch_rc c)]"]) (auto simp: out noted_def in_order_def Let_def)
    next
      case True
      then have "run_commands run ch (Suc i) cmds ?r2 ?h1 = ((e, r'), h')" "\<not> rr_failed ?r2"
        using Cons.prems Inr by (simp_all add: out Let_def)
      from Cons.IH [OF this] obtain es where es: "ho_events h' = ho_events ?h1 @ es" "in_order cmds es"
        "e = None \<and> \<not> rr_failed r' \<longrightarrow> ran es = map (\<lambda>c. (c, Some 0)) cmds" by blast
      from es(2) have "in_order (argv # cmds) (Ran i argv 0 # es)" by (simp add: in_order_def)
      then show ?thesis using es(1,3) True by (intro exI [of _ "Ran i argv (ch_rc c) # es"]) (simp add: noted_def)
    qed
  qed
qed

lemma after_commands_failed: "after_commands sha sizes p b r h = (e, r') \<Longrightarrow> rr_failed r' = rr_failed r"
  by (auto simp: after_commands_def Let_def split: option.splits sum.splits if_splits)

lemma in_order_Nil [simp]: "in_order cmds []"
  by (simp add: in_order_def)

lemma in_order_around: "in_order cmds es \<Longrightarrow> in_order cmds (Wrote_Plan # es)" "in_order cmds es \<Longrightarrow> in_order cmds (es @ [Wrote_Result])"
  by (simp_all add: in_order_def)

lemma execute_plan_trace:
  assumes "execute_plan run sha sizes lock p timeout h = (r, h')"
  shows "\<exists>es. ho_events h' = ho_events h @ es \<and> in_order (pl_commands p) es \<and>
    (\<forall>out. r = Inr out \<and> \<not> rr_failed out \<longrightarrow> ran es = map (\<lambda>c. (c, Some 0)) (pl_commands p))"
proof (cases "timeout < 30 \<or> 43200 < timeout \<or> lock \<noteq> None")
  case True
  then show ?thesis using assms by (intro exI [of _ "[]"]) (auto simp: execute_plan_def split: if_splits)
next
  case False
  let ?b = "if pl_action p = ''init'' then map_sum id Some (environment_fingerprint sha (pl_target p) (ho_env h)) else Inr None"
  show ?thesis
  proof (cases ?b)
    case (Inl x)
    then show ?thesis using assms False by (intro exI [of _ "[]"]) (auto simp: execute_plan_def)
  next
    case (Inr before)
    obtain stopped r0 h1 where run: "run_commands run (pl_category p \<in> {''change'', ''fault'', ''destroy''}) 0 (pl_commands p)
        run_result_start (noted Wrote_Plan h) = ((stopped, r0), h1)" by (metis prod.collapse)
    from run_commands_trace [OF this] obtain es where es: "ho_events h1 = ho_events h @ Wrote_Plan # es" "in_order (pl_commands p) es"
      "stopped = None \<and> \<not> rr_failed r0 \<longrightarrow> ran es = map (\<lambda>c. (c, Some 0)) (pl_commands p)"
      by (auto simp: run_result_start_def noted_def)
    obtain e r1 where post: "(case stopped of Some e \<Rightarrow> (Some e, r0) | None \<Rightarrow> after_commands sha sizes p before r0 h1) = (e, r1)"
      by fastforce
    have keep: "rr_failed r1 = rr_failed r0" using post by (auto split: option.splits dest: after_commands_failed)
    have out: "execute_plan run sha sizes lock p timeout h = (case e of None \<Rightarrow> (Inr r1, noted Wrote_Result h1)
        | Some x \<Rightarrow> (case controller_error x of None \<Rightarrow> (Inl x, h1)
           | Some code \<Rightarrow> (Inr (r1\<lparr>rr_failed := True, rr_rc := 1, rr_error := code\<rparr>), noted Wrote_Result h1)))"
      using False Inr run post by (simp add: execute_plan_def)
    have fin: "ran es = map (\<lambda>c. (c, Some 0)) (pl_commands p)" if "e = None" "\<not> rr_failed r1"
      using that es(3) keep post by (auto split: option.splits)
    show ?thesis
    proof (cases e)
      case None
      then show ?thesis using es fin out assms
        by (intro exI [of _ "Wrote_Plan # es @ [Wrote_Result]"]) (auto simp: noted_def intro!: in_order_around)
    next
      case (Some x)
      then show ?thesis using es out assms
        by (intro exI [of _ "Wrote_Plan # es @ (if controller_error x = None then [] else [Wrote_Result])"])
          (auto simp: noted_def intro!: in_order_around split: option.splits)
    qed
  qed
qed

lemma refused_outcome [simp]: "snd (refused e h) = h" "fst (refused e h) \<noteq> Inr (Ran_Ok out)"
  by (cases e; simp add: refused_def Let_def)+

lemma refused_eq: "refused e h = (r, h') \<Longrightarrow> h' = h \<and> (\<forall>out. r \<noteq> Inr (Ran_Ok out))"
  using refused_outcome [of e h] by (metis fst_conv snd_conv)

text \<open>C22: The entry point runs the plan's commands and nothing else. What it ran is an initial segment of the
  commands \<open>build_plan\<close> returned, in order and each once, every one but the last with return code 0 (nothing
  runs after a failure, nothing is tried again); nothing at all is run without a plan, for a project that does
  not validate or in check mode; and success is reported only when every command of the plan returned 0.\<close>

theorem control_runs_plan_in_order:
  assumes "control ftext fl directory regular run sha sizes lock params target timeout check_mode h = (r, h')"
  shows "\<exists>es. ho_events h' = ho_events h @ es \<and>
    (es = [] \<or> \<not> check_mode \<and> (\<exists>p base. build_plan ftext fl params check_mode = Inr p \<and>
       validate_project directory regular (dget params ''project_root'') target = Inr base \<and>
       in_order (pl_commands p) es)) \<and>
    (\<forall>out. r = Inr (Ran_Ok out) \<longrightarrow> (\<exists>p. build_plan ftext fl params check_mode = Inr p \<and>
       ran es = map (\<lambda>c. (c, Some 0)) (pl_commands p)))"
proof -
  show ?thesis
  proof (cases "30 \<le> timeout \<and> timeout \<le> 43200 \<and> \<not> check_mode \<and> is_ok (build_plan ftext fl params check_mode) \<and>
      is_ok (validate_project directory regular (dget params ''project_root'') target)")
    case False
    have "h' = h \<and> (\<forall>out. r \<noteq> Inr (Ran_Ok out))"
    proof (cases "build_plan ftext fl params check_mode")
      case (Inl e)
      then show ?thesis using assms by (auto simp: control_def dest!: refused_eq split: if_splits)
    next
      case (Inr p)
      then show ?thesis using assms False
        by (cases "validate_project directory regular (dget params ''project_root'') target")
          (auto simp: control_def dest!: refused_eq split: if_splits)
    qed
    then show ?thesis by (intro exI [of _ "[]"]) auto
  next
    case True
    then obtain p base where p: "build_plan ftext fl params check_mode = Inr p"
      "validate_project directory regular (dget params ''project_root'') target = Inr base" by (auto simp: is_ok_iff)
    obtain o1 h1 where ex: "execute_plan run sha sizes lock p timeout h = (o1, h1)" by fastforce
    from execute_plan_trace [OF this] obtain es where es: "ho_events h1 = ho_events h @ es" "in_order (pl_commands p) es"
      "\<And>out. o1 = Inr out \<Longrightarrow> \<not> rr_failed out \<Longrightarrow> ran es = map (\<lambda>c. (c, Some 0)) (pl_commands p)" by blast
    have "h' = h1 \<and> (\<forall>out. r = Inr (Ran_Ok out) \<longrightarrow> o1 = Inr out \<and> \<not> rr_failed out)"
      using assms True p ex by (cases o1) (auto simp: control_def dest!: refused_eq split: if_splits)
    then show ?thesis using es p True by (intro exI [of _ es]) auto
  qed
qed

theorem control_runs_plan_in_order_witness:
  "\<exists>es p. build_plan (\<lambda>_. []) id reset_params False = Inr p \<and> length (pl_commands p) = 1 \<and>
    ho_events (snd (control (\<lambda>_. []) id (\<lambda>_. None) (\<lambda>_. None) (\<lambda>i argv env. (Inr (child_of log_limit 0 watch_start), env))
      (\<lambda>_. []) (\<lambda>_. None) None reset_params ''redis'' 60 False \<lparr>ho_env = (\<lambda>_. Env_Absent), ho_events = []\<rparr>)) = es \<and>
    ran es = map (\<lambda>c. (c, Some 0)) (pl_commands p)"
proof -
  let ?h = "\<lparr>ho_env = (\<lambda>_. Env_Absent), ho_events = []\<rparr>"
  let ?run = "\<lambda>i argv env. (Inr (child_of log_limit 0 watch_start), env)"
  obtain p where p: "build_plan (\<lambda>_. []) id reset_params False = Inr p" "pl_category p = ''destroy''" "length (pl_commands p) = 1"
    "pl_action p = ''reset''" "pl_target p = ''redis''" using reset_plan [of "\<lambda>_. []" id] by auto
  then obtain argv where argv: "pl_commands p = [argv]" by (cases "pl_commands p") auto
  have "dget reset_params ''project_root'' = PStr (u ''/lab'')" by (simp add: reset_params_def)
  moreover have "absolute (PStr (u ''/lab'')) = Inr (u ''/lab'')"
    by (simp add: absolute_def bind_res_def require_def text_ok_def starts_with_def u_def)
  ultimately have "validate_project (\<lambda>_. None) (\<lambda>_. None) (dget reset_params ''project_root'') ''redis'' = Inr (u ''/lab'')"
    by (simp add: validate_project_def required_files_def lab_dirs_def List.map_filter_def)
  then obtain out h' where c: "control (\<lambda>_. []) id (\<lambda>_. None) (\<lambda>_. None) ?run (\<lambda>_. []) (\<lambda>_. None) None reset_params ''redis'' 60
      False ?h = (Inr (Ran_Ok out), h')"
    using p argv by (simp add: control_def execute_plan_def run_result_start_def after_commands_def child_of_def watch_start_def
        noted_def Let_def)
  from control_runs_plan_in_order [OF this] obtain es where "ho_events h' = es" "ran es = map (\<lambda>c. (c, Some 0)) (pl_commands p)"
    using p(1) by auto
  then show ?thesis using p c by auto
qed

end
