(* ===== verification/Redis_Guard.thy ===== *)
theory Redis_Guard
  imports Prelude "HOL-Library.Multiset"
begin

text \<open>
  \<open>redis-lab/ops/common.py\<close>: the latency histogram, the status of a report, the deletion of owned
  keys, and the guard that journals the configuration of the perf server before an experiment changes
  it, with the recovery that puts it back. The server is a state; what a lost command did to it, what
  SCAN returns and how the server normalises a setting are arguments. The doubles of the histogram are
  arguments as well (\<open>cell\<close>, \<open>upper\<close>, \<open>fl\<close>).
\<close>

section \<open>Reports\<close>

text \<open>\<open>s.replace(value, new)\<close> for a non-empty value.\<close>

fun replace_fuel :: "nat \<Rightarrow> ustr \<Rightarrow> ustr \<Rightarrow> ustr \<Rightarrow> ustr" where
  "replace_fuel 0 old new s = s"
| "replace_fuel (Suc n) old new [] = []"
| "replace_fuel (Suc n) old new (c # s) = (if starts_with old (c # s)
     then new @ replace_fuel n old new (drop (length old) (c # s)) else c # replace_fuel n old new s)"

definition redact :: "(string \<Rightarrow> ustr) \<Rightarrow> ustr \<Rightarrow> ustr" where
  "redact env msg = foldl (\<lambda>m key. if env key = [] then m else replace_fuel (length m) (env key) (u ''<redacted>'') m) msg
     [''REDIS_PASSWORD'', ''SENTINEL_PASSWORD'', ''PROXY_TOKEN'']"

definition exit_code :: "string \<Rightarrow> int" where
  "exit_code status = (case map_of [(''PASS'', 0), (''FAIL'', 1), (''BLOCKED'', 2), (''NOT_REPRODUCED'', 3)] status of
     Some n \<Rightarrow> n | None \<Rightarrow> 1)"

section \<open>The histogram\<close>

record hist =
  hi_buckets :: "(int \<times> nat) list"
  hi_n :: nat
  hi_total :: rat
  hi_max :: rat

definition hist_empty :: hist where
  "hist_empty = \<lparr>hi_buckets = [], hi_n = 0, hi_total = 0, hi_max = 0\<rparr>"

text \<open>\<open>self.buckets[i] += 1\<close> on a \<open>Counter\<close>.\<close>

fun bump :: "'k \<Rightarrow> ('k \<times> nat) list \<Rightarrow> ('k \<times> nat) list" where
  "bump i [] = [(i, 1)]"
| "bump i ((j, n) # bs) = (if i = j then (j, n + 1) # bs else (j, n) # bump i bs)"

definition hist_add :: "(rat \<Rightarrow> int) \<Rightarrow> rat option \<Rightarrow> hist \<Rightarrow> hist res" where
  "hist_add cell ms h = (case ms of None \<Rightarrow> Inl (Value_Error ''Invalid latency'')
     | Some x \<Rightarrow> if x < 0 then Inl (Value_Error ''Invalid latency'')
         else Inr (h\<lparr>hi_buckets := bump (if x = 0 then 0 else cell x) (hi_buckets h), hi_n := hi_n h + 1,
                hi_total := hi_total h + x, hi_max := max (hi_max h) x\<rparr>))"

fun walk :: "int \<Rightarrow> nat \<Rightarrow> (int \<times> nat) list \<Rightarrow> int option" where
  "walk rank n [] = None"
| "walk rank n ((i, c) # bs) = (if rank \<le> int (n + c) then Some i else walk rank (n + c) bs)"

definition rank_of :: "(rat \<Rightarrow> rat) \<Rightarrow> nat \<Rightarrow> rat \<Rightarrow> int" where
  "rank_of fl n p = max 1 \<lceil>fl (of_nat n * p)\<rceil>"

definition percentile :: "(rat \<Rightarrow> rat) \<Rightarrow> (int \<Rightarrow> rat) \<Rightarrow> rat \<Rightarrow> hist \<Rightarrow> rat option" where
  "percentile fl upper p h = (if hi_n h = 0 then None
     else map_option upper (walk (rank_of fl (hi_n h) p) 0 (sort_key fst (hi_buckets h))))"

record hist_summary =
  hs_count :: nat
  hs_mean :: "rat option"
  hs_p50 :: "rat option"
  hs_p95 :: "rat option"
  hs_p99 :: "rat option"
  hs_max :: rat

definition summary :: "(rat \<Rightarrow> rat) \<Rightarrow> (int \<Rightarrow> rat) \<Rightarrow> (rat \<Rightarrow> rat) \<Rightarrow> hist \<Rightarrow> hist_summary" where
  "summary fl upper round4 h = \<lparr>hs_count = hi_n h,
     hs_mean = (if hi_n h = 0 then None else Some (round4 (fl (hi_total h / of_nat (hi_n h))))),
     hs_p50 = percentile fl upper (1 / 2) h, hs_p95 = percentile fl upper (fl (95 / 100)) h,
     hs_p99 = percentile fl upper (fl (99 / 100)) h, hs_max = round4 (hi_max h)\<rparr>"

section \<open>Deleting owned keys\<close>

definition prefix_char :: "nat \<Rightarrow> bool" where
  "prefix_char c \<longleftrightarrow> is_alnum c \<or> c = 95 \<or> c = 45"

definition owned_prefix :: "ustr \<Rightarrow> ustr res" where
  "owned_prefix v = (if starts_with (u ''ops:'') v \<and> 13 \<le> length v \<and> last v = 58 \<and>
       class_match prefix_char 8 150 (butlast (drop 4 v))
     then Inr v else Inl (Value_Error ''Invalid owned key prefix''))"

definition batch_size :: nat where "batch_size = 100"

text \<open>One page of SCAN in batches; \<open>UNLINK\<close> answers how many keys it removed.\<close>

function unlink_batches :: "bytes \<Rightarrow> bytes list \<Rightarrow> nat \<times> nat \<Rightarrow> bytes list \<Rightarrow> (nat \<times> nat) res \<times> bytes list" where
  "unlink_batches prefix page counts keys =
     (if page = [] then (Inr counts, keys)
      else let batch = take batch_size page in
        if \<not> list_all (starts_with prefix) batch then (Inl (Runtime_Error ''Foreign key in cleanup''), keys)
        else unlink_batches prefix (drop batch_size page)
          (fst counts + length batch, snd counts + length (filter (\<lambda>k. k \<in> set batch) keys))
          (filter (\<lambda>k. k \<notin> set batch) keys))"
  by pat_completeness auto
termination
  by (relation "measure (\<lambda>(prefix, page, counts, keys). length page)") (auto simp: batch_size_def)

declare unlink_batches.simps [simp del]

type_synonym scanner = "nat \<Rightarrow> bytes \<Rightarrow> bytes list \<Rightarrow> nat \<times> bytes list"

text \<open>One complete scan: the cursor loop, until the server returns cursor 0. \<open>None\<close> when the fuel ends first.\<close>

fun scan_pass :: "nat \<Rightarrow> scanner \<Rightarrow> bytes \<Rightarrow> nat \<Rightarrow> nat \<times> nat \<Rightarrow> bytes list \<Rightarrow> ((nat \<times> nat) res \<times> bytes list) option" where
  "scan_pass 0 scan prefix cursor counts keys = None"
| "scan_pass (Suc fuel) scan prefix cursor counts keys = (case scan cursor prefix keys of (cursor', page) \<Rightarrow>
     (case unlink_batches prefix page counts keys of
        (Inl e, keys') \<Rightarrow> Some (Inl e, keys')
      | (Inr counts', keys') \<Rightarrow> if cursor' = 0 then Some (Inr counts', keys')
          else scan_pass fuel scan prefix cursor' counts' keys'))"

fun cleanup_passes :: "nat \<Rightarrow> nat \<Rightarrow> scanner \<Rightarrow> bytes \<Rightarrow> nat \<Rightarrow> bytes list \<Rightarrow> (nat res \<times> bytes list) option" where
  "cleanup_passes 0 fuel scan prefix removed keys = Some (Inl (Runtime_Error ''Owned keys still being created''), keys)"
| "cleanup_passes (Suc n) fuel scan prefix removed keys = (case scan_pass fuel scan prefix 0 (0, removed) keys of
       None \<Rightarrow> None
     | Some (Inl e, keys') \<Rightarrow> Some (Inl e, keys')
     | Some (Inr (found, removed'), keys') \<Rightarrow> if found = 0 then Some (Inr removed', keys')
         else cleanup_passes n fuel scan prefix removed' keys')"

definition cleanup :: "nat \<Rightarrow> scanner \<Rightarrow> ustr \<Rightarrow> bytes list \<Rightarrow> (nat res \<times> bytes list) option" where
  "cleanup fuel scan prefix keys = (case owned_prefix prefix of Inl e \<Rightarrow> Some (Inl e, keys)
     | Inr p \<Rightarrow> cleanup_passes 4 fuel scan (utf8 p) 0 keys)"

section \<open>The guard\<close>

definition config_allow :: "ustr list" where
  "config_allow = map u [''maxmemory'', ''maxmemory-policy'', ''activedefrag'', ''active-defrag-ignore-bytes'',
     ''active-defrag-threshold-lower'', ''active-defrag-threshold-upper'', ''active-defrag-cycle-min'',
     ''active-defrag-cycle-max'', ''slowlog-log-slower-than'', ''slowlog-max-len'', ''maxclients'',
     ''client-output-buffer-limit'', ''save'', ''appendonly'', ''latency-monitor-threshold'', ''hz'']"

record perf =
  pf_id :: ustr
  pf_role :: ustr
  pf_slaves :: int
  pf_memory :: int
  pf_config :: "ustr \<Rightarrow> ustr option"
  pf_keys :: "bytes list"

record journal =
  jo_server :: ustr
  jo_prefix :: ustr
  jo_config :: "(ustr \<times> ustr) list"

record site =
  st_perf :: perf
  st_journal :: "journal option"

record guard =
  gd_prefix :: ustr
  gd_original :: "(ustr \<times> ustr) list"
  gd_server :: ustr

text \<open>\<open>persist\<close>: the journal file is replaced as a whole, or not at all (\<open>ok\<close> is false).\<close>

definition persist :: "bool \<Rightarrow> guard \<Rightarrow> site \<Rightarrow> site" where
  "persist ok g s = (if ok then s\<lparr>st_journal := Some \<lparr>jo_server = gd_server g, jo_prefix = gd_prefix g,
     jo_config = gd_original g\<rparr>\<rparr> else s)"

text \<open>\<open>Guard.__init__\<close> and \<open>__enter__\<close>; \<open>busy\<close>: another process holds the scenario lock.\<close>

definition enter :: "bool \<Rightarrow> ustr \<Rightarrow> bool \<Rightarrow> site \<Rightarrow> guard res \<times> site" where
  "enter busy report_id ok s = (case owned_prefix (u ''ops:'' @ report_id @ u '':'') of Inl e \<Rightarrow> (Inl e, s)
     | Inr prefix \<Rightarrow>
       if busy then (Inl (Other_Error ''Blocked''), s)
       else if st_journal s \<noteq> None then (Inl (Other_Error ''Blocked''), s)
       else if pf_role (st_perf s) \<noteq> u ''master'' \<or> pf_slaves (st_perf s) \<noteq> 0 then (Inl (Other_Error ''Blocked''), s)
       else if 110 * 1024 * 1024 < pf_memory (st_perf s) then (Inl (Other_Error ''Blocked''), s)
       else let g = \<lparr>gd_prefix = prefix, gd_original = [], gd_server = pf_id (st_perf s)\<rparr> in
         if ok then (Inr g, persist True g s) else (Inl (Other_Error ''OSError''), s))"

text \<open>What became of a CONFIG SET: answered, refused, or lost with or without having been applied.\<close>

datatype sent = Answered | Answered_Error | Lost bool

definition applied :: "sent \<Rightarrow> bool" where
  "applied r = (case r of Answered \<Rightarrow> True | Answered_Error \<Rightarrow> False | Lost b \<Rightarrow> b)"

definition config_set :: "(ustr \<Rightarrow> ustr \<Rightarrow> ustr) \<Rightarrow> (ustr \<times> ustr) list \<Rightarrow> perf \<Rightarrow> perf" where
  "config_set canon args p = p\<lparr>pf_config := (\<lambda>k. case map_of args k of Some v \<Rightarrow> Some (canon k v) | None \<Rightarrow> pf_config p k)\<rparr>"

text \<open>The settings not yet known are read first; \<open>up k\<close>: the answer for \<open>k\<close> arrives.\<close>

fun read_originals :: "(ustr \<Rightarrow> bool) \<Rightarrow> perf \<Rightarrow> ustr list \<Rightarrow> (ustr \<times> ustr) list \<Rightarrow> exn option \<times> (ustr \<times> ustr) list" where
  "read_originals up p [] original = (None, original)"
| "read_originals up p (k # ks) original =
     (if k \<in> fst ` set original then read_originals up p ks original
      else if \<not> up k then (Some (Other_Error ''TransportError''), original)
      else (case pf_config p k of None \<Rightarrow> (Some (Other_Error ''Blocked''), original)
         | Some v \<Rightarrow> read_originals up p ks (original @ [(k, v)])))"

definition configure :: "(ustr \<Rightarrow> ustr \<Rightarrow> ustr) \<Rightarrow> (ustr \<Rightarrow> bool) \<Rightarrow> bool \<Rightarrow> sent \<Rightarrow> (ustr \<times> ustr) list \<Rightarrow> guard \<times> site
     \<Rightarrow> exn option \<times> guard \<times> site" where
  "configure canon up ok outcome settings gs = (case gs of (g, s) \<Rightarrow>
     if \<not> set (map fst settings) \<subseteq> set config_allow then (Some (Value_Error ''Unsafe configuration change refused''), g, s)
     else (case read_originals up (st_perf s) (map fst settings) (gd_original g) of
         (Some e, original) \<Rightarrow> (Some e, g\<lparr>gd_original := original\<rparr>, s)
       | (None, original) \<Rightarrow>
         let g1 = g\<lparr>gd_original := original\<rparr> in
         if \<not> ok then (Some (Other_Error ''OSError''), g1, s)
         else let s1 = persist True g1 s;
                s2 = (if applied outcome then s1\<lparr>st_perf := config_set canon settings (st_perf s1)\<rparr> else s1) in
           (if outcome = Answered then None else Some (Other_Error ''RedisError''), g1, s2)))"

record recovery =
  re_restored :: bool
  re_removed :: nat
  re_pending :: bool

text \<open>\<open>recover_journal\<close>: \<open>answers\<close> tells what became of the restoring CONFIG SET, \<open>pong\<close> whether the final
  PING was answered.\<close>

definition recover_journal :: "(ustr \<Rightarrow> ustr \<Rightarrow> ustr) \<Rightarrow> scanner \<Rightarrow> nat \<Rightarrow> bool \<Rightarrow> sent \<Rightarrow> bool \<Rightarrow> site
     \<Rightarrow> (recovery res \<times> site) option" where
  "recover_journal canon scan fuel busy outcome pong s =
     (if busy then Some (Inl (Other_Error ''Blocked''), s)
      else case st_journal s of None \<Rightarrow> Some (Inr \<lparr>re_restored = True, re_removed = 0, re_pending = False\<rparr>, s)
      | Some j \<Rightarrow> (case owned_prefix (jo_prefix j) of Inl e \<Rightarrow> Some (Inl e, s)
        | Inr prefix \<Rightarrow>
          if \<not> set (map fst (jo_config j)) \<subseteq> set config_allow then Some (Inl (Value_Error ''Journal contains forbidden config keys''), s)
          else let same = (pf_id (st_perf s) = jo_server j);
                 restore = (same \<and> jo_config j \<noteq> []);
                 s1 = (if restore \<and> applied outcome then s\<lparr>st_perf := config_set canon (jo_config j) (st_perf s)\<rparr> else s) in
            if restore \<and> outcome \<noteq> Answered then Some (Inl (Other_Error ''RedisError''), s1)
            else if restore \<and> \<not> list_all (\<lambda>(k, v). pf_config (st_perf s1) k = Some v) (jo_config j)
            then Some (Inl (Runtime_Error ''Configuration restoration read-back mismatch''), s1)
            else (case cleanup fuel scan prefix (pf_keys (st_perf s1)) of None \<Rightarrow> None
              | Some (r, keys) \<Rightarrow>
                let s2 = s1\<lparr>st_perf := (st_perf s1)\<lparr>pf_keys := keys\<rparr>\<rparr> in
                (case r of Inl e \<Rightarrow> Some (Inl e, s2)
                 | Inr n \<Rightarrow> if \<not> pong then Some (Inl (Runtime_Error ''PING after recovery failed''), s2)
                     else Some (Inr \<lparr>re_restored = same, re_removed = n, re_pending = True\<rparr>, s2\<lparr>st_journal := None\<rparr>)))))"

text \<open>\<open>Guard.__exit__\<close>: the error of the experiment is kept; without one, that of the recovery is raised.\<close>

definition guard_exit :: "exn option \<Rightarrow> recovery res \<Rightarrow> recovery option res" where
  "guard_exit raised r = (case raised of
       None \<Rightarrow> (case r of Inl e \<Rightarrow> Inl e | Inr x \<Rightarrow> Inr (Some x))
     | Some e \<Rightarrow> Inl e)"

section \<open>What happens between entering and recovering\<close>

datatype guard_event =
    Configure "ustr \<Rightarrow> bool" bool sent "(ustr \<times> ustr) list"
  | Workload "bytes list"
  | Restarted ustr "ustr \<Rightarrow> ustr option" "bytes list"

fun guard_step :: "(ustr \<Rightarrow> ustr \<Rightarrow> ustr) \<Rightarrow> guard_event \<Rightarrow> guard \<times> site \<Rightarrow> guard \<times> site" where
  "guard_step canon (Configure up ok outcome settings) gs = snd (configure canon up ok outcome settings gs)"
| "guard_step canon (Workload keys) (g, s) = (g, s\<lparr>st_perf := (st_perf s)\<lparr>pf_keys := keys\<rparr>\<rparr>)"
| "guard_step canon (Restarted i config keys) (g, s) =
     (g, s\<lparr>st_perf := (st_perf s)\<lparr>pf_id := i, pf_config := config, pf_keys := keys\<rparr>\<rparr>)"

section \<open>Owned keys\<close>

lemma unlink_batches_owned:
  "unlink_batches prefix page counts keys = (r, keys') \<Longrightarrow>
   \<exists>gone. keys' = filter (\<lambda>k. k \<notin> gone) keys \<and> (\<forall>k\<in>gone. starts_with prefix k)"
proof (induction prefix page counts keys rule: unlink_batches.induct)
  case (1 prefix page counts keys)
  let ?batch = "take batch_size page"
  show ?case
  proof (cases "page = [] \<or> \<not> list_all (starts_with prefix) ?batch")
    case True
    then show ?thesis using 1(2) by (intro exI [of _ "{}"]) (auto simp: unlink_batches.simps [of prefix page] Let_def split: if_splits)
  next
    case False
    then have rest: "unlink_batches prefix (drop batch_size page)
          (fst counts + length ?batch, snd counts + length (filter (\<lambda>k. k \<in> set ?batch) keys))
          (filter (\<lambda>k. k \<notin> set ?batch) keys) = (r, keys')"
      using 1(2) by (simp add: unlink_batches.simps [of prefix page] Let_def)
    from 1(1) [OF _ refl _ rest] False obtain gone where
      "keys' = filter (\<lambda>k. k \<notin> gone) (filter (\<lambda>k. k \<notin> set ?batch) keys)" "\<forall>k\<in>gone. starts_with prefix k" by blast
    then show ?thesis using False by (intro exI [of _ "gone \<union> set ?batch"]) (auto simp: list_all_iff intro!: filter_cong)
  qed
qed

text \<open>What the scan of unchanging keys returns: the pages until the server answers cursor 0.\<close>

fun scan_pages :: "nat \<Rightarrow> scanner \<Rightarrow> bytes \<Rightarrow> nat \<Rightarrow> bytes list \<Rightarrow> bytes list option" where
  "scan_pages 0 scan prefix cursor keys = None"
| "scan_pages (Suc fuel) scan prefix cursor keys = (case scan cursor prefix keys of (cursor', page) \<Rightarrow>
     if cursor' = 0 then Some page else map_option (\<lambda>rest. page @ rest) (scan_pages fuel scan prefix cursor' keys))"

text \<open>The guarantee of SCAN: a complete iteration returns every element present from start to end.\<close>

definition scan_law :: "scanner \<Rightarrow> bool" where
  "scan_law scan \<longleftrightarrow> (\<forall>fuel prefix keys found. scan_pages fuel scan prefix 0 keys = Some found \<longrightarrow>
     (\<forall>k\<in>set keys. starts_with prefix k \<longrightarrow> k \<in> set found))"

lemma unlink_batches_found:
  "unlink_batches prefix page counts keys = (Inr counts', keys') \<Longrightarrow>
   fst counts' = fst counts + length page"
proof (induction prefix page counts keys rule: unlink_batches.induct)
  case (1 prefix page counts keys)
  show ?case
  proof (cases "page = [] \<or> \<not> list_all (starts_with prefix) (take batch_size page)")
    case True
    then show ?thesis using 1(2) by (auto simp: unlink_batches.simps [of prefix page] Let_def split: if_splits)
  next
    case False
    from 1(2) False have rest: "unlink_batches prefix (drop batch_size page)
          (fst counts + length (take batch_size page), snd counts + length (filter (\<lambda>k. k \<in> set (take batch_size page)) keys))
          (filter (\<lambda>k. k \<notin> set (take batch_size page)) keys) = (Inr counts', keys')"
      by (simp add: unlink_batches.simps [of prefix page] Let_def)
    have "fst counts' = fst counts + length (take batch_size page) + length (drop batch_size page)"
      using 1(1) [OF _ refl _ rest] False by simp
    also have "\<dots> = fst counts + length page" by (simp add: min_def)
    finally show ?thesis .
  qed
qed

lemma unlink_batches_Nil [simp]: "unlink_batches prefix [] counts keys = (Inr counts, keys)"
  by (subst unlink_batches.simps) simp

lemma scan_pass_owned:
  "scan_pass fuel scan prefix cursor counts keys = Some (r, keys') \<Longrightarrow>
   \<exists>gone. keys' = filter (\<lambda>k. k \<notin> gone) keys \<and> (\<forall>k\<in>gone. starts_with prefix k)"
proof (induction fuel arbitrary: cursor counts keys)
  case (Suc fuel)
  obtain cursor' page where sc: "scan cursor prefix keys = (cursor', page)" by fastforce
  obtain r1 keys1 where un: "unlink_batches prefix page counts keys = (r1, keys1)" by fastforce
  from unlink_batches_owned [OF un] obtain gone where gone: "keys1 = filter (\<lambda>k. k \<notin> gone) keys"
    "\<forall>k\<in>gone. starts_with prefix k" by blast
  show ?case
  proof (cases "is_ok r1 \<and> cursor' \<noteq> 0")
    case True
    then obtain counts1 where "r1 = Inr counts1" by (auto simp: is_ok_iff)
    then have "scan_pass fuel scan prefix cursor' counts1 keys1 = Some (r, keys')"
      using Suc.prems True by (simp add: sc un)
    from Suc.IH [OF this] obtain gone' where "keys' = filter (\<lambda>k. k \<notin> gone') keys1" "\<forall>k\<in>gone'. starts_with prefix k" by blast
    then show ?thesis using gone by (intro exI [of _ "gone \<union> gone'"]) (auto intro!: filter_cong)
  next
    case False
    then have "keys' = keys1" using Suc.prems by (cases r1) (auto simp: sc un)
    then show ?thesis using gone by (intro exI [of _ gone]) simp
  qed
qed simp

lemma scan_pass_count: "scan_pass fuel scan prefix cursor counts keys = Some (Inr counts', keys') \<Longrightarrow> fst counts \<le> fst counts'"
proof (induction fuel arbitrary: cursor counts keys)
  case (Suc fuel)
  then show ?case
    by (auto split: prod.splits sum.splits if_splits dest!: unlink_batches_found) (metis fst_conv le_add1 le_trans)
qed simp

lemma scan_pass_empty:
  "scan_pass fuel scan prefix cursor (0, n) keys = Some (Inr (0, n'), keys') \<Longrightarrow>
   scan_pages fuel scan prefix cursor keys = Some [] \<and> keys' = keys \<and> n' = n"
proof (induction fuel arbitrary: cursor)
  case (Suc fuel)
  obtain cursor' page where sc: "scan cursor prefix keys = (cursor', page)" by fastforce
  obtain r1 keys1 where un: "unlink_batches prefix page (0, n) keys = (r1, keys1)" by fastforce
  obtain counts1 where r1: "r1 = Inr counts1" using Suc.prems by (cases r1) (auto simp: sc un)
  have "fst counts1 = 0"
  proof (cases "cursor' = 0")
    case False
    then have "scan_pass fuel scan prefix cursor' counts1 keys1 = Some (Inr (0, n'), keys')" using Suc.prems by (simp add: sc un r1)
    then show ?thesis using scan_pass_count by fastforce
  qed (use Suc.prems in \<open>simp add: sc un r1\<close>)
  then have "page = []" using unlink_batches_found [of prefix page "(0, n)" keys counts1 keys1] un r1 by simp
  with un r1 have k: "keys1 = keys" "counts1 = (0, n)" by simp_all
  have pages: "scan_pages (Suc fuel) scan prefix cursor keys
      = (if cursor' = 0 then Some [] else scan_pages fuel scan prefix cursor' keys)"
    using \<open>page = []\<close> by (cases "scan_pages fuel scan prefix cursor' keys") (simp_all add: sc)
  show ?case
  proof (cases "cursor' = 0")
    case True
    then have "keys' = keys \<and> n' = n" using Suc.prems by (simp add: sc un r1 k)
    then show ?thesis using True pages by (simp del: scan_pages.simps)
  next
    case False
    then have "scan_pages fuel scan prefix cursor' keys = Some [] \<and> keys' = keys \<and> n' = n"
      using Suc.prems by (intro Suc.IH) (simp add: sc un r1 k)
    then show ?thesis using False pages by (simp del: scan_pages.simps)
  qed
qed simp

lemma cleanup_passes_owned:
  "cleanup_passes n fuel scan prefix removed keys = Some (r, keys') \<Longrightarrow>
   (\<exists>gone. keys' = filter (\<lambda>k. k \<notin> gone) keys \<and> (\<forall>k\<in>gone. starts_with prefix k)) \<and>
   (is_ok r \<and> scan_law scan \<longrightarrow> (\<forall>k\<in>set keys'. \<not> starts_with prefix k))"
proof (induction n arbitrary: removed keys)
  case 0
  then show ?case by (auto intro!: exI [of _ "{}"])
next
  case (Suc n)
  obtain r1 keys1 where pass: "scan_pass fuel scan prefix 0 (0, removed) keys = Some (r1, keys1)"
    using Suc.prems by (auto split: option.splits)
  from scan_pass_owned [OF pass] obtain gone where gone: "keys1 = filter (\<lambda>k. k \<notin> gone) keys"
    "\<forall>k\<in>gone. starts_with prefix k" by blast
  consider e where "r1 = Inl e" | removed1 where "r1 = Inr (0, removed1)"
    | found removed1 where "r1 = Inr (found, removed1)" "found \<noteq> 0"
    by (cases r1) (metis old.prod.exhaust)+
  then show ?case
  proof cases
    case 1
    then show ?thesis using Suc.prems gone by (auto simp: pass)
  next
    case 2
    have "scan_pages fuel scan prefix 0 keys = Some [] \<and> keys1 = keys"
      using scan_pass_empty pass 2 by blast
    then have "\<forall>k\<in>set keys1. \<not> starts_with prefix k" if "scan_law scan"
      using that unfolding scan_law_def by fastforce
    then show ?thesis using Suc.prems gone 2 by (auto simp: pass)
  next
    case 3
    then have "cleanup_passes n fuel scan prefix removed1 keys1 = Some (r, keys')" using Suc.prems by (simp add: pass)
    from Suc.IH [OF this] obtain gone' where "keys' = filter (\<lambda>k. k \<notin> gone') keys1" "\<forall>k\<in>gone'. starts_with prefix k"
      "is_ok r \<and> scan_law scan \<longrightarrow> (\<forall>k\<in>set keys'. \<not> starts_with prefix k)" by blast
    then show ?thesis using gone by (intro conjI exI [of _ "gone \<union> gone'"]) (auto intro!: filter_cong)
  qed
qed

section \<open>The journal covers every change\<close>

definition covers :: "(ustr \<Rightarrow> ustr option) \<Rightarrow> ustr \<Rightarrow> guard \<times> site \<Rightarrow> bool" where
  "covers config server gs \<longleftrightarrow> (case gs of (g, s) \<Rightarrow>
     gd_server g = server \<and> is_ok (owned_prefix (gd_prefix g)) \<and>
     (\<exists>j. st_journal s = Some j \<and> jo_server j = server \<and> jo_prefix j = gd_prefix g \<and>
        set (map fst (jo_config j)) \<subseteq> set config_allow \<and> set (jo_config j) \<subseteq> set (gd_original g) \<and>
        (pf_id (st_perf s) = server \<longrightarrow>
           (\<forall>(k, v)\<in>set (gd_original g). config k = Some v) \<and>
           (\<forall>k. k \<notin> fst ` set (jo_config j) \<longrightarrow> pf_config (st_perf s) k = config k))) \<and>
     set (map fst (gd_original g)) \<subseteq> set config_allow)"

lemma read_originals_cases:
  obtains (known) "k \<in> fst ` set original" "read_originals up p (k # ks) original = read_originals up p ks original"
    | (failed) e where "read_originals up p (k # ks) original = (Some e, original)"
    | (read) v where "k \<notin> fst ` set original" "pf_config p k = Some v"
        "read_originals up p (k # ks) original = read_originals up p ks (original @ [(k, v)])"
  by (cases "pf_config p k"; cases "k \<in> fst ` set original"; cases "up k") simp_all

lemma read_originals_grows:
  "read_originals up p ks original = (e, original') \<Longrightarrow>
   set original \<subseteq> set original' \<and> set (map fst original') \<subseteq> set (map fst original) \<union> set ks \<and>
   (e = None \<longrightarrow> set ks \<subseteq> fst ` set original')"
proof (induction ks arbitrary: original)
  case (Cons k ks)
  show ?case
  proof (cases rule: read_originals_cases [of k original up p ks])
    case known
    with Cons.IH [of original] Cons.prems show ?thesis by auto
  next
    case (read v)
    with Cons.IH [of "original @ [(k, v)]"] Cons.prems have
      "set (original @ [(k, v)]) \<subseteq> set original'" "set (map fst original') \<subseteq> set (map fst (original @ [(k, v)])) \<union> set ks"
      "e = None \<longrightarrow> set ks \<subseteq> fst ` set original'" by simp_all
    moreover from this(1) have "k \<in> fst ` set original'" by (auto intro: rev_image_eqI)
    ultimately show ?thesis by auto
  qed (use Cons.prems in auto)
qed simp

lemma read_originals_values:
  "read_originals up p ks original = (e, original') \<Longrightarrow>
   (\<And>k. k \<notin> fst ` set original \<Longrightarrow> pf_config p k = config k) \<Longrightarrow>
   (\<forall>(k, v)\<in>set original. config k = Some v) \<Longrightarrow> (\<forall>(k, v)\<in>set original'. config k = Some v)"
proof (induction ks arbitrary: original)
  case (Cons k ks)
  show ?case
  proof (cases rule: read_originals_cases [of k original up p ks])
    case known
    with Cons show ?thesis by simp
  next
    case (failed e)
    with Cons.prems show ?thesis by simp
  next
    case (read v)
    then have "read_originals up p ks (original @ [(k, v)]) = (e, original')" using Cons.prems(1) by simp
    moreover have "config k = Some v" using Cons.prems(2) [OF read(1)] read(2) by simp
    ultimately show ?thesis using Cons.IH [of "original @ [(k, v)]"] Cons.prems(2,3) by auto
  qed
qed simp

lemma covers_configure:
  assumes "covers config server gs"
  shows "covers config server (snd (configure canon up ok outcome settings gs))"
proof (cases gs)
  case (Pair g s)
  then obtain j where g: "gd_server g = server" "is_ok (owned_prefix (gd_prefix g))"
      "set (map fst (gd_original g)) \<subseteq> set config_allow"
    and j: "st_journal s = Some j" "jo_server j = server" "jo_prefix j = gd_prefix g"
      "set (map fst (jo_config j)) \<subseteq> set config_allow" "set (jo_config j) \<subseteq> set (gd_original g)"
    and same: "pf_id (st_perf s) = server \<Longrightarrow> (\<forall>(k, v)\<in>set (gd_original g). config k = Some v)"
      "\<And>k. pf_id (st_perf s) = server \<Longrightarrow> k \<notin> fst ` set (jo_config j) \<Longrightarrow> pf_config (st_perf s) k = config k"
    using assms by (auto simp: covers_def)
  show ?thesis
  proof (cases "set (map fst settings) \<subseteq> set config_allow")
    case False
    then show ?thesis using assms Pair by (simp add: configure_def)
  next
    case True
    obtain e original where ro: "read_originals up (st_perf s) (map fst settings) (gd_original g) = (e, original)" by fastforce
    note ro_grows = read_originals_grows [OF this]
    have grow: "set (gd_original g) \<subseteq> set original" "set (map fst original) \<subseteq> set config_allow"
      "e = None \<Longrightarrow> fst ` set settings \<subseteq> fst ` set original"
      using ro_grows True g(3) by (simp, blast, simp)
    have keep: "(\<forall>(k, v)\<in>set original. config k = Some v)" if "pf_id (st_perf s) = server"
    proof (rule read_originals_values [OF ro _ same(1) [OF that]])
      fix k assume "k \<notin> fst ` set (gd_original g)"
      then have "k \<notin> fst ` set (jo_config j)" using j(5) by auto
      with that show "pf_config (st_perf s) k = config k" by (rule same(2))
    qed
    have old: "covers config server (g\<lparr>gd_original := original\<rparr>, s)"
      unfolding covers_def using g j grow(1,2) keep same(2) by auto
    show ?thesis
    proof (cases "e = None \<and> ok")
      case False
      then have "snd (configure canon up ok outcome settings gs) = (g\<lparr>gd_original := original\<rparr>, s)"
        using True ro Pair by (auto simp: configure_def split: option.splits)
      with old show ?thesis by simp
    next
      case ready: True
      let ?g = "g\<lparr>gd_original := original\<rparr>"
      let ?s1 = "persist True ?g s"
      let ?p = "if applied outcome then config_set canon settings (st_perf s) else st_perf s"
      have out: "snd (configure canon up ok outcome settings gs) = (?g, ?s1\<lparr>st_perf := ?p\<rparr>)"
        using True ro Pair ready by (simp add: configure_def Let_def persist_def)
      have "pf_config ?p k = config k" if "pf_id (st_perf s) = server" "k \<notin> fst ` set original" for k
      proof -
        have "k \<notin> fst ` set settings" using that(2) grow(3) ready by auto
        then have "map_of settings k = None" by (simp add: map_of_eq_None_iff)
        moreover have "k \<notin> fst ` set (jo_config j)" using that(2) grow(1) j(5) by auto
        ultimately show ?thesis using same(2) [OF that(1)] by (simp add: config_set_def)
      qed
      moreover have "pf_id ?p = pf_id (st_perf s)" by (simp add: config_set_def)
      ultimately show ?thesis using g grow(2) keep by (auto simp: out covers_def persist_def)
    qed
  qed
qed

definition event_valid :: "ustr \<Rightarrow> guard_event \<Rightarrow> bool" where
  "event_valid server e = (case e of Restarted i _ _ \<Rightarrow> i \<noteq> server | _ \<Rightarrow> True)"

lemma covers_step: "covers config server gs \<Longrightarrow> event_valid server e \<Longrightarrow> covers config server (guard_step canon e gs)"
proof (cases e)
  case (Workload keys)
  assume "covers config server gs"
  then show ?thesis by (cases gs) (auto simp: covers_def Workload)
next
  case (Restarted i config' keys)
  assume "covers config server gs" "event_valid server e"
  then show ?thesis by (cases gs) (auto simp: covers_def Restarted event_valid_def)
qed (simp add: covers_configure)

lemma covers_steps:
  "covers config server gs \<Longrightarrow> list_all (event_valid server) es \<Longrightarrow> covers config server (fold (guard_step canon) es gs)"
  by (induction es arbitrary: gs) (simp_all add: covers_step)

lemma enter_covers:
  assumes "enter busy report ok s = (Inr g, s')"
  shows "covers (pf_config (st_perf s)) (pf_id (st_perf s)) (g, s') \<and> pf_id (st_perf s') = pf_id (st_perf s)"
proof -
  obtain prefix where prefix: "owned_prefix (u ''ops:'' @ report @ u '':'') = Inr prefix"
    using assms by (cases "owned_prefix (u ''ops:'' @ report @ u '':'')") (auto simp: enter_def)
  then have "prefix = u ''ops:'' @ report @ u '':''" by (simp add: owned_prefix_def split: if_splits)
  with prefix have "owned_prefix prefix = Inr prefix" by simp
  then show ?thesis using assms prefix
    by (auto simp: enter_def covers_def persist_def Let_def split: if_splits)
qed

lemma configure_prefix: "configure canon up ok outcome settings (g, s) = (e, g', s') \<Longrightarrow> gd_prefix g' = gd_prefix g"
  by (auto simp: configure_def Let_def split: if_splits prod.splits option.splits)

lemma step_prefix: "gd_prefix (fst (guard_step canon e gs)) = gd_prefix (fst gs)"
proof (cases e; cases gs)
  fix up ok outcome settings g s
  assume "e = Configure up ok outcome settings" "gs = (g, s)"
  then show ?thesis using configure_prefix [of canon up ok outcome settings g s] by (metis fst_conv guard_step.simps(1) prod.collapse)
qed simp_all

lemma guard_prefix: "fold (guard_step canon) es (g, s) = (g', s') \<Longrightarrow> gd_prefix g' = gd_prefix g"
proof -
  have "gd_prefix (fst (fold (guard_step canon) es gs)) = gd_prefix (fst gs)" for gs
    by (induction es arbitrary: gs) (simp_all add: step_prefix)
  from this [of "(g, s)"] show "fold (guard_step canon) es (g, s) = (g', s') \<Longrightarrow> gd_prefix g' = gd_prefix g" by simp
qed

lemma recover_found:
  assumes "recover_journal canon scan fuel busy outcome pong s = Some (Inr r, s')" "st_journal s = Some j"
  shows "\<exists>keys n. re_pending r \<and> re_removed r = n \<and> re_restored r = (pf_id (st_perf s) = jo_server j) \<and>
    cleanup fuel scan (jo_prefix j) (pf_keys (st_perf s)) = Some (Inr n, keys) \<and>
    st_journal s' = None \<and> pf_keys (st_perf s') = keys \<and> pf_id (st_perf s') = pf_id (st_perf s) \<and>
    (if re_restored r \<and> jo_config j \<noteq> []
     then (\<forall>k. k \<notin> fst ` set (jo_config j) \<longrightarrow> pf_config (st_perf s') k = pf_config (st_perf s) k) \<and>
       (\<forall>(k, v)\<in>set (jo_config j). pf_config (st_perf s') k = Some v)
     else pf_config (st_perf s') = pf_config (st_perf s))"
proof -
  let ?restore = "pf_id (st_perf s) = jo_server j \<and> jo_config j \<noteq> []"
  let ?s1 = "if ?restore \<and> applied outcome then s\<lparr>st_perf := config_set canon (jo_config j) (st_perf s)\<rparr> else s"
  obtain prefix where prefix: "owned_prefix (jo_prefix j) = Inr prefix"
    using assms by (cases "owned_prefix (jo_prefix j)") (auto simp: recover_journal_def split: if_splits)
  then have same: "prefix = jo_prefix j" by (simp add: owned_prefix_def split: if_splits)
  have ok: "\<not> busy" "?restore \<Longrightarrow> outcome = Answered"
    "?restore \<Longrightarrow> list_all (\<lambda>(k, v). pf_config (st_perf ?s1) k = Some v) (jo_config j)"
    using assms prefix by (auto simp: recover_journal_def Let_def split: if_splits)
  have keys1: "pf_keys (st_perf ?s1) = pf_keys (st_perf s)" by (simp add: config_set_def)
  obtain res keys where clean: "cleanup fuel scan (jo_prefix j) (pf_keys (st_perf s)) = Some (res, keys)"
    using assms ok prefix same keys1 by (cases "cleanup fuel scan (jo_prefix j) (pf_keys (st_perf s))")
      (auto simp: recover_journal_def Let_def split: if_splits)
  have fin: "recover_journal canon scan fuel busy outcome pong s = (case res of
       Inl e \<Rightarrow> Some (Inl e, ?s1\<lparr>st_perf := (st_perf ?s1)\<lparr>pf_keys := keys\<rparr>\<rparr>)
     | Inr n \<Rightarrow> if \<not> pong then Some (Inl (Runtime_Error ''PING after recovery failed''), ?s1\<lparr>st_perf := (st_perf ?s1)\<lparr>pf_keys := keys\<rparr>\<rparr>)
         else Some (Inr \<lparr>re_restored = (pf_id (st_perf s) = jo_server j), re_removed = n, re_pending = True\<rparr>,
           ?s1\<lparr>st_perf := (st_perf ?s1)\<lparr>pf_keys := keys\<rparr>, st_journal := None\<rparr>))"
  proof (cases ?restore)
    case True
    then have "outcome = Answered" "applied outcome" using ok(2) by (simp_all add: applied_def)
    then show ?thesis using True assms ok(1,3) prefix same clean keys1
      by (cases res; cases pong) (simp_all add: recover_journal_def Let_def split: if_splits)
  next
    case False
    then have e: "?s1 = s" by auto
    show ?thesis unfolding e using False assms ok(1) prefix same clean
      by (cases res; cases pong) (simp_all add: recover_journal_def Let_def split: if_splits)
  qed
  then obtain n where n: "res = Inr n" "pong" using assms(1) by (cases res; cases pong) auto
  have s': "r = \<lparr>re_restored = (pf_id (st_perf s) = jo_server j), re_removed = n, re_pending = True\<rparr>"
    "s' = ?s1\<lparr>st_perf := (st_perf ?s1)\<lparr>pf_keys := keys\<rparr>, st_journal := None\<rparr>"
    using fin assms(1) n by simp_all
  have vals: "\<forall>(k, v)\<in>set (jo_config j). pf_config (st_perf ?s1) k = Some v" if ?restore
    using ok(3) [OF that] by (simp add: list_all_iff)
  have other: "\<forall>k. k \<notin> fst ` set (jo_config j) \<longrightarrow> pf_config (st_perf ?s1) k = pf_config (st_perf s) k"
    by (simp add: config_set_def map_of_eq_None_iff [THEN iffD2])
  have cfg: "pf_config (st_perf s') = pf_config (st_perf ?s1)" by (simp add: s')
  have conf: "if ?restore then (\<forall>k. k \<notin> fst ` set (jo_config j) \<longrightarrow> pf_config (st_perf s') k = pf_config (st_perf s) k) \<and>
       (\<forall>(k, v)\<in>set (jo_config j). pf_config (st_perf s') k = Some v)
     else pf_config (st_perf s') = pf_config (st_perf s)"
  proof (cases ?restore)
    case True
    show ?thesis unfolding cfg if_P [OF True] using vals [OF True] other by blast
  next
    case False
    then have "?s1 = s" by auto
    then show ?thesis unfolding cfg if_not_P [OF False] by simp
  qed
  have "pf_id (st_perf s') = pf_id (st_perf s)" "pf_keys (st_perf s') = keys" "st_journal s' = None"
    "re_pending r" "re_removed r = n" "re_restored r = (pf_id (st_perf s) = jo_server j)"
    by (simp_all add: s' config_set_def)
  then show ?thesis using clean n conf by (intro exI [of _ keys] exI [of _ n]) simp
qed

text \<open>C21: Recovery undoes an experiment. After an experiment entered its guard, made any number of configuration
  changes (with answers lost, journal writes failing, the process killed in between), wrote any keys and had
  the server restarted any number of times, a recovery that returns has removed the journal and deleted keys of the
  experiment's own prefix only, all of them; on the same server process every setting has the value it had before the
  experiment, and on a restarted one no stale setting is applied.\<close>

theorem recovery_undoes_experiment:
  assumes "enter busy report True s0 = (Inr g, s1)" "list_all (event_valid (pf_id (st_perf s0))) events"
    and "fold (guard_step canon) events (g, s1) = (g', s)"
    and "recover_journal canon scan fuel False outcome pong s = Some (Inr r, s')" "scan_law scan"
  shows "st_journal s' = None
    \<and> (if pf_id (st_perf s) = pf_id (st_perf s0) then pf_config (st_perf s') = pf_config (st_perf s0)
       else pf_config (st_perf s') = pf_config (st_perf s))
    \<and> pf_keys (st_perf s') = filter (\<lambda>k. \<not> starts_with (utf8 (gd_prefix g)) k) (pf_keys (st_perf s))"
proof -
  let ?config = "pf_config (st_perf s0)" and ?server = "pf_id (st_perf s0)"
  have "covers ?config ?server (g', s)"
    using covers_steps [OF conjunct1 [OF enter_covers [OF assms(1)]] assms(2)] assms(3) by metis
  then obtain j where j: "st_journal s = Some j" "jo_server j = ?server" "jo_prefix j = gd_prefix g'"
      "is_ok (owned_prefix (gd_prefix g'))" "set (jo_config j) \<subseteq> set (gd_original g')"
    and same: "pf_id (st_perf s) = ?server \<Longrightarrow> \<forall>(k, v)\<in>set (gd_original g'). ?config k = Some v"
      "\<And>k. pf_id (st_perf s) = ?server \<Longrightarrow> k \<notin> fst ` set (jo_config j) \<Longrightarrow> pf_config (st_perf s) k = ?config k"
    by (auto simp: covers_def)
  have prefix: "gd_prefix g' = gd_prefix g" using assms(3) by (rule guard_prefix)
  from recover_found [OF assms(4) j(1)] obtain keys n where r: "re_restored r = (pf_id (st_perf s) = ?server)"
      "cleanup fuel scan (jo_prefix j) (pf_keys (st_perf s)) = Some (Inr n, keys)" "st_journal s' = None" "pf_keys (st_perf s') = keys"
    and config: "if re_restored r \<and> jo_config j \<noteq> []
     then (\<forall>k. k \<notin> fst ` set (jo_config j) \<longrightarrow> pf_config (st_perf s') k = pf_config (st_perf s) k) \<and>
       (\<forall>(k, v)\<in>set (jo_config j). pf_config (st_perf s') k = Some v)
     else pf_config (st_perf s') = pf_config (st_perf s)"
    using j(2) by auto
  have restored: "pf_config (st_perf s') k = ?config k" if server: "pf_id (st_perf s) = ?server" for k
  proof (cases "k \<in> fst ` set (jo_config j)")
    case True
    then obtain v where "(k, v) \<in> set (jo_config j)" by auto
    moreover have "?config k = Some v" if "(k, v) \<in> set (jo_config j)" for v using that same(1) [OF server] j(5) by auto
    moreover have "\<forall>(k, v)\<in>set (jo_config j). pf_config (st_perf s') k = Some v"
      using config server r(1) True by (cases "jo_config j = []") simp_all
    ultimately show ?thesis by fastforce
  next
    case False
    with config same(2) [OF server] show ?thesis by (auto split: if_splits)
  qed
  obtain p where p: "owned_prefix (gd_prefix g') = Inr p" using j(4) by (auto simp: is_ok_iff)
  then have "p = gd_prefix g" by (simp add: prefix owned_prefix_def split: if_splits)
  then have "cleanup_passes 4 fuel scan (utf8 (gd_prefix g)) 0 (pf_keys (st_perf s)) = Some (Inr n, keys)"
    using r(2) j(3) p prefix by (simp add: cleanup_def)
  from cleanup_passes_owned [OF this] assms(5) obtain gone where
    gone: "keys = filter (\<lambda>k. k \<notin> gone) (pf_keys (st_perf s))" "\<forall>k\<in>gone. starts_with (utf8 (gd_prefix g)) k"
    "\<forall>k\<in>set keys. \<not> starts_with (utf8 (gd_prefix g)) k" by auto
  then have "keys = filter (\<lambda>k. \<not> starts_with (utf8 (gd_prefix g)) k) (pf_keys (st_perf s))"
    by (auto intro!: filter_cong)
  then show ?thesis using r restored config by (auto split: if_splits)
qed

definition whole_scan :: scanner where
  "whole_scan cursor prefix keys = (0, filter (starts_with prefix) keys)"

lemma whole_scan_pages: "scan_pages fuel whole_scan prefix 0 keys = Some found \<Longrightarrow> found = filter (starts_with prefix) keys"
  by (cases fuel) (simp_all add: whole_scan_def)

lemma whole_scan_law: "scan_law whole_scan"
  unfolding scan_law_def by (auto dest!: whole_scan_pages)

definition sample_perf :: perf where
  "sample_perf = \<lparr>pf_id = u ''r1'', pf_role = u ''master'', pf_slaves = 0, pf_memory = 1000,
     pf_config = [u ''hz'' \<mapsto> u ''10''], pf_keys = []\<rparr>"

text \<open>A change whose answer is lost after it was applied, and two keys of which one is the experiment's.\<close>

definition sample_events :: "guard_event list" where
  "sample_events = [Configure (\<lambda>_. True) True (Lost True) [(u ''hz'', u ''100'')],
     Workload [utf8 (u ''ops:20250101-x:a''), utf8 (u ''app:1'')]]"

theorem recovery_undoes_experiment_witness:
  "\<exists>s s' r. snd (fold (guard_step (\<lambda>_ v. v)) sample_events (\<lparr>gd_prefix = u ''ops:20250101-x:'', gd_original = [], gd_server = u ''r1''\<rparr>,
        \<lparr>st_perf = sample_perf, st_journal = Some \<lparr>jo_server = u ''r1'', jo_prefix = u ''ops:20250101-x:'', jo_config = []\<rparr>\<rparr>)) = s
    \<and> pf_config (st_perf s) (u ''hz'') = Some (u ''100'')
    \<and> recover_journal (\<lambda>_ v. v) whole_scan 5 False Answered True s = Some (Inr r, s')
    \<and> pf_config (st_perf s') = pf_config sample_perf"
proof -
  let ?g = "\<lparr>gd_prefix = u ''ops:20250101-x:'', gd_original = [], gd_server = u ''r1''\<rparr>"
  let ?s0 = "\<lparr>st_perf = sample_perf, st_journal = None\<rparr>"
  let ?j = "\<lparr>jo_server = u ''r1'', jo_prefix = u ''ops:20250101-x:'', jo_config = []\<rparr>"
  let ?s1 = "\<lparr>st_perf = sample_perf, st_journal = Some ?j\<rparr>"
  have prefix: "owned_prefix (u ''ops:20250101-x:'') = Inr (u ''ops:20250101-x:'')"
    by (simp add: owned_prefix_def class_match_def prefix_char_def is_alnum_def is_digit_def is_lower_def is_upper_def u_def starts_with_def)
  have enter: "enter False (u ''20250101-x'') True ?s0 = (Inr ?g, ?s1)"
    using prefix by (simp add: enter_def persist_def sample_perf_def Let_def flip: u_append)
  let ?keys = "[utf8 (u ''ops:20250101-x:a''), utf8 (u ''app:1'')]"
  let ?g2 = "?g\<lparr>gd_original := [(u ''hz'', u ''10'')]\<rparr>"
  let ?j2 = "?j\<lparr>jo_config := [(u ''hz'', u ''10'')]\<rparr>"
  let ?s2 = "\<lparr>st_perf = sample_perf\<lparr>pf_config := (pf_config sample_perf)(u ''hz'' \<mapsto> u ''100''), pf_keys := ?keys\<rparr>, st_journal = Some ?j2\<rparr>"
  have run: "fold (guard_step (\<lambda>_ v. v)) sample_events (?g, ?s1) = (?g2, ?s2)"
    by (simp add: sample_events_def configure_def config_allow_def sample_perf_def persist_def config_set_def applied_def Let_def fun_eq_iff)
  have starts: "starts_with (utf8 (u ''ops:20250101-x:'')) (utf8 (u ''ops:20250101-x:a''))"
    "\<not> starts_with (utf8 (u ''ops:20250101-x:'')) (utf8 (u ''app:1''))"
    by (simp_all add: starts_with_def utf8_def utf8_char_def u_def)
  obtain r s' where rec: "recover_journal (\<lambda>_ v. v) whole_scan 5 False Answered True ?s2 = Some (Inr r, s')"
    by (simp add: recover_journal_def prefix config_allow_def sample_perf_def config_set_def applied_def Let_def cleanup_def
        numeral_eq_Suc whole_scan_def starts unlink_batches.simps batch_size_def)
  from recovery_undoes_experiment [OF enter _ run rec whole_scan_law]
  have "pf_config (st_perf s') = pf_config sample_perf"
    by (simp add: sample_events_def event_valid_def sample_perf_def)
  then show ?thesis using run rec by (intro exI [of _ ?s2] exI [of _ s'] exI [of _ r]) simp
qed

section \<open>Quantiles\<close>

definition expand :: "('k \<times> nat) list \<Rightarrow> 'k list" where
  "expand bs = concat (map (\<lambda>(i, c). replicate c i) bs)"

lemma mset_expand_bump: "mset (expand (bump i bs)) = add_mset i (mset (expand bs))"
  by (induction i bs rule: bump.induct) (auto simp: expand_def)

lemma mset_expand_sort: "mset (expand (sort_key fst bs)) = mset (expand bs)"
proof -
  have "mset (expand bs) = (\<Sum>b\<in>#mset bs. mset (replicate (snd b) (fst b)))" for bs :: "('a :: linorder \<times> nat) list"
    by (induction bs) (auto simp: expand_def)
  then show ?thesis by simp
qed

lemma sorted_expand: "sorted (map fst bs) \<Longrightarrow> sorted (expand bs)"
  by (induction bs) (auto simp: expand_def sorted_append)

lemma walk_expand:
  "int n < rank \<Longrightarrow> rank \<le> int (n + length (expand bs)) \<Longrightarrow> walk rank n bs = Some (expand bs ! nat (rank - int n - 1))"
proof (induction bs arbitrary: n)
  case (Cons b bs)
  obtain i c where b: "b = (i, c)" by fastforce
  show ?case
  proof (cases "rank \<le> int (n + c)")
    case True
    then show ?thesis using Cons.prems by (simp add: b expand_def nth_append nat_less_iff)
  next
    case False
    then have "walk rank (n + c) bs = Some (expand bs ! nat (rank - int (n + c) - 1))"
      using Cons.prems by (intro Cons.IH) (simp_all add: b expand_def)
    moreover have "nat (rank - int (n + c) - 1) = nat (rank - int n - 1) - c" "\<not> nat (rank - int n - 1) < c"
      using False by linarith+
    ultimately show ?thesis using False by (simp add: b expand_def nth_append)
  qed
qed (simp add: expand_def)

definition bucket :: "(rat \<Rightarrow> int) \<Rightarrow> rat \<Rightarrow> int" where
  "bucket cell x = (if x = 0 then 0 else cell x)"

definition hist_of :: "(rat \<Rightarrow> int) \<Rightarrow> rat list \<Rightarrow> hist res" where
  "hist_of cell xs = foldl (\<lambda>r x. bind_res r (hist_add cell (Some x))) (Inr hist_empty) xs"

lemma hist_of_adds:
  "list_all (\<lambda>x. 0 \<le> x) xs \<Longrightarrow> \<exists>h. hist_of cell xs = Inr h \<and> hi_n h = length xs \<and>
     mset (expand (hi_buckets h)) = mset (map (bucket cell) xs)"
proof (induction xs rule: rev_induct)
  case Nil
  then show ?case by (simp add: hist_of_def hist_empty_def expand_def)
next
  case (snoc x xs)
  then obtain h where h: "hist_of cell xs = Inr h" "hi_n h = length xs" "mset (expand (hi_buckets h)) = mset (map (bucket cell) xs)"
    by auto
  then show ?case using snoc.prems by (auto simp: hist_of_def hist_add_def mset_expand_bump bucket_def [abs_def])
qed

text \<open>A percentile of the histogram is an order statistic of the samples. After any sequence of latencies the
  answer is the upper bound of the bucket of the rank-th smallest one, which is what sorting every
  sample's bucket and indexing gives; the counters lose nothing but the position inside a bucket.\<close>

theorem percentile_is_order_statistic:
  assumes "list_all (\<lambda>x. 0 \<le> x) xs" "xs \<noteq> []" "rank_of fl (length xs) p \<le> int (length xs)"
  shows "\<exists>h. hist_of cell xs = Inr h \<and>
    percentile fl upper p h = Some (upper (sort (map (bucket cell) xs) ! nat (rank_of fl (length xs) p - 1)))"
proof -
  obtain h where h: "hist_of cell xs = Inr h" "hi_n h = length xs" "mset (expand (hi_buckets h)) = mset (map (bucket cell) xs)"
    using hist_of_adds [OF assms(1)] by blast
  let ?sorted = "expand (sort_key fst (hi_buckets h))"
  have "mset ?sorted = mset (map (bucket cell) xs)" using h(3) by (simp add: mset_expand_sort)
  then have eq: "?sorted = sort (map (bucket cell) xs)"
    by (metis properties_for_sort sorted_expand sorted_sort_key)
  have "0 < rank_of fl (length xs) p" by (simp add: rank_of_def)
  then have "walk (rank_of fl (length xs) p) 0 (sort_key fst (hi_buckets h)) = Some (?sorted ! nat (rank_of fl (length xs) p - int 0 - 1))"
    using assms(3) by (intro walk_expand) (simp_all add: eq)
  then show ?thesis using h(1,2) assms(2) by (simp add: percentile_def eq)
qed

theorem percentile_is_order_statistic_witness:
  "\<exists>h. hist_of ceiling [5, 0, 1 / 2, 5] = Inr h \<and> percentile id of_int (1 / 2) h = Some 1"
proof -
  have "\<lceil>1 / 2 :: rat\<rceil> = 1" by (rule ceiling_unique) simp_all
  then have "sort (map (bucket ceiling) [5, 0, 1 / 2, 5 :: rat]) = [0, 1, 5, 5]" by (simp add: bucket_def)
  then show ?thesis using percentile_is_order_statistic [of "[5, 0, 1 / 2, 5]" id "1 / 2" ceiling of_int]
    by (simp add: rank_of_def)
qed

end
