(* ===== verification/Http_Policy.thy ===== *)
theory Http_Policy
  imports Core_Orders Wire
begin

text \<open>
  \<open>mvp-lab/mvp_app/http_policy.py\<close>: the checks of the request headers, the strict JSON decoder and
  the server that refuses a connection when all its slots are taken. \<open>urlsplit\<close> is an argument
  (\<open>None\<close> when it or the port raises a \<open>ValueError\<close>), as is the scanner of the JSON grammar.
\<close>

section \<open>Headers\<close>

record headers =
  hd_all :: "string \<Rightarrow> ustr list"
  hd_content_type :: ustr

record url_parts =
  up_hostname :: "ustr option"
  up_username :: "ustr option"
  up_password :: "ustr option"
  up_path :: ustr
  up_query :: ustr
  up_fragment :: ustr
  up_port :: "int option"

definition local_names :: "ustr list" where
  "local_names = map u [''localhost'', ''127.0.0.1'', ''::1'']"

definition host_valid :: "(ustr \<Rightarrow> url_parts option) \<Rightarrow> ustr \<Rightarrow> bool" where
  "host_valid urlsplit host = (case urlsplit (u ''//'' @ host) of None \<Rightarrow> False
     | Some p \<Rightarrow> up_hostname p \<in> Some ` set local_names \<and> up_username p = None \<and> up_password p = None
         \<and> up_path p = [] \<and> up_query p = [] \<and> up_fragment p = [] \<and> \<not> list_ex py_space host
         \<and> (case up_port p of None \<Rightarrow> True | Some n \<Rightarrow> 1 \<le> n \<and> n \<le> 65535))"

definition local_host :: "(ustr \<Rightarrow> url_parts option) \<Rightarrow> headers \<Rightarrow> ustr res" where
  "local_host urlsplit hs = (case hd_all hs ''Host'' of
       [host] \<Rightarrow>
         if \<not> host_valid urlsplit host then Inl (Problem 403 ''local_host_only_use_ssh_tunnel'')
         else if 1 < length (hd_all hs ''Idempotency-Key'') then Inl (Problem 400 ''single_idempotency_key_required'')
         else Inr host
     | _ \<Rightarrow> Inl (Problem 400 ''single_host_header_required''))"

definition max_body :: int where "max_body = 16384"

definition json_body_length :: "headers \<Rightarrow> int res" where
  "json_body_length hs =
     (if hd_all hs ''Transfer-Encoding'' \<noteq> [] then Inl (Problem 400 ''chunked_body_not_supported'')
      else if hd_content_type hs \<noteq> u ''application/json'' then Inl (Problem 415 ''application_json_required'')
      else case hd_all hs ''Content-Length'' of
          [s] \<Rightarrow> if s = [] \<or> \<not> list_all is_digit s then Inl (Problem 400 ''invalid_content_length'')
            else if 0 < decimal s \<and> decimal s \<le> max_body then Inr (decimal s)
            else Inl (Problem 413 ''body_must_be_1_to_16384_bytes'')
        | _ \<Rightarrow> Inl (Problem 400 ''invalid_content_length''))"

section \<open>Bodies\<close>

text \<open>\<open>validate\<close> returns rather than raises.\<close>

fun validate_json :: "nat \<Rightarrow> pv \<Rightarrow> bool" where
  "validate_json depth v = (depth \<le> 16 \<and> (case v of
       PNonFinite \<Rightarrow> False
     | PStr s \<Rightarrow> utf8_encodable s
     | PDict d \<Rightarrow> list_all (\<lambda>(k, w). depth + 1 \<le> 16 \<and> utf8_encodable k \<and> validate_json (depth + 1) w) d
     | PList vs \<Rightarrow> list_all (validate_json (depth + 1)) vs
     | _ \<Rightarrow> True))"

definition decode_json :: "scanner \<Rightarrow> bytes \<Rightarrow> pv res" where
  "decode_json scan raw =
     (case loads_hooked (Value_Error ''duplicate JSON key'') (Value_Error ''non-finite JSON number'')
         (Value_Error ''JSONDecodeError'') (scan raw) of
        Inl e \<Rightarrow> Inl (Problem 400 ''invalid_json'')
      | Inr v \<Rightarrow> if validate_json 0 v then Inr v else Inl (Problem 400 ''invalid_json''))"

definition body_fields :: "pv \<Rightarrow> string list \<Rightarrow> unit res" where
  "body_fields data allowed = (case data of
       PDict d \<Rightarrow> if fst ` set d \<subseteq> u ` set allowed then Inr () else Inl (Problem 400 ''unexpected_request_fields'')
     | _ \<Rightarrow> Inl (Problem 400 ''json_object_required''))"

section \<open>The bounded server\<close>

text \<open>The free slots, the requests a thread serves, and those answered with 503 (\<open>sent\<close>: the peer took it).\<close>

record 'r server =
  sv_free :: nat
  sv_active :: "'r list"
  sv_refused :: "('r \<times> bool) list"

definition bounded_server :: "int \<Rightarrow> 'r server res" where
  "bounded_server n = (if 1 \<le> n \<and> n \<le> 64 then Inr \<lparr>sv_free = nat n, sv_active = [], sv_refused = []\<rparr>
     else Inl (Value_Error ''max_connections must be 1..64''))"

text \<open>\<open>started\<close>: the thread of the request could be started.\<close>

definition process_request :: "bool \<Rightarrow> bool \<Rightarrow> 'r \<Rightarrow> 'r server \<Rightarrow> unit res \<times> 'r server" where
  "process_request sent started r s =
     (if sv_free s = 0 then (Inr (), s\<lparr>sv_refused := sv_refused s @ [(r, sent)]\<rparr>)
      else let s1 = s\<lparr>sv_free := sv_free s - 1\<rparr> in
        if started then (Inr (), s1\<lparr>sv_active := sv_active s1 @ [r]\<rparr>)
        else (Inl (Runtime_Error ''can't start new thread''), s1\<lparr>sv_free := sv_free s1 + 1\<rparr>))"

text \<open>The thread of a request ends, with or without an exception.\<close>

definition request_done :: "'r \<Rightarrow> 'r server \<Rightarrow> 'r server" where
  "request_done r s = s\<lparr>sv_active := remove1 r (sv_active s), sv_free := sv_free s + 1\<rparr>"

inductive served :: "nat \<Rightarrow> 'r server \<Rightarrow> bool" for n where
  opened: "bounded_server (int n) = Inr s \<Longrightarrow> served n s"
| arrived: "served n s \<Longrightarrow> served n (snd (process_request sent started r s))"
| finished: "served n s \<Longrightarrow> r \<in> set (sv_active s) \<Longrightarrow> served n (request_done r s)"

lemma served_slots: "served n s \<Longrightarrow> sv_free s + length (sv_active s) = n"
proof (induction rule: served.induct)
  case (opened s)
  then show ?case by (auto simp: bounded_server_def split: if_splits)
next
  case (arrived s sent started r)
  then show ?case by (auto simp: process_request_def Let_def)
next
  case (finished s r)
  then have "length (remove1 r (sv_active s)) + 1 = length (sv_active s)"
    using length_pos_if_in_set [of r "sv_active s"] by (simp add: length_remove1)
  with finished show ?case by (simp add: request_done_def)
qed

lemma served_limit: "served n s \<Longrightarrow> 1 \<le> n \<and> n \<le> 64"
  by (induction rule: served.induct) (auto simp: bounded_server_def split: if_splits)

text \<open>C25: The cap on connections neither leaks nor overbooks. In every state the server can reach, whatever
  connections arrive, threads fail to start, peers disappear and handlers end with or without an error, at most the
  configured number of requests is served, the free slots are exactly the rest, and a connection is refused
  exactly when that many requests are being served.\<close>

theorem connections_bounded:
  assumes "served n s"
  shows "length (sv_active s) \<le> n \<and> n \<le> 64 \<and> sv_free s = n - length (sv_active s) \<and>
    (sv_refused (snd (process_request sent started r s)) \<noteq> sv_refused s \<longleftrightarrow> length (sv_active s) = n)"
  using served_slots [OF assms] served_limit [OF assms] by (auto simp: process_request_def Let_def)

definition one_slot :: "nat server" where
  "one_slot = \<lparr>sv_free = 1, sv_active = [], sv_refused = []\<rparr>"

theorem connections_bounded_witness:
  "\<exists>s. served 1 s \<and> sv_active s = [7 :: nat] \<and> sv_refused (snd (process_request False True 8 s)) = [(8, False)]"
proof -
  have "bounded_server (int 1) = Inr one_slot" by (simp add: bounded_server_def one_slot_def)
  then have "served 1 one_slot" by (rule served.opened)
  then have s: "served 1 (snd (process_request True True 7 (snd (process_request True False 6 one_slot))))"
    by (intro served.arrived)
  let ?s = "snd (process_request True True 7 (snd (process_request True False 6 one_slot)))"
  have eq: "?s = \<lparr>sv_free = 0, sv_active = [7], sv_refused = []\<rparr>" by (simp add: process_request_def one_slot_def Let_def)
  from connections_bounded [OF s, of False True 8] have "length (sv_active ?s) \<le> 1" by blast
  moreover have "served 1 (\<lparr>sv_free = 0, sv_active = [7], sv_refused = []\<rparr> :: nat server)" using s by (simp only: eq)
  ultimately show ?thesis by (intro exI [of _ "\<lparr>sv_free = 0, sv_active = [7], sv_refused = []\<rparr>"]) (simp add: process_request_def)
qed

section \<open>What the decoder accepts\<close>

fun nesting :: "pv \<Rightarrow> nat" where
  "nesting (PList vs) = (case vs of [] \<Rightarrow> 0 | _ \<Rightarrow> Suc (Max (set (map nesting vs))))"
| "nesting (PDict d) = (case d of [] \<Rightarrow> 0 | _ \<Rightarrow> Suc (Max (set (map (\<lambda>(k, v). nesting v) d))))"
| "nesting _ = 0"

fun plain_value :: "pv \<Rightarrow> bool" where
  "plain_value PNonFinite = False"
| "plain_value (PStr s) = utf8_encodable s"
| "plain_value (PList vs) = list_all plain_value vs"
| "plain_value (PDict d) = list_all (\<lambda>(k, v). utf8_encodable k \<and> plain_value v) d"
| "plain_value _ = True"

declare validate_json.simps [simp del]

lemma max_bound:
  assumes "xs \<noteq> []"
  shows "depth + Suc (Max (set xs)) \<le> 16 \<longleftrightarrow> (\<forall>n\<in>set xs. depth + 1 + n \<le> (16 :: nat))"
proof
  assume le: "depth + Suc (Max (set xs)) \<le> 16"
  show "\<forall>n\<in>set xs. depth + 1 + n \<le> 16"
  proof
    fix n assume "n \<in> set xs"
    then have "n \<le> Max (set xs)" by simp
    with le show "depth + 1 + n \<le> 16" by linarith
  qed
next
  assume all: "\<forall>n\<in>set xs. depth + 1 + n \<le> 16"
  have "Max (set xs) \<in> set xs" using assms by simp
  with all show "depth + Suc (Max (set xs)) \<le> 16" by fastforce
qed

lemma validate_json_iff: "validate_json depth v \<longleftrightarrow> depth + nesting v \<le> 16 \<and> plain_value v"
proof (induction v arbitrary: depth)
  case (PList vs)
  show ?case
  proof (cases vs)
    case (Cons w ws)
    have "validate_json (depth + 1) x \<longleftrightarrow> depth + 1 + nesting x \<le> 16 \<and> plain_value x" if "x \<in> set vs" for x
      using PList.IH [OF that] by simp
    then have "list_all (validate_json (depth + 1)) vs \<longleftrightarrow> (\<forall>x\<in>set vs. depth + 1 + nesting x \<le> 16) \<and> list_all plain_value vs"
      by (auto simp: list_all_iff)
    moreover have "(\<forall>x\<in>set vs. depth + 1 + nesting x \<le> 16) \<longleftrightarrow> depth + Suc (Max (set (map nesting vs))) \<le> 16"
      using max_bound [of "map nesting vs" depth] by (simp add: Cons)
    ultimately show ?thesis by (simp add: validate_json.simps [of depth] Cons) auto
  qed (simp add: validate_json.simps)
next
  case (PDict d)
  show ?case
  proof (cases d)
    case (Cons e es)
    let ?n = "\<lambda>(k :: ustr, v). nesting v"
    have "validate_json (depth + 1) x \<longleftrightarrow> depth + 1 + nesting x \<le> 16 \<and> plain_value x" if "(k, x) \<in> set d" for k x
      using PDict.IH [OF that] by simp
    then have "list_all (\<lambda>(k, w). depth + 1 \<le> 16 \<and> utf8_encodable k \<and> validate_json (depth + 1) w) d \<longleftrightarrow>
        (\<forall>e\<in>set d. depth + 1 + ?n e \<le> 16) \<and> list_all (\<lambda>(k, v). utf8_encodable k \<and> plain_value v) d"
      by (auto simp: list_all_iff)
    moreover have "(\<forall>e\<in>set d. depth + 1 + ?n e \<le> 16) \<longleftrightarrow> depth + Suc (Max (set (map ?n d))) \<le> 16"
      using max_bound [of "map ?n d" depth] by (simp add: Cons)
    ultimately show ?thesis by (simp add: validate_json.simps [of depth] Cons) auto
  qed (simp add: validate_json.simps)
qed (auto simp: validate_json.simps)



end
