(* ===== verification/Resp.thy ===== *)
theory Resp
  imports Wire
begin

text \<open>
  \<open>redis-lab/ops/resp.py\<close>: the RESP2 client. A reply is read from the bytes that are still to come
  on the connection; what does not come is an end of file or a timeout. Bytes are kept as they are
  (\<open>decode('utf-8', 'replace')\<close> of an error text is not applied), \<open>float()\<close> of a text and the text of
  a float are arguments.
\<close>

section \<open>Commands\<close>

datatype arg = A_Bytes bytes | A_Str ustr | A_Int int | A_Float rat | A_Other

definition crlf :: bytes where "crlf = [13, 10]"

definition arg_bytes :: "(rat \<Rightarrow> ustr) \<Rightarrow> arg \<Rightarrow> bytes res" where
  "arg_bytes ftext a = (case a of
       A_Bytes b \<Rightarrow> Inr b
     | A_Str s \<Rightarrow> if utf8_encodable s then Inr (utf8 s) else Inl (Value_Error ''UnicodeEncodeError'')
     | A_Int n \<Rightarrow> Inr (int_text n)
     | A_Float r \<Rightarrow> Inr (utf8 (ftext r))
     | A_Other \<Rightarrow> Inl Type_Error)"

definition bulk :: "bytes \<Rightarrow> bytes" where
  "bulk b = 36 # nat_text (length b) @ crlf @ b @ crlf"

definition encode_items :: "bytes list \<Rightarrow> bytes" where
  "encode_items items = 42 # nat_text (length items) @ crlf @ concat (map bulk items)"

definition encode :: "(rat \<Rightarrow> ustr) \<Rightarrow> arg list \<Rightarrow> bytes res" where
  "encode ftext args = (if args = [] then Inl (Value_Error ''Empty Redis command'')
     else bind_res (sequence (map (arg_bytes ftext) args)) (\<lambda>items. Inr (encode_items items)))"

section \<open>Replies\<close>

datatype rvalue = V_Bytes bytes | V_Error bytes | V_Int int | V_None | V_List "rvalue list"

datatype resp_exn = Protocol_Error string | Eof | Bad_Int

text \<open>\<open>int(bytes)\<close>: surrounding white space, a sign, digits with single underscores between them.\<close>

definition ascii_space :: "nat \<Rightarrow> bool" where
  "ascii_space c \<longleftrightarrow> c = 32 \<or> (9 \<le> c \<and> c \<le> 13)"

fun digits_value :: "nat \<Rightarrow> bytes \<Rightarrow> nat option" where
  "digits_value n [] = Some n"
| "digits_value n (c # s) = (if is_digit c then digits_value (10 * n + (c - 48)) s
     else if c = 95 then (case s of d # s' \<Rightarrow> if is_digit d then digits_value (10 * n + (d - 48)) s' else None | [] \<Rightarrow> None)
     else None)"

definition unsigned :: "bytes \<Rightarrow> nat option" where
  "unsigned s = (case s of c # r \<Rightarrow> if is_digit c then digits_value (c - 48) r else None | [] \<Rightarrow> None)"

definition py_int :: "bytes \<Rightarrow> int option" where
  "py_int s = (let t = rev (dropWhile ascii_space (rev (dropWhile ascii_space s))) in
     case t of c # r \<Rightarrow> if c = 45 then map_option (\<lambda>n. - int n) (unsigned r)
          else if c = 43 then map_option int (unsigned r) else map_option int (unsigned t)
     | [] \<Rightarrow> None)"

text \<open>\<open>readline(limit)\<close>: up to and with the first newline, at most \<open>limit\<close> bytes.\<close>

definition read_line :: "nat \<Rightarrow> bytes \<Rightarrow> bytes \<times> bytes" where
  "read_line limit s = (let n = length (takeWhile (\<lambda>c. c \<noteq> 10) s) + 1 in (take (min n limit) s, drop (min n limit) s))"

definition header :: "bytes \<Rightarrow> resp_exn + nat \<times> bytes \<times> bytes" where
  "header s = (case read_line 65537 s of (line, rest) \<Rightarrow>
     if line = [] then Inl Eof
     else if 65536 < length line \<or> drop (length line - 2) line \<noteq> crlf then Inl (Protocol_Error ''Invalid RESP line'')
     else Inr (hd line, take (length line - 3) (tl line), rest))"

function (sequential) read_reply :: "nat \<Rightarrow> bytes \<Rightarrow> resp_exn + rvalue \<times> bytes"
  and read_many :: "nat \<Rightarrow> nat \<Rightarrow> bytes \<Rightarrow> resp_exn + rvalue list \<times> bytes" where
  "read_reply depth s =
     (if 32 < depth then Inl (Protocol_Error ''Excessive RESP nesting'')
      else (case header s of Inl e \<Rightarrow> Inl e
      | Inr (kind, data, rest) \<Rightarrow>
        if kind = 43 then Inr (V_Bytes data, rest)
        else if kind = 45 then Inr (V_Error data, rest)
        else if kind = 58 then (case py_int data of None \<Rightarrow> Inl Bad_Int | Some m \<Rightarrow> Inr (V_Int m, rest))
        else if kind = 36 \<or> kind = 42 then (case py_int data of None \<Rightarrow> Inl Bad_Int
          | Some n \<Rightarrow>
            if n = -1 then Inr (V_None, rest)
            else if n < 0 then Inl (Protocol_Error ''Negative RESP length'')
            else if kind = 36 then
              (if 128 * 1024 * 1024 < n then Inl (Protocol_Error ''Bulk reply exceeds lab limit'')
               else if length rest < nat n \<or> take 2 (drop (nat n) rest) \<noteq> crlf
               then Inl (Protocol_Error ''Truncated bulk reply'')
               else Inr (V_Bytes (take (nat n) rest), drop (nat n + 2) rest))
            else if 1000000 < n then Inl (Protocol_Error ''Array exceeds lab limit'')
            else (case read_many (nat n) (depth + 1) rest of
                Inl e \<Rightarrow> Inl e | Inr (vs, rest') \<Rightarrow> Inr (V_List vs, rest')))
        else Inl (Protocol_Error ''Unsupported RESP type'')))"
| "read_many 0 depth s = Inr ([], s)"
| "read_many (Suc n) depth s = (case read_reply depth s of Inl e \<Rightarrow> Inl e
     | Inr (v, rest) \<Rightarrow> (case read_many n depth rest of Inl e \<Rightarrow> Inl e | Inr (vs, rest') \<Rightarrow> Inr (v # vs, rest')))"
  by pat_completeness auto
termination
  by (relation "inv_image (less_than <*lex*> less_than)
      (\<lambda>x. case x of Inl (d, s) \<Rightarrow> (33 - d, 0) | Inr (n, d, s) \<Rightarrow> (33 - d, Suc n))") auto

declare read_reply.simps [simp del]

section \<open>A connection\<close>

text \<open>\<open>cn_stream\<close> is what the server sent and nobody has read; \<open>send\<close> is the network: nothing when
  \<open>sendall\<close> fails, else the bytes the server adds (until a timeout or the end).\<close>

record connection =
  cn_open :: bool
  cn_stream :: bytes
  cn_attempted :: bool

datatype client_exn = Transport_Error | Server_Error bytes | Client_Protocol string | Client_Usage exn

definition closed :: "connection \<Rightarrow> connection" where
  "closed c = c\<lparr>cn_open := False, cn_stream := []\<rparr>"

definition connect :: "(rat \<Rightarrow> ustr) \<Rightarrow> ustr \<Rightarrow> bytes option \<Rightarrow> (bytes \<Rightarrow> bytes option) \<Rightarrow> connection
     \<Rightarrow> (client_exn + unit) \<times> connection" where
  "connect ftext password dial send c =
     (if cn_open c then (Inr (), c)
      else (case dial of None \<Rightarrow> (Inl Transport_Error, closed c)
      | Some hello \<Rightarrow>
        let c1 = c\<lparr>cn_open := True, cn_stream := hello\<rparr> in
        if password = [] then (Inr (), c1)
        else (case encode ftext [A_Str (u ''AUTH''), A_Str password] of
            Inl _ \<Rightarrow> (Inl Transport_Error, closed c1)
          | Inr packet \<Rightarrow> (case send packet of None \<Rightarrow> (Inl Transport_Error, closed c1)
            | Some incoming \<Rightarrow> (case read_reply 0 (hello @ incoming) of
                Inl (Protocol_Error m) \<Rightarrow> (Inl (Client_Protocol m), closed c1)
              | Inl _ \<Rightarrow> (Inl Transport_Error, closed c1)
              | Inr (V_Error e, _) \<Rightarrow> (Inl (Server_Error e), closed c1)
              | Inr (v, rest) \<Rightarrow> if v = V_Bytes (u ''OK'') then (Inr (), c1\<lparr>cn_stream := rest\<rparr>)
                  else (Inl (Client_Protocol ''AUTH did not return OK''), closed c1))))))"

definition first_error :: "rvalue list \<Rightarrow> bytes option" where
  "first_error vs = (case dropWhile (\<lambda>v. case v of V_Error _ \<Rightarrow> False | _ \<Rightarrow> True) vs of
     V_Error e # _ \<Rightarrow> Some e | _ \<Rightarrow> None)"

text \<open>The exchange once the connection is open.\<close>

definition exchange :: "(rat \<Rightarrow> ustr) \<Rightarrow> (bytes \<Rightarrow> bytes option) \<Rightarrow> arg list list \<Rightarrow> bool \<Rightarrow> connection
     \<Rightarrow> (client_exn + rvalue list) \<times> connection" where
  "exchange ftext send commands raise_errors c =
     (case sequence (map (encode ftext) commands) of
        Inl (Value_Error _) \<Rightarrow> (Inl Transport_Error, closed c)
      | Inl e \<Rightarrow> (Inl (Client_Usage e), c)
      | Inr packets \<Rightarrow>
        if 4 * 1024 * 1024 < length (concat packets) then (Inl Transport_Error, closed c)
        else let c1 = c\<lparr>cn_attempted := True\<rparr> in
          (case send (concat packets) of None \<Rightarrow> (Inl Transport_Error, closed c1)
          | Some incoming \<Rightarrow> (case read_many (length commands) 0 (cn_stream c1 @ incoming) of
              Inl _ \<Rightarrow> (Inl Transport_Error, closed c1)
            | Inr (vs, rest) \<Rightarrow> let c2 = c1\<lparr>cn_stream := rest\<rparr> in
                (case first_error vs of
                   Some e \<Rightarrow> if raise_errors then (Inl (Server_Error e), c2) else (Inr vs, c2)
                 | None \<Rightarrow> (Inr vs, c2)))))"

definition pipeline :: "(rat \<Rightarrow> ustr) \<Rightarrow> ustr \<Rightarrow> bytes option \<Rightarrow> (bytes \<Rightarrow> bytes option) \<Rightarrow> arg list list \<Rightarrow> bool
     \<Rightarrow> connection \<Rightarrow> (client_exn + rvalue list) \<times> connection" where
  "pipeline ftext password dial send commands raise_errors c =
     (if commands = [] then (Inr [], c)
      else if 1024 < length commands then (Inl (Client_Usage (Value_Error ''Pipeline limit is 1024 commands'')), c)
      else (case connect ftext password dial send (c\<lparr>cn_attempted := False\<rparr>) of
          (Inl e, c') \<Rightarrow> (Inl e, c')
        | (Inr _, c') \<Rightarrow> exchange ftext send commands raise_errors c'))"

definition execute :: "(rat \<Rightarrow> ustr) \<Rightarrow> ustr \<Rightarrow> bytes option \<Rightarrow> (bytes \<Rightarrow> bytes option) \<Rightarrow> arg list
     \<Rightarrow> connection \<Rightarrow> (client_exn + rvalue) \<times> connection" where
  "execute ftext password dial send args c = (case pipeline ftext password dial send [args] True c of
     (Inl e, c') \<Rightarrow> (Inl e, c') | (Inr vs, c') \<Rightarrow> (Inr (hd vs), c'))"

section \<open>Reading answers\<close>

datatype tvalue = T_Str ustr | T_Error bytes | T_Int int | T_None | T_List "tvalue list"

text \<open>\<open>dec\<close> is \<open>decode('utf-8', 'replace')\<close>.\<close>

fun text_of :: "(bytes \<Rightarrow> ustr) \<Rightarrow> rvalue \<Rightarrow> tvalue" where
  "text_of dec (V_Bytes b) = T_Str (dec b)"
| "text_of dec (V_Error e) = T_Error e"
| "text_of dec (V_Int n) = T_Int n"
| "text_of dec V_None = T_None"
| "text_of dec (V_List vs) = T_List (map (text_of dec) vs)"

definition put :: "'k \<Rightarrow> 'v \<Rightarrow> ('k \<times> 'v) list \<Rightarrow> ('k \<times> 'v) list" where
  "put k v d = (if k \<in> fst ` set d then map (\<lambda>(k', w). (k', if k' = k then v else w)) d else d @ [(k, v)])"

fun alternate :: "'a list \<Rightarrow> ('a \<times> 'a) list" where
  "alternate (a # b # r) = (a, b) # alternate r"
| "alternate _ = []"

definition pairs :: "(bytes \<Rightarrow> ustr) \<Rightarrow> rvalue \<Rightarrow> (client_exn + (tvalue \<times> tvalue) list)" where
  "pairs dec v =
     (let go = (\<lambda>xs. if odd (length xs) then Inl (Client_Protocol ''Expected alternating key/value list'')
          else Inr (foldl (\<lambda>d (k, v). put k v d) [] (alternate xs))) in
      case text_of dec v of T_List xs \<Rightarrow> go xs | T_Str s \<Rightarrow> go (map (\<lambda>c. T_Str [c]) s)
      | _ \<Rightarrow> Inl (Client_Usage Type_Error))"

definition line_break :: "nat \<Rightarrow> bool" where
  "line_break c \<longleftrightarrow> c \<in> {10, 11, 12, 13, 28, 29, 30, 133, 8232, 8233}"

text \<open>\<open>s.splitlines()\<close>\<close>

fun split_lines :: "ustr \<Rightarrow> ustr \<Rightarrow> ustr list" where
  "split_lines acc [] = (if acc = [] then [] else [rev acc])"
| "split_lines acc (c # s) =
     (if c = 13 then rev acc # (case s of d # s' \<Rightarrow> if d = 10 then split_lines [] s' else split_lines [] s | [] \<Rightarrow> [])
      else if line_break c then rev acc # split_lines [] s else split_lines (c # acc) s)"

text \<open>\<open>p in s\<close>\<close>

fun text_in :: "ustr \<Rightarrow> ustr \<Rightarrow> bool" where
  "text_in p [] = (p = [])"
| "text_in p (c # s) = (starts_with p (c # s) \<or> text_in p s)"

definition cut :: "nat \<Rightarrow> ustr \<Rightarrow> ustr \<times> ustr" where
  "cut sep s = (takeWhile (\<lambda>c. c \<noteq> sep) s, tl (dropWhile (\<lambda>c. c \<noteq> sep) s))"

datatype info = I_Int int | I_Float pv | I_Str ustr | I_Fields "(ustr \<times> info) list"

text \<open>\<open>pint\<close> and \<open>pfloat\<close> are \<open>int()\<close> and \<open>float()\<close> of a text.\<close>

definition number_or_text :: "(ustr \<Rightarrow> int option) \<Rightarrow> (ustr \<Rightarrow> pv option) \<Rightarrow> ustr \<Rightarrow> info" where
  "number_or_text pint pfloat s =
     (if 46 \<in> set s then (case pfloat s of Some v \<Rightarrow> I_Float v | None \<Rightarrow> I_Str s)
      else (case pint s of Some n \<Rightarrow> I_Int n | None \<Rightarrow> I_Str s))"

definition info_fields :: "(ustr \<Rightarrow> int option) \<Rightarrow> (ustr \<Rightarrow> pv option) \<Rightarrow> ustr \<Rightarrow> (ustr \<times> info) list" where
  "info_fields pint pfloat v = foldl (\<lambda>d f. if 61 \<in> set f then (case cut 61 f of (a, b) \<Rightarrow>
     put a (number_or_text pint pfloat b) d) else d) [] (split_on 44 v)"

definition info_line :: "(ustr \<Rightarrow> int option) \<Rightarrow> (ustr \<Rightarrow> pv option) \<Rightarrow> (ustr \<times> info) list \<Rightarrow> ustr \<Rightarrow> (ustr \<times> info) list" where
  "info_line pint pfloat out line =
     (if line = [] \<or> hd line = 35 \<or> 58 \<notin> set line then out
      else (case cut 58 line of (k, v) \<Rightarrow>
        put k (if 44 \<in> set v \<and> 61 \<in> set v then I_Fields (info_fields pint pfloat v) else number_or_text pint pfloat v) out))"

definition parse_info :: "(bytes \<Rightarrow> ustr) \<Rightarrow> (ustr \<Rightarrow> int option) \<Rightarrow> (ustr \<Rightarrow> pv option) \<Rightarrow> rvalue \<Rightarrow> (client_exn + (ustr \<times> info) list)" where
  "parse_info dec pint pfloat raw = (case text_of dec raw of
     T_Str s \<Rightarrow> Inr (foldl (info_line pint pfloat) [] (split_lines [] s))
   | _ \<Rightarrow> Inl (Client_Usage (Other_Error ''AttributeError'')))"

definition endpoint :: "(ustr \<Rightarrow> int option) \<Rightarrow> ustr \<Rightarrow> (ustr \<times> int) res" where
  "endpoint pint item = (if 58 \<notin> set item then Inl (Value_Error ''not enough values to unpack'')
     else let port = rev (takeWhile (\<lambda>c. c \<noteq> 58) (rev item)); host = take (length item - length port - 1) item in
       if host = [] then Inl (Value_Error ''Invalid endpoint'')
       else (case pint port of None \<Rightarrow> Inl (Value_Error ''invalid literal for int()'')
         | Some n \<Rightarrow> if 1 \<le> n \<and> n \<le> 65535 then Inr (host, n) else Inl (Value_Error ''Invalid endpoint'')))"

definition endpoints :: "(ustr \<Rightarrow> int option) \<Rightarrow> ustr \<Rightarrow> (ustr \<times> int) list res" where
  "endpoints pint s = sequence (map (endpoint pint) (split_on 44 s))"

text \<open>\<open>ask\<close> is the answer of a sentinel and \<open>role\<close> that of the node it names; a Redis error is \<open>Inl\<close>.\<close>

fun master_address ::
  "(ustr \<times> int \<Rightarrow> string + (ustr \<times> int) option) \<Rightarrow> (ustr \<times> int \<Rightarrow> string + rvalue) \<Rightarrow> (ustr \<times> int) list \<Rightarrow> string list
     \<Rightarrow> string list + ustr \<times> int" where
  "master_address ask role [] errors = Inl errors"
| "master_address ask role (s # rest) errors = (case ask s of
     Inl e \<Rightarrow> master_address ask role rest (errors @ [e])
   | Inr None \<Rightarrow> master_address ask role rest errors
   | Inr (Some a) \<Rightarrow> (case role a of
       Inl e \<Rightarrow> master_address ask role rest (errors @ [e])
     | Inr v \<Rightarrow> if v = V_Bytes (u ''master'') then Inr a else master_address ask role rest errors))"

section \<open>Framing\<close>

lemma digits_value_append:
  "list_all is_digit s \<Longrightarrow> digits_value n (s @ t) = (case digits_value n s of Some m \<Rightarrow> digits_value m t | None \<Rightarrow> None)"
  by (induction s arbitrary: n) auto

lemma digits_value_Some: "list_all is_digit s \<Longrightarrow> \<exists>m. digits_value n s = Some m"
  by (induction s arbitrary: n) auto

lemma digits_value_zero: "digits_value 0 (nat_text n) = Some n"
proof (induction n rule: nat_text.induct)
  case (1 n)
  show ?case
  proof (cases "n < 10")
    case False
    then have "digits_value 0 (nat_text (n div 10)) = Some (n div 10)" by (rule 1)
    moreover have "is_digit (48 + n mod 10)" using mod_less_divisor [of 10 n] by (simp add: is_digit_def)
    ultimately show ?thesis using False nat_text_digits by (simp add: nat_text.simps [of n] digits_value_append)
  qed (simp add: nat_text.simps [of n] is_digit_def)
qed

lemma unsigned_nat_text: "unsigned (nat_text n) = Some n"
proof -
  obtain c r where c: "nat_text n = c # r" by (cases "nat_text n") auto
  then have "is_digit c" using nat_text_digits [of n] by simp
  then show ?thesis using digits_value_zero [of n] by (simp add: unsigned_def c)
qed

lemma py_int_nat_text: "py_int (nat_text n) = Some (int n)"
proof -
  obtain c r where c: "nat_text n = c # r" by (cases "nat_text n") auto
  have d: "list_all is_digit (nat_text n)" by (rule nat_text_digits)
  then have space: "list_all (\<lambda>x. \<not> ascii_space x) (nat_text n)"
    by (auto simp: list_all_iff is_digit_def ascii_space_def)
  have "\<not> ascii_space (hd (nat_text n))" "\<not> ascii_space (last (nat_text n))"
    using space hd_in_set [OF nat_text_nonempty] last_in_set [OF nat_text_nonempty] by (auto simp: list_all_iff)
  then have "dropWhile ascii_space (nat_text n) = nat_text n" "dropWhile ascii_space (rev (nat_text n)) = rev (nat_text n)"
    by (simp_all add: dropWhile_eq_self_iff hd_rev)
  moreover have "c \<noteq> 45" "c \<noteq> 43" using d by (simp_all add: c is_digit_def)
  ultimately show ?thesis using unsigned_nat_text [of n] by (simp add: py_int_def) (simp add: c)
qed

lemma nat_text_length: "length (nat_text n) \<le> n + 1"
  by (induction n rule: nat_text.induct) (subst nat_text.simps, auto)

lemma nat_text_short: "n < 10 ^ k \<Longrightarrow> length (nat_text n) \<le> max 1 k"
proof (induction k arbitrary: n)
  case (Suc k)
  show ?case
  proof (cases "n < 10")
    case False
    then have "n div 10 < 10 ^ k" using Suc.prems by (simp add: less_mult_imp_div_less mult.commute)
    then have "length (nat_text (n div 10)) \<le> max 1 k" by (rule Suc.IH)
    moreover have "k \<noteq> 0" using False Suc.prems by (cases k) auto
    ultimately show ?thesis using False by (simp add: nat_text.simps [of n])
  qed (simp add: nat_text.simps [of n])
qed (simp add: nat_text.simps)

lemma no_newline: "list_all is_digit s \<Longrightarrow> 10 \<notin> set s"
  by (auto simp: list_all_iff is_digit_def)

lemma header_line:
  assumes "10 \<notin> set b" "length b \<le> 65533" "k \<noteq> 10"
  shows "header (k # b @ crlf @ rest) = Inr (k, b, rest)"
proof -
  have "takeWhile (\<lambda>c. c \<noteq> 10) (k # b @ crlf @ rest) = k # b @ [13]"
  proof -
    have "takeWhile (\<lambda>c. c \<noteq> 10) (b @ 13 # 10 # rest) = b @ [13]" using assms(1) by (induction b) auto
    then show ?thesis using assms(3) by (simp add: crlf_def)
  qed
  then have "read_line 65537 (k # b @ crlf @ rest) = (k # b @ crlf, rest)"
    using assms(2) by (simp add: read_line_def Let_def crlf_def)
  then show ?thesis using assms(2) by (simp add: header_def crlf_def)
qed

lemma count_line:
  assumes "n \<le> 1000000000" "k \<noteq> 10"
  shows "header (k # nat_text n @ crlf @ rest) = Inr (k, nat_text n, rest)"
proof -
  have "length (nat_text n) \<le> max 1 10" using assms(1) by (intro nat_text_short) simp
  then show ?thesis using assms(2) no_newline [OF nat_text_digits] by (intro header_line) auto
qed

lemma py_int_int_text: "py_int (int_text n) = Some n"
proof (cases "n < 0")
  case True
  let ?m = "nat (- n)"
  have "is_digit (last (nat_text ?m))" using nat_text_digits [of ?m] by (simp add: list_all_iff)
  then have space: "\<not> ascii_space (last (nat_text ?m))" by (auto simp: is_digit_def ascii_space_def)
  then have "dropWhile ascii_space (rev (45 # nat_text ?m)) = rev (45 # nat_text ?m)"
    by (simp add: dropWhile_eq_self_iff hd_rev hd_append)
  then show ?thesis using True unsigned_nat_text [of ?m] by (simp add: int_text_def py_int_def ascii_space_def)
qed (simp add: int_text_def py_int_nat_text)

text \<open>The text of a reply as the protocol defines it, and the replies within the limits of the client.\<close>

fun resp_text :: "rvalue \<Rightarrow> bytes" where
  "resp_text (V_Bytes b) = bulk b"
| "resp_text (V_Error e) = 45 # e @ crlf"
| "resp_text (V_Int n) = 58 # int_text n @ crlf"
| "resp_text V_None = 36 # int_text (- 1) @ crlf"
| "resp_text (V_List vs) = 42 # nat_text (length vs) @ crlf @ concat (map resp_text vs)"

fun resp_ok :: "nat \<Rightarrow> rvalue \<Rightarrow> bool" where
  "resp_ok depth (V_Bytes b) = (depth \<le> 32 \<and> length b \<le> 128 * 1024 * 1024)"
| "resp_ok depth (V_Error e) = (depth \<le> 32 \<and> 10 \<notin> set e \<and> length e \<le> 65533)"
| "resp_ok depth (V_Int n) = (depth \<le> 32 \<and> \<bar>n\<bar> < 10 ^ 30)"
| "resp_ok depth V_None = (depth \<le> 32)"
| "resp_ok depth (V_List vs) = (depth \<le> 32 \<and> length vs \<le> 1000000 \<and> list_all (resp_ok (depth + 1)) vs)"

lemma int_line: "\<bar>n\<bar> < 10 ^ 30 \<Longrightarrow> header (58 # int_text n @ crlf @ rest) = Inr (58, int_text n, rest)"
proof (rule header_line)
  assume n: "\<bar>n\<bar> < 10 ^ 30"
  have "length (nat_text (nat \<bar>n\<bar>)) \<le> max 1 30" using n by (intro nat_text_short) simp
  then show "length (int_text n) \<le> 65533" by (cases "n < 0") (simp_all add: int_text_def)
  show "10 \<notin> set (int_text n)" using no_newline [OF nat_text_digits] by (simp add: int_text_def)
qed simp

lemma read_bulk:
  assumes "depth \<le> 32" "length b \<le> 128 * 1024 * 1024"
  shows "read_reply depth (bulk b @ rest) = Inr (V_Bytes b, rest)"
proof -
  have "header (36 # nat_text (length b) @ crlf @ b @ crlf @ rest) = Inr (36, nat_text (length b), b @ crlf @ rest)"
    using assms(2) by (intro count_line) simp_all
  then show ?thesis using assms by (simp add: read_reply.simps bulk_def py_int_nat_text) (simp add: crlf_def)
qed

lemma read_many_each:
  assumes "\<And>v rest. v \<in> set vs \<Longrightarrow> read_reply depth (resp_text v @ rest) = Inr (v, rest)"
  shows "read_many (length vs) depth (concat (map resp_text vs) @ rest) = Inr (vs, rest)"
  using assms by (induction vs) auto

lemma read_resp_text: "resp_ok depth v \<Longrightarrow> read_reply depth (resp_text v @ rest) = Inr (v, rest)"
proof (induction v arbitrary: depth rest)
  case (V_Bytes b)
  then show ?case by (simp add: read_bulk)
next
  case (V_Error e)
  then show ?case using header_line [of e 45 rest] by (simp add: read_reply.simps)
next
  case (V_Int n)
  then show ?case using int_line [of n rest] by (simp add: read_reply.simps py_int_int_text)
next
  case V_None
  have "header (36 # int_text (- 1) @ crlf @ rest) = Inr (36, int_text (- 1), rest)"
    by (rule header_line) (simp_all add: int_text_def nat_text.simps)
  then show ?case using V_None by (simp add: read_reply.simps py_int_int_text)
next
  case (V_List vs)
  have "header (42 # nat_text (length vs) @ crlf @ concat (map resp_text vs) @ rest)
      = Inr (42, nat_text (length vs), concat (map resp_text vs) @ rest)"
    using V_List.prems by (intro count_line) simp_all
  moreover have "read_many (length vs) (depth + 1) (concat (map resp_text vs) @ rest) = Inr (vs, rest)"
    using V_List by (intro read_many_each) (auto simp: list_all_iff)
  ultimately show ?case using V_List.prems by (simp add: read_reply.simps py_int_nat_text)
qed

lemma read_resp_texts:
  "list_all (resp_ok depth) vs \<Longrightarrow> read_many (length vs) depth (concat (map resp_text vs) @ rest) = Inr (vs, rest)"
  by (intro read_many_each read_resp_text) (auto simp: list_all_iff)

lemma encode_items_text: "encode_items items = resp_text (V_List (map V_Bytes items))"
  by (simp add: encode_items_def comp_def)

text \<open>C20: A pipeline stays in step with the server whatever bytes its arguments hold. Read as the protocol
  defines it, the packet is exactly the commands with exactly their arguments (nothing in an argument,
  line breaks included, can add or change a command); and when the server answers each command once,
  the client consumes exactly these answers, error replies among them, so that the connection is
  open and in step for the next call. Sizes are within the limits of the client.\<close>

theorem pipeline_in_step:
  assumes "cn_open c" "cn_stream c = []" "commands \<noteq> []" "length commands \<le> 1024"
    and "map (\<lambda>args. sequence (map (arg_bytes ftext) args)) commands = map Inr itemss" "[] \<notin> set commands"
    and "length (concat (map encode_items itemss)) \<le> 4 * 1024 * 1024"
    and "\<forall>items\<in>set itemss. resp_ok 0 (V_List (map V_Bytes items))"
    and "send (concat (map encode_items itemss)) = Some (concat (map resp_text vs))"
    and "length vs = length commands" "list_all (resp_ok 0) vs"
  shows "read_many (length commands) 0 (concat (map encode_items itemss)) = Inr (map (\<lambda>items. V_List (map V_Bytes items)) itemss, [])
    \<and> pipeline ftext password dial send commands raise_errors c =
      ((case first_error vs of Some e \<Rightarrow> if raise_errors then Inl (Server_Error e) else Inr vs | None \<Rightarrow> Inr vs),
       c\<lparr>cn_attempted := True\<rparr>)"
proof -
  let ?texts = "map (\<lambda>items. V_List (map V_Bytes items)) itemss"
  have n: "length itemss = length commands" using assms(5) by (metis length_map)
  have packet: "concat (map encode_items itemss) = concat (map resp_text ?texts)"
  proof -
    have "map encode_items itemss = map resp_text ?texts" by (rule nth_equalityI) (simp_all add: encode_items_text del: resp_text.simps)
    then show ?thesis by (rule arg_cong)
  qed
  have "read_many (length ?texts) 0 (concat (map resp_text ?texts) @ []) = Inr (?texts, [])"
    using assms(8) by (intro read_resp_texts) (simp add: list_all_iff)
  then have parsed: "read_many (length commands) 0 (concat (map encode_items itemss)) = Inr (?texts, [])"
    unfolding packet by (simp add: n)
  have "map (encode ftext) commands = map Inr (map encode_items itemss)"
  proof -
    have "encode ftext args = bind_res (sequence (map (arg_bytes ftext) args)) (\<lambda>items. Inr (encode_items items))"
      if "args \<in> set commands" for args using that assms(6) by (auto simp: encode_def)
    then have "map (encode ftext) commands = map ((\<lambda>r. bind_res r (\<lambda>items. Inr (encode_items items))) \<circ>
        (\<lambda>args. sequence (map (arg_bytes ftext) args))) commands" by simp
    also have "\<dots> = map (\<lambda>r. bind_res r (\<lambda>items. Inr (encode_items items))) (map Inr itemss)"
      by (simp only: list.map_comp [symmetric] assms(5))
    finally show ?thesis by (simp add: bind_res_def comp_def)
  qed
  then have enc: "sequence (map (encode ftext) commands) = Inr (map encode_items itemss)" by (simp only: sequence_map_Inr)
  have got: "read_many (length commands) 0 (concat (map resp_text vs)) = Inr (vs, [])"
    using read_resp_texts [OF assms(11), of "[]"] assms(10) by simp
  have "c\<lparr>cn_attempted := True, cn_stream := []\<rparr> = c\<lparr>cn_attempted := True\<rparr>" using assms(2) by (cases c) simp
  then have "pipeline ftext password dial send commands raise_errors c =
      ((case first_error vs of Some e \<Rightarrow> if raise_errors then Inl (Server_Error e) else Inr vs | None \<Rightarrow> Inr vs),
       c\<lparr>cn_attempted := True\<rparr>)"
    using assms(1-4,7,9) enc got by (simp add: pipeline_def connect_def exchange_def Let_def split: option.splits)
  with parsed show ?thesis by simp
qed

theorem pipeline_in_step_witness:
  "fst (pipeline (\<lambda>_. []) [] None (\<lambda>_. Some (concat (map resp_text [V_Bytes [79, 75], V_Error [69]])))
     [[A_Str (u ''SET''), A_Bytes [13, 10, 42]], [A_Int 7]] False \<lparr>cn_open = True, cn_stream = [], cn_attempted = False\<rparr>)
   = Inr [V_Bytes [79, 75], V_Error [69]]"
proof -
  let ?c = "\<lparr>cn_open = True, cn_stream = [], cn_attempted = False\<rparr>"
  let ?itemss = "[[utf8 (u ''SET''), [13, 10, 42]], [int_text 7]]"
  have enc: "map (\<lambda>args. sequence (map (arg_bytes (\<lambda>_. [])) args)) [[A_Str (u ''SET''), A_Bytes [13, 10, 42]], [A_Int 7]]
      = map Inr ?itemss"
    by (simp add: arg_bytes_def bind_res_def)
  have len: "length (utf8 (u ''SET'')) = 3" "length (int_text 7) = 1"
    by (simp_all add: utf8_def utf8_char_def u_def int_text_def nat_text.simps)
  have "length (concat (map encode_items ?itemss)) \<le> 4 * 1024 * 1024"
    by (simp add: encode_items_def bulk_def len crlf_def) (simp add: nat_text.simps)
  from pipeline_in_step [OF _ _ _ _ enc _ this, of ?c "\<lambda>_. Some (concat (map resp_text [V_Bytes [79, 75], V_Error [69]]))"
      "[V_Bytes [79, 75], V_Error [69]]" "[]" None False] len
  show ?thesis by (simp add: first_error_def)
qed

end
