(* ===== verification/Sim_Audit.thy ===== *)
theory Sim_Audit
  imports Core_Orders Resp
begin

text \<open>
  The reconciliation of a simulation: \<open>mvp_app/inspection.py\<close>, which compares an order's row with its
  copies, and the intents, acknowledgements, audit rounds and verdicts of \<open>tools/simulation.py\<close>. What the
  stores and the HTTP API answer are arguments; \<open>pint\<close> is \<open>int()\<close> and \<open>strf\<close> is \<open>str()\<close> of a JSON value.
\<close>

section \<open>Comparing two copies\<close>

fun py_eq :: "pv \<Rightarrow> pv \<Rightarrow> bool" where
  "py_eq (PList xs) w = (case w of PList ys \<Rightarrow> list_all2 py_eq xs ys | _ \<Rightarrow> False)"
| "py_eq (PDict d) w = (case w of PDict e \<Rightarrow> length d = length e \<and>
      list_all (\<lambda>(k, v). case map_of e k of Some x \<Rightarrow> py_eq v x | None \<Rightarrow> False) d | _ \<Rightarrow> False)"
| "py_eq v w = leaf_eq v w"

definition same_type :: "pv \<Rightarrow> pv \<Rightarrow> bool" where
  "same_type v w = (case (v, w) of (PNone, PNone) \<Rightarrow> True | (PBool _, PBool _) \<Rightarrow> True | (PInt _, PInt _) \<Rightarrow> True
     | (PFloat _, PFloat _) \<Rightarrow> True | (PFloat _, PNonFinite) \<Rightarrow> True | (PNonFinite, PFloat _) \<Rightarrow> True | (PNonFinite, PNonFinite) \<Rightarrow> True
     | (PStr _, PStr _) \<Rightarrow> True | (PList _, PList _) \<Rightarrow> True | (PDict _, PDict _) \<Rightarrow> True | _ \<Rightarrow> False)"

definition field_differs :: "pdict \<Rightarrow> pdict \<Rightarrow> string \<Rightarrow> bool" where
  "field_differs reference candidate k = (case (map_of candidate (u k), map_of reference (u k)) of
     (Some c, Some r) \<Rightarrow> \<not> (same_type c r \<and> py_eq c r) | _ \<Rightarrow> True)"

definition differences :: "pv \<Rightarrow> pv \<Rightarrow> string list" where
  "differences reference candidate = (case (reference, candidate) of
     (PDict r, PDict c) \<Rightarrow> filter (field_differs r c) order_fields | _ \<Rightarrow> order_fields)"

record copy =
  cp_reachable :: bool
  cp_order :: pv
  cp_comparison :: string
  cp_different :: "string list"

definition read_copy :: "pv res \<Rightarrow> copy" where
  "read_copy r = (case r of Inr v \<Rightarrow> \<lparr>cp_reachable = True, cp_order = v, cp_comparison = [], cp_different = []\<rparr>
     | Inl _ \<Rightarrow> \<lparr>cp_reachable = False, cp_order = PNone, cp_comparison = [], cp_different = []\<rparr>)"

text \<open>The search answers the orders it found; more than one document of the id is an error.\<close>

definition find_exact :: "ustr \<Rightarrow> pdict list res \<Rightarrow> pv res" where
  "find_exact oid found = bind_res found (\<lambda>orders. case filter (\<lambda>o'. dget o' ''id'' = PStr oid) orders of
     [] \<Rightarrow> Inr PNone | [o'] \<Rightarrow> Inr (PDict o') | _ \<Rightarrow> Inl (Value_Error ''duplicate search document''))"

record inspection =
  ip_stable :: bool
  ip_valid :: bool
  ip_sql :: copy
  ip_cache :: copy
  ip_search :: copy

definition compare_copy :: "bool \<Rightarrow> pv \<Rightarrow> copy \<Rightarrow> copy" where
  "compare_copy trusted original c =
     (if \<not> trusted \<or> \<not> cp_reachable c then c\<lparr>cp_comparison := ''unknown''\<rparr>
      else if cp_order c = PNone then c\<lparr>cp_comparison := ''missing''\<rparr>
      else let d = differences original (cp_order c) in
        c\<lparr>cp_different := d, cp_comparison := (if d = [] then ''match'' else ''mismatch'')\<rparr>)"

definition inspect_order :: "(ustr \<Rightarrow> bool) \<Rightarrow> pv res \<Rightarrow> pv res \<Rightarrow> pdict list res \<Rightarrow> pv res \<Rightarrow> pv \<Rightarrow> inspection res" where
  "inspect_order iso_ok first cached found latest order_id = bind_res (order_identifier order_id) (\<lambda>oid.
     let f = read_copy first; l = read_copy latest;
         stable = cp_reachable f \<and> cp_reachable l \<and> py_eq (cp_order f) (cp_order l);
         valid = truthy (cp_order l) \<and> is_ok (validate_event iso_ok (PDict [(u ''schema_version'', PInt 1),
             (u ''event_id'', order_id), (u ''order'', cp_order l)]))
     in Inr \<lparr>ip_stable = stable, ip_valid = valid, ip_sql = l,
          ip_cache = compare_copy (stable \<and> valid) (cp_order l) (read_copy cached),
          ip_search = compare_copy (stable \<and> valid) (cp_order l) (read_copy (find_exact oid found))\<rparr>)"

section \<open>Intents\<close>

record response =
  rs_status :: int
  rs_payload :: pdict

record intent =
  in_payload :: pdict
  in_ids :: "pv list"
  in_ack :: "(ustr \<times> pdict) list"
  in_updates :: "(pv \<times> pv) list"

record runner =
  rn_intents :: "(ustr \<times> intent) list"
  rn_contract :: "string list"

definition contract :: "string \<Rightarrow> runner \<Rightarrow> runner" where
  "contract code r = r\<lparr>rn_contract := rn_contract r @ [code]\<rparr>"

definition register :: "ustr \<Rightarrow> pdict \<Rightarrow> runner \<Rightarrow> runner" where
  "register key payload r = (if key \<in> fst ` set (rn_intents r) then r
     else r\<lparr>rn_intents := rn_intents r @ [(key, \<lparr>in_payload = payload, in_ids = [], in_ack = [], in_updates = []\<rparr>)]\<rparr>)"

definition update_intent :: "ustr \<Rightarrow> (intent \<Rightarrow> intent) \<Rightarrow> runner \<Rightarrow> runner" where
  "update_intent key f r = r\<lparr>rn_intents := map (\<lambda>(k, i). (k, if k = key then f i else i)) (rn_intents r)\<rparr>"

definition outcome :: "int \<Rightarrow> string" where
  "outcome status = (if 200 \<le> status \<and> status < 300 then ''success'' else if status = 409 then ''conflict''
     else if status = 0 then ''client_unknown'' else ''error'')"

definition payload_fields :: "string list" where
  "payload_fields = [''item'', ''quantity'', ''unit_price'']"

text \<open>\<open>any(order.get(k) != payload[k] for k in (...))\<close>\<close>

definition payload_changed :: "pdict \<Rightarrow> pdict \<Rightarrow> bool" where
  "payload_changed order payload = list_ex (\<lambda>k. \<not> py_eq (dget order k) (dget payload k)) payload_fields"

definition version_text :: "(pv \<Rightarrow> ustr) \<Rightarrow> pv \<Rightarrow> ustr" where
  "version_text strf v = (case v of PInt n \<Rightarrow> int_text n | _ \<Rightarrow> strf v)"

definition put_ack :: "ustr \<Rightarrow> pdict \<Rightarrow> (ustr \<times> pdict) list \<Rightarrow> (ustr \<times> pdict) list" where
  "put_ack v order d = (if v \<in> fst ` set d then map (\<lambda>(k, w). (k, if k = v then order else w)) d else d @ [(v, order)])"

definition acknowledged :: "(pv \<Rightarrow> ustr) \<Rightarrow> pdict \<Rightarrow> intent \<Rightarrow> intent" where
  "acknowledged strf order i = i\<lparr>
     in_ids := (if list_ex (py_eq (dget order ''id'')) (in_ids i) then in_ids i else in_ids i @ [dget order ''id'']),
     in_ack := put_ack (version_text strf (dget order ''version'')) order (in_ack i)\<rparr>"

definition acknowledge :: "(pv \<Rightarrow> ustr) \<Rightarrow> ustr \<Rightarrow> response \<Rightarrow> runner \<Rightarrow> runner res" where
  "acknowledge strf key rs r =
     (if rs_status rs \<notin> {200, 201} then Inr r
      else case dget (rs_payload rs) ''order'' of
        PDict order \<Rightarrow>
          if \<not> list_all (\<lambda>k. u k \<in> fst ` set order) order_fields then Inr (contract ''invalid_order_acknowledgement'' r)
          else (case map_of (rn_intents r) key of None \<Rightarrow> Inl Key_Error
            | Some i \<Rightarrow>
              let i' = acknowledged strf order i;
                  note = (\<lambda>b code s. if b then contract code s else s);
                  old = map_of (in_ack i) (version_text strf (dget order ''version''))
              in Inr (update_intent key (\<lambda>_. i')
                (note (case old of None \<Rightarrow> False | Some w \<Rightarrow> differences (PDict w) (PDict order) \<noteq> []) ''same_version_different_content''
                (note (1 < length (in_ids i')) ''same_key_multiple_order_ids''
                (note (payload_changed order (in_payload i)) ''acknowledged_payload_changed'' r)))))
      | _ \<Rightarrow> Inr (contract ''invalid_order_acknowledgement'' r))"

definition run_create :: "(pv \<Rightarrow> ustr) \<Rightarrow> ustr \<Rightarrow> pdict \<Rightarrow> response \<Rightarrow> runner \<Rightarrow> runner res" where
  "run_create strf key payload rs r = acknowledge strf key rs (register key payload r)"

definition run_update :: "(pv \<Rightarrow> ustr) \<Rightarrow> ustr \<Rightarrow> pdict \<Rightarrow> pv \<Rightarrow> response \<Rightarrow> runner \<Rightarrow> runner res" where
  "run_update strf key order status rs r = (case dget order ''version'' of
     PInt n \<Rightarrow> acknowledge strf key rs (update_intent key (\<lambda>i. i\<lparr>in_updates := in_updates i @ [(PInt (n + 1), status)]\<rparr>) r)
   | _ \<Rightarrow> Inl Type_Error)"

section \<open>One row of an audit\<close>

record audit_row =
  ar_state :: string
  ar_consistent :: bool
  ar_errors :: "ustr list"

text \<open>\<open>ack[max(ack, key=int)]\<close>: the first entry with the greatest number.\<close>

definition later_ack :: "int \<Rightarrow> pdict \<Rightarrow> (int \<times> pdict) option \<Rightarrow> int \<times> pdict" where
  "later_ack n order r = (case r of Some (m, w) \<Rightarrow> if n < m then (m, w) else (n, order) | None \<Rightarrow> (n, order))"

fun latest_ack :: "(ustr \<Rightarrow> int option) \<Rightarrow> (ustr \<times> pdict) list \<Rightarrow> (int \<times> pdict) option res" where
  "latest_ack pint [] = Inr None"
| "latest_ack pint ((v, order) # d) = (case pint v of None \<Rightarrow> Inl (Value_Error ''invalid literal for int()'')
     | Some n \<Rightarrow> bind_res (latest_ack pint d) (\<lambda>r. Inr (Some (later_ack n order r))))"

definition ack_errors :: "intent \<Rightarrow> pdict \<Rightarrow> pdict \<Rightarrow> string list res" where
  "ack_errors i sql latest = (case dget sql ''version'' of
       PInt n \<Rightarrow> (case dget latest ''version'' of
           PInt m \<Rightarrow> if n < m then Inr [''acknowledged_version_missing'']
             else if n = m then Inr (if differences (PDict latest) (PDict sql) \<noteq> [] then [''acknowledged_content_mismatch''] else [])
             else (case map_of sql (u ''status'') of None \<Rightarrow> Inl Key_Error
               | Some st \<Rightarrow> Inr (if list_ex (\<lambda>(v, s). py_eq (PInt n) v \<and> py_eq st s) (in_updates i) then [] else [''unexpected_source_version'']))
         | _ \<Rightarrow> Inl Type_Error)
     | _ \<Rightarrow> Inr [''acknowledged_version_missing''])"

definition source_errors :: "(ustr \<Rightarrow> int option) \<Rightarrow> intent \<Rightarrow> pdict \<Rightarrow> string list res" where
  "source_errors pint i sql =
     (let e1 = (if payload_changed sql (in_payload i) then [''source_payload_mismatch''] else []);
          e2 = (if 1 < length (in_ids i) \<or> in_ids i \<noteq> [] \<and> \<not> list_ex (py_eq (dget sql ''id'')) (in_ids i)
                then [''idempotency_identity_mismatch''] else [])
      in bind_res (latest_ack pint (in_ack i)) (\<lambda>latest. case latest of
           None \<Rightarrow> Inr (e1 @ e2)
         | Some (n, w) \<Rightarrow> bind_res (ack_errors i sql w) (\<lambda>e3. Inr (e1 @ e2 @ e3))))"

definition sub_dict :: "pdict \<Rightarrow> string \<Rightarrow> pdict res" where
  "sub_dict d k = (case dget_or (PDict []) d k of PDict e \<Rightarrow> Inr e | _ \<Rightarrow> Inl (Other_Error ''AttributeError''))"

text \<open>\<open>data.get(k, {}).get("comparison", "unknown")\<close>, which must be a string to be reported.\<close>

definition comparison_of :: "pdict \<Rightarrow> string \<Rightarrow> ustr res" where
  "comparison_of data k = bind_res (sub_dict data k) (\<lambda>e. case dget_or (PStr (u ''unknown'')) e ''comparison'' of
     PStr s \<Rightarrow> Inr s | _ \<Rightarrow> Inl Type_Error)"

definition copy_errors :: "pdict \<Rightarrow> pdict \<Rightarrow> ustr list res" where
  "copy_errors sql data =
     bind_res (sub_dict data ''mariadb'') (\<lambda>maria.
     bind_res (comparison_of data ''elasticsearch'') (\<lambda>search.
     bind_res (comparison_of data ''redis'') (\<lambda>cache. Inr (
       (if differences (PDict sql) (dget maria ''order'') \<noteq> [] then [u ''source_changed_between_observations''] else []) @
       (if \<not> truthy (dget data ''sql_stable_during_observation'') \<or> \<not> truthy (dget data ''authoritative_valid'')
        then [u ''unstable_or_invalid_source''] else []) @
       (if search \<noteq> u ''match'' then [u ''search_'' @ search] else []) @
       (if cache \<notin> {u ''match'', u ''missing''} then [u ''cache_'' @ cache] else [])))))"

definition inspect_intent :: "(ustr \<Rightarrow> int option) \<Rightarrow> intent \<Rightarrow> response \<Rightarrow> response option \<Rightarrow> audit_row res" where
  "inspect_intent pint i lookup observed =
     (if rs_status lookup \<noteq> 200 then Inr \<lparr>ar_state = ''unresolved'', ar_consistent = False, ar_errors = []\<rparr>
      else case dget (rs_payload lookup) ''order'' of
        PNone \<Rightarrow> Inr \<lparr>ar_state = (if in_ack i \<noteq> [] then ''acknowledged_missing'' else ''unacknowledged_absent''),
            ar_consistent = (in_ack i = []), ar_errors = []\<rparr>
      | PDict sql \<Rightarrow> bind_res (source_errors pint i sql) (\<lambda>found. let errors = map u found in
          case observed of None \<Rightarrow> Inr \<lparr>ar_state = ''unresolved'', ar_consistent = False, ar_errors = errors\<rparr>
          | Some ob \<Rightarrow>
            if rs_status ob \<noteq> 200 then Inr \<lparr>ar_state = ''unresolved'', ar_consistent = False, ar_errors = errors\<rparr>
            else bind_res (copy_errors sql (rs_payload ob)) (\<lambda>more.
              Inr \<lparr>ar_state = (if in_ack i \<noteq> [] then ''acknowledged_present'' else ''present_without_ack''),
                ar_consistent = (errors @ more = []), ar_errors = errors @ more\<rparr>))
      | _ \<Rightarrow> Inl (Other_Error ''AttributeError''))"

section \<open>Audit rounds\<close>

text \<open>What an audit observes of a key: nothing any more (the deadline has passed), or the two answers.\<close>

type_synonym round_obs = "ustr \<Rightarrow> (response \<times> response option) option"

record audit_report =
  au_rows :: "audit_row list"
  au_consistent :: bool
  au_acknowledged :: nat

definition row_of :: "(ustr \<Rightarrow> int option) \<Rightarrow> round_obs \<Rightarrow> ustr \<Rightarrow> intent \<Rightarrow> audit_row res" where
  "row_of pint obs key i = (case obs key of
       None \<Rightarrow> Inr \<lparr>ar_state = ''not_observed_before_deadline'', ar_consistent = False, ar_errors = []\<rparr>
     | Some (lookup, observed) \<Rightarrow> inspect_intent pint i lookup
         (if rs_status lookup = 200 \<and> truthy (dget (rs_payload lookup) ''order'') then observed else None))"

fun audit_rows :: "(ustr \<Rightarrow> int option) \<Rightarrow> round_obs \<Rightarrow> (ustr \<times> intent) list \<Rightarrow> audit_row list res" where
  "audit_rows pint obs [] = Inr []"
| "audit_rows pint obs ((key, i) # rest) = bind_res (row_of pint obs key i) (\<lambda>row.
     bind_res (audit_rows pint obs rest) (\<lambda>rows. Inr (row # rows)))"

definition audit_round :: "(ustr \<Rightarrow> int option) \<Rightarrow> round_obs \<Rightarrow> (ustr \<times> intent) list \<Rightarrow> audit_report res" where
  "audit_round pint obs intents = bind_res (audit_rows pint obs intents) (\<lambda>rows.
     Inr \<lparr>au_rows = rows, au_consistent = (rows \<noteq> [] \<and> list_all ar_consistent rows),
       au_acknowledged = length (filter (\<lambda>(k, i). in_ack i \<noteq> []) intents)\<rparr>)"

record convergence =
  cv_consistent :: bool
  cv_streak :: nat
  cv_latest :: audit_report

text \<open>The rounds observed until the deadline or a cancellation.\<close>

fun converge_from :: "(ustr \<Rightarrow> int option) \<Rightarrow> (ustr \<times> intent) list \<Rightarrow> nat \<Rightarrow> audit_report \<Rightarrow> round_obs list \<Rightarrow> convergence res" where
  "converge_from pint intents streak latest [] = Inr \<lparr>cv_consistent = False, cv_streak = streak, cv_latest = latest\<rparr>"
| "converge_from pint intents streak latest (obs # rest) = bind_res (audit_round pint obs intents) (\<lambda>a.
     let n = (if au_consistent a \<and> au_acknowledged a \<noteq> 0 then streak + 1 else 0) in
     if 2 \<le> n then Inr \<lparr>cv_consistent = True, cv_streak = n, cv_latest = a\<rparr>
     else converge_from pint intents n a rest)"

definition converge :: "(ustr \<Rightarrow> int option) \<Rightarrow> (ustr \<times> intent) list \<Rightarrow> round_obs list \<Rightarrow> convergence res" where
  "converge pint intents rounds = converge_from pint intents 0 \<lparr>au_rows = [], au_consistent = False, au_acknowledged = 0\<rparr> rounds"

section \<open>The verdict\<close>

record verdict_in =
  vi_final :: convergence
  vi_context_stable :: "bool option"
  vi_planned :: nat
  vi_admitted :: nat
  vi_skipped :: nat
  vi_requests :: nat
  vi_effect :: bool
  vi_action :: bool
  vi_started :: bool
  vi_completed :: bool
  vi_reachable :: pv
  vi_baseline_errors :: bool
  vi_scenario :: string

definition verdict_contract :: "verdict_in \<Rightarrow> runner \<Rightarrow> runner" where
  "verdict_contract v r =
     (let note = (\<lambda>b code s. if b then contract code s else s) in
      note (vi_admitted v = 0 \<or> vi_requests v = 0) ''no_workload_observed''
      (note (vi_admitted v + vi_skipped v \<noteq> vi_planned v) ''planned_workflow_accounting_mismatch''
      (note (vi_context_stable v = Some False) ''experiment_context_changed'' r)))"

definition verdict :: "verdict_in \<Rightarrow> runner \<Rightarrow> string" where
  "verdict v r =
     (let errors = rn_contract (verdict_contract v r);
          fault_ok = (\<not> vi_action v \<or> vi_started v \<and> vi_completed v);
          ok = (cv_consistent (vi_final v) \<and> errors = [] \<and> fault_ok \<and> vi_reachable v = PBool True);
          all_ok = (if vi_scenario v \<in> {''baseline'', ''version-race'', ''duplicate-retry''} \<and> vi_baseline_errors v then False else ok)
      in if all_ok \<and> vi_effect v then ''passed'' else if all_ok then ''inconclusive'' else ''failed'')"

section \<open>A run of the workload\<close>

datatype run_action = Created ustr pdict response | Updated ustr pdict pv response

fun event_key_of :: "run_action \<Rightarrow> ustr" where
  "event_key_of (Created key payload rs) = key"
| "event_key_of (Updated key order status rs) = key"

fun event_response :: "run_action \<Rightarrow> response" where
  "event_response (Created key payload rs) = rs"
| "event_response (Updated key order status rs) = rs"

fun run_event :: "(pv \<Rightarrow> ustr) \<Rightarrow> run_action \<Rightarrow> runner \<Rightarrow> runner res" where
  "run_event strf (Created key payload rs) r = run_create strf key payload rs r"
| "run_event strf (Updated key order status rs) r = run_update strf key order status rs r"

fun run_events :: "(pv \<Rightarrow> ustr) \<Rightarrow> run_action list \<Rightarrow> runner \<Rightarrow> runner res" where
  "run_events strf [] r = Inr r"
| "run_events strf (e # es) r = bind_res (run_event strf e r) (run_events strf es)"

definition acks :: "run_action \<Rightarrow> int \<Rightarrow> bool" where
  "acks e n \<longleftrightarrow> rs_status (event_response e) \<in> {200, 201} \<and> (\<exists>order. dget (rs_payload (event_response e)) ''order'' = PDict order
     \<and> list_all (\<lambda>k. u k \<in> fst ` set order) order_fields \<and> dget order ''version'' = PInt n)"

definition look :: "runner \<Rightarrow> ustr \<Rightarrow> intent option" where
  "look r k = map_of (rn_intents r) k"

lemma look_contract [simp]: "look (contract c r) k = look r k"
  by (simp add: look_def contract_def)

lemma look_update [simp]: "look (update_intent key f r) k = (if k = key then map_option f (look r k) else look r k)"
proof -
  have "map_of (map (\<lambda>(k, i). (k, if k = key then f i else i)) d) k = (if k = key then map_option f (map_of d k) else map_of d k)" for d
    by (induction d) auto
  then show ?thesis by (simp add: look_def update_intent_def)
qed

definition fresh_intent :: "pdict \<Rightarrow> intent" where
  "fresh_intent payload = \<lparr>in_payload = payload, in_ids = [], in_ack = [], in_updates = []\<rparr>"

lemma look_register: "look (register key payload r) k =
    (if k = key \<and> look r k = None then Some (fresh_intent payload) else look r k)"
proof (cases "key \<in> fst ` set (rn_intents r)")
  case True
  then have "look r key \<noteq> None" by (simp add: look_def map_of_eq_None_iff)
  then show ?thesis using True by (auto simp: register_def)
next
  case False
  then have "look r key = None" by (simp add: look_def map_of_eq_None_iff)
  then show ?thesis using False by (cases "look r k") (auto simp: register_def look_def fresh_intent_def map_add_def)
qed

lemma acknowledge_cases:
  assumes "acknowledge strf key rs r = Inr r'"
  obtains (kept) "\<And>k. look r' k = look r k" "\<not> (rs_status rs \<in> {200, 201} \<and> (\<exists>order. dget (rs_payload rs) ''order'' = PDict order \<and>
      list_all (\<lambda>k. u k \<in> fst ` set order) order_fields))"
  | (noted) order i where "dget (rs_payload rs) ''order'' = PDict order" "look r key = Some i"
    "\<And>k. look r' k = (if k = key then Some (acknowledged strf order i) else look r k)"
proof (cases "rs_status rs \<in> {200, 201} \<and> (\<exists>order. dget (rs_payload rs) ''order'' = PDict order \<and>
      list_all (\<lambda>k. u k \<in> fst ` set order) order_fields)")
  case True
  then obtain order where o': "rs_status rs \<in> {200, 201}" "dget (rs_payload rs) ''order'' = PDict order"
    "list_all (\<lambda>k. u k \<in> fst ` set order) order_fields" by blast
  then obtain i where i: "map_of (rn_intents r) key = Some i"
    using assms by (cases "map_of (rn_intents r) key") (auto simp: acknowledge_def)
  have "look r' k = (if k = key then Some (acknowledged strf order i) else look r k)" for k
    using assms o' i by (auto simp: acknowledge_def Let_def look_def [of r])
  then show ?thesis using noted o'(2) i by (simp add: look_def)
next
  case False
  have "look r' k = look r k" for k
    using assms False by (auto simp: acknowledge_def split: if_splits pv.splits)
  with False kept show ?thesis by blast
qed

definition ack_texts :: "(pv \<Rightarrow> ustr) \<Rightarrow> runner \<Rightarrow> bool" where
  "ack_texts strf r \<longleftrightarrow> (\<forall>k i. look r k = Some i \<longrightarrow> (\<forall>(t, w)\<in>set (in_ack i). t = version_text strf (dget w ''version'')))"

definition holds_ack :: "ustr \<Rightarrow> int \<Rightarrow> runner \<Rightarrow> bool" where
  "holds_ack key n r \<longleftrightarrow> (\<exists>i. look r key = Some i \<and> int_text n \<in> fst ` set (in_ack i))"

lemma put_ack_keys: "fst ` set (put_ack v order d) = insert v (fst ` set d)"
  by (force simp: put_ack_def image_iff)

lemma put_ack_texts:
  "(\<forall>(t, w)\<in>set d. t = version_text strf (dget w ''version'')) \<Longrightarrow>
   (\<forall>(t, w)\<in>set (put_ack (version_text strf (dget order ''version'')) order d). t = version_text strf (dget w ''version''))"
  by (auto simp: put_ack_def)

lemma acknowledge_keeps:
  assumes "acknowledge strf key rs r = Inr r'" "ack_texts strf r"
  shows "ack_texts strf r'" "holds_ack k n r \<Longrightarrow> holds_ack k n r'"
proof -
  from assms(1) show "ack_texts strf r'"
  proof (cases rule: acknowledge_cases)
    case kept
    then show ?thesis using assms(2) by (simp add: ack_texts_def)
  next
    case (noted order i)
    then show ?thesis using assms(2) put_ack_texts [of "in_ack i" strf order]
      by (auto simp: ack_texts_def acknowledged_def split: if_splits)
  qed
  from assms(1) show "holds_ack k n r \<Longrightarrow> holds_ack k n r'"
  proof (cases rule: acknowledge_cases)
    case kept
    then show "holds_ack k n r \<Longrightarrow> holds_ack k n r'" by (simp add: holds_ack_def)
  next
    case (noted order i)
    then show "holds_ack k n r \<Longrightarrow> holds_ack k n r'"
      by (auto simp: holds_ack_def acknowledged_def put_ack_keys)
  qed
qed

lemma acknowledge_holds:
  assumes "acknowledge strf key rs r = Inr r'" "rs_status rs \<in> {200, 201}" "dget (rs_payload rs) ''order'' = PDict order"
    "list_all (\<lambda>k. u k \<in> fst ` set order) order_fields" "dget order ''version'' = PInt n"
  shows "holds_ack key n r'"
  using assms(1)
proof (cases rule: acknowledge_cases)
  case kept
  then show ?thesis using assms by blast
next
  case (noted order' i)
  then show ?thesis using assms by (auto simp: holds_ack_def acknowledged_def put_ack_keys version_text_def)
qed

lemma register_keeps:
  "ack_texts strf r \<Longrightarrow> ack_texts strf (register key payload r)"
  "holds_ack k n r \<Longrightarrow> holds_ack k n (register key payload r)"
  by (auto simp: ack_texts_def holds_ack_def look_register fresh_intent_def)

lemma updates_keep:
  "ack_texts strf r \<Longrightarrow> ack_texts strf (update_intent key (\<lambda>i. i\<lparr>in_updates := f i\<rparr>) r)"
  "holds_ack k n r \<Longrightarrow> holds_ack k n (update_intent key (\<lambda>i. i\<lparr>in_updates := f i\<rparr>) r)"
proof -
  let ?r = "update_intent key (\<lambda>i. i\<lparr>in_updates := f i\<rparr>) r"
  show "ack_texts strf ?r" if a: "ack_texts strf r" unfolding ack_texts_def
  proof (intro allI impI)
    fix k i assume "look ?r k = Some i"
    then obtain j where "look r k = Some j" and same: "in_ack i = in_ack j" by (auto split: if_splits)
    then have "\<forall>(t, w)\<in>set (in_ack j). t = version_text strf (dget w ''version'')" using a unfolding ack_texts_def by blast
    then show "\<forall>(t, w)\<in>set (in_ack i). t = version_text strf (dget w ''version'')" by (simp add: same)
  qed
  show "holds_ack k n ?r" if "holds_ack k n r"
  proof -
    from that obtain i where "look r k = Some i" "int_text n \<in> fst ` set (in_ack i)" by (auto simp only: holds_ack_def)
    then show ?thesis unfolding holds_ack_def
      by (intro exI [of _ "if k = key then i\<lparr>in_updates := f i\<rparr> else i"]) auto
  qed
qed

lemma event_acknowledges:
  assumes "run_event strf e r = Inr r'" "ack_texts strf r"
  obtains r1 where "acknowledge strf (event_key_of e) (event_response e) r1 = Inr r'" "ack_texts strf r1"
    "\<And>k n. holds_ack k n r \<Longrightarrow> holds_ack k n r1"
proof (cases e)
  case (Created key payload rs)
  then show ?thesis using assms that [of "register key payload r"] register_keeps by (simp add: run_create_def)
next
  case (Updated key order status rs)
  then obtain m where "dget order ''version'' = PInt m"
    "acknowledge strf key rs (update_intent key (\<lambda>i. i\<lparr>in_updates := in_updates i @ [(PInt (m + 1), status)]\<rparr>) r) = Inr r'"
    using assms(1) by (auto simp: run_update_def split: pv.splits)
  then show ?thesis using Updated assms(2) that updates_keep by simp
qed

lemma run_events_keep:
  "run_events strf es r = Inr r' \<Longrightarrow> ack_texts strf r \<Longrightarrow> ack_texts strf r' \<and> (holds_ack k n r \<longrightarrow> holds_ack k n r')"
proof (induction es arbitrary: r)
  case (Cons e es)
  then obtain r1 where r1: "run_event strf e r = Inr r1" "run_events strf es r1 = Inr r'" by (auto simp: bind_res_Inr_iff)
  from event_acknowledges [OF r1(1) Cons.prems(2)] obtain r2 where
    r2: "acknowledge strf (event_key_of e) (event_response e) r2 = Inr r1" "ack_texts strf r2" "holds_ack k n r \<Longrightarrow> holds_ack k n r2"
    by metis
  then show ?case using Cons.IH [OF r1(2)] acknowledge_keeps [OF r2(1,2)] by blast
qed simp

lemma run_events_append: "run_events strf (es @ es') r = bind_res (run_events strf es r) (run_events strf es')"
proof (induction es arbitrary: r)
  case (Cons e es)
  then show ?case by (cases "run_event strf e r") simp_all
qed simp

lemma run_events_acked:
  assumes "run_events strf (es1 @ e # es2) r = Inr r'" "ack_texts strf r" "acks e n"
  shows "ack_texts strf r' \<and> holds_ack (event_key_of e) n r'"
proof -
  obtain r1 r2 where r: "run_events strf es1 r = Inr r1" "run_event strf e r1 = Inr r2" "run_events strf es2 r2 = Inr r'"
    using assms(1) by (auto simp: run_events_append bind_res_Inr_iff)
  have ok1: "ack_texts strf r1" using run_events_keep [OF r(1) assms(2)] by blast
  from event_acknowledges [OF r(2) ok1] obtain r3 where
    r3: "acknowledge strf (event_key_of e) (event_response e) r3 = Inr r2" "ack_texts strf r3" by metis
  from assms(3) obtain order where "rs_status (event_response e) \<in> {200, 201}" "dget (rs_payload (event_response e)) ''order'' = PDict order"
    "list_all (\<lambda>k. u k \<in> fst ` set order) order_fields" "dget order ''version'' = PInt n" by (auto simp: acks_def)
  then have "holds_ack (event_key_of e) n r2" by (rule acknowledge_holds [OF r3(1)])
  then show ?thesis using run_events_keep [OF r(3)] acknowledge_keeps(1) [OF r3] by blast
qed

section \<open>What a passed run shows\<close>

lemma latest_ack_some: "latest_ack pint (x # d) = Inr r \<Longrightarrow> r \<noteq> None"
  by (cases x) (auto simp: bind_res_Inr_iff split: option.splits)

lemma latest_ack_max:
  assumes "latest_ack pint d = Inr r" "(t, w0) \<in> set d" "pint t = Some n"
  shows "\<exists>m w t'. r = Some (m, w) \<and> n \<le> m \<and> (t', w) \<in> set d \<and> pint t' = Some m"
  using assms
proof (induction d arbitrary: r t w0 n)
  case (Cons e d)
  obtain v order where e: "e = (v, order)" by fastforce
  obtain k rest where k: "pint v = Some k" "latest_ack pint d = Inr rest"
    and r: "r = Some (later_ack k order rest)"
    using Cons.prems(1) by (auto simp: e bind_res_Inr_iff split: option.splits)
  show ?case
  proof (cases rest)
    case None
    have "d = []"
    proof (rule ccontr)
      assume "d \<noteq> []"
      then obtain x xs where "d = x # xs" by (cases d) auto
      with k(2) latest_ack_some None show False by blast
    qed
    then show ?thesis using Cons.prems k r None by (auto simp: e later_ack_def)
  next
    case (Some x)
    obtain m w where x: "x = (m, w)" by fastforce
    have old: "\<exists>t'. (t', w) \<in> set d \<and> pint t' = Some m"
    proof -
      have "d \<noteq> []" using k(2) Some by (cases d) auto
      then obtain t1 w1 where t1: "(t1, w1) \<in> set d" by (cases d) auto
      obtain n1 where "pint t1 = Some n1" using k(2) t1
        by (induction d arbitrary: rest) (auto simp: bind_res_Inr_iff split: option.splits)
      from Cons.IH [OF k(2) t1 this] show ?thesis using Some x by auto
    qed
    have max: "n \<le> m" if "(t, w0) \<in> set d" using Cons.IH [OF k(2) that Cons.prems(3)] Some x by auto
    show ?thesis
    proof (cases "k < m")
      case True
      then have "r = Some (m, w)" using r Some x by (simp add: later_ack_def)
      moreover have "n \<le> m" using max Cons.prems(2,3) k(1) True by (auto simp: e)
      ultimately show ?thesis using old by auto
    next
      case False
      then have "r = Some (k, order)" using r Some x by (simp add: later_ack_def)
      moreover have "n \<le> k" using max Cons.prems(2,3) k(1) False by (auto simp: e)
      ultimately show ?thesis using k(1) by (auto simp: e)
    qed
  qed
qed simp

lemma inspect_intent_consistent:
  assumes "inspect_intent pint i lookup observed = Inr row" "ar_consistent row" "in_ack i \<noteq> []"
  obtains sql ob where "rs_status lookup = 200" "dget (rs_payload lookup) ''order'' = PDict sql" "observed = Some ob"
    "rs_status ob = 200" "source_errors pint i sql = Inr []" "copy_errors sql (rs_payload ob) = Inr []"
proof (cases "rs_status lookup = 200")
  case True
  then show ?thesis
  proof (cases "dget (rs_payload lookup) ''order''")
    case (PDict sql)
    then obtain errors where errors: "source_errors pint i sql = Inr errors"
      using assms(1) True by (cases "source_errors pint i sql") (simp_all add: inspect_intent_def)
    show ?thesis
    proof (cases observed)
      case (Some ob)
      show ?thesis
      proof (cases "rs_status ob = 200")
        case ok: True
        obtain more where "copy_errors sql (rs_payload ob) = Inr more"
          using assms(1) True PDict errors Some ok by (cases "copy_errors sql (rs_payload ob)") (simp_all add: inspect_intent_def Let_def)
        then show ?thesis using that assms True PDict errors Some ok
          by (auto simp: inspect_intent_def Let_def)
      qed (use assms True PDict errors Some in \<open>auto simp: inspect_intent_def Let_def\<close>)
    qed (use assms True PDict errors in \<open>auto simp: inspect_intent_def Let_def\<close>)
  qed (use assms True in \<open>auto simp: inspect_intent_def\<close>)
qed (use assms in \<open>auto simp: inspect_intent_def\<close>)

lemma audit_rows_key:
  "audit_rows pint obs intents = Inr rows \<Longrightarrow> list_all ar_consistent rows \<Longrightarrow> (key, i) \<in> set intents \<Longrightarrow>
   \<exists>row. row_of pint obs key i = Inr row \<and> ar_consistent row"
  by (induction intents arbitrary: rows) (auto simp: bind_res_Inr_iff)

lemma converge_round:
  "converge_from pint intents streak latest rounds = Inr c \<Longrightarrow> cv_consistent c \<Longrightarrow>
   \<exists>obs\<in>set rounds. \<exists>rows. audit_rows pint obs intents = Inr rows \<and> list_all ar_consistent rows"
proof (induction rounds arbitrary: streak latest)
  case (Cons obs rounds)
  obtain a where a: "audit_round pint obs intents = Inr a" using Cons.prems(1) by (auto simp: bind_res_Inr_iff)
  let ?n = "if au_consistent a \<and> au_acknowledged a \<noteq> 0 then streak + 1 else 0"
  show ?case
  proof (cases "2 \<le> ?n")
    case True
    then have "au_consistent a" by (auto split: if_splits)
    then show ?thesis using a by (auto simp: audit_round_def bind_res_Inr_iff)
  next
    case False
    then have "converge_from pint intents ?n a rounds = Inr c" using Cons.prems(1) by (auto simp: a Let_def)
    then show ?thesis using Cons.IH Cons.prems(2) by auto
  qed
qed auto

definition acked_ids :: "runner \<Rightarrow> bool" where
  "acked_ids r \<longleftrightarrow> (\<forall>k i. look r k = Some i \<longrightarrow> in_ack i \<noteq> [] \<longrightarrow> in_ids i \<noteq> [])"

lemma acknowledge_ids: "acknowledge strf key rs r = Inr r' \<Longrightarrow> acked_ids r \<Longrightarrow> acked_ids r'"
  by (erule acknowledge_cases) (auto simp: acked_ids_def acknowledged_def split: if_splits)

lemma run_event_ids: "run_event strf e r = Inr r' \<Longrightarrow> acked_ids r \<Longrightarrow> acked_ids r'"
proof (cases e)
  case (Created key payload rs)
  assume run: "run_event strf e r = Inr r'" and ids: "acked_ids r"
  have "acked_ids (register key payload r)" using ids by (auto simp: acked_ids_def look_register fresh_intent_def)
  with run Created acknowledge_ids show ?thesis by (auto simp: run_create_def)
next
  case (Updated key order status rs)
  assume run: "run_event strf e r = Inr r'" and ids: "acked_ids r"
  have "acked_ids (update_intent key (\<lambda>i. i\<lparr>in_updates := f i\<rparr>) r)" for f using ids by (auto simp: acked_ids_def)
  with run Updated acknowledge_ids show ?thesis by (auto simp: run_update_def split: pv.splits)
qed

lemma ids_acked:
  assumes "run_events strf es \<lparr>rn_intents = [], rn_contract = []\<rparr> = Inr r" "look r k = Some i" "in_ack i \<noteq> []"
  shows "in_ids i \<noteq> []"
proof -
  have "run_events strf es r0 = Inr r1 \<Longrightarrow> acked_ids r0 \<Longrightarrow> acked_ids r1" for r0 r1
    by (induction es arbitrary: r0) (auto simp: bind_res_Inr_iff dest: run_event_ids)
  from this [OF assms(1)] have "acked_ids r" by (simp add: acked_ids_def look_def)
  then show ?thesis using assms(2,3) by (auto simp: acked_ids_def)
qed

lemma verdict_passed: "verdict v r = ''passed'' \<Longrightarrow> cv_consistent (vi_final v) \<and> rn_contract r = []"
  by (auto simp: verdict_def verdict_contract_def contract_def Let_def split: if_splits)

text \<open>C26: A passed run lost nothing. Take any run of the workload and any write in it the API acknowledged, with
  status 200 or 201 and an order of version \<open>n\<close>. If the final audits converge and the verdict is \<open>passed\<close>, then in one
  of the audit rounds the source answered for that write's key with an order of version at least \<open>n\<close>, with the payload
  that was sent and an identity that was acknowledged, and the search index was compared as equal to it; and no contract
  violation was recorded. Timeouts, conflicts and later updates in between do not change this.\<close>

theorem passed_run_lost_nothing:
  assumes "run_events strf (es1 @ e # es2) \<lparr>rn_intents = [], rn_contract = []\<rparr> = Inr r" "acks e n"
    and "converge pint (rn_intents r) rounds = Inr c" "verdict (v\<lparr>vi_final := c\<rparr>) r = ''passed''"
    and "\<And>k. pint (int_text k) = Some k"
  shows "rn_contract r = [] \<and> (\<exists>obs\<in>set rounds. \<exists>i lookup ob sql m. look r (event_key_of e) = Some i \<and>
    obs (event_key_of e) = Some (lookup, Some ob) \<and> dget (rs_payload lookup) ''order'' = PDict sql \<and>
    dget sql ''version'' = PInt m \<and> n \<le> m \<and> \<not> payload_changed sql (in_payload i) \<and>
    list_ex (py_eq (dget sql ''id'')) (in_ids i) \<and> comparison_of (rs_payload ob) ''elasticsearch'' = Inr (u ''match''))"
proof -
  have "ack_texts strf \<lparr>rn_intents = [], rn_contract = []\<rparr>" by (simp add: ack_texts_def look_def)
  from run_events_acked [OF assms(1) this assms(2)] have texts: "ack_texts strf r" and held: "holds_ack (event_key_of e) n r" by blast+
  from held obtain i w0 where i: "look r (event_key_of e) = Some i" "(int_text n, w0) \<in> set (in_ack i)"
    by (auto simp: holds_ack_def)
  then have ack: "in_ack i \<noteq> []" by auto
  from verdict_passed [OF assms(4)] have final: "cv_consistent c" "rn_contract r = []" by simp_all
  from converge_round [OF assms(3) [unfolded converge_def] final(1)] obtain obs rows where
    obs: "obs \<in> set rounds" "audit_rows pint obs (rn_intents r) = Inr rows" "list_all ar_consistent rows" by blast
  have "(event_key_of e, i) \<in> set (rn_intents r)" using i(1) by (simp add: look_def map_of_SomeD)
  from audit_rows_key [OF obs(2,3) this] obtain row where ro: "row_of pint obs (event_key_of e) i = Inr row" "ar_consistent row"
    by blast
  then obtain lookup observed where row: "obs (event_key_of e) = Some (lookup, observed)"
    "ar_consistent row" "inspect_intent pint i lookup (if rs_status lookup = 200 \<and> truthy (dget (rs_payload lookup) ''order'')
       then observed else None) = Inr row" by (cases "obs (event_key_of e)") (auto simp: row_of_def)
  from inspect_intent_consistent [OF row(3,2) ack] obtain sql ob where
    sql': "dget (rs_payload lookup) ''order'' = PDict sql" "(if rs_status lookup = 200 \<and> truthy (dget (rs_payload lookup) ''order'')
       then observed else None) = Some ob" "source_errors pint i sql = Inr []" "copy_errors sql (rs_payload ob) = Inr []" by blast
  then have sql: "dget (rs_payload lookup) ''order'' = PDict sql" "dget (rs_payload lookup) ''order'' = PDict sql"
    "observed = Some ob" "source_errors pint i sql = Inr []" "copy_errors sql (rs_payload ob) = Inr []" by (auto split: if_splits)
  from sql(4) obtain latest where latest: "latest_ack pint (in_ack i) = Inr latest"
    by (auto simp: source_errors_def Let_def bind_res_Inr_iff)
  from latest_ack_max [OF latest i(2) assms(5)] obtain k w t where
    w: "latest = Some (k, w)" "n \<le> k" "(t, w) \<in> set (in_ack i)" "pint t = Some k" by blast
  have same: "\<not> payload_changed sql (in_payload i)" "ack_errors i sql w = Inr []"
    "\<not> (1 < length (in_ids i) \<or> in_ids i \<noteq> [] \<and> \<not> list_ex (py_eq (dget sql ''id'')) (in_ids i))"
    using sql(4) latest w(1) by (auto simp: source_errors_def Let_def bind_res_Inr_iff split: if_splits)
  from same(2) obtain m k' where m: "dget sql ''version'' = PInt m" "dget w ''version'' = PInt k'" "k' \<le> m"
    by (auto simp: ack_errors_def split: pv.splits if_splits option.splits)
  have "\<forall>(t, w)\<in>set (in_ack i). t = version_text strf (dget w ''version'')" using texts i(1) unfolding ack_texts_def by blast
  then have "t = version_text strf (dget w ''version'')" using w(3) by auto
  then have "k' = k" using m(2) w(4) assms(5) by (simp add: version_text_def)
  have ids: "list_ex (py_eq (dget sql ''id'')) (in_ids i)" using ids_acked [OF assms(1) i(1) ack] same(3) by blast
  have search: "comparison_of (rs_payload ob) ''elasticsearch'' = Inr (u ''match'')"
    using sql(5) by (auto simp: copy_errors_def bind_res_Inr_iff split: if_splits)
  have "n \<le> m" using w(2) m(3) \<open>k' = k\<close> by simp
  show ?thesis
    by (intro conjI bexI [of _ obs] exI [of _ i] exI [of _ lookup] exI [of _ ob] exI [of _ sql] exI [of _ m])
      (fact final(2) i(1) row(1) [unfolded sql(3)] sql(2) m(1) \<open>n \<le> m\<close> same(1) ids search obs(1))+
qed

definition sim_order :: pdict where
  "sim_order = order_value \<lparr>o_id = u ''a1'', o_item = u ''book'', o_quantity = 2, o_unit_price = 5, o_total = 10,
     o_status = u ''created'', o_version = 1, o_created_at = u ''2025''\<rparr>"

definition sim_payload :: pdict where
  "sim_payload = [(u ''item'', PStr (u ''book'')), (u ''quantity'', PInt 2), (u ''unit_price'', PInt 5)]"

definition sim_answer :: response where
  "sim_answer = \<lparr>rs_status = 201, rs_payload = [(u ''order'', PDict sim_order)]\<rparr>"

definition sim_inspected :: response where
  "sim_inspected = \<lparr>rs_status = 200, rs_payload = [(u ''mariadb'', PDict [(u ''order'', PDict sim_order)]),
     (u ''sql_stable_during_observation'', PBool True), (u ''authoritative_valid'', PBool True),
     (u ''elasticsearch'', PDict [(u ''comparison'', PStr (u ''match''))]),
     (u ''redis'', PDict [(u ''comparison'', PStr (u ''missing''))])]\<rparr>"

definition sim_intent :: intent where
  "sim_intent = \<lparr>in_payload = sim_payload, in_ids = [PStr (u ''a1'')], in_ack = [(int_text 1, sim_order)], in_updates = []\<rparr>"

lemma sim_order_facts:
  "differences (PDict sim_order) (PDict sim_order) = []" "payload_changed sim_order sim_payload = False"
  "dget sim_order ''version'' = PInt 1" "dget sim_order ''id'' = PStr (u ''a1'')"
  "list_all (\<lambda>k. u k \<in> fst ` set sim_order) order_fields"
  by (simp_all add: differences_def field_differs_def order_fields_def sim_order_def order_value_def same_type_def leaf_eq_def
      number_of_value_def payload_changed_def payload_fields_def sim_payload_def)

lemma sim_created:
  "run_events strf [Created (u ''k1'') sim_payload sim_answer] \<lparr>rn_intents = [], rn_contract = []\<rparr>
     = Inr \<lparr>rn_intents = [(u ''k1'', sim_intent)], rn_contract = []\<rparr>"
  using sim_order_facts
  by (simp add: run_create_def register_def acknowledge_def sim_answer_def acknowledged_def update_intent_def put_ack_def
      version_text_def Let_def sim_intent_def)

lemma sim_round:
  "row_of py_int (\<lambda>_. Some (\<lparr>rs_status = 200, rs_payload = rs_payload sim_answer\<rparr>, Some sim_inspected)) key sim_intent
     = Inr \<lparr>ar_state = ''acknowledged_present'', ar_consistent = True, ar_errors = []\<rparr>"
proof -
  have "truthy (PDict sim_order)" by (simp add: sim_order_def order_value_def)
  moreover have "source_errors py_int sim_intent sim_order = Inr []"
    using sim_order_facts by (simp add: source_errors_def sim_intent_def py_int_int_text later_ack_def ack_errors_def leaf_eq_def number_of_value_def)
  moreover have "copy_errors sim_order (rs_payload sim_inspected) = Inr []"
    using sim_order_facts by (simp add: copy_errors_def sim_inspected_def sub_dict_def comparison_of_def dget_or_def)
  ultimately show ?thesis
    by (simp add: row_of_def inspect_intent_def sim_answer_def Let_def) (simp add: sim_inspected_def sim_intent_def)
qed

definition sim_verdict :: verdict_in where
  "sim_verdict = \<lparr>vi_final = \<lparr>cv_consistent = False, cv_streak = 0, cv_latest = \<lparr>au_rows = [], au_consistent = False, au_acknowledged = 0\<rparr>\<rparr>,
     vi_context_stable = None, vi_planned = 1, vi_admitted = 1, vi_skipped = 0, vi_requests = 1, vi_effect = True, vi_action = False,
     vi_started = False, vi_completed = False, vi_reachable = PBool True, vi_baseline_errors = False, vi_scenario = ''baseline''\<rparr>"

theorem passed_run_lost_nothing_witness:
  "\<exists>c r. converge py_int [(u ''k1'', sim_intent)] (replicate 2 (\<lambda>_. Some (\<lparr>rs_status = 200, rs_payload = rs_payload sim_answer\<rparr>,
       Some sim_inspected))) = Inr c \<and> verdict (sim_verdict\<lparr>vi_final := c\<rparr>) r = ''passed'' \<and> look r (u ''k1'') = Some sim_intent"
proof -
  let ?obs = "\<lambda>_. Some (\<lparr>rs_status = 200, rs_payload = rs_payload sim_answer\<rparr>, Some sim_inspected)"
  let ?r = "\<lparr>rn_intents = [(u ''k1'', sim_intent)], rn_contract = []\<rparr>"
  have "in_ack sim_intent \<noteq> []" by (simp add: sim_intent_def)
  then obtain c where c: "converge py_int (rn_intents ?r) (replicate 2 ?obs) = Inr c" "cv_consistent c"
    by (simp add: converge_def numeral_eq_Suc audit_round_def sim_round)
  have v: "verdict (sim_verdict\<lparr>vi_final := c\<rparr>) ?r = ''passed''"
    using c(2) by (simp add: verdict_def verdict_contract_def sim_verdict_def Let_def)
  have "acks (Created (u ''k1'') sim_payload sim_answer) 1"
    using sim_order_facts by (simp add: acks_def sim_answer_def)
  from passed_run_lost_nothing [of "\<lambda>_. []" "[]" _ "[]", OF _ this c(1) v py_int_int_text] sim_created
  have "\<exists>i. look ?r (u ''k1'') = Some i" by auto
  then show ?thesis using c(1) v by (intro exI [of _ c] exI [of _ ?r]) (simp add: look_def)
qed

end
