(* ===== verification/Sim_Plan.thy ===== *)
theory Sim_Plan
  imports Policy "HOL-Library.Product_Lexorder"
begin

text \<open>
  The plan of a simulation (\<open>tools/simulation.py\<close>): its validation, the operations it generates, the
  admission of workflows, the statistics of the requests and the test whether the fault had an effect.
  The random generator is a state with its operations, double arithmetic is rounded by \<open>fl\<close>, and
  \<open>round6\<close> and \<open>round3\<close> are \<open>round(x, 6)\<close> and \<open>round(x, 3)\<close>.
\<close>

section \<open>Plans\<close>

definition sim_scenarios :: "(string \<times> string option) list" where
  "sim_scenarios = [(''db-network-delay'', Some ''netem-delay''), (''db-network-loss'', Some ''netem-loss''), (''baseline'', None),
     (''kafka-outage'', Some ''stop''), (''es-outage'', Some ''stop''), (''redis-outage'', Some ''stop''), (''db-freeze'', Some ''pause''),
     (''worker-freeze'', Some ''pause''), (''redis-recreate'', Some ''recreate''), (''redis-switch'', Some ''switch''),
     (''row-lock'', Some ''row-lock''), (''duplicate-retry'', None), (''version-race'', None)]"

definition kinds :: "string list" where
  "kinds = [''create'', ''read'', ''update'', ''retry'', ''race'', ''search'']"

definition sim_workloads :: "(string \<times> nat list) list" where
  "sim_workloads = [(''mixed'', [25, 30, 15, 10, 10, 10]), (''read-heavy'', [10, 55, 5, 10, 5, 15]),
     (''write-heavy'', [35, 10, 25, 10, 15, 5]), (''hot-key'', [10, 45, 20, 10, 10, 5])]"

record sim_plan =
  sp_scenario :: pv
  sp_seed :: pv
  sp_seconds :: pv
  sp_rate :: pv
  sp_workers :: pv
  sp_fault_at :: pv
  sp_fault_for :: pv
  sp_recovery :: pv
  sp_workload :: pv

definition default_plan :: sim_plan where
  "default_plan = \<lparr>sp_scenario = PStr (u ''baseline''), sp_seed = PInt 42, sp_seconds = PInt 40, sp_rate = PInt 2, sp_workers = PInt 4,
     sp_fault_at = PInt 8, sp_fault_for = PInt 10, sp_recovery = PInt 90, sp_workload = PStr (u ''mixed'')\<rparr>"

definition int_field :: "string \<Rightarrow> pv \<Rightarrow> int res" where
  "int_field name v = (case v of PInt n \<Rightarrow> Inr n | _ \<Rightarrow> Inl (Value_Error (name @ '' must be an integer'')))"

definition scenario_action :: "pv \<Rightarrow> string option" where
  "scenario_action v = (case find (\<lambda>(n, a). v = PStr (u n)) sim_scenarios of Some (n, a) \<Rightarrow> a | None \<Rightarrow> None)"

text \<open>\<open>type(rate) in (float, int) and math.isfinite(rate) and 0.2 <= rate <= 10\<close>\<close>

definition rate_ok :: "pv \<Rightarrow> bool" where
  "rate_ok v = (case v of PInt n \<Rightarrow> 1 \<le> n \<and> n \<le> 10 | PFloat r \<Rightarrow> one_fifth \<le> r \<and> r \<le> 10 | _ \<Rightarrow> False)"

definition budget :: "(rat \<Rightarrow> rat) \<Rightarrow> int \<Rightarrow> pv \<Rightarrow> rat" where
  "budget fl seconds v = (case v of PInt n \<Rightarrow> of_int (seconds * n) | PFloat r \<Rightarrow> fl (of_int seconds * r) | _ \<Rightarrow> 0)"

definition validate_plan :: "(rat \<Rightarrow> rat) \<Rightarrow> sim_plan \<Rightarrow> unit res" where
  "validate_plan fl p =
     bind_res (require (is_in (sp_scenario p) (map fst sim_scenarios) \<and> is_in (sp_workload p) (map fst sim_workloads))
        ''Unknown scenario/workload'') (\<lambda>_.
     bind_res (int_field ''seed'' (sp_seed p)) (\<lambda>seed.
     bind_res (int_field ''seconds'' (sp_seconds p)) (\<lambda>seconds.
     bind_res (int_field ''workers'' (sp_workers p)) (\<lambda>workers.
     bind_res (int_field ''fault_at'' (sp_fault_at p)) (\<lambda>fault_at.
     bind_res (int_field ''fault_for'' (sp_fault_for p)) (\<lambda>fault_for.
     bind_res (int_field ''recovery_timeout'' (sp_recovery p)) (\<lambda>recovery.
     bind_res (require (0 \<le> seed \<and> seed \<le> 2 ^ 32 - 1 \<and> 15 \<le> seconds \<and> seconds \<le> 180 \<and> 1 \<le> workers \<and> workers \<le> 8
         \<and> 1 \<le> fault_for \<and> fault_for \<le> 30 \<and> 1 \<le> fault_at \<and> fault_at < seconds \<and> 5 \<le> recovery \<and> recovery \<le> 300)
         ''Bounded study limits exceeded'') (\<lambda>_.
     bind_res (require (rate_ok (sp_rate p)) ''rate must be finite and 0.2..10'') (\<lambda>_.
     bind_res (require (\<not> (sp_scenario p = PStr (u ''version-race'') \<and> workers < 2)) ''version-race requires two slots'') (\<lambda>_.
     bind_res (require (budget fl seconds (sp_rate p) \<le> 400) ''At most 400 planned workflows per run'') (\<lambda>_.
     require (\<not> (scenario_action (sp_scenario p) \<noteq> None \<and> seconds < fault_at + fault_for + 5))
        ''Leave at least five planned post-fault seconds'')))))))))))"

section \<open>The operations of a plan\<close>

record 'g generator =
  ge_choices :: "string list \<Rightarrow> nat list \<Rightarrow> 'g \<Rightarrow> string \<times> 'g"
  ge_range :: "nat \<Rightarrow> 'g \<Rightarrow> nat \<times> 'g"
  ge_int :: "int \<Rightarrow> int \<Rightarrow> 'g \<Rightarrow> int \<times> 'g"

record operation =
  op_number :: nat
  op_at :: rat
  op_kind :: string
  op_target :: nat
  op_quantity :: int
  op_price :: int

definition forced_kind :: "string \<Rightarrow> nat \<Rightarrow> string \<Rightarrow> string" where
  "forced_kind scenario i kind = (if scenario = ''duplicate-retry'' then ''retry'' else if scenario = ''version-race'' then ''race''
     else if scenario = ''row-lock'' then (if i mod 2 = 0 then ''lock_update'' else ''read'') else kind)"

fun plan_operations :: "(rat \<Rightarrow> rat) \<Rightarrow> (rat \<Rightarrow> rat) \<Rightarrow> 'g generator \<Rightarrow> string \<Rightarrow> string \<Rightarrow> rat \<Rightarrow> nat list \<Rightarrow> 'g \<Rightarrow> operation list" where
  "plan_operations fl round6 ge scenario workload rate [] g = []"
| "plan_operations fl round6 ge scenario workload rate (i # js) g =
     (let (kind, g1) = ge_choices ge kinds (the (map_of sim_workloads workload)) g;
          (target, g2) = (if workload = ''hot-key'' \<or> scenario = ''row-lock'' then (0, g1) else ge_range ge 6 g1);
          (quantity, g3) = ge_int ge 1 5 g2;
          (price, g4) = ge_int ge 10 500 g3
      in \<lparr>op_number = i, op_at = round6 (fl (of_nat i / rate)), op_kind = forced_kind scenario i kind, op_target = target,
          op_quantity = quantity, op_price = price\<rparr> # plan_operations fl round6 ge scenario workload rate js g4)"

definition rate_value :: "pv \<Rightarrow> rat" where
  "rate_value v = (case v of PInt n \<Rightarrow> of_int n | PFloat r \<Rightarrow> r | _ \<Rightarrow> 0)"

definition operations_of :: "(rat \<Rightarrow> rat) \<Rightarrow> (rat \<Rightarrow> rat) \<Rightarrow> 'g generator \<Rightarrow> (int \<Rightarrow> 'g) \<Rightarrow> string \<Rightarrow> string \<Rightarrow> sim_plan \<Rightarrow> operation list res" where
  "operations_of fl round6 ge seeded scenario workload p = bind_res (validate_plan fl p) (\<lambda>_.
     bind_res (int_field ''seed'' (sp_seed p)) (\<lambda>seed. bind_res (int_field ''seconds'' (sp_seconds p)) (\<lambda>seconds.
     Inr (plan_operations fl round6 ge scenario workload (rate_value (sp_rate p))
       [0 ..< nat \<lfloor>budget fl seconds (sp_rate p)\<rfloor>] (seeded seed)))))"

section \<open>Admission\<close>

text \<open>What the scheduler observes for one operation: cancellation or the end of the run before and after the
  wait, the workflows that have ended (with whether one raised), and whether it is late by a slot.\<close>

record slot =
  sl_stopped :: bool
  sl_cancelled :: bool
  sl_done :: "nat list"
  sl_raised :: bool
  sl_late :: bool

record schedule =
  sc_inflight :: "nat list"
  sc_admitted :: nat
  sc_skipped :: nat

fun schedule_from :: "nat \<Rightarrow> nat \<Rightarrow> (nat \<times> slot) list \<Rightarrow> schedule \<Rightarrow> schedule res" where
  "schedule_from workers n [] s = Inr s"
| "schedule_from workers n ((i, o') # rest) s =
     (if sl_stopped o' \<or> sl_cancelled o' then Inr (s\<lparr>sc_skipped := sc_skipped s + (n - i)\<rparr>)
      else if sl_raised o' then Inl (Other_Error ''WorkflowError'')
      else let running = filter (\<lambda>j. j \<notin> set (sl_done o')) (sc_inflight s) in
        if workers \<le> length running \<or> sl_late o'
        then schedule_from workers n rest (s\<lparr>sc_inflight := running, sc_skipped := sc_skipped s + 1\<rparr>)
        else schedule_from workers n rest (s\<lparr>sc_inflight := running @ [i], sc_admitted := sc_admitted s + 1\<rparr>))"

definition schedule_all :: "nat \<Rightarrow> slot list \<Rightarrow> schedule res" where
  "schedule_all workers slots = schedule_from workers (length slots) (enumerate 0 slots)
     \<lparr>sc_inflight = [], sc_admitted = 0, sc_skipped = 0\<rparr>"

section \<open>Statistics\<close>

record stats =
  ss_count :: nat
  ss_p50 :: "rat option"
  ss_p95 :: "rat option"
  ss_p99 :: "rat option"

definition nearest_rank :: "(rat \<Rightarrow> rat) \<Rightarrow> (rat \<Rightarrow> rat) \<Rightarrow> rat list \<Rightarrow> nat \<Rightarrow> rat" where
  "nearest_rank fl round3 values p =
     round3 (values ! nat (max 0 (\<lceil>fl (fl (of_nat p / 100) * of_nat (length values))\<rceil> - 1)))"

definition percentiles :: "(rat \<Rightarrow> rat) \<Rightarrow> (rat \<Rightarrow> rat) \<Rightarrow> rat list \<Rightarrow> stats" where
  "percentiles fl round3 xs = (let values = sort xs; pick = (\<lambda>p. if values = [] then None else Some (nearest_rank fl round3 values p)) in
     \<lparr>ss_count = length values, ss_p50 = pick 50, ss_p95 = pick 95, ss_p99 = pick 99\<rparr>)"

record request_row =
  rq_scope :: ustr
  rq_phase :: ustr
  rq_operation :: ustr
  rq_outcome :: ustr
  rq_status :: int
  rq_latency :: rat
  rq_error :: pv
  rq_cache :: pv

type_synonym group_key = "ustr \<times> ustr \<times> ustr \<times> ustr"

definition group_of :: "request_row \<Rightarrow> group_key" where
  "group_of r = (rq_scope r, rq_phase r, rq_operation r, rq_outcome r)"

definition request_summary :: "(rat \<Rightarrow> rat) \<Rightarrow> (rat \<Rightarrow> rat) \<Rightarrow> request_row list \<Rightarrow> (group_key \<times> stats) list" where
  "request_summary fl round3 rows = map (\<lambda>k. (k, percentiles fl round3 (map rq_latency (filter (\<lambda>r. group_of r = k) rows))))
     (sort (remdups (map group_of rows)))"

section \<open>Did the fault have an effect\<close>

record effect_in =
  ef_requests :: "request_row list"
  ef_diagnostics :: "pdict list"
  ef_netem :: "(int \<times> int) list"
  ef_races :: "int list list"
  ef_started :: bool
  ef_gaps :: bool
  ef_baseline :: pdict

definition dict_at :: "pdict \<Rightarrow> string \<Rightarrow> pdict" where
  "dict_at d k = (case dget d k of PDict e \<Rightarrow> e | _ \<Rightarrow> [])"

definition int_at :: "pdict \<Rightarrow> string \<Rightarrow> int" where
  "int_at d k = (case dget d k of PInt n \<Rightarrow> n | _ \<Rightarrow> 0)"

definition backlog :: "string \<Rightarrow> pdict \<Rightarrow> pdict \<Rightarrow> bool" where
  "backlog scenario base data =
     (int_at (dict_at base ''mariadb'') ''outbox_pending'' < int_at (dict_at data ''mariadb'') ''outbox_pending''
      \<or> scenario = ''worker-freeze'' \<and> int_at (dict_at base ''kafka'') ''lag'' < int_at (dict_at data ''kafka'') ''lag'')"

definition delay_seen :: "(rat \<Rightarrow> rat) \<Rightarrow> (rat \<Rightarrow> rat) \<Rightarrow> effect_in \<Rightarrow> bool" where
  "delay_seen fl round3 e =
     (let times = (\<lambda>phase. map rq_latency (filter (\<lambda>r. rq_scope r = u ''workload'' \<and> rq_phase r = u phase) (ef_requests e)))
      in case (ss_p50 (percentiles fl round3 (times ''baseline'')), ss_p50 (percentiles fl round3 (times ''fault''))) of
           (Some before, Some during) \<Rightarrow> list_ex (\<lambda>(drops, packets). 0 < packets) (ef_netem e) \<and> fl (before + 100) \<le> during
         | _ \<Rightarrow> False)"

definition effect_observed :: "(rat \<Rightarrow> rat) \<Rightarrow> (rat \<Rightarrow> rat) \<Rightarrow> string \<Rightarrow> effect_in \<Rightarrow> bool" where
  "effect_observed fl round3 scenario e =
     (if scenario = ''db-network-loss'' then list_ex (\<lambda>(drops, packets). 0 < drops) (ef_netem e)
      else if scenario = ''db-network-delay'' then delay_seen fl round3 e
      else if scenario = ''baseline'' then True
      else if scenario = ''version-race'' then [200, 409] \<in> set (ef_races e)
      else if scenario = ''duplicate-retry'' then
        list_ex (\<lambda>r. rq_scope r = u ''workload'' \<and> rq_operation r = u ''create'' \<and> rq_status r = 200) (ef_requests e)
      else if scenario = ''row-lock'' then list_ex (\<lambda>r. rq_error r = PStr (u ''mariadb_lock_wait_timeout'')) (ef_requests e)
      else if scenario \<in> {''redis-recreate'', ''redis-switch''} then ef_started e
      else if scenario = ''redis-outage'' then
        list_ex (\<lambda>r. rq_cache r \<in> {PStr (u ''unavailable''), PStr (u ''unavailable_or_invalid'')}) (ef_requests e)
      else if scenario = ''db-freeze'' then
        list_ex (\<lambda>r. rq_phase r \<in> {u ''fault'', u ''fault_transition''} \<and> rq_scope r = u ''workload''
          \<and> (rq_status r = 0 \<or> 500 \<le> rq_status r)) (ef_requests e)
      else if scenario \<in> {''kafka-outage'', ''worker-freeze''} then
        ef_gaps e \<and> list_ex (\<lambda>d. dget (dict_at d ''mariadb'') ''reachable'' = PBool True
          \<and> dget (dict_at d ''kafka'') ''reachable'' = PBool (scenario = ''worker-freeze'')
          \<and> backlog scenario (ef_baseline e) d) (ef_diagnostics e)
      else if scenario = ''es-outage'' then
        list_ex (\<lambda>d. dget (dict_at d ''elasticsearch'') ''reachable'' = PBool False) (ef_diagnostics e)
      else False)"

section \<open>Lemmas\<close>

lemma schedule_from_accounts:
  "schedule_from workers n (enumerate i slots) s = Inr s' \<Longrightarrow> i + length slots = n \<Longrightarrow> sc_admitted s + sc_skipped s = i \<Longrightarrow>
   length (sc_inflight s) \<le> workers \<Longrightarrow> sc_admitted s' + sc_skipped s' = n \<and> length (sc_inflight s') \<le> workers"
proof (induction slots arbitrary: i s)
  case (Cons o' slots)
  let ?running = "filter (\<lambda>j. j \<notin> set (sl_done o')) (sc_inflight s)"
  have short: "length ?running \<le> workers" using Cons.prems(4) length_filter_le [of _ "sc_inflight s"] by (meson le_trans)
  consider "sl_stopped o' \<or> sl_cancelled o'" | "\<not> (sl_stopped o' \<or> sl_cancelled o')" "sl_raised o'"
    | "\<not> (sl_stopped o' \<or> sl_cancelled o')" "\<not> sl_raised o'" "workers \<le> length ?running \<or> sl_late o'"
    | "\<not> (sl_stopped o' \<or> sl_cancelled o')" "\<not> sl_raised o'" "\<not> (workers \<le> length ?running \<or> sl_late o')" by blast
  then show ?case
  proof cases
    case 1
    then show ?thesis using Cons.prems by auto
  next
    case 2
    then show ?thesis using Cons.prems by simp
  next
    case 3
    then have "schedule_from workers n (enumerate (Suc i) slots) (s\<lparr>sc_inflight := ?running, sc_skipped := sc_skipped s + 1\<rparr>) = Inr s'"
      using Cons.prems by simp
    from Cons.IH [OF this] Cons.prems short show ?thesis by simp
  next
    case 4
    then have "schedule_from workers n (enumerate (Suc i) slots) (s\<lparr>sc_inflight := ?running @ [i], sc_admitted := sc_admitted s + 1\<rparr>) = Inr s'"
      using Cons.prems by simp
    from Cons.IH [OF this] Cons.prems 4 show ?thesis by simp
  qed
qed simp

text \<open>The accounting check of a run never fails, and no more than the workers are in flight.\<close>

lemma schedule_accounts:
  assumes "schedule_all workers slots = Inr s"
  shows "sc_admitted s + sc_skipped s = length slots" "length (sc_inflight s) \<le> workers"
  using schedule_from_accounts [of workers "length slots" 0 slots _ s] assms by (simp_all add: schedule_all_def)

section \<open>The plans the automation policy allows\<close>

text \<open>The plan the command line builds of the options: a rate is read as a float.\<close>

definition cli_rate :: "pdict \<Rightarrow> pv" where
  "cli_rate d = (case dget_or PNone d ''rate'' of PNone \<Rightarrow> PInt 2 | PInt n \<Rightarrow> PFloat (of_int n) | v \<Rightarrow> v)"

definition cli_plan :: "pv \<Rightarrow> pdict \<Rightarrow> sim_plan" where
  "cli_plan name d = \<lparr>sp_scenario = name, sp_seed = dget_or (PInt 42) d ''seed'', sp_seconds = dget_or (PInt 40) d ''seconds'',
     sp_rate = cli_rate d, sp_workers = dget_or (PInt 4) d ''workers'', sp_fault_at = dget_or (PInt 8) d ''fault_at'',
     sp_fault_for = dget_or (PInt 10) d ''fault_for'', sp_recovery = dget_or (PInt 90) d ''recovery_timeout'',
     sp_workload = dget_or (PStr (u ''mixed'')) d ''workload''\<rparr>"

lemma encoded_value:
  assumes "encode_options ftext d allowed = Inr out" "map_of d (u k) = Some v"
  shows "\<exists>a. encode_option ftext k v = Inr a"
proof -
  have "(u k, v) \<in> set (sort_key fst d)" using assms(2) by (simp add: map_of_SomeD)
  moreover have "encode_all ftext allowed (sort_key fst d) = Inr out" using assms(1) by (simp add: encode_options_def bind_res_Inr_iff)
  ultimately obtain n a where "u n = u k" "encode_option ftext n v = Inr a" using encode_all_each by blast
  then show ?thesis by auto
qed

lemma encoded_int:
  assumes "encode_options ftext d allowed = Inr out" "map_of numeric k = Some (lo, hi)" "lo \<le> n" "n \<le> hi"
  shows "\<exists>m. dget_or (PInt n) d k = PInt m \<and> int_opt n d k = m \<and> lo \<le> m \<and> m \<le> hi"
proof (cases "map_of d (u k)")
  case (Some v)
  then obtain m where "v = PInt m" "lo \<le> m" "m \<le> hi"
    using encoded_value [OF assms(1)] encode_option_int [OF _ assms(2)] by blast
  then show ?thesis using Some by (simp add: dget_or_def int_opt_def)
qed (use assms in \<open>simp add: dget_or_def int_opt_def\<close>)

lemma encoded_rate:
  assumes "encode_options ftext d allowed = Inr out"
  obtains (none) "map_of d (u ''rate'') = None"
    | (whole) n where "map_of d (u ''rate'') = Some (PInt n)" "1 \<le> n" "n \<le> 10"
    | (real) r where "map_of d (u ''rate'') = Some (PFloat r)" "one_fifth \<le> r" "r \<le> 10"
proof (cases "map_of d (u ''rate'')")
  case (Some v)
  from encoded_value [OF assms Some] obtain a where "encode_option ftext ''rate'' v = Inr a" by blast
  then have "case v of PInt n \<Rightarrow> 1 \<le> n \<and> n \<le> 10 | PFloat r \<Rightarrow> one_fifth \<le> r \<and> r \<le> 10 | _ \<Rightarrow> False"
    by (simp add: encode_option_def numeric_def bind_res_Inr_iff)
  with Some whole real show ?thesis by (cases v) auto
qed

lemma encoded_workload:
  assumes "encode_options ftext d allowed = Inr out"
  shows "is_in (dget_or (PStr (u ''mixed'')) d ''workload'') workloads"
proof (cases "map_of d (u ''workload'')")
  case (Some v)
  from encoded_value [OF assms Some] obtain a where "encode_option ftext ''workload'' v = Inr a" by blast
  then show ?thesis using Some by (simp add: encode_option_def numeric_def bind_res_Inr_iff dget_or_def)
qed (simp add: dget_or_def is_in_def workloads_def)

lemma simulate_branch:
  assumes "mvp_branch ftext fl ''simulate'' verb name opts prefix = Inr b" "is_in verb [''plan'', ''run'']"
  shows "is_in (br_name b) simulations"
proof -
  have no: "''simulate'' \<notin> set plain_actions" "''simulate'' \<notin> set service_actions"
    by (simp_all add: plain_actions_def service_actions_def)
  obtain b0 where b0: "scenario_branch ''simulate'' verb name opts = Inr b0" "br_name b = br_name b0"
    using assms(1) no unfolding mvp_branch_def bind_res_Inr_iff by auto
  have "scenario_run ''simulate'' verb name opts = Inr b0"
    using b0(1) assms(2) by (auto simp: scenario_branch_def bind_res_Inr_iff Let_def is_in_def)
  then show ?thesis using b0(2) by (auto simp: scenario_run_def bind_res_Inr_iff Let_def scenario_choices_def)
qed

lemma scenario_tables: "is_in v simulations \<Longrightarrow> is_in v (map fst sim_scenarios)" "is_in v workloads \<Longrightarrow> is_in v (map fst sim_workloads)"
  by (auto simp: is_in_def simulations_def sim_scenarios_def workloads_def sim_workloads_def)

lemma no_action_iff: "scenario_action v \<noteq> None \<Longrightarrow> \<not> is_in v [''baseline'', ''duplicate-retry'', ''version-race'']"
  by (auto simp: scenario_action_def is_in_def sim_scenarios_def)

text \<open>C27: The policy of the automation is a refinement of the simulator's own limits. Every simulation for which
  \<open>build_plan\<close> returns a plan, whatever options the caller gave or left out, is one \<open>Plan.validate\<close> accepts:
  no plan that was consented to is then refused by the controller, and the two tables of scenarios, workloads and limits
  agree. Doubles are only assumed to be exact on integers.\<close>

theorem policy_refines_plan:
  assumes "build_plan ftext fl params check_mode = Inr p" "pl_target p = ''mvp''" "pl_action p = ''simulate''"
    and "is_in (pl_verb p) [''plan'', ''run'']"
    and "dget_or PNone params ''request'' = PDict req" "dget_or (PDict []) req ''options'' = PDict opts"
    and "\<And>k. \<bar>k\<bar> \<le> 2 ^ 53 \<Longrightarrow> fl (of_int k) = of_int k"
  shows "validate_plan fl (cli_plan (pl_name p) opts) = Inr ()"
proof -
  obtain req' target name opts' b env k8s where b:
    "dget_or (PDict [(u ''action'', PStr (u ''status''))]) params ''request'' = PDict req'"
    "dget_or (PDict []) req' ''options'' = PDict opts'" "target = pl_target p" "pl_verb p = dget req' ''verb''"
    "choose_branch ftext fl target (pl_action p) (dget req' ''verb'') name opts' k8s
       [u ''bash'', path_join (pl_root p) (u ''all.sh''), u ''--fail-fast''] = Inr (b, env)"
    "pl_name p = br_name b"
    using assms(1) by (rule build_plan_branch) blast
  have o: "opts' = opts" using b(1,2) assms(5,6) by (auto simp: dget_or_def split: option.splits)
  obtain prefix where m: "mvp_branch ftext fl ''simulate'' (pl_verb p) name opts prefix = Inr b"
    using b(3-5) assms(2,3) by (auto simp: choose_branch_def bind_res_Inr_iff o)
  have "bounded_plan fl (br_name b) opts = Inr ()" using mvp_simulation(1) [OF m _ assms(4)] by simp
  then have bounded: "case dget_or (PInt 2) opts ''rate'' of PInt rate \<Rightarrow> int_opt 40 opts ''seconds'' * rate \<le> 400
        | PFloat rate \<Rightarrow> fl (of_int (int_opt 40 opts ''seconds'') * rate) \<le> 400 | _ \<Rightarrow> False"
    "int_opt 8 opts ''fault_at'' < int_opt 40 opts ''seconds''"
    "is_in (br_name b) [''baseline'', ''duplicate-retry'', ''version-race'']
       \<or> int_opt 8 opts ''fault_at'' + int_opt 10 opts ''fault_for'' + 5 \<le> int_opt 40 opts ''seconds''"
    "br_name b \<noteq> PStr (u ''version-race'') \<or> int_opt 4 opts ''workers'' \<ge> 2"
    unfolding bounded_plan_def Let_def bind_res_Inr_iff require_simps by auto
  obtain allowed out where enc: "encode_options ftext opts allowed = Inr out" using mvp_simulation(2) [OF m _ assms(4)] by auto
  have ranges: "map_of numeric ''seed'' = Some (0, 2 ^ 32 - 1)" "map_of numeric ''seconds'' = Some (15, 180)"
    "map_of numeric ''workers'' = Some (1, 8)" "map_of numeric ''fault_at'' = Some (1, 179)"
    "map_of numeric ''fault_for'' = Some (1, 30)" "map_of numeric ''recovery_timeout'' = Some (5, 300)"
    by (simp_all add: numeric_def)
  obtain seed seconds workers fault_at fault_for recovery where ints:
    "dget_or (PInt 42) opts ''seed'' = PInt seed" "0 \<le> seed" "seed \<le> 2 ^ 32 - 1"
    "dget_or (PInt 40) opts ''seconds'' = PInt seconds" "int_opt 40 opts ''seconds'' = seconds" "15 \<le> seconds" "seconds \<le> 180"
    "dget_or (PInt 4) opts ''workers'' = PInt workers" "int_opt 4 opts ''workers'' = workers" "1 \<le> workers" "workers \<le> 8"
    "dget_or (PInt 8) opts ''fault_at'' = PInt fault_at" "int_opt 8 opts ''fault_at'' = fault_at" "1 \<le> fault_at"
    "dget_or (PInt 10) opts ''fault_for'' = PInt fault_for" "int_opt 10 opts ''fault_for'' = fault_for" "1 \<le> fault_for" "fault_for \<le> 30"
    "dget_or (PInt 90) opts ''recovery_timeout'' = PInt recovery" "5 \<le> recovery" "recovery \<le> 300"
    using encoded_int [OF enc ranges(1), of 42] encoded_int [OF enc ranges(2), of 40] encoded_int [OF enc ranges(3), of 4]
      encoded_int [OF enc ranges(4), of 8] encoded_int [OF enc ranges(5), of 10] encoded_int [OF enc ranges(6), of 90]
    by auto
  have rate: "rate_ok (cli_rate opts) \<and> budget fl seconds (cli_rate opts) \<le> 400"
    using enc
  proof (cases rule: encoded_rate)
    case none
    then show ?thesis using bounded(1) ints(5) by (simp add: cli_rate_def dget_or_def rate_ok_def budget_def)
  next
    case (whole n)
    then have prod: "seconds * n \<le> 400" using bounded(1) ints(5) by (simp add: dget_or_def)
    have "0 \<le> seconds * n" using whole(2) ints(6) by simp
    then have "fl (of_int (seconds * n)) = of_int (seconds * n)" using prod by (intro assms(7)) simp
    then have "fl (of_int seconds * of_int n) = of_int (seconds * n)" by simp
    moreover have "(of_int (seconds * n) :: rat) \<le> 400" using prod by linarith
    moreover have "one_fifth \<le> of_int n" "(of_int n :: rat) \<le> 10" using whole(2,3) by (simp_all add: one_fifth_def)
    ultimately show ?thesis using whole(1) by (simp add: cli_rate_def dget_or_def rate_ok_def budget_def)
  next
    case (real r)
    then show ?thesis using bounded(1) ints(5) by (simp add: cli_rate_def dget_or_def rate_ok_def budget_def)
  qed
  have tables: "is_in (br_name b) (map fst sim_scenarios)" "is_in (dget_or (PStr (u ''mixed'')) opts ''workload'') (map fst sim_workloads)"
    using scenario_tables(1) [OF simulate_branch [OF m assms(4)]] scenario_tables(2) [OF encoded_workload [OF enc]] by blast+
  have after: "\<not> (scenario_action (br_name b) \<noteq> None \<and> seconds < fault_at + fault_for + 5)"
    using bounded(3) no_action_iff [of "br_name b"] ints by auto
  show ?thesis
    unfolding validate_plan_def b(6) cli_plan_def
    using tables ints rate after bounded(2,4) by (simp add: bind_res_def require_def int_field_def not_less)
qed

theorem policy_refines_plan_witness:
  "\<exists>p. build_plan (\<lambda>_. []) id sim_params True = Inr p \<and>
    validate_plan id (cli_plan (pl_name p) [(u ''seconds'', PInt 60)]) = Inr () \<and> pl_name p = PStr (u ''es-outage'')"
proof -
  obtain p where p: "build_plan (\<lambda>_. []) id sim_params True = Inr p" "pl_target p = ''mvp''" "pl_action p = ''simulate''"
    "pl_verb p = PStr (u ''plan'')" "pl_name p = PStr (u ''es-outage'')" using sim_plan_built by blast
  have "is_in (pl_verb p) [''plan'', ''run'']" by (simp add: p(4) is_in_def)
  moreover have "dget_or (PDict []) [(u ''action'', PStr (u ''simulate'')), (u ''verb'', PStr (u ''plan'')),
     (u ''name'', PStr (u ''es-outage'')), (u ''options'', PDict [(u ''seconds'', PInt 60)])] ''options'' = PDict [(u ''seconds'', PInt 60)]"
    by (simp add: dget_or_def)
  ultimately have "validate_plan id (cli_plan (pl_name p) [(u ''seconds'', PInt 60)]) = Inr ()"
    using sim_params_request by (intro policy_refines_plan [OF p(1,2,3)]) simp_all
  then show ?thesis using p(1,5) by blast
qed

end
