(* ===== verification/Galera.thy ===== *)
theory Galera
  imports Event_Log Resp
begin

text \<open>
  The MariaDB Galera lab: \<open>mariadb-ha-lab/scripts/state.py\<close>, which reads and authorizes the data volume of one
  stopped node, and the lifecycle of \<open>scripts/lab.py\<close> that decides which node may bootstrap the cluster. Docker is a
  record of operations on its state; the volumes are read and written through it. A digit of a log or of the state file
  is an ASCII digit. Images, network probes and front ends are operations that return or raise.
\<close>

section \<open>The state file\<close>

record position =
  po_uuid :: ustr
  po_seqno :: int

definition word_char :: "nat \<Rightarrow> bool" where "word_char c \<longleftrightarrow> \<not> py_space c"

text \<open>\<open>(uuid|seqno|safe_to_bootstrap):\s*(\S+)\<close> at the start of a line.\<close>

definition field_names :: "string list" where "field_names = [''uuid'', ''seqno'', ''safe_to_bootstrap'']"

definition field_at :: "ustr \<Rightarrow> (ustr \<times> ustr \<times> ustr) option" where
  "field_at s = (case find (\<lambda>k. starts_with (u (k @ '':'')) s) field_names of None \<Rightarrow> None
     | Some k \<Rightarrow> let rest = dropWhile py_space (drop (length k + 1) s); v = takeWhile word_char rest in
         if v = [] then None else Some (u k, v, drop (length v) rest))"

lemma field_at_shorter: "field_at s = Some (k, v, rest) \<Longrightarrow> length rest < length s"
proof -
  assume f: "field_at s = Some (k, v, rest)"
  then obtain n where "v = takeWhile word_char (dropWhile py_space (drop n s))" "v \<noteq> []"
    "rest = drop (length v) (dropWhile py_space (drop n s))"
    by (auto simp: field_at_def Let_def split: option.splits if_splits)
  moreover have "length (dropWhile py_space (drop n s)) \<le> length s"
    using length_dropWhile_le [of py_space "drop n s"] by simp
  ultimately show ?thesis by (cases "dropWhile py_space (drop n s)") auto
qed

function state_fields :: "bool \<Rightarrow> ustr \<Rightarrow> (ustr \<times> ustr) list" where
  "state_fields line [] = []"
| "state_fields line (c # s) = (case (if line then field_at (c # s) else None) of
       Some (k, v, rest) \<Rightarrow> (k, v) # state_fields False rest
     | None \<Rightarrow> state_fields (c = 10) s)"
  by pat_completeness auto

termination by (relation "measure (\<lambda>(line, s). length s)") (auto dest!: field_at_shorter split: if_splits)

record grastate =
  gr_uuid :: "ustr option"
  gr_seqno :: int
  gr_safe :: int

definition last_field :: "(ustr \<times> ustr) list \<Rightarrow> string \<Rightarrow> ustr option" where
  "last_field fs k = map_of (rev fs) (u k)"

definition int_field :: "(ustr \<times> ustr) list \<Rightarrow> string \<Rightarrow> int \<Rightarrow> int res" where
  "int_field fs k d = (case last_field fs k of None \<Rightarrow> Inr d
     | Some v \<Rightarrow> (case py_int v of None \<Rightarrow> Inl (Value_Error ''invalid literal for int'') | Some n \<Rightarrow> Inr n))"

definition parse_state :: "ustr \<Rightarrow> grastate res" where
  "parse_state text = (let fs = state_fields True text in
     bind_res (int_field fs ''seqno'' (-1)) (\<lambda>n. bind_res (int_field fs ''safe_to_bootstrap'' 0) (\<lambda>b.
     Inr \<lparr>gr_uuid = last_field fs ''uuid'', gr_seqno = n, gr_safe = b\<rparr>)))"

section \<open>Recovery output\<close>

definition uuid_char :: "nat \<Rightarrow> bool" where
  "uuid_char c \<longleftrightarrow> is_digit c \<or> (97 \<le> c \<and> c \<le> 102) \<or> (65 \<le> c \<and> c \<le> 70) \<or> c = 45"

definition zero_uuid :: ustr where "zero_uuid = u ''00000000-0000-0000-0000-000000000000''"

text \<open>\<open>Recovered position:\s*([0-9a-fA-F-]{36}):(-?\d+)\<close> at this place of the log.\<close>

definition position_at :: "ustr \<Rightarrow> (ustr \<times> ustr \<times> ustr) option" where
  "position_at s = (if \<not> starts_with (u ''Recovered position:'') s then None
     else let rest = dropWhile py_space (drop 19 s); i = take 36 rest; after = drop 36 rest in
       if length i = 36 \<and> list_all uuid_char i \<and> starts_with [58] after
       then let tail = drop 1 after; sign = takeWhile (\<lambda>c. c = 45) (take 1 tail); ds = takeWhile is_digit (drop (length sign) tail) in
         if ds = [] then None else Some (i, sign @ ds, drop (length sign + length ds) tail)
       else None)"

lemma position_at_shorter: "position_at s = Some (i, n, rest) \<Longrightarrow> length rest < length s"
proof -
  assume f: "position_at s = Some (i, n, rest)"
  have "starts_with (u ''Recovered position:'') s" using f by (auto simp: position_at_def split: if_splits)
  then have l: "19 \<le> length s" by (auto simp: starts_with_def dest!: arg_cong [of _ _ length])
  have "length rest \<le> length (dropWhile py_space (drop 19 s))"
    using f by (auto simp: position_at_def Let_def split: if_splits)
  also have "\<dots> \<le> length (drop 19 s)" by (rule length_dropWhile_le)
  finally show ?thesis using l by simp
qed

function positions :: "ustr \<Rightarrow> (ustr \<times> ustr) list" where
  "positions [] = []"
| "positions (c # s) = (case position_at (c # s) of
       Some (i, n, rest) \<Rightarrow> (i, n) # positions rest
     | None \<Rightarrow> positions s)"
  by pat_completeness auto

termination by (relation "measure length") (auto dest!: position_at_shorter)

definition lower_hex :: "ustr \<Rightarrow> ustr" where
  "lower_hex s = map (\<lambda>c. if 65 \<le> c \<and> c \<le> 70 then c + 32 else c) s"

definition recovered_position :: "ustr \<Rightarrow> position res" where
  "recovered_position output = (case positions output of
       [] \<Rightarrow> Inl (Value_Error ''No recovered position in recovery output. Inspect the full log.'')
     | ps \<Rightarrow> (case last ps of (i, n) \<Rightarrow> (case py_int n of
           None \<Rightarrow> Inl (Value_Error ''invalid literal for int'')
         | Some k \<Rightarrow> if k < 0 \<or> i = zero_uuid
             then Inl (Value_Error ''Recovery did not produce a valid cluster position.'')
             else Inr \<lparr>po_uuid = lower_hex i, po_seqno = k\<rparr>)))"

section \<open>One volume\<close>

record volume =
  vo_grastate :: "ustr option"
  vo_mysql :: bool
  vo_init :: bool
  vo_once :: "string option"

record gstate =
  gs_uuid :: "ustr option"
  gs_seqno :: int
  gs_safe :: int
  gs_initialized :: bool
  gs_complete :: bool

definition inspect :: "volume \<Rightarrow> gstate res" where
  "inspect v = bind_res (parse_state (case vo_grastate v of None \<Rightarrow> [] | Some t \<Rightarrow> t)) (\<lambda>g.
     Inr \<lparr>gs_uuid = gr_uuid g, gs_seqno = gr_seqno g, gs_safe = gr_safe g, gs_initialized = vo_mysql v, gs_complete = vo_init v\<rparr>)"

datatype operation = Op_Inspect | Op_New | Op_Safe | Op_Recovered ustr int | Op_Recover | Op_Wipe

definition full_uuid :: "ustr \<Rightarrow> bool" where
  "full_uuid s \<longleftrightarrow> length s = 36 \<and> list_all uuid_char s
     \<and> (\<forall>i<36. s ! i = 45 \<longleftrightarrow> i \<in> {8, 13, 18, 23})"

definition grastate_text :: "ustr \<Rightarrow> int \<Rightarrow> ustr" where
  "grastate_text i n = u ''# GALERA saved state'' @ [10] @ u ''version: 2.1'' @ [10] @ u ''uuid: '' @ i @ [10]
     @ u ''seqno: '' @ int_text n @ [10] @ u ''safe_to_bootstrap: 1'' @ [10]"

text \<open>What the helper prints, and the volume it leaves; \<open>wsrep\<close> is the output and exit code of \<open>mariadbd --wsrep-recover\<close>.\<close>

datatype helper_output = Out_State gstate | Out_Position gstate position | Out_Wiped | Out_Authorized

definition state_main :: "ustr \<times> int \<Rightarrow> operation \<Rightarrow> volume \<Rightarrow> helper_output res \<times> volume" where
  "state_main wsrep op v = (case inspect v of Inl e \<Rightarrow> (Inl e, v) | Inr st \<Rightarrow> (case op of
       Op_Inspect \<Rightarrow> (Inr (Out_State st), v)
     | Op_Recover \<Rightarrow> if \<not> gs_initialized st \<or> \<not> gs_complete st
         then (Inl (Value_Error ''Uninitialized or partially initialized data volume; refusing recovery.''), v)
         else if snd wsrep \<noteq> 0 then (Inl (Value_Error ''mariadbd --wsrep-recover failed.''), v)
         else (bind_res (recovered_position (fst wsrep)) (\<lambda>p. Inr (Out_Position (st\<lparr>gs_uuid := Some (po_uuid p), gs_seqno := po_seqno p\<rparr>) p)), v)
     | Op_Wipe \<Rightarrow> (Inr Out_Wiped, \<lparr>vo_grastate = None, vo_mysql = False, vo_init = False, vo_once = None\<rparr>)
     | Op_New \<Rightarrow> if gs_initialized st then (Inl (Value_Error ''New-cluster authorization requires an empty node.''), v)
         else (Inr Out_Authorized, v\<lparr>vo_once := Some ''authorize-new''\<rparr>)
     | Op_Safe \<Rightarrow> if \<not> (gs_initialized st \<and> gs_complete st \<and> gs_safe st = 1 \<and> gs_seqno st \<ge> 0)
         then (Inl (Value_Error ''Not safe to bootstrap.''), v)
         else (Inr Out_Authorized, v\<lparr>vo_once := Some ''authorize-safe''\<rparr>)
     | Op_Recovered i n \<Rightarrow> if \<not> gs_initialized st \<or> \<not> gs_complete st \<or> \<not> full_uuid i \<or> i = zero_uuid \<or> n < 0
         then (Inl (Value_Error ''A verified recovered position is required.''), v)
         else if vo_grastate v = None then (Inl (Value_Error ''Missing grastate.dat.''), v)
         else (Inr Out_Authorized, v\<lparr>vo_grastate := Some (grastate_text i n), vo_once := Some ''authorize-recovered''\<rparr>)))"

section \<open>Docker\<close>

text \<open>
  \<open>en_inspect\<close> is \<open>docker inspect\<close>: the \<open>State\<close> of the container or the lower-case error text. \<open>en_health\<close> runs the
  health probe in a container: its JSON, \<open>None\<close> when it fails; a timeout or other text is an error of the probe.
\<close>

datatype inspection = No_Inspect ustr | Inspected pdict

datatype probe = Probe_Json pdict | Probe_Failed | Probe_Error

record 's engine =
  en_inspect :: "ustr \<Rightarrow> (inspection, 's) eff"
  en_health :: "ustr \<Rightarrow> (probe, 's) eff"
  en_read :: "ustr \<Rightarrow> (volume, 's) eff"
  en_write :: "ustr \<Rightarrow> volume \<Rightarrow> (unit, 's) eff"
  en_wsrep :: "ustr \<Rightarrow> (ustr \<times> int, 's) eff"
  en_up :: "ustr \<Rightarrow> (unit, 's) eff"
  en_unpause :: "ustr \<Rightarrow> (unit, 's) eff"
  en_stop :: "ustr \<Rightarrow> int \<Rightarrow> (unit, 's) eff"
  en_clock :: "(rat, 's) eff"
  en_step :: "string \<Rightarrow> (unit, 's) eff"

datatype cstate = Absent | Paused | Running | Stopped

definition absent_messages :: "ustr list" where
  "absent_messages = map u [''no such container'', ''no such object'', ''no container with name'', ''does not exist'']"

definition container_state :: "'s engine \<Rightarrow> ustr \<Rightarrow> (cstate, 's) eff" where
  "container_state en node = bind_eff (en_inspect en node) (\<lambda>i. case i of
       No_Inspect e \<Rightarrow> if list_ex (\<lambda>m. text_in m e) absent_messages then ret Absent
         else raise_exn (Runtime_Error ''Container inspect failed (not an absent node). Check engine/permissions'')
     | Inspected d \<Rightarrow> if truthy (dget d ''Paused'') \<or> dget d ''Status'' = PStr (u ''paused'') then ret Paused
         else ret (if truthy (dget d ''Running'') then Running else Stopped))"

definition active :: "cstate \<Rightarrow> bool" where "active c \<longleftrightarrow> c = Running \<or> c = Paused"

definition start_service :: "'s engine \<Rightarrow> ustr \<Rightarrow> (unit, 's) eff" where
  "start_service en node = bind_eff (container_state en node) (\<lambda>c.
     if c = Paused then raise_exn (Runtime_Error ''paused; resume it before starting.'')
     else if c \<noteq> Running then en_up en node else ret ())"

text \<open>The helper runs in a one-shot container on the volume of a node that is not active.\<close>

definition offline :: "'s engine \<Rightarrow> ustr \<Rightarrow> operation \<Rightarrow> (helper_output, 's) eff" where
  "offline en node op = bind_eff (container_state en node) (\<lambda>c.
     if active c then raise_exn (Runtime_Error ''node is active; offline volume access refused.'')
     else bind_eff (en_read en node) (\<lambda>v.
       bind_eff (if op = Op_Recover then en_wsrep en node else ret ([], 0)) (\<lambda>w.
       case state_main w op v of (Inl e, _) \<Rightarrow> raise_exn (Runtime_Error ''Command failed'')
       | (Inr out, v') \<Rightarrow> if v' = v then ret out else bind_eff (en_write en node v') (\<lambda>_. ret out))))"

fun active_nodes :: "'s engine \<Rightarrow> ustr list \<Rightarrow> (ustr list, 's) eff" where
  "active_nodes en [] = ret []"
| "active_nodes en (n # ns) = bind_eff (container_state en n) (\<lambda>c. bind_eff (active_nodes en ns) (\<lambda>rest.
     ret (if active c then n # rest else rest)))"

definition require_all_stopped :: "'s engine \<Rightarrow> ustr list \<Rightarrow> (unit, 's) eff" where
  "require_all_stopped en nodes = bind_eff (active_nodes en nodes) (\<lambda>ns.
     if ns \<noteq> [] then raise_exn (Runtime_Error ''Stop ALL nodes before offline recovery'') else ret ())"

section \<open>Health\<close>

text \<open>\<open>he_size\<close> is the probe's \<open>wsrep_cluster_size\<close>, 0 when it has none: \<open>data.get(..., 0)\<close>.\<close>

record health =
  he_container :: cstate
  he_ready :: bool
  he_size :: pv
  he_uuid :: pv

definition node_health :: "'s engine \<Rightarrow> ustr \<Rightarrow> (health, 's) eff" where
  "node_health en node = bind_eff (container_state en node) (\<lambda>c.
     if c \<noteq> Running then ret \<lparr>he_container = c, he_ready = False, he_size = PInt 0, he_uuid = PNone\<rparr>
     else bind_eff (en_health en node) (\<lambda>p. ret (case p of
         Probe_Json d \<Rightarrow> \<lparr>he_container = c, he_ready = truthy (dget d ''ready''), he_size = dget_or (PInt 0) d ''wsrep_cluster_size'',
                          he_uuid = dget d ''wsrep_cluster_state_uuid''\<rparr>
       | _ \<Rightarrow> \<lparr>he_container = c, he_ready = False, he_size = PInt 0, he_uuid = PNone\<rparr>)))"

fun healthy_nodes :: "'s engine \<Rightarrow> ustr list \<Rightarrow> (ustr list, 's) eff" where
  "healthy_nodes en [] = ret []"
| "healthy_nodes en (n # ns) = bind_eff (node_health en n) (\<lambda>h. bind_eff (healthy_nodes en ns) (\<lambda>rest.
     ret (if he_ready h then n # rest else rest)))"

fun healthy_node :: "'s engine \<Rightarrow> ustr list \<Rightarrow> (ustr, 's) eff" where
  "healthy_node en [] = raise_exn (Runtime_Error ''No Synced Primary node is ready. Check status/logs; do not force bootstrap.'')"
| "healthy_node en (n # ns) = bind_eff (node_health en n) (\<lambda>h. if he_ready h then ret n else healthy_node en ns)"

definition size_value :: "pv \<Rightarrow> int res" where
  "size_value v = (case v of PInt n \<Rightarrow> Inr n | PBool b \<Rightarrow> Inr (if b then 1 else 0)
     | PFloat r \<Rightarrow> Inr (if r < 0 then - \<lfloor>- r\<rfloor> else \<lfloor>r\<rfloor>) | PNonFinite \<Rightarrow> Inl (Other_Error ''OverflowError or ValueError'')
     | PStr s \<Rightarrow> (case py_int s of None \<Rightarrow> Inl (Value_Error ''invalid literal for int'') | Some n \<Rightarrow> Inr n)
     | _ \<Rightarrow> Inl Type_Error)"

text \<open>Rounds of probes and sleeps until the deadline.\<close>

fun wait_node :: "nat \<Rightarrow> 's engine \<Rightarrow> ustr \<Rightarrow> int option \<Rightarrow> rat \<Rightarrow> (unit, 's) eff" where
  "wait_node 0 en node members deadline = raise_exn (Other_Error ''waiting'')"
| "wait_node (Suc k) en node members deadline = bind_eff (en_clock en) (\<lambda>t.
     if deadline \<le> t then raise_exn (Runtime_Error ''Timeout waiting. No forced recovery was attempted.'')
     else bind_eff (node_health en node) (\<lambda>h.
       bind_eff (case members of None \<Rightarrow> ret (he_ready h)
         | Some n \<Rightarrow> if he_ready h then bind_eff (lift_res (size_value (he_size h))) (\<lambda>m. ret (m = n)) else ret False) (\<lambda>ok.
       if ok then ret ()
       else if he_container h = Absent \<or> he_container h = Stopped
       then raise_exn (Runtime_Error ''stopped during startup. Read the logs above.'')
       else wait_node k en node members deadline)))"

definition wait_for :: "nat \<Rightarrow> rat \<Rightarrow> 's engine \<Rightarrow> ustr \<Rightarrow> int option \<Rightarrow> (unit, 's) eff" where
  "wait_for k limit en node members = bind_eff (en_clock en) (\<lambda>t. wait_node k en node members (t + limit))"

section \<open>The choice of a node\<close>

type_synonym 'a by_node = "(ustr \<times> 'a) list"

definition select_safe_node :: "ustr list \<Rightarrow> gstate by_node \<Rightarrow> (ustr \<times> operation) res" where
  "select_safe_node nodes found =
     (if fst ` set found \<noteq> set nodes then Inl (Runtime_Error ''Bootstrap requires state checks on all active nodes.'')
      else if \<not> list_ex (\<lambda>(_, s). gs_initialized s) found then Inr (u ''galera1'', Op_New)
      else let old = filter (\<lambda>(_, s). gs_initialized s) found in
        if list_ex (\<lambda>(_, s). \<not> gs_complete s) old
        then Inl (Runtime_Error ''Partial initialization detected; inspect logs. No automatic bootstrap.'')
        else if list_ex (\<lambda>(_, s). gs_seqno s < 0) old
        then Inl (Runtime_Error ''An existing node has an unknown position. Recover all positions before bootstrap.'')
        else (case filter (\<lambda>(_, s). gs_safe s = 1 \<and> gs_seqno s \<ge> 0) old of
          [(n, chosen)] \<Rightarrow>
            let ids = concat (map (\<lambda>(_, s). case gs_uuid s of Some i \<Rightarrow> if i \<noteq> [] \<and> gs_seqno s \<ge> 0 then [i] else [] | None \<Rightarrow> []) old) in
            if ids = [] \<or> \<not> list_all (\<lambda>i. i = hd ids) ids \<or> zero_uuid \<in> set ids \<or> gs_uuid chosen \<noteq> Some (hd ids)
            then Inl (Runtime_Error ''State UUID mismatch. Refusing to combine different cluster histories.'')
            else if list_ex (\<lambda>(_, s). gs_seqno s > gs_seqno chosen) old
            then Inl (Runtime_Error ''Safe flag conflicts with sequence positions. Run offline recovery.'')
            else Inr (n, Op_Safe)
        | _ \<Rightarrow> Inl (Runtime_Error ''No unique safe-to-bootstrap node. Run ./lab.sh recover (all nodes stopped).'')))"

text \<open>\<open>max(NODES, key=...)\<close>: the first node with the largest sequence number.\<close>

fun newest :: "(ustr \<Rightarrow> int) \<Rightarrow> ustr \<Rightarrow> ustr list \<Rightarrow> ustr" where
  "newest f best [] = best"
| "newest f best (n # ns) = newest f (if f n > f best then n else best) ns"

definition select_recovered_node :: "ustr list \<Rightarrow> gstate by_node \<Rightarrow> ustr res" where
  "select_recovered_node nodes found =
     (if fst ` set found \<noteq> set nodes \<or> list_ex (\<lambda>(_, s). \<not> gs_initialized s \<or> gs_seqno s < 0) found
      then Inl (Runtime_Error ''Recovery requires valid positions from all existing nodes.'')
      else let ids = map (\<lambda>(_, s). gs_uuid s) found in
        if ids = [] \<or> \<not> list_all (\<lambda>i. i = hd ids) ids \<or> None \<in> set ids \<or> Some zero_uuid \<in> set ids
        then Inl (Runtime_Error ''Recovered UUIDs differ or are invalid: manual investigation required.'')
        else Inr (newest (\<lambda>n. case map_of found n of Some s \<Rightarrow> gs_seqno s | None \<Rightarrow> 0) (hd nodes) (tl nodes)))"

section \<open>Lifecycle\<close>

fun offline_states :: "'s engine \<Rightarrow> operation \<Rightarrow> ustr list \<Rightarrow> (gstate by_node, 's) eff" where
  "offline_states en op [] = ret []"
| "offline_states en op (n # ns) = bind_eff (offline en n op) (\<lambda>out. case out of
       Out_State s \<Rightarrow> bind_eff (offline_states en op ns) (\<lambda>rest. ret ((n, s) # rest))
     | Out_Position s _ \<Rightarrow> bind_eff (offline_states en op ns) (\<lambda>rest. ret ((n, s) # rest))
     | _ \<Rightarrow> raise_exn Key_Error)"

record limits =
  li_rounds :: nat
  li_wait :: rat

definition bootstrap :: "limits \<Rightarrow> 's engine \<Rightarrow> ustr list \<Rightarrow> (unit, 's) eff" where
  "bootstrap li en nodes =
     bind_eff (offline_states en Op_Inspect nodes) (\<lambda>found.
     bind_eff (lift_res (select_safe_node nodes found)) (\<lambda>(n, op).
     bind_eff (offline en n op) (\<lambda>_.
     bind_eff (start_service en n) (\<lambda>_.
     wait_for (li_rounds li) (li_wait li) en n (Some 1)))))"

fun join_nodes :: "limits \<Rightarrow> 's engine \<Rightarrow> ustr list \<Rightarrow> (unit, 's) eff" where
  "join_nodes li en [] = ret ()"
| "join_nodes li en (n # ns) = bind_eff (container_state en n) (\<lambda>c.
     if c = Paused then raise_exn (Runtime_Error ''paused. Use ./lab.sh resume.'')
     else bind_eff (if c \<noteq> Running then bind_eff (start_service en n) (\<lambda>_. wait_for (li_rounds li) (li_wait li) en n None) else ret ()) (\<lambda>_.
       join_nodes li en ns))"

fun wait_all :: "limits \<Rightarrow> 's engine \<Rightarrow> int \<Rightarrow> ustr list \<Rightarrow> (unit, 's) eff" where
  "wait_all li en members [] = ret ()"
| "wait_all li en members (n # ns) = bind_eff (wait_for (li_rounds li) (li_wait li) en n (Some members)) (\<lambda>_. wait_all li en members ns)"

definition lab_up :: "limits \<Rightarrow> 's engine \<Rightarrow> ustr list \<Rightarrow> (unit, 's) eff" where
  "lab_up li en nodes =
     bind_eff (en_step en ''build'') (\<lambda>_.
     bind_eff (active_nodes en nodes) (\<lambda>running.
     bind_eff (healthy_nodes en running) (\<lambda>healthy.
     if running \<noteq> [] \<and> healthy = []
     then raise_exn (Runtime_Error ''Nodes exist but none is ready. Check logs; resume paused nodes or do documented offline recovery.'')
     else bind_eff (if running = [] then bootstrap li en nodes else ret ()) (\<lambda>_.
       bind_eff (node_health en (u ''galera1'')) (\<lambda>h.
       bind_eff (if he_ready h then en_step en ''galera transport'' else ret ()) (\<lambda>_.
       bind_eff (join_nodes li en nodes) (\<lambda>_.
       bind_eff (wait_all li en (int (length nodes)) nodes) (\<lambda>_.
       bind_eff (healthy_node en nodes) (\<lambda>_.
       bind_eff (en_step en ''ops schema'') (\<lambda>_.
       bind_eff (en_step en ''proxy dashboard'') (\<lambda>_. en_step en ''frontends'')))))))))))"

definition lab_recover :: "limits \<Rightarrow> 's engine \<Rightarrow> ustr list \<Rightarrow> bool \<Rightarrow> (ustr, 's) eff" where
  "lab_recover li en nodes confirmed =
     bind_eff (require_all_stopped en nodes) (\<lambda>_.
     bind_eff (en_step en ''build'') (\<lambda>_.
     bind_eff (offline_states en Op_Recover nodes) (\<lambda>found.
     bind_eff (lift_res (select_recovered_node nodes found)) (\<lambda>n.
     bind_eff (en_step en ''report'') (\<lambda>_.
     if \<not> confirmed then ret n
     else bind_eff (require_all_stopped en nodes) (\<lambda>_.
       case map_of found n of None \<Rightarrow> raise_exn Key_Error
       | Some s \<Rightarrow> (case gs_uuid s of None \<Rightarrow> raise_exn Type_Error
         | Some i \<Rightarrow> bind_eff (offline en n (Op_Recovered i (gs_seqno s))) (\<lambda>_.
             bind_eff (start_service en n) (\<lambda>_.
             bind_eff (wait_for (li_rounds li) (li_wait li) en n (Some 1)) (\<lambda>_.
             bind_eff (lab_up li en nodes) (\<lambda>_. ret n)))))))))))"

fun down_nodes :: "'s engine \<Rightarrow> ustr list \<Rightarrow> (unit, 's) eff" where
  "down_nodes en [] = ret ()"
| "down_nodes en (n # ns) = bind_eff (container_state en n) (\<lambda>c.
     bind_eff (if c = Paused then en_unpause en n else ret ()) (\<lambda>_.
     bind_eff (container_state en n) (\<lambda>c'.
     bind_eff (if c' = Running then en_stop en n 120 else ret ()) (\<lambda>_. down_nodes en ns))))"

fun down_services :: "'s engine \<Rightarrow> ustr list \<Rightarrow> (unit, 's) eff" where
  "down_services en [] = ret ()"
| "down_services en (n # ns) = bind_eff (container_state en n) (\<lambda>c.
     bind_eff (if c = Running then en_stop en n 30 else ret ()) (\<lambda>_. down_services en ns))"

definition lab_down :: "'s engine \<Rightarrow> ustr list \<Rightarrow> (unit, 's) eff" where
  "lab_down en nodes = bind_eff (down_services en (map u [''proxy'', ''dashboard'', ''cloudbeaver'', ''restore''])) (\<lambda>_.
     down_nodes en (rev nodes))"

fun others_ready :: "'s engine \<Rightarrow> string \<Rightarrow> ustr list \<Rightarrow> (unit, 's) eff" where
  "others_ready en message [] = ret ()"
| "others_ready en message (n # ns) = bind_eff (node_health en n) (\<lambda>h.
     if \<not> he_ready h then raise_exn (Runtime_Error message) else others_ready en message ns)"

definition lab_rebuild :: "limits \<Rightarrow> 's engine \<Rightarrow> ustr list \<Rightarrow> ustr \<Rightarrow> (unit, 's) eff" where
  "lab_rebuild li en nodes node = (let others = filter (\<lambda>n. n \<noteq> node) nodes in
     bind_eff (others_ready en ''Both surviving nodes must be healthy before rebuilding one node.'' others) (\<lambda>_.
     bind_eff (down_nodes en [node]) (\<lambda>_.
     bind_eff (others_ready en ''A surviving node became unready; wipe cancelled.'' others) (\<lambda>_.
     bind_eff (offline en node Op_Wipe) (\<lambda>_.
     bind_eff (start_service en node) (\<lambda>_.
     wait_for (li_rounds li) (li_wait li) en node (Some (int (length nodes)))))))))"

fun health_states :: "'s engine \<Rightarrow> ustr list \<Rightarrow> (health list, 's) eff" where
  "health_states en [] = ret []"
| "health_states en (n # ns) = bind_eff (node_health en n) (\<lambda>h. bind_eff (health_states en ns) (\<lambda>hs. ret (h # hs)))"

definition health_all :: "'s engine \<Rightarrow> ustr list \<Rightarrow> (unit, 's) eff" where
  "health_all en nodes = bind_eff (health_states en nodes) (\<lambda>hs.
     if list_all (\<lambda>h. he_ready h \<and> (he_size h = PStr (nat_text (length nodes)) \<or> he_size h = PInt (int (length nodes)))) hs
       \<and> hs \<noteq> [] \<and> list_all (\<lambda>h. he_uuid h = he_uuid (hd hs)) hs \<and> he_uuid (hd hs) \<notin> {PNone, PStr []}
     then ret () else raise_exn (Runtime_Error ''Cluster membership/readiness/UUID check failed.''))"

section \<open>The position file round trips\<close>

lemma skip_line: "10 \<notin> set line \<Longrightarrow> state_fields False (line @ 10 # rest) = state_fields True rest"
  by (induction line) auto

lemma skip_first: "field_at (c # line @ 10 # rest) = None \<Longrightarrow> 10 \<notin> set (c # line) \<Longrightarrow>
   state_fields True ((c # line) @ 10 # rest) = state_fields True rest"
  using skip_line [of line rest] by auto

lemma field_names_cases: "k \<in> set field_names \<longleftrightarrow> k = ''uuid'' \<or> k = ''seqno'' \<or> k = ''safe_to_bootstrap''"
  by (simp add: field_names_def)

lemma field_at_value:
  assumes "k \<in> set field_names" and "v \<noteq> []" and "list_all word_char v"
  shows "field_at (u k @ [58, 32] @ v @ 10 # rest) = Some (u k, v, 10 # rest)"
proof -
  have f: "find (\<lambda>k'. starts_with (u (k' @ '':'')) (u k @ [58, 32] @ v @ 10 # rest)) field_names = Some k"
    using assms(1) unfolding field_names_cases by (elim disjE; simp add: field_names_def starts_with_def u_def)
  have d: "drop (length k + 1) (u k @ [58, 32] @ v @ 10 # rest) = 32 # v @ 10 # rest" by simp
  obtain c w where v: "v = c # w" "\<not> py_space c" using assms(2,3) by (cases v) (auto simp: word_char_def)
  have "dropWhile py_space (32 # v @ 10 # rest) = v @ 10 # rest" using v by (simp; simp add: py_space_def)
  moreover have "takeWhile word_char (v @ 10 # rest) = v"
    using assms(3) by (subst takeWhile_append2) (auto simp: list_all_iff word_char_def py_space_def)
  ultimately show ?thesis using f d assms(2) by (simp add: field_at_def)
qed

lemma state_field:
  assumes "k \<in> set field_names" and "v \<noteq> []" and "list_all word_char v"
  shows "state_fields True (u k @ [58, 32] @ v @ 10 # rest) = (u k, v) # state_fields True rest"
proof -
  obtain c t where ct: "u k @ [58, 32] @ v @ 10 # rest = c # t" by (cases "u k @ [58, 32] @ v @ 10 # rest") auto
  have "state_fields True (c # t) = (u k, v) # state_fields False (10 # rest)"
    using field_at_value [OF assms, of rest] unfolding ct by simp
  then show ?thesis using ct by simp
qed

lemma digits_word: "list_all is_digit s \<Longrightarrow> list_all word_char s"
  by (auto simp: list_all_iff word_char_def is_digit_def py_space_def)

lemma uuid_word: "full_uuid i \<Longrightarrow> list_all word_char i \<and> i \<noteq> []"
  by (auto simp: full_uuid_def list_all_iff word_char_def uuid_char_def is_digit_def py_space_def)

lemma grastate_fields:
  assumes "full_uuid i" and "0 \<le> n"
  shows "state_fields True (grastate_text i n) = [(u ''uuid'', i), (u ''seqno'', int_text n), (u ''safe_to_bootstrap'', [49])]"
proof -
  let ?c = "u ''safe_to_bootstrap'' @ [58, 32] @ [49] @ 10 # []"
  let ?b = "u ''seqno'' @ [58, 32] @ int_text n @ 10 # ?c"
  let ?a = "u ''uuid'' @ [58, 32] @ i @ 10 # ?b"
  have t: "grastate_text i n = u ''# GALERA saved state'' @ 10 # u ''version: 2.1'' @ 10 # ?a"
    by (simp add: grastate_text_def u_def)
  have g: "state_fields True (u ''# GALERA saved state'' @ 10 # r) = state_fields True r" for r
    using skip_first [of "hd (u ''# GALERA saved state'')" "tl (u ''# GALERA saved state'')" r]
    by (simp add: u_def field_at_def field_names_def starts_with_def)
  have v: "state_fields True (u ''version: 2.1'' @ 10 # r) = state_fields True r" for r
    using skip_first [of "hd (u ''version: 2.1'')" "tl (u ''version: 2.1'')" r]
    by (simp add: u_def field_at_def field_names_def starts_with_def)
  have n: "list_all word_char (int_text n)" "int_text n \<noteq> []"
    using assms(2) digits_word [OF nat_text_digits] by (auto simp: int_text_def)
  have one: "list_all word_char [49]" by (simp add: word_char_def py_space_def)
  have "state_fields True ?c = [(u ''safe_to_bootstrap'', [49])]"
    using state_field [of "''safe_to_bootstrap''" "[49]" "[]"] one by (simp add: field_names_cases)
  moreover have "state_fields True ?b = (u ''seqno'', int_text n) # state_fields True ?c"
    using state_field [OF _ n(2,1), of "''seqno''" ?c] by (simp only: field_names_cases simp_thms)
  moreover have "state_fields True ?a = (u ''uuid'', i) # state_fields True ?b"
    using state_field [of "''uuid''" i ?b] uuid_word [OF assms(1)] by (simp only: field_names_cases simp_thms)
  ultimately show ?thesis unfolding t g v by (simp only:)
qed

lemma grastate_roundtrip:
  assumes "full_uuid i" and "0 \<le> n"
  shows "parse_state (grastate_text i n) = Inr \<lparr>gr_uuid = Some i, gr_seqno = n, gr_safe = 1\<rparr>"
proof -
  have "py_int (int_text n) = Some n" by (rule py_int_int_text)
  moreover have "py_int [49] = Some 1" using py_int_int_text [of 1] by (simp add: int_text_def nat_text.simps [of "Suc 0"])
  ultimately show ?thesis
    by (simp add: parse_state_def grastate_fields [OF assms] int_field_def last_field_def)
qed

section \<open>What the controller did\<close>

datatype event = Looked ustr inspection | Read ustr volume | Recovered ustr "ustr \<times> int" | Wrote ustr volume

definition on_ok :: "('a \<Rightarrow> event) \<Rightarrow> 'a res \<Rightarrow> event list" where
  "on_ok f r = (case r of Inl _ \<Rightarrow> [] | Inr a \<Rightarrow> [f a])"

definition watched_engine :: "'s engine \<Rightarrow> ('s \<times> event list) engine" where
  "watched_engine en = \<lparr>en_inspect = (\<lambda>n. recording (on_ok (Looked n)) (en_inspect en n)),
     en_health = (\<lambda>n. recording (\<lambda>_. []) (en_health en n)),
     en_read = (\<lambda>n. recording (on_ok (Read n)) (en_read en n)),
     en_write = (\<lambda>n v. recording (\<lambda>_. [Wrote n v]) (en_write en n v)),
     en_wsrep = (\<lambda>n. recording (on_ok (Recovered n)) (en_wsrep en n)),
     en_up = (\<lambda>n. recording (\<lambda>_. []) (en_up en n)), en_unpause = (\<lambda>n. recording (\<lambda>_. []) (en_unpause en n)),
     en_stop = (\<lambda>n t. recording (\<lambda>_. []) (en_stop en n t)), en_clock = recording (\<lambda>_. []) (en_clock en),
     en_step = (\<lambda>x. recording (\<lambda>_. []) (en_step en x))\<rparr>"

definition idle_in :: "event list \<Rightarrow> ustr \<Rightarrow> bool" where
  "idle_in prev m \<longleftrightarrow> (\<exists>i. Looked m i \<in> set prev \<and> (case i of No_Inspect _ \<Rightarrow> True
     | Inspected d \<Rightarrow> \<not> truthy (dget d ''Paused'') \<and> dget d ''Status'' \<noteq> PStr (u ''paused'') \<and> \<not> truthy (dget d ''Running'')))"

definition read_state :: "event list \<Rightarrow> ustr \<Rightarrow> gstate \<Rightarrow> bool" where
  "read_state prev m s \<longleftrightarrow> (\<exists>v. Read m v \<in> set prev \<and> inspect v = Inr s)"

definition read_position :: "event list \<Rightarrow> ustr \<Rightarrow> gstate \<Rightarrow> bool" where
  "read_position prev m s \<longleftrightarrow> (\<exists>v w p g. Read m v \<in> set prev \<and> Recovered m w \<in> set prev \<and> inspect v = Inr g
     \<and> recovered_position (fst w) = Inr p \<and> s = g\<lparr>gs_uuid := Some (po_uuid p), gs_seqno := po_seqno p\<rparr>)"

definition safe_choice :: "ustr list \<Rightarrow> (ustr \<Rightarrow> gstate) \<Rightarrow> ustr \<Rightarrow> bool" where
  "safe_choice nodes st n \<longleftrightarrow> n \<in> set nodes \<and> gs_initialized (st n) \<and> gs_safe (st n) = 1 \<and> gs_uuid (st n) \<notin> {None, Some zero_uuid}
     \<and> (\<forall>m\<in>set nodes. gs_initialized (st m) \<longrightarrow> gs_complete (st m) \<and> 0 \<le> gs_seqno (st m) \<and> gs_seqno (st m) \<le> gs_seqno (st n)
          \<and> gs_uuid (st m) \<in> {None, Some [], gs_uuid (st n)})"

definition recovered_choice :: "ustr list \<Rightarrow> (ustr \<Rightarrow> gstate) \<Rightarrow> ustr \<Rightarrow> bool" where
  "recovered_choice nodes st n \<longleftrightarrow> n \<in> set nodes \<and> gs_uuid (st n) \<notin> {None, Some zero_uuid}
     \<and> (\<forall>m\<in>set nodes. gs_initialized (st m) \<and> 0 \<le> gs_seqno (st m) \<and> gs_seqno (st m) \<le> gs_seqno (st n) \<and> gs_uuid (st m) = gs_uuid (st n))"

definition justified :: "ustr list \<Rightarrow> event list \<Rightarrow> ustr \<Rightarrow> volume \<Rightarrow> bool" where
  "justified nodes prev n v \<longleftrightarrow> (\<exists>st. (\<forall>m\<in>set nodes. idle_in prev m) \<and>
     (vo_once v = Some ''authorize-new'' \<and> (\<forall>m\<in>set nodes. read_state prev m (st m) \<and> \<not> gs_initialized (st m))
    \<or> vo_once v = Some ''authorize-safe'' \<and> (\<forall>m\<in>set nodes. read_state prev m (st m)) \<and> safe_choice nodes st n
    \<or> vo_once v = Some ''authorize-recovered'' \<and> (\<forall>m\<in>set nodes. read_position prev m (st m)) \<and> recovered_choice nodes st n
      \<and> (\<exists>t. vo_grastate v = Some t \<and> parse_state t = Inr \<lparr>gr_uuid = gs_uuid (st n), gr_seqno = gs_seqno (st n), gr_safe = 1\<rparr>)))"

definition ok_event :: "ustr list \<Rightarrow> event list \<Rightarrow> event \<Rightarrow> bool" where
  "ok_event nodes prev c \<longleftrightarrow> (case c of Wrote n v \<Rightarrow> justified nodes prev n v | _ \<Rightarrow> True)"

definition silent :: "event list \<Rightarrow> bool" where
  "silent ext \<longleftrightarrow> list_all (\<lambda>c. case c of Wrote _ _ \<Rightarrow> False | _ \<Rightarrow> True) ext"

lemma readings_mono:
  assumes "set prev \<subseteq> set prev'"
  shows "idle_in prev m \<Longrightarrow> idle_in prev' m" and "read_state prev m s \<Longrightarrow> read_state prev' m s"
    and "read_position prev m s \<Longrightarrow> read_position prev' m s"
  using assms unfolding idle_in_def read_state_def read_position_def by blast+

lemma justified_mono: "justified nodes prev n v \<Longrightarrow> set prev \<subseteq> set prev' \<Longrightarrow> justified nodes prev' n v"
  unfolding justified_def using readings_mono by meson

interpretation authority: justified_events "ok_event nodes" for nodes
proof
  show "ok_event nodes prev c \<Longrightarrow> set prev \<subseteq> set prev' \<Longrightarrow> ok_event nodes prev' c" for prev c prev'
    using justified_mono by (auto simp: ok_event_def split: event.splits)
qed

lemma silent_simps [simp]: "silent []" "silent (a @ b) \<longleftrightarrow> silent a \<and> silent b"
  "silent (Looked n i # a) \<longleftrightarrow> silent a" "silent (Read n v # a) \<longleftrightarrow> silent a" "silent (Recovered n w # a) \<longleftrightarrow> silent a"
  by (auto simp: silent_def)

lemma silent_safe: "silent ext \<Longrightarrow> safe_log (ok_event nodes) ext"
  by (induction ext rule: rev_induct) (auto simp: safe_log_snoc silent_def ok_event_def split: event.splits)

lemma silent_bind: "logs m (\<lambda>_. silent) \<Longrightarrow> (\<And>a. logs (k a) (\<lambda>_. silent)) \<Longrightarrow> logs (bind_eff m k) (\<lambda>_. silent)"
  by (rule logs_bindI [where f = "\<lambda>_. silent" and g = "\<lambda>_ _. silent"]) auto

lemma silent_simple: "logs (ret a) (\<lambda>_. silent)" "logs (raise_exn e) (\<lambda>_. silent)" "logs (lift_res x) (\<lambda>_. silent)"
  by (rule logs_ret; simp)+

lemma silent_engine:
  "logs (en_health (watched_engine en) n) (\<lambda>_. silent)" "logs (en_up (watched_engine en) n) (\<lambda>_. silent)"
  "logs (en_unpause (watched_engine en) n) (\<lambda>_. silent)" "logs (en_stop (watched_engine en) n t) (\<lambda>_. silent)"
  "logs (en_clock (watched_engine en)) (\<lambda>_. silent)" "logs (en_step (watched_engine en) x) (\<lambda>_. silent)"
  by (auto simp: watched_engine_def intro: logs_mono [OF logs_recording])

lemma logs_engine:
  "logs (en_inspect (watched_engine en) n) (\<lambda>r ext. ext = on_ok (Looked n) r)"
  "logs (en_read (watched_engine en) n) (\<lambda>r ext. ext = on_ok (Read n) r)"
  "logs (en_wsrep (watched_engine en) n) (\<lambda>r ext. ext = on_ok (Recovered n) r)"
  "logs (en_write (watched_engine en) n v) (\<lambda>r ext. ext = [Wrote n v])"
  by (simp_all add: watched_engine_def logs_recording)

lemma on_ok_simps [simp]: "on_ok f (Inl e) = []" "on_ok f (Inr a) = [f a]"
  by (simp_all add: on_ok_def)

lemma logs_container: "logs (container_state (watched_engine en) n)
   (\<lambda>r ext. silent ext \<and> (\<forall>c. r = Inr c \<and> \<not> active c \<longrightarrow> idle_in ext n))"
  unfolding container_state_def
proof (rule logs_bindI [OF logs_engine(1), where
    g = "\<lambda>i r ext. ext = [] \<and> (\<forall>c. r = Inr c \<and> \<not> active c \<longrightarrow> idle_in [Looked n i] n)"])
  show "logs (case i of No_Inspect e \<Rightarrow> if list_ex (\<lambda>m. text_in m e) absent_messages then ret Absent
         else raise_exn (Runtime_Error ''Container inspect failed (not an absent node). Check engine/permissions'')
     | Inspected d \<Rightarrow> if truthy (dget d ''Paused'') \<or> dget d ''Status'' = PStr (u ''paused'') then ret Paused
         else ret (if truthy (dget d ''Running'') then Running else Stopped))
     (\<lambda>r ext. ext = [] \<and> (\<forall>c. r = Inr c \<and> \<not> active c \<longrightarrow> idle_in [Looked n i] n))" for i
    by (cases i) (auto simp: idle_in_def active_def intro!: logs_if logs_ret)
qed auto

lemma silent_container: "logs (container_state (watched_engine en) n) (\<lambda>_. silent)"
  by (rule logs_mono [OF logs_container]) simp

lemmas silent_intros = silent_bind silent_simple silent_engine silent_container logs_if

lemma silent_start: "logs (start_service (watched_engine en) n) (\<lambda>_. silent)"
  unfolding start_service_def by (intro silent_intros)

lemma silent_active: "logs (active_nodes (watched_engine en) ns) (\<lambda>_. silent)"
  by (induction ns) (auto intro!: silent_bind silent_container simp: silent_simple simp del: ret_simps)

lemma silent_health: "logs (node_health (watched_engine en) n) (\<lambda>_. silent)"
  unfolding node_health_def by (intro silent_intros)

lemma silent_healthy: "logs (healthy_nodes (watched_engine en) ns) (\<lambda>_. silent)"
  by (induction ns) (simp_all only: healthy_nodes.simps silent_simple silent_bind silent_health)

lemma silent_healthy_node: "logs (healthy_node (watched_engine en) ns) (\<lambda>_. silent)"
  by (induction ns) (simp_all only: healthy_node.simps silent_simple silent_bind silent_health logs_if)

lemma silent_wait_node: "logs (wait_node k (watched_engine en) n members deadline) (\<lambda>_. silent)"
proof (induction k)
  case (Suc k)
  show ?case unfolding wait_node.simps
    by (intro silent_bind silent_health silent_engine logs_if silent_simple Suc.IH; cases members;
        simp only: option.case; intro silent_bind silent_simple logs_if)
qed (simp only: wait_node.simps silent_simple)

lemma silent_wait: "logs (wait_for k limit (watched_engine en) n members) (\<lambda>_. silent)"
  unfolding wait_for_def by (intro silent_bind silent_engine silent_wait_node)

lemma silent_join: "logs (join_nodes li (watched_engine en) ns) (\<lambda>_. silent)"
proof (induction ns)
  case (Cons n ns)
  show ?case unfolding join_nodes.simps
    by (intro silent_bind silent_container logs_if silent_simple silent_start silent_wait Cons.IH)
qed (simp only: join_nodes.simps silent_simple)

lemma silent_wait_all: "logs (wait_all li (watched_engine en) k ns) (\<lambda>_. silent)"
  by (induction ns) (simp_all only: wait_all.simps silent_simple silent_bind silent_wait)

lemma silent_stopped: "logs (require_all_stopped (watched_engine en) ns) (\<lambda>_. silent)"
  unfolding require_all_stopped_def by (intro silent_bind silent_active logs_if silent_simple)

text \<open>An inspection or a recovery writes nothing; an authorization may write, after looking at the node.\<close>

lemma state_main_reads:
  "op = Op_Inspect \<or> op = Op_Recover \<Longrightarrow> snd (state_main w op v) = v"
  by (auto simp: state_main_def split: sum.splits)

lemma state_main_output:
  "state_main w op v = (Inr out, v') \<Longrightarrow> op = Op_Inspect \<Longrightarrow> Read n v \<in> set ext \<Longrightarrow> \<exists>s. out = Out_State s \<and> read_state ext n s"
  "state_main w op v = (Inr out, v') \<Longrightarrow> op = Op_Recover \<Longrightarrow> Read n v \<in> set ext \<Longrightarrow> Recovered n w \<in> set ext \<Longrightarrow>
     \<exists>s p. out = Out_Position s p \<and> read_position ext n s"
proof -
  assume s: "state_main w op v = (Inr out, v')" "op = Op_Inspect" and r: "Read n v \<in> set ext"
  then show "\<exists>s. out = Out_State s \<and> read_state ext n s"
    unfolding read_state_def by (auto simp: state_main_def split: sum.splits)
next
  assume s: "state_main w op v = (Inr out, v')" "op = Op_Recover" and r: "Read n v \<in> set ext" "Recovered n w \<in> set ext"
  then obtain g p where "inspect v = Inr g" "recovered_position (fst w) = Inr p"
    "out = Out_Position (g\<lparr>gs_uuid := Some (po_uuid p), gs_seqno := po_seqno p\<rparr>) p"
    by (auto simp: state_main_def bind_res_Inr_iff split: sum.splits if_splits)
  with r show "\<exists>s p. out = Out_Position s p \<and> read_position ext n s"
    unfolding read_position_def by (intro exI conjI) (assumption | rule refl)+
qed

definition reading :: "operation \<Rightarrow> event list \<Rightarrow> ustr \<Rightarrow> gstate \<Rightarrow> bool" where
  "reading op ext n s \<longleftrightarrow> (if op = Op_Recover then read_position ext n s else read_state ext n s)"

lemma logs_offline_read:
  assumes "op = Op_Inspect \<or> op = Op_Recover"
  shows "logs (offline (watched_engine en) n op) (\<lambda>r ext. silent ext \<and> (\<forall>out. r = Inr out \<longrightarrow> idle_in ext n \<and>
     (\<exists>s. (out = Out_State s \<or> (\<exists>p. out = Out_Position s p)) \<and> reading op ext n s)))"
  unfolding offline_def
proof (rule logs_bindI [OF logs_container, where g = "\<lambda>c r ext. silent ext \<and> (\<forall>out. r = Inr out \<longrightarrow> \<not> active c \<and>
     (\<exists>s. (out = Out_State s \<or> (\<exists>p. out = Out_Position s p)) \<and> reading op ext n s))"])
  fix c
  let ?en = "watched_engine en"
  have run: "logs (case state_main w op v of (Inl e, _) \<Rightarrow> raise_exn (Runtime_Error ''Command failed'')
       | (Inr out, v') \<Rightarrow> if v' = v then ret out else bind_eff (en_write ?en n v') (\<lambda>_. ret out))
     (\<lambda>r ext. ext = [] \<and> (\<forall>out. r = Inr out \<longrightarrow> state_main w op v = (Inr out, v)))" for w v
    using state_main_reads [OF assms, of w v] by (cases "state_main w op v"; cases "fst (state_main w op v)") (auto intro!: logs_ret)
  have out: "logs (bind_eff (if op = Op_Recover then en_wsrep ?en n else ret ([], 0)) (\<lambda>w.
       case state_main w op v of (Inl e, _) \<Rightarrow> raise_exn (Runtime_Error ''Command failed'')
       | (Inr out, v') \<Rightarrow> if v' = v then ret out else bind_eff (en_write ?en n v') (\<lambda>_. ret out)))
     (\<lambda>r ext. silent ext \<and> (\<forall>out. r = Inr out \<longrightarrow> (\<exists>w. state_main w op v = (Inr out, v) \<and> (op = Op_Recover \<longrightarrow> Recovered n w \<in> set ext))))" for v
  proof (rule logs_bindI [OF _ run])
    show "logs (if op = Op_Recover then en_wsrep ?en n else ret ([], 0))
       (\<lambda>r ext. silent ext \<and> (\<forall>w. r = Inr w \<and> op = Op_Recover \<longrightarrow> Recovered n w \<in> set ext))"
      by (rule logs_if) (auto intro: logs_mono [OF logs_engine(3)] logs_mono [OF logs_quiet(1)] simp: on_ok_def split: sum.splits)
  qed (auto simp del: split_paired_Ex split_paired_All)
  show "logs (if active c then raise_exn (Runtime_Error ''node is active; offline volume access refused.'')
     else bind_eff (en_read ?en n) (\<lambda>v. bind_eff (if op = Op_Recover then en_wsrep ?en n else ret ([], 0)) (\<lambda>w.
       case state_main w op v of (Inl e, _) \<Rightarrow> raise_exn (Runtime_Error ''Command failed'')
       | (Inr out, v') \<Rightarrow> if v' = v then ret out else bind_eff (en_write ?en n v') (\<lambda>_. ret out))))
     (\<lambda>r ext. silent ext \<and> (\<forall>out. r = Inr out \<longrightarrow> \<not> active c \<and>
     (\<exists>s. (out = Out_State s \<or> (\<exists>p. out = Out_Position s p)) \<and> reading op ext n s)))"
  proof (rule logs_if)
    assume "\<not> active c"
    show "logs (bind_eff (en_read ?en n) (\<lambda>v. bind_eff (if op = Op_Recover then en_wsrep ?en n else ret ([], 0)) (\<lambda>w.
       case state_main w op v of (Inl e, _) \<Rightarrow> raise_exn (Runtime_Error ''Command failed'')
       | (Inr out, v') \<Rightarrow> if v' = v then ret out else bind_eff (en_write ?en n v') (\<lambda>_. ret out))))
     (\<lambda>r ext. silent ext \<and> (\<forall>out. r = Inr out \<longrightarrow> \<not> active c \<and>
     (\<exists>s. (out = Out_State s \<or> (\<exists>p. out = Out_Position s p)) \<and> reading op ext n s)))"
    proof (rule logs_bindI [OF logs_engine(2) out])
      fix v r e1 e2
      assume e1: "e1 = on_ok (Read n) (Inr v)" and e2: "silent e2 \<and> (\<forall>out. r = Inr out \<longrightarrow>
        (\<exists>w. state_main w op v = (Inr out, v) \<and> (op = Op_Recover \<longrightarrow> Recovered n w \<in> set e2)))"
      have "\<exists>s. (out = Out_State s \<or> (\<exists>p. out = Out_Position s p)) \<and> reading op (e1 @ e2) n s" if out: "r = Inr out" for out
      proof -
        obtain w where w: "state_main w op v = (Inr out, v)" "op = Op_Recover \<longrightarrow> Recovered n w \<in> set e2" using e2 out by blast
        show ?thesis using assms state_main_output(1) [OF w(1), of n "e1 @ e2"] state_main_output(2) [OF w(1), of n "e1 @ e2"] w(2) e1
          by (auto simp: reading_def)
      qed
      then show "silent (e1 @ e2) \<and> (\<forall>out. r = Inr out \<longrightarrow> \<not> active c \<and>
        (\<exists>s. (out = Out_State s \<or> (\<exists>p. out = Out_Position s p)) \<and> reading op (e1 @ e2) n s))"
        using e1 e2 \<open>\<not> active c\<close> by simp
    qed simp
  qed (auto intro!: logs_ret)
next
  fix c r e1 e2
  assume "silent e1 \<and> (\<forall>c'. Inr c = (Inr c' :: cstate res) \<and> \<not> active c' \<longrightarrow> idle_in e1 n)"
    and "silent e2 \<and> (\<forall>out. r = Inr out \<longrightarrow> \<not> active c \<and> (\<exists>s. (out = Out_State s \<or> (\<exists>p. out = Out_Position s p)) \<and> reading op e2 n s))"
  then show "silent (e1 @ e2) \<and> (\<forall>out. r = Inr out \<longrightarrow> idle_in (e1 @ e2) n \<and>
     (\<exists>s. (out = Out_State s \<or> (\<exists>p. out = Out_Position s p)) \<and> reading op (e1 @ e2) n s))"
    using readings_mono [of e1 "e1 @ e2"] readings_mono [of e2 "e1 @ e2"] unfolding reading_def by (auto; metis)
qed simp
text \<open>Any helper operation writes at most once, the volume it computed from the one it read, on an idle node.\<close>

lemma logs_offline:
  "logs (offline (watched_engine en) n op) (\<lambda>r ext. silent ext \<or>
     (\<exists>a w v out v'. ext = a @ [Wrote n v'] \<and> silent a \<and> state_main w op v = (Inr out, v') \<and> v' \<noteq> v \<and> Read n v \<in> set a))"
  unfolding offline_def
proof (rule logs_bindI [OF logs_container, where g = "\<lambda>c r ext. silent ext \<or>
     (\<exists>a w v out v'. ext = a @ [Wrote n v'] \<and> silent a \<and> state_main w op v = (Inr out, v') \<and> v' \<noteq> v \<and> Read n v \<in> set a)"])
  fix c
  let ?en = "watched_engine en"
  let ?run = "\<lambda>v w. case state_main w op v of (Inl e, _) \<Rightarrow> raise_exn (Runtime_Error ''Command failed'')
       | (Inr out, v') \<Rightarrow> if v' = v then ret out else bind_eff (en_write ?en n v') (\<lambda>_. ret out)"
  have run: "logs (?run v w) (\<lambda>r ext. ext = [] \<or> (\<exists>out v'. ext = [Wrote n v'] \<and> state_main w op v = (Inr out, v') \<and> v' \<noteq> v))" for w v
  proof (cases "state_main w op v")
    case (Pair o' v')
    show ?thesis
    proof (cases o')
      case (Inr out)
      have "logs (bind_eff (en_write ?en n v') (\<lambda>_. ret out)) (\<lambda>r ext. ext = [Wrote n v'])"
        by (rule logs_bindI [OF logs_engine(4) logs_quiet(1)]) auto
      then show ?thesis using Pair Inr by (auto intro!: logs_ret elim!: logs_mono)
    qed (use Pair in \<open>auto intro!: logs_ret\<close>)
  qed
  have wsrep: "logs (if op = Op_Recover then en_wsrep ?en n else ret ([], 0)) (\<lambda>_. silent)"
    by (rule logs_if) (auto intro: logs_mono [OF logs_engine(3)] silent_simple simp: on_ok_def split: sum.splits simp del: ret_simps)
  have rest: "logs (bind_eff (if op = Op_Recover then en_wsrep ?en n else ret ([], 0)) (?run v)) (\<lambda>r ext. silent ext \<or>
     (\<exists>a w out v'. ext = a @ [Wrote n v'] \<and> silent a \<and> state_main w op v = (Inr out, v') \<and> v' \<noteq> v))" for v
  proof (rule logs_bindI [OF wsrep run])
    fix w r e1 e2
    assume "silent e1" and "e2 = [] \<or> (\<exists>out v'. e2 = [Wrote n v'] \<and> state_main w op v = (Inr out, v') \<and> v' \<noteq> v)"
    then show "silent (e1 @ e2) \<or> (\<exists>a w out v'. e1 @ e2 = a @ [Wrote n v'] \<and> silent a \<and> state_main w op v = (Inr out, v') \<and> v' \<noteq> v)"
      by (elim disjE exE) (simp, blast)
  qed simp
  show "logs (if active c then raise_exn (Runtime_Error ''node is active; offline volume access refused.'')
     else bind_eff (en_read ?en n) (\<lambda>v. bind_eff (if op = Op_Recover then en_wsrep ?en n else ret ([], 0)) (?run v)))
     (\<lambda>r ext. silent ext \<or>
     (\<exists>a w v out v'. ext = a @ [Wrote n v'] \<and> silent a \<and> state_main w op v = (Inr out, v') \<and> v' \<noteq> v \<and> Read n v \<in> set a))"
  proof (rule logs_if)
    show "logs (bind_eff (en_read ?en n) (\<lambda>v. bind_eff (if op = Op_Recover then en_wsrep ?en n else ret ([], 0)) (?run v)))
     (\<lambda>r ext. silent ext \<or>
     (\<exists>a w v out v'. ext = a @ [Wrote n v'] \<and> silent a \<and> state_main w op v = (Inr out, v') \<and> v' \<noteq> v \<and> Read n v \<in> set a))"
    proof (rule logs_bindI [OF logs_engine(2) rest])
      fix v r e1 e2
      assume e1: "e1 = on_ok (Read n) (Inr v)" and e2: "silent e2 \<or>
        (\<exists>a w out v'. e2 = a @ [Wrote n v'] \<and> silent a \<and> state_main w op v = (Inr out, v') \<and> v' \<noteq> v)"
      from e2 show "silent (e1 @ e2) \<or> (\<exists>a w v out v'. e1 @ e2 = a @ [Wrote n v'] \<and> silent a \<and> state_main w op v = (Inr out, v')
          \<and> v' \<noteq> v \<and> Read n v \<in> set a)"
      proof
        assume "\<exists>a w out v'. e2 = a @ [Wrote n v'] \<and> silent a \<and> state_main w op v = (Inr out, v') \<and> v' \<noteq> v"
        then obtain a w out v' where "e2 = a @ [Wrote n v']" "silent a" "state_main w op v = (Inr out, v')" "v' \<noteq> v" by blast
        then show ?thesis using e1 by (intro disjI2 exI [of _ "Read n v # a"] exI [of _ w] exI [of _ v] exI [of _ out] exI [of _ v']) simp
      qed (use e1 in simp)
    qed simp
  qed (auto intro!: logs_ret)
next
  fix c r e1 e2
  assume s: "silent e1 \<and> (\<forall>c'. Inr c = (Inr c' :: cstate res) \<and> \<not> active c' \<longrightarrow> idle_in e1 n)"
    and "silent e2 \<or> (\<exists>a w v out v'. e2 = a @ [Wrote n v'] \<and> silent a \<and> state_main w op v = (Inr out, v') \<and> v' \<noteq> v \<and> Read n v \<in> set a)"
  from this(2) show "silent (e1 @ e2) \<or> (\<exists>a w v out v'. e1 @ e2 = a @ [Wrote n v'] \<and> silent a \<and> state_main w op v = (Inr out, v')
     \<and> v' \<noteq> v \<and> Read n v \<in> set a)"
  proof
    assume "\<exists>a w v out v'. e2 = a @ [Wrote n v'] \<and> silent a \<and> state_main w op v = (Inr out, v') \<and> v' \<noteq> v \<and> Read n v \<in> set a"
    then obtain a w v out v' where "e2 = a @ [Wrote n v']" "silent a" "state_main w op v = (Inr out, v')" "v' \<noteq> v" "Read n v \<in> set a" by blast
    then show ?thesis using s by (intro disjI2 exI [of _ "e1 @ a"] exI [of _ w] exI [of _ v] exI [of _ out] exI [of _ v']) simp
  qed (use s in simp)
qed simp

lemma logs_states:
  assumes "op = Op_Inspect \<or> op = Op_Recover"
  shows "logs (offline_states (watched_engine en) op ns) (\<lambda>r ext. silent ext \<and>
     (\<forall>found. r = Inr found \<longrightarrow> map fst found = ns \<and> (\<forall>(n, s)\<in>set found. idle_in ext n \<and> reading op ext n s)))"
proof (induction ns)
  case Nil
  show ?case unfolding offline_states.simps by (rule logs_ret) simp
next
  case (Cons n ns)
  let ?Q = "\<lambda>ns (r :: gstate by_node res) ext. silent ext \<and> (\<forall>found. r = Inr found \<longrightarrow> map fst found = ns \<and> (\<forall>(n, s)\<in>set found. idle_in ext n \<and> reading op ext n s))"
  let ?rest = "\<lambda>s. bind_eff (offline_states (watched_engine en) op ns) (\<lambda>rest. ret ((n, s) # rest))"
  let ?g = "\<lambda>s (r :: gstate by_node res) ext. silent ext \<and> (\<forall>found. r = Inr found \<longrightarrow> (\<exists>rest. found = (n, s) # rest \<and> ?Q ns (Inr rest) ext))"
  have rest: "logs (?rest s) (?g s)" for s
    by (rule logs_bindI [OF Cons.IH logs_quiet(1)]) auto
  have more: "reading op e1 m s \<Longrightarrow> reading op (e1 @ e2) m s" "reading op e2 m s \<Longrightarrow> reading op (e1 @ e2) m s"
    "idle_in e1 m \<Longrightarrow> idle_in (e1 @ e2) m" "idle_in e2 m \<Longrightarrow> idle_in (e1 @ e2) m" for e1 e2 m s
    using readings_mono [of e1 "e1 @ e2"] readings_mono [of e2 "e1 @ e2"] by (auto simp: reading_def)
  show ?case unfolding offline_states.simps
  proof (rule logs_bindI [OF logs_offline_read [OF assms], where g = "\<lambda>out r ext. case out of
        Out_State s \<Rightarrow> ?g s r ext | Out_Position s p \<Rightarrow> ?g s r ext | _ \<Rightarrow> silent ext \<and> (\<exists>e. r = Inl e)"])
    fix out
    show "logs (case out of Out_State s \<Rightarrow> ?rest s | Out_Position s _ \<Rightarrow> ?rest s | _ \<Rightarrow> raise_exn Key_Error)
       (\<lambda>r ext. case out of Out_State s \<Rightarrow> ?g s r ext | Out_Position s p \<Rightarrow> ?g s r ext | _ \<Rightarrow> silent ext \<and> (\<exists>e. r = Inl e))"
      by (cases out) (auto simp only: helper_output.case intro: rest intro!: logs_ret simp_thms silent_simps)
  next
    fix out r e1 e2
    assume o1: "silent e1 \<and> (\<forall>out'. Inr out = (Inr out' :: helper_output res) \<longrightarrow> idle_in e1 n \<and>
        (\<exists>s. (out' = Out_State s \<or> (\<exists>p. out' = Out_Position s p)) \<and> reading op e1 n s))"
      and o2: "case out of Out_State s \<Rightarrow> ?g s r e2 | Out_Position s p \<Rightarrow> ?g s r e2 | _ \<Rightarrow> silent e2 \<and> (\<exists>e. r = Inl e)"
    then obtain s where s: "idle_in e1 n" "reading op e1 n s" "?g s r e2" by fastforce
    show "?Q (n # ns) r (e1 @ e2)"
    proof (intro conjI allI impI)
      show "silent (e1 @ e2)" using o1 s(3) by simp
      fix found assume "r = Inr found"
      then obtain rest where r: "found = (n, s) # rest" "map fst rest = ns" "\<forall>(n, s)\<in>set rest. idle_in e2 n \<and> reading op e2 n s"
        using s(3) by blast
      then show "map fst found = n # ns" by simp
      show "\<forall>(n, s)\<in>set found. idle_in (e1 @ e2) n \<and> reading op (e1 @ e2) n s"
        using r s(1,2) more by auto
    qed
  qed simp
qed
section \<open>The chosen node\<close>

definition state_of :: "gstate by_node \<Rightarrow> ustr \<Rightarrow> gstate" where
  "state_of found n = the (map_of found n)"

lemma state_of_entry: "map fst found = nodes \<Longrightarrow> n \<in> set nodes \<Longrightarrow> (n, state_of found n) \<in> set found"
  by (metis list.set_map map_of_SomeD map_of_eq_None_iff option.exhaust_sel state_of_def)

lemma entry_state_of: "distinct (map fst found) \<Longrightarrow> (n, s) \<in> set found \<Longrightarrow> state_of found n = s"
  by (simp add: state_of_def)

lemma newest_mem: "newest f b ns = b \<or> newest f b ns \<in> set ns"
proof (induction ns arbitrary: b)
  case (Cons n ns)
  show ?case using Cons.IH [of "if f n > f b then n else b"] by (auto simp only: newest.simps list.set split: if_splits)
qed simp

lemma newest_max: "f b \<le> f (newest f b ns) \<and> (\<forall>n\<in>set ns. f n \<le> f (newest f b ns))"
proof (induction ns arbitrary: b)
  case (Cons n ns)
  have "f (if f n > f b then n else b) \<ge> f b" "f (if f n > f b then n else b) \<ge> f n" by auto
  then show ?case using Cons.IH [of "if f n > f b then n else b"] by (simp only: newest.simps) (auto intro: order_trans)
qed simp

lemma select_safe_node_correct:
  assumes "select_safe_node nodes found = Inr (n, op)" and f: "map fst found = nodes" "distinct nodes"
  shows "op = Op_New \<and> (\<forall>m\<in>set nodes. \<not> gs_initialized (state_of found m)) \<or> op = Op_Safe \<and> safe_choice nodes (state_of found) n"
proof (cases "list_ex (\<lambda>(_, s). gs_initialized s) found")
  case False
  then have "op = Op_New" using assms(1) by (auto simp: select_safe_node_def split: if_splits)
  moreover have "\<not> gs_initialized (state_of found m)" if "m \<in> set nodes" for m
    using False state_of_entry [OF f(1) that] by (auto simp: list_ex_iff)
  ultimately show ?thesis by blast
next
  case True
  let ?old = "filter (\<lambda>(_, s). gs_initialized s) found"
  let ?ids = "concat (map (\<lambda>(_, s). case gs_uuid s of Some i \<Rightarrow> if i \<noteq> [] \<and> gs_seqno s \<ge> 0 then [i] else [] | None \<Rightarrow> []) ?old)"
  from assms(1) True obtain chosen where c: "filter (\<lambda>(_, s). gs_safe s = 1 \<and> gs_seqno s \<ge> 0) ?old = [(n, chosen)]"
    and op: "op = Op_Safe" and complete: "\<not> list_ex (\<lambda>(_, s). \<not> gs_complete s) ?old" "\<not> list_ex (\<lambda>(_, s). gs_seqno s < 0) ?old"
    and ids: "?ids \<noteq> []" "list_all (\<lambda>i. i = hd ?ids) ?ids" "zero_uuid \<notin> set ?ids" "gs_uuid chosen = Some (hd ?ids)"
    and max: "\<not> list_ex (\<lambda>(_, s). gs_seqno s > gs_seqno chosen) ?old"
    by (simp add: select_safe_node_def Let_def split: if_splits list.splits prod.splits)
  have "(n, chosen) \<in> set (filter (\<lambda>(_, s). gs_safe s = 1 \<and> gs_seqno s \<ge> 0) ?old)" unfolding c by simp
  then have mem: "(n, chosen) \<in> set found" "gs_initialized chosen" "gs_safe chosen = 1" by auto
  have st: "state_of found n = chosen" using entry_state_of mem(1) f by blast
  have n: "n \<in> set nodes" using mem(1) f(1) by force
  have "hd ?ids \<in> set ?ids" using ids(1) by (rule hd_in_set)
  with ids(3) have z: "hd ?ids \<noteq> zero_uuid" by metis
  have all: "gs_complete s \<and> 0 \<le> gs_seqno s \<and> gs_seqno s \<le> gs_seqno chosen \<and> gs_uuid s \<in> {None, Some [], gs_uuid chosen}"
    if "(m, s) \<in> set found" "gs_initialized s" for m s
  proof -
    have o': "(m, s) \<in> set ?old" using that by simp
    have nn: "0 \<le> gs_seqno s" using complete(2) o' by (force simp: list_ex_iff)
    have "i = hd ?ids" if i: "gs_uuid s = Some i" "i \<noteq> []" for i
    proof -
      have "i \<in> set ?ids" using o' i nn by force
      then show ?thesis using ids(2) [unfolded list_all_iff] by (rule bspec [rotated])
    qed
    then have "gs_uuid s \<in> {None, Some [], gs_uuid chosen}" unfolding ids(4) by (cases "gs_uuid s") auto
    then show ?thesis using complete(1) max o' nn by (force simp: list_ex_iff)
  qed
  have chosen_id: "gs_uuid chosen \<notin> {None, Some zero_uuid}" using ids(4) z by simp
  have "safe_choice nodes (state_of found) n"
    unfolding safe_choice_def st using n mem(2,3) chosen_id all [OF state_of_entry [OF f(1)]] by blast
  then show ?thesis using op by blast
qed

lemma select_recovered_node_correct:
  assumes s: "select_recovered_node nodes found = Inr n" and f: "map fst found = nodes" "distinct nodes"
  shows "recovered_choice nodes (state_of found) n"
proof -
  let ?ids = "map (\<lambda>(_, s). gs_uuid s) found"
  let ?f = "\<lambda>n. case map_of found n of Some s \<Rightarrow> gs_seqno s | None \<Rightarrow> 0"
  from s have ok: "\<not> list_ex (\<lambda>(_, s). \<not> gs_initialized s \<or> gs_seqno s < 0) found"
    and ids: "?ids \<noteq> []" "list_all (\<lambda>i. i = hd ?ids) ?ids" "None \<notin> set ?ids" "Some zero_uuid \<notin> set ?ids"
    and n: "n = newest ?f (hd nodes) (tl nodes)"
    by (simp_all add: select_recovered_node_def Let_def split: if_splits)
  have ne: "nodes \<noteq> []" using ids(1) f(1) by auto
  then have split: "set nodes = insert (hd nodes) (set (tl nodes))" by (cases nodes) auto
  have mem: "n \<in> set nodes" unfolding n split using newest_mem [of ?f "hd nodes" "tl nodes"] by auto
  have seq: "?f m = gs_seqno (state_of found m)" if "m \<in> set nodes" for m
    using map_of_is_SomeI [OF _ state_of_entry [OF f(1) that]] f by simp
  have max: "gs_seqno (state_of found m) \<le> gs_seqno (state_of found n)" if "m \<in> set nodes" for m
    using newest_max [of ?f "hd nodes" "tl nodes"] that unfolding split n [symmetric] seq [OF mem, symmetric]
    by (auto simp: seq [symmetric] split simp del: newest.simps)
  have uuid: "gs_uuid (state_of found m) = hd ?ids" "gs_initialized (state_of found m)" "0 \<le> gs_seqno (state_of found m)" if "m \<in> set nodes" for m
  proof -
    have e: "(m, state_of found m) \<in> set found" using state_of_entry [OF f(1) that] .
    then have "gs_uuid (state_of found m) \<in> set ?ids" by force
    then show "gs_uuid (state_of found m) = hd ?ids" using ids(2) [unfolded list_all_iff] by (rule bspec [rotated])
    show "gs_initialized (state_of found m)" "0 \<le> gs_seqno (state_of found m)" using ok e by (force simp: list_ex_iff)+
  qed
  have "hd ?ids \<in> set ?ids" using ids(1) by (rule hd_in_set)
  then have "hd ?ids \<noteq> None" "hd ?ids \<noteq> Some zero_uuid" using ids(3,4) by metis+
  then show ?thesis unfolding recovered_choice_def using mem max uuid by auto
qed
section \<open>Bootstrapping\<close>

text \<open>What is known before an authorization: every node was seen idle and its state or recovered position read.\<close>

definition known :: "operation \<Rightarrow> gstate by_node \<Rightarrow> event list \<Rightarrow> bool" where
  "known op found e \<longleftrightarrow> silent e \<and> (\<forall>(n, s)\<in>set found. idle_in e n \<and> reading op e n s)"

lemma known_append: "known op found e \<Longrightarrow> silent a \<Longrightarrow> known op found (e @ a)"
  unfolding known_def reading_def using readings_mono [of e "e @ a"] by auto

text \<open>A continuation whose log is safe after any log that \<open>known\<close> holds of.\<close>

definition under :: "ustr list \<Rightarrow> operation \<Rightarrow> gstate by_node \<Rightarrow> event list \<Rightarrow> bool" where
  "under nodes op found ext \<longleftrightarrow> (\<forall>e. known op found e \<longrightarrow> safe_log (ok_event nodes) (e @ ext))"

lemma known_safe: "known op found e \<Longrightarrow> safe_log (ok_event nodes) e"
  by (simp only: known_def silent_safe)

lemma under_safe: "safe_log (ok_event nodes) ext \<Longrightarrow> under nodes op found ext"
  unfolding under_def by (blast intro: authority.safe_append known_safe)

lemma under_silent: "silent ext \<Longrightarrow> under nodes op found ext"
  by (intro under_safe silent_safe)

lemma under_bind_silent:
  assumes "logs m (\<lambda>_. silent)" and "\<And>a. logs (k a) (\<lambda>_. under nodes op found)"
  shows "logs (bind_eff m k) (\<lambda>_. under nodes op found)"
proof (rule logs_bindI [OF assms])
  fix a r e1 e2
  assume "silent e1" "under nodes op found e2"
  then show "under nodes op found (e1 @ e2)" unfolding under_def using known_append by (metis append_assoc)
qed (rule under_silent)

lemma under_bind_safe:
  assumes "logs m (\<lambda>_. under nodes op found)" and "\<And>a. logs (k a) (\<lambda>_. safe_log (ok_event nodes))"
  shows "logs (bind_eff m k) (\<lambda>_. under nodes op found)"
  by (rule logs_bindI [OF assms]) (auto simp: under_def simp flip: append_assoc intro: authority.safe_append)

lemma safe_bind_known:
  assumes "op = Op_Inspect \<or> op = Op_Recover"
    and "\<And>found. map fst found = nodes \<Longrightarrow> logs (k found) (\<lambda>_. under nodes op found)"
  shows "logs (bind_eff (offline_states (watched_engine en) op nodes) k) (\<lambda>_. safe_log (ok_event nodes))"
proof -
  let ?m = "offline_states (watched_engine en) op nodes"
  let ?k = "\<lambda>found. if map fst found = nodes then k found else ret undefined"
  have k: "logs (?k found) (\<lambda>_ ext. map fst found = nodes \<longrightarrow> under nodes op found ext)" for found
    using assms(2) [of found] by (auto elim!: logs_mono intro!: logs_ret)
  have "logs (bind_eff ?m ?k) (\<lambda>_. safe_log (ok_event nodes))"
    by (rule logs_bindI [OF logs_states [OF assms(1)] k]) (simp_all add: silent_safe under_def known_def)
  moreover have "bind_eff ?m ?k = bind_eff ?m k"
  proof (rule ext)
    fix x :: "'a \<times> event list"
    show "bind_eff ?m ?k x = bind_eff ?m k x"
    proof (cases "fst (?m x)")
      case (Inr found)
      have "map fst found = nodes"
        using logs_states [OF assms(1), of en nodes] Inr unfolding logs_def by (metis prod.collapse)
      then show ?thesis using Inr by (auto simp: bind_eff_def split: prod.splits sum.splits)
    qed (auto simp: bind_eff_def split: prod.splits sum.splits)
  qed
  ultimately show ?thesis by simp
qed

lemma safe_silent: "logs m (\<lambda>_. silent) \<Longrightarrow> logs m (\<lambda>_. safe_log (ok_event nodes))"
  by (auto elim!: logs_mono intro: silent_safe)

text \<open>An authorization of the chosen node is justified by what is known.\<close>

lemma known_nodes:
  assumes "known op found e" "map fst found = nodes" "m \<in> set nodes"
  shows "idle_in e m" "reading op e m (state_of found m)"
  using assms(1) state_of_entry [OF assms(2,3)] unfolding known_def by auto

lemma under_authorized:
  assumes "\<And>e w v out v'. known kop found e \<Longrightarrow> state_main w op v = (Inr out, v') \<Longrightarrow> justified nodes e n v'"
  shows "logs (offline (watched_engine en) n op) (\<lambda>_. under nodes kop found)"
proof (rule logs_mono [OF logs_offline])
  fix r ext
  assume "silent ext \<or> (\<exists>a w v out v'. ext = a @ [Wrote n v'] \<and> silent a \<and> state_main w op v = (Inr out, v') \<and> v' \<noteq> v \<and> Read n v \<in> set a)"
  then show "under nodes kop found ext"
  proof (elim disjE exE conjE)
    fix a w v out v'
    assume w: "ext = a @ [Wrote n v']" "silent a" "state_main w op v = (Inr out, v')"
    show ?thesis unfolding under_def
    proof (intro allI impI)
      fix e assume "known kop found e"
      then have k: "known kop found (e @ a)" using w(2) by (rule known_append)
      then have "justified nodes (e @ a) n v'" using w(3) by (rule assms)
      moreover have "safe_log (ok_event nodes) (e @ a)" using k by (rule known_safe)
      ultimately have "safe_log (ok_event nodes) ((e @ a) @ [Wrote n v'])"
        by (intro authority.safe_after) (simp_all add: ok_event_def)
      then show "safe_log (ok_event nodes) (e @ ext)" using w(1) by simp
    qed
  qed (rule under_silent)
qed

lemma authorize_justified:
  assumes "known Op_Inspect found e" and f: "map fst found = nodes" "distinct nodes"
    and "select_safe_node nodes found = Inr (n, op)" and "state_main w op v = (Inr out, v')"
  shows "justified nodes e n v'"
  using select_safe_node_correct [OF assms(4) f]
proof (elim disjE conjE)
  assume "op = Op_New" and empty: "\<forall>m\<in>set nodes. \<not> gs_initialized (state_of found m)"
  then have "vo_once v' = Some ''authorize-new''" using assms(5) by (auto simp: state_main_def split: sum.splits if_splits)
  then show ?thesis unfolding justified_def using empty known_nodes [OF assms(1) f(1)] by (auto simp: reading_def intro!: exI [of _ "state_of found"])
next
  assume "op = Op_Safe" and c: "safe_choice nodes (state_of found) n"
  then have "vo_once v' = Some ''authorize-safe''" using assms(5) by (auto simp: state_main_def split: sum.splits if_splits)
  then show ?thesis unfolding justified_def using c known_nodes [OF assms(1) f(1)] by (auto simp: reading_def intro!: exI [of _ "state_of found"])
qed

lemma recover_justified:
  assumes "known Op_Recover found e" and f: "map fst found = nodes" "distinct nodes"
    and "select_recovered_node nodes found = Inr n" and "gs_uuid (state_of found n) = Some i"
    and "state_main w (Op_Recovered i (gs_seqno (state_of found n))) v = (Inr out, v')"
  shows "justified nodes e n v'"
proof -
  have c: "recovered_choice nodes (state_of found) n" by (rule select_recovered_node_correct [OF assms(4) f])
  have "full_uuid i" "\<not> gs_seqno (state_of found n) < 0" "vo_once v' = Some ''authorize-recovered''"
    "vo_grastate v' = Some (grastate_text i (gs_seqno (state_of found n)))"
    using assms(6) by (auto simp: state_main_def split: sum.splits if_splits)
  then show ?thesis unfolding justified_def using c known_nodes [OF assms(1) f(1)] grastate_roundtrip [of i "gs_seqno (state_of found n)"] assms(5)
    by (auto simp: reading_def intro!: exI [of _ "state_of found"])
qed
lemma under_silent_logs: "logs m (\<lambda>_. silent) \<Longrightarrow> logs m (\<lambda>_. under nodes op found)"
  by (auto elim!: logs_mono intro: under_silent)

lemma lift_bind_logs: "(\<And>a. x = Inr a \<Longrightarrow> logs (k a) P) \<Longrightarrow> (\<And>e. x = Inl e \<Longrightarrow> P (Inl e) []) \<Longrightarrow> logs (bind_eff (lift_res x) k) P"
  by (cases x) (auto simp: logs_def bind_eff_def lift_res_def)

lemma under_nil: "under nodes op found []"
  by (rule under_silent) simp

lemma bootstrap_safe:
  assumes d: "distinct nodes"
  shows "logs (bootstrap li (watched_engine en) nodes) (\<lambda>_. safe_log (ok_event nodes))"
  unfolding bootstrap_def
proof (rule safe_bind_known)
  fix found :: "gstate by_node"
  assume f: "map fst found = nodes"
  let ?en = "watched_engine en"
  let ?go = "\<lambda>n op. bind_eff (offline ?en n op) (\<lambda>_. bind_eff (start_service ?en n) (\<lambda>_. wait_for (li_rounds li) (li_wait li) ?en n (Some 1)))"
  have go: "logs (?go n op) (\<lambda>_. under nodes Op_Inspect found)" if s: "select_safe_node nodes found = Inr (n, op)" for n op
    by (intro under_bind_safe under_authorized authorize_justified [OF _ f d s] safe_silent silent_bind silent_start silent_wait)
  show "logs (bind_eff (lift_res (select_safe_node nodes found)) (\<lambda>(n, op). ?go n op)) (\<lambda>_. under nodes Op_Inspect found)"
  proof (rule lift_bind_logs)
    fix a assume "select_safe_node nodes found = Inr a"
    then show "logs (case a of (n, op) \<Rightarrow> ?go n op) (\<lambda>_. under nodes Op_Inspect found)" using go by (cases a) simp
  qed (rule under_nil)
qed simp

lemma up_safe:
  assumes "distinct nodes"
  shows "logs (lab_up li (watched_engine en) nodes) (\<lambda>_. safe_log (ok_event nodes))"
  unfolding lab_up_def
  by (intro authority.safe_bind logs_if bootstrap_safe [OF assms] safe_silent silent_engine silent_active silent_healthy silent_simple
      silent_health silent_join silent_wait_all silent_healthy_node)

lemma recover_safe:
  assumes d: "distinct nodes"
  shows "logs (lab_recover li (watched_engine en) nodes confirmed) (\<lambda>_. safe_log (ok_event nodes))"
  unfolding lab_recover_def
proof (rule authority.safe_bind [OF safe_silent [OF silent_stopped]], rule authority.safe_bind [OF safe_silent [OF silent_engine(6)]],
    rule safe_bind_known)
  fix found :: "gstate by_node"
  assume f: "map fst found = nodes"
  let ?en = "watched_engine en"
  let ?U = "\<lambda>_. under nodes Op_Recover found"
  let ?go = "\<lambda>n i s. bind_eff (offline ?en n (Op_Recovered i (gs_seqno s))) (\<lambda>_. bind_eff (start_service ?en n) (\<lambda>_.
             bind_eff (wait_for (li_rounds li) (li_wait li) ?en n (Some 1)) (\<lambda>_. bind_eff (lab_up li ?en nodes) (\<lambda>_. ret n))))"
  let ?auth = "\<lambda>n. case map_of found n of None \<Rightarrow> raise_exn Key_Error
       | Some s \<Rightarrow> (case gs_uuid s of None \<Rightarrow> raise_exn Type_Error | Some i \<Rightarrow> ?go n i s)"
  have go: "logs (?go n i s) ?U" if s: "select_recovered_node nodes found = Inr n" and i: "map_of found n = Some s" "gs_uuid s = Some i" for n s i
  proof (intro under_bind_safe under_authorized authority.safe_bind up_safe [OF d] safe_silent silent_start silent_wait silent_simple)
    fix e w v out v'
    assume "known Op_Recover found e" "state_main w (Op_Recovered i (gs_seqno s)) v = (Inr out, v')"
    then show "justified nodes e n v'"
      using recover_justified [OF _ f d s, of e i w v out v'] i by (simp add: state_of_def)
  qed
  have auth: "logs (?auth n) ?U" if s: "select_recovered_node nodes found = Inr n" for n
    using go [OF s] by (cases "map_of found n"; cases "gs_uuid (the (map_of found n))")
      (auto simp only: option.case option.sel intro!: under_silent_logs silent_simple)
  show "logs (bind_eff (lift_res (select_recovered_node nodes found)) (\<lambda>n. bind_eff (en_step ?en ''report'') (\<lambda>_.
     if \<not> confirmed then ret n else bind_eff (require_all_stopped ?en nodes) (\<lambda>_. ?auth n)))) ?U"
  proof (rule lift_bind_logs)
    fix n assume "select_recovered_node nodes found = Inr n"
    then show "logs (bind_eff (en_step ?en ''report'') (\<lambda>_. if \<not> confirmed then ret n
       else bind_eff (require_all_stopped ?en nodes) (\<lambda>_. ?auth n))) ?U"
      by (intro under_bind_silent silent_engine silent_stopped logs_if auth) (auto intro: under_silent_logs silent_simple simp del: ret_simps)
  qed (rule under_nil)
qed simp

lemma logs_safe_prefix:
  assumes "logs m (\<lambda>_. safe_log (ok_event nodes))" and "snd (snd (m (s, []))) = pre @ Wrote n v # post"
  shows "justified nodes pre n v"
proof -
  have "safe_log (ok_event nodes) (pre @ Wrote n v # post)" using assms unfolding logs_def by (metis append_Nil)
  then have "ok_event nodes pre (Wrote n v)" by (rule safe_logD)
  then show ?thesis by (simp add: ok_event_def)
qed

text \<open>C30: A node is only authorized to bootstrap the cluster by \<open>up\<close> or \<open>recover\<close> after every node was seen not
  running or paused and the volume of every node was read: as new when no node has a database, as safe when its state file
  says so and no node with a database is incomplete, has an unknown or larger position or another recorded cluster, and as
  recovered when all nodes have a database of its cluster at a position no larger than the one written to its state file.\<close>

theorem bootstrap_authorized:
  assumes "distinct nodes"
    and "snd (snd (lab_up li (watched_engine en) nodes (s, []))) = pre @ Wrote n v # post
       \<or> snd (snd (lab_recover li (watched_engine en) nodes confirmed (s, []))) = pre @ Wrote n v # post"
  shows "justified nodes pre n v"
  using assms(2) logs_safe_prefix [OF up_safe [OF assms(1)]] logs_safe_prefix [OF recover_safe [OF assms(1)]] by metis
definition demo_uuid :: ustr where
  "demo_uuid = map (\<lambda>k. if k \<in> {8, 13, 18, 23} then 45 else 97) [0..<36]"

definition demo_volume :: "ustr \<Rightarrow> volume" where
  "demo_volume n = (if n = [9] then \<lparr>vo_grastate = Some (grastate_text demo_uuid 5), vo_mysql = True, vo_init = True, vo_once = None\<rparr>
     else \<lparr>vo_grastate = None, vo_mysql = False, vo_init = False, vo_once = None\<rparr>)"

definition demo_engine :: "unit engine" where
  "demo_engine = \<lparr>en_inspect = \<lambda>n. ret (Inspected []), en_health = \<lambda>n. ret Probe_Failed, en_read = \<lambda>n. ret (demo_volume n),
     en_write = \<lambda>n v. ret (), en_wsrep = \<lambda>n. ret ([], 1), en_up = \<lambda>n. ret (), en_unpause = \<lambda>n. ret (), en_stop = \<lambda>n t. ret (),
     en_clock = ret 0, en_step = \<lambda>x. ret ()\<rparr>"

definition demo_prefix :: "event list" where
  "demo_prefix = concat (map (\<lambda>n. [Looked n (Inspected []), Read n (demo_volume n)]) [[7], [9], [9]])"

lemma demo_full: "full_uuid demo_uuid" "demo_uuid \<noteq> zero_uuid" "demo_uuid \<noteq> []"
proof -
  show "full_uuid demo_uuid" by (auto simp: full_uuid_def demo_uuid_def list_all_iff uuid_char_def)
  have "hd demo_uuid = 97" by (simp add: demo_uuid_def upt_conv_Cons)
  moreover have "hd zero_uuid = 48" by (simp add: zero_uuid_def u_def)
  ultimately show "demo_uuid \<noteq> zero_uuid" by auto
  show "demo_uuid \<noteq> []" by (simp add: demo_uuid_def)
qed

lemma demo_inspect: "inspect (demo_volume n) = Inr (if n = [9]
   then \<lparr>gs_uuid = Some demo_uuid, gs_seqno = 5, gs_safe = 1, gs_initialized = True, gs_complete = True\<rparr>
   else \<lparr>gs_uuid = None, gs_seqno = - 1, gs_safe = 0, gs_initialized = False, gs_complete = False\<rparr>)"
  using grastate_roundtrip [OF demo_full(1), of 5]
  by (simp add: inspect_def demo_volume_def) (simp add: parse_state_def int_field_def last_field_def)

lemma demo_step:
  "container_state (watched_engine demo_engine) n ((), lg) = (Inr Stopped, (), lg @ [Looked n (Inspected [])])"
  "en_read (watched_engine demo_engine) n ((), lg) = (Inr (demo_volume n), (), lg @ [Read n (demo_volume n)])"
  "en_write (watched_engine demo_engine) n v ((), lg) = (Inr (), (), lg @ [Wrote n v])"
  "en_step (watched_engine demo_engine) x ((), lg) = (Inr (), (), lg)"
  "en_up (watched_engine demo_engine) n ((), lg) = (Inr (), (), lg)"
  "en_clock (watched_engine demo_engine) ((), lg) = (Inr 0, (), lg)"
  by (simp_all add: container_state_def bind_eff_def watched_engine_def demo_engine_def recording_def)

definition demo_nodes :: "ustr list" where
  "demo_nodes = [[7], [9]]"

lemma demo_offline:
  "op \<noteq> Op_Recover \<Longrightarrow> offline (watched_engine demo_engine) n op ((), lg) = (case state_main ([], 0) op (demo_volume n) of
     (Inl e, _) \<Rightarrow> (Inl (Runtime_Error ''Command failed''), (), lg @ [Looked n (Inspected []), Read n (demo_volume n)])
   | (Inr out, v') \<Rightarrow> (Inr out, (), lg @ [Looked n (Inspected []), Read n (demo_volume n)] @ (if v' = demo_volume n then [] else [Wrote n v'])))"
  by (simp add: offline_def bind_eff_def demo_step active_def split: sum.splits prod.splits)

lemma demo_active: "active_nodes (watched_engine demo_engine) demo_nodes ((), lg) = (Inr [], (), lg @ [Looked [7] (Inspected []), Looked [9] (Inspected [])])"
  by (simp add: demo_nodes_def bind_eff_def demo_step active_def)

definition demo_state :: "ustr \<Rightarrow> gstate" where
  "demo_state n = (if n = [9]
   then \<lparr>gs_uuid = Some demo_uuid, gs_seqno = 5, gs_safe = 1, gs_initialized = True, gs_complete = True\<rparr>
   else \<lparr>gs_uuid = None, gs_seqno = - 1, gs_safe = 0, gs_initialized = False, gs_complete = False\<rparr>)"

lemma demo_main: "state_main w Op_Inspect (demo_volume n) = (Inr (Out_State (demo_state n)), demo_volume n)"
  "state_main w Op_Safe (demo_volume [9]) = (Inr Out_Authorized, (demo_volume [9])\<lparr>vo_once := Some ''authorize-safe''\<rparr>)"
  by (simp_all add: state_main_def demo_inspect demo_state_def)

lemma demo_changed: "(demo_volume [9])\<lparr>vo_once := Some ''authorize-safe''\<rparr> \<noteq> demo_volume [9]"
  by (simp add: demo_volume_def)

lemma demo_choice: "select_safe_node demo_nodes [([7], demo_state [7]), ([9], demo_state [9])] = Inr ([9], Op_Safe)"
  using demo_full by (auto simp: select_safe_node_def demo_state_def demo_nodes_def)

lemma demo_states: "offline_states (watched_engine demo_engine) Op_Inspect demo_nodes ((), lg) =
   (Inr [([7], demo_state [7]), ([9], demo_state [9])], (), lg @ concat (map (\<lambda>n. [Looked n (Inspected []), Read n (demo_volume n)]) [[7], [9]]))"
  by (simp add: demo_nodes_def bind_eff_def demo_offline demo_main)

lemma demo_run: "snd (snd (lab_up \<lparr>li_rounds = 0, li_wait = 60\<rparr> (watched_engine demo_engine) demo_nodes ((), []))) =
   ([Looked [7] (Inspected []), Looked [9] (Inspected [])] @ demo_prefix) @ 
   Wrote [9] ((demo_volume [9])\<lparr>vo_once := Some ''authorize-safe''\<rparr>) # [Looked [9] (Inspected [])]"
  by (simp add: lab_up_def bind_eff_def demo_step bootstrap_def demo_states lift_res_def demo_choice demo_offline demo_main demo_changed
    start_service_def wait_for_def demo_prefix_def demo_active)

theorem bootstrap_authorized_witness:
  "justified demo_nodes ([Looked [7] (Inspected []), Looked [9] (Inspected [])] @ demo_prefix)
     [9] ((demo_volume [9])\<lparr>vo_once := Some ''authorize-safe''\<rparr>)"
  by (rule bootstrap_authorized [where confirmed = False, OF _ disjI1 [OF demo_run]]) (simp add: demo_nodes_def)

end
