(* ===== verification/Sim_Engine.thy ===== *)
theory Sim_Engine
  imports Message_Safety Sim_Audit Event_Log "HOL-Library.AList"
begin

text \<open>
  The faults of a simulation: \<open>mvp-lab/tools/sim_engine.py\<close>, which applies one labelled fault to the lab's own
  containers and restores it from a marker file, with \<open>tools/netem.py\<close>, the network helper. Docker, Compose and the
  files of \<open>.state\<close> are a record of operations on its state, which other programs may change between two calls; a
  reply of Docker is its parsed JSON, with \<open>Id\<close> and \<open>Name\<close> strings as Docker documents.
\<close>

section \<open>The lab\<close>

record container =
  co_id :: ustr
  co_service :: string
  co_image :: pv
  co_reference :: pv
  co_running :: bool
  co_paused :: bool
  co_health :: pv
  co_oom :: bool
  co_restarts :: pv
  co_ports :: pv
  co_volumes :: pdict

text \<open>The marker \<open>simulation-active.json\<close>; a field that is not set is \<open>None\<close>.\<close>

record marker =
  mk_run :: ustr
  mk_project :: ustr
  mk_engine :: pdict
  mk_action :: string
  mk_service :: string
  mk_original :: container
  mk_status :: string
  mk_order :: "ustr option"
  mk_hold :: "int option"
  mk_spare_before :: "container option"
  mk_spare_started :: "container option"
  mk_replacement :: "container option"
  mk_fault_state :: "container option"
  mk_helper_name :: "ustr option"
  mk_helper_image :: "ustr option"
  mk_helper_id :: "ustr option"
  mk_event :: "pdict option"

datatype container_op = Stop_Op nat | Pause_Op | Unpause_Op | Start_Op | Remove_Op

datatype compose_up = Up_Redis | Up_Spare | Up_Apps

text \<open>\<open>dk_ps\<close> is \<open>compose ps -a -q\<close>, \<open>dk_named\<close> is \<open>docker ps\<close> of one name; logs are the JSON value of each line, \<open>None\<close> when
  it is not JSON. \<open>dk_lock\<close> starts the row-lock helper and returns its first event within 12 seconds; \<open>dk_release\<close> runs
  it with no hold time: whether it returned 0 and printed \<open>row_lock_released\<close>.\<close>

record 's docker_lab =
  dk_target :: "(unit, 's) eff"
  dk_engine :: "(pdict, 's) eff"
  dk_identity :: "(unit, 's) eff"
  dk_exists :: "string \<Rightarrow> (bool, 's) eff"
  dk_mode :: "(ustr, 's) eff"
  dk_set_mode :: "string \<Rightarrow> (unit, 's) eff"
  dk_load :: "(marker, 's) eff"
  dk_save :: "marker \<Rightarrow> (unit, 's) eff"
  dk_unlink :: "(unit, 's) eff"
  dk_ps :: "string \<Rightarrow> (ustr list, 's) eff"
  dk_inspect :: "ustr \<Rightarrow> (pv list, 's) eff"
  dk_do :: "container_op \<Rightarrow> ustr \<Rightarrow> (unit, 's) eff"
  dk_up :: "compose_up \<Rightarrow> (unit, 's) eff"
  dk_lock :: "ustr \<Rightarrow> ustr \<Rightarrow> int \<Rightarrow> (pdict option, 's) eff"
  dk_join :: "(unit, 's) eff"
  dk_release :: "ustr \<Rightarrow> ustr \<Rightarrow> (bool, 's) eff"
  dk_image :: "ustr \<Rightarrow> (pv list, 's) eff"
  dk_named :: "ustr \<Rightarrow> (ustr list, 's) eff"
  dk_create :: "marker \<Rightarrow> int \<Rightarrow> (ustr, 's) eff"
  dk_logs :: "ustr \<Rightarrow> (pv option list, 's) eff"
  dk_cleanup :: "marker \<Rightarrow> (pv option list, 's) eff"
  dk_clock :: "(rat, 's) eff"

record lab_config =
  lc_command :: "ustr list"
  lc_project :: ustr
  lc_port :: ustr

definition base_services :: "string list" where
  "base_services = [''mariadb'', ''kafka'', ''elasticsearch'', ''redis'', ''api'', ''worker'']"

definition allowed_faults :: "(string \<times> string list) list" where
  "allowed_faults = [(''stop'', [''redis'', ''kafka'', ''elasticsearch'']), (''pause'', [''mariadb'', ''worker'']), (''recreate'', [''redis'']),
     (''switch'', [''redis'']), (''row-lock'', [''api'']), (''netem-delay'', [''mariadb'']), (''netem-loss'', [''mariadb''])]"

definition fault_allowed :: "string \<Rightarrow> string \<Rightarrow> bool" where
  "fault_allowed action service \<longleftrightarrow> (case map_of allowed_faults action of None \<Rightarrow> False | Some ss \<Rightarrow> service \<in> set ss)"

definition sim_run_text :: "ustr \<Rightarrow> bool" where
  "sim_run_text s \<longleftrightarrow> starts_with (u ''sim-'') s \<and> class_match is_hex_lower 12 12 (drop 4 s)"

text \<open>The pinned local engine; every Docker command checks it first.\<close>

definition lab_binding :: "lab_config \<Rightarrow> 's docker_lab \<Rightarrow> (pdict, 's) eff" where
  "lab_binding c d = bind_eff (dk_target d) (\<lambda>_. bind_eff (dk_engine d) (\<lambda>v.
     if \<not> truthy (dget v ''local_docker'') \<or> lc_command c \<noteq> [u ''docker'']
     then raise_exn (Runtime_Error ''Automated simulation currently requires a pinned local Docker engine (unix/npipe)'')
     else ret v))"

definition bound :: "lab_config \<Rightarrow> 's docker_lab \<Rightarrow> ('a, 's) eff \<Rightarrow> ('a, 's) eff" where
  "bound c d m = bind_eff (lab_binding c d) (\<lambda>_. m)"

section \<open>Inspection\<close>

text \<open>\<open>row[a].get(b, {})\<close> and \<open>.get(k)\<close> of it.\<close>

definition nested :: "pv \<Rightarrow> string \<Rightarrow> string \<Rightarrow> string \<Rightarrow> pv res" where
  "nested row a b k = bind_res (subscript row a) (\<lambda>x. bind_res (py_get_dict x b) (\<lambda>y. py_get y k))"

definition owned_by :: "lab_config \<Rightarrow> string \<Rightarrow> pv \<Rightarrow> bool res" where
  "owned_by c service row = bind_res (nested row ''Config'' ''Labels'' ''com.docker.compose.project'') (\<lambda>p.
     if p \<noteq> PStr (lc_project c) then Inr False
     else bind_res (nested row ''Config'' ''Labels'' ''com.docker.compose.service'') (\<lambda>s. Inr (s = PStr (u service))))"

fun volume_items :: "pv list \<Rightarrow> pdict \<Rightarrow> pdict res" where
  "volume_items [] acc = Inr acc"
| "volume_items (m # ms) acc = bind_res (subscript m ''Type'') (\<lambda>t.
     if t \<noteq> PStr (u ''volume'') then volume_items ms acc
     else bind_res (bind_res (subscript m ''Destination'') as_text) (\<lambda>k. bind_res (get_or (PStr []) m ''Name'') (\<lambda>n.
       volume_items ms (AList.update k n acc))))"

definition mounts_of :: "pv \<Rightarrow> pv list res" where
  "mounts_of row = (case row of PDict d \<Rightarrow> (case map_of d (u ''Mounts'') of None \<Rightarrow> Inr []
       | Some (PList ms) \<Rightarrow> Inr ms | Some _ \<Rightarrow> Inl Type_Error) | _ \<Rightarrow> Inl Type_Error)"

definition container_of :: "string \<Rightarrow> pv \<Rightarrow> container res" where
  "container_of service row =
     bind_res (bind_res (subscript row ''Id'') as_text) (\<lambda>i.
     bind_res (subscript row ''Image'') (\<lambda>image.
     bind_res (bind_res (subscript row ''Config'') (\<lambda>x. subscript x ''Image'')) (\<lambda>ref.
     bind_res (subscript row ''State'') (\<lambda>st.
     bind_res (subscript st ''Running'') (\<lambda>running.
     bind_res (py_get st ''Paused'') (\<lambda>paused.
     bind_res (bind_res (py_get_dict st ''Health'') (\<lambda>h. py_get h ''Status'')) (\<lambda>health.
     bind_res (py_get st ''OOMKilled'') (\<lambda>oom.
     bind_res (get_or (PInt 0) row ''RestartCount'') (\<lambda>restarts.
     bind_res (bind_res (py_get_dict row ''NetworkSettings'') (\<lambda>n. py_get_dict n ''Ports'')) (\<lambda>ports.
     bind_res (bind_res (mounts_of row) (\<lambda>ms. volume_items ms [])) (\<lambda>vs.
     Inr \<lparr>co_id = i, co_service = service, co_image = image, co_reference = ref, co_running = truthy running,
       co_paused = truthy paused, co_health = health, co_oom = truthy oom,
       co_restarts = restarts, co_ports = ports, co_volumes = vs\<rparr>)))))))))))"

definition lab_inspect :: "lab_config \<Rightarrow> 's docker_lab \<Rightarrow> ustr \<Rightarrow> string \<Rightarrow> (container, 's) eff" where
  "lab_inspect c d i service = (if \<not> class_match is_hex_lower 12 64 i
     then raise_exn (Runtime_Error ''Invalid container identifier in simulation state'')
     else bind_eff (bound c d (dk_inspect d i)) (\<lambda>rows. case rows of
         [row] \<Rightarrow> bind_eff (lift_res (owned_by c service row)) (\<lambda>mine.
           if \<not> mine then raise_exn (Runtime_Error ''Container ownership labels do not match; refusing fault/recovery'')
           else lift_res (container_of service row))
       | _ \<Rightarrow> raise_exn (Runtime_Error ''Expected exactly one labelled container'')))"

definition find_service :: "lab_config \<Rightarrow> 's docker_lab \<Rightarrow> string \<Rightarrow> (container option, 's) eff" where
  "find_service c d name = bind_eff (bound c d (dk_ps d name)) (\<lambda>ids. case ids of
       [] \<Rightarrow> ret None
     | [i] \<Rightarrow> bind_eff (lab_inspect c d i name) (\<lambda>x. ret (Some x))
     | _ \<Rightarrow> raise_exn (Runtime_Error (''Simulation requires exactly one container per service: '' @ name)))"

definition lab_service :: "lab_config \<Rightarrow> 's docker_lab \<Rightarrow> string \<Rightarrow> (container, 's) eff" where
  "lab_service c d name = bind_eff (find_service c d name) (\<lambda>x. case x of
       None \<Rightarrow> raise_exn (Runtime_Error (''Simulation requires exactly one container per service: '' @ name))
     | Some y \<Rightarrow> ret y)"

section \<open>Preflight\<close>

definition port_binding :: "lab_config \<Rightarrow> pv \<Rightarrow> bool" where
  "port_binding c b = py_eq b (PDict [(u ''HostIp'', PStr (u ''127.0.0.1'')), (u ''HostPort'', PStr (lc_port c))])"

definition bindings_of :: "pv \<Rightarrow> pv list res" where
  "bindings_of v = (if \<not> truthy v then Inr [] else case v of PList bs \<Rightarrow> Inr bs | _ \<Rightarrow> Inl Type_Error)"

fun all_bindings :: "pdict \<Rightarrow> (ustr \<times> pv) list res" where
  "all_bindings [] = Inr []"
| "all_bindings ((port, v) # ps) = bind_res (bindings_of v) (\<lambda>bs. bind_res (all_bindings ps) (\<lambda>rest. Inr (map (Pair port) bs @ rest)))"

definition loopback_only :: "lab_config \<Rightarrow> container \<Rightarrow> bool res" where
  "loopback_only c api = (case co_ports api of
       PDict ps \<Rightarrow> bind_res (bindings_of (dget ps ''8080/tcp'')) (\<lambda>published. bind_res (all_bindings ps) (\<lambda>every.
         Inr ((case published of [b] \<Rightarrow> port_binding c b | _ \<Rightarrow> False)
           \<and> (case every of [(p, b)] \<Rightarrow> p = u ''8080/tcp'' \<and> port_binding c b | _ \<Rightarrow> False))))
     | _ \<Rightarrow> Inl (Other_Error ''AttributeError''))"

fun lab_services :: "lab_config \<Rightarrow> 's docker_lab \<Rightarrow> string list \<Rightarrow> (container list, 's) eff" where
  "lab_services c d [] = ret []"
| "lab_services c d (n # ns) = bind_eff (lab_service c d n) (\<lambda>x. bind_eff (lab_services c d ns) (\<lambda>xs. ret (x # xs)))"

definition not_ready :: "container \<Rightarrow> bool" where
  "not_ready x \<longleftrightarrow> \<not> co_running x \<or> co_paused x \<or> \<not> (co_health x = PNone \<or> co_health x = PStr (u ''healthy''))"

definition preflight :: "lab_config \<Rightarrow> 's docker_lab \<Rightarrow> (container list, 's) eff" where
  "preflight c d =
     bind_eff (dk_exists d ''message-active.json'') (\<lambda>m. if m then raise_exn (Runtime_Error ''Unfinished message drill'') else
     bind_eff (lab_binding c d) (\<lambda>_. bind_eff (dk_identity d) (\<lambda>_.
     bind_eff (dk_exists d ''drill-active.json'') (\<lambda>m. if m then raise_exn (Runtime_Error ''Unfinished disposable drill exists'') else
     bind_eff (dk_exists d ''simulation-active.json'') (\<lambda>m. if m then raise_exn (Runtime_Error ''Unfinished simulation fault exists'') else
     bind_eff (dk_mode d) (\<lambda>mode. if mode \<noteq> u ''normal'' then raise_exn (Runtime_Error ''Restore experiment normal'') else
     bind_eff (lab_services c d base_services) (\<lambda>xs. case find (\<lambda>x. co_service x = ''api'') xs of
         None \<Rightarrow> raise_exn (Other_Error ''StopIteration'')
       | Some api \<Rightarrow> bind_eff (lift_res (loopback_only c api)) (\<lambda>ok.
           if \<not> ok then raise_exn (Runtime_Error ''API must publish exactly the configured loopback port and no additional binding'')
           else if list_ex not_ready xs then raise_exn (Runtime_Error ''All six MVP containers must already be running and ready'')
           else ret xs))))))))"

section \<open>The network helper\<close>

definition first_row :: "pv list \<Rightarrow> pv res" where
  "first_row rows = (case rows of [] \<Rightarrow> Inl (Other_Error ''IndexError'') | r # _ \<Rightarrow> Inr r)"

definition helper_image :: "lab_config \<Rightarrow> 's docker_lab \<Rightarrow> (ustr, 's) eff" where
  "helper_image c d = (\<lambda>s. case bind_eff (bound c d (dk_image d (lc_project c @ u ''-drills:local''))) (\<lambda>rows.
       lift_res (bind_res (first_row rows) (\<lambda>r. bind_res (subscript r ''Id'') as_text))) s of
     (Inl _, s') \<Rightarrow> (Inl (Runtime_Error ''Build the optional helper first: mvp drills prepare --yes''), s')
   | (Inr i, s') \<Rightarrow> if starts_with (u ''sha256:'') i \<and> class_match is_hex_lower 64 64 (drop 7 i) then (Inr i, s')
       else (Inl (Runtime_Error ''No immutable helper image ID''), s'))"

definition check_target :: "lab_config \<Rightarrow> 's docker_lab \<Rightarrow> container \<Rightarrow> (unit, 's) eff" where
  "check_target c d x = bind_eff (bound c d (dk_inspect d (co_id x))) (\<lambda>rows. lift_res (
     bind_res (first_row rows) (\<lambda>row.
     bind_res (bind_res (subscript row ''HostConfig'') (\<lambda>h. get_or (PStr []) h ''NetworkMode'')) (\<lambda>mode.
     if mode = PStr (u ''host'') \<or> mode = PStr (u ''none'') \<or> (case mode of PStr t \<Rightarrow> starts_with (u ''container:'') t | _ \<Rightarrow> False)
     then Inl (Runtime_Error ''Netem requires a private bridge network namespace'')
     else bind_res (bind_res (py_get_dict row ''NetworkSettings'') (\<lambda>n. py_get_dict n ''Networks'')) (\<lambda>nets. case nets of
         PDict ns \<Rightarrow> if length ns \<noteq> 1 then Inl (Runtime_Error ''Netem only supports this MVP single-network topology'') else Inr ()
       | _ \<Rightarrow> Inl Type_Error)))))"

definition helper_row_ok :: "marker \<Rightarrow> pv \<Rightarrow> bool res" where
  "helper_row_ok m row =
     bind_res (nested row ''Config'' ''Labels'' ''io.db-lab.run'') (\<lambda>run.
     bind_res (nested row ''Config'' ''Labels'' ''io.db-lab.project'') (\<lambda>project.
     bind_res (nested row ''Config'' ''Labels'' ''io.db-lab.kind'') (\<lambda>kind.
     bind_res (bind_res (subscript row ''HostConfig'') (\<lambda>h. py_get h ''NetworkMode'')) (\<lambda>mode.
     bind_res (subscript row ''Image'') (\<lambda>image. bind_res (py_get row ''Mounts'') (\<lambda>mounts.
     bind_res (subscript row ''Id'') (\<lambda>i.
     case mk_helper_image m of None \<Rightarrow> Inl Key_Error | Some helper_id \<Rightarrow>
     Inr (run = PStr (mk_run m) \<and> project = PStr (mk_project m) \<and> kind = PStr (u ''netem'')
       \<and> mode = PStr (u ''container:'' @ co_id (mk_original m)) \<and> image = PStr helper_id
       \<and> \<not> truthy mounts \<and> (case mk_helper_id m of None \<Rightarrow> True | Some h \<Rightarrow> h = [] \<or> i = PStr h)))))))))"

definition helper :: "lab_config \<Rightarrow> 's docker_lab \<Rightarrow> marker \<Rightarrow> (pv option, 's) eff" where
  "helper c d m = (if mk_helper_name m \<noteq> Some (lc_project c @ u ''-netem-'' @ mk_run m)
     then raise_exn (Runtime_Error ''Invalid helper identity'')
     else bind_eff (bound c d (dk_named d (the (mk_helper_name m)))) (\<lambda>ids. case ids of
         [] \<Rightarrow> ret None
       | [i] \<Rightarrow> bind_eff (bound c d (dk_inspect d i)) (\<lambda>rows. bind_eff (lift_res (first_row rows)) (\<lambda>row.
           bind_eff (lift_res (helper_row_ok m row)) (\<lambda>ok.
             if ok then ret (Some row)
             else raise_exn (Runtime_Error ''Helper ownership/storage/namespace changed; recovery refused''))))
       | _ \<Rightarrow> raise_exn (Runtime_Error ''Ambiguous helper identity'')))"

definition dict_events :: "pv option list \<Rightarrow> pdict list" where
  "dict_events vs = concat (map (\<lambda>v. case v of Some (PDict e) \<Rightarrow> [e] | _ \<Rightarrow> []) vs)"

definition helper_logs :: "lab_config \<Rightarrow> 's docker_lab \<Rightarrow> marker \<Rightarrow> (pdict list, 's) eff" where
  "helper_logs c d m = bind_eff (helper c d m) (\<lambda>r. case r of None \<Rightarrow> ret []
     | Some row \<Rightarrow> bind_eff (lift_res (bind_res (subscript row ''Id'') as_text)) (\<lambda>i.
         bind_eff (bound c d (dk_logs d i)) (\<lambda>vs. ret (dict_events vs))))"

definition in_stage :: "string \<Rightarrow> pdict \<Rightarrow> bool" where
  "in_stage k e \<longleftrightarrow> dget e ''stage'' = PStr (u k)"

text \<open>Rounds of reading the helper's log until it reports or the deadline passes.\<close>

fun netem_wait :: "nat \<Rightarrow> lab_config \<Rightarrow> 's docker_lab \<Rightarrow> marker \<Rightarrow> rat \<Rightarrow> (pdict, 's) eff" where
  "netem_wait 0 c d m deadline = raise_exn (Other_Error ''waiting'')"
| "netem_wait (Suc k) c d m deadline = bind_eff (dk_clock d) (\<lambda>t.
     if deadline \<le> t then raise_exn (Runtime_Error ''Netem application was not observed; inspect recover marker'')
     else bind_eff (helper_logs c d m) (\<lambda>es. case find (in_stage ''netem_applied'') es of
         Some e \<Rightarrow> ret e
       | None \<Rightarrow> if list_ex (in_stage ''netem_failed'') es
           then raise_exn (Runtime_Error ''Netem helper failed; no automatic host changes'')
           else netem_wait k c d m deadline))"

definition netem_start :: "nat \<Rightarrow> lab_config \<Rightarrow> 's docker_lab \<Rightarrow> marker \<Rightarrow> int \<Rightarrow> (marker \<times> pdict, 's) eff" where
  "netem_start k c d m seconds =
     bind_eff (check_target c d (mk_original m)) (\<lambda>_.
     bind_eff (helper_image c d) (\<lambda>image. let m1 = m\<lparr>mk_helper_name := Some (mk_project m @ u ''-netem-'' @ mk_run m), mk_helper_image := Some image\<rparr> in
     bind_eff (dk_save d m1) (\<lambda>_.
     bind_eff (bound c d (dk_create d m1 seconds)) (\<lambda>i. let m2 = m1\<lparr>mk_helper_id := Some i\<rparr> in
     bind_eff (dk_save d m2) (\<lambda>_.
     bind_eff (helper c d m2) (\<lambda>_.
     bind_eff (bound c d (dk_do d Start_Op i)) (\<lambda>_.
     bind_eff (dk_clock d) (\<lambda>t.
     bind_eff (netem_wait k c d m2 (t + 10)) (\<lambda>e. ret (m2, e))))))))))"

section \<open>Applying a fault\<close>

definition same_storage_image :: "container \<Rightarrow> container \<Rightarrow> unit res" where
  "same_storage_image x y = (if \<not> py_eq (co_image x) (co_image y) \<or> \<not> py_eq (PDict (co_volumes x)) (PDict (co_volumes y))
     then Inl (Runtime_Error ''Replacement image or volume identity differs; do not assume a safe rollback'') else Inr ())"

text \<open>What the arguments must be: an allow-listed fault of bounded length, the run, and for a row lock a canonical UUID.\<close>

definition fault_arguments :: "string \<Rightarrow> string \<Rightarrow> ustr \<Rightarrow> int \<Rightarrow> ustr option \<Rightarrow> unit res" where
  "fault_arguments action service run seconds order =
     (if \<not> fault_allowed action service \<or> \<not> (1 \<le> seconds \<and> seconds \<le> 30) then Inl (Value_Error ''Unsupported or unbounded fault'')
      else if \<not> sim_run_text run then Inl (Value_Error ''Invalid simulation run identifier'')
      else if action = ''row-lock'' \<and> (case order of None \<Rightarrow> True | Some i \<Rightarrow> \<not> uuid_canonical i)
      then Inl (Value_Error ''A canonical synthetic order UUID is required'') else Inr ())"

definition new_marker :: "lab_config \<Rightarrow> pdict \<Rightarrow> string \<Rightarrow> string \<Rightarrow> ustr \<Rightarrow> container \<Rightarrow> marker" where
  "new_marker c engine action service run x = \<lparr>mk_run = run, mk_project = lc_project c, mk_engine = engine, mk_action = action,
     mk_service = service, mk_original = x, mk_status = ''requested'', mk_order = None, mk_hold = None, mk_spare_before = None,
     mk_spare_started = None, mk_replacement = None, mk_fault_state = None, mk_helper_name = None, mk_helper_image = None,
     mk_helper_id = None, mk_event = None\<rparr>"

definition apps :: "lab_config \<Rightarrow> 's docker_lab \<Rightarrow> (unit, 's) eff" where
  "apps c d = bound c d (dk_up d Up_Apps)"

definition perform :: "nat \<Rightarrow> lab_config \<Rightarrow> 's docker_lab \<Rightarrow> marker \<Rightarrow> int \<Rightarrow> (marker, 's) eff" where
  "perform k c d m seconds = (let action = mk_action m; x = mk_original m in
     if action = ''netem-delay'' \<or> action = ''netem-loss''
     then bind_eff (netem_start k c d m seconds) (\<lambda>(m', e). ret (m'\<lparr>mk_event := Some e\<rparr>))
     else if action = ''stop'' \<or> action = ''pause''
     then bind_eff (bound c d (dk_do d (if action = ''stop'' then Stop_Op 4 else Pause_Op) (co_id x))) (\<lambda>_.
          bind_eff (lab_inspect c d (co_id x) (mk_service m)) (\<lambda>y.
          if action = ''pause'' \<and> \<not> co_paused y \<or> action = ''stop'' \<and> co_running y
          then raise_exn (Runtime_Error ''Requested fault was not observed in container state'')
          else ret (m\<lparr>mk_fault_state := Some y\<rparr>)))
     else if action = ''recreate''
     then bind_eff (dk_up d Up_Redis) (\<lambda>_. bind_eff (lab_service c d ''redis'') (\<lambda>y.
          let m' = m\<lparr>mk_replacement := Some y\<rparr> in
          bind_eff (dk_save d m') (\<lambda>_. bind_eff (lift_res (same_storage_image x y)) (\<lambda>_. ret m'))))
     else if action = ''switch''
     then bind_eff (dk_up d Up_Spare) (\<lambda>_. bind_eff (lab_service c d ''redis-spare'') (\<lambda>y.
          let m' = m\<lparr>mk_spare_started := Some y\<rparr> in
          bind_eff (dk_save d m') (\<lambda>_. bind_eff (dk_set_mode d ''redis-spare'') (\<lambda>_. bind_eff (apps c d) (\<lambda>_. ret m')))))
     else (case mk_order m of None \<Rightarrow> raise_exn Key_Error | Some i \<Rightarrow> bind_eff (dk_lock d i (mk_run m) seconds) (\<lambda>e. case e of
         None \<Rightarrow> raise_exn (Runtime_Error ''Lock acquisition was not observed; helper has a bounded hold timer'')
       | Some e \<Rightarrow> if \<not> in_stage ''row_lock_acquired'' e
           then raise_exn (Runtime_Error ''Synthetic row lock was rejected or could not be acquired'')
           else ret (m\<lparr>mk_event := Some e\<rparr>))))"

definition apply_fault ::
  "nat \<Rightarrow> lab_config \<Rightarrow> 's docker_lab \<Rightarrow> string \<Rightarrow> string \<Rightarrow> ustr \<Rightarrow> int \<Rightarrow> ustr option \<Rightarrow> (marker, 's) eff" where
  "apply_fault k c d action service run seconds order =
     bind_eff (lift_res (fault_arguments action service run seconds order)) (\<lambda>_.
     bind_eff (dk_exists d ''simulation-active.json'') (\<lambda>taken. if taken then raise_exn (Runtime_Error ''Another simulation fault is active'') else
     bind_eff (lab_service c d service) (\<lambda>x.
     if \<not> co_running x \<or> co_paused x then raise_exn (Runtime_Error ''Fault target was not running normally'')
     else bind_eff (lab_binding c d) (\<lambda>engine.
     bind_eff (if action = ''switch'' then find_service c d ''redis-spare'' else ret None) (\<lambda>spare.
     let m = (new_marker c engine action service run x)\<lparr>mk_order := (if action = ''row-lock'' then order else None),
               mk_hold := (if action = ''row-lock'' then Some seconds else None), mk_spare_before := spare\<rparr> in
     bind_eff (dk_save d m) (\<lambda>_.
     bind_eff (perform k c d m seconds) (\<lambda>m'. let m'' = m'\<lparr>mk_status := ''applied''\<rparr> in
     bind_eff (dk_save d m'') (\<lambda>_. ret m''))))))))"

section \<open>Restoring it\<close>

definition read_marker :: "lab_config \<Rightarrow> 's docker_lab \<Rightarrow> (marker, 's) eff" where
  "read_marker c d = bind_eff (dk_load d) (\<lambda>m.
     if \<not> fault_allowed (mk_action m) (mk_service m) then raise_exn (Runtime_Error ''Unknown recovery action; no command executed'')
     else bind_eff (lab_binding c d) (\<lambda>engine.
       if \<not> py_eq (PDict (mk_engine m)) (PDict engine) \<or> mk_project m \<noteq> lc_project c \<or> \<not> sim_run_text (mk_run m)
       then raise_exn (Runtime_Error ''Recovery state belongs to a different run/engine/project'') else ret m))"

text \<open>The statistics of a network restoration: \<open>None\<close> when no helper had been created.\<close>

definition running_row :: "pv option \<Rightarrow> bool res" where
  "running_row r = (case r of None \<Rightarrow> Inr False
     | Some row \<Rightarrow> bind_res (bind_res (subscript row ''State'') (\<lambda>s. subscript s ''Running'')) (\<lambda>v. Inr (truthy v)))"

definition netem_restore :: "lab_config \<Rightarrow> 's docker_lab \<Rightarrow> marker \<Rightarrow> (pdict list option, 's) eff" where
  "netem_restore c d m = (if mk_helper_name m = None then ret None
     else bind_eff (lab_inspect c d (co_id (mk_original m)) (mk_service m)) (\<lambda>_.
     bind_eff (check_target c d (mk_original m)) (\<lambda>_.
     bind_eff (helper c d m) (\<lambda>r.
     bind_eff (lift_res (bind_res (running_row r) (\<lambda>b. case r of Some row \<Rightarrow> bind_res (subscript row ''Id'') (\<lambda>i. bind_res (as_text i) (\<lambda>i. Inr (b, Some i)))
       | None \<Rightarrow> Inr (False, None)))) (\<lambda>(b, i).
     bind_eff (if b then bound c d (dk_do d (Stop_Op 8) (the i)) else ret ()) (\<lambda>_.
     bind_eff (helper_logs c d m) (\<lambda>events.
     bind_eff (bound c d (dk_cleanup d m)) (\<lambda>vs. let cleanup = dict_events vs in
     if \<not> list_ex (in_stage ''netem_cleared'') cleanup then raise_exn (Runtime_Error ''Netem cleanup was not confirmed'')
     else bind_eff (case i of None \<Rightarrow> ret ()
       | Some i \<Rightarrow> bind_eff (helper c d m) (\<lambda>_. bound c d (dk_do d Remove_Op i))) (\<lambda>_.
     ret (Some (filter (in_stage ''netem_cleared'') (events @ cleanup))))))))))))"

text \<open>Rounds of releasing the row lock until it is observed or the deadline passes.\<close>

fun release_wait :: "nat \<Rightarrow> 's docker_lab \<Rightarrow> ustr \<Rightarrow> ustr \<Rightarrow> rat \<Rightarrow> (unit, 's) eff" where
  "release_wait 0 d i run deadline = raise_exn (Other_Error ''waiting'')"
| "release_wait (Suc k) d i run deadline = bind_eff (dk_release d i run) (\<lambda>ok. if ok then ret ()
     else bind_eff (dk_clock d) (\<lambda>t. if deadline < t
       then raise_exn (Runtime_Error ''Row lock release could not be confirmed; recovery marker retained'')
       else release_wait k d i run deadline))"

definition undo :: "nat \<Rightarrow> lab_config \<Rightarrow> 's docker_lab \<Rightarrow> bool \<Rightarrow> marker \<Rightarrow> (pdict list option, 's) eff" where
  "undo k c d helper_started m = (let action = mk_action m; x = mk_original m; service = mk_service m in
     if action = ''netem-delay'' \<or> action = ''netem-loss'' then netem_restore c d m
     else if action = ''stop'' \<or> action = ''pause''
     then bind_eff (lab_inspect c d (co_id x) service) (\<lambda>y.
          bind_eff (if action = ''pause''
            then bind_eff (if co_paused y then bound c d (dk_do d Unpause_Op (co_id x)) else ret ()) (\<lambda>_.
              if \<not> co_running y then raise_exn (Runtime_Error ''Paused container was stopped externally; automatic restart refused'') else ret ())
            else if \<not> co_running y then bound c d (dk_do d Start_Op (co_id x)) else ret ()) (\<lambda>_.
          bind_eff (lab_inspect c d (co_id x) service) (\<lambda>z.
          if \<not> co_running z \<or> co_paused z then raise_exn (Runtime_Error ''Container process restoration not observed'') else ret None)))
     else if action = ''recreate''
     then bind_eff (lab_service c d ''redis'') (\<lambda>y. bind_eff (lift_res (same_storage_image x y)) (\<lambda>_.
          bind_eff (if \<not> co_running y then bound c d (dk_do d Start_Op (co_id y)) else ret ()) (\<lambda>_. ret None)))
     else if action = ''switch''
     then bind_eff (dk_mode d) (\<lambda>mode. if mode \<noteq> u ''normal'' \<and> mode \<noteq> u ''redis-spare''
          then raise_exn (Runtime_Error ''Experiment changed externally; restore refused'')
          else bind_eff (dk_set_mode d ''normal'') (\<lambda>_. bind_eff (apps c d) (\<lambda>_. case mk_spare_started m of
              None \<Rightarrow> ret None
            | Some y \<Rightarrow> if (case mk_spare_before m of Some b \<Rightarrow> co_running b | None \<Rightarrow> False) then ret None
                else bind_eff (lab_inspect c d (co_id y) ''redis-spare'') (\<lambda>_.
                  bind_eff (bound c d (dk_do d (Stop_Op 4) (co_id y))) (\<lambda>_. ret None)))))
     else bind_eff (if helper_started then dk_join d else ret ()) (\<lambda>_. bind_eff (dk_clock d) (\<lambda>t.
       case mk_order m of None \<Rightarrow> raise_exn Key_Error
       | Some i \<Rightarrow> bind_eff (release_wait k d i (mk_run m) (t + 45)) (\<lambda>_. ret None))))"

record restored =
  rs_action :: string
  rs_service :: "string option"
  rs_netem :: "pdict list option"

definition restore_fault :: "nat \<Rightarrow> lab_config \<Rightarrow> 's docker_lab \<Rightarrow> bool \<Rightarrow> (restored, 's) eff" where
  "restore_fault k c d helper_started =
     bind_eff (dk_exists d ''simulation-active.json'') (\<lambda>there.
     if \<not> there then ret \<lparr>rs_action = ''none'', rs_service = None, rs_netem = None\<rparr>
     else bind_eff (read_marker c d) (\<lambda>m.
     bind_eff (undo k c d helper_started m) (\<lambda>net.
     bind_eff (dk_unlink d) (\<lambda>_.
     ret \<lparr>rs_action = mk_action m, rs_service = Some (mk_service m), rs_netem = net\<rparr>))))"
section \<open>What the lab did\<close>

text \<open>The log of a watched lab: readings, the markers saved and loaded, and the operations that change containers, the
  network, the mode or the marker, noted whether they succeed or not.\<close>

datatype lab_event = Bound pdict | Saw ustr "pv list" | Saved marker | Loaded marker | Cleaned marker "pdict list" | Released ustr ustr
  | Did container_op ustr | Upped compose_up | Moded string | Locked ustr ustr int | Created marker int | Unlinked

definition once :: "('a \<Rightarrow> lab_event option) \<Rightarrow> 'a res \<Rightarrow> lab_event list" where
  "once f r = (case r of Inl _ \<Rightarrow> [] | Inr a \<Rightarrow> (case f a of None \<Rightarrow> [] | Some e \<Rightarrow> [e]))"

definition watched_lab :: "'s docker_lab \<Rightarrow> ('s \<times> lab_event list) docker_lab" where
  "watched_lab d = \<lparr>dk_target = recording (\<lambda>_. []) (dk_target d), dk_engine = recording (once (Some \<circ> Bound)) (dk_engine d),
     dk_identity = recording (\<lambda>_. []) (dk_identity d), dk_exists = (\<lambda>x. recording (\<lambda>_. []) (dk_exists d x)),
     dk_mode = recording (\<lambda>_. []) (dk_mode d), dk_set_mode = (\<lambda>x. recording (\<lambda>_. [Moded x]) (dk_set_mode d x)),
     dk_load = recording (once (Some \<circ> Loaded)) (dk_load d), dk_save = (\<lambda>m. recording (once (\<lambda>_. Some (Saved m))) (dk_save d m)),
     dk_unlink = recording (\<lambda>_. [Unlinked]) (dk_unlink d), dk_ps = (\<lambda>n. recording (\<lambda>_. []) (dk_ps d n)),
     dk_inspect = (\<lambda>i. recording (once (Some \<circ> Saw i)) (dk_inspect d i)),
     dk_do = (\<lambda>p i. recording (\<lambda>_. [Did p i]) (dk_do d p i)), dk_up = (\<lambda>x. recording (\<lambda>_. [Upped x]) (dk_up d x)),
     dk_lock = (\<lambda>i r t. recording (\<lambda>_. [Locked i r t]) (dk_lock d i r t)), dk_join = recording (\<lambda>_. []) (dk_join d),
     dk_release = (\<lambda>i r. recording (once (\<lambda>b. if b then Some (Released i r) else None)) (dk_release d i r)),
     dk_image = (\<lambda>x. recording (\<lambda>_. []) (dk_image d x)), dk_named = (\<lambda>x. recording (\<lambda>_. []) (dk_named d x)),
     dk_create = (\<lambda>m t. recording (\<lambda>_. [Created m t]) (dk_create d m t)), dk_logs = (\<lambda>i. recording (\<lambda>_. []) (dk_logs d i)),
     dk_cleanup = (\<lambda>m. recording (once (\<lambda>vs. Some (Cleaned m (dict_events vs)))) (dk_cleanup d m)),
     dk_clock = recording (\<lambda>_. []) (dk_clock d)\<rparr>"

definition change :: "lab_event \<Rightarrow> bool" where
  "change e \<longleftrightarrow> (case e of Bound _ \<Rightarrow> False | Saw _ _ \<Rightarrow> False | Saved _ \<Rightarrow> False | Loaded _ \<Rightarrow> False | Cleaned _ _ \<Rightarrow> False | Released _ _ \<Rightarrow> False
     | _ \<Rightarrow> True)"

definition local_engine :: "lab_event list \<Rightarrow> bool" where
  "local_engine lg \<longleftrightarrow> (\<exists>v. Bound v \<in> set lg \<and> truthy (dget v ''local_docker''))"

definition seen :: "lab_config \<Rightarrow> ustr \<Rightarrow> string \<Rightarrow> container \<Rightarrow> lab_event list \<Rightarrow> bool" where
  "seen c i service x lg \<longleftrightarrow> (\<exists>row. Saw i [row] \<in> set lg \<and> owned_by c service row = Inr True \<and> container_of service row = Inr x)"

definition seen_helper :: "marker \<Rightarrow> pv \<Rightarrow> lab_event list \<Rightarrow> bool" where
  "seen_helper m row lg \<longleftrightarrow> (\<exists>i rows. Saw i (row # rows) \<in> set lg \<and> helper_row_ok m row = Inr True)"

lemma stable_seen [intro!]: "stable local_engine" "stable (seen c i service x)" "stable (seen_helper m row)"
  unfolding stable_def local_engine_def seen_def seen_helper_def by fastforce+

text \<open>
  A client of a watched lab whose log is justified by \<open>ok\<close>, when readings need no justification: what is known after
  each of the operations that only read.
\<close>

locale lab_client =
  fixes ok :: "lab_event list \<Rightarrow> lab_event \<Rightarrow> bool"
  assumes readings: "\<not> change e \<Longrightarrow> ok lg e"
begin

lemma once_steps:
  assumes "stable P" and "\<And>a e. f a = Some e \<Longrightarrow> \<not> change e" and "\<And>a lg. P lg \<Longrightarrow> f a = None \<Longrightarrow> Q a lg"
    and "\<And>a e lg. P lg \<Longrightarrow> f a = Some e \<Longrightarrow> P (lg @ [e]) \<Longrightarrow> Q a (lg @ [e])"
  shows "steps ok P (recording (once f) m) Q"
proof (rule steps_recording)
  show "ok lg e" if "e \<in> set (once f r)" for r e lg
    using that assms(2) readings by (auto simp: once_def split: sum.splits option.splits)
  show "length (once f r) \<le> 1" for r by (simp add: once_def split: sum.splits option.splits)
  show "Q a (lg @ once f (Inr a))" if "P lg" for a lg
    using assms(3,4) that stableD [OF assms(1) that] by (simp add: once_def split: option.splits)
qed

lemma quiet_steps: "steps ok P (recording (\<lambda>_. []) m) (\<lambda>_. P)"
  by (rule steps_recording) auto

lemma change_steps:
  assumes "stable P" and "\<And>lg. P lg \<Longrightarrow> ok lg e"
  shows "steps ok P (recording (\<lambda>_. [e]) m) (\<lambda>_. P)"
  by (rule steps_recording) (use assms stableD [OF assms(1)] in auto)

lemma reads:
  "steps ok P (dk_target (watched_lab d)) (\<lambda>_. P)" "steps ok P (dk_identity (watched_lab d)) (\<lambda>_. P)"
  "steps ok P (dk_exists (watched_lab d) n) (\<lambda>_. P)" "steps ok P (dk_mode (watched_lab d)) (\<lambda>_. P)"
  "steps ok P (dk_ps (watched_lab d) n) (\<lambda>_. P)" "steps ok P (dk_join (watched_lab d)) (\<lambda>_. P)"
  "steps ok P (dk_image (watched_lab d) i) (\<lambda>_. P)" "steps ok P (dk_named (watched_lab d) i) (\<lambda>_. P)"
  "steps ok P (dk_logs (watched_lab d) i) (\<lambda>_. P)" "steps ok P (dk_clock (watched_lab d)) (\<lambda>_. P)"
  by (simp_all add: watched_lab_def quiet_steps)

lemma records:
  assumes p: "stable P"
  shows "steps ok P (dk_engine (watched_lab d)) (\<lambda>v lg. P lg \<and> Bound v \<in> set lg)"
    and "steps ok P (dk_inspect (watched_lab d) i) (\<lambda>rows lg. P lg \<and> Saw i rows \<in> set lg)"
    and "steps ok P (dk_save (watched_lab d) m) (\<lambda>_ lg. P lg \<and> Saved m \<in> set lg)"
    and "steps ok P (dk_load (watched_lab d)) (\<lambda>m lg. P lg \<and> Loaded m \<in> set lg)"
    and "steps ok P (dk_cleanup (watched_lab d) m) (\<lambda>vs lg. P lg \<and> Cleaned m (dict_events vs) \<in> set lg)"
    and "steps ok P (dk_release (watched_lab d) oid run) (\<lambda>b lg. P lg \<and> (b \<longrightarrow> Released oid run \<in> set lg))"
  by (simp_all add: watched_lab_def, (rule once_steps [OF p]; auto simp: change_def stableD [OF p] split: if_splits)+)

lemma changes:
  assumes "stable P"
  shows "(\<And>lg. P lg \<Longrightarrow> ok lg (Did p i)) \<Longrightarrow> steps ok P (dk_do (watched_lab d) p i) (\<lambda>_. P)"
    and "(\<And>lg. P lg \<Longrightarrow> ok lg (Upped x)) \<Longrightarrow> steps ok P (dk_up (watched_lab d) x) (\<lambda>_. P)"
    and "(\<And>lg. P lg \<Longrightarrow> ok lg (Moded k)) \<Longrightarrow> steps ok P (dk_set_mode (watched_lab d) k) (\<lambda>_. P)"
    and "(\<And>lg. P lg \<Longrightarrow> ok lg (Locked oid run t)) \<Longrightarrow> steps ok P (dk_lock (watched_lab d) oid run t) (\<lambda>_. P)"
    and "(\<And>lg. P lg \<Longrightarrow> ok lg (Created m t)) \<Longrightarrow> steps ok P (dk_create (watched_lab d) m t) (\<lambda>_. P)"
    and "(\<And>lg. P lg \<Longrightarrow> ok lg Unlinked) \<Longrightarrow> steps ok P (dk_unlink (watched_lab d)) (\<lambda>_. P)"
  by (simp_all add: watched_lab_def change_steps [OF assms])

lemma binding_steps:
  assumes p: "stable P"
  shows "steps ok P (lab_binding c (watched_lab d)) (\<lambda>_ lg. P lg \<and> local_engine lg)"
  unfolding lab_binding_def
proof (rule steps_bind [OF reads(1)], rule steps_bind [OF records(1) [OF p]])
  fix v
  show "steps ok (\<lambda>lg. P lg \<and> Bound v \<in> set lg) (if \<not> truthy (dget v ''local_docker'') \<or> lc_command c \<noteq> [u ''docker'']
      then raise_exn (Runtime_Error ''Automated simulation currently requires a pinned local Docker engine (unix/npipe)'')
      else ret v) (\<lambda>_ lg. P lg \<and> local_engine lg)"
    by (rule steps_if) (auto simp: local_engine_def)
qed

lemma bound_steps:
  assumes "stable P" and "steps ok (\<lambda>lg. P lg \<and> local_engine lg) m Q"
  shows "steps ok P (bound c (watched_lab d) m) Q"
  unfolding bound_def by (rule steps_bind [OF binding_steps [OF assms(1)] assms(2)])

end
context lab_client
begin

lemma inspect_steps:
  assumes p: "stable P"
  shows "steps ok P (lab_inspect c (watched_lab d) i service) (\<lambda>x lg. P lg \<and> local_engine lg \<and> seen c i service x lg)"
  unfolding lab_inspect_def
proof (rule steps_if [OF steps_raise], rule steps_bind [OF bound_steps [OF p records(2)]])
  show "stable (\<lambda>lg. P lg \<and> local_engine lg)" using p by blast
  fix rows
  let ?K = "\<lambda>lg. (P lg \<and> local_engine lg) \<and> Saw i rows \<in> set lg"
  show "steps ok ?K (case rows of [row] \<Rightarrow> bind_eff (lift_res (owned_by c service row)) (\<lambda>mine.
           if \<not> mine then raise_exn (Runtime_Error ''Container ownership labels do not match; refusing fault/recovery'')
           else lift_res (container_of service row))
       | _ \<Rightarrow> raise_exn (Runtime_Error ''Expected exactly one labelled container''))
     (\<lambda>x lg. P lg \<and> local_engine lg \<and> seen c i service x lg)"
  proof (cases "\<exists>row. rows = [row]")
    case True
    then obtain row where row: "rows = [row]" by blast
    have "steps ok ?K (bind_eff (lift_res (owned_by c service row)) (\<lambda>mine.
           if \<not> mine then raise_exn (Runtime_Error ''Container ownership labels do not match; refusing fault/recovery'')
           else lift_res (container_of service row))) (\<lambda>x lg. P lg \<and> local_engine lg \<and> seen c i service x lg)"
    proof (rule steps_bind [OF steps_lift [where Q = "\<lambda>mine lg. ?K lg \<and> owned_by c service row = Inr mine"]])
      show "steps ok (\<lambda>lg. ?K lg \<and> owned_by c service row = Inr mine) (if \<not> mine
           then raise_exn (Runtime_Error ''Container ownership labels do not match; refusing fault/recovery'')
           else lift_res (container_of service row)) (\<lambda>x lg. P lg \<and> local_engine lg \<and> seen c i service x lg)" for mine
        by (rule steps_if [OF steps_raise steps_lift]) (auto simp: seen_def row)
    qed simp
    then show ?thesis by (simp add: row)
  qed (auto split: list.splits)
qed

lemma find_steps:
  assumes p: "stable P"
  shows "steps ok P (find_service c (watched_lab d) name)
     (\<lambda>x lg. P lg \<and> local_engine lg \<and> (\<forall>y. x = Some y \<longrightarrow> (\<exists>i. seen c i name y lg)))"
  unfolding find_service_def
proof (rule steps_bind [OF bound_steps [OF p reads(5)]])
  fix ids
  have k: "stable (\<lambda>lg. P lg \<and> local_engine lg)" using p by blast
  show "steps ok (\<lambda>lg. P lg \<and> local_engine lg) (case ids of [] \<Rightarrow> ret None
     | [i] \<Rightarrow> bind_eff (lab_inspect c (watched_lab d) i name) (\<lambda>x. ret (Some x))
     | _ \<Rightarrow> raise_exn (Runtime_Error (''Simulation requires exactly one container per service: '' @ name)))
     (\<lambda>x lg. P lg \<and> local_engine lg \<and> (\<forall>y. x = Some y \<longrightarrow> (\<exists>i. seen c i name y lg)))"
  proof (cases "\<exists>i. ids = [i]")
    case True
    then obtain i where i: "ids = [i]" by blast
    have "steps ok (\<lambda>lg. P lg \<and> local_engine lg) (bind_eff (lab_inspect c (watched_lab d) i name) (\<lambda>x. ret (Some x)))
       (\<lambda>x lg. P lg \<and> local_engine lg \<and> (\<forall>y. x = Some y \<longrightarrow> (\<exists>i. seen c i name y lg)))"
      by (rule steps_bind [OF inspect_steps [OF k]]) auto
    then show ?thesis by (simp add: i)
  qed (auto split: list.splits simp del: ret_simps)
qed

lemma service_steps:
  assumes p: "stable P"
  shows "steps ok P (lab_service c (watched_lab d) name) (\<lambda>x lg. P lg \<and> local_engine lg \<and> (\<exists>i. seen c i name x lg))"
  unfolding lab_service_def
proof (rule steps_bind [OF find_steps [OF p]])
  show "steps ok (\<lambda>lg. P lg \<and> local_engine lg \<and> (\<forall>y. x = Some y \<longrightarrow> (\<exists>i. seen c i name y lg)))
     (case x of None \<Rightarrow> raise_exn (Runtime_Error (''Simulation requires exactly one container per service: '' @ name)) | Some y \<Rightarrow> ret y)
     (\<lambda>x lg. P lg \<and> local_engine lg \<and> (\<exists>i. seen c i name x lg))" for x
    by (cases x) (auto simp del: ret_simps)
qed

lemma target_steps:
  assumes p: "stable P"
  shows "steps ok P (check_target c (watched_lab d) x) (\<lambda>_. P)"
  unfolding check_target_def
  by (rule steps_bind [OF bound_steps [OF p records(2)]]) (use p in \<open>auto intro!: steps_lift\<close>)

lemma image_steps:
  assumes p: "stable P"
  shows "steps ok P (helper_image c (watched_lab d)) (\<lambda>_. P)"
proof -
  let ?m = "bind_eff (bound c (watched_lab d) (dk_image (watched_lab d) (lc_project c @ u ''-drills:local''))) (\<lambda>rows.
       lift_res (bind_res (first_row rows) (\<lambda>r. bind_res (subscript r ''Id'') as_text)))"
  have m: "steps ok P ?m (\<lambda>_. P)"
    by (rule steps_bind [OF bound_steps [OF p reads(7)]]) (auto intro!: steps_lift)
  have wrap: "steps ok P (\<lambda>s. case m s of (Inl e, s') \<Rightarrow> (Inl (g e), s') | (Inr a, s') \<Rightarrow> if b a then (Inr a, s') else (Inl h, s')) (\<lambda>_. P)"
    if "steps ok P m (\<lambda>_. P)" for m :: "(ustr, 'b \<times> lab_event list) eff" and g h b
    unfolding steps_def
  proof (intro allI impI)
    fix s lg assume "P lg \<and> safe_log ok lg"
    moreover obtain r s1 l1 where m: "m (s, lg) = (r, s1, l1)" by (metis prod.exhaust)
    ultimately have "safe_log ok l1" "\<And>a. r = Inr a \<Longrightarrow> P l1" using that unfolding steps_def by (metis fst_conv snd_conv)+
    with m show "safe_log ok (snd (snd (case m (s, lg) of (Inl e, s') \<Rightarrow> (Inl (g e), s') | (Inr a, s') \<Rightarrow> if b a then (Inr a, s') else (Inl h, s'))))
      \<and> (\<forall>a. fst (case m (s, lg) of (Inl e, s') \<Rightarrow> (Inl (g e), s') | (Inr a, s') \<Rightarrow> if b a then (Inr a, s') else (Inl h, s')) = Inr a \<longrightarrow>
        P (snd (snd (case m (s, lg) of (Inl e, s') \<Rightarrow> (Inl (g e), s') | (Inr a, s') \<Rightarrow> if b a then (Inr a, s') else (Inl h, s')))))"
      by (cases r) auto
  qed
  show ?thesis unfolding helper_image_def by (rule wrap [OF m])
qed

lemma helper_steps:
  assumes p: "stable P"
  shows "steps ok P (helper c (watched_lab d) m) (\<lambda>r lg. P lg \<and> (\<forall>row. r = Some row \<longrightarrow> seen_helper m row lg))"
  unfolding helper_def
proof (rule steps_if [OF steps_raise], rule steps_bind [OF bound_steps [OF p reads(8)]])
  fix ids
  let ?k = "\<lambda>i. bind_eff (bound c (watched_lab d) (dk_inspect (watched_lab d) i)) (\<lambda>rows. bind_eff (lift_res (first_row rows)) (\<lambda>row.
           bind_eff (lift_res (helper_row_ok m row)) (\<lambda>ok. if ok then ret (Some row)
             else raise_exn (Runtime_Error ''Helper ownership/storage/namespace changed; recovery refused''))))"
  let ?R = "\<lambda>r lg. P lg \<and> (\<forall>row. r = Some row \<longrightarrow> seen_helper m row lg)"
  have k: "steps ok (\<lambda>lg. P lg \<and> local_engine lg) (?k i) ?R" for i
  proof (rule steps_bind [OF bound_steps [OF _ records(2)]])
    fix rows
    let ?K = "\<lambda>lg. ((P lg \<and> local_engine lg) \<and> local_engine lg) \<and> Saw i rows \<in> set lg"
    show "steps ok ?K (bind_eff (lift_res (first_row rows)) (\<lambda>row. bind_eff (lift_res (helper_row_ok m row)) (\<lambda>ok.
        if ok then ret (Some row) else raise_exn (Runtime_Error ''Helper ownership/storage/namespace changed; recovery refused'')))) ?R"
    proof (rule steps_bind [OF steps_lift [where Q = "\<lambda>row lg. ?K lg \<and> first_row rows = Inr row"]], blast)
      fix row
      let ?K' = "\<lambda>lg. ?K lg \<and> first_row rows = Inr row"
      show "steps ok ?K' (bind_eff (lift_res (helper_row_ok m row)) (\<lambda>ok. if ok then ret (Some row)
          else raise_exn (Runtime_Error ''Helper ownership/storage/namespace changed; recovery refused''))) ?R"
      proof (rule steps_bind [OF steps_lift [where Q = "\<lambda>b lg. ?K' lg \<and> helper_row_ok m row = Inr b"]], blast)
        show "steps ok (\<lambda>lg. ?K' lg \<and> helper_row_ok m row = Inr b) (if b then ret (Some row)
            else raise_exn (Runtime_Error ''Helper ownership/storage/namespace changed; recovery refused'')) ?R" for b
          by (rule steps_if [OF steps_ret steps_raise]) (auto simp: seen_helper_def first_row_def split: list.splits)
      qed
    qed
  qed (intro stable_intros(2) stable_seen p)+
  show "steps ok (\<lambda>lg. P lg \<and> local_engine lg) (case ids of [] \<Rightarrow> ret None | [i] \<Rightarrow> ?k i
      | _ \<Rightarrow> raise_exn (Runtime_Error ''Ambiguous helper identity'')) ?R"
    using k by (auto split: list.splits simp del: ret_simps)
qed

lemma logs_steps:
  assumes p: "stable P"
  shows "steps ok P (helper_logs c (watched_lab d) m) (\<lambda>_. P)"
  unfolding helper_logs_def
proof (rule steps_bind [OF helper_steps [OF p]])
  fix r
  have "steps ok P (bind_eff (lift_res (bind_res (subscript row ''Id'') as_text)) (\<lambda>i.
      bind_eff (bound c (watched_lab d) (dk_logs (watched_lab d) i)) (\<lambda>vs. ret (dict_events vs)))) (\<lambda>_. P)" for row
    by (rule steps_bind [OF steps_lift [where Q = "\<lambda>_. P"]], simp, rule steps_bind [OF bound_steps [OF p reads(9)]]) auto
  then show "steps ok (\<lambda>lg. P lg \<and> (\<forall>row. r = Some row \<longrightarrow> seen_helper m row lg)) (case r of None \<Rightarrow> ret []
     | Some row \<Rightarrow> bind_eff (lift_res (bind_res (subscript row ''Id'') as_text)) (\<lambda>i.
         bind_eff (bound c (watched_lab d) (dk_logs (watched_lab d) i)) (\<lambda>vs. ret (dict_events vs)))) (\<lambda>_. P)"
    by (cases r) (auto intro: steps_conseq simp del: ret_simps)
qed

lemma wait_steps:
  assumes p: "stable P"
  shows "steps ok P (netem_wait k c (watched_lab d) m deadline) (\<lambda>_. P)"
proof (induction k)
  case (Suc k)
  have "steps ok P (case find (in_stage ''netem_applied'') es of Some e \<Rightarrow> ret e
       | None \<Rightarrow> if list_ex (in_stage ''netem_failed'') es
           then raise_exn (Runtime_Error ''Netem helper failed; no automatic host changes'')
           else netem_wait k c (watched_lab d) m deadline) (\<lambda>_. P)" for es
    using Suc.IH by (auto split: option.splits intro: steps_if simp del: ret_simps)
  then show ?case unfolding netem_wait.simps
    by (intro steps_bind [OF reads(10)] steps_if steps_raise steps_bind [OF logs_steps [OF p]])
qed (simp only: netem_wait.simps steps_raise)

end
section \<open>A fault is recorded before it is applied\<close>

definition recorded :: "lab_config \<Rightarrow> string \<Rightarrow> string \<Rightarrow> ustr \<Rightarrow> container \<Rightarrow> lab_event list \<Rightarrow> bool" where
  "recorded c action service run x lg \<longleftrightarrow> (\<exists>m. Saved m \<in> set lg \<and> mk_action m = action \<and> mk_service m = service \<and> mk_run m = run
     \<and> mk_project m = lc_project c \<and> mk_original m = x)"

definition is_netem :: "string \<Rightarrow> bool" where
  "is_netem action \<longleftrightarrow> action = ''netem-delay'' \<or> action = ''netem-loss''"

text \<open>The changes each fault makes.\<close>

definition fault_step :: "string \<Rightarrow> ustr \<Rightarrow> int \<Rightarrow> ustr option \<Rightarrow> container \<Rightarrow> lab_event list \<Rightarrow> lab_event \<Rightarrow> bool" where
  "fault_step action run seconds order x prev e \<longleftrightarrow> (case e of
       Did op i \<Rightarrow> (action = ''stop'' \<and> op = Stop_Op 4 \<or> action = ''pause'' \<and> op = Pause_Op) \<and> i = co_id x
         \<or> is_netem action \<and> op = Start_Op \<and> (\<exists>m. Saved m \<in> set prev \<and> mk_helper_id m = Some i \<and> mk_original m = x)
     | Upped up \<Rightarrow> action = (if up = Up_Redis then ''recreate'' else ''switch'')
     | Moded k \<Rightarrow> action = ''switch'' \<and> k = ''redis-spare'' \<and> (\<exists>m. Saved m \<in> set prev \<and> mk_spare_started m \<noteq> None)
     | Locked i r t \<Rightarrow> action = ''row-lock'' \<and> order = Some i \<and> r = run \<and> t = seconds
     | Created m t \<Rightarrow> is_netem action \<and> Saved m \<in> set prev \<and> mk_original m = x \<and> t = seconds
     | _ \<Rightarrow> False)"

definition fault_ok ::
  "lab_config \<Rightarrow> string \<Rightarrow> string \<Rightarrow> ustr \<Rightarrow> int \<Rightarrow> ustr option \<Rightarrow> lab_event list \<Rightarrow> lab_event \<Rightarrow> bool" where
  "fault_ok c action service run seconds order prev e \<longleftrightarrow> \<not> change e \<or>
     fault_arguments action service run seconds order = Inr () \<and> local_engine prev \<and>
     (\<exists>x. co_running x \<and> \<not> co_paused x \<and> (\<exists>i. seen c i service x prev) \<and> recorded c action service run x prev
        \<and> fault_step action run seconds order x prev e)"

interpretation applying: lab_client "fault_ok c action service run seconds order" for c action service run seconds order
  by unfold_locales (simp add: fault_ok_def)

definition ready :: "lab_config \<Rightarrow> string \<Rightarrow> string \<Rightarrow> ustr \<Rightarrow> container \<Rightarrow> lab_event list \<Rightarrow> bool" where
  "ready c action service run x lg \<longleftrightarrow> local_engine lg \<and> (\<exists>i. seen c i service x lg) \<and> recorded c action service run x lg"

lemma stable_ready [intro!]: "stable (ready c action service run x)" "stable (recorded c action service run x)"
proof -
  show r: "stable (recorded c action service run x)" unfolding recorded_def by (auto simp: stable_def)
  have "stable (\<lambda>lg. local_engine lg \<and> (\<exists>i. seen c i service x lg) \<and> recorded c action service run x lg)"
    by (intro stable_intros stable_seen r)
  then show "stable (ready c action service run x)" unfolding ready_def [abs_def] .
qed

lemmas stable_rules = stable_intros stable_seen stable_ready

text \<open>The rest of a fault, on a lab where it is ready.\<close>

lemma perform_steps:
  assumes a: "fault_arguments action service run seconds order = Inr ()" "co_running x" "\<not> co_paused x"
    and m: "mk_action m = action" "mk_service m = service" "mk_run m = run" "mk_original m = x"
      "mk_order m = (if action = ''row-lock'' then order else None)"
  shows "steps (fault_ok c action service run seconds order) (ready c action service run x) (perform k c (watched_lab d) m seconds)
     (\<lambda>_. ready c action service run x)"
proof -
  let ?ok = "fault_ok c action service run seconds order"
  let ?P = "ready c action service run x"
  let ?d = "watched_lab d"
  have ok: "?ok lg e" if "?P lg" "fault_step action run seconds order x lg e" for lg e
    using that a unfolding fault_ok_def ready_def by blast
  have p: "stable ?P" by (intro stable_rules)
  have ps: "stable (\<lambda>lg. ?P lg \<and> Saved m \<in> set lg)" for m by (intro stable_rules)
  consider (net) "is_netem action" | (stop) "action = ''stop'' \<or> action = ''pause''" "\<not> is_netem action" | (recreate) "action = ''recreate''"
    | (switch) "action = ''switch''" | (lock) "action = ''row-lock''"
    using a(1) by (auto simp: fault_arguments_def fault_allowed_def allowed_faults_def is_netem_def split: if_splits)
  then show ?thesis
  proof cases
    case net
    have "steps ?ok ?P (netem_start k c ?d m seconds) (\<lambda>_. ?P)"
      unfolding netem_start_def Let_def
    proof (rule steps_bind [OF applying.target_steps [OF p]], rule steps_bind [OF applying.image_steps [OF p]])
      fix image
      let ?m1 = "m\<lparr>mk_helper_name := Some (mk_project m @ u ''-netem-'' @ mk_run m), mk_helper_image := Some image\<rparr>"
      let ?m2 = "\<lambda>i. ?m1\<lparr>mk_helper_id := Some i\<rparr>"
      have create: "steps ?ok (\<lambda>lg. ?P lg \<and> Saved ?m1 \<in> set lg) (bound c ?d (dk_create ?d ?m1 seconds)) (\<lambda>_. ?P)"
        by (rule applying.bound_steps [OF ps], rule steps_conseq [OF applying.changes(5) [OF ps]])
           (use net m ok in \<open>auto simp: fault_step_def\<close>)
      have started: "fault_step action run seconds order x lg (Did Start_Op i)" if "Saved (?m2 i) \<in> set lg" for lg i
        using that net m(4) by (auto simp: fault_step_def intro!: exI [of _ "?m2 i"])
      have start: "steps ?ok (\<lambda>lg. ?P lg \<and> Saved (?m2 i) \<in> set lg) (bound c ?d (dk_do ?d Start_Op i)) (\<lambda>_. ?P)" for i
        by (rule applying.bound_steps [OF ps], rule steps_conseq [OF applying.changes(1) [OF ps]])
           (use ok started in blast)+
      show "steps ?ok ?P (bind_eff (dk_save ?d ?m1) (\<lambda>_. bind_eff (bound c ?d (dk_create ?d ?m1 seconds)) (\<lambda>i.
          bind_eff (dk_save ?d (?m2 i)) (\<lambda>_. bind_eff (helper c ?d (?m2 i)) (\<lambda>_.
          bind_eff (bound c ?d (dk_do ?d Start_Op i)) (\<lambda>_. bind_eff (dk_clock ?d) (\<lambda>t.
          bind_eff (netem_wait k c ?d (?m2 i) (t + 10)) (\<lambda>e. ret (?m2 i, e))))))))) (\<lambda>_. ?P)"
        by (rule steps_bind [OF applying.records(3) [OF p]], rule steps_bind [OF create],
            rule steps_bind [OF applying.records(3) [OF p]], rule steps_bind [OF applying.helper_steps [OF ps]],
            rule steps_bind [OF steps_conseq [OF start]], blast, assumption,
            rule steps_bind [OF applying.reads(10)], rule steps_bind [OF applying.wait_steps [OF p]]) (rule steps_ret)
    qed
    then show ?thesis using net unfolding perform_def Let_def m(1) is_netem_def
      by (simp add: steps_bind steps_ret split_def)
  next
    case stop
    have ops: "steps ?ok ?P (bound c ?d (dk_do ?d (if action = ''stop'' then Stop_Op 4 else Pause_Op) (co_id x))) (\<lambda>_. ?P)"
      by (rule applying.bound_steps [OF p], rule steps_conseq [OF applying.changes(1) [OF p ok]], assumption)
         (use stop(1) in \<open>auto simp: fault_step_def\<close>)
    show ?thesis using stop(1,2) unfolding perform_def Let_def m is_netem_def
      by (simp only: simp_thms if_True if_False)
         (intro steps_bind [OF ops] steps_bind [OF applying.inspect_steps [OF p]] steps_if steps_raise steps_ret; blast)
  next
    case recreate
    have up: "steps ?ok ?P (dk_up ?d Up_Redis) (\<lambda>_. ?P)"
      by (rule applying.changes(2) [OF p ok], assumption) (simp add: fault_step_def recreate)
    have run: "perform k c ?d m seconds = bind_eff (dk_up ?d Up_Redis) (\<lambda>_. bind_eff (lab_service c ?d ''redis'') (\<lambda>y.
        bind_eff (dk_save ?d (m\<lparr>mk_replacement := Some y\<rparr>)) (\<lambda>_. bind_eff (lift_res (same_storage_image x y)) (\<lambda>_.
        ret (m\<lparr>mk_replacement := Some y\<rparr>)))))"
      by (simp add: perform_def Let_def m recreate)
    show ?thesis unfolding run
      by (rule steps_bind [OF up], rule steps_bind [OF steps_conseq [OF applying.service_steps [OF p]]], assumption, erule conjunct1,
        rule steps_bind [OF applying.records(3) [OF p]], rule steps_bind [OF steps_lift [where Q = "\<lambda>_. ?P"]], erule conjunct1, rule steps_ret)
  next
    case switch
    have up: "steps ?ok ?P (dk_up ?d Up_Spare) (\<lambda>_. ?P)"
      by (rule applying.changes(2) [OF p ok], assumption) (simp add: fault_step_def switch)
    have mode: "steps ?ok (\<lambda>lg. ?P lg \<and> Saved (m\<lparr>mk_spare_started := Some y\<rparr>) \<in> set lg) (dk_set_mode ?d ''redis-spare'') (\<lambda>_. ?P)" for y
      by (rule steps_conseq [OF applying.changes(3) [OF ps ok]], erule conjunct1)
         (auto simp: fault_step_def switch intro!: exI [of _ "m\<lparr>mk_spare_started := Some y\<rparr>"])
    have apps: "steps ?ok ?P (apps c ?d) (\<lambda>_. ?P)"
      unfolding apps_def by (rule applying.bound_steps [OF p], rule steps_conseq [OF applying.changes(2) [OF p ok]], assumption)
        (simp_all add: fault_step_def switch)
    have run: "perform k c ?d m seconds = bind_eff (dk_up ?d Up_Spare) (\<lambda>_. bind_eff (lab_service c ?d ''redis-spare'') (\<lambda>y.
        bind_eff (dk_save ?d (m\<lparr>mk_spare_started := Some y\<rparr>)) (\<lambda>_. bind_eff (dk_set_mode ?d ''redis-spare'') (\<lambda>_.
        bind_eff (apps c ?d) (\<lambda>_. ret (m\<lparr>mk_spare_started := Some y\<rparr>))))))"
      by (simp add: perform_def Let_def m switch)
    show ?thesis unfolding run
      by (rule steps_bind [OF up], rule steps_bind [OF steps_conseq [OF applying.service_steps [OF p]]], assumption, erule conjunct1,
        rule steps_bind [OF applying.records(3) [OF p]], rule steps_bind [OF mode], rule steps_bind [OF apps], rule steps_ret)
  next
    case lock
    have lock': "steps ?ok ?P (dk_lock ?d i run seconds) (\<lambda>_. ?P)" if "order = Some i" for i
      by (rule applying.changes(4) [OF p ok], assumption) (simp add: fault_step_def lock that)
    have run: "perform k c ?d m seconds = (case order of None \<Rightarrow> raise_exn Key_Error | Some i \<Rightarrow> bind_eff (dk_lock ?d i run seconds) (\<lambda>e. case e of
         None \<Rightarrow> raise_exn (Runtime_Error ''Lock acquisition was not observed; helper has a bounded hold timer'')
       | Some e \<Rightarrow> if \<not> in_stage ''row_lock_acquired'' e
           then raise_exn (Runtime_Error ''Synthetic row lock was rejected or could not be acquired'')
           else ret (m\<lparr>mk_event := Some e\<rparr>)))"
      by (cases order) (simp_all add: perform_def Let_def m lock)
    have after: "steps ?ok ?P (case e of
         None \<Rightarrow> raise_exn (Runtime_Error ''Lock acquisition was not observed; helper has a bounded hold timer'')
       | Some e \<Rightarrow> if \<not> in_stage ''row_lock_acquired'' e
           then raise_exn (Runtime_Error ''Synthetic row lock was rejected or could not be acquired'')
           else ret (m\<lparr>mk_event := Some e\<rparr>)) (\<lambda>_. ?P)" for e
      by (cases e) (simp_all only: option.case steps_raise steps_if steps_ret)
    show ?thesis
    proof (cases order)
      case (Some i)
      show ?thesis unfolding run unfolding Some option.case by (rule steps_bind [OF lock' [OF Some, unfolded Some] after [unfolded Some]])
    qed (simp only: run option.case steps_raise)
  qed
qed
lemma apply_steps:
  "steps (fault_ok c action service run seconds order) (\<lambda>_. True) (apply_fault k c (watched_lab d) action service run seconds order) (\<lambda>_ _. True)"
  (is "steps ?ok _ _ _")
  unfolding apply_fault_def Let_def
proof (rule steps_bind [OF steps_lift [where Q = "\<lambda>_ _. fault_arguments action service run seconds order = Inr ()"]], simp)
  let ?d = "watched_lab d"
  let ?mk = "\<lambda>x engine spare. (new_marker c engine action service run x)\<lparr>mk_order := (if action = ''row-lock'' then order else None),
               mk_hold := (if action = ''row-lock'' then Some seconds else None), mk_spare_before := spare\<rparr>"
  let ?rest = "\<lambda>x. bind_eff (lab_binding c ?d) (\<lambda>engine.
     bind_eff (if action = ''switch'' then find_service c ?d ''redis-spare'' else ret None) (\<lambda>spare.
     bind_eff (dk_save ?d (?mk x engine spare)) (\<lambda>_. bind_eff (perform k c ?d (?mk x engine spare) seconds) (\<lambda>m'.
     bind_eff (dk_save ?d (m'\<lparr>mk_status := ''applied''\<rparr>)) (\<lambda>_. ret (m'\<lparr>mk_status := ''applied''\<rparr>))))))"
  fix v :: unit
  have T: "stable (\<lambda>_. True)" by (simp add: stable_def)
  have rest: "steps ?ok (\<lambda>lg. \<exists>i. seen c i service x lg) (?rest x) (\<lambda>_ _. True)"
    if a: "fault_arguments action service run seconds order = Inr ()" and x: "co_running x" "\<not> co_paused x" for x
  proof -
    let ?S = "\<lambda>lg. \<exists>i. seen c i service x lg"
    let ?L = "\<lambda>lg. ?S lg \<and> local_engine lg"
    have S: "stable ?S" and L: "stable ?L" by (intro stable_rules)+
    have spare: "steps ?ok ?L (if action = ''switch'' then find_service c ?d ''redis-spare'' else ret None) (\<lambda>_. ?L)"
      by (rule steps_if [OF steps_conseq [OF applying.find_steps [OF L]] steps_ret]) auto
    have perform: "steps ?ok (ready c action service run x) (perform k c ?d (?mk x engine spare) seconds) (\<lambda>_. ready c action service run x)"
      for engine spare by (rule perform_steps [OF a x]) (simp_all add: new_marker_def)
    have save: "steps ?ok ?L (dk_save ?d (?mk x engine spare)) (\<lambda>_. ready c action service run x)" for engine spare
      by (rule steps_conseq [OF applying.records(3) [OF L]], assumption)
         (auto simp: ready_def recorded_def new_marker_def intro!: exI [of _ "?mk x engine spare"])
    show ?thesis
      by (rule steps_bind [OF applying.binding_steps [OF S]], rule steps_bind [OF spare], rule steps_bind [OF save],
        rule steps_bind [OF perform], rule steps_bind [OF applying.records(3) [OF stable_ready(1)]], rule steps_ret) simp
  qed
  have main: "steps ?ok (\<lambda>lg. local_engine lg \<and> (\<exists>i. seen c i service x lg)) (if \<not> co_running x \<or> co_paused x
      then raise_exn (Runtime_Error ''Fault target was not running normally'') else ?rest x) (\<lambda>_ _. True)"
    if a: "fault_arguments action service run seconds order = Inr ()" for x
    by (rule steps_if [OF steps_raise], rule steps_conseq [OF rest [OF a]]) auto
  show "steps ?ok (\<lambda>_. fault_arguments action service run seconds order = Inr ())
     (bind_eff (dk_exists ?d ''simulation-active.json'') (\<lambda>taken. if taken then raise_exn (Runtime_Error ''Another simulation fault is active'')
      else bind_eff (lab_service c ?d service) (\<lambda>x. if \<not> co_running x \<or> co_paused x
        then raise_exn (Runtime_Error ''Fault target was not running normally'') else ?rest x))) (\<lambda>_ _. True)"
  proof (rule steps_conseq [OF steps_fact [where P = "\<lambda>_. True"]])
    assume a: "fault_arguments action service run seconds order = Inr ()"
    show "steps ?ok (\<lambda>_. True) (bind_eff (dk_exists ?d ''simulation-active.json'') (\<lambda>taken. if taken then raise_exn (Runtime_Error ''Another simulation fault is active'')
      else bind_eff (lab_service c ?d service) (\<lambda>x. if \<not> co_running x \<or> co_paused x
        then raise_exn (Runtime_Error ''Fault target was not running normally'') else ?rest x))) (\<lambda>_ _. True)"
      by (rule steps_bind [OF applying.reads(3)], rule steps_if [OF steps_raise],
        rule steps_bind [OF steps_conseq [OF applying.service_steps [OF T]]], assumption, erule conjunct2, rule main [OF a])
  qed auto
qed

text \<open>C31: Whatever else happens to the lab, each change a fault makes to a container, the network or the mode is of an
  allow-listed action and service of the lab's project with bounded arguments, on a local engine, on the one container of
  the service seen running, and comes after the marker that records the fault and that container was saved.\<close>

theorem fault_recorded_first:
  assumes "snd (snd (apply_fault k c (watched_lab d) action service run seconds order (s, []))) = pre @ e # post"
  shows "fault_ok c action service run seconds order pre e"
  by (rule steps_safe [OF apply_steps assms])
section \<open>The marker outlives the fault\<close>

context lab_client
begin

lemma binding_noted:
  assumes p: "stable P"
  shows "steps ok P (lab_binding c (watched_lab d)) (\<lambda>v lg. P lg \<and> local_engine lg \<and> Bound v \<in> set lg)"
  unfolding lab_binding_def
proof (rule steps_bind [OF reads(1)], rule steps_bind [OF records(1) [OF p]])
  fix v
  show "steps ok (\<lambda>lg. P lg \<and> Bound v \<in> set lg) (if \<not> truthy (dget v ''local_docker'') \<or> lc_command c \<noteq> [u ''docker'']
      then raise_exn (Runtime_Error ''Automated simulation currently requires a pinned local Docker engine (unix/npipe)'')
      else ret v) (\<lambda>v lg. P lg \<and> local_engine lg \<and> Bound v \<in> set lg)"
    by (rule steps_if) (auto simp: local_engine_def)
qed

lemma change_noted:
  assumes "stable P" and "\<And>lg. P lg \<Longrightarrow> ok lg e"
  shows "steps ok P (recording (\<lambda>_. [e]) m) (\<lambda>_ lg. P lg \<and> e \<in> set lg)"
  by (rule steps_recording) (use assms stableD [OF assms(1)] in auto)

lemma changes_noted:
  assumes "stable P"
  shows "(\<And>lg. P lg \<Longrightarrow> ok lg (Upped x)) \<Longrightarrow> steps ok P (dk_up (watched_lab d) x) (\<lambda>_ lg. P lg \<and> Upped x \<in> set lg)"
    and "(\<And>lg. P lg \<Longrightarrow> ok lg (Moded k)) \<Longrightarrow> steps ok P (dk_set_mode (watched_lab d) k) (\<lambda>_ lg. P lg \<and> Moded k \<in> set lg)"
  by (simp_all add: watched_lab_def change_noted [OF assms])

lemma release_steps:
  assumes p: "stable P"
  shows "steps ok P (release_wait k (watched_lab d) i run deadline) (\<lambda>_ lg. P lg \<and> Released i run \<in> set lg)"
proof (induction k)
  case (Suc k)
  have again: "steps ok P (if deadline < t then raise_exn (Runtime_Error ''Row lock release could not be confirmed; recovery marker retained'')
      else release_wait k (watched_lab d) i run deadline) (\<lambda>_ lg. P lg \<and> Released i run \<in> set lg)" for t
    by (rule steps_if [OF steps_raise Suc.IH])
  have "steps ok (\<lambda>lg. P lg \<and> (b \<longrightarrow> Released i run \<in> set lg)) (if b then ret () else bind_eff (dk_clock (watched_lab d)) (\<lambda>t.
      if deadline < t then raise_exn (Runtime_Error ''Row lock release could not be confirmed; recovery marker retained'')
      else release_wait k (watched_lab d) i run deadline)) (\<lambda>_ lg. P lg \<and> Released i run \<in> set lg)" for b
    by (rule steps_if [OF steps_ret steps_conseq [OF steps_bind [OF reads(10) again]]]) auto
  then show ?case unfolding release_wait.simps by (rule steps_bind [OF records(6) [OF p]])
qed (simp only: release_wait.simps steps_raise)

end

definition cleared :: "marker \<Rightarrow> lab_event list \<Rightarrow> bool" where
  "cleared m lg \<longleftrightarrow> (\<exists>es. Cleaned m es \<in> set lg \<and> list_ex (in_stage ''netem_cleared'') es)"

definition restored_state :: "lab_config \<Rightarrow> marker \<Rightarrow> lab_event list \<Rightarrow> bool" where
  "restored_state c m lg \<longleftrightarrow> (let action = mk_action m; x = mk_original m in
     (action = ''stop'' \<or> action = ''pause'' \<longrightarrow> (\<exists>z. seen c (co_id x) (mk_service m) z lg \<and> co_running z \<and> \<not> co_paused z))
     \<and> (action = ''recreate'' \<longrightarrow> (\<exists>j y. seen c j ''redis'' y lg \<and> same_storage_image x y = Inr ()))
     \<and> (action = ''switch'' \<longrightarrow> Moded ''normal'' \<in> set lg \<and> Upped Up_Apps \<in> set lg)
     \<and> (is_netem action \<and> mk_helper_name m \<noteq> None \<longrightarrow> cleared m lg)
     \<and> (action = ''row-lock'' \<longrightarrow> (\<exists>i. mk_order m = Some i \<and> Released i (mk_run m) \<in> set lg)))"

text \<open>The changes a restoration makes.\<close>

definition restore_step :: "lab_config \<Rightarrow> marker \<Rightarrow> lab_event list \<Rightarrow> lab_event \<Rightarrow> bool" where
  "restore_step c m prev e \<longleftrightarrow> (let action = mk_action m; x = mk_original m in case e of
       Did op i \<Rightarrow> (action = ''pause'' \<and> op = Unpause_Op \<or> action = ''stop'' \<and> op = Start_Op) \<and> i = co_id x
            \<and> (\<exists>y. seen c i (mk_service m) y prev)
         \<or> action = ''recreate'' \<and> op = Start_Op \<and> (\<exists>j y. seen c j ''redis'' y prev \<and> same_storage_image x y = Inr () \<and> i = co_id y)
         \<or> action = ''switch'' \<and> op = Stop_Op 4 \<and> (\<exists>y z. mk_spare_started m = Some y \<and> i = co_id y \<and> seen c i ''redis-spare'' z prev)
         \<or> is_netem action \<and> (op = Stop_Op 8 \<or> op = Remove_Op \<and> cleared m prev)
            \<and> (\<exists>row. seen_helper m row prev \<and> subscript row ''Id'' = Inr (PStr i))
     | Upped up \<Rightarrow> action = ''switch'' \<and> up = Up_Apps
     | Moded k \<Rightarrow> action = ''switch'' \<and> k = ''normal''
     | Unlinked \<Rightarrow> restored_state c m prev
     | _ \<Rightarrow> False)"

definition own_marker :: "lab_config \<Rightarrow> marker \<Rightarrow> lab_event list \<Rightarrow> bool" where
  "own_marker c m lg \<longleftrightarrow> Loaded m \<in> set lg \<and> fault_allowed (mk_action m) (mk_service m) \<and> mk_project m = lc_project c
     \<and> sim_run_text (mk_run m) \<and> local_engine lg \<and> (\<exists>v. Bound v \<in> set lg \<and> py_eq (PDict (mk_engine m)) (PDict v))"

definition restore_ok :: "lab_config \<Rightarrow> lab_event list \<Rightarrow> lab_event \<Rightarrow> bool" where
  "restore_ok c prev e \<longleftrightarrow> \<not> change e \<or> (\<exists>m. own_marker c m prev \<and> restore_step c m prev e)"

interpretation restoring: lab_client "restore_ok c" for c
  by unfold_locales (simp add: restore_ok_def)

lemma stable_own [intro!]: "stable (own_marker c m)" "stable (cleared m)"
  unfolding stable_def own_marker_def local_engine_def cleared_def by (simp_all, blast+)

lemmas own_rules = stable_intros stable_seen stable_own

lemma read_steps: "steps (restore_ok c) (\<lambda>_. True) (read_marker c (watched_lab d)) (own_marker c)"
  unfolding read_marker_def
proof (rule steps_bind [OF restoring.records(4)], simp add: stable_def, rule steps_if [OF steps_raise],
    rule steps_bind [OF restoring.binding_noted], intro stable_rules)
  fix m :: marker and v
  assume "\<not> \<not> fault_allowed (mk_action m) (mk_service m)"
  then show "steps (restore_ok c) (\<lambda>lg. (True \<and> Loaded m \<in> set lg) \<and> local_engine lg \<and> Bound v \<in> set lg)
     (if \<not> py_eq (PDict (mk_engine m)) (PDict v) \<or> mk_project m \<noteq> lc_project c \<or> \<not> sim_run_text (mk_run m)
      then raise_exn (Runtime_Error ''Recovery state belongs to a different run/engine/project'') else ret m) (own_marker c)"
    by (intro steps_if steps_raise steps_ret) (auto simp: own_marker_def)
qed (simp add: stable_def)

lemma own_step: "own_marker c m lg \<Longrightarrow> restore_step c m lg e \<Longrightarrow> restore_ok c lg e"
  unfolding restore_ok_def by blast

text \<open>Restoring a stopped or paused container.\<close>

lemma undo_container_steps:
  assumes m: "mk_action m = ''stop'' \<or> mk_action m = ''pause''"
  shows "steps (restore_ok c) (own_marker c m) (undo k c (watched_lab d) started m)
     (\<lambda>_ lg. own_marker c m lg \<and> restored_state c m lg)"
proof -
  let ?i = "co_id (mk_original m)" and ?s = "mk_service m" and ?d = "watched_lab d"
  let ?op = "\<lambda>y. if mk_action m = ''pause''
     then bind_eff (if co_paused y then bound c ?d (dk_do ?d Unpause_Op ?i) else ret ()) (\<lambda>_.
       if \<not> co_running y then raise_exn (Runtime_Error ''Paused container was stopped externally; automatic restart refused'') else ret ())
     else if \<not> co_running y then bound c ?d (dk_do ?d Start_Op ?i) else ret ()"
  let ?S = "\<lambda>lg. own_marker c m lg \<and> (\<exists>y. seen c ?i ?s y lg)"
  have p: "stable (own_marker c m)" and S: "stable ?S" by (intro own_rules)+
  have SL: "stable (\<lambda>lg. ?S lg \<and> local_engine lg)" by (intro own_rules)
  have once: "steps (restore_ok c) ?S (bound c ?d (dk_do ?d op ?i)) (\<lambda>_. ?S)"
    if "mk_action m = ''pause'' \<and> op = Unpause_Op \<or> mk_action m = ''stop'' \<and> op = Start_Op" for op
    by (rule restoring.bound_steps [OF S], rule steps_conseq [OF restoring.changes(1) [OF S own_step]], erule conjunct1)
       (use that in \<open>auto simp: restore_step_def Let_def\<close>)
  have op: "steps (restore_ok c) ?S (?op y) (\<lambda>_. ?S)" for y
    using m by (intro steps_if steps_bind [where Q = "\<lambda>_. ?S"] steps_raise steps_ret once) auto
  have run: "undo k c ?d started m = bind_eff (lab_inspect c ?d ?i ?s) (\<lambda>y. bind_eff (?op y) (\<lambda>_. bind_eff (lab_inspect c ?d ?i ?s) (\<lambda>z.
      if \<not> co_running z \<or> co_paused z then raise_exn (Runtime_Error ''Container process restoration not observed'') else ret None)))"
    using m by (auto simp: undo_def Let_def)
  show ?thesis unfolding run
  proof (rule steps_bind [OF steps_conseq [OF restoring.inspect_steps [OF p]]], assumption)
    show "own_marker c m lg \<and> local_engine lg \<and> seen c ?i ?s y lg \<Longrightarrow> ?S lg" for y lg by blast
    show "steps (restore_ok c) ?S (bind_eff (?op y) (\<lambda>_. bind_eff (lab_inspect c ?d ?i ?s) (\<lambda>z.
      if \<not> co_running z \<or> co_paused z then raise_exn (Runtime_Error ''Container process restoration not observed'') else ret None)))
      (\<lambda>_ lg. own_marker c m lg \<and> restored_state c m lg)" for y
      by (rule steps_bind [OF op], rule steps_bind [OF restoring.inspect_steps [OF S]], intro steps_if steps_raise steps_ret)
         (use m in \<open>auto simp: restored_state_def Let_def is_netem_def\<close>)
  qed
qed
lemma undo_recreate_steps:
  assumes m: "mk_action m = ''recreate''"
  shows "steps (restore_ok c) (own_marker c m) (undo k c (watched_lab d) started m)
     (\<lambda>_ lg. own_marker c m lg \<and> restored_state c m lg)"
proof -
  let ?d = "watched_lab d" and ?x = "mk_original m"
  let ?S = "\<lambda>y lg. own_marker c m lg \<and> (\<exists>j. seen c j ''redis'' y lg \<and> same_storage_image ?x y = Inr ())"
  have p: "stable (own_marker c m)" by (intro own_rules)
  have S: "stable (?S y)" for y by (cases "same_storage_image ?x y = Inr ()") (simp_all, intro own_rules, simp add: stable_def)
  have start: "steps (restore_ok c) (?S y) (bound c ?d (dk_do ?d Start_Op (co_id y))) (\<lambda>_. ?S y)" for y
    by (rule restoring.bound_steps [OF S], rule steps_conseq [OF restoring.changes(1) [OF S own_step]], erule conjunct1)
       (use m in \<open>auto simp: restore_step_def Let_def\<close>)
  have run: "undo k c ?d started m = bind_eff (lab_service c ?d ''redis'') (\<lambda>y. bind_eff (lift_res (same_storage_image ?x y)) (\<lambda>_.
      bind_eff (if \<not> co_running y then bound c ?d (dk_do ?d Start_Op (co_id y)) else ret ()) (\<lambda>_. ret None)))"
    by (simp add: undo_def Let_def m)
  have rest: "steps (restore_ok c) (\<lambda>lg. own_marker c m lg \<and> local_engine lg \<and> (\<exists>i. seen c i ''redis'' y lg))
     (bind_eff (lift_res (same_storage_image ?x y)) (\<lambda>_. bind_eff (if \<not> co_running y then bound c ?d (dk_do ?d Start_Op (co_id y)) else ret ())
       (\<lambda>_. ret None))) (\<lambda>_ lg. own_marker c m lg \<and> restored_state c m lg)" for y
  proof (rule steps_bind [OF steps_lift [where Q = "\<lambda>_. ?S y"]], force)
    show "steps (restore_ok c) (?S y) (bind_eff (if \<not> co_running y then bound c ?d (dk_do ?d Start_Op (co_id y)) else ret ()) (\<lambda>_. ret None))
       (\<lambda>_ lg. own_marker c m lg \<and> restored_state c m lg)"
      by (rule steps_bind [OF steps_if [OF start steps_ret]], assumption, rule steps_ret)
         (use m in \<open>auto simp: restored_state_def Let_def is_netem_def\<close>)
  qed
  show ?thesis unfolding run by (rule steps_bind [OF restoring.service_steps [OF p] rest])
qed

lemma undo_switch_steps:
  assumes m: "mk_action m = ''switch''"
  shows "steps (restore_ok c) (own_marker c m) (undo k c (watched_lab d) started m)
     (\<lambda>_ lg. own_marker c m lg \<and> restored_state c m lg)"
proof -
  let ?d = "watched_lab d" and ?O = "own_marker c m" and ?R = "\<lambda>_ lg. own_marker c m lg \<and> restored_state c m lg"
  let ?M = "\<lambda>lg. ?O lg \<and> Moded ''normal'' \<in> set lg" and ?A = "\<lambda>lg. ?O lg \<and> Moded ''normal'' \<in> set lg \<and> Upped Up_Apps \<in> set lg"
  have p: "stable ?O" "stable ?M" "stable ?A" by (intro own_rules)+
  have mlocal: "stable (\<lambda>lg. ?M lg \<and> local_engine lg)" by (intro own_rules)
  have final: "?A lg \<Longrightarrow> ?R a lg" for a :: "pdict list option" and lg
    using m by (simp add: restored_state_def Let_def is_netem_def)
  have mode: "steps (restore_ok c) ?O (dk_set_mode ?d ''normal'') (\<lambda>_. ?M)"
    by (rule restoring.changes_noted(2) [OF p(1) own_step], assumption) (simp add: restore_step_def Let_def m)
  have apps: "steps (restore_ok c) ?M (apps c ?d) (\<lambda>_. ?A)"
    unfolding apps_def by (rule restoring.bound_steps [OF p(2)],
      rule steps_conseq [OF restoring.changes_noted(1) [OF mlocal own_step]], blast)
      (auto simp: restore_step_def Let_def m)
  have spare: "steps (restore_ok c) ?A (bind_eff (lab_inspect c ?d (co_id y) ''redis-spare'') (\<lambda>_.
      bind_eff (bound c ?d (dk_do ?d (Stop_Op 4) (co_id y))) (\<lambda>_. ret None))) ?R" if y: "mk_spare_started m = Some y" for y
  proof (rule steps_bind [OF restoring.inspect_steps [OF p(3)]])
    fix z
    let ?Z = "\<lambda>lg. ?A lg \<and> local_engine lg \<and> seen c (co_id y) ''redis-spare'' z lg"
    have Z: "stable ?Z" "stable (\<lambda>lg. ?Z lg \<and> local_engine lg)" by (intro own_rules)+
    have stop: "steps (restore_ok c) ?Z (bound c ?d (dk_do ?d (Stop_Op 4) (co_id y))) (\<lambda>_. ?A)"
      by (rule restoring.bound_steps [OF Z(1)], rule steps_conseq [OF restoring.changes(1) [OF Z(2) own_step]], blast)
         (use m y in \<open>auto simp: restore_step_def Let_def\<close>)
    show "steps (restore_ok c) ?Z (bind_eff (bound c ?d (dk_do ?d (Stop_Op 4) (co_id y))) (\<lambda>_. ret None)) ?R"
      by (rule steps_bind [OF stop], rule steps_ret) (rule final)
  qed
  let ?last = "case mk_spare_started m of None \<Rightarrow> ret None
            | Some y \<Rightarrow> if (case mk_spare_before m of Some b \<Rightarrow> co_running b | None \<Rightarrow> False) then ret None
                else bind_eff (lab_inspect c ?d (co_id y) ''redis-spare'') (\<lambda>_.
                  bind_eff (bound c ?d (dk_do ?d (Stop_Op 4) (co_id y))) (\<lambda>_. ret None))"
  have finish: "steps (restore_ok c) ?A ?last ?R"
  proof (cases "mk_spare_started m")
    case (Some y)
    show ?thesis unfolding Some option.case(2) by (rule steps_if [OF steps_ret spare [OF Some]]) (rule final)
  qed (simp only: option.case(1), rule steps_ret, rule final)
  have run: "undo k c ?d started m = bind_eff (dk_mode ?d) (\<lambda>mode. if mode \<noteq> u ''normal'' \<and> mode \<noteq> u ''redis-spare''
          then raise_exn (Runtime_Error ''Experiment changed externally; restore refused'')
          else bind_eff (dk_set_mode ?d ''normal'') (\<lambda>_. bind_eff (apps c ?d) (\<lambda>_. ?last)))"
    by (simp add: undo_def Let_def m)
  show ?thesis unfolding run
    by (rule steps_bind [OF restoring.reads(4)], rule steps_if [OF steps_raise], rule steps_bind [OF mode], rule steps_bind [OF apps finish])
qed

lemma undo_lock_steps:
  assumes m: "mk_action m = ''row-lock''"
  shows "steps (restore_ok c) (own_marker c m) (undo k c (watched_lab d) started m)
     (\<lambda>_ lg. own_marker c m lg \<and> restored_state c m lg)"
proof -
  let ?d = "watched_lab d" and ?O = "own_marker c m" and ?R = "\<lambda>_ lg. own_marker c m lg \<and> restored_state c m lg"
  have p: "stable ?O" by (intro own_rules)
  let ?rel = "\<lambda>t. case mk_order m of None \<Rightarrow> raise_exn Key_Error
       | Some i \<Rightarrow> bind_eff (release_wait k ?d i (mk_run m) (t + 45)) (\<lambda>_. ret None)"
  have rel: "steps (restore_ok c) ?O (?rel t) ?R" for t
  proof (cases "mk_order m")
    case (Some i)
    show ?thesis unfolding Some option.case(2)
      by (rule steps_bind [OF restoring.release_steps [OF p]], rule steps_ret)
         (use m Some in \<open>simp add: restored_state_def Let_def is_netem_def\<close>)
  qed (simp only: option.case(1) steps_raise)
  have run: "undo k c ?d started m = bind_eff (if started then dk_join ?d else ret ()) (\<lambda>_. bind_eff (dk_clock ?d) ?rel)"
    by (simp add: undo_def Let_def m)
  show ?thesis unfolding run
    by (rule steps_bind [OF steps_if [OF restoring.reads(6) steps_ret]], assumption, rule steps_bind [OF restoring.reads(10) rel])
qed
lemma undo_netem_steps:
  assumes m: "is_netem (mk_action m)"
  shows "steps (restore_ok c) (own_marker c m) (undo k c (watched_lab d) started m)
     (\<lambda>_ lg. own_marker c m lg \<and> restored_state c m lg)"
proof -
  let ?d = "watched_lab d" and ?O = "own_marker c m" and ?R = "\<lambda>_ lg. own_marker c m lg \<and> restored_state c m lg"
  let ?H = "\<lambda>i lg. \<exists>row. seen_helper m row lg \<and> subscript row ''Id'' = Inr (PStr i)"
  let ?K = "\<lambda>i lg. ?O lg \<and> (case i of None \<Rightarrow> True | Some i \<Rightarrow> ?H i lg)"
  let ?C = "\<lambda>i lg. ?K i lg \<and> cleared m lg"
  have p: "stable ?O" by (intro own_rules)
  have H: "stable (?H i)" for i
    by (auto simp: stable_def seen_helper_def)
  have K: "stable (?K i)" for i using p H by (cases i) (auto simp: stable_def)
  have KL: "stable (\<lambda>lg. ?K i lg \<and> local_engine lg)" for i by (rule stable_intros(2) [OF K stable_seen(1)])
  have C: "stable (?C i)" for i by (rule stable_intros(2) [OF K stable_own(2)])
  have fin: "?C i lg \<Longrightarrow> ?R a lg" for i a lg
    using m by (auto simp: restored_state_def Let_def is_netem_def)
  let ?ids = "\<lambda>r. bind_res (running_row r) (\<lambda>b. case r of Some row \<Rightarrow> bind_res (subscript row ''Id'') (\<lambda>i. bind_res (as_text i) (\<lambda>i. Inr (b, Some i)))
       | None \<Rightarrow> Inr (False, None))"
  have ids: "(b \<longrightarrow> i \<noteq> None) \<and> (case i of None \<Rightarrow> True | Some j \<Rightarrow> \<exists>row. r = Some row \<and> subscript row ''Id'' = Inr (PStr j))"
    if "?ids r = Inr (b, i)" for r b i
    using that by (cases r) (auto simp: bind_res_Inr_iff as_text_Inr)
  have stop: "steps (restore_ok c) (?K i) (if b then bound c ?d (dk_do ?d (Stop_Op 8) (the i)) else ret ()) (\<lambda>_. ?K i)" if some: "b \<longrightarrow> i \<noteq> None" for b i
  proof (rule steps_if [OF _ steps_ret])
    assume b
    then obtain j where i: "i = Some j" using some by blast
    show "steps (restore_ok c) (?K i) (bound c ?d (dk_do ?d (Stop_Op 8) (the i))) (\<lambda>_. ?K i)"
      by (rule restoring.bound_steps [OF K], rule steps_conseq [OF restoring.changes(1) [OF K [of i] own_step]])
         (use m i in \<open>auto simp: restore_step_def Let_def\<close>)
  qed
  have remove: "steps (restore_ok c) (?C i) (case i of None \<Rightarrow> ret () | Some i \<Rightarrow> bind_eff (helper c ?d m) (\<lambda>_. bound c ?d (dk_do ?d Remove_Op i))) (\<lambda>_. ?C i)" for i
  proof (cases i)
    case (Some j)
    have "steps (restore_ok c) (?C i) (bound c ?d (dk_do ?d Remove_Op j)) (\<lambda>_. ?C i)"
      by (rule restoring.bound_steps [OF C], rule steps_conseq [OF restoring.changes(1) [OF C [of i] own_step]])
         (use m Some in \<open>auto simp: restore_step_def Let_def\<close>)
    then have r: "steps (restore_ok c) (\<lambda>lg. ?C i lg \<and> (\<forall>row. r = Some row \<longrightarrow> seen_helper m row lg)) (bound c ?d (dk_do ?d Remove_Op j)) (\<lambda>_. ?C i)" for r
      by (rule steps_conseq) (erule conjunct1, assumption)
    show ?thesis using steps_bind [OF restoring.helper_steps [OF C [of i]] r] unfolding Some option.case(2) by blast
  qed (simp only: option.case(1), rule steps_ret)
  let ?rest = "\<lambda>b i. bind_eff (if b then bound c ?d (dk_do ?d (Stop_Op 8) (the i)) else ret ()) (\<lambda>_. bind_eff (helper_logs c ?d m) (\<lambda>events.
     bind_eff (bound c ?d (dk_cleanup ?d m)) (\<lambda>vs. let cleanup = dict_events vs in
     if \<not> list_ex (in_stage ''netem_cleared'') cleanup then raise_exn (Runtime_Error ''Netem cleanup was not confirmed'')
     else bind_eff (case i of None \<Rightarrow> ret () | Some i \<Rightarrow> bind_eff (helper c ?d m) (\<lambda>_. bound c ?d (dk_do ?d Remove_Op i))) (\<lambda>_.
     ret (Some (filter (in_stage ''netem_cleared'') (events @ cleanup)))))))"
  have rest: "steps (restore_ok c) (?K i) (?rest b i) ?R" if "b \<longrightarrow> i \<noteq> None" for b i
  proof (rule steps_bind [OF stop [OF that]], rule steps_bind [OF restoring.logs_steps [OF K]],
      rule steps_bind [OF restoring.bound_steps [OF K restoring.records(5) [OF KL]]])
    fix events vs
    let ?cl = "dict_events vs"
    show "steps (restore_ok c) (\<lambda>lg. (?K i lg \<and> local_engine lg) \<and> Cleaned m ?cl \<in> set lg) (let cleanup = ?cl in
       if \<not> list_ex (in_stage ''netem_cleared'') cleanup then raise_exn (Runtime_Error ''Netem cleanup was not confirmed'')
       else bind_eff (case i of None \<Rightarrow> ret () | Some i \<Rightarrow> bind_eff (helper c ?d m) (\<lambda>_. bound c ?d (dk_do ?d Remove_Op i))) (\<lambda>_.
       ret (Some (filter (in_stage ''netem_cleared'') (events @ cleanup))))) ?R"
      unfolding Let_def
    proof (rule steps_if [OF steps_raise])
      assume "\<not> \<not> list_ex (in_stage ''netem_cleared'') ?cl"
      then have c: "(?K i lg \<and> local_engine lg) \<and> Cleaned m ?cl \<in> set lg \<Longrightarrow> ?C i lg" for lg unfolding cleared_def by blast
      show "steps (restore_ok c) (\<lambda>lg. (?K i lg \<and> local_engine lg) \<and> Cleaned m ?cl \<in> set lg)
         (bind_eff (case i of None \<Rightarrow> ret () | Some i \<Rightarrow> bind_eff (helper c ?d m) (\<lambda>_. bound c ?d (dk_do ?d Remove_Op i))) (\<lambda>_.
         ret (Some (filter (in_stage ''netem_cleared'') (events @ ?cl))))) ?R"
        by (rule steps_conseq [OF steps_bind [OF remove steps_ret] c]) (rule fin)
    qed
  qed
  let ?go = "\<lambda>r. bind_eff (lift_res (?ids r)) (\<lambda>(b, i). ?rest b i)"
  have go: "steps (restore_ok c) (\<lambda>lg. ?O lg \<and> (\<forall>row. r = Some row \<longrightarrow> seen_helper m row lg)) (?go r) ?R" for r
  proof (rule steps_bind [OF steps_lift [where Q = "\<lambda>a lg. ?K (snd a) lg \<and> (fst a \<longrightarrow> snd a \<noteq> None)"]])
    fix a lg
    assume "?ids r = Inr a" and o: "?O lg \<and> (\<forall>row. r = Some row \<longrightarrow> seen_helper m row lg)"
    then have "(fst a \<longrightarrow> snd a \<noteq> None) \<and> (case snd a of None \<Rightarrow> True | Some j \<Rightarrow> \<exists>row. r = Some row \<and> subscript row ''Id'' = Inr (PStr j))"
      using ids [of r "fst a" "snd a"] by simp
    then show "?K (snd a) lg \<and> (fst a \<longrightarrow> snd a \<noteq> None)" using o by (auto split: option.splits)
  next
    fix a
    show "steps (restore_ok c) (\<lambda>lg. ?K (snd a) lg \<and> (fst a \<longrightarrow> snd a \<noteq> None)) (case a of (b, i) \<Rightarrow> ?rest b i) ?R"
      by (rule steps_fact) (use rest in \<open>simp add: split_def\<close>)
  qed
  have drop: "steps (restore_ok c) ?O (lab_inspect c ?d (co_id (mk_original m)) (mk_service m)) (\<lambda>_. ?O)"
    by (rule steps_conseq [OF restoring.inspect_steps [OF p]], assumption, erule conjunct1)
  have run: "undo k c ?d started m = netem_restore c ?d m" using m by (simp add: undo_def is_netem_def)
  show ?thesis unfolding run netem_restore_def
  proof (rule steps_if)
    assume "mk_helper_name m = None"
    then show "steps (restore_ok c) ?O (ret None) ?R"
      using m by (intro steps_ret) (auto simp: restored_state_def Let_def is_netem_def)
  next
    show "steps (restore_ok c) ?O (bind_eff (lab_inspect c ?d (co_id (mk_original m)) (mk_service m)) (\<lambda>_.
       bind_eff (check_target c ?d (mk_original m)) (\<lambda>_. bind_eff (helper c ?d m) ?go))) ?R"
      by (rule steps_bind [OF drop], rule steps_bind [OF restoring.target_steps [OF p]], rule steps_bind [OF restoring.helper_steps [OF p] go])
  qed
qed

lemma restore_steps: "steps (restore_ok c) (\<lambda>_. True) (restore_fault k c (watched_lab d) started) (\<lambda>_ _. True)"
proof -
  let ?d = "watched_lab d"
  have undo: "steps (restore_ok c) (own_marker c m) (undo k c ?d started m) (\<lambda>_ lg. own_marker c m lg \<and> restored_state c m lg)"
    if allowed: "fault_allowed (mk_action m) (mk_service m)" for m
  proof -
    consider "is_netem (mk_action m)" | "mk_action m = ''stop'' \<or> mk_action m = ''pause''" | "mk_action m = ''recreate''"
      | "mk_action m = ''switch''" | "mk_action m = ''row-lock''"
      using allowed by (auto simp: fault_allowed_def allowed_faults_def is_netem_def split: if_splits)
    then show ?thesis
      by cases (rule undo_netem_steps undo_container_steps undo_recreate_steps undo_switch_steps undo_lock_steps; assumption)+
  qed
  have unlink: "steps (restore_ok c) (\<lambda>lg. own_marker c m lg \<and> restored_state c m lg) (bind_eff (dk_unlink ?d) (\<lambda>_.
      ret \<lparr>rs_action = mk_action m, rs_service = Some (mk_service m), rs_netem = net\<rparr>)) (\<lambda>_ _. True)" for m net
  proof (rule steps_bind)
    show "steps (restore_ok c) (\<lambda>lg. own_marker c m lg \<and> restored_state c m lg) (dk_unlink ?d) (\<lambda>_ _. True)"
      unfolding watched_lab_def by (auto intro!: steps_recording own_step simp: restore_step_def Let_def)
  qed auto
  have body: "steps (restore_ok c) (own_marker c m) (bind_eff (undo k c ?d started m) (\<lambda>net. bind_eff (dk_unlink ?d) (\<lambda>_.
      ret \<lparr>rs_action = mk_action m, rs_service = Some (mk_service m), rs_netem = net\<rparr>))) (\<lambda>_ _. True)" for m
  proof (rule steps_conseq [OF steps_fact [where P = "own_marker c m"]])
    assume "fault_allowed (mk_action m) (mk_service m)"
    then show "steps (restore_ok c) (own_marker c m) (bind_eff (undo k c ?d started m) (\<lambda>net. bind_eff (dk_unlink ?d) (\<lambda>_.
      ret \<lparr>rs_action = mk_action m, rs_service = Some (mk_service m), rs_netem = net\<rparr>))) (\<lambda>_ _. True)"
      by (rule steps_bind [OF undo unlink])
  qed (simp_all add: own_marker_def)
  show ?thesis unfolding restore_fault_def
    by (rule steps_bind [OF restoring.reads(3)], rule steps_if [OF steps_ret], simp, rule steps_bind [OF read_steps body])
qed

section \<open>A run\<close>

text \<open>A lab with the one container of redis, whose state is whether it runs and the marker.\<close>

definition toy_id :: ustr where "toy_id = replicate 12 97"

definition toy_run :: ustr where "toy_run = u ''sim-'' @ replicate 12 97"

definition toy_config :: lab_config where
  "toy_config = \<lparr>lc_command = [u ''docker''], lc_project = u ''db-lab-mvp'', lc_port = u ''8080''\<rparr>"

definition toy_row :: "bool \<Rightarrow> pv" where
  "toy_row running = PDict [(u ''Id'', PStr toy_id), (u ''Image'', PStr (u ''sha256:1'')),
     (u ''Config'', PDict [(u ''Image'', PStr (u ''redis:7'')), (u ''Labels'', PDict [(u ''com.docker.compose.project'', PStr (u ''db-lab-mvp'')),
        (u ''com.docker.compose.service'', PStr (u ''redis''))])]),
     (u ''State'', PDict [(u ''Running'', PBool running)])]"

definition toy_container :: "bool \<Rightarrow> container" where
  "toy_container running = \<lparr>co_id = toy_id, co_service = ''redis'', co_image = PStr (u ''sha256:1''), co_reference = PStr (u ''redis:7''),
     co_running = running, co_paused = False, co_health = PNone, co_oom = False, co_restarts = PInt 0, co_ports = PDict [], co_volumes = []\<rparr>"

definition toy_engine_id :: pdict where "toy_engine_id = [(u ''local_docker'', PBool True)]"

definition toy_lab :: "(bool \<times> marker option) docker_lab" where
  "toy_lab = \<lparr>dk_target = ret (), dk_engine = ret toy_engine_id, dk_identity = ret (), dk_exists = (\<lambda>n s. (Inr (snd s \<noteq> None), s)),
     dk_mode = ret (u ''normal''), dk_set_mode = (\<lambda>_. ret ()),
     dk_load = (\<lambda>s. (case snd s of None \<Rightarrow> Inl (Other_Error ''FileNotFoundError'') | Some m \<Rightarrow> Inr m, s)),
     dk_save = (\<lambda>m (r, _). (Inr (), r, Some m)), dk_unlink = (\<lambda>(r, _). (Inr (), r, None)), dk_ps = (\<lambda>_. ret [toy_id]),
     dk_inspect = (\<lambda>i s. (Inr [toy_row (fst s)], s)), dk_do = (\<lambda>p i (r, m). (Inr (), p = Start_Op, m)), dk_up = (\<lambda>_. ret ()),
     dk_lock = (\<lambda>_ _ _. ret None), dk_join = ret (), dk_release = (\<lambda>_ _. ret False), dk_image = (\<lambda>_. ret []), dk_named = (\<lambda>_. ret []),
     dk_create = (\<lambda>_ _. ret []), dk_logs = (\<lambda>_. ret []), dk_cleanup = (\<lambda>_. ret []), dk_clock = ret 0\<rparr>"

lemma toy_row_simps: "owned_by toy_config ''redis'' (toy_row r) = Inr True" "container_of ''redis'' (toy_row r) = Inr (toy_container r)"
  by (simp_all add: owned_by_def nested_def subscript_def toy_row_def toy_config_def py_get_dict_def py_get_def container_of_def as_text_def
      toy_container_def get_or_def dget_or_def mounts_of_def)

lemma toy_binding: "lab_binding toy_config (watched_lab toy_lab) (s, lg) = (Inr toy_engine_id, s, lg @ [Bound toy_engine_id])"
  by (simp add: lab_binding_def bind_eff_def watched_lab_def toy_lab_def recording_def once_def toy_config_def toy_engine_id_def)

lemma toy_bound: "bound toy_config (watched_lab toy_lab) m (s, lg) = m (s, lg @ [Bound toy_engine_id])"
  by (simp add: bound_def bind_eff_def toy_binding)

lemma toy_inspect: "lab_inspect toy_config (watched_lab toy_lab) toy_id ''redis'' ((r, m), lg) =
   (Inr (toy_container r), (r, m), lg @ [Bound toy_engine_id, Saw toy_id [toy_row r]])"
proof -
  have i: "class_match is_hex_lower 12 64 toy_id" by (simp add: class_match_def toy_id_def is_hex_lower_def list_all_iff)
  have "dk_inspect (watched_lab toy_lab) toy_id ((r, m), lg) = (Inr [toy_row r], (r, m), lg @ [Saw toy_id [toy_row r]])" for lg
    by (simp add: watched_lab_def toy_lab_def recording_def once_def)
  then show ?thesis by (simp add: lab_inspect_def i bind_eff_def toy_bound toy_row_simps lift_res_def)
qed

lemma toy_service: "lab_service toy_config (watched_lab toy_lab) ''redis'' ((r, m), lg) =
   (Inr (toy_container r), (r, m), lg @ [Bound toy_engine_id, Bound toy_engine_id, Saw toy_id [toy_row r]])"
proof -
  have "dk_ps (watched_lab toy_lab) n (s, lg) = (Inr [toy_id], s, lg)" for n s lg
    by (simp add: watched_lab_def toy_lab_def recording_def)
  then show ?thesis by (simp add: lab_service_def find_service_def bind_eff_def toy_bound toy_inspect)
qed

lemma toy_ops:
  "dk_exists (watched_lab toy_lab) n ((r, m), lg) = (Inr (m \<noteq> None), (r, m), lg)"
  "dk_save (watched_lab toy_lab) m' ((r, m), lg) = (Inr (), (r, Some m'), lg @ [Saved m'])"
  "dk_load (watched_lab toy_lab) ((r, Some m'), lg) = (Inr m', (r, Some m'), lg @ [Loaded m'])"
  "dk_do (watched_lab toy_lab) p i ((r, m), lg) = (Inr (), (p = Start_Op, m), lg @ [Did p i])"
  "dk_unlink (watched_lab toy_lab) ((r, m), lg) = (Inr (), (r, None), lg @ [Unlinked])"
  by (simp_all add: watched_lab_def toy_lab_def recording_def once_def)

definition toy_marker :: marker where
  "toy_marker = new_marker toy_config toy_engine_id ''stop'' ''redis'' toy_run (toy_container True)"

lemma toy_arguments: "fault_arguments ''stop'' ''redis'' toy_run 5 None = Inr ()" "sim_run_text toy_run" "fault_allowed ''stop'' ''redis''"
proof -
  show r: "sim_run_text toy_run"
    by (simp add: sim_run_text_def toy_run_def class_match_def is_hex_lower_def list_all_iff)
  show a: "fault_allowed ''stop'' ''redis''" by (simp add: fault_allowed_def allowed_faults_def)
  show "fault_arguments ''stop'' ''redis'' toy_run 5 None = Inr ()" using r a by (simp add: fault_arguments_def)
qed

lemma toy_simps: "co_running (toy_container r) = r" "\<not> co_paused (toy_container r)" "co_id (toy_container r) = toy_id"
  by (simp_all add: toy_container_def)

lemma toy_apply: "snd (snd (apply_fault 0 toy_config (watched_lab toy_lab) ''stop'' ''redis'' toy_run 5 None ((True, None), []))) =
   [Bound toy_engine_id, Bound toy_engine_id, Saw toy_id [toy_row True], Bound toy_engine_id, Saved toy_marker, Bound toy_engine_id]
   @ Did (Stop_Op 4) toy_id # [Bound toy_engine_id, Saw toy_id [toy_row False],
     Saved (toy_marker\<lparr>mk_fault_state := Some (toy_container False), mk_status := ''applied''\<rparr>)]"
  by (simp add: apply_fault_def bind_eff_def toy_arguments lift_res_def toy_ops toy_service toy_simps toy_binding perform_def Let_def
      toy_bound toy_inspect new_marker_def toy_marker_def)

theorem fault_recorded_first_witness:
  "fault_ok toy_config ''stop'' ''redis'' toy_run 5 None
     [Bound toy_engine_id, Bound toy_engine_id, Saw toy_id [toy_row True], Bound toy_engine_id, Saved toy_marker, Bound toy_engine_id]
     (Did (Stop_Op 4) toy_id)"
  by (rule fault_recorded_first [OF toy_apply])

lemma toy_restore: "snd (snd (restore_fault 0 toy_config (watched_lab toy_lab) False ((False, Some toy_marker), []))) =
   [Loaded toy_marker, Bound toy_engine_id, Bound toy_engine_id, Saw toy_id [toy_row False], Bound toy_engine_id, Did Start_Op toy_id,
    Bound toy_engine_id, Saw toy_id [toy_row True]] @ Unlinked # []"
proof -
  have m: "mk_action toy_marker = ''stop''" "mk_service toy_marker = ''redis''" "mk_engine toy_marker = toy_engine_id"
    "mk_project toy_marker = lc_project toy_config" "mk_run toy_marker = toy_run" "mk_original toy_marker = toy_container True"
    by (simp_all add: toy_marker_def new_marker_def)
  have e: "py_eq (PDict toy_engine_id) (PDict toy_engine_id)" by (simp add: toy_engine_id_def leaf_eq_def number_of_value_def)
  show ?thesis
    by (simp add: restore_fault_def bind_eff_def toy_ops read_marker_def m toy_arguments e toy_binding undo_def Let_def toy_inspect toy_simps toy_bound
      del: py_eq.simps)
qed


end
