(* ===== verification/Snapshot.thy ===== *)
theory Snapshot
  imports Order_Store Message_Safety "HOL-Library.Multiset"
begin

text \<open>
  \<open>mvp-lab/mvp_app/snapshot.py\<close>: the logical snapshot of the two tables of the order store and its restore into an
  empty disposable database. \<open>sha\<close> and \<open>size\<close> are the digest and the length of \<open>canonical(value)\<close>, \<open>dumps\<close> is the text of
  an event in the \<open>payload\<close> column and \<open>loads\<close> reads it. The store is the one of \<open>Order_Store\<close> with the columns only the
  snapshot reads: the times of the outbox rows as \<open>strftime\<close> prints them, and the engines of the tables.
\<close>

section \<open>The store\<close>

record shop =
  sh_db :: db
  sh_times :: "nat \<Rightarrow> ustr \<times> ustr option"
  sh_engines :: "(ustr \<times> ustr) list"

definition max_rows :: nat where "max_rows = 5000"

definition max_bytes :: nat where "max_bytes = 16 * 1024 * 1024"

definition order_columns :: "string list" where
  "order_columns = [''id'', ''idempotency_key'', ''item'', ''quantity'', ''unit_price'', ''total'', ''status'', ''version'', ''created_at'']"

definition outbox_columns :: "string list" where
  "outbox_columns = [''seq'', ''event_id'', ''payload'', ''created_at'', ''sent_at'']"

text \<open>The rows the two \<open>SELECT\<close> statements return.\<close>

definition order_dict :: "order_row \<Rightarrow> pdict" where
  "order_dict r = [(u ''id'', PStr (o_id r)), (u ''idempotency_key'', PStr (r_key r)), (u ''item'', PStr (o_item r)),
     (u ''quantity'', PInt (o_quantity r)), (u ''unit_price'', PInt (o_unit_price r)), (u ''total'', PInt (o_total r)),
     (u ''status'', PStr (o_status r)), (u ''version'', PInt (o_version r)), (u ''created_at'', PStr (o_created_at r))]"

definition outbox_dict :: "(pv \<Rightarrow> ustr) \<Rightarrow> (nat \<Rightarrow> ustr \<times> ustr option) \<Rightarrow> outbox_row \<Rightarrow> pdict" where
  "outbox_dict dumps stamps r = [(u ''seq'', PInt (int (x_seq r))), (u ''event_id'', PStr (x_event_id r)),
     (u ''payload'', PStr (dumps (x_payload r))), (u ''created_at'', PStr (fst (stamps (x_seq r)))),
     (u ''sent_at'', (case snd (stamps (x_seq r)) of None \<Rightarrow> PNone | Some t \<Rightarrow> PStr t))]"

definition select_orders :: "shop \<Rightarrow> pdict list" where
  "select_orders s = take (max_rows + 1) (map order_dict (sort_key o_id (d_orders (sh_db s))))"

definition select_outbox :: "(pv \<Rightarrow> ustr) \<Rightarrow> shop \<Rightarrow> pdict list" where
  "select_outbox dumps s = take (max_rows + 1) (map (outbox_dict dumps (sh_times s)) (sort_key x_seq (d_outbox (sh_db s))))"

definition payload_bytes :: "(pv \<Rightarrow> ustr) \<Rightarrow> shop \<Rightarrow> nat" where
  "payload_bytes dumps s = sum_list (map (\<lambda>r. length (utf8 (dumps (x_payload r)))) (d_outbox (sh_db s)))"

section \<open>Sealing and checking\<close>

definition seal :: "(pv \<Rightarrow> ustr) \<Rightarrow> (pv \<Rightarrow> nat) \<Rightarrow> pv \<Rightarrow> pv \<Rightarrow> pdict res" where
  "seal sha size_of tables version = (let body = [(u ''format'', PStr (u ''db-lab-app-snapshot-v1'')), (u ''tables'', tables)] in
     bind_res (canonical_text (PDict body)) (\<lambda>raw.
     if max_bytes < size_of raw then Inl (Value_Error ''Snapshot exceeds the 16MiB study limit'')
     else let result = body @ [(u ''sha256'', PStr (sha raw)), (u ''server_version'', version)] in
       bind_res (canonical_text (PDict result)) (\<lambda>out.
       if max_bytes < size_of out then Inl (Value_Error ''Snapshot exceeds the 16MiB input/output limit'') else Inr result)))"

definition scalar :: "pv \<Rightarrow> bool" where
  "scalar v \<longleftrightarrow> (case v of PStr _ \<Rightarrow> True | PInt _ \<Rightarrow> True | PNone \<Rightarrow> True | _ \<Rightarrow> False)"

definition exact_keys :: "string list \<Rightarrow> pdict \<Rightarrow> bool" where
  "exact_keys ks d \<longleftrightarrow> list_all (\<lambda>k. u k \<in> set (map fst d)) ks \<and> list_all (\<lambda>(k, _). k \<in> set (map u ks)) d"

fun check_rows :: "string list \<Rightarrow> string \<Rightarrow> pv list \<Rightarrow> pv list \<Rightarrow> unit res" where
  "check_rows cols key seen [] = Inr ()"
| "check_rows cols key seen (row # rows) = (case row of
       PDict d \<Rightarrow> if \<not> exact_keys cols d then Inl (Value_Error ''Unexpected row columns'')
         else if \<not> list_all (\<lambda>(_, v). scalar v) d then Inl (Value_Error ''Only scalar snapshot values are accepted'')
         else if dget d key \<in> set seen then Inl (Value_Error ''Duplicate snapshot primary key'')
         else check_rows cols key (dget d key # seen) rows
     | _ \<Rightarrow> Inl (Value_Error ''Unexpected row columns''))"

definition check_table :: "pdict \<Rightarrow> string \<Rightarrow> string list \<Rightarrow> string \<Rightarrow> unit res" where
  "check_table tables name cols key = (case dget tables name of
       PList rows \<Rightarrow> if max_rows < length rows then Inl (Value_Error ''Snapshot row limit exceeded'') else check_rows cols key [] rows
     | _ \<Rightarrow> Inl (Value_Error ''Snapshot row limit exceeded''))"

definition validate_snapshot :: "(pv \<Rightarrow> ustr) \<Rightarrow> (pv \<Rightarrow> nat) \<Rightarrow> pv \<Rightarrow> pdict res" where
  "validate_snapshot sha size_of value = (case value of
       PDict d \<Rightarrow> if \<not> exact_keys [''format'', ''tables'', ''sha256'', ''server_version''] d then Inl (Value_Error ''Unexpected snapshot structure'')
         else (case dget d ''tables'' of
             PDict tables \<Rightarrow> if dget d ''format'' \<noteq> PStr (u ''db-lab-app-snapshot-v1'') \<or> \<not> exact_keys [''orders'', ''outbox''] tables
               then Inl (Value_Error ''Unsupported application snapshot schema'')
               else bind_res (check_table tables ''orders'' order_columns ''id'') (\<lambda>_.
                    bind_res (check_table tables ''outbox'' outbox_columns ''seq'') (\<lambda>_.
                    bind_res (seal sha size_of (PDict tables) (dget d ''server_version'')) (\<lambda>expected.
                    if dget d ''sha256'' \<noteq> dget expected ''sha256'' then Inl (Value_Error ''Snapshot checksum mismatch; restore refused'')
                    else Inr d)))
           | _ \<Rightarrow> Inl (Value_Error ''Unsupported application snapshot schema''))
     | _ \<Rightarrow> Inl (Value_Error ''Unexpected snapshot structure''))"

text \<open>One consistent view of the store.\<close>

definition study_tables :: "(ustr \<times> ustr) list" where
  "study_tables = [(u ''orders'', u ''InnoDB''), (u ''outbox'', u ''InnoDB'')]"

definition export_snapshot :: "(pv \<Rightarrow> ustr) \<Rightarrow> (pv \<Rightarrow> nat) \<Rightarrow> (pv \<Rightarrow> ustr) \<Rightarrow> pv \<Rightarrow> shop \<Rightarrow> pdict res" where
  "export_snapshot sha size_of dumps version s =
     (if set (sh_engines s) \<noteq> set study_tables
      then Inl (Value_Error ''Expected exactly orders/outbox InnoDB tables; no partial backup implied'')
      else if max_rows < length (d_outbox (sh_db s)) \<or> max_bytes div 4 < payload_bytes dumps s
      then Inl (Value_Error ''Snapshot outbox row/text budget exceeded'')
      else if max_rows < length (select_orders s) \<or> max_rows < length (select_outbox dumps s)
      then Inl (Value_Error ''Snapshot row limit exceeded'')
      else bind_res (seal sha size_of (PDict [(u ''orders'', PList (map PDict (select_orders s))),
             (u ''outbox'', PList (map PDict (select_outbox dumps s)))]) version) (\<lambda>result.
        validate_snapshot sha size_of (PDict result)))"

section \<open>Restoring\<close>

record target =
  tg_token :: ustr
  tg_host :: ustr
  tg_database :: ustr
  tg_user :: ustr

definition disposable :: "target \<Rightarrow> unit res" where
  "disposable t = (if \<not> (starts_with (u ''drill-'') (tg_token t) \<and> class_match is_hex_lower 12 12 (drop 6 (tg_token t)))
       \<or> tg_host t \<noteq> u ''127.0.0.1'' \<or> tg_database t \<noteq> u ''mvp'' \<or> tg_user t \<noteq> u ''mvp''
     then Inl (Value_Error ''Restore is restricted to an isolated disposable loopback database'') else Inr ())"

text \<open>\<open>CREATE TABLE IF NOT EXISTS\<close> of the two tables.\<close>

definition initialize :: "shop \<Rightarrow> shop" where
  "initialize s = s\<lparr>sh_engines := sh_engines s @ filter (\<lambda>(t, _). t \<notin> set (map fst (sh_engines s))) study_tables\<rparr>"

text \<open>A value of the column's type; the server refuses another with error 1366.\<close>

definition text_cell :: "pdict \<Rightarrow> string \<Rightarrow> ustr res" where
  "text_cell d k = (case dget d k of PStr s \<Rightarrow> Inr s | _ \<Rightarrow> Inl (Sql_Error 1366))"

definition int_cell :: "pdict \<Rightarrow> string \<Rightarrow> int res" where
  "int_cell d k = (case dget d k of PInt n \<Rightarrow> Inr n | _ \<Rightarrow> Inl (Sql_Error 1366))"

definition insert_order_dict :: "pdict \<Rightarrow> shop \<Rightarrow> shop res" where
  "insert_order_dict d s = bind_res (text_cell d ''id'') (\<lambda>i. bind_res (text_cell d ''idempotency_key'') (\<lambda>key.
     bind_res (text_cell d ''item'') (\<lambda>item. bind_res (int_cell d ''quantity'') (\<lambda>q. bind_res (int_cell d ''unit_price'') (\<lambda>p.
     bind_res (int_cell d ''total'') (\<lambda>total. bind_res (text_cell d ''status'') (\<lambda>st. bind_res (int_cell d ''version'') (\<lambda>v.
     bind_res (text_cell d ''created_at'') (\<lambda>made.
     bind_res (insert_order \<lparr>o_id = i, o_item = item, o_quantity = q, o_unit_price = p, o_total = total, o_status = st, o_version = v,
       o_created_at = made, r_key = key\<rparr> (sh_db s)) (\<lambda>db. Inr (s\<lparr>sh_db := db\<rparr>)))))))))))"

definition insert_outbox_dict :: "(ustr \<Rightarrow> pv) \<Rightarrow> pdict \<Rightarrow> shop \<Rightarrow> shop res" where
  "insert_outbox_dict loads d s = bind_res (int_cell d ''seq'') (\<lambda>n. bind_res (text_cell d ''event_id'') (\<lambda>ev.
     bind_res (text_cell d ''payload'') (\<lambda>t. bind_res (text_cell d ''created_at'') (\<lambda>made.
     bind_res (case dget d ''sent_at'' of PNone \<Rightarrow> Inr None | PStr x \<Rightarrow> Inr (Some x) | _ \<Rightarrow> Inl (Sql_Error 1366)) (\<lambda>sent.
     let db = sh_db s; seq = nat n in
     if seq \<in> x_seq ` set (d_outbox db) \<or> ev \<in> x_event_id ` set (d_outbox db) then Inl (Sql_Error 1062)
     else Inr (s\<lparr>sh_db := db\<lparr>d_outbox := d_outbox db @ [\<lparr>x_seq = seq, x_event_id = ev, x_payload = loads t, x_sent = (sent \<noteq> None)\<rparr>],
         d_seq := max (d_seq db) (seq + 1)\<rparr>, sh_times := (sh_times s)(seq := (made, sent))\<rparr>))))))"

fun insert_all :: "(pdict \<Rightarrow> shop \<Rightarrow> shop res) \<Rightarrow> pv list \<Rightarrow> shop \<Rightarrow> shop res" where
  "insert_all ins [] s = Inr s"
| "insert_all ins (row # rows) s = (case row of PDict d \<Rightarrow> bind_res (ins d s) (insert_all ins rows) | _ \<Rightarrow> Inl Type_Error)"

definition rows_of :: "pdict \<Rightarrow> string \<Rightarrow> pv list" where
  "rows_of snap name = (case dget snap ''tables'' of PDict ts \<Rightarrow> (case dget ts name of PList rows \<Rightarrow> rows | _ \<Rightarrow> []) | _ \<Rightarrow> [])"

text \<open>The fresh identifiers and times the calls of the canary draw.\<close>

record canary =
  cn_id :: ustr
  cn_event :: ustr
  cn_time :: ustr
  cn_retry :: "ustr \<times> ustr \<times> ustr"
  cn_update :: ustr

definition canary_key :: "target \<Rightarrow> ustr" where
  "canary_key t = tg_token t @ u ''-restore-canary''"

definition on_db :: "(db \<Rightarrow> 'a res \<times> db) \<Rightarrow> ('a, shop) eff" where
  "on_db f s = (case f (sh_db s) of (r, d) \<Rightarrow> (r, s\<lparr>sh_db := d\<rparr>))"

definition create_once :: "ustr \<Rightarrow> ustr \<Rightarrow> ustr \<Rightarrow> new_data \<Rightarrow> ustr \<Rightarrow> (order_data \<times> bool, shop) eff" where
  "create_once i ev now data key = on_db (\<lambda>d. sql_create d id Commit_ok Commit_ok i ev now data key d)"

definition run_canary :: "target \<Rightarrow> canary \<Rightarrow> (bool, shop) eff" where
  "run_canary t c = (let key = canary_key t; data = \<lparr>n_item = key, n_quantity = 2, n_unit_price = 13\<rparr> in
     bind_eff (create_once (cn_id c) (cn_event c) (cn_time c) data key) (\<lambda>(order, created).
     bind_eff (case cn_retry c of (i, ev, now) \<Rightarrow> create_once i ev now data key) (\<lambda>(repeated, again).
     bind_eff (on_db (sql_update Commit_ok (cn_update c) (o_id order)
         (PDict [(u ''status'', PStr (u ''paid'')), (u ''expected_version'', PInt (o_version order))]))) (\<lambda>changed s.
       (Inr (created \<and> \<not> again \<and> repeated = order \<and> o_status changed = u ''paid'' \<and> o_version changed = o_version order + 1
          \<and> sql_get (o_id order) (sh_db s) = Some changed), s)))))"

record restore_report =
  rr_matched :: bool
  rr_canary :: bool
  rr_source :: pv
  rr_restored :: pv
  rr_orders :: nat
  rr_outbox :: nat

definition restore_snapshot ::
  "(pv \<Rightarrow> ustr) \<Rightarrow> (pv \<Rightarrow> nat) \<Rightarrow> (pv \<Rightarrow> ustr) \<Rightarrow> (ustr \<Rightarrow> pv) \<Rightarrow> pv \<Rightarrow> target \<Rightarrow> canary \<Rightarrow> pv \<Rightarrow> (restore_report, shop) eff" where
  "restore_snapshot sha size_of dumps loads version t c snapshot =
     bind_eff (lift_res (disposable t)) (\<lambda>_.
     bind_eff (lift_res (validate_snapshot sha size_of snapshot)) (\<lambda>snap.
     bind_eff (\<lambda>s. if sh_engines s \<noteq> []
       then (Inl (Value_Error ''Restore requires an EMPTY disposable schema; no overwrite/retry on partial restore''), s) else (Inr (), initialize s)) (\<lambda>_.
     bind_eff (\<lambda>s. case bind_res (insert_all insert_order_dict (rows_of snap ''orders'') s)
           (insert_all (insert_outbox_dict loads) (rows_of snap ''outbox'')) of Inl e \<Rightarrow> (Inl e, s) | Inr s' \<Rightarrow> (Inr (), s')) (\<lambda>_.
     bind_eff (\<lambda>s. (export_snapshot sha size_of dumps version s, s)) (\<lambda>restored.
     let match = (dget restored ''sha256'' = dget snap ''sha256'') in
     bind_eff (if match then run_canary t c else ret False) (\<lambda>ok.
     ret \<lparr>rr_matched = match, rr_canary = ok, rr_source = dget snap ''sha256'', rr_restored = dget restored ''sha256'',
       rr_orders = length (rows_of restored ''orders''), rr_outbox = length (rows_of restored ''outbox'')\<rparr>))))))"
section \<open>Rows survive the round trip\<close>

lemma insert_order_dict_row:
  "insert_order_dict (order_dict r) s = bind_res (insert_order r (sh_db s)) (\<lambda>db. Inr (s\<lparr>sh_db := db\<rparr>))"
  by (cases r) (simp add: insert_order_dict_def order_dict_def text_cell_def int_cell_def)

lemma insert_orders:
  "distinct (map o_id (d_orders (sh_db s) @ rs)) \<Longrightarrow> distinct (map r_key (d_orders (sh_db s) @ rs)) \<Longrightarrow>
   insert_all insert_order_dict (map (\<lambda>r. PDict (order_dict r)) rs) s
     = Inr (s\<lparr>sh_db := (sh_db s)\<lparr>d_orders := d_orders (sh_db s) @ rs\<rparr>\<rparr>)"
proof (induction rs arbitrary: s)
  case (Cons r rs)
  let ?s = "s\<lparr>sh_db := (sh_db s)\<lparr>d_orders := d_orders (sh_db s) @ [r]\<rparr>\<rparr>"
  have "insert_order_dict (order_dict r) s = Inr ?s"
    using Cons.prems by (auto simp: insert_order_dict_row insert_order_def) (metis imageI)+
  moreover have "insert_all insert_order_dict (map (\<lambda>r. PDict (order_dict r)) rs) ?s
      = Inr (?s\<lparr>sh_db := (sh_db ?s)\<lparr>d_orders := d_orders (sh_db ?s) @ rs\<rparr>\<rparr>)"
    using Cons.prems by (intro Cons.IH) auto
  ultimately show ?case by simp
qed simp

text \<open>The times an outbox row is inserted with.\<close>

lemma insert_outbox_dict_row:
  assumes "x_seq r \<notin> x_seq ` set (d_outbox (sh_db s))" "x_event_id r \<notin> x_event_id ` set (d_outbox (sh_db s))"
    and "loads (dumps (x_payload r)) = x_payload r" "x_sent r \<longleftrightarrow> snd (stamps (x_seq r)) \<noteq> None"
  shows "insert_outbox_dict loads (outbox_dict dumps stamps r) s = Inr (s\<lparr>sh_db := (sh_db s)\<lparr>d_outbox := d_outbox (sh_db s) @ [r],
     d_seq := max (d_seq (sh_db s)) (x_seq r + 1)\<rparr>, sh_times := (sh_times s)(x_seq r := stamps (x_seq r))\<rparr>)"
proof -
  have sent: "(case dget (outbox_dict dumps stamps r) ''sent_at'' of PNone \<Rightarrow> Inr None | PStr x \<Rightarrow> Inr (Some x) | _ \<Rightarrow> Inl (Sql_Error 1366))
      = (Inr (snd (stamps (x_seq r))) :: ustr option res)"
    by (cases "snd (stamps (x_seq r))") (simp_all add: outbox_dict_def)
  have cells: "int_cell (outbox_dict dumps stamps r) ''seq'' = Inr (int (x_seq r))" "text_cell (outbox_dict dumps stamps r) ''event_id'' = Inr (x_event_id r)"
    "text_cell (outbox_dict dumps stamps r) ''payload'' = Inr (dumps (x_payload r))" "text_cell (outbox_dict dumps stamps r) ''created_at'' = Inr (fst (stamps (x_seq r)))"
    by (simp_all add: outbox_dict_def int_cell_def text_cell_def)
  have row: "\<lparr>x_seq = x_seq r, x_event_id = x_event_id r, x_payload = x_payload r, x_sent = (snd (stamps (x_seq r)) \<noteq> None)\<rparr> = r"
    using assms(4) by (cases r) simp
  show ?thesis using assms(1-3) row by (simp add: insert_outbox_dict_def cells sent Let_def)
qed

lemma insert_outbox:
  "distinct (map x_seq (d_outbox (sh_db s) @ rs)) \<Longrightarrow> distinct (map x_event_id (d_outbox (sh_db s) @ rs)) \<Longrightarrow>
   (\<forall>r\<in>set rs. loads (dumps (x_payload r)) = x_payload r \<and> (x_sent r \<longleftrightarrow> snd (stamps (x_seq r)) \<noteq> None)) \<Longrightarrow>
   \<exists>n ts. insert_all (insert_outbox_dict loads) (map (\<lambda>r. PDict (outbox_dict dumps stamps r)) rs) s
        = Inr (s\<lparr>sh_db := (sh_db s)\<lparr>d_outbox := d_outbox (sh_db s) @ rs, d_seq := n\<rparr>, sh_times := ts\<rparr>)
      \<and> (\<forall>r\<in>set rs. ts (x_seq r) = stamps (x_seq r)) \<and> (\<forall>q. q \<notin> x_seq ` set rs \<longrightarrow> ts q = sh_times s q)"
proof (induction rs arbitrary: s)
  case Nil
  show ?case by (rule exI [of _ "d_seq (sh_db s)"], rule exI [of _ "sh_times s"]) simp
next
  case (Cons r rs)
  let ?s = "s\<lparr>sh_db := (sh_db s)\<lparr>d_outbox := d_outbox (sh_db s) @ [r], d_seq := max (d_seq (sh_db s)) (x_seq r + 1)\<rparr>,
      sh_times := (sh_times s)(x_seq r := stamps (x_seq r))\<rparr>"
  have one: "insert_outbox_dict loads (outbox_dict dumps stamps r) s = Inr ?s"
    using Cons.prems by (intro insert_outbox_dict_row) auto
  obtain n ts where rest: "insert_all (insert_outbox_dict loads) (map (\<lambda>r. PDict (outbox_dict dumps stamps r)) rs) ?s
        = Inr (?s\<lparr>sh_db := (sh_db ?s)\<lparr>d_outbox := d_outbox (sh_db ?s) @ rs, d_seq := n\<rparr>, sh_times := ts\<rparr>)"
      "\<forall>r\<in>set rs. ts (x_seq r) = stamps (x_seq r)" "\<forall>q. q \<notin> x_seq ` set rs \<longrightarrow> ts q = sh_times ?s q"
    using Cons.IH [of ?s] Cons.prems by auto
  have "x_seq r \<notin> x_seq ` set rs" using Cons.prems(1) by auto
  then have "\<forall>r'\<in>set (r # rs). ts (x_seq r') = stamps (x_seq r')" using rest(2,3) by simp
  then show ?case using one rest by (intro exI [of _ n] exI [of _ ts]) auto
qed

definition wf_shop :: "(ustr \<Rightarrow> bool) \<Rightarrow> shop \<Rightarrow> bool" where
  "wf_shop iso_ok s \<longleftrightarrow> wf_db iso_ok (sh_db s) \<and> (\<forall>r\<in>set (d_outbox (sh_db s)). x_sent r \<longleftrightarrow> snd (sh_times s (x_seq r)) \<noteq> None)"

text \<open>What a store must share with another for the same snapshot.\<close>

lemma export_cong:
  assumes "set (sh_engines a) = set (sh_engines b)" "select_orders a = select_orders b" "select_outbox dumps a = select_outbox dumps b"
    and "length (d_outbox (sh_db a)) = length (d_outbox (sh_db b))" "payload_bytes dumps a = payload_bytes dumps b"
  shows "export_snapshot sha size_of dumps version a = export_snapshot sha size_of dumps version b"
  using assms by (simp add: export_snapshot_def)

lemma sum_list_sort: "sum_list (map f (sort_key k xs)) = (sum_list (map f xs) :: nat)"
  by (metis mset_map mset_sort sum_mset_sum_list)

lemma rows_of_sealed: "seal sha size_of (PDict [(u ''orders'', PList xs), (u ''outbox'', PList ys)]) version = Inr snap \<Longrightarrow>
   rows_of snap ''orders'' = xs \<and> rows_of snap ''outbox'' = ys"
  by (auto simp: seal_def Let_def bind_res_Inr_iff rows_of_def split: if_splits)

lemma validate_same: "validate_snapshot sha size_of (PDict d) = Inr d' \<Longrightarrow> d' = d"
  by (auto simp: validate_snapshot_def bind_res_Inr_iff split: if_splits pv.splits)

lemma export_rows:
  assumes e: "export_snapshot sha size_of dumps version a = Inr snap"
  shows "rows_of snap ''orders'' = map (\<lambda>r. PDict (order_dict r)) (sort_key o_id (d_orders (sh_db a)))"
    and "rows_of snap ''outbox'' = map (\<lambda>r. PDict (outbox_dict dumps (sh_times a) r)) (sort_key x_seq (d_outbox (sh_db a)))"
    and "validate_snapshot sha size_of (PDict snap) = Inr snap" and "set (sh_engines a) = set study_tables"
proof -
  from e obtain result where n: "length (select_orders a) \<le> max_rows" "length (select_outbox dumps a) \<le> max_rows"
    and s: "seal sha size_of (PDict [(u ''orders'', PList (map PDict (select_orders a))),
             (u ''outbox'', PList (map PDict (select_outbox dumps a)))]) version = Inr result"
    and v: "validate_snapshot sha size_of (PDict result) = Inr snap" and t: "set (sh_engines a) = set study_tables"
    by (auto simp: export_snapshot_def bind_res_Inr_iff not_less split: if_splits)
  have r: "result = snap" using validate_same [OF v] by simp
  have all: "select_orders a = map order_dict (sort_key o_id (d_orders (sh_db a)))"
    "select_outbox dumps a = map (outbox_dict dumps (sh_times a)) (sort_key x_seq (d_outbox (sh_db a)))"
    using n by (auto simp: select_orders_def select_outbox_def)
  show "rows_of snap ''orders'' = map (\<lambda>r. PDict (order_dict r)) (sort_key o_id (d_orders (sh_db a)))"
    "rows_of snap ''outbox'' = map (\<lambda>r. PDict (outbox_dict dumps (sh_times a) r)) (sort_key x_seq (d_outbox (sh_db a)))"
    using rows_of_sealed [OF s] r all by (simp_all add: comp_def)
  show "validate_snapshot sha size_of (PDict snap) = Inr snap" using v r by simp
  show "set (sh_engines a) = set study_tables" by (rule t)
qed
section \<open>The canary\<close>

lemma find_after: "find p xs = None \<Longrightarrow> find p (xs @ ys) = find p ys"
  by (induction xs) (auto split: if_splits)

lemma find_before: "\<not> p y \<Longrightarrow> find p (xs @ [y]) = find p xs"
  by (induction xs) auto

lemma created_row:
  fixes now key :: ustr and data :: new_data
  assumes "key \<notin> r_key ` set (d_orders d)" "i \<notin> o_id ` set (d_orders d)" "ev \<notin> x_event_id ` set (d_outbox d)"
  defines "x \<equiv> new_order i now data"
  defines "d1 \<equiv> d\<lparr>d_orders := d_orders d @ [with_key x key],
      d_outbox := d_outbox d @ [\<lparr>x_seq = d_seq d, x_event_id = ev, x_payload = envelope ev x, x_sent = False\<rparr>], d_seq := Suc (d_seq d)\<rparr>"
  shows "sql_create d id Commit_ok Commit_ok i ev now data key d = (Inr (x, True), d1)"
    and "sql_create d1 id Commit_ok Commit_ok i2 ev2 now2 data key d1 = (Inr (x, False), d1)"
proof -
  have i: "o_id (with_key x key) = i" by (simp add: x_def new_order_def with_key_def order_data.defs)
  have none: "select_key key d = None" using assms(1) by (simp add: select_key_None)
  show "sql_create d id Commit_ok Commit_ok i ev now data key d = (Inr (x, True), d1)"
    using none assms(1-3) i by (auto simp: sql_create_def transaction_def create_body_def insert_order_def enqueue_def insert_event_def Let_def
        d1_def x_def)
  have "select_key key d1 = Some (with_key x key)"
    using none by (simp add: select_key_def d1_def find_after)
  moreover have "order_data_of x = data" by (simp add: x_def)
  then have "existing (with_key x key) data = Inr (x, False)"
    by (auto simp: existing_def order_data_of_def with_key_def order_data.defs public_def)
  ultimately show "sql_create d1 id Commit_ok Commit_ok i2 ev2 now2 data key d1 = (Inr (x, False), d1)"
    by (simp add: sql_create_def transaction_def create_body_def)
qed

lemma paid_transition: "transition (new_order i now data) (PDict [(u ''status'', PStr (u ''paid'')), (u ''expected_version'', PInt 1)])
   = Inr ((new_order i now data)\<lparr>o_status := u ''paid'', o_version := 2\<rparr>)"
  by (simp add: transition_def new_order_def states_def)

lemma paid_row:
  fixes now key :: ustr and data :: new_data
  assumes "i \<notin> o_id ` set (d_orders d)" "ev2 \<notin> insert ev (x_event_id ` set (d_outbox d))"
  defines "x \<equiv> new_order i now data"
  defines "d1 \<equiv> d\<lparr>d_orders := d_orders d @ [with_key x key],
      d_outbox := d_outbox d @ [\<lparr>x_seq = d_seq d, x_event_id = ev, x_payload = envelope ev x, x_sent = False\<rparr>], d_seq := Suc (d_seq d)\<rparr>"
  shows "\<exists>d2. sql_update Commit_ok ev2 i (PDict [(u ''status'', PStr (u ''paid'')), (u ''expected_version'', PInt 1)]) d1
      = (Inr (x\<lparr>o_status := u ''paid'', o_version := 2\<rparr>), d2)
    \<and> sql_get i d2 = Some (x\<lparr>o_status := u ''paid'', o_version := 2\<rparr>) \<and> (\<forall>j. j \<noteq> i \<longrightarrow> sql_get j d2 = sql_get j d)"
proof -
  let ?x = "x\<lparr>o_status := u ''paid'', o_version := 2\<rparr>"
  have i: "o_id (with_key x key) = i" "o_id x = i" by (simp_all add: x_def new_order_def with_key_def order_data.defs)
  have sel: "select_id i d1 = Some (with_key x key)"
    using assms(1) i by (simp add: select_id_def d1_def find_after find_None_map)
  obtain d2 where d2: "enqueue ev2 ?x (update_row ?x i d1) = Inr d2"
    using assms(2) by (auto simp: enqueue_def insert_event_def update_row_def d1_def)
  have up: "update_body ev2 i (PDict [(u ''status'', PStr (u ''paid'')), (u ''expected_version'', PInt 1)]) d1 = Inr (?x, d2)"
    using sel d2 by (simp add: update_body_def paid_transition x_def)
  have old: "map (\<lambda>r. if o_id r = i then r\<lparr>o_status := o_status ?x, o_version := o_version ?x\<rparr> else r) (d_orders d) = d_orders d"
    using assms(1) by (intro map_idI) auto
  have "d_orders d2 = d_orders d @ [(with_key x key)\<lparr>o_status := u ''paid'', o_version := 2\<rparr>]"
    using d2 old i by (auto simp: enqueue_def insert_event_def update_row_def d1_def split: if_splits)
  then have get: "select_id i d2 = Some ((with_key x key)\<lparr>o_status := u ''paid'', o_version := 2\<rparr>)"
    "j \<noteq> i \<Longrightarrow> select_id j d2 = select_id j d" for j
    using assms(1) i by (simp_all add: select_id_def find_after find_None_map find_before)
  have "sql_get i d2 = Some ?x" using get(1) by (simp add: sql_get_def public_status_update)
  moreover have "\<forall>j. j \<noteq> i \<longrightarrow> sql_get j d2 = sql_get j d" using get(2) by (simp add: sql_get_def)
  ultimately show ?thesis using up by (auto simp: sql_update_def transaction_def)
qed

lemma canary_passes:
  assumes "canary_key t \<notin> r_key ` set (d_orders (sh_db s))" "cn_id c \<notin> o_id ` set (d_orders (sh_db s))"
    and "cn_event c \<notin> x_event_id ` set (d_outbox (sh_db s))" "cn_update c \<notin> insert (cn_event c) (x_event_id ` set (d_outbox (sh_db s)))"
  shows "\<exists>s'. run_canary t c s = (Inr True, s') \<and> (\<forall>j. j \<noteq> cn_id c \<longrightarrow> sql_get j (sh_db s') = sql_get j (sh_db s))"
proof -
  obtain i2 ev2 now2 where retry: "cn_retry c = (i2, ev2, now2)" by (metis prod_cases3)
  let ?data = "\<lparr>n_item = canary_key t, n_quantity = 2, n_unit_price = 13\<rparr>"
  let ?x = "new_order (cn_id c) (cn_time c) ?data"
  note made = created_row [OF assms(1-3), of "cn_time c" ?data]
  obtain d2 where upd: "sql_update Commit_ok (cn_update c) (cn_id c) (PDict [(u ''status'', PStr (u ''paid'')), (u ''expected_version'', PInt 1)])
      ((sh_db s)\<lparr>d_orders := d_orders (sh_db s) @ [with_key ?x (canary_key t)],
        d_outbox := d_outbox (sh_db s) @ [\<lparr>x_seq = d_seq (sh_db s), x_event_id = cn_event c, x_payload = envelope (cn_event c) ?x, x_sent = False\<rparr>],
        d_seq := Suc (d_seq (sh_db s))\<rparr>) = (Inr (?x\<lparr>o_status := u ''paid'', o_version := 2\<rparr>), d2)"
    "sql_get (cn_id c) d2 = Some (?x\<lparr>o_status := u ''paid'', o_version := 2\<rparr>)" "\<forall>j. j \<noteq> cn_id c \<longrightarrow> sql_get j d2 = sql_get j (sh_db s)"
    using paid_row [OF assms(2) assms(4), of "cn_time c" ?data "canary_key t"] by blast
  have ids: "o_id ?x = cn_id c" "o_version ?x = 1" by (simp_all add: new_order_def)
  have "run_canary t c s = (Inr True, s\<lparr>sh_db := d2\<rparr>)"
    using upd(2) by (simp add: run_canary_def Let_def bind_eff_def create_once_def on_db_def made retry upd(1) ids)
  then show ?thesis using upd(3) by (intro exI [of _ "s\<lparr>sh_db := d2\<rparr>"]) simp
qed

section \<open>Restore\<close>

lemma sort_again: "sort_key k (sort_key k zs) = sort_key k zs"
  by (rule sort_key_id_if_sorted) simp

lemma distinct_sort_key: "distinct (map f (sort_key k zs)) \<longleftrightarrow> distinct (map f zs)"
  by (metis mset_map mset_sort mset_eq_imp_distinct_iff)

lemma find_sorted:
  assumes "distinct (map f xs)"
  shows "find (\<lambda>x. f x = j) (sort_key k xs) = find (\<lambda>x. f x = j) xs"
proof (cases "j \<in> f ` set xs")
  case True
  then obtain x where x: "x \<in> set xs" "j = f x" by blast
  then show ?thesis using find_distinct_map [OF assms x(1)] find_distinct_map [of f "sort_key k xs" x] assms
    by (simp add: distinct_sort_key)
next
  case False
  then have "find (\<lambda>x. f x = j) xs = None" "find (\<lambda>x. f x = j) (sort_key k xs) = None" by (simp_all add: find_None_map)
  then show ?thesis by simp
qed

lemma rows_restored:
  assumes wf: "wf_shop iso_ok a" and e: "export_snapshot sha size_of dumps version a = Inr snap"
    and json: "\<And>r. r \<in> set (d_outbox (sh_db a)) \<Longrightarrow> loads (dumps (x_payload r)) = x_payload r"
    and b: "sh_db b = empty_db"
  obtains b2 where "bind_res (insert_all insert_order_dict (rows_of snap ''orders'') b) (insert_all (insert_outbox_dict loads) (rows_of snap ''outbox'')) = Inr b2"
    and "d_orders (sh_db b2) = sort_key o_id (d_orders (sh_db a))" "d_outbox (sh_db b2) = sort_key x_seq (d_outbox (sh_db a))"
    "sh_engines b2 = sh_engines b" "\<forall>r\<in>set (d_outbox (sh_db a)). sh_times b2 (x_seq r) = sh_times a (x_seq r)"
proof -
  let ?os = "sort_key o_id (d_orders (sh_db a))" and ?xs = "sort_key x_seq (d_outbox (sh_db a))"
  note rows = export_rows [OF e]
  have w: "distinct (map o_id (d_orders (sh_db a)))" "distinct (map r_key (d_orders (sh_db a)))"
    "distinct (map x_seq (d_outbox (sh_db a)))" "distinct (map x_event_id (d_outbox (sh_db a)))"
    "\<forall>r\<in>set (d_outbox (sh_db a)). x_sent r \<longleftrightarrow> snd (sh_times a (x_seq r)) \<noteq> None"
    using wf unfolding wf_shop_def wf_db_def by (auto simp: strict_sorted_iff)
  let ?b1 = "b\<lparr>sh_db := (sh_db b)\<lparr>d_orders := ?os\<rparr>\<rparr>"
  have one: "insert_all insert_order_dict (rows_of snap ''orders'') b = Inr ?b1"
    using insert_orders [of b ?os] w(1,2) b by (simp add: rows(1) distinct_sort_key empty_db_def)
  obtain n ts where two: "insert_all (insert_outbox_dict loads) (rows_of snap ''outbox'') ?b1
        = Inr (?b1\<lparr>sh_db := (sh_db ?b1)\<lparr>d_outbox := d_outbox (sh_db ?b1) @ ?xs, d_seq := n\<rparr>, sh_times := ts\<rparr>)"
      and ts: "\<forall>r\<in>set ?xs. ts (x_seq r) = sh_times a (x_seq r)"
    using insert_outbox [of ?b1 ?xs loads dumps "sh_times a"] w(3-5) b json unfolding rows(2) by (auto simp: distinct_sort_key empty_db_def)
  show ?thesis
    by (rule that [of "?b1\<lparr>sh_db := (sh_db ?b1)\<lparr>d_outbox := d_outbox (sh_db ?b1) @ ?xs, d_seq := n\<rparr>, sh_times := ts\<rparr>"])
      (use one two ts b in \<open>simp_all add: empty_db_def\<close>)
qed

lemma restored_exports:
  assumes e: "export_snapshot sha size_of dumps version a = Inr snap"
    and rows: "d_orders (sh_db b) = sort_key o_id (d_orders (sh_db a))" "d_outbox (sh_db b) = sort_key x_seq (d_outbox (sh_db a))"
      "sh_engines b = study_tables" "\<forall>r\<in>set (d_outbox (sh_db a)). sh_times b (x_seq r) = sh_times a (x_seq r)"
  shows "export_snapshot sha size_of dumps version b = Inr snap"
proof -
  have "export_snapshot sha size_of dumps version b = export_snapshot sha size_of dumps version a"
  proof (rule export_cong)
    show "set (sh_engines b) = set (sh_engines a)" using export_rows(4) [OF e] rows(3) by simp
    show "select_orders b = select_orders a" by (simp only: select_orders_def rows sort_again)
    have "map (outbox_dict dumps (sh_times b)) (sort_key x_seq (d_outbox (sh_db a))) = map (outbox_dict dumps (sh_times a)) (sort_key x_seq (d_outbox (sh_db a)))"
      using rows(4) by (auto simp: outbox_dict_def)
    then show "select_outbox dumps b = select_outbox dumps a" by (simp only: select_outbox_def rows sort_again)
    show "length (d_outbox (sh_db b)) = length (d_outbox (sh_db a))" by (simp only: rows length_sort)
    show "payload_bytes dumps b = payload_bytes dumps a" by (simp only: payload_bytes_def rows sum_list_sort)
  qed
  with e show ?thesis by simp
qed

text \<open>C33: A snapshot of a well-formed store restores: in an empty disposable database of the same server version, when the
  text of an event reads back as the event and the canary's key and identifiers are new, the restore returns, the restored
  rows have the snapshot's digest and row counts, the canary passes, and every other order reads back as in the source.\<close>

theorem snapshot_restores:
  assumes wf: "wf_shop iso_ok a" and e: "export_snapshot sha size_of dumps version a = Inr snap"
    and json: "\<And>r. r \<in> set (d_outbox (sh_db a)) \<Longrightarrow> loads (dumps (x_payload r)) = x_payload r"
    and t: "disposable t = Inr ()" and b: "sh_engines b = []" "sh_db b = empty_db"
    and c: "canary_key t \<notin> r_key ` set (d_orders (sh_db a))" "cn_id c \<notin> o_id ` set (d_orders (sh_db a))"
      "cn_event c \<notin> x_event_id ` set (d_outbox (sh_db a))" "cn_update c \<notin> insert (cn_event c) (x_event_id ` set (d_outbox (sh_db a)))"
  shows "\<exists>b'. restore_snapshot sha size_of dumps loads version t c (PDict snap) b = (Inr \<lparr>rr_matched = True, rr_canary = True,
       rr_source = dget snap ''sha256'', rr_restored = dget snap ''sha256'', rr_orders = length (d_orders (sh_db a)),
       rr_outbox = length (d_outbox (sh_db a))\<rparr>, b')
     \<and> (\<forall>i. i \<noteq> cn_id c \<longrightarrow> sql_get i (sh_db b') = sql_get i (sh_db a))"
proof -
  note rows = export_rows [OF e]
  have b0: "sh_db (initialize b) = empty_db" "sh_engines (initialize b) = study_tables" using b by (simp_all add: initialize_def split_def)
  obtain b2 where ins: "bind_res (insert_all insert_order_dict (rows_of snap ''orders'') (initialize b)) (insert_all (insert_outbox_dict loads) (rows_of snap ''outbox'')) = Inr b2"
    and b2: "d_orders (sh_db b2) = sort_key o_id (d_orders (sh_db a))" "d_outbox (sh_db b2) = sort_key x_seq (d_outbox (sh_db a))"
      "sh_engines b2 = sh_engines (initialize b)" "\<forall>r\<in>set (d_outbox (sh_db a)). sh_times b2 (x_seq r) = sh_times a (x_seq r)"
    by (rule rows_restored [OF wf e json b0(1)])
  note e2 = restored_exports [OF e b2(1,2) b2(3) [unfolded b0] b2(4)]
  have c2: "canary_key t \<notin> r_key ` set (d_orders (sh_db b2))" "cn_id c \<notin> o_id ` set (d_orders (sh_db b2))"
    "cn_event c \<notin> x_event_id ` set (d_outbox (sh_db b2))" "cn_update c \<notin> insert (cn_event c) (x_event_id ` set (d_outbox (sh_db b2)))"
    using c unfolding b2 by simp_all
  obtain b3 where b3: "run_canary t c b2 = (Inr True, b3)" "\<forall>j. j \<noteq> cn_id c \<longrightarrow> sql_get j (sh_db b3) = sql_get j (sh_db b2)"
    using canary_passes [OF c2] by blast
  have w: "distinct (map o_id (d_orders (sh_db a)))" using wf by (simp add: wf_shop_def wf_db_def)
  have "sql_get j (sh_db b2) = sql_get j (sh_db a)" for j
    unfolding sql_get_def select_id_def b2 using find_sorted [OF w, where k = o_id and j = j] by simp
  moreover have "restore_snapshot sha size_of dumps loads version t c (PDict snap) b = (Inr \<lparr>rr_matched = True, rr_canary = True,
       rr_source = dget snap ''sha256'', rr_restored = dget snap ''sha256'', rr_orders = length (d_orders (sh_db a)),
       rr_outbox = length (d_outbox (sh_db a))\<rparr>, b3)"
    by (simp add: restore_snapshot_def bind_eff_def lift_res_def t rows(3) b(1) ins e2 b3(1) Let_def)
       (simp add: rows(1,2))
  ultimately show ?thesis using b3(2) by auto
qed

definition small_shop :: shop where
  "small_shop = \<lparr>sh_db = sample_db, sh_times = (\<lambda>_. (u ''2024-05-01 10:00:00.000000'', None)), sh_engines = study_tables\<rparr>"

definition empty_shop :: shop where
  "empty_shop = \<lparr>sh_db = empty_db, sh_times = (\<lambda>_. ([], None)), sh_engines = []\<rparr>"

definition drill_target :: target where
  "drill_target = \<lparr>tg_token = u ''drill-'' @ replicate 12 97, tg_host = u ''127.0.0.1'', tg_database = u ''mvp'', tg_user = u ''mvp''\<rparr>"

definition fresh_canary :: canary where
  "fresh_canary = \<lparr>cn_id = [1], cn_event = [2], cn_time = [], cn_retry = ([3], [4], []), cn_update = [5]\<rparr>"

lemma small_rows: "select_orders small_shop = [order_dict (with_key sample_order sample_key)]"
  "select_outbox (\<lambda>_. []) small_shop = [outbox_dict (\<lambda>_. []) (sh_times small_shop) \<lparr>x_seq = 1, x_event_id = sample_uuid,
     x_payload = envelope sample_uuid sample_order, x_sent = False\<rparr>]"
  by (simp_all add: select_orders_def select_outbox_def small_shop_def sample_db_def)

lemma small_times: "sh_times small_shop n = (u ''2024-05-01 10:00:00.000000'', None)"
  by (simp add: small_shop_def)

lemma small_text: "utf8_encodable sample_uuid" "utf8_encodable sample_key" "utf8_encodable sample_time" "utf8_encodable []"
    "o_id (with_key sample_order sample_key) = sample_uuid"
proof -
  show "utf8_encodable sample_uuid" "utf8_encodable sample_key" by (simp_all add: sample_uuid_def sample_key_def)
  show "utf8_encodable sample_time" by (simp add: sample_time_def)
  show "utf8_encodable []" by (simp add: utf8_encodable_def)
  show "o_id (with_key sample_order sample_key) = sample_uuid" by (simp add: with_key_def order_data.defs sample_order_def new_order_def)
qed

lemma small_tables:
  defines "ts \<equiv> [(u ''orders'', PList (map PDict (select_orders small_shop))), (u ''outbox'', PList (map PDict (select_outbox (\<lambda>_. []) small_shop)))]"
  shows "exact_keys [''orders'', ''outbox''] ts" "check_table ts ''orders'' order_columns ''id'' = Inr ()"
    "check_table ts ''outbox'' outbox_columns ''seq'' = Inr ()" "finite_json (PDict ts)" "encodable_json (PDict ts)"
proof -
  show "exact_keys [''orders'', ''outbox''] ts" by (simp add: exact_keys_def ts_def)
  show "check_table ts ''orders'' order_columns ''id'' = Inr ()"
    by (simp add: check_table_def ts_def small_rows max_rows_def order_dict_def exact_keys_def order_columns_def scalar_def)
  show "check_table ts ''outbox'' outbox_columns ''seq'' = Inr ()"
    by (simp add: check_table_def ts_def small_rows max_rows_def outbox_dict_def exact_keys_def outbox_columns_def scalar_def small_times)
  show "finite_json (PDict ts)" by (simp add: ts_def small_rows order_dict_def outbox_dict_def small_times)
  show "encodable_json (PDict ts)"
    by (simp add: ts_def small_rows order_dict_def outbox_dict_def small_times small_text with_key_def order_data.defs sample_order_def new_order_def)
qed

lemma small_export: "\<exists>snap. export_snapshot (\<lambda>_. []) (\<lambda>_. 0) (\<lambda>_. []) PNone small_shop = Inr snap"
proof -
  let ?ts = "[(u ''orders'', PList (map PDict (select_orders small_shop))), (u ''outbox'', PList (map PDict (select_outbox (\<lambda>_. []) small_shop)))]"
  let ?snap = "[(u ''format'', PStr (u ''db-lab-app-snapshot-v1'')), (u ''tables'', PDict ?ts), (u ''sha256'', PStr []), (u ''server_version'', PNone)]"
  have seal: "seal (\<lambda>_. []) (\<lambda>_. 0) (PDict ?ts) PNone = Inr ?snap"
    using small_tables(4,5) by (simp add: seal_def canonical_text_def Let_def small_text)
  have valid: "validate_snapshot (\<lambda>_. []) (\<lambda>_. 0) (PDict ?snap) = Inr ?snap"
    using small_tables(1-3) seal by (simp add: validate_snapshot_def exact_keys_def)
  have "export_snapshot (\<lambda>_. []) (\<lambda>_. 0) (\<lambda>_. []) PNone small_shop = Inr ?snap"
    unfolding export_snapshot_def seal bind_res_simps valid
    by (simp add: small_rows max_rows_def max_bytes_def payload_bytes_def) (simp add: small_shop_def sample_db_def utf8_def)
  then show ?thesis by blast
qed

theorem snapshot_restores_witness:
  "\<exists>snap b'. export_snapshot (\<lambda>_. []) (\<lambda>_. 0) (\<lambda>_. []) PNone small_shop = Inr snap
     \<and> restore_snapshot (\<lambda>_. []) (\<lambda>_. 0) (\<lambda>_. []) (\<lambda>_. envelope sample_uuid sample_order) PNone drill_target fresh_canary (PDict snap) empty_shop
       = (Inr \<lparr>rr_matched = True, rr_canary = True, rr_source = dget snap ''sha256'', rr_restored = dget snap ''sha256'',
          rr_orders = 1, rr_outbox = 1\<rparr>, b')"
proof -
  obtain snap where snap: "export_snapshot (\<lambda>_. []) (\<lambda>_. 0) (\<lambda>_. []) PNone small_shop = Inr snap" using small_export by blast
  have wf: "wf_shop (\<lambda>_. True) small_shop" using sample_db_wf by (simp add: wf_shop_def small_shop_def sample_db_def)
  have t: "disposable drill_target = Inr ()"
    by (simp add: disposable_def drill_target_def class_match_def is_hex_lower_def list_all_iff)
  have c: "canary_key drill_target \<noteq> sample_key"
  proof
    assume "canary_key drill_target = sample_key"
    then have "length (canary_key drill_target) = length sample_key" by simp
    then show False by (simp add: canary_key_def drill_target_def sample_key_def)
  qed
  have s: "length sample_uuid = 36" using sample_uuid_canonical by (simp add: uuid_canonical_def)
  have i: "[n] \<noteq> sample_uuid" for n
  proof
    assume "[n] = sample_uuid"
    then have "length sample_uuid = 1" by (simp flip: \<open>[n] = sample_uuid\<close>)
    with s show False by simp
  qed
  show ?thesis
    using snapshot_restores [OF wf snap _ t, of "\<lambda>_. envelope sample_uuid sample_order" empty_shop fresh_canary] snap c i
    by (auto simp: small_shop_def sample_db_def empty_shop_def fresh_canary_def small_text)
qed

end
