(* ===== verification/Es_Client.thy ===== *)
theory Es_Client
  imports Event_Log Sim_Audit Message_Safety
begin

text \<open>
  The HTTP client of the Elasticsearch labs: \<open>lib/es-lab/lablib_core.py\<close> and \<open>bulk_send\<close> and \<open>execute_example\<close> of
  \<open>elasticsearch/scripts/lablib.py\<close>. The transport is a record of operations on its state: a request is answered with a
  status and a UTF-8 body, or fails with \<open>OSError\<close> (\<open>URLError\<close> and \<open>TimeoutError\<close> are such). The JSON grammar is an
  argument; numbers in replies are finite.
\<close>

section \<open>Requests\<close>

datatype body = No_Body | Json_Body pv | Raw_Body bytes

record 's http =
  ht_send :: "string \<Rightarrow> ustr \<Rightarrow> body \<Rightarrow> (int \<times> ustr, 's) eff"
  ht_clock :: "(rat, 's) eff"
  ht_sleep :: "rat \<Rightarrow> (unit, 's) eff"

record es_config =
  ec_cluster :: ustr
  ec_json :: "ustr \<Rightarrow> pv option"

definition retryable :: "int list" where "retryable = [429, 502, 503, 504]"

definition os_error :: exn where "os_error = Other_Error ''OSError''"

definition is_api_error :: "exn \<Rightarrow> bool" where
  "is_api_error e \<longleftrightarrow> (case e of Http_Error _ _ \<Rightarrow> True | _ \<Rightarrow> False)"

text \<open>\<open>compact\<close> raises \<open>ValueError\<close> on a non-finite number and on a lone surrogate.\<close>

definition compact :: "body \<Rightarrow> unit res" where
  "compact b = (case b of Json_Body v \<Rightarrow> if finite_json v \<and> encodable_json v then Inr () else Inl (Value_Error ''not JSON compliant'')
     | _ \<Rightarrow> Inr ())"

text \<open>Redirects are refused, so that every status outside 200..299 is an \<open>APIError\<close>.\<close>

definition es_send :: "es_config \<Rightarrow> 's http \<Rightarrow> string \<Rightarrow> ustr \<Rightarrow> body \<Rightarrow> (pv, 's) eff" where
  "es_send c h m p b = bind_eff (lift_res (compact b)) (\<lambda>_. bind_eff (ht_send h m p b) (\<lambda>(status, raw).
     if \<not> (200 \<le> status \<and> status < 300) then raise_exn (Http_Error status (Some (take 8000 raw)))
     else if raw = [] then ret PNone
     else ret (case ec_json c raw of Some v \<Rightarrow> v | None \<Rightarrow> PStr raw)))"

text \<open>Comparisons of a reply's number with an integer.\<close>

definition number_in :: "pv \<Rightarrow> rat res" where
  "number_in v = (case number_of_value v of Some r \<Rightarrow> Inr r | None \<Rightarrow> Inl Type_Error)"

definition is_int :: "pv \<Rightarrow> int \<Rightarrow> bool" where
  "is_int v n \<longleftrightarrow> leaf_eq v (PInt n)"

section \<open>The lab's cluster\<close>

definition unbootstrapped :: "pv \<Rightarrow> bool" where
  "unbootstrapped v \<longleftrightarrow> v = PNone \<or> v = PStr (u ''_na_'')"

definition assert_lab :: "es_config \<Rightarrow> 's http \<Rightarrow> (pv, 's) eff" where
  "assert_lab c h = bind_eff (es_send c h ''GET'' (u ''/'') No_Body) (\<lambda>info.
     bind_eff (lift_res (py_get info ''cluster_name'')) (\<lambda>name.
     if name \<noteq> PStr (ec_cluster c) then raise_exn (Runtime_Error ''Wrong cluster. No writes allowed.'')
     else bind_eff (lift_res (py_get info ''cluster_uuid'')) (\<lambda>i.
       if unbootstrapped i then raise_exn (Runtime_Error ''Cluster is not bootstrapped (cluster_uuid is _na_).'')
       else ret info)))"

datatype colour = Any_Colour | At_Least_Yellow | Only_Green

definition colour_ok :: "colour \<Rightarrow> pv \<Rightarrow> bool" where
  "colour_ok w status \<longleftrightarrow> (case w of Any_Colour \<Rightarrow> True
     | At_Least_Yellow \<Rightarrow> status = PStr (u ''yellow'') \<or> status = PStr (u ''green'')
     | Only_Green \<Rightarrow> status = PStr (u ''green''))"

definition cluster_ready :: "int \<Rightarrow> colour \<Rightarrow> pv \<Rightarrow> pv \<Rightarrow> bool res" where
  "cluster_ready min_nodes w info health =
     bind_res (py_get info ''cluster_uuid'') (\<lambda>i. if unbootstrapped i then Inr False
     else bind_res (bind_res (get_or (PInt 0) health ''number_of_nodes'') number_in) (\<lambda>n. if \<not> of_int min_nodes \<le> n then Inr False
     else bind_res (get_or (PBool False) health ''timed_out'') (\<lambda>t. if truthy t then Inr False
     else bind_res (py_get health ''status'') (\<lambda>s. Inr (colour_ok w s)))))"

text \<open>What a round of \<open>wait\<close> swallows: \<open>APIError\<close>, \<open>OSError\<close> and \<open>ValueError\<close>.\<close>

definition wait_caught :: "exn \<Rightarrow> bool" where
  "wait_caught e \<longleftrightarrow> is_api_error e \<or> e = os_error \<or> (case e of Value_Error _ \<Rightarrow> True | _ \<Rightarrow> False)"

definition wait_sample :: "es_config \<Rightarrow> 's http \<Rightarrow> int \<Rightarrow> colour \<Rightarrow> (pv option, 's) eff" where
  "wait_sample c h min_nodes w = bind_eff (es_send c h ''GET'' (u ''/'') No_Body) (\<lambda>info.
     bind_eff (es_send c h ''GET'' (u ''/_cluster/health?timeout=3s'') No_Body) (\<lambda>health.
     bind_eff (lift_res (cluster_ready min_nodes w info health)) (\<lambda>ok. ret (if ok then Some health else None))))"

text \<open>The rounds bound the samples before the clock passes the deadline.\<close>

fun wait_until :: "nat \<Rightarrow> es_config \<Rightarrow> 's http \<Rightarrow> int \<Rightarrow> colour \<Rightarrow> rat \<Rightarrow> (pv, 's) eff" where
  "wait_until 0 c h min_nodes w deadline = raise_exn (Runtime_Error ''Cluster not ready'')"
| "wait_until (Suc k) c h min_nodes w deadline = bind_eff (ht_clock h) (\<lambda>t.
     if \<not> t < deadline then raise_exn (Runtime_Error ''Cluster not ready'')
     else bind_eff (\<lambda>s. case wait_sample c h min_nodes w s of
         (Inl e, s') \<Rightarrow> if wait_caught e then (Inr None, s') else (Inl e, s') | r \<Rightarrow> r) (\<lambda>found. case found of
       Some health \<Rightarrow> ret health
     | None \<Rightarrow> bind_eff (ht_clock h) (\<lambda>t'. bind_eff (ht_sleep h (min 2 (max 0 (deadline - t')))) (\<lambda>_.
         wait_until k c h min_nodes w deadline))))"

definition es_wait :: "nat \<Rightarrow> es_config \<Rightarrow> 's http \<Rightarrow> int \<Rightarrow> rat \<Rightarrow> colour \<Rightarrow> (pv, 's) eff" where
  "es_wait k c h min_nodes seconds w = bind_eff (ht_clock h) (\<lambda>t. wait_until k c h min_nodes w (t + seconds))"

text \<open>The nodes that verified the repository, and its previous definition.\<close>

definition ensure_snapshot_repo :: "es_config \<Rightarrow> 's http \<Rightarrow> ustr \<Rightarrow> ustr \<Rightarrow> bool \<Rightarrow> nat \<Rightarrow> (ustr list \<times> pv, 's) eff" where
  "ensure_snapshot_repo c h name location packed min_nodes = bind_eff (assert_lab c h) (\<lambda>_.
     bind_eff (\<lambda>s. case es_send c h ''GET'' (u ''/_snapshot/'' @ name) No_Body s of
         (Inl (Http_Error st d), s') \<Rightarrow> if st = 404 then (Inr PNone, s') else (Inl (Http_Error st d), s') | r \<Rightarrow> r) (\<lambda>current.
     bind_eff (es_send c h ''PUT'' (u ''/_snapshot/'' @ name) (Json_Body (PDict [(u ''type'', PStr (u ''fs'')),
         (u ''settings'', PDict [(u ''location'', PStr location), (u ''compress'', PBool packed)])]))) (\<lambda>_.
     bind_eff (es_send c h ''POST'' (u ''/_snapshot/'' @ name @ u ''/_verify'') No_Body) (\<lambda>checked.
     bind_eff (lift_res (py_get checked ''nodes'')) (\<lambda>ns.
     bind_eff (lift_res (if \<not> truthy ns then Inr [] else case ns of PDict d \<Rightarrow> Inr (map fst d)
         | _ \<Rightarrow> Inl (Other_Error ''AttributeError''))) (\<lambda>nodes.
     if length nodes < min_nodes then raise_exn (Runtime_Error ''Snapshot repository verified on too few nodes.'')
     else ret (sort nodes, current)))))))"

section \<open>Bulk loading\<close>

type_synonym bulk_record = "bytes \<times> bytes"

definition bulk_payload :: "bulk_record list \<Rightarrow> bytes" where
  "bulk_payload pending = concat (map (\<lambda>(a, b). a @ [10] @ b @ [10]) pending)"

datatype item_class = Item_Done | Item_Retry | Item_Fatal

definition item_class :: "pv \<Rightarrow> item_class res" where
  "item_class item = bind_res (py_get_dict item ''index'') (\<lambda>op.
     bind_res (bind_res (get_or (PInt 0) op ''status'') number_in) (\<lambda>status.
     bind_res (if 200 \<le> status \<and> status < 300 then bind_res (py_get op ''error'') (\<lambda>e. Inr (\<not> truthy e)) else Inr False) (\<lambda>ok.
     Inr (if ok then Item_Done else if status \<in> of_int ` set retryable then Item_Retry else Item_Fatal))))"

text \<open>The records to send again, and whether an item failed for good; the items are paired with the pending records.\<close>

fun split_items :: "(bulk_record \<times> pv) list \<Rightarrow> (bulk_record list \<times> bool) res" where
  "split_items [] = Inr ([], False)"
| "split_items ((r, item) # rest) = bind_res (item_class item) (\<lambda>k. bind_res (split_items rest) (\<lambda>(again, fatal).
     Inr (if k = Item_Retry then r # again else again, fatal \<or> k = Item_Fatal)))"

definition bulk_items :: "pv \<Rightarrow> nat \<Rightarrow> pv list res" where
  "bulk_items result n = bind_res (get_or (PList []) result ''items'') (\<lambda>v. case v of
       PList items \<Rightarrow> if length items \<noteq> n
         then Inl (Runtime_Error ''Invalid bulk response: item count does not match the request'') else Inr items
     | _ \<Rightarrow> Inl Type_Error)"

text \<open>What is left of a batch after an answer: \<open>None\<close> when every record is acknowledged.\<close>

definition bulk_answer :: "bulk_record list \<Rightarrow> pv \<Rightarrow> bulk_record list option res" where
  "bulk_answer pending result = bind_res (bulk_items result (length pending)) (\<lambda>items.
     bind_res (split_items (zip pending items)) (\<lambda>(again, fatal).
     if fatal then Inl (Runtime_Error ''Non-retryable bulk errors'')
     else if again = [] then bind_res (py_get result ''errors'') (\<lambda>e.
       if truthy e then Inl (Runtime_Error ''Inconsistent bulk response: errors=true with no failed items'') else Inr None)
     else Inr (Some again)))"

definition transient_bulk :: "exn \<Rightarrow> bool" where
  "transient_bulk e \<longleftrightarrow> e = os_error \<or> (case e of Http_Error st _ \<Rightarrow> st \<in> set retryable | _ \<Rightarrow> False)"

text \<open>One attempt: the records it leaves, all of them after a failure that may pass.\<close>

definition bulk_once :: "es_config \<Rightarrow> 's http \<Rightarrow> bulk_record list \<Rightarrow> (bulk_record list option, 's) eff" where
  "bulk_once c h pending = (\<lambda>s. case es_send c h ''POST'' (u ''/_bulk'') (Raw_Body (bulk_payload pending)) s of
       (Inl e, s') \<Rightarrow> if transient_bulk e then (Inr (Some pending), s') else (Inl e, s')
     | (Inr result, s') \<Rightarrow> (bulk_answer pending result, s'))"

text \<open>The attempts from number \<open>k\<close> on, the first followed by at most \<open>left\<close>.\<close>

fun bulk_attempts :: "es_config \<Rightarrow> 's http \<Rightarrow> rat \<Rightarrow> nat \<Rightarrow> nat \<Rightarrow> bulk_record list \<Rightarrow> (unit, 's) eff" where
  "bulk_attempts c h backoff k 0 pending = bind_eff (bulk_once c h pending) (\<lambda>rest. case rest of
       None \<Rightarrow> ret () | Some again \<Rightarrow> raise_exn (Runtime_Error ''Bulk retries exhausted''))"
| "bulk_attempts c h backoff k (Suc left) pending = bind_eff (bulk_once c h pending) (\<lambda>rest. case rest of
       None \<Rightarrow> ret ()
     | Some again \<Rightarrow> bind_eff (ht_sleep h (min 10 (backoff * 2 ^ k))) (\<lambda>_. bulk_attempts c h backoff (Suc k) left again))"

definition bulk_send :: "es_config \<Rightarrow> 's http \<Rightarrow> nat \<Rightarrow> rat \<Rightarrow> bulk_record list \<Rightarrow> (nat, 's) eff" where
  "bulk_send c h retries backoff records = bind_eff (bulk_attempts c h backoff 0 retries records) (\<lambda>_. ret (length records))"

text \<open>The request of a catalogue entry is checked for a timeout, for partial shards and for a failed validation.\<close>

definition execute_example :: "es_config \<Rightarrow> 's http \<Rightarrow> string \<Rightarrow> ustr \<Rightarrow> body \<Rightarrow> (pv, 's) eff" where
  "execute_example c h m p b = bind_eff (es_send c h m p b) (\<lambda>result. case result of
       PDict d \<Rightarrow> bind_eff (lift_res (if truthy (dget d ''timed_out'') then Inr (PBool True)
           else bind_res (py_get_dict result ''_shards'') (\<lambda>sh. get_or (PInt 0) sh ''failed''))) (\<lambda>failed.
         if truthy failed then raise_exn (Runtime_Error ''Search timed out or returned partial shard results'')
         else if starts_with (u ''/lab-'') p \<and> text_in (u ''/_validate/'') p \<and> \<not> truthy (dget d ''valid'')
         then raise_exn (Runtime_Error ''Query validation failed'') else ret result)
     | _ \<Rightarrow> ret result)"
section \<open>Every record is acknowledged\<close>

text \<open>The transport with its answers recorded.\<close>

type_synonym answer = "body \<times> int \<times> ustr"

definition heard_http :: "'s http \<Rightarrow> ('s \<times> answer list) http" where
  "heard_http h = \<lparr>ht_send = \<lambda>m p b. recording (\<lambda>r. case r of Inr (status, raw) \<Rightarrow> [(b, status, raw)] | Inl _ \<Rightarrow> []) (ht_send h m p b),
     ht_clock = recording (\<lambda>_. []) (ht_clock h), ht_sleep = \<lambda>t. recording (\<lambda>_. []) (ht_sleep h t)\<rparr>"

definition reply_value :: "es_config \<Rightarrow> ustr \<Rightarrow> pv" where
  "reply_value c raw = (if raw = [] then PNone else case ec_json c raw of Some v \<Rightarrow> v | None \<Rightarrow> PStr raw)"

text \<open>An answer acknowledges a record: a batch it was part of was answered, and its item is done.\<close>

definition acknowledges :: "es_config \<Rightarrow> bulk_record \<Rightarrow> answer \<Rightarrow> bool" where
  "acknowledges c r a \<longleftrightarrow> (case a of (b, status, raw) \<Rightarrow> 200 \<le> status \<and> status < 300 \<and>
     (\<exists>pending items k. b = Raw_Body (bulk_payload pending) \<and> bulk_items (reply_value c raw) (length pending) = Inr items
        \<and> k < length pending \<and> pending ! k = r \<and> item_class (items ! k) = Inr Item_Done))"

lemma split_items_done:
  assumes "split_items xs = Inr (again, False)" "i < length xs" "fst (xs ! i) \<notin> set again"
  shows "item_class (snd (xs ! i)) = Inr Item_Done"
  using assms
proof (induction xs arbitrary: again i rule: split_items.induct)
  case (2 r item rest)
  obtain k again' where k: "item_class item = Inr k" "split_items rest = Inr (again', False)" "k \<noteq> Item_Fatal"
    "again = (if k = Item_Retry then r # again' else again')"
    using 2(2) by (auto simp: bind_res_Inr_iff)
  show ?case
  proof (cases i)
    case 0
    then show ?thesis using k 2(4) by (cases k) auto
  next
    case (Suc j)
    then show ?thesis using 2(1) [OF k(2), of j] 2(3,4) k(4) by (auto split: if_splits)
  qed
qed simp

lemma bulk_items_length: "bulk_items result n = Inr items \<Longrightarrow> length items = n"
  by (cases "get_or (PList []) result ''items''"; cases "projr (get_or (PList []) result ''items'')")
    (auto simp: bulk_items_def split: if_splits)

lemma bulk_answer_acknowledges:
  assumes "bulk_answer pending (reply_value c raw) = Inr left" "200 \<le> status" "status < 300" "r \<in> set pending"
    and "r \<notin> set (case left of None \<Rightarrow> [] | Some again \<Rightarrow> again)"
  shows "acknowledges c r (Raw_Body (bulk_payload pending), status, raw)"
proof -
  obtain items again where i: "bulk_items (reply_value c raw) (length pending) = Inr items"
    "split_items (zip pending items) = Inr (again, False)" "left = None \<longrightarrow> again = []" "left \<noteq> None \<longrightarrow> left = Some again"
    using assms(1) by (auto simp: bulk_answer_def bind_res_Inr_iff split: if_splits)
  obtain k where k: "k < length pending" "pending ! k = r" using assms(4) by (auto simp: in_set_conv_nth)
  have l: "length items = length pending" using i(1) by (rule bulk_items_length)
  have "r \<notin> set again" using assms(5) i(3,4) by (cases left) auto
  then have "item_class (items ! k) = Inr Item_Done" using split_items_done [OF i(2), of k] k l by simp
  then show ?thesis using i(1) k assms(2,3) by (auto simp: acknowledges_def)
qed

lemma heard_send:
  assumes "es_send c (heard_http h) m p b (s, lg) = (r, s', lg')"
  shows "(lg' = lg \<and> \<not> is_ok r) \<or>
    (\<exists>status raw. lg' = lg @ [(b, status, raw)] \<and> (\<forall>v. r = Inr v \<longrightarrow> 200 \<le> status \<and> status < 300 \<and> v = reply_value c raw))"
proof (cases "compact b")
  case (Inr x)
  obtain q s1 where q: "ht_send h m p b s = (q, s1)" by fastforce
  show ?thesis
  proof (cases q)
    case (Inl e)
    then show ?thesis using assms q Inr by (auto simp: es_send_def bind_eff_def lift_res_def heard_http_def recording_def)
  next
    case w: (Inr w)
    obtain status raw where w': "w = (status, raw)" by fastforce
    have "lg' = lg @ [(b, status, raw)]" "r = (if \<not> (200 \<le> status \<and> status < 300) then Inl (Http_Error status (Some (take 8000 raw))) else Inr (reply_value c raw))"
      using assms q Inr w w' by (auto simp: es_send_def bind_eff_def lift_res_def heard_http_def recording_def reply_value_def split: if_splits)
    then show ?thesis by (auto split: if_splits)
  qed
qed (use assms in \<open>auto simp: es_send_def bind_eff_def lift_res_def\<close>)

lemma bulk_once_acknowledges:
  assumes "bulk_once c (heard_http h) pending (s, lg) = (Inr rest, s', lg')"
  shows "\<exists>ext. lg' = lg @ ext \<and> length ext \<le> 1 \<and>
     (\<forall>r\<in>set pending. r \<in> set (case rest of None \<Rightarrow> [] | Some again \<Rightarrow> again) \<or> (\<exists>a\<in>set ext. acknowledges c r a))"
proof -
  obtain q s1 lg1 where q: "es_send c (heard_http h) ''POST'' (u ''/_bulk'') (Raw_Body (bulk_payload pending)) (s, lg) = (q, s1, lg1)"
    by (metis prod.exhaust)
  show ?thesis
  proof (cases q)
    case (Inl e)
    then show ?thesis using assms q heard_send [OF q] by (auto simp: bulk_once_def split: if_splits)
  next
    case (Inr v)
    then have v: "bulk_answer pending v = Inr rest" "lg' = lg1" using assms q by (auto simp: bulk_once_def)
    then show ?thesis using heard_send [OF q] Inr bulk_answer_acknowledges [of pending c _ rest] by auto blast
  qed
qed

lemma bulk_attempts_acknowledge:
  "bulk_attempts c (heard_http h) backoff k left pending (s, lg) = (Inr (), s', lg') \<Longrightarrow>
     \<exists>ext. lg' = lg @ ext \<and> length ext \<le> Suc left \<and> (\<forall>r\<in>set pending. \<exists>a\<in>set ext. acknowledges c r a)"
proof (induction left arbitrary: k pending s lg)
  case 0
  then obtain s1 lg1 where "bulk_once c (heard_http h) pending (s, lg) = (Inr None, s1, lg1)" "lg' = lg1"
    by (auto simp: bind_eff_Inr split: option.splits)
  then show ?case using bulk_once_acknowledges [of c h pending s lg None] by fastforce
next
  case (Suc left)
  show ?case
  proof (cases "\<exists>s1 lg1. bulk_once c (heard_http h) pending (s, lg) = (Inr None, s1, lg1)")
    case True
    then have "bulk_once c (heard_http h) pending (s, lg) = (Inr None, s', lg')" using Suc.prems by (auto simp: bind_eff_def)
    then show ?thesis using bulk_once_acknowledges [of c h pending s lg None] by fastforce
  next
    case False
    then obtain again s1 lg1 s2 lg2 where a: "bulk_once c (heard_http h) pending (s, lg) = (Inr (Some again), s1, lg1)"
      "ht_sleep (heard_http h) (min 10 (backoff * 2 ^ k)) (s1, lg1) = (Inr (), s2, lg2)"
      "bulk_attempts c (heard_http h) backoff (Suc k) left again (s2, lg2) = (Inr (), s', lg')"
      using Suc.prems by (auto simp: bind_eff_Inr split: option.splits)
    have "lg2 = lg1" using a(2) by (auto simp: heard_http_def recording_def split: prod.splits)
    moreover obtain e1 where "lg1 = lg @ e1" "length e1 \<le> 1"
      "\<forall>r\<in>set pending. r \<in> set again \<or> (\<exists>a\<in>set e1. acknowledges c r a)"
      using bulk_once_acknowledges [OF a(1)] by auto
    moreover obtain e2 where "lg' = lg2 @ e2" "length e2 \<le> Suc left" "\<forall>r\<in>set again. \<exists>a\<in>set e2. acknowledges c r a"
      using Suc.IH [OF a(3)] by blast
    ultimately show ?thesis by (intro exI [of _ "e1 @ e2"]) auto
  qed
qed

text \<open>C34: When a bulk load returns, it returns the number of its records, it has sent at most one request more than its
  retries, and every record was part of a request whose answer was a success with that record's item stored.\<close>

theorem bulk_loads_all:
  assumes "bulk_send c (heard_http h) retries backoff records (s, []) = (Inr n, s', answers)"
  shows "n = length records \<and> length answers \<le> Suc retries \<and> (\<forall>r\<in>set records. \<exists>a\<in>set answers. acknowledges c r a)"
  using assms bulk_attempts_acknowledge [of c h backoff 0 retries records s "[]"] by (auto simp: bulk_send_def bind_eff_Inr)

definition trial_item :: "int \<Rightarrow> pv" where
  "trial_item status = PDict [(u ''index'', PDict [(u ''status'', PInt status)])]"

definition trial_config :: es_config where
  "trial_config = \<lparr>ec_cluster = [], ec_json = \<lambda>raw. Some (PDict [(u ''items'', PList (if raw = [1] then [trial_item 201, trial_item 429] else [trial_item 200])),
     (u ''errors'', PBool (raw = [1]))])\<rparr>"

definition trial_http :: "nat http" where
  "trial_http = \<lparr>ht_send = \<lambda>m p b n. (Inr (200, [n + 1]), n + 1), ht_clock = ret 0, ht_sleep = \<lambda>t. ret ()\<rparr>"

definition trial_records :: "bulk_record list" where
  "trial_records = [([97], [98]), ([99], [100])]"

lemma trial_classes: "item_class (trial_item 201) = Inr Item_Done" "item_class (trial_item 200) = Inr Item_Done"
  "item_class (trial_item 429) = Inr Item_Retry"
  by (simp_all add: item_class_def trial_item_def py_get_dict_def get_or_def dget_or_def number_in_def number_of_value_def py_get_def retryable_def)

lemma trial_answers:
  "bulk_answer trial_records (reply_value trial_config [Suc 0]) = Inr (Some [([99], [100])])"
  "bulk_answer [([99], [100])] (reply_value trial_config [Suc (Suc 0)]) = Inr None"
  by (simp_all add: bulk_answer_def bulk_items_def get_or_def dget_or_def reply_value_def trial_config_def trial_records_def trial_classes py_get_def)

lemma trial_once:
  "bulk_once trial_config (heard_http trial_http) pending (n, lg) =
     (bulk_answer pending (reply_value trial_config [Suc n]), Suc n, lg @ [(Raw_Body (bulk_payload pending), 200, [Suc n])])"
  by (simp add: bulk_once_def es_send_def bind_eff_def lift_res_def compact_def heard_http_def trial_http_def recording_def reply_value_def)

lemma trial_sleep: "ht_sleep (heard_http trial_http) t (n, lg) = (Inr (), n, lg)"
  by (simp add: heard_http_def trial_http_def recording_def)

lemma trial_load: "bulk_send trial_config (heard_http trial_http) 1 0 trial_records (0, []) =
    (Inr 2, 2, [(Raw_Body (bulk_payload trial_records), 200, [1]), (Raw_Body (bulk_payload [([99], [100])]), 200, [2])])"
  by (simp add: bulk_send_def bind_eff_def trial_once trial_answers trial_sleep) (simp add: trial_records_def)

theorem bulk_loads_all_witness:
  "list_all (\<lambda>r. list_ex (acknowledges trial_config r) [(Raw_Body (bulk_payload trial_records), 200, [1]),
     (Raw_Body (bulk_payload [([99], [100])]), 200, [2])]) trial_records"
  using bulk_loads_all [OF trial_load, THEN conjunct2, THEN conjunct2] by (simp only: list_all_iff list_ex_iff)

end
