(* ===== verification/Fault_Lab.thy ===== *)
theory Fault_Lab
  imports Es_Client
begin

text \<open>
  The journalled fault drills of the Elasticsearch lab: \<open>elasticsearch/scripts/fault_lab.py\<close>. Compose, the HTTP endpoint
  and the journal files are a record of operations on a state; the program's own state is the client's route and bound
  cluster and the drill's journal, which outlives an exception. The journal file holds a value of the record \<open>journal\<close>;
  printed lines, times and the measured details of a report are not kept.
\<close>

section \<open>Constants and checks\<close>

definition seed_indices :: "ustr list" where
  "seed_indices = map u [''lab-transactions-v1'', ''lab-web-logs-v1'', ''lab-audit-v1'', ''lab-commerce-v1'', ''lab-observability-v1'']"

definition allocation_key :: string where "allocation_key = ''cluster.routing.allocation.enable''"
definition exclude_key :: string where "exclude_key = ''cluster.routing.allocation.exclude._name''"
definition awareness_key :: string where "awareness_key = ''cluster.routing.allocation.awareness.attributes''"
definition rebalance_key :: string where "rebalance_key = ''cluster.routing.rebalance.enable''"

definition disk_keys :: "string list" where
  "disk_keys = map (\<lambda>s. ''cluster.routing.allocation.disk.watermark.'' @ s) [''low'', ''high'', ''flood_stage'']
     @ [''cluster.routing.allocation.disk.threshold_enabled'', ''cluster.info.update.interval'']"

definition node_scenarios :: "string list" where
  "node_scenarios = [''node-stop'', ''node-crash'', ''master-failover'']"

definition scenarios :: "string list" where
  "scenarios = [''node-stop'', ''node-crash'', ''master-failover'', ''too-many-replicas'', ''allocation-disabled'', ''allocation-filter'',
     ''write-block'', ''drain-node'', ''disk-watermark'', ''zone-awareness'', ''rebalance-disabled'']"

definition default_suite :: "string list" where
  "default_suite = [''node-stop'', ''node-crash'', ''master-failover'', ''too-many-replicas'', ''allocation-disabled'', ''allocation-filter'',
     ''write-block'', ''drain-node'']"

definition expect :: "bool \<Rightarrow> string \<Rightarrow> unit res" where
  "expect ok message = (if ok then Inr () else Inl (Runtime_Error message))"

definition lab_node :: "ustr \<Rightarrow> bool" where
  "lab_node s \<longleftrightarrow> s \<in> set (map u [''es01'', ''es02'', ''es03'', ''es04'', ''es05'', ''es06''])"

definition validate_node :: "ustr \<Rightarrow> unit res" where
  "validate_node s = (if lab_node s then Inr () else Inl (Value_Error ''NODE must be exactly es01 .. es06''))"

definition part_failed :: "pv \<Rightarrow> string \<Rightarrow> pv res" where
  "part_failed result part = bind_res (py_get_dict result part) (\<lambda>d. get_or (PInt 0) d ''failed'')"

definition check_response :: "pv \<Rightarrow> pv res" where
  "check_response result = (case result of
       PDict d \<Rightarrow> bind_res (expect (\<not> truthy (dget_or (PBool False) d ''timed_out'')) ''Request timed out (even if HTTP 200)'') (\<lambda>_.
         bind_res (part_failed result ''_shards'') (\<lambda>f. bind_res (expect (is_int f 0) ''Partial shard failure (even if HTTP 200)'') (\<lambda>_.
         bind_res (part_failed result ''_nodes'') (\<lambda>f. bind_res (expect (is_int f 0) ''Partial node response (even if HTTP 200)'') (\<lambda>_.
         Inr result)))))
     | _ \<Rightarrow> Inl (Runtime_Error ''Invalid JSON response''))"

text \<open>\<open>settings.get("transient", {}).get(key, settings.get("persistent", {}).get(key))\<close>\<close>

definition effective :: "pv \<Rightarrow> string \<Rightarrow> pv res" where
  "effective settings key = bind_res (py_get_dict settings ''transient'') (\<lambda>t.
     bind_res (bind_res (py_get_dict settings ''persistent'') (\<lambda>p. py_get p key)) (\<lambda>d. get_or d t key))"

text \<open>\<open>int()\<close> of a JSON value.\<close>

definition int_value :: "pv \<Rightarrow> int res" where
  "int_value v = (case v of PInt n \<Rightarrow> Inr n | PBool b \<Rightarrow> Inr (if b then 1 else 0)
     | PFloat r \<Rightarrow> Inr (if r < 0 then \<lceil>r\<rceil> else \<lfloor>r\<rfloor>) | PNonFinite \<Rightarrow> Inl (Value_Error ''cannot convert float'')
     | PStr s \<Rightarrow> (case py_int s of Some n \<Rightarrow> Inr n | None \<Rightarrow> Inl (Value_Error ''invalid literal for int''))
     | _ \<Rightarrow> Inl Type_Error)"

definition dict_values :: "pv \<Rightarrow> pv list res" where
  "dict_values v = (case v of PDict d \<Rightarrow> Inr (map snd d) | _ \<Rightarrow> Inl (Other_Error ''AttributeError''))"

definition rows_of :: "pv \<Rightarrow> pv list res" where
  "rows_of v = (case v of PList xs \<Rightarrow> Inr xs | _ \<Rightarrow> Inl Type_Error)"

fun map_res :: "('a \<Rightarrow> 'b res) \<Rightarrow> 'a list \<Rightarrow> 'b list res" where
  "map_res f [] = Inr []"
| "map_res f (x # xs) = bind_res (f x) (\<lambda>y. bind_res (map_res f xs) (\<lambda>ys. Inr (y # ys)))"

fun any_res :: "('a \<Rightarrow> bool res) \<Rightarrow> 'a list \<Rightarrow> bool res" where
  "any_res f [] = Inr False"
| "any_res f (x # xs) = bind_res (f x) (\<lambda>b. if b then Inr True else any_res f xs)"

definition filter_res :: "('a \<Rightarrow> bool res) \<Rightarrow> 'a list \<Rightarrow> 'a list res" where
  "filter_res f xs = bind_res (map_res f xs) (\<lambda>bs. Inr (map fst (filter snd (zip xs bs))))"

text \<open>\<open>a and b\<close> of two checks.\<close>

definition and_res :: "bool res \<Rightarrow> bool res \<Rightarrow> bool res" where
  "and_res a b = bind_res a (\<lambda>x. if x then b else Inr False)"

definition is_text :: "pv res \<Rightarrow> string \<Rightarrow> bool res" where
  "is_text v s = bind_res v (\<lambda>x. Inr (x = PStr (u s)))"

definition gib :: int where "gib = 1073741824"

definition size_text :: "int \<Rightarrow> pv" where "size_text n = PStr (int_text n @ u ''b'')"

definition disk_thresholds :: "pv \<Rightarrow> pdict res" where
  "disk_thresholds stats = bind_res (bind_res (subscript stats ''nodes'') dict_values) (\<lambda>ns.
     bind_res (map_res (\<lambda>n. bind_res (subscript n ''fs'') (\<lambda>f. bind_res (subscript f ''total'') (\<lambda>t.
       bind_res (subscript t ''available_in_bytes'') int_value))) ns) (\<lambda>free.
     bind_res (expect (free \<noteq> [] \<and> Min (set free) > 64 * 1024 * 1024) ''Real disk space is already critically low; do not inject a fault'') (\<lambda>_.
     let high = Max (set free) + gib in
     Inr (zip (map u disk_keys) [size_text (high + gib), size_text high, PStr (u ''1b''), PBool True, PStr (u ''10s'')]))))"

section \<open>The journal\<close>

text \<open>\<open>jo_cluster\<close> is \<open>cluster_original\<close>, \<open>jo_indices\<close> is \<open>index_original\<close>, \<open>jo_check\<close> whether \<open>fault_check\<close> is a PASS.\<close>

record journal =
  jo_format :: pv
  jo_run :: ustr
  jo_scenario :: string
  jo_uuid :: pv
  jo_project :: ustr
  jo_node :: ustr
  jo_nodes :: "ustr list"
  jo_master :: pv
  jo_primaries :: "pv list"
  jo_index :: ustr
  jo_baseline :: pv
  jo_canary :: ustr
  jo_status :: string
  jo_events :: "string list"
  jo_cluster :: pdict
  jo_indices :: pdict
  jo_restart :: bool
  jo_check :: "bool option"
  jo_error :: bool
  jo_recovery :: "bool option"
  jo_result :: "bool option"

record drill =
  dr_route :: "ustr option"
  dr_bound :: pv
  dr_state :: "journal option"

record fault_config =
  fc_es :: es_config
  fc_project :: ustr
  fc_timeout :: rat
  fc_interval :: rat
  fc_rounds :: nat
  fc_digest :: "pv \<Rightarrow> ustr"

text \<open>\<open>fl_curl\<close> is curl in the container of a node: the body and the status it prints. \<open>fl_compose\<close> is one Compose command.\<close>

record 's fault_lab =
  fl_http :: "'s http"
  fl_curl :: "ustr \<Rightarrow> string \<Rightarrow> ustr \<Rightarrow> body \<Rightarrow> (int \<times> ustr, 's) eff"
  fl_compose :: "ustr list \<Rightarrow> (unit, 's) eff"
  fl_exists :: "(bool, 's) eff"
  fl_load :: "(journal, 's) eff"
  fl_save :: "journal \<Rightarrow> (unit, 's) eff"
  fl_archive :: "journal \<Rightarrow> (unit, 's) eff"
  fl_unlink :: "(unit, 's) eff"
  fl_run_id :: "(ustr, 's) eff"

definition new_drill :: drill where
  "new_drill = \<lparr>dr_route = None, dr_bound = PNone, dr_state = None\<rparr>"

text \<open>A program of a drill runs on the world and the drill's own state.\<close>

type_synonym ('a, 's) prog = "('a, 's \<times> drill) eff"

definition on_world :: "('a, 's) eff \<Rightarrow> ('a, 's) prog" where
  "on_world m = (\<lambda>(w, d). case m w of (r, w') \<Rightarrow> (r, w', d))"

definition get_drill :: "(drill, 's) prog" where
  "get_drill = (\<lambda>(w, d). (Inr d, w, d))"

definition change :: "(drill \<Rightarrow> drill) \<Rightarrow> (unit, 's) prog" where
  "change f = (\<lambda>(w, d). (Inr (), w, f d))"

definition drill_state :: "(journal, 's) prog" where
  "drill_state = (\<lambda>(w, d). (case dr_state d of None \<Rightarrow> Inl Type_Error | Some j \<Rightarrow> Inr j, w, d))"

definition set_state :: "(journal \<Rightarrow> journal) \<Rightarrow> (unit, 's) prog" where
  "set_state f = bind_eff drill_state (\<lambda>j. change (\<lambda>d. d\<lparr>dr_state := Some (f j)\<rparr>))"

definition save_state :: "'s fault_lab \<Rightarrow> (unit, 's) prog" where
  "save_state l = bind_eff drill_state (\<lambda>j. on_world (fl_save l j))"

text \<open>\<open>event\<close>: noted in the journal, which is saved.\<close>

definition note_event :: "'s fault_lab \<Rightarrow> string \<Rightarrow> (unit, 's) prog" where
  "note_event l name = bind_eff (set_state (\<lambda>j. j\<lparr>jo_events := jo_events j @ [name]\<rparr>)) (\<lambda>_. save_state l)"

definition catching :: "(exn \<Rightarrow> bool) \<Rightarrow> ('a, 's) eff \<Rightarrow> (exn + 'a, 's) eff" where
  "catching caught m = (\<lambda>s. case m s of (Inl e, s') \<Rightarrow> if caught e then (Inr (Inl e), s') else (Inl e, s') | (Inr a, s') \<Rightarrow> (Inr (Inr a), s'))"

text \<open>\<open>TRANSIENT_ERRORS\<close> and \<open>(RuntimeError, OSError)\<close>; an \<open>APIError\<close> is a \<open>RuntimeError\<close>.\<close>

definition transient_error :: "exn \<Rightarrow> bool" where
  "transient_error e \<longleftrightarrow> is_api_error e \<or> e = os_error"

definition runtime_error :: "exn \<Rightarrow> bool" where
  "runtime_error e \<longleftrightarrow> transient_error e \<or> (case e of Runtime_Error _ \<Rightarrow> True | _ \<Rightarrow> False)"

section \<open>Requests\<close>

definition exec_request :: "fault_config \<Rightarrow> 's fault_lab \<Rightarrow> ustr \<Rightarrow> string \<Rightarrow> ustr \<Rightarrow> body \<Rightarrow> (pv, 's) eff" where
  "exec_request c l node m p b = bind_eff (lift_res (bind_res (validate_node node) (\<lambda>_.
       bind_res (expect (starts_with (u ''/'') p \<and> 10 \<notin> set p) ''Invalid API path'') (\<lambda>_. compact b)))) (\<lambda>_.
     bind_eff (fl_curl l node m p b) (\<lambda>(status, payload).
     if 400 \<le> status then raise_exn (Http_Error status (Some (take 8000 payload)))
     else if payload = [] then ret PNone
     else lift_res (case ec_json (fc_es c) payload of None \<Rightarrow> Inl (Value_Error ''JSONDecodeError'') | Some v \<Rightarrow> Inr v)))"

definition compose_args :: "string \<Rightarrow> ustr \<Rightarrow> ustr list res" where
  "compose_args action node = bind_res (validate_node node) (\<lambda>_.
     if action = ''kill'' then Inr [u ''kill'', u ''-s'', u ''SIGKILL'', node]
     else if action = ''stop'' then Inr [u ''stop'', u ''-t'', u ''10'', node]
     else if action = ''start'' then Inr [u ''start'', node]
     else Inl (Value_Error ''Unsupported runtime action''))"

definition compose_action :: "'s fault_lab \<Rightarrow> string \<Rightarrow> ustr \<Rightarrow> (unit, 's) eff" where
  "compose_action l action node = bind_eff (lift_res (compose_args action node)) (fl_compose l)"

definition identity_ok :: "fault_config \<Rightarrow> pv \<Rightarrow> pv \<Rightarrow> unit res" where
  "identity_ok c bound info = bind_res (py_get info ''cluster_name'') (\<lambda>name.
     bind_res (expect (name = PStr (ec_cluster (fc_es c))) ''Wrong cluster name. No mutation permitted.'') (\<lambda>_.
     bind_res (py_get info ''cluster_uuid'') (\<lambda>i.
     bind_res (expect (\<not> unbootstrapped i) ''Cluster not bootstrapped: cluster_uuid=_na_'') (\<lambda>_.
     if truthy bound then bind_res (subscript info ''cluster_uuid'') (\<lambda>i.
       expect (py_eq i bound) ''Cluster UUID changed; refusing mutation/recovery'') else Inr ()))))"

definition validate_identity :: "fault_config \<Rightarrow> pv \<Rightarrow> (unit, 's) prog" where
  "validate_identity c info = bind_eff get_drill (\<lambda>d. lift_res (identity_ok c (dr_bound d) info))"

definition try_node :: "fault_config \<Rightarrow> 's fault_lab \<Rightarrow> string \<Rightarrow> ustr \<Rightarrow> body \<Rightarrow> ustr \<Rightarrow> (pv, 's) prog" where
  "try_node c l m p b node = bind_eff (on_world (exec_request c l node ''GET'' (u ''/'') No_Body)) (\<lambda>info.
     bind_eff (validate_identity c info) (\<lambda>_.
     bind_eff (on_world (exec_request c l node m p b)) (\<lambda>result.
     bind_eff (change (\<lambda>d. d\<lparr>dr_route := Some node\<rparr>)) (\<lambda>_. ret result))))"

fun fallback :: "fault_config \<Rightarrow> 's fault_lab \<Rightarrow> string \<Rightarrow> ustr \<Rightarrow> body \<Rightarrow> ustr list \<Rightarrow> (pv, 's) prog" where
  "fallback c l m p b [] = raise_exn os_error"
| "fallback c l m p b (n # ns) = bind_eff get_drill (\<lambda>d. if dr_route d = Some n then fallback c l m p b ns
     else bind_eff (catching transient_error (try_node c l m p b n)) (\<lambda>r. case r of
       Inr v \<Rightarrow> ret v | Inl _ \<Rightarrow> fallback c l m p b ns))"

definition fault_request :: "fault_config \<Rightarrow> 's fault_lab \<Rightarrow> string \<Rightarrow> ustr \<Rightarrow> body \<Rightarrow> (pv, 's) prog" where
  "fault_request c l m p b = bind_eff get_drill (\<lambda>d.
     bind_eff (catching (\<lambda>e. e = os_error) (on_world (case dr_route d of
         Some n \<Rightarrow> exec_request c l n m p b | None \<Rightarrow> es_send (fc_es c) (fl_http l) m p b))) (\<lambda>r. case r of
       Inr v \<Rightarrow> ret v
     | Inl e \<Rightarrow> if m \<noteq> ''GET'' \<and> m \<noteq> ''HEAD'' then raise_exn e
         else fallback c l m p b (map u [''es02'', ''es04'', ''es05'', ''es03'', ''es01''])))"

definition fault_get :: "fault_config \<Rightarrow> 's fault_lab \<Rightarrow> ustr \<Rightarrow> (pv, 's) prog" where
  "fault_get c l p = fault_request c l ''GET'' p No_Body"

definition cluster_guard :: "fault_config \<Rightarrow> 's fault_lab \<Rightarrow> pv \<Rightarrow> (pv, 's) prog" where
  "cluster_guard c l expected = bind_eff (change (\<lambda>d. if truthy expected then d\<lparr>dr_bound := expected\<rparr> else d)) (\<lambda>_.
     bind_eff (fault_get c l (u ''/'')) (\<lambda>info.
     bind_eff (validate_identity c info) (\<lambda>_.
     bind_eff (lift_res (subscript info ''cluster_uuid'')) (\<lambda>i.
     bind_eff (change (\<lambda>d. d\<lparr>dr_bound := i\<rparr>)) (\<lambda>_. ret info)))))"

definition verify_runtime_node :: "fault_config \<Rightarrow> 's fault_lab \<Rightarrow> ustr \<Rightarrow> (unit, 's) prog" where
  "verify_runtime_node c l node = bind_eff (on_world (exec_request c l node ''GET'' (u ''/'') No_Body)) (\<lambda>info.
     bind_eff (validate_identity c info) (\<lambda>_.
     lift_res (bind_res (py_get info ''name'') (\<lambda>n. expect (n = PStr node) ''Compose service does not match Elasticsearch node.name''))))"

section \<open>Observations\<close>

definition canary_text :: "ustr \<Rightarrow> bool" where
  "canary_text s \<longleftrightarrow> starts_with (u ''lab-fault-'') s \<and> class_match is_hex_lower 12 12 (drop 10 s)"

definition load_journal :: "fault_config \<Rightarrow> 's fault_lab \<Rightarrow> (journal, 's) prog" where
  "load_journal c l = bind_eff (on_world (fl_exists l)) (\<lambda>e.
     if \<not> e then raise_exn (Runtime_Error ''No active drill journal.'')
     else bind_eff (on_world (fl_load l)) (\<lambda>j.
     bind_eff (change (\<lambda>d. d\<lparr>dr_state := Some j\<rparr>)) (\<lambda>_.
     bind_eff (lift_res (bind_res (expect (is_int (jo_format j) 1) ''Unsupported/corrupt recovery journal'') (\<lambda>_.
       bind_res (expect (canary_text (jo_canary j)) ''Invalid canary journal'') (\<lambda>_.
       expect (jo_project j = fc_project c) ''COMPOSE_PROJECT_NAME differs from the saved drill'')))) (\<lambda>_.
     bind_eff (cluster_guard c l (jo_uuid j)) (\<lambda>_. ret j)))))"

text \<open>A sample is taken until the predicate holds of it; \<open>fc_rounds\<close> bounds the samples before the deadline passes.\<close>

definition sample :: "('a, 's) prog \<Rightarrow> ('a \<Rightarrow> bool res) \<Rightarrow> ('a option, 's) prog" where
  "sample op good = bind_eff (catching transient_error op) (\<lambda>r. case r of
       Inl _ \<Rightarrow> ret None | Inr v \<Rightarrow> bind_eff (lift_res (good v)) (\<lambda>b. ret (if b then Some v else None)))"

fun poll_until :: "nat \<Rightarrow> fault_config \<Rightarrow> 's fault_lab \<Rightarrow> rat \<Rightarrow> ('a, 's) prog \<Rightarrow> ('a \<Rightarrow> bool res) \<Rightarrow> ('a, 's) prog" where
  "poll_until 0 c l deadline op good = raise_exn (Runtime_Error ''timeout'')"
| "poll_until (Suc k) c l deadline op good = bind_eff (sample op good) (\<lambda>found. case found of
       Some v \<Rightarrow> ret v
     | None \<Rightarrow> bind_eff (on_world (ht_clock (fl_http l))) (\<lambda>t. if deadline \<le> t then raise_exn (Runtime_Error ''timeout'')
         else bind_eff (on_world (ht_clock (fl_http l))) (\<lambda>t'. bind_eff (on_world (ht_sleep (fl_http l) (min (fc_interval c) (max 0 (deadline - t'))))) (\<lambda>_.
           poll_until k c l deadline op good))))"

definition poll :: "fault_config \<Rightarrow> 's fault_lab \<Rightarrow> ('a, 's) prog \<Rightarrow> ('a \<Rightarrow> bool res) \<Rightarrow> ('a, 's) prog" where
  "poll c l op good = bind_eff (on_world (ht_clock (fl_http l))) (\<lambda>t. poll_until (fc_rounds c) c l (t + fc_timeout c) op good)"

type_synonym nodes = "(ustr \<times> pv) list"

fun name_nodes :: "pv list \<Rightarrow> nodes \<Rightarrow> nodes res" where
  "name_nodes [] acc = Inr acc"
| "name_nodes (n # ns) acc = bind_res (bind_res (subscript n ''name'') as_text) (\<lambda>k. name_nodes ns (put k n acc))"

definition named_nodes :: "pv \<Rightarrow> nodes res" where
  "named_nodes result = (case result of
       PDict d \<Rightarrow> (case dget d ''nodes'' of PDict ns \<Rightarrow> name_nodes (map snd ns) [] | _ \<Rightarrow> Inl (Runtime_Error ''Invalid nodes response''))
     | _ \<Rightarrow> Inl (Runtime_Error ''Invalid nodes response''))"

definition lab_nodes :: "fault_config \<Rightarrow> 's fault_lab \<Rightarrow> (nodes, 's) prog" where
  "lab_nodes c l = bind_eff (fault_get c l (u ''/_nodes'')) (\<lambda>r. lift_res (named_nodes r))"

definition lab_health :: "fault_config \<Rightarrow> 's fault_lab \<Rightarrow> ustr \<Rightarrow> (pv, 's) prog" where
  "lab_health c l index = fault_get c l (u ''/_cluster/health'' @ (if index = [] then [] else u ''/'' @ index) @ u ''?master_timeout=3s&timeout=3s'')"

definition not_timed_out :: "pv \<Rightarrow> bool res" where
  "not_timed_out h = bind_res (py_get h ''timed_out'') (\<lambda>t. Inr (\<not> truthy t))"

definition stable_sample :: "ustr list \<Rightarrow> pv \<times> ustr list \<Rightarrow> bool res" where
  "stable_sample expected s = (case s of (h, names) \<Rightarrow>
     and_res (not_timed_out h) (and_res (is_text (py_get h ''status'') ''green'')
       (and_res (bind_res (any_res (\<lambda>k. bind_res (get_or (PInt (-1)) h k) (\<lambda>v. Inr (\<not> is_int v 0)))
           [''unassigned_shards'', ''initializing_shards'', ''relocating_shards'']) (\<lambda>b. Inr (\<not> b)))
         (Inr (names = sort expected)))))"

definition lab_stable :: "fault_config \<Rightarrow> 's fault_lab \<Rightarrow> ustr list \<Rightarrow> (unit, 's) prog" where
  "lab_stable c l expected = bind_eff (poll c l (bind_eff (lab_health c l []) (\<lambda>h. bind_eff (lab_nodes c l) (\<lambda>ns. ret (h, sort (map fst ns)))))
     (stable_sample expected)) (\<lambda>_. ret ())"

text \<open>What is kept of one seed index: its count, its UUID and the digest of its first five documents.\<close>

definition subscript_text :: "pv \<Rightarrow> ustr \<Rightarrow> pv res" where
  "subscript_text v k = (case v of PDict d \<Rightarrow> (case map_of d k of None \<Rightarrow> Inl Key_Error | Some w \<Rightarrow> Inr w) | _ \<Rightarrow> Inl Type_Error)"

definition index_settings :: "ustr \<Rightarrow> pv \<Rightarrow> pv res" where
  "index_settings index reply = bind_res (subscript_text reply index) (\<lambda>x. subscript x ''settings'')"

definition seed_count :: "pv \<Rightarrow> pv res" where
  "seed_count reply = bind_res (check_response reply) (\<lambda>r. bind_res (subscript r ''count'') (\<lambda>n.
     bind_res (number_in n) (\<lambda>k. bind_res (expect (0 < k) ''no seed data. Run lab.sh seed first.'') (\<lambda>_. Inr n))))"

definition seed_sample :: "pv \<Rightarrow> pv res" where
  "seed_sample reply = bind_res (check_response reply) (\<lambda>r. bind_res (subscript r ''hits'') (\<lambda>h. bind_res (bind_res (subscript h ''hits'') rows_of) (\<lambda>ds.
     bind_res (map_res (\<lambda>d. bind_res (subscript d ''_id'') (\<lambda>i. bind_res (subscript d ''_source'') (\<lambda>s.
       Inr (PDict [(u ''id'', i), (u ''source'', s)])))) ds) (\<lambda>docs. Inr (PList docs)))))"

definition sample_query :: pv where
  "sample_query = PDict [(u ''size'', PInt 5), (u ''sort'', PList [PDict [(u ''event_seq'', PStr (u ''asc''))]]),
     (u ''query'', PDict [(u ''match_all'', PDict [])])]"

definition count_path :: "ustr \<Rightarrow> ustr" where "count_path index = u ''/'' @ index @ u ''/_count''"
definition settings_path :: "ustr \<Rightarrow> ustr" where "settings_path index = u ''/'' @ index @ u ''/_settings?flat_settings=true''"
definition search_path :: "ustr \<Rightarrow> ustr" where "search_path index = u ''/'' @ index @ u ''/_search?allow_partial_search_results=false''"

definition seed_entry :: "fault_config \<Rightarrow> pv \<Rightarrow> pv \<Rightarrow> pv \<Rightarrow> pv res" where
  "seed_entry c n settings docs = bind_res (subscript settings ''index.uuid'') (\<lambda>i.
     Inr (PDict [(u ''count'', n), (u ''index_uuid'', i), (u ''sample_sha256'', PStr (fc_digest c docs))]))"

definition read_seed :: "fault_config \<Rightarrow> 's fault_lab \<Rightarrow> ustr \<Rightarrow> (pv, 's) prog" where
  "read_seed c l index = bind_eff (fault_get c l (count_path index)) (\<lambda>r. bind_eff (lift_res (seed_count r)) (\<lambda>n.
     bind_eff (fault_get c l (settings_path index)) (\<lambda>r. bind_eff (lift_res (index_settings index r)) (\<lambda>settings.
     bind_eff (fault_request c l ''POST'' (search_path index) (Json_Body sample_query)) (\<lambda>r. bind_eff (lift_res (seed_sample r)) (\<lambda>docs.
     lift_res (seed_entry c n settings docs)))))))"

fun read_seeds_of :: "fault_config \<Rightarrow> 's fault_lab \<Rightarrow> ustr list \<Rightarrow> (pdict, 's) prog" where
  "read_seeds_of c l [] = ret []"
| "read_seeds_of c l (i # is) = bind_eff (read_seed c l i) (\<lambda>e. bind_eff (read_seeds_of c l is) (\<lambda>rest. ret ((i, e) # rest)))"

definition read_seeds :: "fault_config \<Rightarrow> 's fault_lab \<Rightarrow> (pv, 's) prog" where
  "read_seeds c l = bind_eff (read_seeds_of c l seed_indices) (\<lambda>es. ret (PDict es))"

definition doc_path :: "journal \<Rightarrow> string \<Rightarrow> ustr" where "doc_path j s = u ''/'' @ jo_canary j @ u s"

definition probe_found :: "pv \<Rightarrow> pv \<Rightarrow> bool res" where
  "probe_found body found = bind_res (py_get found ''found'') (\<lambda>f. if \<not> truthy f then Inr False
     else bind_res (py_get found ''_source'') (\<lambda>s. Inr (py_eq s body)))"

definition total_hits :: "pv \<Rightarrow> pv res" where
  "total_hits reply = bind_res (check_response reply) (\<lambda>r. bind_res (subscript r ''hits'') (\<lambda>h. bind_res (subscript h ''total'') (\<lambda>t. subscript t ''value'')))"

definition probe :: "fault_config \<Rightarrow> 's fault_lab \<Rightarrow> bool \<Rightarrow> (unit, 's) prog" where
  "probe c l writing = bind_eff drill_state (\<lambda>j.
     let body = PDict [(u ''run_id'', PStr (jo_run j)), (u ''message'', PStr (u ''fault drill probe'')), (u ''value'', PInt 1)] in
     bind_eff (if writing then bind_eff (fault_request c l ''PUT'' (doc_path j ''/_doc/probe?refresh=true&timeout=5s'') (Json_Body body)) (\<lambda>r.
         lift_res (bind_res (check_response r) (\<lambda>r. bind_res (py_get r ''result'') (\<lambda>x.
           expect (x = PStr (u ''created'') \<or> x = PStr (u ''updated'')) ''Probe write not acknowledged''))))
       else ret ()) (\<lambda>_.
     bind_eff (fault_get c l (doc_path j ''/_doc/probe'')) (\<lambda>found.
     bind_eff (lift_res (bind_res (probe_found body found) (\<lambda>ok. expect ok ''Probe data missing or changed''))) (\<lambda>_.
     bind_eff (fault_request c l ''POST'' (search_path (jo_canary j)) (Json_Body (PDict [(u ''query'', PDict [(u ''term'', PDict [(u ''run_id'', PStr (jo_run j))])])]))) (\<lambda>r.
     lift_res (bind_res (total_hits r) (\<lambda>n. expect (is_int n 1) ''Canary search must return exactly one document'')))))))"

section \<open>Changes\<close>

definition cluster_settings :: ustr where "cluster_settings = u ''/_cluster/settings''"

definition patch_body :: "pdict \<Rightarrow> pv" where
  "patch_body vs = PDict [(u ''persistent'', PDict vs), (u ''transient'', PDict (map (\<lambda>(k, _). (k, PNone)) vs))]"

definition cluster_patch :: "fault_config \<Rightarrow> 's fault_lab \<Rightarrow> pdict \<Rightarrow> (unit, 's) prog" where
  "cluster_patch c l vs = bind_eff drill_state (\<lambda>j. bind_eff (cluster_guard c l (jo_uuid j)) (\<lambda>_.
     bind_eff (fault_request c l ''PUT'' cluster_settings (Json_Body (patch_body vs))) (\<lambda>_. ret ())))"

definition canary_settings :: "fault_config \<Rightarrow> 's fault_lab \<Rightarrow> pdict \<Rightarrow> (unit, 's) prog" where
  "canary_settings c l vs = bind_eff drill_state (\<lambda>j.
     bind_eff (fault_request c l ''PUT'' (doc_path j ''/_settings'') (Json_Body (PDict vs))) (\<lambda>_. ret ()))"

definition index_change :: "fault_config \<Rightarrow> 's fault_lab \<Rightarrow> ustr \<Rightarrow> pv \<Rightarrow> (unit, 's) prog" where
  "index_change c l index v = bind_eff (fault_request c l ''PUT'' (u ''/'' @ index @ u ''/_settings'') (Json_Body v)) (\<lambda>_. ret ())"

definition canary_body :: "journal \<Rightarrow> bool \<Rightarrow> pv" where
  "canary_body j bad = PDict [(u ''settings'', PDict ([(u ''number_of_shards'', PInt 1), (u ''number_of_replicas'', PInt 1)]
       @ (if bad then [(u ''index.routing.allocation.require._name'', PStr (u ''ghost-'' @ jo_run j))] else []))),
     (u ''mappings'', PDict [(u ''_meta'', PDict [(u ''fault_lab_run_id'', PStr (jo_run j))]),
       (u ''properties'', PDict [(u ''run_id'', PDict [(u ''type'', PStr (u ''keyword''))]), (u ''message'', PDict [(u ''type'', PStr (u ''text''))]),
          (u ''value'', PDict [(u ''type'', PStr (u ''integer''))])])])]"

definition create_canary :: "fault_config \<Rightarrow> 's fault_lab \<Rightarrow> bool \<Rightarrow> (unit, 's) prog" where
  "create_canary c l bad = bind_eff drill_state (\<lambda>j.
     bind_eff (fault_request c l ''PUT'' (doc_path j ''?wait_for_active_shards=0&timeout=5s'') (Json_Body (canary_body j bad))) (\<lambda>_.
     if bad then ret () else bind_eff (lab_stable c l (jo_nodes j)) (\<lambda>_. probe c l True)))"

section \<open>The start of a drill\<close>

definition node_roles :: "pv \<Rightarrow> pv list res" where
  "node_roles n = bind_res (get_or (PList []) n ''roles'') rows_of"

definition data_role :: "pv \<Rightarrow> bool res" where
  "data_role r = (case r of PStr s \<Rightarrow> Inr (s = u ''data'' \<or> starts_with (u ''data_'') s) | _ \<Rightarrow> Inl (Other_Error ''AttributeError''))"

definition count_nodes :: "(pv \<Rightarrow> bool res) \<Rightarrow> nodes \<Rightarrow> nat res" where
  "count_nodes f ns = bind_res (filter_res f (map snd ns)) (\<lambda>xs. Inr (length xs))"

definition data_count :: "nodes \<Rightarrow> nat res" where
  "data_count = count_nodes (\<lambda>n. bind_res (node_roles n) (any_res data_role))"

definition eligible_count :: "nodes \<Rightarrow> nat res" where
  "eligible_count = count_nodes (\<lambda>n. bind_res (node_roles n) (\<lambda>rs. Inr (PStr (u ''master'') \<in> set rs)))"

definition master_name :: "pv \<Rightarrow> pv res" where
  "master_name state = bind_res (bind_res (subscript state ''master_node'') as_text) (\<lambda>i.
     bind_res (subscript state ''nodes'') (\<lambda>ns. bind_res (subscript_text ns i) (\<lambda>n. subscript n ''name'')))"

definition started_primary :: "pv \<Rightarrow> bool res" where
  "started_primary s = and_res (is_text (subscript s ''prirep'') ''p'') (is_text (subscript s ''state'') ''STARTED'')"

definition on_node :: "pv \<Rightarrow> pv \<Rightarrow> bool res" where
  "on_node node s = bind_res (py_get s ''node'') (\<lambda>n. Inr (n = node))"

definition shard_id :: "pv \<Rightarrow> pv res" where
  "shard_id s = bind_res (subscript s ''index'') (\<lambda>i. bind_res (subscript s ''shard'') (\<lambda>k. Inr (PDict [(u ''index'', i), (u ''shard'', k)])))"

definition primaries_on :: "ustr \<Rightarrow> pv list \<Rightarrow> pv list res" where
  "primaries_on node shards = bind_res (filter_res (\<lambda>s. and_res (on_node (PStr node) s) (started_primary s)) shards) (map_res shard_id)"

definition primary_owners :: "nodes \<Rightarrow> pv list \<Rightarrow> ustr list res" where
  "primary_owners ns shards = bind_res (filter_res (\<lambda>s. and_res (bind_res (py_get s ''node'') (\<lambda>n. Inr (n \<in> PStr ` fst ` set ns))) (started_primary s)) shards) (\<lambda>xs.
     bind_res (map_res (\<lambda>s. bind_res (subscript s ''node'') as_text) xs) (\<lambda>owners. Inr (sort (remdups owners))))"

text \<open>The node of a node drill: the requested one when it owns a seed primary, else the first owner.\<close>

definition pick_node :: "string \<Rightarrow> ustr \<Rightarrow> nodes \<Rightarrow> pv list \<Rightarrow> (ustr \<times> pv list) res" where
  "pick_node scenario node ns shards = bind_res (primaries_on node shards) (\<lambda>old.
     if scenario \<notin> set node_scenarios \<or> old \<noteq> [] then Inr (node, old)
     else bind_res (primary_owners ns shards) (\<lambda>owners. case owners of
         [] \<Rightarrow> Inl (Runtime_Error ''No node owns a STARTED seed primary; wait for green convergence'')
       | n # _ \<Rightarrow> bind_res (primaries_on n shards) (\<lambda>old. Inr (n, old))))"

definition all_zoned :: "nodes \<Rightarrow> bool res" where
  "all_zoned ns = bind_res (any_res (\<lambda>n. bind_res (py_get_dict n ''attributes'') (\<lambda>a. bind_res (py_get a ''zone'') (\<lambda>z. Inr (\<not> truthy z)))) (map snd ns))
     (\<lambda>b. Inr (\<not> b))"

text \<open>The cluster settings a scenario changes, and the watermarks it will set.\<close>

definition setting_keys :: "fault_config \<Rightarrow> 's fault_lab \<Rightarrow> string \<Rightarrow> nodes \<Rightarrow> (string list \<times> pdict, 's) prog" where
  "setting_keys c l scenario ns =
     (if scenario = ''allocation-disabled'' then ret ([allocation_key], [])
      else if scenario = ''drain-node'' then ret ([exclude_key], [])
      else if scenario = ''zone-awareness'' then lift_res (bind_res (all_zoned ns) (\<lambda>ok. bind_res (expect ok ''Missing node.attr.zone'') (\<lambda>_. Inr ([awareness_key], []))))
      else if scenario = ''rebalance-disabled'' then ret ([rebalance_key], [])
      else if scenario = ''disk-watermark'' then bind_eff (fault_get c l (u ''/_nodes/stats/fs'')) (\<lambda>stats.
        lift_res (bind_res (disk_thresholds stats) (\<lambda>t. Inr (disk_keys, t))))
      else ret ([], []))"

definition scope_original :: "pv \<Rightarrow> string list \<Rightarrow> string \<Rightarrow> pv res" where
  "scope_original cluster keys scope = bind_res (map_res (\<lambda>k. bind_res (py_get_dict cluster scope) (\<lambda>s. bind_res (py_get s k) (\<lambda>v. Inr (u k, v)))) keys) (\<lambda>d. Inr (PDict d))"

definition cluster_original :: "pv \<Rightarrow> string list \<Rightarrow> pdict res" where
  "cluster_original cluster keys = map_res (\<lambda>scope. bind_res (scope_original cluster keys scope) (\<lambda>d. Inr (u scope, d))) [''persistent'', ''transient'']"

definition replicas_original :: "pv \<Rightarrow> pv res" where
  "replicas_original settings = bind_res (get_or (PStr (u ''false'')) settings ''index.auto_expand_replicas'') (\<lambda>a.
     bind_res (expect (a = PStr (u ''false'')) ''Disable auto_expand_replicas first'') (\<lambda>_.
     bind_res (py_get settings ''index.number_of_replicas'') (\<lambda>n. Inr (PDict [(u ''index.number_of_replicas'', n)]))))"

definition index_original :: "fault_config \<Rightarrow> 's fault_lab \<Rightarrow> string \<Rightarrow> ustr \<Rightarrow> (pdict, 's) prog" where
  "index_original c l scenario index = (if scenario \<noteq> ''too-many-replicas'' then ret []
     else bind_eff (fault_get c l (settings_path index)) (\<lambda>r.
       lift_res (bind_res (index_settings index r) (\<lambda>s. bind_res (replicas_original s) (\<lambda>d. Inr [(index, d)])))))"
definition seed_shards :: "fault_config \<Rightarrow> 's fault_lab \<Rightarrow> (pv list, 's) prog" where
  "seed_shards c l = bind_eff (fault_get c l (u ''/_cat/shards/'' @ concat (map (\<lambda>(k, i). if k = 0 then i else 44 # i) (enumerate 0 seed_indices)) @ u ''?format=json''))
     (\<lambda>r. lift_res (rows_of r))"

definition cluster_state :: ustr where "cluster_state = u ''/_cluster/state/master_node,nodes''"

definition flat_settings :: ustr where "flat_settings = u ''/_cluster/settings?flat_settings=true''"

text \<open>\<open>dict.fromkeys([x for x in before.split(",") if x] + [node])\<close>, joined by commas.\<close>

definition excluded_nodes :: "pv \<Rightarrow> ustr \<Rightarrow> ustr res" where
  "excluded_nodes old node = bind_res (if truthy old then (case old of PStr s \<Rightarrow> Inr s | _ \<Rightarrow> Inl (Other_Error ''AttributeError'')) else Inr []) (\<lambda>s.
     Inr (let names = rev (remdups (rev (filter (\<lambda>x. x \<noteq> []) (split_on 44 s) @ [node]))) in
       concat (map (\<lambda>(k, x). if k = 0 then x else 44 # x) (enumerate 0 names))))"

definition stop_action :: "string \<Rightarrow> string" where
  "stop_action scenario = (if scenario = ''node-crash'' then ''kill'' else ''stop'')"

definition stop_node :: "fault_config \<Rightarrow> 's fault_lab \<Rightarrow> string \<Rightarrow> ustr \<Rightarrow> (unit, 's) prog" where
  "stop_node c l scenario node = bind_eff (seed_shards c l) (\<lambda>current.
     bind_eff (lift_res (primaries_on node current)) (\<lambda>old.
     bind_eff (set_state (\<lambda>j. j\<lparr>jo_primaries := old\<rparr>)) (\<lambda>_.
     bind_eff (lift_res (expect (old \<noteq> []) ''Target no longer owns a primary; retry after rebalance'')) (\<lambda>_.
     bind_eff (if scenario = ''master-failover'' then bind_eff (fault_get c l cluster_state) (\<lambda>latest.
         lift_res (bind_res (master_name latest) (\<lambda>m. expect (m = PStr node) ''Master changed while preparing the drill'')))
       else ret ()) (\<lambda>_.
     bind_eff (verify_runtime_node c l node) (\<lambda>_.
     bind_eff (set_state (\<lambda>j. j\<lparr>jo_restart := True\<rparr>)) (\<lambda>_.
     bind_eff (note_event l ''node-action-requested'') (\<lambda>_.
     on_world (compose_action l (stop_action scenario) node)))))))))"

definition inject :: "fault_config \<Rightarrow> 's fault_lab \<Rightarrow> string \<Rightarrow> ustr \<Rightarrow> ustr \<Rightarrow> nat \<Rightarrow> pv \<Rightarrow> pdict \<Rightarrow> (unit, 's) prog" where
  "inject c l scenario node index n cluster thresholds =
     (if scenario \<in> set node_scenarios then stop_node c l scenario node
      else if scenario = ''too-many-replicas'' then index_change c l index (PDict [(u ''index.number_of_replicas'', PInt (int n))])
      else if scenario = ''allocation-disabled'' then bind_eff (cluster_patch c l [(u allocation_key, PStr (u ''none''))]) (\<lambda>_.
        canary_settings c l [(u ''index.number_of_replicas'', PInt 2)])
      else if scenario = ''write-block'' then canary_settings c l [(u ''index.blocks.write'', PBool True)]
      else if scenario = ''drain-node'' then bind_eff (lift_res (bind_res (effective cluster exclude_key) (\<lambda>b. excluded_nodes b node))) (\<lambda>v.
        cluster_patch c l [(u exclude_key, PStr v)])
      else if scenario = ''disk-watermark'' then bind_eff (cluster_patch c l thresholds) (\<lambda>_.
        canary_settings c l [(u ''index.number_of_replicas'', PInt 2)])
      else if scenario = ''zone-awareness'' then cluster_patch c l [(u awareness_key, PStr (u ''zone''))]
      else if scenario = ''rebalance-disabled'' then cluster_patch c l [(u rebalance_key, PStr (u ''none''))]
      else ret ())"

section \<open>The check of a fault\<close>

definition explain :: "fault_config \<Rightarrow> 's fault_lab \<Rightarrow> ustr \<Rightarrow> (pv, 's) prog" where
  "explain c l index = bind_eff (fault_get c l (u ''/_cat/shards'' @ (if index = [] then [] else u ''/'' @ index) @ u ''?format=json'')) (\<lambda>r.
     bind_eff (lift_res (bind_res (rows_of r) (filter_res (\<lambda>s. is_text (subscript s ''state'') ''UNASSIGNED'')))) (\<lambda>open_shards. case open_shards of
       [] \<Rightarrow> ret (PDict [(u ''note'', PStr (u ''No UNASSIGNED shard at this sampling instant''))])
     | s # _ \<Rightarrow> bind_eff (lift_res (bind_res (subscript s ''index'') (\<lambda>i. bind_res (bind_res (subscript s ''shard'') int_value) (\<lambda>k.
           bind_res (is_text (subscript s ''prirep'') ''p'') (\<lambda>p. Inr (PDict [(u ''index'', i), (u ''shard'', PInt k), (u ''primary'', PBool p)])))))) (\<lambda>b.
         fault_request c l ''GET'' (u ''/_cluster/allocation/explain?include_yes_decisions=true&include_disk_info=true'') (Json_Body b))))"

definition list_field :: "pv \<Rightarrow> string \<Rightarrow> pv list res" where
  "list_field v k = bind_res (get_or (PList []) v k) rows_of"

definition explains_no :: "string \<Rightarrow> pv \<Rightarrow> bool res" where
  "explains_no decider e = bind_res (list_field e ''node_allocation_decisions'') (any_res (\<lambda>n.
     bind_res (list_field n ''deciders'') (any_res (\<lambda>d. and_res (is_text (py_get d ''decider'') decider) (is_text (py_get d ''decision'') ''NO'')))))"

definition departed :: "journal \<Rightarrow> nodes \<Rightarrow> bool res" where
  "departed j ns = Inr (jo_node j \<notin> fst ` set ns \<and> fst ` set ns = set (jo_nodes j) - {jo_node j})"

definition promoted :: "journal \<Rightarrow> pv list \<Rightarrow> pv \<Rightarrow> bool res" where
  "promoted j rows old = any_res (\<lambda>s. and_res (bind_res (shard_id s) (\<lambda>k. Inr (py_eq k old)))
     (and_res (is_text (subscript s ''prirep'') ''p'') (and_res (bind_res (subscript s ''state'') (\<lambda>v. Inr (v = PStr (u ''STARTED'') \<or> v = PStr (u ''RELOCATING''))))
       (bind_res (on_node (PStr (jo_node j)) s) (\<lambda>b. Inr (\<not> b)))))) rows"

definition status_in :: "string list \<Rightarrow> pv \<Rightarrow> bool res" where
  "status_in ss h = and_res (not_timed_out h) (bind_res (py_get h ''status'') (\<lambda>v. Inr (v \<in> PStr ` u ` set ss)))"

definition check_departure :: "fault_config \<Rightarrow> 's fault_lab \<Rightarrow> journal \<Rightarrow> (unit, 's) prog" where
  "check_departure c l j = bind_eff (poll c l (lab_nodes c l) (departed j)) (\<lambda>_.
     bind_eff (poll c l (lab_health c l []) (status_in [''yellow'', ''green''])) (\<lambda>_.
     bind_eff (seed_shards c l) (\<lambda>rows.
     bind_eff (lift_res (bind_res (filter_res (promoted j rows) (jo_primaries j)) (\<lambda>ok.
       expect (length ok = length (jo_primaries j)) ''An original primary was not promoted to a surviving node''))) (\<lambda>_.
     if jo_scenario j = ''master-failover'' then bind_eff (fault_get c l cluster_state) (\<lambda>m.
       lift_res (bind_res (master_name m) (\<lambda>elected. expect (\<not> py_eq elected (jo_master j)) ''No master change observed'')))
     else ret ()))))"

definition expected_decider :: "string \<Rightarrow> string" where
  "expected_decider scenario = (if scenario = ''too-many-replicas'' then ''same_shard'' else if scenario = ''allocation-disabled'' then ''enable''
     else if scenario = ''allocation-filter'' then ''filter'' else ''disk_threshold'')"

definition unassigned_as :: "string \<Rightarrow> pv \<Rightarrow> bool res" where
  "unassigned_as colour h = and_res (status_in [colour] h) (bind_res (bind_res (get_or (PInt 0) h ''unassigned_shards'') number_in) (\<lambda>n. Inr (0 < n)))"

definition check_unassigned :: "fault_config \<Rightarrow> 's fault_lab \<Rightarrow> journal \<Rightarrow> (unit, 's) prog" where
  "check_unassigned c l j = (let target = (if jo_scenario j = ''too-many-replicas'' then jo_index j else jo_canary j) in
     bind_eff (poll c l (lab_health c l target) (unassigned_as (if jo_scenario j = ''allocation-filter'' then ''red'' else ''yellow''))) (\<lambda>_.
     bind_eff (poll c l (explain c l target) (explains_no (expected_decider (jo_scenario j)))) (\<lambda>_. ret ())))"

text \<open>A request that the cluster must refuse with the status and one of the texts.\<close>

definition must_refuse :: "int \<Rightarrow> string list \<Rightarrow> (pv, 's) prog \<Rightarrow> (unit, 's) prog" where
  "must_refuse status texts m = bind_eff (catching is_api_error m) (\<lambda>r. case r of
       Inl (Http_Error st detail) \<Rightarrow> lift_res (expect (st = status \<and> list_ex (\<lambda>t. text_in (u t) (case detail of None \<Rightarrow> [] | Some d \<Rightarrow> d)) texts) ''Unexpected error'')
     | _ \<Rightarrow> raise_exn (Runtime_Error ''Expected rejection, but the request succeeded''))"

definition check_write_block :: "fault_config \<Rightarrow> 's fault_lab \<Rightarrow> journal \<Rightarrow> (unit, 's) prog" where
  "check_write_block c l j = bind_eff (lab_stable c l (jo_nodes j)) (\<lambda>_.
     bind_eff (must_refuse 403 [''cluster_block_exception''] (fault_request c l ''PUT'' (doc_path j ''/_doc/blocked?timeout=3s'') (Json_Body (PDict [(u ''value'', PInt 2)])))) (\<lambda>_.
     bind_eff (lab_health c l []) (\<lambda>_. ret ())))"

definition drained :: "journal \<Rightarrow> pv \<Rightarrow> bool res" where
  "drained j rows = bind_res (rows_of rows) (\<lambda>ss. bind_res (any_res (on_node (PStr (jo_node j))) ss) (\<lambda>b. Inr (\<not> b)))"

definition check_drained :: "fault_config \<Rightarrow> 's fault_lab \<Rightarrow> journal \<Rightarrow> (unit, 's) prog" where
  "check_drained c l j = (let shards = fault_get c l (u ''/_cat/shards?format=json'') in
     bind_eff (poll c l shards (drained j)) (\<lambda>_.
     bind_eff (lab_stable c l (jo_nodes j)) (\<lambda>_.
     bind_eff shards (\<lambda>rows. lift_res (bind_res (drained j rows) (\<lambda>ok. expect ok ''Drain incomplete after convergence''))))))"

definition zone_of :: "nodes \<Rightarrow> pv \<Rightarrow> pv res" where
  "zone_of ns s = bind_res (bind_res (subscript s ''node'') as_text) (\<lambda>n. case map_of ns n of None \<Rightarrow> Inl Key_Error
     | Some x \<Rightarrow> bind_res (subscript x ''attributes'') (\<lambda>a. subscript a ''zone''))"

definition zones_apart :: "nodes \<Rightarrow> pv list \<Rightarrow> bool res" where
  "zones_apart ns rows = bind_res (map_res (\<lambda>s. bind_res (shard_id s) (\<lambda>k. bind_res (zone_of ns s) (\<lambda>z. Inr (k, z)))) rows) (\<lambda>ks.
     Inr (list_all (\<lambda>k. distinct (map snd (filter (\<lambda>(k', _). k' = k) ks))) (map fst ks)))"

definition check_setting :: "fault_config \<Rightarrow> 's fault_lab \<Rightarrow> journal \<Rightarrow> (unit, 's) prog" where
  "check_setting c l j = bind_eff (lab_stable c l (jo_nodes j)) (\<lambda>_.
     bind_eff (if jo_scenario j = ''zone-awareness'' then bind_eff (lab_nodes c l) (\<lambda>ns. bind_eff (seed_shards c l) (\<lambda>rows.
         lift_res (bind_res (zones_apart ns rows) (\<lambda>ok. expect ok ''Copies share a zone'')))) else ret ()) (\<lambda>_.
     bind_eff (fault_get c l flat_settings) (\<lambda>s.
     lift_res (bind_res (effective s (if jo_scenario j = ''zone-awareness'' then awareness_key else rebalance_key)) (\<lambda>v.
       expect (v = PStr (u (if jo_scenario j = ''zone-awareness'' then ''zone'' else ''none''))) ''Setting was not actually applied'')))))"

definition check_scenario :: "fault_config \<Rightarrow> 's fault_lab \<Rightarrow> journal \<Rightarrow> (unit, 's) prog" where
  "check_scenario c l j =
     (if jo_scenario j \<in> set node_scenarios then check_departure c l j
      else if jo_scenario j \<in> {''too-many-replicas'', ''allocation-disabled'', ''allocation-filter'', ''disk-watermark''} then check_unassigned c l j
      else if jo_scenario j = ''write-block'' then check_write_block c l j
      else if jo_scenario j = ''drain-node'' then check_drained c l j
      else check_setting c l j)"

definition same_seeds :: "fault_config \<Rightarrow> 's fault_lab \<Rightarrow> journal \<Rightarrow> string \<Rightarrow> (unit, 's) prog" where
  "same_seeds c l j message = bind_eff (read_seeds c l) (\<lambda>s. lift_res (expect (py_eq s (jo_baseline j)) message))"

definition current_state :: "fault_config \<Rightarrow> 's fault_lab \<Rightarrow> (journal, 's) prog" where
  "current_state c l = bind_eff get_drill (\<lambda>d. bind_eff (if dr_state d = None then load_journal c l else drill_state) (\<lambda>_. drill_state))"

definition drill_check :: "fault_config \<Rightarrow> 's fault_lab \<Rightarrow> (unit, 's) prog" where
  "drill_check c l = bind_eff (current_state c l) (\<lambda>j. bind_eff (cluster_guard c l (jo_uuid j)) (\<lambda>_.
     bind_eff (check_scenario c l j) (\<lambda>_.
     bind_eff (same_seeds c l j ''Seed count/index UUID/sample changed during fault'') (\<lambda>_.
     bind_eff (if jo_scenario j = ''allocation-filter''
       then must_refuse 503 [''search_phase_execution_exception'', ''no_shard_available_action_exception'', ''unavailable_shards_exception'']
         (fault_request c l ''POST'' (search_path (jo_canary j)) (Json_Body (PDict [(u ''query'', PDict [(u ''match_all'', PDict [])])])))
       else probe c l (jo_scenario j \<noteq> ''write-block'')) (\<lambda>_.
     bind_eff (set_state (\<lambda>j. j\<lparr>jo_check := Some True, jo_status := ''OBSERVED''\<rparr>)) (\<lambda>_. note_event l ''fault-check-PASS''))))))"

definition new_journal :: "fault_config \<Rightarrow> string \<Rightarrow> ustr \<Rightarrow> ustr \<Rightarrow> pv \<Rightarrow> pv \<Rightarrow> nodes \<Rightarrow> pv \<Rightarrow> pv list \<Rightarrow> pv \<Rightarrow> pdict \<Rightarrow> pdict \<Rightarrow> ustr \<Rightarrow> journal" where
  "new_journal c scenario node index cluster_uuid master ns baseline old cluster originals indices run =
     \<lparr>jo_format = PInt 1, jo_run = run, jo_scenario = scenario, jo_uuid = cluster_uuid, jo_project = fc_project c, jo_node = node,
      jo_nodes = sort (map fst ns), jo_master = master, jo_primaries = old, jo_index = index, jo_baseline = baseline,
      jo_canary = u ''lab-fault-'' @ run, jo_status = ''PREPARING'', jo_events = [], jo_cluster = originals, jo_indices = indices,
      jo_restart = False, jo_check = None, jo_error = False, jo_recovery = None, jo_result = None\<rparr>"

text \<open>What the drill reads before its journal exists: the node, the journal, the count of data nodes, the settings.\<close>

definition prepare :: "fault_config \<Rightarrow> 's fault_lab \<Rightarrow> string \<Rightarrow> ustr \<Rightarrow> ustr \<Rightarrow> (ustr \<times> journal \<times> nat \<times> pv \<times> pdict, 's) prog" where
  "prepare c l scenario node0 index =
     bind_eff (on_world (fl_exists l)) (\<lambda>e.
     bind_eff (lift_res (bind_res (expect (\<not> e) ''An active drill exists. Run check/recover before another drill.'') (\<lambda>_.
       bind_res (expect (scenario \<in> set scenarios) ''Unknown scenario'') (\<lambda>_. bind_res (validate_node node0) (\<lambda>_.
       expect (index \<in> set seed_indices) ''INDEX must be exactly one of the seed indices''))))) (\<lambda>_.
     bind_eff (cluster_guard c l PNone) (\<lambda>info.
     bind_eff (lab_nodes c l) (\<lambda>ns.
     bind_eff (lift_res (bind_res (expect (list_all lab_node (map fst ns)) ''Unexpected node names: not this lab topology'') (\<lambda>_. data_count ns))) (\<lambda>n.
     bind_eff (lift_res (bind_res (expect (5 \<le> n) ''Need >=5 data nodes before a fault drill'') (\<lambda>_.
       expect (node0 \<in> fst ` set ns) ''Requested node is not a current member''))) (\<lambda>_.
     bind_eff (lab_stable c l (map fst ns)) (\<lambda>_.
     bind_eff (read_seeds c l) (\<lambda>baseline.
     bind_eff (fault_get c l flat_settings) (\<lambda>cluster.
     bind_eff (fault_get c l cluster_state) (\<lambda>state.
     bind_eff (lift_res (master_name state)) (\<lambda>master.
     bind_eff (lift_res (if scenario = ''master-failover'' then as_text master else Inr node0)) (\<lambda>node1.
     bind_eff (lift_res (expect ((scenario \<in> set node_scenarios \<or> scenario = ''drain-node'') \<longrightarrow> node1 \<noteq> u ''es06'') ''Node drills target es01..es05'')) (\<lambda>_.
     bind_eff (if scenario \<in> set node_scenarios then bind_eff (lift_res (bind_res (eligible_count ns) (\<lambda>k.
         expect (3 \<le> k) ''Not enough master-eligible members for a one-node drill''))) (\<lambda>_. verify_runtime_node c l node1) else ret ()) (\<lambda>_.
     bind_eff (seed_shards c l) (\<lambda>shards.
     bind_eff (lift_res (pick_node scenario node1 ns shards)) (\<lambda>(node, old).
     bind_eff (lift_res (if scenario \<noteq> ''drain-node'' then Inr () else bind_res (any_res (on_node (PStr node)) shards) (\<lambda>b.
       expect b ''Target already empty; no drain to test''))) (\<lambda>_.
     bind_eff (setting_keys c l scenario ns) (\<lambda>(keys, thresholds).
     bind_eff (index_original c l scenario index) (\<lambda>indices.
     bind_eff (on_world (fl_run_id l)) (\<lambda>run.
     bind_eff (lift_res (bind_res (subscript info ''cluster_uuid'') (\<lambda>i. bind_res (cluster_original cluster keys) (\<lambda>originals. Inr (i, originals))))) (\<lambda>(i, originals).
     ret (node, new_journal c scenario node index i master ns baseline old cluster originals indices run, n, cluster, thresholds))))))))))))))))))))))"

definition drill_begin :: "fault_config \<Rightarrow> 's fault_lab \<Rightarrow> string \<Rightarrow> ustr \<Rightarrow> ustr \<Rightarrow> (unit, 's) prog" where
  "drill_begin c l scenario node0 index = bind_eff (prepare c l scenario node0 index) (\<lambda>(node, j, n, cluster, thresholds).
     bind_eff (change (\<lambda>d. d\<lparr>dr_state := Some j\<rparr>)) (\<lambda>_.
     bind_eff (note_event l ''journal-saved'') (\<lambda>_.
     bind_eff (create_canary c l (scenario = ''allocation-filter'')) (\<lambda>_.
     bind_eff (inject c l scenario node index n cluster thresholds) (\<lambda>_.
     bind_eff (set_state (\<lambda>j. j\<lparr>jo_status := ''INJECTED''\<rparr>)) (\<lambda>_.
     bind_eff (note_event l ''injected'') (\<lambda>_. drill_check c l)))))))"
section \<open>Recovery\<close>

definition canary_owner :: "journal \<Rightarrow> pv \<Rightarrow> pv res" where
  "canary_owner j mapping = bind_res (subscript_text mapping (jo_canary j)) (\<lambda>x. bind_res (subscript x ''mappings'') (\<lambda>m.
     bind_res (py_get_dict m ''_meta'') (\<lambda>meta. py_get meta ''fault_lab_run_id'')))"

definition mapping_path :: "journal \<Rightarrow> ustr" where "mapping_path j = doc_path j ''/_mapping''"

definition not_found :: "exn \<Rightarrow> bool" where
  "not_found e \<longleftrightarrow> (case e of Http_Error st _ \<Rightarrow> st = 404 | _ \<Rightarrow> False)"

definition owned_canary :: "fault_config \<Rightarrow> 's fault_lab \<Rightarrow> journal \<Rightarrow> (bool, 's) prog" where
  "owned_canary c l j = bind_eff (catching not_found (fault_get c l (mapping_path j))) (\<lambda>r. case r of
       Inl _ \<Rightarrow> ret False
     | Inr mapping \<Rightarrow> bind_eff (lift_res (bind_res (canary_owner j mapping) (\<lambda>w.
         expect (w = PStr (jo_run j)) ''Canary ownership mismatch: will NOT modify/delete this index''))) (\<lambda>_. ret True))"

text \<open>An attempt whose expected failures are collected.\<close>

definition tolerate :: "(exn \<Rightarrow> bool) \<Rightarrow> (unit, 's) eff \<Rightarrow> (exn list, 's) eff" where
  "tolerate caught m = bind_eff (catching caught m) (\<lambda>r. ret (case r of Inl e \<Rightarrow> [e] | Inr _ \<Rightarrow> []))"

definition compose_error :: "exn \<Rightarrow> bool" where
  "compose_error e \<longleftrightarrow> e = os_error \<or> e = Other_Error ''SubprocessError''"

fun restore_indices :: "fault_config \<Rightarrow> 's fault_lab \<Rightarrow> pdict \<Rightarrow> (exn list, 's) prog" where
  "restore_indices c l [] = ret []"
| "restore_indices c l ((index, v) # rest) = bind_eff (lift_res (expect (index \<in> set seed_indices) ''Invalid seed index in journal'')) (\<lambda>_.
     bind_eff (tolerate transient_error (index_change c l index v)) (\<lambda>es.
     bind_eff (restore_indices c l rest) (\<lambda>es'. ret (es @ es'))))"

definition reset_canary :: "fault_config \<Rightarrow> 's fault_lab \<Rightarrow> journal \<Rightarrow> (unit, 's) prog" where
  "reset_canary c l j = bind_eff (owned_canary c l j) (\<lambda>mine. if \<not> mine then ret ()
     else canary_settings c l [(u ''index.routing.allocation.require._name'', PNone), (u ''index.blocks.write'', PNone), (u ''index.number_of_replicas'', PInt 1)])"

text \<open>\<open>all(restored.get(k) == v for k, v in fields.items())\<close>\<close>

definition fields_of :: "pv \<Rightarrow> pdict res" where
  "fields_of v = (case v of PDict d \<Rightarrow> Inr d | _ \<Rightarrow> Inl (Other_Error ''AttributeError''))"

definition has_fields :: "pv \<Rightarrow> pdict \<Rightarrow> bool res" where
  "has_fields now fs = bind_res (any_res (\<lambda>(k, v). case now of
       PDict d \<Rightarrow> Inr (\<not> py_eq (case map_of d k of None \<Rightarrow> PNone | Some w \<Rightarrow> w) v) | _ \<Rightarrow> Inl (Other_Error ''AttributeError'')) fs) (\<lambda>b. Inr (\<not> b))"

definition scope_now :: "pv \<Rightarrow> ustr \<Rightarrow> pv res" where
  "scope_now now scope = (case now of PDict d \<Rightarrow> Inr (case map_of d scope of None \<Rightarrow> PDict [] | Some w \<Rightarrow> w) | _ \<Rightarrow> Inl (Other_Error ''AttributeError''))"

fun scopes_restored :: "pv \<Rightarrow> pdict \<Rightarrow> unit res" where
  "scopes_restored now [] = Inr ()"
| "scopes_restored now ((scope, v) # rest) = bind_res (fields_of v) (\<lambda>fs. bind_res (if fs = [] then Inr True
       else bind_res (scope_now now scope) (\<lambda>s. has_fields s fs)) (\<lambda>ok.
     bind_res (expect ok ''settings were not restored to their original values'') (\<lambda>_. scopes_restored now rest)))"

definition index_restored :: "ustr \<Rightarrow> pv \<Rightarrow> pv \<Rightarrow> unit res" where
  "index_restored index v reply = bind_res (fields_of v) (\<lambda>fs. bind_res (index_settings index reply) (\<lambda>s.
     bind_res (has_fields s fs) (\<lambda>ok. expect ok ''Original index settings not restored'')))"

fun verify_indices :: "fault_config \<Rightarrow> 's fault_lab \<Rightarrow> pdict \<Rightarrow> (unit, 's) prog" where
  "verify_indices c l [] = ret ()"
| "verify_indices c l ((index, v) # rest) = bind_eff (fault_get c l (settings_path index)) (\<lambda>r.
     bind_eff (lift_res (index_restored index v r)) (\<lambda>_. verify_indices c l rest))"

definition remove_canary :: "fault_config \<Rightarrow> 's fault_lab \<Rightarrow> journal \<Rightarrow> (unit, 's) prog" where
  "remove_canary c l j = bind_eff (owned_canary c l j) (\<lambda>mine. if \<not> mine then ret ()
     else bind_eff (probe c l True) (\<lambda>_. bind_eff (fault_request c l ''DELETE'' (u ''/'' @ jo_canary j) No_Body) (\<lambda>_. ret ())))"

definition verify_recovery :: "fault_config \<Rightarrow> 's fault_lab \<Rightarrow> journal \<Rightarrow> (unit, 's) prog" where
  "verify_recovery c l j = bind_eff (lab_stable c l (jo_nodes j)) (\<lambda>_.
     bind_eff (same_seeds c l j ''Seed count/index UUID/sample changed after recovery'') (\<lambda>_.
     bind_eff (fault_get c l flat_settings) (\<lambda>now. bind_eff (lift_res (scopes_restored now (jo_cluster j))) (\<lambda>_.
     bind_eff (verify_indices c l (jo_indices j)) (\<lambda>_.
     bind_eff (remove_canary c l j) (\<lambda>_. lab_stable c l (jo_nodes j)))))))"

definition finish_recovery :: "'s fault_lab \<Rightarrow> (unit, 's) prog" where
  "finish_recovery l = bind_eff (set_state (\<lambda>j. j\<lparr>jo_recovery := Some True, jo_status := ''RECOVERED'',
       jo_result := Some (jo_check j = Some True \<and> \<not> jo_error j)\<rparr>)) (\<lambda>_.
     bind_eff (note_event l ''recovery-PASS'') (\<lambda>_.
     bind_eff drill_state (\<lambda>j. bind_eff (on_world (fl_archive l j)) (\<lambda>_. on_world (fl_unlink l)))))"

text \<open>The recovery of the state \<open>j\<close>, its cluster checked.\<close>

definition recovery_steps :: "fault_config \<Rightarrow> 's fault_lab \<Rightarrow> journal \<Rightarrow> (unit, 's) prog" where
  "recovery_steps c l j =
     bind_eff (set_state (\<lambda>j. j\<lparr>jo_status := ''RECOVERING''\<rparr>)) (\<lambda>_. bind_eff (note_event l ''recovery-started'') (\<lambda>_.
     bind_eff (if jo_restart j then tolerate compose_error (on_world (compose_action l ''start'' (jo_node j))) else ret []) (\<lambda>e1.
     bind_eff (if list_ex (\<lambda>(_, v). truthy v) (jo_cluster j)
       then tolerate transient_error (bind_eff (fault_request c l ''PUT'' cluster_settings (Json_Body (PDict (jo_cluster j)))) (\<lambda>_. ret ())) else ret []) (\<lambda>e2.
     bind_eff (restore_indices c l (jo_indices j)) (\<lambda>e3.
     bind_eff (tolerate runtime_error (reset_canary c l j)) (\<lambda>e4.
     bind_eff (tolerate runtime_error (verify_recovery c l j)) (\<lambda>e5.
     if e1 @ e2 @ e3 @ e4 @ e5 \<noteq> []
     then bind_eff (set_state (\<lambda>j. j\<lparr>jo_recovery := Some False, jo_status := ''RECOVERY_FAILED''\<rparr>)) (\<lambda>_.
       bind_eff (note_event l ''recovery-FAIL'') (\<lambda>_. raise_exn (Runtime_Error ''Recovery incomplete; journal preserved.'')))
     else finish_recovery l)))))))"

definition drill_recover :: "fault_config \<Rightarrow> 's fault_lab \<Rightarrow> (unit, 's) prog" where
  "drill_recover c l = bind_eff (current_state c l) (\<lambda>j. bind_eff (cluster_guard c l (jo_uuid j)) (\<lambda>_. recovery_steps c l j))"

section \<open>Commands\<close>

definition failed_test :: "'s fault_lab \<Rightarrow> string \<Rightarrow> (unit, 's) prog" where
  "failed_test l name = bind_eff get_drill (\<lambda>d. if dr_state d = None then ret ()
     else bind_eff (set_state (\<lambda>j. j\<lparr>jo_error := True\<rparr>)) (\<lambda>_. note_event l name))"

text \<open>
  \<open>try ... except BaseException ... finally\<close>: an exception of the failure note replaces the test's; the rollback runs when the
  drill has a state and is not left or has failed.
\<close>

definition drill_run :: "fault_config \<Rightarrow> 's fault_lab \<Rightarrow> string \<Rightarrow> ustr \<Rightarrow> ustr \<Rightarrow> rat \<Rightarrow> bool \<Rightarrow> (unit, 's) prog" where
  "drill_run c l scenario node index hold leave =
     bind_eff (on_world (fl_exists l)) (\<lambda>e. if e then raise_exn (Runtime_Error ''Active drill exists; recover it first'') else
     bind_eff (catching (\<lambda>_. True) (bind_eff (drill_begin c l scenario node index) (\<lambda>_.
         if hold \<noteq> 0 then on_world (ht_sleep (fl_http l) hold) else ret ()))) (\<lambda>problem.
     bind_eff (catching (\<lambda>_. True) (if is_ok problem then ret () else failed_test l ''test-FAIL'')) (\<lambda>noted.
     bind_eff get_drill (\<lambda>d.
     bind_eff (if dr_state d \<noteq> None \<and> (\<not> leave \<or> \<not> is_ok problem)
       then bind_eff (catching (\<lambda>_. True) (drill_recover c l)) (\<lambda>r. case r of
           Inl e \<Rightarrow> raise_exn (if is_ok problem then e else Runtime_Error ''Test failed; rollback also failed'') | Inr _ \<Rightarrow> ret ())
       else ret ()) (\<lambda>_.
     bind_eff (lift_res noted) (\<lambda>_. lift_res problem))))))"

datatype fault_command = Cmd_List | Cmd_Run | Cmd_Apply | Cmd_Check | Cmd_Recover | Cmd_Status | Cmd_Diagnose

text \<open>\<open>fa_scenario\<close> is \<open>None\<close> when none is given; \<open>all\<close> is the default suite.\<close>

record fault_args =
  fa_command :: fault_command
  fa_scenario :: "string option"
  fa_node :: ustr
  fa_index :: ustr
  fa_yes :: bool
  fa_hold :: rat

definition accept_args :: "fault_config \<Rightarrow> fault_args \<Rightarrow> unit res" where
  "accept_args c a = bind_res (expect (0 < fc_timeout c) ''--timeout must be finite and positive'') (\<lambda>_.
     bind_res (expect (0 \<le> fa_hold a \<and> fa_hold a \<le> 600) ''--hold must be finite and 0..600'') (\<lambda>_.
     bind_res (validate_node (fa_node a)) (\<lambda>_. expect (fa_index a \<in> set seed_indices) ''INDEX must be one of the seed indices'')))"

definition accept_command :: "fault_args \<Rightarrow> unit res" where
  "accept_command a = bind_res (if fa_command a = Cmd_Run \<or> fa_command a = Cmd_Apply
     then bind_res (expect (fa_yes a) ''Fault injection needs --yes.'') (\<lambda>_.
       bind_res (expect (fa_scenario a \<noteq> None) ''Choose a scenario (list)'') (\<lambda>_.
       expect (fa_command a = Cmd_Run \<or> fa_scenario a \<noteq> Some ''all'') ''apply all is not allowed''))
     else expect (fa_scenario a = None) ''Do not pass a scenario to check/recover/status/diagnose'') (\<lambda>_.
     expect (fa_command a = Cmd_Run \<or> fa_hold a = 0) ''--hold is only valid for run'')"

text \<open>A command's drill starts with a new client and no state.\<close>

definition fresh :: "('a, 's) prog \<Rightarrow> ('a, 's) eff" where
  "fresh m = (\<lambda>w. case m (w, new_drill) of (r, w', _) \<Rightarrow> (r, w'))"

definition manual_check :: "fault_config \<Rightarrow> 's fault_lab \<Rightarrow> (unit, 's) prog" where
  "manual_check c l = bind_eff (catching runtime_error (drill_check c l)) (\<lambda>r. case r of
       Inr _ \<Rightarrow> ret ()
     | Inl e \<Rightarrow> bind_eff get_drill (\<lambda>d. if dr_state d = None then raise_exn e
         else bind_eff (set_state (\<lambda>j. j\<lparr>jo_error := True, jo_check := Some False\<rparr>)) (\<lambda>_.
           bind_eff (note_event l ''manual-check-FAIL'') (\<lambda>_. raise_exn e))))"

definition diagnose_paths :: "string list" where
  "diagnose_paths = [''/_cluster/health?master_timeout=3s&timeout=3s'', ''/_nodes'', ''/_cat/shards?format=json'', ''/_cluster/settings?flat_settings=true'',
     ''/_nodes/stats/fs'', ''/_nodes/stats/jvm'', ''/_nodes/stats/thread_pool'', ''/_cluster/pending_tasks'', ''/_cat/recovery?active_only=true&format=json'']"

fun diagnose_reads :: "fault_config \<Rightarrow> 's fault_lab \<Rightarrow> string list \<Rightarrow> ((exn + pv) list, 's) prog" where
  "diagnose_reads c l [] = bind_eff (catching runtime_error (explain c l [])) (\<lambda>r. ret [r])"
| "diagnose_reads c l (p # ps) = bind_eff (catching runtime_error (fault_get c l (u p))) (\<lambda>r. bind_eff (diagnose_reads c l ps) (\<lambda>rs. ret (r # rs)))"

definition diagnose :: "fault_config \<Rightarrow> 's fault_lab \<Rightarrow> ((exn + pv) list, 's) prog" where
  "diagnose c l = bind_eff (cluster_guard c l PNone) (\<lambda>_. diagnose_reads c l diagnose_paths)"

fun run_suite :: "fault_config \<Rightarrow> 's fault_lab \<Rightarrow> fault_args \<Rightarrow> string list \<Rightarrow> (unit, 's) eff" where
  "run_suite c l a [] = ret ()"
| "run_suite c l a (s # ss) = bind_eff (fresh (drill_run c l s (fa_node a) (fa_index a) (fa_hold a) (fa_command a = Cmd_Apply))) (\<lambda>_. run_suite c l a ss)"

definition fault_main :: "fault_config \<Rightarrow> 's fault_lab \<Rightarrow> fault_args \<Rightarrow> (unit, 's) eff" where
  "fault_main c l a = bind_eff (lift_res (accept_args c a)) (\<lambda>_. if fa_command a = Cmd_List then ret ()
     else bind_eff (lift_res (accept_command a)) (\<lambda>_. case fa_command a of
       Cmd_Check \<Rightarrow> fresh (manual_check c l)
     | Cmd_Recover \<Rightarrow> fresh (drill_recover c l)
     | Cmd_Diagnose \<Rightarrow> fresh (bind_eff (diagnose c l) (\<lambda>_. ret ()))
     | Cmd_Run \<Rightarrow> run_suite c l a (case fa_scenario a of None \<Rightarrow> [] | Some s \<Rightarrow> if s = ''all'' then default_suite else [s])
     | Cmd_Apply \<Rightarrow> run_suite c l a (case fa_scenario a of None \<Rightarrow> [] | Some s \<Rightarrow> [s])
     | _ \<Rightarrow> ret ()))"

end
