(* ===== verification/Fault_Safety.thy ===== *)
theory Fault_Safety
  imports Fault_Lab
begin

text \<open>
  What the fault drills of \<open>Fault_Lab\<close> may do, and when. Every operation is run on an environment that records its
  requests with their answers, its Compose commands and its journal writes; a change of the cluster is justified by the
  events before it, and so is the removal of the journal.
\<close>

section \<open>Recorded runs\<close>

datatype fault_event =
    Sent "ustr option" string ustr body "(int \<times> ustr) res"
  | Composed "ustr list"
  | Saved journal
  | Loaded journal
  | Archived journal
  | Unlinked

definition watched_fault :: "'s fault_lab \<Rightarrow> ('s \<times> fault_event list) fault_lab" where
  "watched_fault l = \<lparr>fl_http = \<lparr>ht_send = \<lambda>m p b. recording (\<lambda>r. [Sent None m p b r]) (ht_send (fl_http l) m p b),
       ht_clock = recording (\<lambda>_. []) (ht_clock (fl_http l)), ht_sleep = \<lambda>t. recording (\<lambda>_. []) (ht_sleep (fl_http l) t)\<rparr>,
     fl_curl = \<lambda>n m p b. recording (\<lambda>r. [Sent (Some n) m p b r]) (fl_curl l n m p b),
     fl_compose = \<lambda>args. recording (\<lambda>_. [Composed args]) (fl_compose l args),
     fl_exists = recording (\<lambda>_. []) (fl_exists l),
     fl_load = recording (\<lambda>r. case r of Inr j \<Rightarrow> [Loaded j] | Inl _ \<Rightarrow> []) (fl_load l),
     fl_save = \<lambda>j. recording (\<lambda>r. if is_ok r then [Saved j] else []) (fl_save l j),
     fl_archive = \<lambda>j. recording (\<lambda>r. if is_ok r then [Archived j] else []) (fl_archive l j),
     fl_unlink = recording (\<lambda>_. [Unlinked]) (fl_unlink l),
     fl_run_id = recording (\<lambda>_. []) (fl_run_id l)\<rparr>"

section \<open>What events tell\<close>

definition answer_value :: "fault_config \<Rightarrow> ustr option \<Rightarrow> int \<Rightarrow> ustr \<Rightarrow> pv option" where
  "answer_value c via status raw = (case via of
       None \<Rightarrow> if 200 \<le> status \<and> status < 300 then Some (reply_value (fc_es c) raw) else None
     | Some _ \<Rightarrow> if 400 \<le> status then None else if raw = [] then Some PNone else ec_json (fc_es c) raw)"

text \<open>The request was answered with the value.\<close>

definition told :: "fault_config \<Rightarrow> string \<Rightarrow> ustr \<Rightarrow> body \<Rightarrow> pv \<Rightarrow> fault_event set \<Rightarrow> bool" where
  "told c m p b v S \<longleftrightarrow> (\<exists>via status raw. Sent via m p b (Inr (status, raw)) \<in> S \<and> answer_value c via status raw = Some v)"

abbreviation asked :: "fault_config \<Rightarrow> ustr \<Rightarrow> pv \<Rightarrow> fault_event set \<Rightarrow> bool" where
  "asked c p v S \<equiv> told c ''GET'' p No_Body v S"

definition known :: "journal \<Rightarrow> fault_event set \<Rightarrow> bool" where
  "known j S \<longleftrightarrow> Saved j \<in> S \<or> Loaded j \<in> S"

text \<open>The lab's cluster answered with the recorded UUID (a journal with an empty one is not compared).\<close>

definition cluster_seen :: "fault_config \<Rightarrow> pv \<Rightarrow> fault_event set \<Rightarrow> bool" where
  "cluster_seen c i S \<longleftrightarrow> (\<exists>info x. asked c (u ''/'') info S \<and> py_get info ''cluster_name'' = Inr (PStr (ec_cluster (fc_es c)))
     \<and> subscript info ''cluster_uuid'' = Inr x \<and> \<not> unbootstrapped x \<and> (x = i \<or> py_eq x i \<or> \<not> truthy i))"

definition node_seen :: "fault_config \<Rightarrow> ustr \<Rightarrow> fault_event set \<Rightarrow> bool" where
  "node_seen c node S \<longleftrightarrow> (\<exists>status raw info. Sent (Some node) ''GET'' (u ''/'') No_Body (Inr (status, raw)) \<in> S
     \<and> answer_value c (Some node) status raw = Some info \<and> py_get info ''cluster_name'' = Inr (PStr (ec_cluster (fc_es c)))
     \<and> py_get info ''name'' = Inr (PStr node))"

text \<open>The journal holds the values the settings had when they were read.\<close>

definition settings_noted :: "fault_config \<Rightarrow> journal \<Rightarrow> ustr list \<Rightarrow> fault_event set \<Rightarrow> bool" where
  "settings_noted c j ks S \<longleftrightarrow> (\<exists>cluster keys. asked c flat_settings cluster S \<and> ks = map u keys \<and> cluster_original cluster keys = Inr (jo_cluster j))"

definition replicas_noted :: "fault_config \<Rightarrow> journal \<Rightarrow> ustr \<Rightarrow> fault_event set \<Rightarrow> bool" where
  "replicas_noted c j i S \<longleftrightarrow> (\<exists>r s d. asked c (settings_path i) r S \<and> index_settings i r = Inr s \<and> replicas_original s = Inr d \<and> (i, d) \<in> set (jo_indices j))"

definition canary_owned :: "fault_config \<Rightarrow> journal \<Rightarrow> fault_event set \<Rightarrow> bool" where
  "canary_owned c j S \<longleftrightarrow> (\<exists>mapping. asked c (mapping_path j) mapping S \<and> canary_owner j mapping = Inr (PStr (jo_run j)))"

definition canary_paths :: "string list" where
  "canary_paths = [''?wait_for_active_shards=0&timeout=5s'', ''/_settings'', ''/_doc/probe?refresh=true&timeout=5s'', ''/_doc/blocked?timeout=3s'']"

text \<open>A \<open>PUT\<close> writes to the drill's canary, patches noted cluster settings or the noted replicas of the index, or restores what the journal holds.\<close>

definition put_ok :: "fault_config \<Rightarrow> journal \<Rightarrow> fault_event set \<Rightarrow> ustr \<Rightarrow> body \<Rightarrow> bool" where
  "put_ok c j S p b \<longleftrightarrow> (\<exists>s\<in>set canary_paths. p = doc_path j s)
     \<or> p = cluster_settings \<and> (b = Json_Body (PDict (jo_cluster j)) \<or> (\<exists>vs. b = Json_Body (patch_body vs) \<and> settings_noted c j (map fst vs) S))
     \<or> (\<exists>i\<in>set seed_indices. p = u ''/'' @ i @ u ''/_settings'' \<and> ((\<exists>v. (i, v) \<in> set (jo_indices j) \<and> b = Json_Body v)
         \<or> (\<exists>n. b = Json_Body (PDict [(u ''index.number_of_replicas'', n)]) \<and> replicas_noted c j i S)))"

definition change_ok :: "fault_config \<Rightarrow> fault_event set \<Rightarrow> string \<Rightarrow> ustr \<Rightarrow> body \<Rightarrow> bool" where
  "change_ok c S m p b \<longleftrightarrow> (\<exists>j. known j S \<and> cluster_seen c (jo_uuid j) S \<and>
     (m = ''PUT'' \<and> put_ok c j S p b \<or> m = ''DELETE'' \<and> p = u ''/'' @ jo_canary j \<and> canary_owned c j S))"

definition only_reads :: "string \<Rightarrow> ustr \<Rightarrow> bool" where
  "only_reads m p \<longleftrightarrow> m = ''GET'' \<or> (\<exists>i. m = ''POST'' \<and> p = search_path i)"

definition command_ok :: "fault_config \<Rightarrow> fault_event set \<Rightarrow> ustr list \<Rightarrow> bool" where
  "command_ok c S args \<longleftrightarrow> (\<exists>j. known j S \<and> cluster_seen c (jo_uuid j) S \<and> jo_restart j \<and>
     (args = [u ''start'', jo_node j] \<or> node_seen c (jo_node j) S \<and> args \<in> {[u ''kill'', u ''-s'', u ''SIGKILL'', jo_node j], [u ''stop'', u ''-t'', u ''10'', jo_node j]}))"

section \<open>What recovery establishes\<close>

definition seed_told :: "fault_config \<Rightarrow> ustr \<times> pv \<Rightarrow> fault_event set \<Rightarrow> bool" where
  "seed_told c ie S \<longleftrightarrow> (\<exists>r1 n r2 s r3 docs. asked c (count_path (fst ie)) r1 S \<and> seed_count r1 = Inr n
     \<and> asked c (settings_path (fst ie)) r2 S \<and> index_settings (fst ie) r2 = Inr s
     \<and> told c ''POST'' (search_path (fst ie)) (Json_Body sample_query) r3 S \<and> seed_sample r3 = Inr docs \<and> seed_entry c n s docs = Inr (snd ie))"

definition seeds_back :: "fault_config \<Rightarrow> journal \<Rightarrow> fault_event set \<Rightarrow> bool" where
  "seeds_back c j S \<longleftrightarrow> (\<exists>es. map fst es = seed_indices \<and> (\<forall>ie\<in>set es. seed_told c ie S) \<and> py_eq (PDict es) (jo_baseline j))"

definition settings_back :: "fault_config \<Rightarrow> journal \<Rightarrow> fault_event set \<Rightarrow> bool" where
  "settings_back c j S \<longleftrightarrow> (\<exists>now. asked c flat_settings now S \<and> scopes_restored now (jo_cluster j) = Inr ())
     \<and> (\<forall>iv\<in>set (jo_indices j). \<exists>r. asked c (settings_path (fst iv)) r S \<and> index_restored (fst iv) (snd iv) r = Inr ())"

definition mapping_missing :: "fault_event set \<Rightarrow> ustr \<Rightarrow> bool" where
  "mapping_missing S p \<longleftrightarrow> (\<exists>via r. Sent via ''GET'' p No_Body r \<in> S \<and> (case r of Inr (status, _) \<Rightarrow> status = 404 | Inl e \<Rightarrow> not_found e))"

lemma missing_mono: "mapping_missing S p \<Longrightarrow> S \<subseteq> S' \<Longrightarrow> mapping_missing S' p"
  unfolding mapping_missing_def by blast

definition canary_gone :: "fault_config \<Rightarrow> journal \<Rightarrow> fault_event set \<Rightarrow> bool" where
  "canary_gone c j S \<longleftrightarrow> mapping_missing S (mapping_path j)
     \<or> (\<exists>v. told c ''DELETE'' (u ''/'' @ jo_canary j) No_Body v S)"

text \<open>Events after which what was read of settings and nodes may no longer hold.\<close>

definition resets :: "fault_event \<Rightarrow> bool" where
  "resets e \<longleftrightarrow> (case e of Sent _ m p _ _ \<Rightarrow> m = ''PUT'' \<and> take 8 (rev p) = rev (u ''settings'') | Composed _ \<Rightarrow> True | _ \<Rightarrow> False)"

definition recovered :: "fault_config \<Rightarrow> fault_event list \<Rightarrow> bool" where
  "recovered c prev \<longleftrightarrow> (\<exists>j pre post. prev = pre @ post \<and> list_all (\<lambda>e. \<not> resets e) post \<and> Archived j \<in> set post \<and> jo_status j = ''RECOVERED''
     \<and> seeds_back c j (set post) \<and> settings_back c j (set post) \<and> canary_gone c j (set post))"

definition fault_ok :: "fault_config \<Rightarrow> fault_event list \<Rightarrow> fault_event \<Rightarrow> bool" where
  "fault_ok c prev e \<longleftrightarrow> (case e of
       Sent _ m p b _ \<Rightarrow> only_reads m p \<or> change_ok c (set prev) m p b
     | Composed args \<Rightarrow> command_ok c (set prev) args
     | Unlinked \<Rightarrow> recovered c prev
     | _ \<Rightarrow> True)"

section \<open>Runs that keep the journal\<close>

text \<open>
  \<open>keeps\<close> is a triple: on a justified log whose events satisfy \<open>K\<close>, the operation appends justified events of the kind
  \<open>N\<close>, leaves the drill's journal as it is, and \<open>F\<close> holds of its value and of the events it appended. \<open>calm\<close> operations
  need nothing and change nothing.
\<close>

definition keeps :: "fault_config \<Rightarrow> (fault_event \<Rightarrow> bool) \<Rightarrow> (journal option \<Rightarrow> fault_event set \<Rightarrow> bool) \<Rightarrow> ('a, 's \<times> fault_event list) prog
     \<Rightarrow> ('a \<Rightarrow> fault_event set \<Rightarrow> bool) \<Rightarrow> bool" where
  "keeps c N K m F \<longleftrightarrow> (\<forall>w L (d::drill). safe_log (fault_ok c) L \<and> K (dr_state d) (set L) \<longrightarrow>
     (\<exists>r w' ext d'. m ((w, L), d) = (r, (w', L @ ext), d') \<and> safe_log (fault_ok c) (L @ ext) \<and> dr_state d' = dr_state d
        \<and> (\<forall>e\<in>set ext. N e) \<and> (\<forall>a. r = Inr a \<longrightarrow> F a (set ext))))"

definition growing :: "('a \<Rightarrow> fault_event set \<Rightarrow> bool) \<Rightarrow> bool" where
  "growing F \<longleftrightarrow> (\<forall>a S S'. F a S \<longrightarrow> S \<subseteq> S' \<longrightarrow> F a S')"

lemma growingI: "(\<And>a S S'. F a S \<Longrightarrow> S \<subseteq> S' \<Longrightarrow> F a S') \<Longrightarrow> growing F"
  and growingD: "growing F \<Longrightarrow> F a S \<Longrightarrow> S \<subseteq> S' \<Longrightarrow> F a S'"
  unfolding growing_def by blast+

lemma told_mono: "told c m p b v S \<Longrightarrow> S \<subseteq> S' \<Longrightarrow> told c m p b v S'"
  and known_mono: "known j S \<Longrightarrow> S \<subseteq> S' \<Longrightarrow> known j S'"
  unfolding told_def known_def by blast+

lemma seen_mono:
  assumes "S \<subseteq> S'"
  shows "cluster_seen c i S \<Longrightarrow> cluster_seen c i S'" and "node_seen c n S \<Longrightarrow> node_seen c n S'"
    and "settings_noted c j ks S \<Longrightarrow> settings_noted c j ks S'" and "replicas_noted c j x S \<Longrightarrow> replicas_noted c j x S'"
    and "canary_owned c j S \<Longrightarrow> canary_owned c j S'" and "seed_told c ie S \<Longrightarrow> seed_told c ie S'"
    and "seeds_back c j S \<Longrightarrow> seeds_back c j S'" and "settings_back c j S \<Longrightarrow> settings_back c j S'"
    and "canary_gone c j S \<Longrightarrow> canary_gone c j S'"
proof -
  have t: "told c m p b v S \<Longrightarrow> told c m p b v S'" for m p b v using told_mono assms by blast
  show "cluster_seen c i S \<Longrightarrow> cluster_seen c i S'" unfolding cluster_seen_def using t by fast
  show "node_seen c n S \<Longrightarrow> node_seen c n S'" unfolding node_seen_def using assms by fast
  show "settings_noted c j ks S \<Longrightarrow> settings_noted c j ks S'" unfolding settings_noted_def using t by fast
  show "replicas_noted c j x S \<Longrightarrow> replicas_noted c j x S'" unfolding replicas_noted_def using t by fast
  show "canary_owned c j S \<Longrightarrow> canary_owned c j S'" unfolding canary_owned_def using t by fast
  have s: "seed_told c ie S \<Longrightarrow> seed_told c ie S'" for ie unfolding seed_told_def using t by fast
  then show "seed_told c ie S \<Longrightarrow> seed_told c ie S'" .
  show "seeds_back c j S \<Longrightarrow> seeds_back c j S'" unfolding seeds_back_def using s by fast
  show "settings_back c j S \<Longrightarrow> settings_back c j S'" unfolding settings_back_def using t by fast
  show "canary_gone c j S \<Longrightarrow> canary_gone c j S'" unfolding canary_gone_def using t missing_mono [OF _ assms] by fast
qed

lemmas event_mono = told_mono known_mono seen_mono

lemma fault_keeps_bind:
  assumes m: "keeps c N K m F" and k: "\<And>a. keeps c N (\<lambda>j S. K j S \<and> F a S) (k a) (\<lambda>b E. \<forall>E1. F a E1 \<longrightarrow> H b (E1 \<union> E))"
    and g: "growing K" "growing F"
  shows "keeps c N K (bind_eff m k) H"
  unfolding keeps_def
proof (intro allI impI)
  fix w L and d :: drill
  assume p: "safe_log (fault_ok c) L \<and> K (dr_state d) (set L)"
  obtain r w' ext d' where r: "m ((w, L), d) = (r, (w', L @ ext), d')" "safe_log (fault_ok c) (L @ ext)" "dr_state d' = dr_state d"
    "\<forall>e\<in>set ext. N e" "\<forall>a. r = Inr a \<longrightarrow> F a (set ext)"
    using m p unfolding keeps_def by blast
  show "\<exists>r w' ext d'. bind_eff m k ((w, L), d) = (r, (w', L @ ext), d') \<and> safe_log (fault_ok c) (L @ ext) \<and> dr_state d' = dr_state d
        \<and> (\<forall>e\<in>set ext. N e) \<and> (\<forall>a. r = Inr a \<longrightarrow> H a (set ext))"
  proof (cases r)
    case (Inl e)
    then show ?thesis using r by (intro exI [of _ "Inl e"] exI [of _ w'] exI [of _ ext] exI [of _ d']) (simp add: bind_eff_def)
  next
    case (Inr a)
    have "K (dr_state d') (set (L @ ext)) \<and> F a (set (L @ ext))"
      using p r Inr growingD [OF g(1), of _ "set L" "set (L @ ext)"] growingD [OF g(2), of _ "set ext" "set (L @ ext)"] by auto
    then obtain r2 w2 ext2 d2 where r2: "k a ((w', L @ ext), d') = (r2, (w2, (L @ ext) @ ext2), d2)" "safe_log (fault_ok c) ((L @ ext) @ ext2)"
      "dr_state d2 = dr_state d'" "\<forall>e\<in>set ext2. N e" "\<forall>b. r2 = Inr b \<longrightarrow> (\<forall>E1. F a E1 \<longrightarrow> H b (E1 \<union> set ext2))"
      using k [of a] r(2) unfolding keeps_def by blast
    have "\<forall>b. r2 = Inr b \<longrightarrow> H b (set (ext @ ext2))" using r2(5) r(5) Inr by simp
    then show ?thesis using r r2 Inr by (intro exI [of _ r2] exI [of _ w2] exI [of _ "ext @ ext2"] exI [of _ d2]) (auto simp: bind_eff_def)
  qed
qed
lemma keeps_conseq:
  assumes "keeps c N' K' m F'" and "\<And>j S. K j S \<Longrightarrow> K' j S" and "\<And>a S. F' a S \<Longrightarrow> F a S" and "\<And>e. N' e \<Longrightarrow> N e"
  shows "keeps c N K m F"
  unfolding keeps_def
proof (intro allI impI)
  fix w L and d :: drill
  assume "safe_log (fault_ok c) L \<and> K (dr_state d) (set L)"
  then have "safe_log (fault_ok c) L \<and> K' (dr_state d) (set L)" using assms(2) by blast
  then obtain r w' ext d' where r: "m ((w, L), d) = (r, (w', L @ ext), d')" "safe_log (fault_ok c) (L @ ext)" "dr_state d' = dr_state d"
    "\<forall>e\<in>set ext. N' e" "\<forall>a. r = Inr a \<longrightarrow> F' a (set ext)"
    using assms(1) unfolding keeps_def by blast
  then show "\<exists>r w' ext d'. m ((w, L), d) = (r, (w', L @ ext), d') \<and> safe_log (fault_ok c) (L @ ext) \<and> dr_state d' = dr_state d
        \<and> (\<forall>e\<in>set ext. N e) \<and> (\<forall>a. r = Inr a \<longrightarrow> F a (set ext))"
    using assms(3,4) by blast
qed

text \<open>An operation that is a pure function of the drill and the world, and records nothing.\<close>

lemma keeps_silent:
  assumes "\<And>w L d. \<exists>r w' d'. m ((w, L), d) = (r, (w', L), d') \<and> dr_state d' = dr_state d \<and> (\<forall>a j S. r = Inr a \<longrightarrow> K (dr_state d) S \<longrightarrow> F a {})"
  shows "keeps c N K m F"
  unfolding keeps_def
proof (intro allI impI)
  fix w L and d :: drill
  assume p: "safe_log (fault_ok c) L \<and> K (dr_state d) (set L)"
  obtain r w' d' where "m ((w, L), d) = (r, (w', L), d')" "dr_state d' = dr_state d" "\<forall>a j S. r = Inr a \<longrightarrow> K (dr_state d) S \<longrightarrow> F a {}"
    using assms by blast
  then show "\<exists>r w' ext d'. m ((w, L), d) = (r, (w', L @ ext), d') \<and> safe_log (fault_ok c) (L @ ext) \<and> dr_state d' = dr_state d
        \<and> (\<forall>e\<in>set ext. N e) \<and> (\<forall>a. r = Inr a \<longrightarrow> F a (set ext))"
    using p by (intro exI [of _ r] exI [of _ w'] exI [of _ "[]"] exI [of _ d']) auto
qed

lemma keeps_ret: "(\<And>j S. K j S \<Longrightarrow> F a {}) \<Longrightarrow> keeps c N K (ret a) F"
  and keeps_raise: "keeps c N K (raise_exn e) F"
  and keeps_result: "(\<And>j S a. K j S \<Longrightarrow> x = Inr a \<Longrightarrow> F a {}) \<Longrightarrow> keeps c N K (lift_res x) F"
  by (rule keeps_silent, auto simp: lift_res_def)+

lemma keeps_if: "(b \<Longrightarrow> keeps c N K m F) \<Longrightarrow> (\<not> b \<Longrightarrow> keeps c N K m' F) \<Longrightarrow> keeps c N K (if b then m else m') F"
  by simp

lemma keeps_lift:
  assumes "\<And>a. x = Inr a \<Longrightarrow> keeps c N K (k a) H"
  shows "keeps c N K (bind_eff (lift_res x) k) H"
proof (cases x)
  case (Inl e)
  then have "bind_eff (lift_res x) k = raise_exn e" by (auto simp: bind_eff_def lift_res_def)
  then show ?thesis by (simp add: keeps_raise del: ret_simps)
next
  case (Inr a)
  then have "bind_eff (lift_res x) k = k a" by (auto simp: bind_eff_def lift_res_def)
  then show ?thesis using assms Inr by simp
qed

lemma keeps_state:
  assumes "\<And>j. keeps c N (\<lambda>jo S. jo = Some j \<and> K jo S) (k j) H"
  shows "keeps c N K (bind_eff drill_state k) H"
  unfolding keeps_def
proof (intro allI impI)
  fix w L and d :: drill
  assume p: "safe_log (fault_ok c) L \<and> K (dr_state d) (set L)"
  show "\<exists>r w' ext d'. bind_eff drill_state k ((w, L), d) = (r, (w', L @ ext), d') \<and> safe_log (fault_ok c) (L @ ext) \<and> dr_state d' = dr_state d
        \<and> (\<forall>e\<in>set ext. N e) \<and> (\<forall>a. r = Inr a \<longrightarrow> H a (set ext))"
  proof (cases "dr_state d")
    case None
    then show ?thesis using p by (intro exI [of _ "Inl Type_Error"] exI [of _ w] exI [of _ "[]"] exI [of _ d]) (simp add: bind_eff_def drill_state_def)
  next
    case (Some j)
    have "bind_eff drill_state k ((w, L), d) = k j ((w, L), d)" using Some by (simp add: bind_eff_def drill_state_def)
    then show ?thesis using assms [of j] p Some unfolding keeps_def by simp
  qed
qed

lemma keeps_get:
  assumes "\<And>d. keeps c N K (k d) H"
  shows "keeps c N K (bind_eff get_drill k) H"
  using assms unfolding keeps_def by (simp add: bind_eff_def get_drill_def)

lemma keeps_change: "(\<And>d. dr_state (f d) = dr_state d) \<Longrightarrow> (\<And>j S. K j S \<Longrightarrow> F () {}) \<Longrightarrow> keeps c N K (change f) F"
  by (rule keeps_silent) (auto simp: change_def)

lemma keeps_catching:
  assumes "keeps c N K m F"
  shows "keeps c N K (catching p m) (\<lambda>r S. case r of Inr a \<Rightarrow> F a S | Inl e \<Rightarrow> True)"
  unfolding keeps_def
proof (intro allI impI)
  fix w L and d :: drill
  assume "safe_log (fault_ok c) L \<and> K (dr_state d) (set L)"
  then obtain r w' ext d' where r: "m ((w, L), d) = (r, (w', L @ ext), d')" "safe_log (fault_ok c) (L @ ext)" "dr_state d' = dr_state d"
    "\<forall>e\<in>set ext. N e" "\<forall>a. r = Inr a \<longrightarrow> F a (set ext)"
    using assms unfolding keeps_def by blast
  then show "\<exists>r w' ext d'. catching p m ((w, L), d) = (r, (w', L @ ext), d') \<and> safe_log (fault_ok c) (L @ ext) \<and> dr_state d' = dr_state d
        \<and> (\<forall>e\<in>set ext. N e) \<and> (\<forall>a. r = Inr a \<longrightarrow> (case a of Inr a \<Rightarrow> F a (set ext) | Inl e \<Rightarrow> True))"
    by (cases r) (auto simp: catching_def)
qed

section \<open>Calm operations\<close>

definition calm :: "fault_config \<Rightarrow> ('a, 's \<times> fault_event list) prog \<Rightarrow> bool" where
  "calm c m \<longleftrightarrow> keeps c (\<lambda>e. \<not> resets e) (\<lambda>_ _. True) m (\<lambda>_ _. True)"

lemma keeps_calm: "calm c m \<Longrightarrow> (\<And>e. \<not> resets e \<Longrightarrow> N e) \<Longrightarrow> keeps c N K m (\<lambda>_ _. True)"
  unfolding calm_def by (erule keeps_conseq) auto

lemma keeps_calmI: "keeps c (\<lambda>e. \<not> resets e) (\<lambda>_ _. True) m F \<Longrightarrow> calm c m"
  unfolding calm_def by (erule keeps_conseq) auto

lemma growing_True [simp, intro!]: "growing (\<lambda>_ _. True)"
  and growing_conj [intro!]: "growing K \<Longrightarrow> growing F \<Longrightarrow> growing (\<lambda>a S. K a S \<and> F a S)"
  and growing_const [intro!]: "growing (\<lambda>a S. P a)"
  unfolding growing_def by blast+

lemma growing_after: "growing H \<Longrightarrow> growing (\<lambda>b E. \<forall>E1. F E1 \<longrightarrow> H b (E1 \<union> E))"
  unfolding growing_def by (metis Un_mono subset_refl)

lemma keeps_bind_calm:
  assumes "calm c m" and "\<And>a. keeps c N K (k a) H" and "growing K" "growing H" and "\<And>e. \<not> resets e \<Longrightarrow> N e"
  shows "keeps c N K (bind_eff m k) H"
proof (rule fault_keeps_bind [OF keeps_calm [OF assms(1,5)] _ assms(3) growing_True])
  fix a
  show "keeps c N (\<lambda>j S. K j S \<and> True) (k a) (\<lambda>b E. \<forall>E1. True \<longrightarrow> H b (E1 \<union> E))"
    by (rule keeps_conseq [OF assms(2)]) (use growingD [OF assms(4)] in auto)
qed

named_theorems calm_rules \<open>operations that only read\<close>

lemma calm_basic [calm_rules]:
  "calm c (ret a)" "calm c (raise_exn e)" "calm c (lift_res x)" "calm c get_drill" "calm c drill_state"
  unfolding calm_def
  by (rule keeps_ret keeps_raise keeps_result TrueI)+
    (rule keeps_silent, simp add: get_drill_def drill_state_def)+

lemma calm_bind [calm_rules]: "calm c m \<Longrightarrow> (\<And>a. calm c (k a)) \<Longrightarrow> calm c (bind_eff m k)"
  unfolding calm_def [of c "bind_eff m k"] by (rule keeps_bind_calm) (auto simp: calm_def)

lemma calm_if [calm_rules]: "calm c m \<Longrightarrow> calm c m' \<Longrightarrow> calm c (if b then m else m')"
  by simp

lemma calm_cases [calm_rules]:
  "(\<And>x. calm c (f x)) \<Longrightarrow> calm c m \<Longrightarrow> calm c (case opt of None \<Rightarrow> m | Some x \<Rightarrow> f x)"
  "(\<And>x. calm c (g x)) \<Longrightarrow> (\<And>y. calm c (h y)) \<Longrightarrow> calm c (case s of Inl x \<Rightarrow> g x | Inr y \<Rightarrow> h y)"
  "(\<And>x y. calm c (k x y)) \<Longrightarrow> calm c (case p of (x, y) \<Rightarrow> k x y)"
  "calm c m \<Longrightarrow> (\<And>x xs. calm c (l x xs)) \<Longrightarrow> calm c (case ys of [] \<Rightarrow> m | x # xs \<Rightarrow> l x xs)"
  by (simp_all split: option.splits sum.splits prod.splits list.splits)

lemma calm_change [calm_rules]: "(\<And>d. dr_state (f d) = dr_state d) \<Longrightarrow> calm c (change f)"
  unfolding calm_def by (rule keeps_change) auto

lemma calm_catching [calm_rules]: "calm c m \<Longrightarrow> calm c (catching p m)"
  unfolding calm_def by (rule keeps_conseq [OF keeps_catching]) auto

lemma calm_world [calm_rules]:
  "calm c (on_world (ht_clock (fl_http (watched_fault l))))" "calm c (on_world (ht_sleep (fl_http (watched_fault l)) t))"
  "calm c (on_world (fl_exists (watched_fault l)))" "calm c (on_world (fl_run_id (watched_fault l)))"
  unfolding calm_def by (rule keeps_silent, auto simp: on_world_def watched_fault_def recording_def split: prod.splits)+
section \<open>Requests\<close>

text \<open>The primitive step: one request, justified by what is known.\<close>

lemma keeps_sent:
  assumes step: "\<And>w L d. m ((w, L), d) = (case send w of (r, w') \<Rightarrow> (f r, (w', L @ [Sent via q p b r]), d))"
    and ok: "\<And>j S. K j S \<Longrightarrow> only_reads q p \<or> change_ok c S q p b" and n: "\<And>r. N (Sent via q p b r)"
    and F: "\<And>r v. f r = Inr v \<Longrightarrow> F v {Sent via q p b r}"
  shows "keeps c N K m F"
  unfolding keeps_def
proof (intro allI impI)
  fix w L and d :: drill
  assume p: "safe_log (fault_ok c) L \<and> K (dr_state d) (set L)"
  obtain r w' where s: "send w = (r, w')" by fastforce
  have "fault_ok c L (Sent via q p b r)" using p ok by (auto simp: fault_ok_def)
  then have "safe_log (fault_ok c) (L @ [Sent via q p b r])" using p by (simp add: safe_log_snoc)
  then show "\<exists>r w' ext d'. m ((w, L), d) = (r, (w', L @ ext), d') \<and> safe_log (fault_ok c) (L @ ext) \<and> dr_state d' = dr_state d
        \<and> (\<forall>e\<in>set ext. N e) \<and> (\<forall>a. r = Inr a \<longrightarrow> F a (set ext))"
    using step [of w L d] s n F by (intro exI [of _ "f r"] exI [of _ w'] exI [of _ "[Sent via q p b r]"] exI [of _ d]) auto
qed

lemma keeps_exec:
  assumes "\<And>j S. K j S \<Longrightarrow> only_reads q p \<or> change_ok c S q p b" and "\<And>r. N (Sent (Some n) q p b r)"
  shows "keeps c N K (on_world (exec_request c (watched_fault l) n q p b))
     (\<lambda>v S. \<exists>status raw. Sent (Some n) q p b (Inr (status, raw)) \<in> S \<and> answer_value c (Some n) status raw = Some v)"
    (is "keeps c N K ?m ?F")
proof (cases "bind_res (validate_node n) (\<lambda>_. bind_res (expect (starts_with (u ''/'') p \<and> 10 \<notin> set p) ''Invalid API path'') (\<lambda>_. compact b))")
  case (Inl e)
  then have "?m = raise_exn e" by (auto simp: on_world_def exec_request_def bind_eff_def lift_res_def)
  then show ?thesis by (simp add: keeps_raise del: ret_simps)
next
  case (Inr x)
  let ?f = "\<lambda>r. case r of Inl e \<Rightarrow> Inl e | Inr (status, payload) \<Rightarrow>
     if 400 \<le> status then Inl (Http_Error status (Some (take 8000 payload))) else if payload = [] then Inr PNone
     else (case ec_json (fc_es c) payload of None \<Rightarrow> Inl (Value_Error ''JSONDecodeError'') | Some v \<Rightarrow> Inr v)"
  show ?thesis
  proof (rule keeps_sent [where f = ?f and send = "fl_curl l n q p b" and via = "Some n"])
    show "?m ((w, L), d) = (case fl_curl l n q p b w of (r, w') \<Rightarrow> (?f r, (w', L @ [Sent (Some n) q p b r]), d))" for w L d
      using Inr by (auto simp: on_world_def exec_request_def bind_eff_def lift_res_def watched_fault_def recording_def split: prod.splits sum.splits if_splits)
    show "?f r = Inr v \<Longrightarrow> ?F v {Sent (Some n) q p b r}" for r v
      by (auto simp: answer_value_def split: sum.splits prod.splits if_splits option.splits)
  qed (use assms in auto)
qed

lemma keeps_send:
  assumes "\<And>j S. K j S \<Longrightarrow> only_reads q p \<or> change_ok c S q p b" and "\<And>r. N (Sent None q p b r)"
  shows "keeps c N K (on_world (es_send (fc_es c) (fl_http (watched_fault l)) q p b)) (told c q p b)"
    (is "keeps c N K ?m ?F")
proof (cases "compact b")
  case (Inl e)
  then have "?m = raise_exn e" by (auto simp: on_world_def es_send_def bind_eff_def lift_res_def)
  then show ?thesis by (simp add: keeps_raise del: ret_simps)
next
  case (Inr x)
  let ?f = "\<lambda>r. case r of Inl e \<Rightarrow> Inl e | Inr (status, raw) \<Rightarrow>
     if \<not> (200 \<le> status \<and> status < 300) then Inl (Http_Error status (Some (take 8000 raw))) else Inr (reply_value (fc_es c) raw)"
  show ?thesis
  proof (rule keeps_sent [where f = ?f and send = "ht_send (fl_http l) q p b" and via = None])
    show "?m ((w, L), d) = (case ht_send (fl_http l) q p b w of (r, w') \<Rightarrow> (?f r, (w', L @ [Sent None q p b r]), d))" for w L d
      using Inr by (auto simp: on_world_def es_send_def bind_eff_def lift_res_def watched_fault_def recording_def reply_value_def
          split: prod.splits sum.splits if_splits)
    show "?f r = Inr v \<Longrightarrow> ?F v {Sent None q p b r}" for r v
      by (auto simp: told_def answer_value_def split: sum.splits prod.splits if_splits)
  qed (use assms in auto)
qed

lemma keeps_identity: "keeps c N K (validate_identity c info)
    (\<lambda>_ _. py_get info ''cluster_name'' = Inr (PStr (ec_cluster (fc_es c))))"
  unfolding validate_identity_def
  by (rule keeps_get, rule keeps_result) (auto simp: identity_ok_def expect_def bind_res_Inr_iff split: if_splits)

lemma only_reads_get [simp]: "only_reads ''GET'' p" "only_reads ''POST'' (search_path i)"
  by (auto simp: only_reads_def)

lemma resets_get [simp]: "\<not> resets (Sent via ''GET'' p b r)" "\<not> resets (Sent via ''POST'' p b r)" "\<not> resets (Sent via ''DELETE'' p b r)"
  by (simp_all add: resets_def)

lemma calm_identity [calm_rules]: "calm c (validate_identity c info)"
  unfolding calm_def by (rule keeps_conseq [OF keeps_identity]) auto

lemma calm_exec [calm_rules]: "calm c (on_world (exec_request c (watched_fault l) n ''GET'' p b))"
  by (rule keeps_calmI, rule keeps_exec) auto

lemma growing_told [intro!, simp]: "growing (told c q p b)"
  by (rule growingI) (rule told_mono)

lemma growing_exec: "growing (\<lambda>v S. \<exists>status raw. Sent via q p b (Inr (status, raw)) \<in> S \<and> answer_value c via status raw = Some v)"
  by (rule growingI) blast

lemma keeps_try_node:
  assumes "growing K" and "\<And>j S. K j S \<Longrightarrow> only_reads q p \<or> change_ok c S q p b" and "\<And>r. N (Sent (Some n) q p b r)"
    and N: "\<And>e. \<not> resets e \<Longrightarrow> N e"
  shows "keeps c N K (try_node c (watched_fault l) q p b n) (told c q p b)"
  unfolding try_node_def
proof (rule keeps_bind_calm [OF calm_exec], rule keeps_bind_calm [OF calm_identity])
  fix info x
  show "keeps c N K (bind_eff (on_world (exec_request c (watched_fault l) n q p b)) (\<lambda>result.
       bind_eff (change (\<lambda>d. d\<lparr>dr_route := Some n\<rparr>)) (\<lambda>_. ret result))) (told c q p b)"
  proof (rule fault_keeps_bind [OF _ _ assms(1) growing_exec])
    show "keeps c N K (on_world (exec_request c (watched_fault l) n q p b))
       (\<lambda>v S. \<exists>status raw. Sent (Some n) q p b (Inr (status, raw)) \<in> S \<and> answer_value c (Some n) status raw = Some v)"
      using assms(2,3) by (rule keeps_exec)
  next
    fix v
    let ?F = "\<lambda>S. \<exists>status raw. Sent (Some n) q p b (Inr (status, raw)) \<in> S \<and> answer_value c (Some n) status raw = Some v"
    show "keeps c N (\<lambda>j S. K j S \<and> ?F S) (bind_eff (change (\<lambda>d. d\<lparr>dr_route := Some n\<rparr>)) (\<lambda>_. ret v)) (\<lambda>b' E. \<forall>E1. ?F E1 \<longrightarrow> told c q p b b' (E1 \<union> E))"
    proof (rule keeps_silent)
      fix w L d
      show "\<exists>r w' d'. bind_eff (change (\<lambda>d. d\<lparr>dr_route := Some n\<rparr>)) (\<lambda>_. ret v) ((w, L), d) = (r, (w', L), d') \<and> dr_state d' = dr_state d
          \<and> (\<forall>a j S. r = Inr a \<longrightarrow> K (dr_state d) S \<and> ?F S \<longrightarrow> (\<forall>E1. ?F E1 \<longrightarrow> told c q p b a (E1 \<union> {})))"
        by (intro exI [of _ "Inr v"] exI [of _ w] exI [of _ "d\<lparr>dr_route := Some n\<rparr>"])
          (auto simp: bind_eff_def change_def told_def)
    qed
  qed
qed (use assms(1) N in auto)

lemma keeps_or:
  assumes "\<And>a. keeps c N K (k a) F" shows "keeps c N K (case r of Inl e \<Rightarrow> k (Inl e) | Inr v \<Rightarrow> k (Inr v)) F"
  using assms by (cases r) auto

lemma growing_sum: "growing F \<Longrightarrow> growing (\<lambda>r S. case r of Inr a \<Rightarrow> F a S | Inl e \<Rightarrow> True)"
  unfolding growing_def by (auto split: sum.splits)

text \<open>A result that is handed on, or replaced by another operation of the same contract.\<close>

lemma keeps_else:
  assumes m: "keeps c N K m F" and k: "\<And>e. keeps c N K (h e) F" and g: "growing K" "growing F"
  shows "keeps c N K (bind_eff (catching p m) (\<lambda>r. case r of Inr v \<Rightarrow> ret v | Inl e \<Rightarrow> h e)) F"
proof (rule fault_keeps_bind [OF keeps_catching [OF m] _ g(1) growing_sum [OF g(2)]])
  fix r
  show "keeps c N (\<lambda>j S. K j S \<and> (case r of Inl e \<Rightarrow> True | Inr a \<Rightarrow> F a S)) (case r of Inl e \<Rightarrow> h e | Inr v \<Rightarrow> ret v)
     (\<lambda>b E. \<forall>E1. (case r of Inl e \<Rightarrow> True | Inr a \<Rightarrow> F a E1) \<longrightarrow> F b (E1 \<union> E))"
  proof (cases r)
    case (Inl e)
    show ?thesis unfolding Inl by simp (rule keeps_conseq [OF k [of e]], use growingD [OF g(2)] in auto)
  next
    case (Inr v)
    show ?thesis unfolding Inr by (simp del: ret_simps) (rule keeps_ret, simp)
  qed
qed

lemma keeps_fallback:
  assumes "growing K" and "\<And>j S. K j S \<Longrightarrow> only_reads q p \<or> change_ok c S q p b" and "\<And>via r. N (Sent via q p b r)"
    and "\<And>e. \<not> resets e \<Longrightarrow> N e"
  shows "keeps c N K (fallback c (watched_fault l) q p b ns) (told c q p b)"
proof (induction ns)
  case Nil
  show ?case by (simp add: keeps_raise del: ret_simps)
next
  case (Cons n ns)
  show ?case unfolding fallback.simps
    by (rule keeps_get, rule keeps_if, rule Cons, rule keeps_else [OF keeps_try_node [OF assms(1) assms(2)] Cons assms(1) growing_told])
      (use assms(3,4) in auto)
qed

lemma keeps_request:
  assumes "growing K" and "\<And>j S. K j S \<Longrightarrow> only_reads q p \<or> change_ok c S q p b" and "\<And>via r. N (Sent via q p b r)"
    and "\<And>e. \<not> resets e \<Longrightarrow> N e"
  shows "keeps c N K (fault_request c (watched_fault l) q p b) (told c q p b)"
  unfolding fault_request_def
proof (rule keeps_get, rule keeps_else [OF _ _ assms(1) growing_told])
  fix d :: drill
  have x: "keeps c N K (on_world (exec_request c (watched_fault l) n q p b)) (told c q p b)" for n
    by (rule keeps_conseq [OF keeps_exec [where q = q and p = p and b = b and K = K and N = N and n = n]])
      (use assms(2,3) in \<open>auto simp: told_def\<close>)
  show "keeps c N K (on_world (case dr_route d of None \<Rightarrow> es_send (fc_es c) (fl_http (watched_fault l)) q p b
      | Some n \<Rightarrow> exec_request c (watched_fault l) n q p b)) (told c q p b)"
    using x keeps_send [where q = q and p = p and b = b and K = K and N = N and l = l] assms(2,3) by (cases "dr_route d") auto
next
  fix e
  show "keeps c N K (if q \<noteq> ''GET'' \<and> q \<noteq> ''HEAD'' then raise_exn e
      else fallback c (watched_fault l) q p b (map u [''es02'', ''es04'', ''es05'', ''es03'', ''es01''])) (told c q p b)"
    by (rule keeps_if [OF keeps_raise keeps_fallback]) (use assms in auto)
qed

lemma keeps_fault_get: "keeps c (\<lambda>e. \<not> resets e) (\<lambda>_ _. True) (fault_get c (watched_fault l) p) (\<lambda>v. asked c p v)"
  unfolding fault_get_def by (rule keeps_request) auto

lemma keeps_fault_post: "keeps c (\<lambda>e. \<not> resets e) (\<lambda>_ _. True) (fault_request c (watched_fault l) ''POST'' (search_path i) b) (told c ''POST'' (search_path i) b)"
  by (rule keeps_request) auto

lemma calm_request [calm_rules]: "calm c (fault_get c (watched_fault l) p)"
  "calm c (fault_request c (watched_fault l) ''POST'' (search_path i) b)" "calm c (fault_request c (watched_fault l) ''GET'' p b)"
  by (rule keeps_calmI, rule keeps_fault_get, rule keeps_calmI, rule keeps_fault_post) (rule keeps_calmI, rule keeps_request, auto)
section \<open>The guard\<close>

definition holds_bound :: "('a, 's) prog \<Rightarrow> bool" where
  "holds_bound m \<longleftrightarrow> (\<forall>s. dr_bound (snd (snd (m s))) = dr_bound (snd s))"

lemma holds_bound_bind: "holds_bound m \<Longrightarrow> (\<And>a. holds_bound (k a)) \<Longrightarrow> holds_bound (bind_eff m k)"
  unfolding holds_bound_def
proof (intro allI)
  fix s
  assume m: "\<forall>s. dr_bound (snd (snd (m s))) = dr_bound (snd s)" and k: "\<And>a. \<forall>s. dr_bound (snd (snd (k a s))) = dr_bound (snd s)"
  obtain r s' where "m s = (r, s')" by (cases "m s")
  then show "dr_bound (snd (snd (bind_eff m k s))) = dr_bound (snd s)"
    using m [rule_format, of s] k [THEN spec, of _ s'] by (cases r) (simp_all add: bind_eff_def)
qed

lemma holds_bound_basic: "holds_bound (ret a)" "holds_bound (raise_exn e)" "holds_bound (lift_res x)" "holds_bound get_drill"
  "holds_bound (on_world n)" "(\<And>d. dr_bound (f d) = dr_bound d) \<Longrightarrow> holds_bound (change f)"
  "holds_bound m \<Longrightarrow> holds_bound (catching p m)"
  by (auto simp: holds_bound_def lift_res_def get_drill_def on_world_def change_def catching_def split: prod.splits sum.splits)
    (metis snd_conv)+

lemma holds_bound_fallback: "holds_bound (fallback c l q p b ns)"
proof (induction ns)
  case (Cons n ns)
  have "holds_bound (try_node c l q p b n)"
    unfolding try_node_def validate_identity_def by (intro holds_bound_bind holds_bound_basic) simp
  then show ?case unfolding fallback.simps using Cons
    by (intro holds_bound_bind holds_bound_basic) (auto intro!: holds_bound_bind holds_bound_basic split: sum.splits simp del: ret_simps)
qed (simp add: holds_bound_basic del: ret_simps)

lemma holds_bound_request: "holds_bound (fault_request c l q p b)"
  unfolding fault_request_def
  by (intro holds_bound_bind holds_bound_basic) (auto intro!: holds_bound_basic holds_bound_fallback split: sum.splits option.splits simp del: ret_simps fallback.simps)

text \<open>What a guard establishes for the UUID it expects.\<close>

definition guarded_by :: "fault_config \<Rightarrow> pv \<Rightarrow> pv \<Rightarrow> fault_event set \<Rightarrow> bool" where
  "guarded_by c i info S \<longleftrightarrow> asked c (u ''/'') info S \<and> py_get info ''cluster_name'' = Inr (PStr (ec_cluster (fc_es c)))
     \<and> (\<exists>x. subscript info ''cluster_uuid'' = Inr x \<and> \<not> unbootstrapped x \<and> (truthy i \<longrightarrow> py_eq x i))"

lemma guarded_seen: "guarded_by c i info S \<Longrightarrow> cluster_seen c i S"
  and guarded_found: "guarded_by c i info S \<Longrightarrow> subscript info ''cluster_uuid'' = Inr x \<Longrightarrow> cluster_seen c x S"
  unfolding guarded_by_def cluster_seen_def by fastforce+

lemma growing_guarded [intro!, simp]: "growing (guarded_by c i)"
  by (rule growingI) (auto simp: guarded_by_def intro: told_mono)

lemma identity_facts: "identity_ok c bound info = Inr () \<Longrightarrow> subscript info ''cluster_uuid'' = Inr x \<Longrightarrow>
    py_get info ''cluster_name'' = Inr (PStr (ec_cluster (fc_es c))) \<and> \<not> unbootstrapped x \<and> (truthy bound \<longrightarrow> py_eq x bound)"
  by (cases info) (auto simp: identity_ok_def expect_def bind_res_Inr_iff py_get_def subscript_def dget_def split: if_splits option.splits)

lemma keeps_guard: "keeps c (\<lambda>e. \<not> resets e) (\<lambda>_ _. True) (cluster_guard c (watched_fault l) i) (guarded_by c i)"
  unfolding keeps_def
proof (intro allI impI)
  fix w L and d :: drill
  assume p: "safe_log (fault_ok c) L \<and> True"
  let ?d = "if truthy i then d\<lparr>dr_bound := i\<rparr> else d"
  obtain r w' ext d' where r: "fault_get c (watched_fault l) (u ''/'') ((w, L), ?d) = (r, (w', L @ ext), d')" "safe_log (fault_ok c) (L @ ext)"
    "dr_state d' = dr_state ?d" "\<forall>e\<in>set ext. \<not> resets e" "\<forall>a. r = Inr a \<longrightarrow> asked c (u ''/'') a (set ext)"
    using keeps_fault_get [of c l "u ''/''"] p unfolding keeps_def by metis
  have b: "dr_bound d' = dr_bound ?d"
    using holds_bound_request [of c "watched_fault l" "''GET''" "u ''/''" No_Body] r(1) unfolding holds_bound_def fault_get_def by (metis snd_conv)
  let ?G = "cluster_guard c (watched_fault l) i ((w, L), d)"
  show "\<exists>r w' ext d'. ?G = (r, (w', L @ ext), d') \<and> safe_log (fault_ok c) (L @ ext) \<and> dr_state d' = dr_state d
        \<and> (\<forall>e\<in>set ext. \<not> resets e) \<and> (\<forall>a. r = Inr a \<longrightarrow> guarded_by c i a (set ext))"
  proof (cases "\<exists>info x. r = Inr info \<and> identity_ok c (dr_bound d') info = Inr () \<and> subscript info ''cluster_uuid'' = Inr x")
    case True
    then obtain info x where i: "r = Inr info" "identity_ok c (dr_bound d') info = Inr ()" "subscript info ''cluster_uuid'' = Inr x" by blast
    have "?G = (Inr info, (w', L @ ext), d'\<lparr>dr_bound := x\<rparr>)"
      using r(1) i by (simp add: cluster_guard_def bind_eff_def change_def validate_identity_def get_drill_def lift_res_def)
    moreover have "guarded_by c i info (set ext)"
      using identity_facts [OF i(2,3)] i r(5) b unfolding guarded_by_def by auto
    ultimately show ?thesis using r i by (intro exI [of _ "Inr info"] exI [of _ w'] exI [of _ ext] exI [of _ "d'\<lparr>dr_bound := x\<rparr>"]) auto
  next
    case False
    have "\<exists>e. ?G = (Inl e, (w', L @ ext), d')"
    proof (cases r)
      case (Inr info)
      then show ?thesis using r(1) False
        by (cases "identity_ok c (dr_bound d') info"; cases "subscript info ''cluster_uuid''")
          (auto simp: cluster_guard_def bind_eff_def change_def validate_identity_def get_drill_def lift_res_def)
    qed (use r(1) in \<open>auto simp: cluster_guard_def bind_eff_def change_def\<close>)
    then obtain e where "?G = (Inl e, (w', L @ ext), d')" ..
    then show ?thesis using r by (intro exI [of _ "Inl e"] exI [of _ w'] exI [of _ ext] exI [of _ d']) auto
  qed
qed

lemma calm_guard [calm_rules]: "calm c (cluster_guard c (watched_fault l) i)"
  by (rule keeps_calmI [OF keeps_guard])

lemma keeps_node: "keeps c (\<lambda>e. \<not> resets e) (\<lambda>_ _. True) (verify_runtime_node c (watched_fault l) node) (\<lambda>_. node_seen c node)"
  unfolding verify_runtime_node_def
proof (rule fault_keeps_bind [OF keeps_exec _ _ growing_exec])
  fix info
  let ?F = "\<lambda>S. \<exists>status raw. Sent (Some node) ''GET'' (u ''/'') No_Body (Inr (status, raw)) \<in> S \<and> answer_value c (Some node) status raw = Some info"
  show "keeps c (\<lambda>e. \<not> resets e) (\<lambda>j S. True \<and> ?F S)
     (bind_eff (validate_identity c info) (\<lambda>_. lift_res (bind_res (py_get info ''name'')
        (\<lambda>n. expect (n = PStr node) ''Compose service does not match Elasticsearch node.name''))))
     (\<lambda>b E. \<forall>E1. ?F E1 \<longrightarrow> node_seen c node (E1 \<union> E))"
    by (rule fault_keeps_bind [OF keeps_identity], rule keeps_result)
      (auto simp: node_seen_def expect_def bind_res_Inr_iff growing_def split: if_splits)
qed auto

lemma calm_node [calm_rules]: "calm c (verify_runtime_node c (watched_fault l) node)"
  by (rule keeps_calmI [OF keeps_node])

section \<open>Reading operations\<close>

lemma calm_sample [calm_rules]: "calm c op \<Longrightarrow> calm c (sample op good)"
  unfolding sample_def by (intro calm_rules)

lemma calm_poll [calm_rules]:
  assumes "calm c op" shows "calm c (poll c' (watched_fault l) op good)"
proof -
  have "calm c (poll_until k c' (watched_fault l) t op good)" for k t
    by (induction k arbitrary: t) (auto intro!: calm_rules assms simp del: ret_simps)
  then show ?thesis unfolding poll_def by (intro calm_rules)
qed

lemma calm_reads [calm_rules]: "calm c (lab_nodes c (watched_fault l))" "calm c (lab_health c (watched_fault l) i)"
  "calm c (seed_shards c (watched_fault l))" "calm c (lab_stable c (watched_fault l) ns)" "calm c (explain c (watched_fault l) i)"
proof -
  show n: "calm c (lab_nodes c (watched_fault l))" unfolding lab_nodes_def by (intro calm_rules)
  show h: "calm c (lab_health c (watched_fault l) i)" for i unfolding lab_health_def by (intro calm_rules)
  show "calm c (seed_shards c (watched_fault l))" unfolding seed_shards_def by (intro calm_rules)
  show "calm c (lab_stable c (watched_fault l) ns)" unfolding lab_stable_def by (intro calm_rules n h)
  show "calm c (explain c (watched_fault l) i)" unfolding explain_def by (intro calm_rules)
qed

lemma calm_checks [calm_rules]: "calm c (check_departure c (watched_fault l) j)" "calm c (check_unassigned c (watched_fault l) j)"
  "calm c (check_drained c (watched_fault l) j)" "calm c (check_setting c (watched_fault l) j)"
  unfolding check_departure_def check_unassigned_def check_drained_def check_setting_def Let_def by (intro calm_rules)+

lemma calm_settings [calm_rules]: "calm c (setting_keys c (watched_fault l) scenario ns)" "calm c (index_original c (watched_fault l) scenario i)"
  unfolding setting_keys_def index_original_def by (intro calm_rules)+
section \<open>Changes of a tracked drill\<close>

text \<open>Two states of one drill's journal, and a drill whose journal is written and whose cluster was seen.\<close>

definition same_drill :: "journal \<Rightarrow> journal \<Rightarrow> bool" where
  "same_drill j j' \<longleftrightarrow> jo_canary j' = jo_canary j \<and> jo_run j' = jo_run j \<and> jo_uuid j' = jo_uuid j \<and> jo_node j' = jo_node j
     \<and> jo_cluster j' = jo_cluster j \<and> jo_indices j' = jo_indices j \<and> jo_baseline j' = jo_baseline j"

definition tracked :: "fault_config \<Rightarrow> journal \<Rightarrow> journal option \<Rightarrow> fault_event set \<Rightarrow> bool" where
  "tracked c j jo S \<longleftrightarrow> (\<exists>j'. jo = Some j' \<and> same_drill j j') \<and> (\<exists>j'. known j' S \<and> same_drill j j') \<and> cluster_seen c (jo_uuid j) S"

lemma growing_tracked [intro!, simp]: "growing (tracked c j)"
  by (rule growingI) (unfold tracked_def, blast intro: event_mono)

lemma same_put: "same_drill j j' \<Longrightarrow> put_ok c j S p b \<Longrightarrow> put_ok c j' S p b"
  by (auto simp: put_ok_def same_drill_def doc_path_def settings_noted_def replicas_noted_def)

lemma tracked_put: "tracked c j jo S \<Longrightarrow> put_ok c j S p b \<Longrightarrow> change_ok c S ''PUT'' p b"
  unfolding tracked_def change_ok_def by (metis same_drill_def same_put)

lemma tracked_delete: "tracked c j jo S \<Longrightarrow> canary_owned c j S \<Longrightarrow> change_ok c S ''DELETE'' (u ''/'' @ jo_canary j) b"
  unfolding tracked_def change_ok_def
  by (elim exE conjE) (auto simp: same_drill_def canary_owned_def mapping_path_def doc_path_def canary_owner_def intro!: exI)

lemma keeps_tracked_state:
  assumes "\<And>j'. same_drill j j' \<Longrightarrow> keeps c N (\<lambda>jo S. tracked c j jo S \<and> K jo S) (k j') H"
  shows "keeps c N (\<lambda>jo S. tracked c j jo S \<and> K jo S) (bind_eff drill_state k) H"
proof (rule keeps_state)
  fix j'
  show "keeps c N (\<lambda>jo S. jo = Some j' \<and> tracked c j jo S \<and> K jo S) (k j') H"
  proof (cases "same_drill j j'")
    case True
    then show ?thesis by (intro keeps_conseq [OF assms]) auto
  next
    case False
    then show ?thesis by (auto simp: keeps_def tracked_def)
  qed
qed

text \<open>The paths of the writes to the canary do not end in \<open>settings\<close>, one apart.\<close>

lemma quiet_paths: "s \<in> set canary_paths \<Longrightarrow> s \<noteq> ''/_settings'' \<Longrightarrow> \<not> resets (Sent via m (doc_path j s) b r)"
  by (auto simp: resets_def canary_paths_def doc_path_def u_def)

lemma keeps_canary_put:
  assumes "s \<in> set canary_paths" "same_drill j j'" "growing K" "s = ''/_settings'' \<Longrightarrow> N = (\<lambda>_. True)" "s \<noteq> ''/_settings'' \<Longrightarrow> N = (\<lambda>e. \<not> resets e)"
  shows "keeps c N (\<lambda>jo S. tracked c j jo S \<and> K jo S) (fault_request c (watched_fault l) ''PUT'' (doc_path j' s) b) (\<lambda>_ _. True)"
proof (rule keeps_conseq [OF keeps_request [where N = N and K = "\<lambda>jo S. tracked c j jo S \<and> K jo S"]])
  show "tracked c j jo S \<and> K jo S \<Longrightarrow> only_reads ''PUT'' (doc_path j' s) \<or> change_ok c S ''PUT'' (doc_path j' s) b" for jo S
    using tracked_put [of c j jo S "doc_path j' s" b] assms(1,2) by (auto simp: put_ok_def doc_path_def same_drill_def)
  show "N (Sent via ''PUT'' (doc_path j' s) b r)" for via r using assms quiet_paths by (cases "s = ''/_settings''") auto
  show "\<not> resets e \<Longrightarrow> N e" for e using assms(4,5) by (cases "s = ''/_settings''") auto
qed (use assms(3) in auto)

lemma keeps_then:
  assumes "keeps c N K m (\<lambda>_ _. True)" "\<And>a. keeps c N K (k a) (\<lambda>_ _. True)" "growing K"
  shows "keeps c N K (bind_eff m k) (\<lambda>_ _. True)"
  by (rule fault_keeps_bind [OF assms(1) _ assms(3) growing_True]) (use assms(2) in simp)

lemma keeps_probe: "keeps c (\<lambda>e. \<not> resets e) (tracked c j) (probe c (watched_fault l) b) (\<lambda>_ _. True)"
proof -
  let ?W = "watched_fault l"
  have "keeps c (\<lambda>e. \<not> resets e) (\<lambda>jo S. tracked c j jo S \<and> True) (probe c ?W b) (\<lambda>_ _. True)"
    unfolding probe_def
  proof (rule keeps_tracked_state, unfold Let_def, rule keeps_then)
    fix j'
    assume j: "same_drill j j'"
    let ?b = "Json_Body (PDict [(u ''run_id'', PStr (jo_run j')), (u ''message'', PStr (u ''fault drill probe'')), (u ''value'', PInt 1)])"
    show "keeps c (\<lambda>e. \<not> resets e) (\<lambda>jo S. tracked c j jo S \<and> True)
       (if b then bind_eff (fault_request c ?W ''PUT'' (doc_path j' ''/_doc/probe?refresh=true&timeout=5s'') ?b) (\<lambda>r.
         lift_res (bind_res (check_response r) (\<lambda>r. bind_res (py_get r ''result'') (\<lambda>x.
           expect (x = PStr (u ''created'') \<or> x = PStr (u ''updated'')) ''Probe write not acknowledged'')))) else ret ()) (\<lambda>_ _. True)"
      by (intro keeps_if keeps_then keeps_canary_put [OF _ j] keeps_result keeps_ret) (auto simp: canary_paths_def)
  qed (auto intro!: keeps_calm calm_rules)
  then show ?thesis by simp
qed

lemma keeps_canary_settings: "keeps c (\<lambda>_. True) (tracked c j) (canary_settings c (watched_fault l) vs) (\<lambda>_ _. True)"
proof -
  have "keeps c (\<lambda>_. True) (\<lambda>jo S. tracked c j jo S \<and> True) (canary_settings c (watched_fault l) vs) (\<lambda>_ _. True)"
    unfolding canary_settings_def
    by (rule keeps_tracked_state, rule keeps_then, rule keeps_canary_put) (auto simp: canary_paths_def intro!: keeps_ret simp del: ret_simps)
  then show ?thesis by simp
qed

lemma keeps_create_canary: "keeps c (\<lambda>e. \<not> resets e) (tracked c j) (create_canary c (watched_fault l) bad) (\<lambda>_ _. True)"
proof -
  have "keeps c (\<lambda>e. \<not> resets e) (\<lambda>jo S. tracked c j jo S \<and> True) (create_canary c (watched_fault l) bad) (\<lambda>_ _. True)"
    unfolding create_canary_def
    by (rule keeps_tracked_state, rule keeps_then, rule keeps_canary_put)
      (auto simp: canary_paths_def intro!: keeps_ret keeps_then keeps_calm [OF calm_reads(4)] keeps_probe simp del: ret_simps)
  then show ?thesis by simp
qed

lemma keeps_refuse:
  assumes "keeps c N K m (\<lambda>_ _. True)" "growing K"
  shows "keeps c N K (must_refuse status ts m) (\<lambda>_ _. True)"
  unfolding must_refuse_def
proof (rule keeps_then [OF keeps_conseq [OF keeps_catching [OF assms(1)]]])
  fix r :: "exn + pv"
  show "keeps c N K (case r of Inl (Http_Error st detail) \<Rightarrow> lift_res (expect (st = status \<and>
         list_ex (\<lambda>t. text_in (u t) (case detail of None \<Rightarrow> [] | Some d \<Rightarrow> d)) ts) ''Unexpected error'')
     | _ \<Rightarrow> raise_exn (Runtime_Error ''Expected rejection, but the request succeeded'')) (\<lambda>_ _. True)"
    by (auto intro!: keeps_result keeps_raise simp del: ret_simps split: sum.splits exn.splits)
qed (use assms(2) in auto)

lemma keeps_scenario: "same_drill j j' \<Longrightarrow> keeps c (\<lambda>e. \<not> resets e) (tracked c j) (check_scenario c (watched_fault l) j') (\<lambda>_ _. True)"
proof -
  assume j: "same_drill j j'"
  have "keeps c (\<lambda>e. \<not> resets e) (\<lambda>jo S. tracked c j jo S \<and> True) (check_write_block c (watched_fault l) j') (\<lambda>_ _. True)"
    unfolding check_write_block_def
    by (intro keeps_then keeps_refuse keeps_canary_put [OF _ j]) (auto simp: canary_paths_def intro!: keeps_calm calm_rules)
  then show ?thesis unfolding check_scenario_def by (auto intro!: keeps_if keeps_calm calm_rules)
qed
section \<open>Recovery and its evidence\<close>

lemma keeps_fact:
  assumes "keeps c N (\<lambda>_ _. True) m F" "\<And>a. keeps c N K (k a) (\<lambda>b E. \<forall>E1. F a E1 \<longrightarrow> H b (E1 \<union> E))" "growing K" "growing F"
  shows "keeps c N K (bind_eff m k) H"
  by (rule fault_keeps_bind [OF keeps_conseq [OF assms(1)] _ assms(3,4)]) (auto intro: keeps_conseq [OF assms(2)])

text \<open>A read followed by a pure function of its answer.\<close>

lemma keeps_read:
  assumes "keeps c N K m F" "\<And>v a E. f v = Inr a \<Longrightarrow> F v E \<Longrightarrow> H a E" "growing K" "growing F"
  shows "keeps c N K (bind_eff m (\<lambda>v. lift_res (f v))) H"
  by (rule fault_keeps_bind [OF assms(1) _ assms(3,4)], rule keeps_result) (use assms(2) in auto)

lemma keeps_read_seed: "keeps c (\<lambda>e. \<not> resets e) (\<lambda>_ _. True) (read_seed c (watched_fault l) i) (\<lambda>v. seed_told c (i, v))"
  unfolding read_seed_def
  by (rule keeps_fact [OF keeps_fault_get _ growing_True growing_told], rule keeps_lift,
      rule keeps_fact [OF keeps_fault_get _ growing_True growing_told], rule keeps_lift,
      rule keeps_fact [OF keeps_fault_post _ growing_True growing_told], rule keeps_lift, rule keeps_result)
    (auto simp: seed_told_def intro!: exI intro: told_mono)

lemma growing_seed [intro!, simp]: "growing (\<lambda>v. seed_told c (i, v))"
  by (rule growingI) (erule (1) seen_mono(6))

lemma keeps_seeds: "keeps c (\<lambda>e. \<not> resets e) (\<lambda>_ _. True) (read_seeds_of c (watched_fault l) is)
    (\<lambda>es S. map fst es = is \<and> (\<forall>ie\<in>set es. seed_told c ie S))"
proof (induction "is")
  case Nil
  show ?case by (auto intro!: keeps_ret simp del: ret_simps)
next
  case (Cons i "is")
  have g: "growing (\<lambda>es S. map fst es = is \<and> (\<forall>ie\<in>set es. seed_told c ie S))"
    by (rule growingI) (auto intro: seen_mono(6))
  show ?case unfolding read_seeds_of.simps
    by (rule keeps_fact [OF keeps_read_seed _ growing_True growing_seed], rule keeps_fact [OF Cons _ growing_True g], rule keeps_ret)
      (auto intro: seen_mono(6) [rotated])
qed

lemma keeps_read_seeds: "keeps c (\<lambda>e. \<not> resets e) (\<lambda>_ _. True) (read_seeds c (watched_fault l))
    (\<lambda>v S. \<exists>es. v = PDict es \<and> map fst es = seed_indices \<and> (\<forall>ie\<in>set es. seed_told c ie S))"
  unfolding read_seeds_def
  by (rule keeps_fact [OF keeps_seeds], rule keeps_ret) (auto intro!: growingI intro: seen_mono(6))

lemma calm_seeds [calm_rules]: "calm c (read_seeds c (watched_fault l))"
  by (rule keeps_calmI [OF keeps_read_seeds])

lemma keeps_same_seeds: "keeps c (\<lambda>e. \<not> resets e) (\<lambda>_ _. True) (same_seeds c (watched_fault l) j msg) (\<lambda>_. seeds_back c j)"
  unfolding same_seeds_def
  by (rule keeps_read [OF keeps_read_seeds]) (auto simp: seeds_back_def expect_def split: if_splits intro!: growingI intro: seen_mono(6))

lemma calm_same_seeds [calm_rules]: "calm c (same_seeds c (watched_fault l) j msg)"
  by (rule keeps_calmI [OF keeps_same_seeds])

lemma keeps_verify_indices: "keeps c (\<lambda>e. \<not> resets e) (\<lambda>_ _. True) (verify_indices c (watched_fault l) ivs)
    (\<lambda>_ S. \<forall>iv\<in>set ivs. \<exists>r. asked c (settings_path (fst iv)) r S \<and> index_restored (fst iv) (snd iv) r = Inr ())"
proof (induction ivs)
  case Nil
  show ?case by (auto intro!: keeps_ret simp del: ret_simps)
next
  case (Cons iv ivs)
  obtain i v where iv: "iv = (i, v)" by fastforce
  show ?case unfolding iv verify_indices.simps
    by (rule keeps_fact [OF keeps_fault_get _ growing_True growing_told], rule keeps_lift, rule keeps_conseq [OF Cons])
      (use told_mono [OF _ Un_upper1] told_mono [OF _ Un_upper2] in \<open>fastforce+\<close>)
qed

lemma growing_back [intro!, simp]: "growing (\<lambda>_. seeds_back c j)" "growing (\<lambda>_. settings_back c j)" "growing (\<lambda>_. canary_gone c j)"
  "growing (\<lambda>_. node_seen c n)" "growing (\<lambda>_. canary_owned c j)"
  by (rule growingI, erule (1) seen_mono)+

lemma mapping_missing_singleton: "mapping_missing {Sent via ''GET'' p No_Body r} p \<longleftrightarrow> (case r of Inr (status, _) \<Rightarrow> status = 404 | Inl e \<Rightarrow> not_found e)"
  unfolding mapping_missing_def by auto

text \<open>The mapping of the canary: the drill's own, or not found.\<close>

lemma request_not_found:
  assumes "fault_request c (watched_fault l) ''GET'' p No_Body ((w, L), d) = (Inl e, (w', L @ ext), d')" "not_found e"
  shows "mapping_missing (set ext) p"
proof -
  let ?W = "watched_fault l"
  let ?m = "on_world (case dr_route d of None \<Rightarrow> es_send (fc_es c) (fl_http ?W) ''GET'' p No_Body | Some n \<Rightarrow> exec_request c ?W n ''GET'' p No_Body)"
  have fb: "\<not> not_found e1" if "fallback c ?W ''GET'' p No_Body ns s = (Inl e1, s')" for ns s e1 s'
    using that
  proof (induction ns arbitrary: s)
    case (Cons n ns)
    show ?case
    proof (cases "dr_route (snd s) = Some n")
      case True
      then show ?thesis using Cons by (cases s) (auto simp: bind_eff_def get_drill_def)
    next
      case False
      obtain q s1 where q: "try_node c ?W ''GET'' p No_Body n s = (q, s1)" by (cases "try_node c ?W ''GET'' p No_Body n s")
      then show ?thesis using Cons.IH [of s1] Cons.prems False
        by (cases s; cases q) (auto simp: bind_eff_def get_drill_def catching_def transient_error_def is_api_error_def not_found_def split: if_splits exn.splits)
    qed
  qed (auto simp: os_error_def not_found_def)
  obtain q s1 where q: "?m ((w, L), d) = (q, s1)" by (cases "?m ((w, L), d)")
  have "\<exists>e1. q = Inl e1 \<and> (e1 = os_error \<or> e1 = e \<and> s1 = ((w', L @ ext), d'))"
    using assms q fb [of _ s1 e "((w', L @ ext), d')"]
    by (cases q) (auto simp: fault_request_def bind_eff_def get_drill_def catching_def simp del: fallback.simps split: if_splits dest: fb)
  then have "q = Inl e" "s1 = ((w', L @ ext), d')" using assms q fb [of _ s1 e "((w', L @ ext), d')"]
    by (auto simp: fault_request_def bind_eff_def get_drill_def catching_def simp del: fallback.simps split: if_splits dest: fb)
  then show ?thesis using q assms(2)
    by (auto simp: mapping_missing_singleton on_world_def es_send_def exec_request_def bind_eff_def lift_res_def watched_fault_def recording_def not_found_def compact_def
        bind_res_def validate_node_def expect_def split: option.splits prod.splits sum.splits if_splits)
qed
lemma keeps_mapping: "keeps c (\<lambda>e. \<not> resets e) (\<lambda>_ _. True) (catching not_found (fault_get c (watched_fault l) p))
    (\<lambda>r S. case r of Inr v \<Rightarrow> asked c p v S | Inl _ \<Rightarrow> mapping_missing (S) p)"
  unfolding keeps_def
proof (intro allI impI)
  fix w L and d :: drill
  assume "safe_log (fault_ok c) L \<and> True"
  then obtain r w' ext d' where r: "fault_get c (watched_fault l) p ((w, L), d) = (r, (w', L @ ext), d')" "safe_log (fault_ok c) (L @ ext)"
    "dr_state d' = dr_state d" "\<forall>e\<in>set ext. \<not> resets e" "\<forall>a. r = Inr a \<longrightarrow> asked c p a (set ext)"
    using keeps_fault_get [of c l p] unfolding keeps_def by metis
  have "mapping_missing (set ext) p" if "r = Inl e" "not_found e" for e
    using request_not_found r(1) that unfolding fault_get_def by metis
  then show "\<exists>r w' ext d'. catching not_found (fault_get c (watched_fault l) p) ((w, L), d) = (r, (w', L @ ext), d')
       \<and> safe_log (fault_ok c) (L @ ext) \<and> dr_state d' = dr_state d \<and> (\<forall>e\<in>set ext. \<not> resets e)
       \<and> (\<forall>a. r = Inr a \<longrightarrow> (case a of Inr v \<Rightarrow> asked c p v (set ext) | Inl _ \<Rightarrow> mapping_missing (set ext) p))"
    using r by (cases r) (auto simp: catching_def)
qed

lemma growing_mapping: "growing (\<lambda>r S. case r of Inr v \<Rightarrow> asked c p v S | Inl _ \<Rightarrow> mapping_missing (S) p)"
  by (rule growingI) (auto split: sum.splits intro: told_mono missing_mono)

definition owner_fact :: "fault_config \<Rightarrow> journal \<Rightarrow> bool \<Rightarrow> fault_event set \<Rightarrow> bool" where
  "owner_fact c j mine S \<longleftrightarrow> (if mine then canary_owned c j S else mapping_missing (S) (mapping_path j))"

lemma growing_owner [intro!, simp]: "growing (owner_fact c j)"
proof (rule growingI)
  fix mine S S'
  show "owner_fact c j mine S \<Longrightarrow> S \<subseteq> S' \<Longrightarrow> owner_fact c j mine S'"
    using seen_mono(5) [of S S' c j] missing_mono [of S _ S'] by (cases mine) (simp_all add: owner_fact_def)
qed

lemma keeps_owned: "keeps c (\<lambda>e. \<not> resets e) (\<lambda>_ _. True) (owned_canary c (watched_fault l) j) (owner_fact c j)"
  unfolding owned_canary_def
proof (rule keeps_fact [OF keeps_mapping _ growing_True growing_mapping])
  fix r :: "exn + pv"
  show "keeps c (\<lambda>e. \<not> resets e) (\<lambda>_ _. True) (case r of Inl _ \<Rightarrow> ret False | Inr mapping \<Rightarrow> bind_eff (lift_res (bind_res (canary_owner j mapping)
         (\<lambda>w. expect (w = PStr (jo_run j)) ''Canary ownership mismatch: will NOT modify/delete this index''))) (\<lambda>_. ret True))
     (\<lambda>b E. \<forall>E1. (case r of Inr v \<Rightarrow> asked c (mapping_path j) v E1 | Inl _ \<Rightarrow> mapping_missing (E1) (mapping_path j))
        \<longrightarrow> owner_fact c j b (E1 \<union> E))"
  proof (cases r)
    case (Inl e)
    show ?thesis unfolding Inl by (auto simp: owner_fact_def intro!: keeps_ret simp del: ret_simps)
  next
    case (Inr v)
    show ?thesis unfolding Inr sum.case
      by (rule keeps_lift, rule keeps_ret) (auto simp: owner_fact_def canary_owned_def expect_def bind_res_Inr_iff split: if_splits)
  qed
qed

lemma keeps_reset_canary: "keeps c (\<lambda>_. True) (tracked c j) (reset_canary c (watched_fault l) j) (\<lambda>_ _. True)"
  unfolding reset_canary_def
  by (rule keeps_then [OF keeps_conseq [OF keeps_owned]]) (auto intro!: keeps_if keeps_ret keeps_canary_settings simp del: ret_simps)

lemma keeps_remove_canary: "keeps c (\<lambda>e. \<not> resets e) (tracked c j) (remove_canary c (watched_fault l) j) (\<lambda>_. canary_gone c j)"
  unfolding remove_canary_def
proof (rule fault_keeps_bind [OF keeps_conseq [OF keeps_owned] _ growing_tracked growing_owner])
  let ?W = "watched_fault l"
  fix mine
  let ?del = "fault_request c ?W ''DELETE'' (u ''/'' @ jo_canary j) No_Body"
  have d: "keeps c (\<lambda>e. \<not> resets e) (\<lambda>jo S. tracked c j jo S \<and> canary_owned c j S) (bind_eff (probe c ?W True) (\<lambda>_. bind_eff ?del (\<lambda>_. ret ())))
     (\<lambda>_. canary_gone c j)"
  proof (rule fault_keeps_bind [OF keeps_conseq [OF keeps_probe] _ _ growing_True])
    fix x
    have "keeps c (\<lambda>e. \<not> resets e) (\<lambda>jo S. (tracked c j jo S \<and> canary_owned c j S) \<and> True) ?del (told c ''DELETE'' (u ''/'' @ jo_canary j) No_Body)"
      by (rule keeps_request) (auto intro: tracked_delete)
    then show "keeps c (\<lambda>e. \<not> resets e) (\<lambda>jo S. (tracked c j jo S \<and> canary_owned c j S) \<and> True) (bind_eff ?del (\<lambda>_. ret ()))
       (\<lambda>b E. \<forall>E1. True \<longrightarrow> canary_gone c j (E1 \<union> E))"
      by (rule fault_keeps_bind [OF _ _ _ growing_told]) (auto simp: canary_gone_def intro!: keeps_ret exI intro: told_mono simp del: ret_simps)
  qed (auto simp del: ret_simps)
  show "keeps c (\<lambda>e. \<not> resets e) (\<lambda>jo S. tracked c j jo S \<and> owner_fact c j mine S)
     (if \<not> mine then ret () else bind_eff (probe c ?W True) (\<lambda>_. bind_eff ?del (\<lambda>_. ret ())))
     (\<lambda>b E. \<forall>E1. owner_fact c j mine E1 \<longrightarrow> canary_gone c j (E1 \<union> E))"
  proof (cases mine)
    case True
    then show ?thesis using d by (auto simp: owner_fact_def intro: seen_mono(9) [OF Un_upper2] elim!: keeps_conseq)
  next
    case False
    then have m: "owner_fact c j mine E1 = mapping_missing E1 (mapping_path j)" for E1 by (simp add: owner_fact_def)
    show ?thesis using False unfolding m by (auto simp: canary_gone_def intro!: keeps_ret simp del: ret_simps)
  qed
qed auto

lemma keeps_verify: "keeps c (\<lambda>e. \<not> resets e) (tracked c j) (verify_recovery c (watched_fault l) j)
    (\<lambda>_ S. seeds_back c j S \<and> settings_back c j S \<and> canary_gone c j S)"
  unfolding verify_recovery_def
proof (rule keeps_bind_calm [OF calm_reads(4)], rule keeps_fact [OF keeps_same_seeds _ _ growing_back(1)],
    rule keeps_fact [OF keeps_fault_get _ _ growing_told], rule keeps_lift, rule keeps_fact [OF keeps_verify_indices])
  show "growing (\<lambda>(_::unit) S. \<forall>iv\<in>set (jo_indices j). \<exists>r. asked c (settings_path (fst iv)) r S \<and> index_restored (fst iv) (snd iv) r = Inr ())"
    by (rule growingI) (blast intro: told_mono)
  show "growing (\<lambda>(_::unit) S. seeds_back c j S \<and> settings_back c j S \<and> canary_gone c j S)" by (intro growing_conj growing_back)
  fix now and x :: unit
  assume "scopes_restored now (jo_cluster j) = Inr x"
  then have now: "scopes_restored now (jo_cluster j) = Inr ()" by simp
  show "keeps c (\<lambda>e. \<not> resets e) (tracked c j) (bind_eff (remove_canary c (watched_fault l) j) (\<lambda>_. lab_stable c (watched_fault l) (jo_nodes j)))
     (\<lambda>b E. \<forall>E1. (\<forall>iv\<in>set (jo_indices j). \<exists>r. asked c (settings_path (fst iv)) r E1 \<and> index_restored (fst iv) (snd iv) r = Inr ()) \<longrightarrow>
        (\<forall>E2. asked c flat_settings now E2 \<longrightarrow> (\<forall>E3. seeds_back c j E3 \<longrightarrow>
          seeds_back c j (E3 \<union> (E2 \<union> (E1 \<union> E))) \<and> settings_back c j (E3 \<union> (E2 \<union> (E1 \<union> E))) \<and> canary_gone c j (E3 \<union> (E2 \<union> (E1 \<union> E))))))"
    (is "keeps _ _ _ _ ?H")
  proof (rule fault_keeps_bind [OF keeps_remove_canary _ growing_tracked growing_back(3)])
    fix y
    have "?H () (E \<union> E')" if "canary_gone c j E" for E E'
    proof (intro allI impI)
      fix E1 E2 E3
      assume e: "\<forall>iv\<in>set (jo_indices j). \<exists>r. asked c (settings_path (fst iv)) r E1 \<and> index_restored (fst iv) (snd iv) r = Inr ()"
        "asked c flat_settings now E2" "seeds_back c j E3"
      let ?U = "E3 \<union> (E2 \<union> (E1 \<union> (E \<union> E')))"
      have "settings_back c j (E1 \<union> E2)"
        unfolding settings_back_def using e(1,2) now told_mono [OF _ Un_upper1] told_mono [OF _ Un_upper2] by fast
      then show "seeds_back c j ?U \<and> settings_back c j ?U \<and> canary_gone c j ?U"
        using seen_mono(7) [of E3 ?U] seen_mono(8) [of "E1 \<union> E2" ?U] seen_mono(9) [of E ?U] e(3) that by blast
    qed
    then show "keeps c (\<lambda>e. \<not> resets e) (\<lambda>jo S. tracked c j jo S \<and> canary_gone c j S) (lab_stable c (watched_fault l) (jo_nodes j))
       (\<lambda>b E. \<forall>E1. canary_gone c j E1 \<longrightarrow> ?H b (E1 \<union> E))"
      by (intro keeps_conseq [OF keeps_calm [OF calm_reads(4)]]) auto
  qed
qed auto
lemma keeps_index_change:
  assumes "growing K" "i \<in> set seed_indices"
    and "\<And>jo S. K jo S \<Longrightarrow> \<exists>j. tracked c j jo S \<and> ((i, v) \<in> set (jo_indices j) \<or> (\<exists>n. v = PDict [(u ''index.number_of_replicas'', n)]) \<and> replicas_noted c j i S)"
  shows "keeps c (\<lambda>_. True) K (index_change c (watched_fault l) i v) (\<lambda>_ _. True)"
  unfolding index_change_def
proof (rule keeps_then [OF keeps_conseq [OF keeps_request [where K = K and N = "\<lambda>_. True"]]])
  show "K jo S \<Longrightarrow> only_reads ''PUT'' (u ''/'' @ i @ u ''/_settings'') \<or> change_ok c S ''PUT'' (u ''/'' @ i @ u ''/_settings'') (Json_Body v)" for jo S
    using assms(2) assms(3) [of jo S] by (auto simp: put_ok_def intro!: tracked_put)
qed (use assms(1) in \<open>auto intro!: keeps_ret simp del: ret_simps\<close>)

lemma keeps_tolerate:
  assumes "keeps c N K m F" "growing K" "growing F"
  shows "keeps c N K (tolerate p m) (\<lambda>es S. es = [] \<longrightarrow> F () S)"
  unfolding tolerate_def
  by (rule fault_keeps_bind [OF keeps_catching [OF assms(1)] _ assms(2) growing_sum [OF assms(3)]], rule keeps_ret)
    (auto split: sum.splits)

lemma keeps_tolerated:
  assumes "keeps c N K m (\<lambda>_ _. True)" "growing K"
  shows "keeps c N K (tolerate p m) (\<lambda>_ _. True)"
  by (rule keeps_conseq [OF keeps_tolerate [OF assms growing_True]]) auto

lemma keeps_restore_indices: "set ivs \<subseteq> set (jo_indices j) \<Longrightarrow> keeps c (\<lambda>_. True) (tracked c j) (restore_indices c (watched_fault l) ivs) (\<lambda>_ _. True)"
proof (induction ivs)
  case Nil
  show ?case by (simp add: keeps_ret del: ret_simps)
next
  case (Cons iv ivs)
  obtain i v where iv: "iv = (i, v)" by fastforce
  show ?case unfolding iv restore_indices.simps
    by (rule keeps_lift, intro keeps_then keeps_tolerated keeps_index_change)
      (use Cons iv in \<open>auto simp: expect_def split: if_splits intro!: keeps_ret exI [of _ j] simp del: ret_simps\<close>)
qed

lemma keeps_patch:
  assumes "growing K" and "\<And>jo S. K jo S \<Longrightarrow> tracked c j jo S \<and> settings_noted c j (map fst vs) S"
  shows "keeps c (\<lambda>_. True) K (cluster_patch c (watched_fault l) vs) (\<lambda>_ _. True)"
proof -
  have "keeps c (\<lambda>_. True) (\<lambda>jo S. tracked c j jo S \<and> K jo S) (cluster_patch c (watched_fault l) vs) (\<lambda>_ _. True)"
    unfolding cluster_patch_def
  proof (rule keeps_tracked_state, rule keeps_then, rule keeps_calm [OF calm_guard], simp, rule keeps_then,
      rule keeps_conseq [OF keeps_request [where K = "\<lambda>jo S. tracked c j jo S \<and> K jo S" and N = "\<lambda>_. True"]])
    show "tracked c j jo S \<and> K jo S \<Longrightarrow> only_reads ''PUT'' cluster_settings \<or> change_ok c S ''PUT'' cluster_settings (Json_Body (patch_body vs))" for jo S
      using assms(2) [of jo S] by (auto simp: put_ok_def intro!: tracked_put)
  qed (use assms(1) in \<open>auto intro!: keeps_ret simp del: ret_simps\<close>)
  then show ?thesis by (rule keeps_conseq) (use assms(2) in auto)
qed

text \<open>A Compose command of a drill that is to be restarted.\<close>

lemma keeps_compose:
  assumes "\<And>j S args. K j S \<Longrightarrow> compose_args action node = Inr args \<Longrightarrow> command_ok c S args"
  shows "keeps c (\<lambda>_. True) K (on_world (compose_action (watched_fault l) action node)) (\<lambda>_ _. True)"
proof (cases "compose_args action node")
  case (Inl e)
  then have "on_world (compose_action (watched_fault l) action node) = raise_exn e"
    by (auto simp: on_world_def compose_action_def bind_eff_def lift_res_def)
  then show ?thesis by (simp add: keeps_raise del: ret_simps)
next
  case (Inr args)
  show ?thesis unfolding keeps_def
  proof (intro allI impI)
    fix w L and d :: drill
    assume p: "safe_log (fault_ok c) L \<and> K (dr_state d) (set L)"
    obtain r w' where s: "fl_compose l args w = (r, w')" by (cases "fl_compose l args w")
    have "safe_log (fault_ok c) (L @ [Composed args])" using p assms [OF _ Inr] by (auto simp: safe_log_snoc fault_ok_def)
    then show "\<exists>r w' ext d'. on_world (compose_action (watched_fault l) action node) ((w, L), d) = (r, (w', L @ ext), d')
        \<and> safe_log (fault_ok c) (L @ ext) \<and> dr_state d' = dr_state d \<and> (\<forall>e\<in>set ext. True) \<and> (\<forall>a. r = Inr a \<longrightarrow> True)"
      using s Inr by (intro exI [of _ r] exI [of _ w'] exI [of _ "[Composed args]"] exI [of _ d])
        (simp add: on_world_def compose_action_def bind_eff_def lift_res_def watched_fault_def recording_def)
  qed
qed

section \<open>Operations on the journal\<close>

definition triple :: "fault_config \<Rightarrow> (journal option \<Rightarrow> fault_event list \<Rightarrow> bool) \<Rightarrow> ('a, 's \<times> fault_event list) prog
     \<Rightarrow> ('a \<Rightarrow> journal option \<Rightarrow> fault_event list \<Rightarrow> bool) \<Rightarrow> bool" where
  "triple c A m B \<longleftrightarrow> (\<forall>w L (d::drill). safe_log (fault_ok c) L \<and> A (dr_state d) L \<longrightarrow>
     (\<exists>r w' ext d'. m ((w, L), d) = (r, (w', L @ ext), d') \<and> safe_log (fault_ok c) (L @ ext)
        \<and> (\<forall>a. r = Inr a \<longrightarrow> B a (dr_state d') (L @ ext))))"

lemma triple_keeps:
  assumes "keeps c N K m F" "\<And>j L. A j L \<Longrightarrow> K j (set L)"
    and "\<And>j L ext a. A j L \<Longrightarrow> list_all N ext \<Longrightarrow> F a (set ext) \<Longrightarrow> B a j (L @ ext)"
  shows "triple c A m B"
  unfolding triple_def
proof (intro allI impI)
  fix w L and d :: drill
  assume p: "safe_log (fault_ok c) L \<and> A (dr_state d) L"
  then obtain r w' ext d' where "m ((w, L), d) = (r, (w', L @ ext), d')" "safe_log (fault_ok c) (L @ ext)"
    "dr_state d' = dr_state d" "\<forall>e\<in>set ext. N e" "\<forall>a. r = Inr a \<longrightarrow> F a (set ext)"
    using assms(1,2) unfolding keeps_def by metis
  then show "\<exists>r w' ext d'. m ((w, L), d) = (r, (w', L @ ext), d') \<and> safe_log (fault_ok c) (L @ ext)
        \<and> (\<forall>a. r = Inr a \<longrightarrow> B a (dr_state d') (L @ ext))"
    using p assms(3) [of "dr_state d" L ext] by (auto simp: list_all_iff)
qed

lemma triple_bind:
  assumes "triple c A m B" "\<And>a. triple c (B a) (k a) C"
  shows "triple c A (bind_eff m k) C"
  unfolding triple_def
proof (intro allI impI)
  fix w L and d :: drill
  assume "safe_log (fault_ok c) L \<and> A (dr_state d) L"
  then obtain r w' ext d' where r: "m ((w, L), d) = (r, (w', L @ ext), d')" "safe_log (fault_ok c) (L @ ext)"
    "\<forall>a. r = Inr a \<longrightarrow> B a (dr_state d') (L @ ext)"
    using assms(1) unfolding triple_def by blast
  show "\<exists>r w' ext d'. bind_eff m k ((w, L), d) = (r, (w', L @ ext), d') \<and> safe_log (fault_ok c) (L @ ext)
        \<and> (\<forall>a. r = Inr a \<longrightarrow> C a (dr_state d') (L @ ext))"
  proof (cases r)
    case (Inl e)
    then show ?thesis using r by (intro exI [of _ "Inl e"] exI [of _ w'] exI [of _ ext] exI [of _ d']) (simp add: bind_eff_def)
  next
    case (Inr a)
    then obtain r2 w2 ext2 d2 where "k a ((w', L @ ext), d') = (r2, (w2, (L @ ext) @ ext2), d2)" "safe_log (fault_ok c) ((L @ ext) @ ext2)"
      "\<forall>b. r2 = Inr b \<longrightarrow> C b (dr_state d2) ((L @ ext) @ ext2)"
      using assms(2) [of a] r unfolding triple_def by blast
    then show ?thesis using r Inr by (intro exI [of _ r2] exI [of _ w2] exI [of _ "ext @ ext2"] exI [of _ d2]) (auto simp: bind_eff_def)
  qed
qed

lemma triple_conseq: "triple c A' m B' \<Longrightarrow> (\<And>j L. A j L \<Longrightarrow> A' j L) \<Longrightarrow> (\<And>a j L. B' a j L \<Longrightarrow> B a j L) \<Longrightarrow> triple c A m B"
  unfolding triple_def by metis

lemma triple_state:
  assumes "\<And>j. triple c (\<lambda>jo L. jo = Some j \<and> A jo L) (k j) B"
  shows "triple c A (bind_eff drill_state k) B"
  unfolding triple_def
proof (intro allI impI)
  fix w L and d :: drill
  assume p: "safe_log (fault_ok c) L \<and> A (dr_state d) L"
  show "\<exists>r w' ext d'. bind_eff drill_state k ((w, L), d) = (r, (w', L @ ext), d') \<and> safe_log (fault_ok c) (L @ ext)
        \<and> (\<forall>a. r = Inr a \<longrightarrow> B a (dr_state d') (L @ ext))"
  proof (cases "dr_state d")
    case None
    then show ?thesis using p by (intro exI [of _ "Inl Type_Error"] exI [of _ w] exI [of _ "[]"] exI [of _ d]) (simp add: bind_eff_def drill_state_def)
  next
    case (Some j)
    have "bind_eff drill_state k ((w, L), d) = k j ((w, L), d)" using Some by (simp add: bind_eff_def drill_state_def)
    then show ?thesis using assms [of j] p Some unfolding triple_def by simp
  qed
qed

lemma triple_change:
  assumes "\<And>j L. A j L \<Longrightarrow> B () (g j) L" "\<And>d. dr_state (f d) = g (dr_state d)"
  shows "triple c A (change f) B"
  unfolding triple_def
proof (intro allI impI)
  fix w :: 's and L and d :: drill
  assume "safe_log (fault_ok c) L \<and> A (dr_state d) L"
  then show "\<exists>r w' ext d'. change f ((w, L), d) = (r, (w', L @ ext), d') \<and> safe_log (fault_ok c) (L @ ext) \<and> (\<forall>a. r = Inr a \<longrightarrow> B a (dr_state d') (L @ ext))"
    using assms by (intro exI [of _ "Inr ()"] exI [of _ w] exI [of _ "[]"] exI [of _ "f d"]) (simp add: change_def)
qed

lemma triple_set: "(\<And>j L. A (Some j) L \<Longrightarrow> B () (Some (f j)) L) \<Longrightarrow> triple c A (set_state f) B"
  unfolding set_state_def by (rule triple_state, rule triple_change [where g = "\<lambda>_. Some (f _)"]) auto
text \<open>Writes of the journal, which are recorded when they succeed.\<close>

lemma triple_written:
  assumes "\<And>w L d. m ((w, L), d) = (case store w of (r, w') \<Rightarrow> (r, (w', L @ (if is_ok r then [e] else [])), d))"
    and "\<And>j L. A j L \<Longrightarrow> fault_ok c L e" and "\<And>a j L. A j L \<Longrightarrow> B a j (L @ [e])"
  shows "triple c A m B"
  unfolding triple_def
proof (intro allI impI)
  fix w L and d :: drill
  assume p: "safe_log (fault_ok c) L \<and> A (dr_state d) L"
  obtain r w' where "store w = (r, w')" by (cases "store w")
  then show "\<exists>r w' ext d'. m ((w, L), d) = (r, (w', L @ ext), d') \<and> safe_log (fault_ok c) (L @ ext) \<and> (\<forall>a. r = Inr a \<longrightarrow> B a (dr_state d') (L @ ext))"
    using p assms(1) [of w L d] assms(2,3) by (intro exI [of _ r] exI [of _ w'] exI [of _ "if is_ok r then [e] else []"] exI [of _ d])
      (cases r; auto simp: safe_log_snoc)
qed

lemma triple_note:
  assumes "\<And>j L. A (Some j) L \<Longrightarrow> B () (Some (j\<lparr>jo_events := jo_events j @ [name]\<rparr>)) (L @ [Saved (j\<lparr>jo_events := jo_events j @ [name]\<rparr>)])"
  shows "triple c A (note_event (watched_fault l) name) B"
  unfolding note_event_def save_state_def
proof (rule triple_bind [OF triple_set [where B = "\<lambda>_ jo L. \<exists>j. A (Some j) L \<and> jo = Some (j\<lparr>jo_events := jo_events j @ [name]\<rparr>)"]], blast, rule triple_state)
  fix j
  show "triple c (\<lambda>jo L. jo = Some j \<and> (\<exists>j. A (Some j) L \<and> jo = Some (j\<lparr>jo_events := jo_events j @ [name]\<rparr>))) (on_world (fl_save (watched_fault l) j)) B"
    by (rule triple_written [where store = "fl_save l j" and e = "Saved j"])
      (auto simp: on_world_def watched_fault_def recording_def fault_ok_def is_ok_def assms split: prod.splits sum.splits)
qed

lemma triple_calm: "calm c m \<Longrightarrow> (\<And>a j L ext. A j L \<Longrightarrow> B a j (L @ ext)) \<Longrightarrow> triple c A m B"
  by (rule triple_keeps [OF keeps_calm [where N = "\<lambda>_. True" and K = "\<lambda>_ _. True"]]) auto

text \<open>The state of the drill, loaded from its journal when the process has none.\<close>

definition based :: "journal option \<Rightarrow> fault_event list \<Rightarrow> bool" where
  "based jo L \<longleftrightarrow> (\<forall>j. jo = Some j \<longrightarrow> (\<exists>j'. known j' (set L) \<and> same_drill j j'))"

lemma same_drill_refl [simp]: "same_drill j j"
  by (simp add: same_drill_def)

lemma same_drill_trans: "same_drill j j' \<Longrightarrow> same_drill j' j'' \<Longrightarrow> same_drill j j''"
  and same_drill_sym: "same_drill j j' \<Longrightarrow> same_drill j' j"
  by (simp_all add: same_drill_def)

lemma based_append: "based jo L \<Longrightarrow> based jo (L @ ext)"
  unfolding based_def by (metis Un_upper1 known_mono set_append)

lemma triple_load: "triple c A (load_journal c (watched_fault l)) (\<lambda>_ jo L. \<exists>j. jo = Some j \<and> Loaded j \<in> set L)"
  unfolding load_journal_def
proof (rule triple_bind [OF triple_calm [OF calm_world(3), where B = "\<lambda>_ _ _. True"]], simp)
  fix e
  let ?B = "\<lambda>_ jo L. \<exists>j. jo = Some j \<and> Loaded j \<in> set L"
  let ?rest = "\<lambda>j. bind_eff (change (\<lambda>d. d\<lparr>dr_state := Some j\<rparr>)) (\<lambda>_.
     bind_eff (lift_res (bind_res (expect (is_int (jo_format j) 1) ''Unsupported/corrupt recovery journal'') (\<lambda>_.
       bind_res (expect (canary_text (jo_canary j)) ''Invalid canary journal'') (\<lambda>_.
       expect (jo_project j = fc_project c) ''COMPOSE_PROJECT_NAME differs from the saved drill'')))) (\<lambda>_.
     bind_eff (cluster_guard c (watched_fault l) (jo_uuid j)) (\<lambda>_. ret j)))"
  have load: "triple c (\<lambda>_ _. True) (on_world (fl_load (watched_fault l))) (\<lambda>j _ L. Loaded j \<in> set L)"
    unfolding triple_def
  proof (intro allI impI)
    fix w L and d :: drill
    assume p: "safe_log (fault_ok c) L \<and> True"
    obtain r w' where "fl_load l w = (r, w')" by (cases "fl_load l w")
    then show "\<exists>r w' ext d'. on_world (fl_load (watched_fault l)) ((w, L), d) = (r, (w', L @ ext), d') \<and> safe_log (fault_ok c) (L @ ext)
       \<and> (\<forall>a. r = Inr a \<longrightarrow> Loaded a \<in> set (L @ ext))"
      using p by (intro exI [of _ r] exI [of _ w'] exI [of _ "case r of Inr j \<Rightarrow> [Loaded j] | Inl _ \<Rightarrow> []"] exI [of _ d])
        (auto simp: on_world_def watched_fault_def recording_def safe_log_snoc fault_ok_def split: sum.splits)
  qed
  have rest: "triple c (\<lambda>_ L. Loaded j \<in> set L) (?rest j) ?B" for j
    by (rule triple_bind [OF triple_change [where g = "\<lambda>_. Some j" and B = "\<lambda>_ jo L. jo = Some j \<and> Loaded j \<in> set L"]], simp, simp)
      (rule triple_calm, (intro calm_rules), auto)
  show "triple c (\<lambda>_ _. True) (if \<not> e then raise_exn (Runtime_Error ''No active drill journal.'')
     else bind_eff (on_world (fl_load (watched_fault l))) ?rest) ?B"
    using triple_bind [OF load rest] by (cases e) (auto simp: triple_def intro: exI [of _ "[]"])
qed

lemma triple_current: "triple c (\<lambda>jo L. Q \<longrightarrow> based jo L) (current_state c (watched_fault l)) (\<lambda>j jo L. jo = Some j \<and> (Q \<longrightarrow> based jo L))"
  unfolding current_state_def
proof (rule triple_bind [where B = "\<lambda>d jo L. jo = dr_state d \<and> (Q \<longrightarrow> based jo L)"])
  show "triple c (\<lambda>jo L. Q \<longrightarrow> based jo L) get_drill (\<lambda>d jo L. jo = dr_state d \<and> (Q \<longrightarrow> based jo L))"
    unfolding triple_def by (auto simp: get_drill_def intro: exI [of _ "[]"])
next
  fix d :: drill
  let ?A = "\<lambda>jo L. jo = dr_state d \<and> (Q \<longrightarrow> based jo L)"
  have "triple c ?A (if dr_state d = None then load_journal c (watched_fault l) else drill_state) (\<lambda>_ jo L. Q \<longrightarrow> based jo L)"
  proof (cases "dr_state d")
    case None
    then show ?thesis by (simp, intro triple_conseq [OF triple_load]) (auto simp: based_def known_def intro!: exI)
  next
    case (Some j)
    then show ?thesis by (simp, intro triple_calm [OF calm_basic(5)]) (auto intro: based_append)
  qed
  then show "triple c ?A (bind_eff (if dr_state d = None then load_journal c (watched_fault l) else drill_state) (\<lambda>_. drill_state))
     (\<lambda>j jo L. jo = Some j \<and> (Q \<longrightarrow> based jo L))"
  proof (rule triple_bind)
    show "triple c (\<lambda>jo L. Q \<longrightarrow> based jo L) drill_state (\<lambda>j jo L. jo = Some j \<and> (Q \<longrightarrow> based jo L))"
      unfolding triple_def by (auto simp: drill_state_def split: option.splits intro!: exI [of _ "[]"])
  qed
qed

section \<open>Recovery\<close>

lemma triple_guard:
  assumes "\<And>info jo L ext. A jo L \<Longrightarrow> guarded_by c i info (set ext) \<Longrightarrow> B info jo (L @ ext)"
  shows "triple c A (cluster_guard c (watched_fault l) i) B"
  by (rule triple_keeps [OF keeps_guard]) (auto intro: assms)

text \<open>The drill is recovering: its journal was saved, also that it must restart its node.\<close>

definition recovering :: "fault_config \<Rightarrow> journal \<Rightarrow> journal option \<Rightarrow> fault_event set \<Rightarrow> bool" where
  "recovering c j jo S \<longleftrightarrow> tracked c j jo S \<and> (jo_restart j \<longrightarrow> (\<exists>j'. known j' S \<and> same_drill j j' \<and> jo_restart j'))"

lemma growing_recovering [intro!, simp]: "growing (recovering c j)"
  unfolding recovering_def by (intro growing_conj growing_tracked growingI) (blast intro: known_mono)

lemma same_evidence: "same_drill j j' \<Longrightarrow> seeds_back c j S \<and> settings_back c j S \<and> canary_gone c j S \<Longrightarrow>
    seeds_back c j' S \<and> settings_back c j' S \<and> canary_gone c j' S"
  by (simp add: same_drill_def seeds_back_def settings_back_def canary_gone_def mapping_path_def doc_path_def)

text \<open>Evidence that no later change of settings has spoiled.\<close>

definition evident :: "fault_config \<Rightarrow> journal \<Rightarrow> fault_event list \<Rightarrow> bool" where
  "evident c j L \<longleftrightarrow> (\<exists>pre post. L = pre @ post \<and> list_all (\<lambda>e. \<not> resets e) post
     \<and> seeds_back c j (set post) \<and> settings_back c j (set post) \<and> canary_gone c j (set post))"

lemma evident_append: "evident c j L \<Longrightarrow> list_all (\<lambda>e. \<not> resets e) ext \<Longrightarrow> evident c j (L @ ext)"
  unfolding evident_def
proof (elim exE conjE)
  fix pre post
  assume "L = pre @ post" "list_all (\<lambda>e. \<not> resets e) post" "seeds_back c j (set post)" "settings_back c j (set post)" "canary_gone c j (set post)"
    "list_all (\<lambda>e. \<not> resets e) ext"
  then show "\<exists>pre post. L @ ext = pre @ post \<and> list_all (\<lambda>e. \<not> resets e) post
     \<and> seeds_back c j (set post) \<and> settings_back c j (set post) \<and> canary_gone c j (set post)"
    using seen_mono(7-9) [of "set post" "set (post @ ext)" c j] by (intro exI [of _ pre] exI [of _ "post @ ext"]) auto
qed

lemma triple_finish: "triple c (\<lambda>jo L. (\<exists>j'. jo = Some j' \<and> same_drill j j') \<and> evident c j L) (finish_recovery (watched_fault l)) (\<lambda>_ _ _. True)"
  unfolding finish_recovery_def
proof (rule triple_bind [OF triple_set [where B = "\<lambda>_ jo L. \<exists>j'. jo = Some j' \<and> same_drill j j' \<and> jo_status j' = ''RECOVERED'' \<and> evident c j L"]],
    force simp: same_drill_def, rule triple_bind [OF triple_note [where B = "\<lambda>_ jo L. \<exists>j'. jo = Some j' \<and> same_drill j j' \<and> jo_status j' = ''RECOVERED'' \<and> evident c j L"]])
  let ?W = "watched_fault l"
  let ?A = "\<lambda>jo L. \<exists>j'. jo = Some j' \<and> same_drill j j' \<and> jo_status j' = ''RECOVERED'' \<and> evident c j L"
  show "?A (Some j1) L \<Longrightarrow> ?A (Some (j1\<lparr>jo_events := jo_events j1 @ [''recovery-PASS'']\<rparr>)) (L @ [Saved (j1\<lparr>jo_events := jo_events j1 @ [''recovery-PASS'']\<rparr>)])" for j1 L
    by (auto simp: same_drill_def resets_def intro: evident_append)
  fix x
  show "triple c ?A (bind_eff drill_state (\<lambda>j. bind_eff (on_world (fl_archive ?W j)) (\<lambda>_. on_world (fl_unlink ?W)))) (\<lambda>_ _ _. True)"
  proof (rule triple_state, rule triple_bind)
    fix j1
    show "triple c (\<lambda>jo L. jo = Some j1 \<and> ?A jo L) (on_world (fl_archive ?W j1)) (\<lambda>_ _ L. recovered c L)"
    proof (rule triple_written [where store = "fl_archive l j1" and e = "Archived j1"])
      fix a :: unit and jo L
      assume a: "jo = Some j1 \<and> ?A jo L"
      then obtain pre post where p: "L @ [Archived j1] = pre @ post @ [Archived j1]" "list_all (\<lambda>e. \<not> resets e) (post @ [Archived j1])"
        "seeds_back c j (set post) \<and> settings_back c j (set post) \<and> canary_gone c j (set post)"
        unfolding evident_def by (auto simp: resets_def)
      have "seeds_back c j1 (set post) \<and> settings_back c j1 (set post) \<and> canary_gone c j1 (set post)" using a p(3) same_evidence by blast
      then show "recovered c (L @ [Archived j1])" unfolding recovered_def p(1)
        using a p(2) seen_mono(7-9) [of "set post" "set (post @ [Archived j1])" c j1]
        by (intro exI [of _ j1] exI [of _ pre] exI [of _ "post @ [Archived j1]"]) auto
    qed (auto simp: on_world_def watched_fault_def recording_def fault_ok_def is_ok_def split: prod.splits sum.splits)
    show "triple c (\<lambda>_ L. recovered c L) (on_world (fl_unlink ?W)) (\<lambda>_ _ _. True)"
      unfolding triple_def
    proof (intro allI impI)
      fix w L and d :: drill
      assume "safe_log (fault_ok c) L \<and> recovered c L"
      then show "\<exists>r w' ext d'. on_world (fl_unlink ?W) ((w, L), d) = (r, (w', L @ ext), d') \<and> safe_log (fault_ok c) (L @ ext) \<and> (\<forall>a. r = Inr a \<longrightarrow> True)"
        by (cases "fl_unlink l w") (auto simp: on_world_def watched_fault_def recording_def safe_log_snoc fault_ok_def)
    qed
  qed
qed
definition idle :: "'a \<Rightarrow> journal option \<Rightarrow> fault_event list \<Rightarrow> bool" where
  "idle x j L \<longleftrightarrow> True"

abbreviation safely :: "fault_config \<Rightarrow> ('a, 's \<times> fault_event list) prog \<Rightarrow> bool" where
  "safely c m \<equiv> triple c (\<lambda>_ _. True) m (\<lambda>_ _ _. True)"

lemma triple_raise: "triple c A (raise_exn e) B"
  and triple_ret: "(\<And>j L. A j L \<Longrightarrow> B a j L) \<Longrightarrow> triple c A (ret a) B"
  unfolding triple_def by (auto intro: exI [of _ "[]"])

lemma triple_True: "triple c A' m B' \<Longrightarrow> (\<And>j L. A j L \<Longrightarrow> A' j L) \<Longrightarrow> triple c A m (\<lambda>_ _ _. True)"
  by (erule triple_conseq) auto

lemma keeps_recovering: "keeps c N (tracked c j) m F \<Longrightarrow> keeps c N (recovering c j) m F"
  by (erule keeps_conseq) (auto simp: recovering_def)

lemma recover_attempts:
  "keeps c (\<lambda>_. True) (recovering c j) (if jo_restart j then tolerate compose_error (on_world (compose_action (watched_fault l) ''start'' (jo_node j))) else ret []) (\<lambda>_ _. True)"
  "keeps c (\<lambda>_. True) (recovering c j) (if list_ex (\<lambda>(_, v). truthy v) (jo_cluster j)
     then tolerate transient_error (bind_eff (fault_request c (watched_fault l) ''PUT'' cluster_settings (Json_Body (PDict (jo_cluster j)))) (\<lambda>_. ret ())) else ret []) (\<lambda>_ _. True)"
proof -
  show "keeps c (\<lambda>_. True) (recovering c j) (if jo_restart j then tolerate compose_error (on_world (compose_action (watched_fault l) ''start'' (jo_node j))) else ret []) (\<lambda>_ _. True)"
  proof (rule keeps_if [OF keeps_tolerated [OF keeps_compose growing_recovering] keeps_ret])
    fix jo S args
    assume "jo_restart j" "recovering c j jo S" "compose_args ''start'' (jo_node j) = Inr args"
    then obtain j' where "known j' S" "same_drill j j'" "jo_restart j'" "cluster_seen c (jo_uuid j) S" "args = [u ''start'', jo_node j]"
      by (auto simp: recovering_def tracked_def compose_args_def bind_res_Inr_iff)
    then show "command_ok c S args" unfolding command_ok_def by (intro exI [of _ j']) (auto simp: same_drill_def)
  qed simp
  show "keeps c (\<lambda>_. True) (recovering c j) (if list_ex (\<lambda>(_, v). truthy v) (jo_cluster j)
     then tolerate transient_error (bind_eff (fault_request c (watched_fault l) ''PUT'' cluster_settings (Json_Body (PDict (jo_cluster j)))) (\<lambda>_. ret ())) else ret []) (\<lambda>_ _. True)"
  proof (rule keeps_recovering, rule keeps_if [OF keeps_tolerated [OF keeps_then [OF keeps_conseq [OF keeps_request [where K = "tracked c j" and N = "\<lambda>_. True"]]] growing_tracked] keeps_ret])
    show "tracked c j jo S \<Longrightarrow> only_reads ''PUT'' cluster_settings \<or> change_ok c S ''PUT'' cluster_settings (Json_Body (PDict (jo_cluster j)))" for jo S
      by (auto simp: put_ok_def intro!: tracked_put)
  qed (auto intro!: keeps_ret simp del: ret_simps)
qed

lemma triple_recovering:
  assumes "keeps c (\<lambda>_. True) (recovering c j) m (\<lambda>_ _. True)"
  shows "triple c (\<lambda>jo L. recovering c j jo (set L)) m (\<lambda>_ jo L. recovering c j jo (set L))"
  by (rule triple_keeps [OF assms]) (auto intro: growingD [OF growing_recovering])

lemma triple_steps:
  "triple c (\<lambda>jo L. jo = Some j \<and> cluster_seen c (jo_uuid j) (set L)) (recovery_steps c (watched_fault l) j) (\<lambda>_ _ _. True)"
  unfolding recovery_steps_def
proof (rule triple_bind [OF triple_set [where B = "\<lambda>_ jo L. jo = Some (j\<lparr>jo_status := ''RECOVERING''\<rparr>) \<and> cluster_seen c (jo_uuid j) (set L)"]],
    simp, rule triple_bind [OF triple_note [where B = "\<lambda>_ jo L. recovering c j jo (set L)"]])
  fix j1 L
  assume a: "Some j1 = Some (j\<lparr>jo_status := ''RECOVERING''\<rparr>) \<and> cluster_seen c (jo_uuid j) (set L)"
  let ?j = "j1\<lparr>jo_events := jo_events j1 @ [''recovery-started'']\<rparr>"
  have "same_drill j ?j" "jo_restart ?j = jo_restart j" using a by (auto simp: same_drill_def)
  then show "recovering c j (Some ?j) (set (L @ [Saved ?j]))"
    using a seen_mono(1) [of "set L" "set (L @ [Saved ?j])" c "jo_uuid j"] by (auto simp: recovering_def tracked_def known_def)
next
  let ?W = "watched_fault l"
  let ?R = "\<lambda>jo L. recovering c j jo (set L)"
  let ?E = "\<lambda>es jo L. recovering c j jo (set L) \<and> (es = [] \<longrightarrow> evident c j L)"
  have i: "keeps c (\<lambda>_. True) (recovering c j) (restore_indices c ?W (jo_indices j)) (\<lambda>_ _. True)"
    by (rule keeps_recovering, rule keeps_restore_indices) simp
  have k: "keeps c (\<lambda>_. True) (recovering c j) (tolerate runtime_error (reset_canary c ?W j)) (\<lambda>_ _. True)"
    by (rule keeps_tolerated [OF keeps_recovering [OF keeps_reset_canary] growing_recovering])
  have v: "triple c ?R (tolerate runtime_error (verify_recovery c ?W j)) ?E"
    by (rule triple_keeps [OF keeps_tolerate [OF keeps_recovering [OF keeps_verify]]])
      (auto simp: evident_def intro: growingD [OF growing_recovering])
  have fin: "triple c (?E e5) (if e1 @ e2 @ e3 @ e4 @ e5 \<noteq> []
   then bind_eff (set_state (\<lambda>j. j\<lparr>jo_recovery := Some False, jo_status := ''RECOVERY_FAILED''\<rparr>)) (\<lambda>_.
     bind_eff (note_event ?W ''recovery-FAIL'') (\<lambda>_. raise_exn (Runtime_Error ''Recovery incomplete; journal preserved.'')))
   else finish_recovery ?W) (\<lambda>_ _ _. True)" for e1 e2 e3 e4 e5
  proof (cases "e1 @ e2 @ e3 @ e4 @ e5 \<noteq> []")
    case True
    have "triple c (?E e5) (bind_eff (set_state (\<lambda>j. j\<lparr>jo_recovery := Some False, jo_status := ''RECOVERY_FAILED''\<rparr>)) (\<lambda>_.
     bind_eff (note_event ?W ''recovery-FAIL'') (\<lambda>_. raise_exn (Runtime_Error ''Recovery incomplete; journal preserved.'')))) (\<lambda>_ _ _. True)"
      by (rule triple_bind [OF triple_set [where B = "\<lambda>_ _ _. True"]], simp, rule triple_bind [OF triple_note [where B = "\<lambda>_ _ _. True"]], simp, rule triple_raise)
    then show ?thesis using True by (simp del: ret_simps)
  next
    case False
    then show ?thesis by (simp, intro triple_conseq [OF triple_finish]) (auto simp: recovering_def tracked_def)
  qed
  fix x y
  show "triple c ?R (bind_eff (if jo_restart j then tolerate compose_error (on_world (compose_action ?W ''start'' (jo_node j))) else ret []) (\<lambda>e1.
   bind_eff (if list_ex (\<lambda>(_, v). truthy v) (jo_cluster j)
     then tolerate transient_error (bind_eff (fault_request c ?W ''PUT'' cluster_settings (Json_Body (PDict (jo_cluster j)))) (\<lambda>_. ret ())) else ret []) (\<lambda>e2.
   bind_eff (restore_indices c ?W (jo_indices j)) (\<lambda>e3.
   bind_eff (tolerate runtime_error (reset_canary c ?W j)) (\<lambda>e4.
   bind_eff (tolerate runtime_error (verify_recovery c ?W j)) (\<lambda>e5.
   if e1 @ e2 @ e3 @ e4 @ e5 \<noteq> []
   then bind_eff (set_state (\<lambda>j. j\<lparr>jo_recovery := Some False, jo_status := ''RECOVERY_FAILED''\<rparr>)) (\<lambda>_.
     bind_eff (note_event ?W ''recovery-FAIL'') (\<lambda>_. raise_exn (Runtime_Error ''Recovery incomplete; journal preserved.'')))
   else finish_recovery ?W))))) ) (\<lambda>_ _ _. True)"
    by (intro triple_bind [OF triple_recovering [OF recover_attempts(1)]] triple_bind [OF triple_recovering [OF recover_attempts(2)]]
        triple_bind [OF triple_recovering [OF i]] triple_bind [OF triple_recovering [OF k]] triple_bind [OF v] fin)
qed

lemma safely_recover: "safely c (drill_recover c (watched_fault l))"
proof -
  have cur: "triple c (\<lambda>_ _. True) (current_state c (watched_fault l)) (\<lambda>j jo L. jo = Some j)"
    by (rule triple_conseq [OF triple_current [where Q = False]]) auto
  have guard: "triple c (\<lambda>jo L. jo = Some j) (cluster_guard c (watched_fault l) (jo_uuid j)) (\<lambda>_ jo L. jo = Some j \<and> cluster_seen c (jo_uuid j) (set L))" for j
    by (rule triple_guard) (auto dest!: guarded_seen intro: seen_mono(1) [rotated])
  show ?thesis unfolding drill_recover_def by (intro triple_bind [OF cur] triple_bind [OF guard] triple_steps)
qed
section \<open>The start and the check of a fault\<close>

lemma tracked_based: "tracked c j jo (set L) \<Longrightarrow> based jo L"
  unfolding tracked_def based_def by (metis option.inject same_drill_sym same_drill_trans)

lemma triple_tracked:
  assumes "keeps c N (tracked c j) m F"
  shows "triple c (\<lambda>jo L. tracked c j jo (set L)) m (\<lambda>_ jo L. tracked c j jo (set L))"
  by (rule triple_keeps [OF assms]) (auto intro: growingD [OF growing_tracked])

lemma safely_check: "triple c based (drill_check c (watched_fault l)) (\<lambda>_ _ _. True)"
  unfolding drill_check_def
proof (rule triple_bind)
  let ?W = "watched_fault l"
  show "triple c based (current_state c ?W) (\<lambda>j jo L. jo = Some j \<and> based jo L)"
    by (rule triple_conseq [OF triple_current [where Q = True]]) auto
  fix j :: journal
  let ?probe = "if jo_scenario j = ''allocation-filter''
       then must_refuse 503 [''search_phase_execution_exception'', ''no_shard_available_action_exception'', ''unavailable_shards_exception'']
         (fault_request c ?W ''POST'' (search_path (jo_canary j)) (Json_Body (PDict [(u ''query'', PDict [(u ''match_all'', PDict [])])])))
       else probe c ?W (jo_scenario j \<noteq> ''write-block'')"
  have g: "triple c (\<lambda>jo L. jo = Some j \<and> based jo L) (cluster_guard c ?W (jo_uuid j)) (\<lambda>_ jo L. tracked c j jo (set L))"
  proof (rule triple_guard)
    fix info and jo :: "journal option" and L ext :: "fault_event list"
    assume a: "jo = Some j \<and> based jo L" "guarded_by c (jo_uuid j) info (set ext)"
    then obtain j' where "known j' (set L)" "same_drill j j'" unfolding based_def by blast
    then show "tracked c j jo (set (L @ ext))"
      using a known_mono [of j' "set L" "set (L @ ext)"] seen_mono(1) [of "set ext" "set (L @ ext)" c "jo_uuid j"] guarded_seen [of c "jo_uuid j" info "set ext"]
      unfolding tracked_def by auto
  qed
  have p: "keeps c (\<lambda>e. \<not> resets e) (tracked c j) ?probe (\<lambda>_ _. True)"
    by (intro keeps_if keeps_probe keeps_refuse [OF keeps_calm]) (auto intro: calm_rules)
  have s: "keeps c (\<lambda>e. \<not> resets e) (tracked c j) (same_seeds c ?W j msg) (\<lambda>_ _. True)" for msg
    by (rule keeps_calm) (auto intro: calm_rules)
  have fin: "triple c (\<lambda>jo L. tracked c j jo (set L)) (bind_eff (set_state (\<lambda>j. j\<lparr>jo_check := Some True, jo_status := ''OBSERVED''\<rparr>)) (\<lambda>_. note_event ?W ''fault-check-PASS''))
     (\<lambda>_ _ _. True)"
    by (rule triple_bind [OF triple_set [where B = "\<lambda>_ _ _. True"]], simp, rule triple_note) simp
  show "triple c (\<lambda>jo L. jo = Some j \<and> based jo L) (bind_eff (cluster_guard c ?W (jo_uuid j)) (\<lambda>_. bind_eff (check_scenario c ?W j) (\<lambda>_.
     bind_eff (same_seeds c ?W j ''Seed count/index UUID/sample changed during fault'') (\<lambda>_. bind_eff ?probe (\<lambda>_.
     bind_eff (set_state (\<lambda>j. j\<lparr>jo_check := Some True, jo_status := ''OBSERVED''\<rparr>)) (\<lambda>_. note_event ?W ''fault-check-PASS'')))))) (\<lambda>_ _ _. True)"
    by (intro triple_bind [OF g] triple_bind [OF triple_tracked [OF keeps_scenario [OF same_drill_refl]]] triple_bind [OF triple_tracked [OF s]]
        triple_bind [OF triple_tracked [OF p]] fin)
qed

text \<open>Which settings a scenario changes.\<close>

definition planned :: "string \<Rightarrow> string list \<Rightarrow> pdict \<Rightarrow> bool" where
  "planned scenario keys thresholds \<longleftrightarrow> (scenario = ''allocation-disabled'' \<longrightarrow> keys = [allocation_key]) \<and> (scenario = ''drain-node'' \<longrightarrow> keys = [exclude_key])
     \<and> (scenario = ''zone-awareness'' \<longrightarrow> keys = [awareness_key]) \<and> (scenario = ''rebalance-disabled'' \<longrightarrow> keys = [rebalance_key])
     \<and> (scenario = ''disk-watermark'' \<longrightarrow> map fst thresholds = map u keys)"

lemma disk_thresholds_keys: "disk_thresholds stats = Inr t \<Longrightarrow> map fst t = map u disk_keys"
  by (auto simp: disk_thresholds_def bind_res_Inr_iff Let_def disk_keys_def)

lemma keeps_setting_keys: "keeps c (\<lambda>e. \<not> resets e) (\<lambda>_ _. True) (setting_keys c (watched_fault l) scenario ns) (\<lambda>r S. case r of (keys, t) \<Rightarrow> planned scenario keys t)"
  unfolding setting_keys_def
  by (intro keeps_if keeps_ret keeps_result keeps_read [OF keeps_fault_get _ growing_True growing_told])
    (auto simp: planned_def bind_res_Inr_iff disk_thresholds_keys)

definition index_read :: "fault_config \<Rightarrow> string \<Rightarrow> ustr \<Rightarrow> pdict \<Rightarrow> fault_event set \<Rightarrow> bool" where
  "index_read c scenario index indices S \<longleftrightarrow> (scenario = ''too-many-replicas'' \<longrightarrow>
     (\<exists>r s d. asked c (settings_path index) r S \<and> index_settings index r = Inr s \<and> replicas_original s = Inr d \<and> indices = [(index, d)]))"

lemma growing_index_read [intro!, simp]: "growing (index_read c scenario index)"
  by (rule growingI) (unfold index_read_def, blast intro: told_mono)

lemma keeps_index_original: "keeps c (\<lambda>e. \<not> resets e) (\<lambda>_ _. True) (index_original c (watched_fault l) scenario index)
   (index_read c scenario index)"
  unfolding index_original_def index_read_def
  by (intro keeps_if keeps_ret keeps_read [OF keeps_fault_get _ growing_True growing_told]) (auto simp: bind_res_Inr_iff)

text \<open>What the journal is based on when the fault starts.\<close>

definition prepared :: "fault_config \<Rightarrow> string \<Rightarrow> ustr \<Rightarrow> ustr \<times> journal \<times> nat \<times> pv \<times> pdict \<Rightarrow> fault_event set \<Rightarrow> bool" where
  "prepared c scenario index r S \<longleftrightarrow> (case r of (node, j, n, cluster, thresholds) \<Rightarrow> jo_node j = node \<and> cluster_seen c (jo_uuid j) S \<and> index \<in> set seed_indices
     \<and> (\<exists>keys. planned scenario keys thresholds \<and> settings_noted c j (map u keys) S) \<and> (scenario = ''too-many-replicas'' \<longrightarrow> replicas_noted c j index S))"

lemma growing_prepared [intro!, simp]: "growing (prepared c scenario index)"
proof (rule growingI)
  fix r S S'
  assume "prepared c scenario index r S" "S \<subseteq> S'"
  then show "prepared c scenario index r S'"
    unfolding prepared_def using seen_mono(1,3,4) [of S S'] by (cases r) fast
qed

lemma prepared_new:
  assumes "guarded_by c PNone info E1" "asked c flat_settings cluster E2" "planned scenario keys thresholds" "index_read c scenario index indices E3"
    and "bind_res (subscript info ''cluster_uuid'') (\<lambda>i. bind_res (cluster_original cluster keys) (\<lambda>originals. Inr (i, originals))) = Inr (i, originals)"
    and "index \<in> set seed_indices" "E1 \<subseteq> S" "E2 \<subseteq> S" "E3 \<subseteq> S"
  shows "prepared c scenario index (node, new_journal c scenario node index i master ns baseline old cluster originals indices run, n, cluster, thresholds) S"
proof -
  have "subscript info ''cluster_uuid'' = Inr i" "cluster_original cluster keys = Inr originals" using assms(5) by (auto simp: bind_res_Inr_iff)
  then show ?thesis
    using assms(3,4,6) guarded_found [OF assms(1), of i] seen_mono(1) [OF assms(7), of c i] told_mono [OF assms(2,8)] told_mono [OF _ assms(9)]
    unfolding prepared_def settings_noted_def replicas_noted_def index_read_def new_journal_def by fastforce
qed

lemma index_checked: "bind_res (expect a s) (\<lambda>_. bind_res (expect b t) (\<lambda>_. bind_res v (\<lambda>_. expect (index \<in> X) m))) = Inr x \<Longrightarrow> index \<in> X"
  by (auto simp: bind_res_Inr_iff expect_def split: if_splits)

lemma growing_planned [intro!, simp]: "growing (\<lambda>r (S::fault_event set). case r of (keys, t) \<Rightarrow> planned scenario keys t)"
  by (auto simp: growing_def)

lemma keeps_prod: "(\<And>x y. p = (x, y) \<Longrightarrow> keeps c N K (k x y) F) \<Longrightarrow> keeps c N K (case p of (x, y) \<Rightarrow> k x y) F"
  by (cases p) simp

lemma keeps_prepare: "keeps c (\<lambda>e. \<not> resets e) (\<lambda>_ _. True) (prepare c (watched_fault l) scenario node0 index) (prepared c scenario index)"
  unfolding prepare_def
  apply (rule keeps_bind_calm [OF calm_world(3)])
      apply (rule keeps_lift)
      apply (rule keeps_fact [OF keeps_guard])
        apply (rule keeps_bind_calm [OF calm_reads(1)])
            apply (rule keeps_lift)
            apply (rule keeps_lift)
            apply (rule keeps_bind_calm [OF calm_reads(4)])
                apply (rule keeps_bind_calm [OF calm_seeds])
                    apply (rule keeps_fact [OF keeps_fault_get])
                      apply (rule keeps_bind_calm [OF calm_request(1)])
                          apply (rule keeps_lift)
                          apply (rule keeps_lift)
                          apply (rule keeps_lift)
                          apply (rule keeps_bind_calm)
                              apply (intro calm_rules)
                              apply (rule keeps_bind_calm [OF calm_reads(3)])
                                apply (rule keeps_lift)
                                apply (rule keeps_prod)
                                apply (rule keeps_lift)
                                apply (rule keeps_fact [OF keeps_setting_keys])
                                apply (rule keeps_prod)
                                apply (rule keeps_fact [OF keeps_index_original])
                                apply (rule keeps_bind_calm [OF calm_world(4)])
                                apply (rule keeps_lift)
                                apply (rule keeps_prod)
                                apply (rule keeps_ret)
  subgoal premises p
    using p(1,10,11,12)
    by (auto intro!: prepared_new [OF _ _ _ _ _ index_checked])
  by (assumption | rule growing_True growing_told growing_guarded growing_planned growing_index_read growing_prepared growing_after)+
section \<open>Injection\<close>

lemma triple_lift:
  assumes "\<And>a. x = Inr a \<Longrightarrow> triple c A (k a) B"
  shows "triple c A (bind_eff (lift_res x) k) B"
proof (cases x)
  case (Inl e)
  then have "bind_eff (lift_res x) k = raise_exn e" by (auto simp: bind_eff_def lift_res_def)
  then show ?thesis by (simp add: triple_raise del: ret_simps)
next
  case (Inr a)
  then have "bind_eff (lift_res x) k = k a" by (auto simp: bind_eff_def lift_res_def)
  then show ?thesis using assms Inr by simp
qed

lemma same_tracked: "tracked c j (Some j1) S \<Longrightarrow> same_drill j1 j2 \<Longrightarrow> tracked c j (Some j2) S"
  unfolding tracked_def using same_drill_trans by blast

lemma tracked_append: "tracked c j jo (set L) \<Longrightarrow> tracked c j jo (set (L @ ext))"
  by (erule growingD [OF growing_tracked]) simp

lemma triple_set_tracked: "(\<And>j. same_drill j (f j)) \<Longrightarrow> triple c (\<lambda>jo L. tracked c j jo (set L)) (set_state f) (\<lambda>_ jo L. tracked c j jo (set L))"
  by (rule triple_set) (blast intro: same_tracked)

lemma triple_note_tracked: "triple c (\<lambda>jo L. tracked c j jo (set L)) (note_event (watched_fault l) name) (\<lambda>_ jo L. tracked c j jo (set L))"
  by (rule triple_note) (auto simp: same_drill_def simp del: set_append intro!: tracked_append intro: same_tracked)

lemma triple_calm_tracked: "calm c m \<Longrightarrow> triple c (\<lambda>jo L. tracked c j jo (set L)) m (\<lambda>_ jo L. tracked c j jo (set L))"
  by (erule triple_calm) (rule tracked_append)

lemma triple_stop: "jo_node j = node \<Longrightarrow> triple c (\<lambda>jo L. tracked c j jo (set L)) (stop_node c (watched_fault l) scenario node) (\<lambda>_ jo L. tracked c j jo (set L))"
  unfolding stop_node_def
proof (rule triple_bind [OF triple_calm_tracked [OF calm_reads(3)]], rule triple_lift, rule triple_bind [OF triple_set_tracked],
    simp add: same_drill_def, rule triple_lift, rule triple_bind [OF triple_calm_tracked], (intro calm_rules)[1])
  let ?W = "watched_fault l"
  assume n: "jo_node j = node"
  let ?A = "\<lambda>jo L. tracked c j jo (set L)"
  let ?S = "\<lambda>jo L. tracked c j jo (set L) \<and> node_seen c node (set L)"
  let ?T = "\<lambda>jo S. tracked c j jo S \<and> node_seen c node S \<and> (\<exists>j'. known j' S \<and> same_drill j j' \<and> jo_restart j')"
  have seen: "triple c ?A (verify_runtime_node c ?W node) (\<lambda>_. ?S)"
    by (rule triple_keeps [OF keeps_node]) (auto intro: growingD [OF growing_tracked] seen_mono(2) [rotated])
  have restart: "triple c ?S (set_state (\<lambda>j. j\<lparr>jo_restart := True\<rparr>)) (\<lambda>_ jo L. ?S jo L \<and> (\<exists>j1. jo = Some j1 \<and> jo_restart j1))"
    by (rule triple_set) (auto simp: same_drill_def intro: same_tracked)
  have noted: "triple c (\<lambda>jo L. ?S jo L \<and> (\<exists>j1. jo = Some j1 \<and> jo_restart j1)) (note_event ?W ''node-action-requested'') (\<lambda>_ jo L. ?T jo (set L))"
  proof (rule triple_note)
    fix j1 and L :: "fault_event list"
    assume a: "?S (Some j1) L \<and> (\<exists>j2. Some j1 = Some j2 \<and> jo_restart j2)"
    let ?j = "j1\<lparr>jo_events := jo_events j1 @ [''node-action-requested'']\<rparr>"
    have j: "same_drill j1 ?j" "jo_restart ?j" "same_drill j j1" using a by (auto simp: same_drill_def tracked_def)
    have "node_seen c node (set (L @ [Saved ?j]))" using a seen_mono(2) [of "set L" "set (L @ [Saved ?j])"] by auto
    moreover have "tracked c j (Some ?j) (set (L @ [Saved ?j]))" using same_tracked [OF _ j(1)] tracked_append a by metis
    moreover have "known ?j (set (L @ [Saved ?j]))" by (simp add: known_def)
    ultimately show "?T (Some ?j) (set (L @ [Saved ?j]))" using same_drill_trans [OF j(3,1)] j(2) by blast
  qed
  have act: "triple c (\<lambda>jo L. ?T jo (set L)) (on_world (compose_action ?W (stop_action scenario) node)) (\<lambda>_. ?A)"
  proof (rule triple_keeps [OF keeps_compose [where K = ?T]])
    fix jo S args
    assume t: "?T jo S" and args: "compose_args (stop_action scenario) node = Inr args"
    then obtain j' where "known j' S" "same_drill j j'" "jo_restart j'" by blast
    then show "command_ok c S args" unfolding command_ok_def
      using t args n by (intro exI [of _ j']) (auto simp: same_drill_def tracked_def compose_args_def stop_action_def bind_res_Inr_iff split: if_splits)
  qed (auto intro: growingD [OF growing_tracked])
  show "triple c ?A (bind_eff (verify_runtime_node c ?W node) (\<lambda>_. bind_eff (set_state (\<lambda>j. j\<lparr>jo_restart := True\<rparr>)) (\<lambda>_.
     bind_eff (note_event ?W ''node-action-requested'') (\<lambda>_. on_world (compose_action ?W (stop_action scenario) node))))) (\<lambda>_. ?A)"
    by (intro triple_bind [OF seen] triple_bind [OF restart] triple_bind [OF noted] act)
qed

definition injecting :: "fault_config \<Rightarrow> string \<Rightarrow> ustr \<Rightarrow> pdict \<Rightarrow> journal \<Rightarrow> journal option \<Rightarrow> fault_event set \<Rightarrow> bool" where
  "injecting c scenario index thresholds j jo S \<longleftrightarrow> tracked c j jo S \<and> index \<in> set seed_indices
     \<and> (\<exists>keys. planned scenario keys thresholds \<and> settings_noted c j (map u keys) S) \<and> (scenario = ''too-many-replicas'' \<longrightarrow> replicas_noted c j index S)"

lemma growing_injecting [intro!, simp]: "growing (injecting c scenario index thresholds j)"
proof (rule growingI)
  fix jo S S'
  assume "injecting c scenario index thresholds j jo S" "S \<subseteq> S'"
  then show "injecting c scenario index thresholds j jo S'"
    unfolding injecting_def using growingD [OF growing_tracked, of c j jo S S'] seen_mono(3) [of S S' c j] seen_mono(4) [of S S' c j index] by blast
qed

lemma keeps_injecting: "keeps c N (tracked c j) m F \<Longrightarrow> keeps c N (injecting c scenario index thresholds j) m F"
  by (erule keeps_conseq) (auto simp: injecting_def)

lemma keeps_inject:
  assumes "scenario \<notin> set node_scenarios"
  shows "keeps c (\<lambda>_. True) (injecting c scenario index thresholds j) (inject c (watched_fault l) scenario node index n cluster thresholds) (\<lambda>_ _. True)"
proof -
  let ?K = "injecting c scenario index thresholds j"
  have p: "keeps c (\<lambda>_. True) ?K (cluster_patch c (watched_fault l) vs) (\<lambda>_ _. True)" if "\<And>keys. planned scenario keys thresholds \<Longrightarrow> map fst vs = map u keys" for vs
    by (rule keeps_patch) (auto simp: injecting_def dest!: that)
  have s: "keeps c (\<lambda>_. True) ?K (canary_settings c (watched_fault l) vs) (\<lambda>_ _. True)" for vs
    by (rule keeps_injecting [OF keeps_canary_settings])
  have i: "keeps c (\<lambda>_. True) ?K (index_change c (watched_fault l) index (PDict [(u ''index.number_of_replicas'', v)])) (\<lambda>_ _. True)"
    if "scenario = ''too-many-replicas''" "index \<in> set seed_indices" for v
    by (rule keeps_index_change) (use that in \<open>auto simp: injecting_def\<close>)
  show ?thesis
  proof (cases "index \<in> set seed_indices")
    case True
    show ?thesis unfolding inject_def
      by (intro keeps_if keeps_then p s i keeps_lift keeps_ret) (use assms True in \<open>auto simp: planned_def\<close>)
  next
    case False
    then show ?thesis by (auto simp: keeps_def injecting_def)
  qed
qed

lemma safely_begin: "safely c (drill_begin c (watched_fault l) scenario node0 index)"
  unfolding drill_begin_def
proof (rule triple_bind)
  let ?W = "watched_fault l"
  show "triple c (\<lambda>_ _. True) (prepare c ?W scenario node0 index) (\<lambda>r jo L. prepared c scenario index r (set L))"
    by (rule triple_keeps [OF keeps_prepare]) (auto intro: growingD [OF growing_prepared])
  fix r :: "ustr \<times> journal \<times> nat \<times> pv \<times> pdict"
  obtain node j n cluster thresholds where r: "r = (node, j, n, cluster, thresholds)" by (cases r)
  let ?P = "\<lambda>L. prepared c scenario index r (set L)"
  let ?I = "\<lambda>jo L. injecting c scenario index thresholds j jo (set L) \<and> jo_node j = node"
  let ?A = "\<lambda>jo L. tracked c j jo (set L)"
  have start: "triple c (\<lambda>_. ?P) (change (\<lambda>d. d\<lparr>dr_state := Some j\<rparr>)) (\<lambda>_ jo L. jo = Some j \<and> ?P L)"
    by (rule triple_change [where g = "\<lambda>_. Some j"]) auto
  have noted: "triple c (\<lambda>jo L. jo = Some j \<and> ?P L) (note_event ?W ''journal-saved'') (\<lambda>_. ?I)"
  proof (rule triple_note)
    fix j1 and L :: "fault_event list"
    assume a: "Some j1 = Some j \<and> ?P L"
    let ?j = "j1\<lparr>jo_events := jo_events j1 @ [''journal-saved'']\<rparr>"
    have "prepared c scenario index r (set (L @ [Saved ?j]))" using a growingD [OF growing_prepared, of c scenario index r "set L"] by auto
    moreover have "known ?j (set (L @ [Saved ?j]))" "same_drill j ?j" using a by (auto simp: known_def same_drill_def)
    ultimately show "?I (Some ?j) (L @ [Saved ?j])" unfolding r prepared_def injecting_def tracked_def by blast
  qed
  have canary: "triple c ?I (create_canary c ?W b) (\<lambda>_. ?I)" for b
    by (rule triple_keeps [OF keeps_injecting [OF keeps_create_canary]]) (auto intro: growingD [OF growing_injecting])
  have inj: "triple c ?I (inject c ?W scenario node index n cluster thresholds) (\<lambda>_. ?A)"
  proof (cases "scenario \<in> set node_scenarios \<and> jo_node j = node")
    case True
    then show ?thesis by (simp add: inject_def, intro triple_conseq [OF triple_stop]) (auto simp: injecting_def)
  next
    case False
    have "triple c ?I (inject c ?W scenario node index n cluster thresholds) (\<lambda>_. ?A)" if "jo_node j = node"
      by (rule triple_keeps [OF keeps_inject]) (use False that in \<open>auto simp: injecting_def intro: growingD [OF growing_tracked]\<close>)
    then show ?thesis by (cases "jo_node j = node") (auto simp: triple_def)
  qed
  have fin: "triple c ?A (bind_eff (set_state (\<lambda>j. j\<lparr>jo_status := ''INJECTED''\<rparr>)) (\<lambda>_. bind_eff (note_event ?W ''injected'') (\<lambda>_. drill_check c ?W))) (\<lambda>_ _ _. True)"
    by (intro triple_bind [OF triple_set_tracked] triple_bind [OF triple_note_tracked] triple_conseq [OF safely_check]) (auto simp: same_drill_def dest: tracked_based)
  show "triple c (\<lambda>_. ?P) (case r of (node, j, n, cluster, thresholds) \<Rightarrow> bind_eff (change (\<lambda>d. d\<lparr>dr_state := Some j\<rparr>)) (\<lambda>_.
     bind_eff (note_event ?W ''journal-saved'') (\<lambda>_. bind_eff (create_canary c ?W (scenario = ''allocation-filter'')) (\<lambda>_.
     bind_eff (inject c ?W scenario node index n cluster thresholds) (\<lambda>_. bind_eff (set_state (\<lambda>j. j\<lparr>jo_status := ''INJECTED''\<rparr>)) (\<lambda>_.
     bind_eff (note_event ?W ''injected'') (\<lambda>_. drill_check c ?W))))))) (\<lambda>_ _ _. True)"
    unfolding r prod.case
    by (rule triple_bind [OF start [unfolded r]], rule triple_bind [OF noted [unfolded r]], rule triple_bind [OF canary], rule triple_bind [OF inj], rule fin)
qed
section \<open>Commands\<close>

lemma safely_bind: "safely c m \<Longrightarrow> (\<And>a. safely c (k a)) \<Longrightarrow> safely c (bind_eff m k)"
  by (rule triple_bind)

lemma safely_calm: "calm c m \<Longrightarrow> safely c m"
  by (erule triple_calm) simp

lemma safely_catching:
  assumes "safely c m" shows "safely c (catching p m)"
  unfolding triple_def
proof (intro allI impI)
  fix w L and d :: drill
  assume "safe_log (fault_ok c) L \<and> True"
  then obtain r w' ext d' where "m ((w, L), d) = (r, (w', L @ ext), d')" "safe_log (fault_ok c) (L @ ext)"
    using assms unfolding triple_def by metis
  then show "\<exists>r w' ext d'. catching p m ((w, L), d) = (r, (w', L @ ext), d') \<and> safe_log (fault_ok c) (L @ ext) \<and> (\<forall>a. r = Inr a \<longrightarrow> True)"
    by (cases r) (auto simp: catching_def)
qed

lemma safely_if: "safely c m \<Longrightarrow> safely c m' \<Longrightarrow> safely c (if b then m else m')"
  and safely_sum: "(\<And>x. safely c (g x)) \<Longrightarrow> (\<And>y. safely c (h y)) \<Longrightarrow> safely c (case s of Inl x \<Rightarrow> g x | Inr y \<Rightarrow> h y)"
  by (simp_all split: sum.splits)

lemma safely_state: "safely c (set_state f)" "safely c (note_event (watched_fault l) name)"
  by (rule triple_set, simp, rule triple_note, simp)

lemmas safely_rules = safely_if safely_sum safely_catching safely_state safely_begin safely_recover

lemma safely_failed: "safely c (failed_test (watched_fault l) name)"
  unfolding failed_test_def by (intro safely_bind safely_rules safely_calm [OF calm_basic(4)] safely_calm [OF calm_basic(1)])

lemma safely_run: "safely c (drill_run c (watched_fault l) scenario node index hold leave)"
  unfolding drill_run_def
  by (intro safely_bind [OF safely_calm [OF calm_world(3)]] safely_if safely_calm [OF calm_basic(1)] safely_calm [OF calm_basic(2)]
      safely_calm [OF calm_basic(3)] safely_calm [OF calm_world(2)] safely_calm [OF calm_basic(4)] safely_failed safely_rules safely_bind)

lemma safely_manual: "triple c based (manual_check c (watched_fault l)) (\<lambda>_ _ _. True)"
  unfolding manual_check_def
proof (rule triple_bind [where B = "\<lambda>_ _ _. True"])
  show "triple c based (catching runtime_error (drill_check c (watched_fault l))) (\<lambda>_ _ _. True)"
    unfolding triple_def
  proof (intro allI impI)
    fix w L and d :: drill
    assume "safe_log (fault_ok c) L \<and> based (dr_state d) L"
    then obtain r w' ext d' where "drill_check c (watched_fault l) ((w, L), d) = (r, (w', L @ ext), d')" "safe_log (fault_ok c) (L @ ext)"
      using safely_check unfolding triple_def by metis
    then show "\<exists>r w' ext d'. catching runtime_error (drill_check c (watched_fault l)) ((w, L), d) = (r, (w', L @ ext), d')
        \<and> safe_log (fault_ok c) (L @ ext) \<and> (\<forall>a. r = Inr a \<longrightarrow> True)"
      by (cases r) (auto simp: catching_def)
  qed
  fix r :: "exn + unit"
  show "safely c (case r of Inr _ \<Rightarrow> ret () | Inl e \<Rightarrow> bind_eff get_drill (\<lambda>d. if dr_state d = None then raise_exn e
         else bind_eff (set_state (\<lambda>j. j\<lparr>jo_error := True, jo_check := Some False\<rparr>)) (\<lambda>_.
           bind_eff (note_event (watched_fault l) ''manual-check-FAIL'') (\<lambda>_. raise_exn e))))"
    by (intro safely_sum safely_bind safely_if safely_state safely_calm [OF calm_basic(1)] safely_calm [OF calm_basic(2)] safely_calm [OF calm_basic(4)])
qed

lemma calm_diagnose: "calm c (diagnose c (watched_fault l))"
proof -
  have "calm c (diagnose_reads c (watched_fault l) ps)" for ps
    by (induction ps) (auto intro!: calm_rules simp del: ret_simps)
  then show ?thesis unfolding diagnose_def by (intro calm_rules)
qed

text \<open>The log of a command.\<close>

definition justly :: "fault_config \<Rightarrow> ('a, 's \<times> fault_event list) eff \<Rightarrow> bool" where
  "justly c m \<longleftrightarrow> (\<forall>w L. safe_log (fault_ok c) L \<longrightarrow> safe_log (fault_ok c) (snd (snd (m (w, L)))))"

lemma justly_fresh: "triple c based m (\<lambda>_ _ _. True) \<Longrightarrow> justly c (fresh m)"
  unfolding justly_def triple_def fresh_def
proof (intro allI impI)
  fix w and L :: "fault_event list"
  assume m: "\<forall>w L (d::drill). safe_log (fault_ok c) L \<and> based (dr_state d) L \<longrightarrow> (\<exists>r w' ext d'. m ((w, L), d) = (r, (w', L @ ext), d')
    \<and> safe_log (fault_ok c) (L @ ext) \<and> (\<forall>a. r = Inr a \<longrightarrow> True))" and s: "safe_log (fault_ok c) L"
  have "based (dr_state new_drill) L" by (simp add: based_def new_drill_def)
  then obtain r w' ext d' where "m ((w, L), new_drill) = (r, (w', L @ ext), d')" "safe_log (fault_ok c) (L @ ext)" using m s by metis
  then show "safe_log (fault_ok c) (snd (snd (case m ((w, L), new_drill) of (r, w', _) \<Rightarrow> (r, w'))))" by simp
qed

lemma justly_bind: "justly c m \<Longrightarrow> (\<And>a. justly c (k a)) \<Longrightarrow> justly c (bind_eff m k)"
  unfolding justly_def
proof (intro allI impI)
  fix w L
  assume m: "\<forall>w L. safe_log (fault_ok c) L \<longrightarrow> safe_log (fault_ok c) (snd (snd (m (w, L))))"
    and k: "\<And>a. \<forall>w L. safe_log (fault_ok c) L \<longrightarrow> safe_log (fault_ok c) (snd (snd (k a (w, L))))" and s: "safe_log (fault_ok c) L"
  obtain r w1 L1 where r: "m (w, L) = (r, w1, L1)" by (cases "m (w, L)")
  then have "safe_log (fault_ok c) L1" using m s by (metis snd_conv)
  then show "safe_log (fault_ok c) (snd (snd (bind_eff m k (w, L))))" using r k by (cases r) (simp_all add: bind_eff_def)
qed

lemma justly_silent: "justly c (ret a)" "justly c (lift_res x)"
  by (simp_all add: justly_def lift_res_def)

lemma justly_safely: "safely c m \<Longrightarrow> justly c (fresh m)"
  by (rule justly_fresh, erule triple_True) simp

lemma justly_main: "justly c (fault_main c (watched_fault l) a)"
proof -
  have suite: "justly c (run_suite c (watched_fault l) a ss)" for ss
    by (induction ss) (auto intro!: justly_silent justly_bind justly_safely safely_run simp del: ret_simps)
  have d: "justly c (fresh (bind_eff (diagnose c (watched_fault l)) (\<lambda>_. ret ())))"
    by (intro justly_safely safely_calm calm_bind calm_diagnose calm_basic(1))
  have "justly c (case fa_command a of
       Cmd_Check \<Rightarrow> fresh (manual_check c (watched_fault l)) | Cmd_Recover \<Rightarrow> fresh (drill_recover c (watched_fault l))
     | Cmd_Diagnose \<Rightarrow> fresh (bind_eff (diagnose c (watched_fault l)) (\<lambda>_. ret ()))
     | Cmd_Run \<Rightarrow> run_suite c (watched_fault l) a (case fa_scenario a of None \<Rightarrow> [] | Some s \<Rightarrow> if s = ''all'' then default_suite else [s])
     | Cmd_Apply \<Rightarrow> run_suite c (watched_fault l) a (case fa_scenario a of None \<Rightarrow> [] | Some s \<Rightarrow> [s])
     | _ \<Rightarrow> ret ())"
    by (cases "fa_command a") (auto intro: justly_silent suite d justly_fresh safely_manual justly_safely safely_recover simp del: ret_simps)
  then show ?thesis unfolding fault_main_def
    by (intro justly_bind justly_silent) (auto intro!: justly_bind justly_silent simp del: ret_simps)
qed

lemma main_event:
  assumes "snd (snd (fault_main c (watched_fault l) a (s, []))) = pre @ e # post"
  shows "fault_ok c pre e"
proof -
  have "safe_log (fault_ok c) (snd (snd (fault_main c (watched_fault l) a (s, []))))"
    using justly_main [of c l a] unfolding justly_def by (meson safe_log_simps(1))
  then show ?thesis unfolding assms by (rule safe_logD)
qed

text \<open>C35: Every command of the fault lab changes the cluster only through the journal: a request that may change anything is
  preceded by a saved (or loaded) journal of a cluster with the lab's name and that journal's UUID, and writes the drill's own
  canary index, patches settings whose values the journal noted from the cluster, or puts back what it noted; only a canary
  whose mapping names the drill's run is deleted; a node is stopped only after the journal says it must be restarted and the
  node itself has answered under its name.\<close>

theorem changes_are_journalled:
  assumes "snd (snd (fault_main c (watched_fault l) a (s, []))) = pre @ e # post"
  shows "(case e of Sent _ m p b _ \<Rightarrow> only_reads m p \<or> change_ok c (set pre) m p b | Composed args \<Rightarrow> command_ok c (set pre) args | _ \<Rightarrow> True)"
  using main_event [OF assms] by (cases e) (simp_all add: fault_ok_def)

section \<open>A recovery\<close>

text \<open>A cluster that answers every request alike, and has no canary; its disk watermark was changed by a drill.\<close>

definition rehearsal_answer :: pv where
  "rehearsal_answer = PDict ([(u ''cluster_name'', PStr (u ''lab'')), (u ''cluster_uuid'', PStr (u ''c1'')), (u ''status'', PStr (u ''green'')),
     (u ''unassigned_shards'', PInt 0), (u ''initializing_shards'', PInt 0), (u ''relocating_shards'', PInt 0), (u ''nodes'', PDict []),
     (u ''count'', PInt 7), (u ''hits'', PDict [(u ''hits'', PList [])]), (u ''persistent'', PDict [(u exclude_key, PStr (u ''es09''))])]
     @ map (\<lambda>i. (i, PDict [(u ''settings'', PDict [(u ''index.uuid'', PStr (u ''x''))])])) seed_indices)"

definition rehearsal_config :: fault_config where
  "rehearsal_config = \<lparr>fc_es = \<lparr>ec_cluster = u ''lab'', ec_json = \<lambda>_. Some rehearsal_answer\<rparr>, fc_project = u ''p'', fc_timeout = 1, fc_interval = 1,
     fc_rounds = 1, fc_digest = \<lambda>_. []\<rparr>"

definition rehearsal_entry :: pv where
  "rehearsal_entry = PDict [(u ''count'', PInt 7), (u ''index_uuid'', PStr (u ''x'')), (u ''sample_sha256'', PStr [])]"

definition rehearsal_journal :: journal where
  "rehearsal_journal = \<lparr>jo_format = PInt 1, jo_run = u ''aaaaaaaaaaaa'', jo_scenario = ''drain-node'', jo_uuid = PStr (u ''c1''), jo_project = u ''p'',
     jo_node = u ''es03'', jo_nodes = [], jo_master = PNone, jo_primaries = [], jo_index = [], jo_baseline = PDict (map (\<lambda>i. (i, rehearsal_entry)) seed_indices),
     jo_canary = u ''lab-fault-aaaaaaaaaaaa'', jo_status = ''OBSERVED'', jo_events = [], jo_cluster = [(u ''persistent'', PDict [(u exclude_key, PStr (u ''es09''))])],
     jo_indices = [], jo_restart = False, jo_check = Some True, jo_error = False, jo_recovery = None, jo_result = None\<rparr>"

definition rehearsal_lab :: "unit fault_lab" where
  "rehearsal_lab = \<lparr>fl_http = \<lparr>ht_send = \<lambda>m p b. ret (if p = mapping_path rehearsal_journal then (404, [1]) else (200, [1])), ht_clock = ret 0, ht_sleep = \<lambda>t. ret ()\<rparr>,
     fl_curl = \<lambda>n m p b. raise_exn os_error, fl_compose = \<lambda>args. ret (), fl_exists = ret True, fl_load = ret rehearsal_journal, fl_save = \<lambda>j. ret (),
     fl_archive = \<lambda>j. ret (), fl_unlink = ret (), fl_run_id = ret []\<rparr>"

definition asks :: "string \<Rightarrow> ustr \<Rightarrow> body \<Rightarrow> fault_event" where
  "asks m p b = Sent None m p b (Inr (200, [1]))"

abbreviation rehearsal :: "(unit \<times> fault_event list) fault_lab" where
  "rehearsal \<equiv> watched_fault rehearsal_lab"

lemma rehearsal_send: "dr_route d = None \<Longrightarrow> compact b = Inr () \<Longrightarrow> p \<noteq> mapping_path rehearsal_journal \<Longrightarrow>
    fault_request rehearsal_config rehearsal m p b ((w, L), d) = (Inr rehearsal_answer, (w, L @ [asks m p b]), d)"
  by (simp add: fault_request_def bind_eff_def get_drill_def catching_def on_world_def es_send_def lift_res_def watched_fault_def rehearsal_lab_def
      recording_def rehearsal_config_def asks_def)

lemma rehearsal_get: "dr_route d = None \<Longrightarrow> p \<noteq> mapping_path rehearsal_journal \<Longrightarrow>
    fault_get rehearsal_config rehearsal p ((w, L), d) = (Inr rehearsal_answer, (w, L @ [asks ''GET'' p No_Body]), d)"
  unfolding fault_get_def by (rule rehearsal_send) (simp_all add: compact_def)

lemma rehearsal_mapping: "dr_route d = None \<Longrightarrow> owned_canary rehearsal_config rehearsal rehearsal_journal ((w, L), d) =
    (Inr False, (w, L @ [Sent None ''GET'' (mapping_path rehearsal_journal) No_Body (Inr (404, [1]))]), d)"
  by (simp add: owned_canary_def fault_get_def fault_request_def bind_eff_def get_drill_def catching_def on_world_def es_send_def lift_res_def
      watched_fault_def rehearsal_lab_def recording_def rehearsal_config_def compact_def not_found_def os_error_def)

lemma rehearsal_paths: "u ''/'' \<noteq> mapping_path rehearsal_journal" "u ''/_cluster/health'' @ u ''?master_timeout=3s&timeout=3s'' \<noteq> mapping_path rehearsal_journal"
  "u ''/_nodes'' \<noteq> mapping_path rehearsal_journal" "flat_settings \<noteq> mapping_path rehearsal_journal" "cluster_settings \<noteq> mapping_path rehearsal_journal"
  by (simp_all add: mapping_path_def doc_path_def rehearsal_journal_def flat_settings_def cluster_settings_def flip: u_append)

lemma rehearsal_seed_paths: "i \<in> set seed_indices \<Longrightarrow> count_path i \<noteq> mapping_path rehearsal_journal"
  "i \<in> set seed_indices \<Longrightarrow> settings_path i \<noteq> mapping_path rehearsal_journal" "i \<in> set seed_indices \<Longrightarrow> search_path i \<noteq> mapping_path rehearsal_journal"
  by (auto simp: mapping_path_def doc_path_def rehearsal_journal_def count_path_def settings_path_def search_path_def seed_indices_def simp flip: u_append)

definition stable_log :: "fault_event list" where
  "stable_log = [asks ''GET'' (u ''/_cluster/health'' @ u ''?master_timeout=3s&timeout=3s'') No_Body, asks ''GET'' (u ''/_nodes'') No_Body]"

lemma rehearsal_stable:
  assumes "dr_route d = None"
  shows "lab_stable rehearsal_config rehearsal [] ((w, L), d) = (Inr (), (w, L @ stable_log), d)"
proof -
  have "stable_sample [] (rehearsal_answer, []) = Inr True"
    by (simp add: stable_sample_def rehearsal_answer_def and_res_def not_timed_out_def py_get_def is_text_def get_or_def dget_or_def is_int_def
        leaf_eq_def number_of_value_def seed_indices_def)
  moreover have "named_nodes rehearsal_answer = Inr []" by (simp add: named_nodes_def rehearsal_answer_def)
  moreover have "fc_rounds rehearsal_config = Suc 0" by (simp add: rehearsal_config_def)
  moreover have "on_world (ht_clock (fl_http rehearsal)) ((w, L), d) = (Inr 0, (w, L), d)"
    by (simp add: on_world_def watched_fault_def rehearsal_lab_def recording_def)
  ultimately show ?thesis using assms
    by (simp add: lab_stable_def poll_def bind_eff_def sample_def catching_def lab_health_def lab_nodes_def rehearsal_get rehearsal_paths lift_res_def stable_log_def)
qed

definition seed_log :: "ustr \<Rightarrow> fault_event list" where
  "seed_log i = [asks ''GET'' (count_path i) No_Body, asks ''GET'' (settings_path i) No_Body, asks ''POST'' (search_path i) (Json_Body sample_query)]"

lemma rehearsal_seed:
  assumes "dr_route d = None" "i \<in> set seed_indices"
  shows "read_seed rehearsal_config rehearsal i ((w, L), d) = (Inr rehearsal_entry, (w, L @ seed_log i), d)"
proof -
  have "check_response rehearsal_answer = Inr rehearsal_answer"
    by (simp add: check_response_def rehearsal_answer_def dget_or_def part_failed_def py_get_dict_def get_or_def is_int_def leaf_eq_def
        number_of_value_def expect_def seed_indices_def)
  then have c: "seed_count rehearsal_answer = Inr (PInt 7)" "seed_sample rehearsal_answer = Inr (PList [])"
    by (simp_all add: seed_count_def seed_sample_def subscript_def rehearsal_answer_def number_in_def number_of_value_def expect_def rows_of_def)
  have s: "index_settings i rehearsal_answer = Inr (PDict [(u ''index.uuid'', PStr (u ''x''))])"
    using assms(2) by (auto simp: index_settings_def subscript_text_def rehearsal_answer_def seed_indices_def subscript_def)
  have q: "compact (Json_Body sample_query) = Inr ()" by (simp add: compact_def sample_query_def)
  have e: "seed_entry rehearsal_config (PInt 7) (PDict [(u ''index.uuid'', PStr (u ''x''))]) (PList []) = Inr rehearsal_entry"
    by (simp add: seed_entry_def subscript_def rehearsal_entry_def rehearsal_config_def)
  show ?thesis using assms c s q e
    by (simp add: read_seed_def bind_eff_def rehearsal_get rehearsal_send rehearsal_seed_paths lift_res_def seed_log_def)
qed

lemma rehearsal_seeds: "dr_route d = None \<Longrightarrow> set is \<subseteq> set seed_indices \<Longrightarrow>
    read_seeds_of rehearsal_config rehearsal is ((w, L), d) = (Inr (map (\<lambda>i. (i, rehearsal_entry)) is), (w, L @ concat (map seed_log is)), d)"
  by (induction "is" arbitrary: L) (simp_all add: bind_eff_def rehearsal_seed)

lemma rehearsal_same: "dr_route d = None \<Longrightarrow> same_seeds rehearsal_config rehearsal rehearsal_journal msg ((w, L), d) =
    (Inr (), (w, L @ concat (map seed_log seed_indices)), d)"
proof -
  have "py_eq (PDict (map (\<lambda>i. (i, rehearsal_entry)) seed_indices)) (jo_baseline rehearsal_journal)"
    by (simp add: rehearsal_journal_def seed_indices_def rehearsal_entry_def leaf_eq_def number_of_value_def)
  then show "dr_route d = None \<Longrightarrow> ?thesis"
    by (simp add: same_seeds_def read_seeds_def bind_eff_def rehearsal_seeds lift_res_def expect_def)
qed

lemma rehearsal_guard:
  assumes "dr_route d = None"
  shows "cluster_guard rehearsal_config rehearsal (PStr (u ''c1'')) ((w, L), d) =
    (Inr rehearsal_answer, (w, L @ [asks ''GET'' (u ''/'') No_Body]), d\<lparr>dr_bound := PStr (u ''c1'')\<rparr>)"
proof -
  have "identity_ok rehearsal_config (PStr (u ''c1'')) rehearsal_answer = Inr ()"
    by (simp add: identity_ok_def rehearsal_answer_def py_get_def subscript_def rehearsal_config_def expect_def unbootstrapped_def leaf_eq_def number_of_value_def)
  moreover have "subscript rehearsal_answer ''cluster_uuid'' = Inr (PStr (u ''c1''))" by (simp add: rehearsal_answer_def subscript_def)
  ultimately show ?thesis using assms
    by (simp add: cluster_guard_def bind_eff_def change_def rehearsal_get rehearsal_paths validate_identity_def get_drill_def lift_res_def)
qed

definition verify_log :: "fault_event list" where
  "verify_log = stable_log @ concat (map seed_log seed_indices) @ [asks ''GET'' flat_settings No_Body,
     Sent None ''GET'' (mapping_path rehearsal_journal) No_Body (Inr (404, [1]))] @ stable_log"

lemma rehearsal_verify:
  assumes "dr_route d = None"
  shows "verify_recovery rehearsal_config rehearsal rehearsal_journal ((w, L), d) = (Inr (), (w, L @ verify_log), d)"
proof -
  have j: "jo_nodes rehearsal_journal = []" "jo_indices rehearsal_journal = []" by (simp_all add: rehearsal_journal_def)
  have s: "scopes_restored rehearsal_answer (jo_cluster rehearsal_journal) = Inr ()"
    by (simp add: rehearsal_journal_def fields_of_def scope_now_def rehearsal_answer_def has_fields_def leaf_eq_def number_of_value_def expect_def)
  show ?thesis using assms
    by (simp add: verify_recovery_def bind_eff_def j s rehearsal_stable rehearsal_same rehearsal_get rehearsal_paths lift_res_def remove_canary_def
        rehearsal_mapping verify_log_def)
qed

definition recovering_journal :: journal where
  "recovering_journal = rehearsal_journal\<lparr>jo_status := ''RECOVERING'', jo_events := [''recovery-started'']\<rparr>"

definition recovered_journal :: journal where
  "recovered_journal = recovering_journal\<lparr>jo_recovery := Some True, jo_status := ''RECOVERED'', jo_result := Some True, jo_events := [''recovery-started'', ''recovery-PASS'']\<rparr>"

definition restoring :: fault_event where
  "restoring = asks ''PUT'' cluster_settings (Json_Body (PDict (jo_cluster rehearsal_journal)))"

definition opening_log :: "fault_event list" where
  "opening_log = [Loaded rehearsal_journal, asks ''GET'' (u ''/'') No_Body, asks ''GET'' (u ''/'') No_Body, Saved recovering_journal]"

definition closing_log :: "fault_event list" where
  "closing_log = [Sent None ''GET'' (mapping_path rehearsal_journal) No_Body (Inr (404, [1]))] @ verify_log @ [Saved recovered_journal, Archived recovered_journal]"

lemma rehearsal_note:
  "dr_state d = Some j \<Longrightarrow> note_event rehearsal name ((w, L), d) = (Inr (), (w, L @ [Saved (j\<lparr>jo_events := jo_events j @ [name]\<rparr>)]), d\<lparr>dr_state := Some (j\<lparr>jo_events := jo_events j @ [name]\<rparr>)\<rparr>)"
  by (simp add: note_event_def set_state_def save_state_def bind_eff_def drill_state_def change_def on_world_def watched_fault_def rehearsal_lab_def recording_def)

lemma rehearsal_current: "current_state rehearsal_config rehearsal (((), []), new_drill) =
   (Inr rehearsal_journal, ((), [Loaded rehearsal_journal, asks ''GET'' (u ''/'') No_Body]), \<lparr>dr_route = None, dr_bound = PStr (u ''c1''), dr_state = Some rehearsal_journal\<rparr>)"
proof -
  have "is_int (jo_format rehearsal_journal) 1" "canary_text (jo_canary rehearsal_journal)" "jo_project rehearsal_journal = fc_project rehearsal_config"
    "jo_uuid rehearsal_journal = PStr (u ''c1'')"
    by (simp_all add: rehearsal_journal_def is_int_def leaf_eq_def number_of_value_def canary_text_def starts_with_def u_def class_match_def is_hex_lower_def is_digit_def rehearsal_config_def)
  moreover have "on_world (fl_exists rehearsal) (((), []), new_drill) = (Inr True, ((), []), new_drill)"
    "on_world (fl_load rehearsal) (((), []), new_drill) = (Inr rehearsal_journal, ((), [Loaded rehearsal_journal]), new_drill)"
    by (simp_all add: on_world_def watched_fault_def rehearsal_lab_def recording_def)
  ultimately show ?thesis
    by (simp add: current_state_def bind_eff_def get_drill_def load_journal_def change_def rehearsal_guard lift_res_def expect_def drill_state_def new_drill_def)
qed

lemma rehearsal_recover: "snd (snd (fault_main rehearsal_config rehearsal \<lparr>fa_command = Cmd_Recover, fa_scenario = None, fa_node = u ''es03'',
      fa_index = u ''lab-audit-v1'', fa_yes = False, fa_hold = 0\<rparr> ((), []))) = opening_log @ restoring # closing_log @ [Unlinked]"
proof -
  let ?d = "\<lambda>j. \<lparr>dr_route = None, dr_bound = PStr (u ''c1''), dr_state = Some j\<rparr>"
  have j: "jo_restart rehearsal_journal = False" "jo_indices rehearsal_journal = []" "list_ex (\<lambda>(_, v). truthy v) (jo_cluster rehearsal_journal)"
    "jo_uuid rehearsal_journal = PStr (u ''c1'')" "compact (Json_Body (PDict (jo_cluster rehearsal_journal))) = Inr ()"
    by (simp_all add: rehearsal_journal_def compact_def)
  have r: "rehearsal_journal\<lparr>jo_status := ''RECOVERING'', jo_events := jo_events rehearsal_journal @ [''recovery-started'']\<rparr> = recovering_journal"
    by (simp add: recovering_journal_def rehearsal_journal_def)
  have f: "recovering_journal\<lparr>jo_recovery := Some True, jo_status := ''RECOVERED'', jo_result := Some (jo_check recovering_journal = Some True \<and> \<not> jo_error recovering_journal),
      jo_events := jo_events recovering_journal @ [''recovery-PASS'']\<rparr> = recovered_journal"
    by (simp add: recovered_journal_def recovering_journal_def rehearsal_journal_def)
  have fin: "finish_recovery rehearsal (((), L), ?d recovering_journal) = (Inr (), ((), L @ [Saved recovered_journal, Archived recovered_journal, Unlinked]), ?d recovered_journal)" for L
    by (simp add: finish_recovery_def bind_eff_def set_state_def drill_state_def change_def rehearsal_note f [simplified])
      (simp add: on_world_def watched_fault_def rehearsal_lab_def recording_def)
  have steps: "recovery_steps rehearsal_config rehearsal rehearsal_journal (((), L), ?d rehearsal_journal) =
     (Inr (), ((), L @ [Saved recovering_journal] @ restoring # closing_log @ [Unlinked]), ?d recovered_journal)" for L
    by (simp add: recovery_steps_def bind_eff_def set_state_def drill_state_def change_def rehearsal_note r j tolerate_def catching_def rehearsal_send
        rehearsal_paths reset_canary_def rehearsal_mapping rehearsal_verify fin restoring_def closing_log_def)
  have "drill_recover rehearsal_config rehearsal (((), []), new_drill) = (Inr (), ((), opening_log @ restoring # closing_log @ [Unlinked]), ?d recovered_journal)"
    by (simp add: drill_recover_def bind_eff_def rehearsal_current j rehearsal_guard steps opening_log_def)
  then show ?thesis
    by (simp add: fault_main_def bind_eff_def accept_args_def accept_command_def lift_res_def expect_def validate_node_def lab_node_def seed_indices_def
        fresh_def rehearsal_config_def)
qed

theorem changes_are_journalled_witness: "change_ok rehearsal_config (set opening_log) ''PUT'' cluster_settings (Json_Body (PDict (jo_cluster rehearsal_journal)))"
  using changes_are_journalled [OF rehearsal_recover] by (simp add: restoring_def asks_def only_reads_def)


end
