(* ===== verification/Reindex.thy ===== *)
theory Reindex
  imports Worker
begin

text \<open>
  \<open>mvp-lab/mvp_app/admin.py\<close>: the rebuild of the search index from the order store, while other clients go on
  writing. \<open>SQL.scan\<close> reads one page at a time, so that every page is read from the store as it is then.
\<close>

section \<open>The rebuild\<close>

record tally =
  ta_attempted :: nat
  ta_indexed :: nat
  ta_duplicates :: nat
  ta_older :: nat

definition no_rows :: tally where
  "no_rows = \<lparr>ta_attempted = 0, ta_indexed = 0, ta_duplicates = 0, ta_older = 0\<rparr>"

definition counted :: "string \<Rightarrow> tally \<Rightarrow> tally res" where
  "counted out t = (if out = ''older_version_ignored'' then Inr (t\<lparr>ta_older := ta_older t + 1\<rparr>)
     else if out = ''duplicate_ignored'' then Inr (t\<lparr>ta_duplicates := ta_duplicates t + 1\<rparr>)
     else if out = ''indexed'' then Inr (t\<lparr>ta_indexed := ta_indexed t + 1\<rparr>)
     else Inl (Runtime_Error ''Unknown projection outcome''))"

fun index_rows :: "'e es \<Rightarrow> order_data list \<Rightarrow> tally \<Rightarrow> (tally, 'e) eff" where
  "index_rows es [] t = ret t"
| "index_rows es (x # xs) t = bind_eff (search_index es (order_value x)) (\<lambda>out.
     bind_eff (lift_res (counted out (t\<lparr>ta_attempted := ta_attempted t + 1\<rparr>))) (\<lambda>t'. index_rows es xs t'))"

text \<open>
  The pages after the id \<open>i\<close>. Before each page other clients run the operations of the schedule, and the read may fail;
  after the schedule nobody writes any more.
\<close>

fun rebuild_pages :: "'e es \<Rightarrow> (store_op list \<times> commit) list \<Rightarrow> ustr \<Rightarrow> tally \<Rightarrow> db \<times> 'e \<Rightarrow> tally res \<times> db \<times> 'e" where
  "rebuild_pages es [] i t (d, e) = (case index_rows es (sql_scan i d) t e of (r, e') \<Rightarrow> (r, d, e'))"
| "rebuild_pages es ((ops, c) # rest) i t (d, e) = (let d1 = fold store_step ops d in
     case transaction c (\<lambda>d. Inr (scan_rows i d, d)) d1 of
       (Inl x, d2) \<Rightarrow> (Inl x, d2, e)
     | (Inr rows, d2) \<Rightarrow> if rows = [] then (Inr t, d2, e)
         else (case index_rows es rows t e of
             (Inl x, e') \<Rightarrow> (Inl x, d2, e')
           | (Inr t', e') \<Rightarrow> rebuild_pages es rest (o_id (last rows)) t' (d2, e')))"

definition search_refresh :: "'e es \<Rightarrow> (unit, 'e) eff" where
  "search_refresh es = bind_eff (es_request es Post_Refresh) raise_for_status"

definition search_rebuild :: "'e es \<Rightarrow> (store_op list \<times> commit) list \<Rightarrow> db \<times> 'e \<Rightarrow> tally res \<times> db \<times> 'e" where
  "search_rebuild es pages s = (case s of (d, e) \<Rightarrow> (case search_initialize es e of
       (Inl x, e1) \<Rightarrow> (Inl x, d, e1)
     | (Inr _, e1) \<Rightarrow> (case rebuild_pages es pages [] no_rows (d, e1) of
           (Inl x, d2, e2) \<Rightarrow> (Inl x, d2, e2)
         | (Inr t, d2, e2) \<Rightarrow> (case search_refresh es e2 of
               (Inl x, e3) \<Rightarrow> (Inl x, d2, e3)
             | (Inr _, e3) \<Rightarrow> (Inr t, d2, e3)))))"

section \<open>What the index holds afterwards\<close>

text \<open>No document is replaced by an older version.\<close>

definition raised :: "(ustr \<Rightarrow> (int \<times> pdict) option) \<Rightarrow> (ustr \<Rightarrow> (int \<times> pdict) option) \<Rightarrow> bool" where
  "raised m m' \<longleftrightarrow> (\<forall>i v y. m i = Some (v, y) \<longrightarrow> (\<exists>v' y'. m' i = Some (v', y') \<and> v \<le> v'))"

definition holds_from :: "(ustr \<Rightarrow> (int \<times> pdict) option) \<Rightarrow> ustr \<Rightarrow> int \<Rightarrow> bool" where
  "holds_from m i n \<longleftrightarrow> (\<exists>v y. m i = Some (v, y) \<and> n \<le> v)"

lemma raised_refl [simp]: "raised m m"
  by (simp add: raised_def)

lemma raised_trans: "raised m m' \<Longrightarrow> raised m' m'' \<Longrightarrow> raised m m''"
  unfolding raised_def by (meson order_trans)

lemma holds_from_raised: "holds_from m i n \<Longrightarrow> raised m m' \<Longrightarrow> holds_from m' i n"
  unfolding holds_from_def raised_def by (meson order_trans)

lemma holds_from_less: "holds_from m i n \<Longrightarrow> k \<le> n \<Longrightarrow> holds_from m i k"
  unfolding holds_from_def by (meson order_trans)

lemma holds_version_from: "holds_version (m i) n y \<Longrightarrow> holds_from m i n"
  by (auto simp: holds_version_def holds_from_def split: option.splits)

lemma newer_raised: "m' = m \<or> newer (m i) v \<and> m' = m(i \<mapsto> (v, y)) \<Longrightarrow> raised m m'"
  by (auto simp: raised_def newer_def)

definition from_store :: "(ustr \<Rightarrow> bool) \<Rightarrow> db \<Rightarrow> order_data \<Rightarrow> bool" where
  "from_store iso_ok d x \<longleftrightarrow> wf_order iso_ok x \<and> x \<in> set (history (o_id x) d)"

lemma row_from_store:
  assumes "wf_db iso_ok d" "r \<in> set (d_orders d)"
  shows "from_store iso_ok d (public r)"
proof -
  have h: "full_history iso_ok (public r) (history (o_id r) d)" using assms by (auto simp: wf_db_def)
  then have "public r \<in> set (history (o_id r) d)" by (metis full_history_def last_in_set)
  with full_history_wf [OF h] show ?thesis by (simp add: from_store_def)
qed

lemma index_rows_docs:
  assumes law: "external_versioning es docs"
  shows "index_rows es xs t e = (r, e') \<Longrightarrow> list_all (from_store iso_ok d) xs \<Longrightarrow> docs_sound d (docs e) \<Longrightarrow>
    docs_sound d (docs e') \<and> raised (docs e) (docs e') \<and> (is_ok r \<longrightarrow> list_all (\<lambda>x. holds_from (docs e') (o_id x) (o_version x)) xs)"
proof (induction xs arbitrary: t e)
  case (Cons x xs)
  obtain r1 e1 where s: "search_index es (order_value x) e = (r1, e1)" by (cases "search_index es (order_value x) e")
  have x: "wf_order iso_ok x" "x \<in> set (history (o_id x) d)" using Cons.prems(2) by (auto simp: from_store_def)
  note eff = search_index_projected [OF law x(1) s]
  have ds: "docs_sound d (docs e1)" using docs_sound_step [OF Cons.prems(3) x(2) eff(1)] .
  have up: "raised (docs e) (docs e1)" using newer_raised [OF eff(1)] .
  show ?case
  proof (cases r1)
    case (Inl y)
    then show ?thesis using Cons.prems(1) s ds up by (auto simp: bind_eff_def)
  next
    case (Inr out)
    have x1: "holds_from (docs e1) (o_id x) (o_version x)" using eff(2) [OF Inr] by (rule holds_version_from)
    show ?thesis
    proof (cases "counted out (t\<lparr>ta_attempted := ta_attempted t + 1\<rparr>)")
      case (Inl y)
      then have "r = Inl y \<and> e' = e1" using Cons.prems(1) s Inr by (simp add: bind_eff_def lift_res_def)
      with ds up show ?thesis by simp
    next
      fix t' assume "counted out (t\<lparr>ta_attempted := ta_attempted t + 1\<rparr>) = Inr t'"
      then have "index_rows es xs t' e1 = (r, e')" using Cons.prems(1) s Inr by (simp add: bind_eff_def lift_res_def)
      note IH = Cons.IH [OF this _ ds]
      from IH Cons.prems(2) up x1 show ?thesis by (auto intro: raised_trans holds_from_raised)
    qed
  qed
qed simp

text \<open>A page holds every later row up to its last one.\<close>

lemma last_before:
  assumes "sorted (map f (as @ bs))" "distinct (map f (as @ bs))" "x \<in> set bs" "as \<noteq> []"
  shows "f (last as) \<le> f x \<and> f (last as) \<noteq> f x"
proof -
  have "last as \<in> set as" using assms(4) by simp
  with assms(1-3) show ?thesis unfolding map_append sorted_append distinct_append by (auto simp: image_iff)
qed

lemma distinct_sort_map: "distinct (map f (sort_key k zs)) \<longleftrightarrow> distinct (map f zs)"
  by (simp add: distinct_map)

lemma page_reaches:
  assumes d: "distinct (map o_id (d_orders d))" and r: "r \<in> set (d_orders d)" "i < o_id r"
  shows "public r \<in> set (scan_rows i d) \<or> scan_rows i d \<noteq> [] \<and> o_id (last (scan_rows i d)) < o_id r"
proof -
  let ?ys = "sort_key o_id (filter (\<lambda>x. i < o_id x) (map public (d_orders d)))"
  have y: "public r \<in> set ?ys" using r by auto
  show ?thesis
  proof (cases "public r \<in> set (take 200 ?ys)")
    case False
    let ?a = "take 200 ?ys" and ?b = "drop 200 ?ys"
    have ab: "?a @ ?b = ?ys" by (rule append_take_drop_id)
    with y False have m: "public r \<in> set ?b" by (metis Un_iff set_append)
    then have ne: "?a \<noteq> []" by (cases ?ys) auto
    have "sorted (map o_id (?a @ ?b))" unfolding ab by (rule sorted_sort_key)
    moreover have "distinct (map o_id (?a @ ?b))" unfolding ab
      using d by (simp add: distinct_map_filter comp_def distinct_sort_map)
    ultimately have "o_id (last ?a) \<le> o_id (public r) \<and> o_id (last ?a) \<noteq> o_id (public r)"
      by (rule last_before [OF _ _ m ne])
    then have "o_id (last ?a) < o_id r" unfolding public_simps by (meson order_less_le)
    with ne show ?thesis unfolding scan_rows_def by blast
  qed (simp add: scan_rows_def)
qed

lemma step_history:
  "set (history i d) \<subseteq> set (history i (store_step a d))"
proof (cases a)
  case (Op_Create c oid ev now data key)
  obtain r d' where r: "sql_create d id c Commit_ok oid ev now data key d = (r, d')" by (metis surj_pair)
  from outbox_grows_history [OF sql_create_outbox [OF r]] show ?thesis by (simp add: store_step_def Op_Create r)
next
  case (Op_Update c ev j data)
  obtain r d' where r: "sql_update c ev j data d = (r, d')" by (metis surj_pair)
  from outbox_grows_history [OF sql_update_outbox [OF r]] show ?thesis by (simp add: store_step_def Op_Update r)
qed (simp add: store_step_def)

lemma steps_history: "set (history i d) \<subseteq> set (history i (fold store_step ops d))"
proof (induction ops arbitrary: d)
  case (Cons a ops)
  from step_history [of i d a] Cons [of "store_step a d"] show ?case by auto
qed simp

text \<open>After the operations of other clients every order is still there, at the same version or a later one.\<close>

lemma row_later:
  assumes wf: "wf_db iso_ok d" and ops: "list_all (valid_op iso_ok) ops" and r: "r \<in> set (d_orders d)"
  shows "\<exists>r'\<in>set (d_orders (fold store_step ops d)). o_id r' = o_id r \<and> o_version r \<le> o_version r'"
proof -
  note after = other_clients [OF ops wf]
  then obtain r' where r': "r' \<in> set (d_orders (fold store_step ops d))" "o_id r' = o_id r"
    using r by (auto simp: grown_def same_order_def)
  have "public r \<in> set (history (o_id r') (fold store_step ops d))"
    using row_from_store [OF wf r] steps_history [of "o_id r" d ops] r'(2) by (auto simp: from_store_def)
  moreover have "full_history iso_ok (public r') (history (o_id r') (fold store_step ops d))"
    using after r'(1) by (auto simp: wf_db_def)
  ultimately show ?thesis using full_history_last(1) [of iso_ok "public r'"] r' by force
qed

definition clients_ok :: "(ustr \<Rightarrow> bool) \<Rightarrow> (store_op list \<times> commit) list \<Rightarrow> bool" where
  "clients_ok iso_ok pages \<longleftrightarrow> list_all (\<lambda>(ops, c). list_all (valid_op iso_ok) ops) pages"

definition caught_up :: "db \<Rightarrow> (ustr \<Rightarrow> (int \<times> pdict) option) \<Rightarrow> ustr \<Rightarrow> bool" where
  "caught_up d m i \<longleftrightarrow> (\<forall>r\<in>set (d_orders d). i < o_id r \<longrightarrow> holds_from m (o_id r) (o_version r))"

lemma rebuild_scan_docs:
  assumes law: "external_versioning es docs" and wf: "wf_db iso_ok d" and ds: "docs_sound d (docs e)"
    and run: "index_rows es (sql_scan i d) t e = (r, e')"
  shows "docs_sound d (docs e') \<and> raised (docs e) (docs e') \<and> (is_ok r \<longrightarrow> caught_up d (docs e') i)"
proof -
  have "distinct (map o_id (d_orders d))" using wf by (simp add: wf_db_def)
  then have rows: "set (sql_scan i d) = {x \<in> public ` set (d_orders d). i < o_id x}" by (auto simp: sql_scan_sorted)
  have "list_all (from_store iso_ok d) (sql_scan i d)" using row_from_store [OF wf] by (auto simp: list_all_iff rows)
  from index_rows_docs [OF law run this ds] show ?thesis by (auto simp: list_all_iff rows caught_up_def)
qed

lemma page_caught_up:
  assumes "distinct (map o_id (d_orders d))" "list_all (\<lambda>x. holds_from m (o_id x) (o_version x)) (scan_rows i d)" "raised m m'"
    and "scan_rows i d \<noteq> [] \<Longrightarrow> caught_up d m' (o_id (last (scan_rows i d)))"
  shows "caught_up d m' i"
  unfolding caught_up_def
proof (intro ballI impI)
  fix r assume r: "r \<in> set (d_orders d)" "i < o_id r"
  from page_reaches [OF assms(1) r] show "holds_from m' (o_id r) (o_version r)"
  proof
    assume "public r \<in> set (scan_rows i d)"
    with assms(2) have "holds_from m (o_id r) (o_version r)" by (force simp: list_all_iff)
    then show ?thesis by (rule holds_from_raised [OF _ assms(3)])
  qed (use assms(4) r in \<open>auto simp: caught_up_def\<close>)
qed

lemma caught_up_earlier:
  assumes "wf_db iso_ok d" "list_all (valid_op iso_ok) ops" "caught_up (fold store_step ops d) m i"
  shows "caught_up d m i"
  unfolding caught_up_def
proof (intro ballI impI)
  fix r assume r: "r \<in> set (d_orders d)" "i < o_id r"
  obtain r' where r': "r' \<in> set (d_orders (fold store_step ops d))" "o_id r' = o_id r" "o_version r \<le> o_version r'"
    using row_later [OF assms(1,2) r(1)] by blast
  then have "holds_from m (o_id r) (o_version r')" using assms(3) r(2) by (auto simp: caught_up_def)
  then show "holds_from m (o_id r) (o_version r)" by (rule holds_from_less [OF _ r'(3)])
qed

lemma page_read:
  assumes "transaction c (\<lambda>d. Inr (scan_rows i d, d)) d = (r, d')"
  shows "d' = d" "r = Inr rows \<Longrightarrow> rows = scan_rows i d"
  using assms by (auto simp: transaction_def split: commit.splits)

lemma rebuild_pages_docs:
  assumes law: "external_versioning es docs"
  shows "rebuild_pages es pages i t (d, e) = (r, d', e') \<Longrightarrow> wf_db iso_ok d \<Longrightarrow> clients_ok iso_ok pages \<Longrightarrow> docs_sound d (docs e) \<Longrightarrow>
    wf_db iso_ok d' \<and> docs_sound d' (docs e') \<and> raised (docs e) (docs e') \<and> (is_ok r \<longrightarrow> caught_up d (docs e') i)"
proof (induction pages arbitrary: i t d e)
  case Nil
  then show ?case using rebuild_scan_docs [OF law, of iso_ok d e i t] by (auto split: prod.splits)
next
  case (Cons page rest)
  obtain ops c where page: "page = (ops, c)" by (cases page)
  let ?d1 = "fold store_step ops d"
  have ops: "list_all (valid_op iso_ok) ops" and rest: "clients_ok iso_ok rest" using Cons.prems(3) by (auto simp: clients_ok_def page)
  have wf1: "wf_db iso_ok ?d1" using other_clients [OF ops Cons.prems(2)] by blast
  have ds1: "docs_sound ?d1 (docs e)" using docs_sound_mono [OF Cons.prems(4) steps_history] .
  obtain q d2 where q: "transaction c (\<lambda>d. Inr (scan_rows i d, d)) ?d1 = (q, d2)" by (metis surj_pair)
  note d2 = page_read(1) [OF q]
  have ids: "distinct (map o_id (d_orders ?d1))" using wf1 by (simp add: wf_db_def)
  have rows: "list_all (from_store iso_ok ?d1) (scan_rows i ?d1)"
    using row_from_store [OF wf1] by (auto simp: list_all_iff dest!: scan_rows_gt)
  show ?case
  proof (cases q)
    case (Inl x)
    then show ?thesis using Cons.prems(1) wf1 ds1 by (auto simp: page q d2 Let_def)
  next
    case (Inr ys)
    then have ys: "ys = scan_rows i ?d1" using page_read(2) [OF q] by simp
    obtain r1 e1 where s: "index_rows es ys t e = (r1, e1)" by (metis surj_pair)
    note one = index_rows_docs [OF law s, where iso_ok = iso_ok, OF rows [folded ys] ds1]
    show ?thesis
    proof (cases "ys = [] \<or> \<not> is_ok r1")
      case True
      then have "d' = ?d1 \<and> (ys = [] \<and> e' = e \<or> ys \<noteq> [] \<and> e' = e1 \<and> \<not> is_ok r)"
        using Cons.prems(1) s by (auto simp: page q d2 Inr Let_def is_ok_def split: sum.splits if_splits)
      moreover have "caught_up ?d1 (docs e) i" if "ys = []"
        using page_caught_up [OF ids, of "docs e" i "docs e"] that ys by simp
      ultimately show ?thesis using one wf1 ds1 caught_up_earlier [OF Cons.prems(2) ops] by auto
    next
      case False
      then obtain t' where t': "r1 = Inr t'" by (cases r1) auto
      have "rebuild_pages es rest (o_id (last ys)) t' (?d1, e1) = (r, d', e')"
        using Cons.prems(1) False s t' by (simp add: page q d2 Inr Let_def)
      note IH = Cons.IH [OF this wf1 rest] 
      have l: "list_all (\<lambda>x. holds_from (docs e1) (o_id x) (o_version x)) (scan_rows i ?d1)" using one t' ys by simp
      have "caught_up d (docs e') i" if "is_ok r"
        using caught_up_earlier [OF Cons.prems(2) ops page_caught_up [OF ids l]] IH one that ys by blast
      with IH one show ?thesis by (blast intro: raised_trans)
    qed
  qed
qed

lemma id_not_empty:
  assumes "wf_db iso_ok d" "r \<in> set (d_orders d)"
  shows "[] < o_id r"
proof -
  have "wf_order iso_ok (public r)" using assms by (auto simp: wf_db_def intro: full_history_wf)
  then have "uuid_canonical (o_id r)" by (simp add: wf_order_def)
  then show ?thesis by (cases "o_id r") (auto simp: uuid_canonical_def)
qed

lemma caught_up_exact:
  assumes wf: "wf_db iso_ok d" and ds: "docs_sound d m" and up: "caught_up d m []"
  shows "m = (\<lambda>i. map_option (\<lambda>x. (o_version x, order_value x)) (sql_get i d))"
proof
  fix i
  show "m i = map_option (\<lambda>x. (o_version x, order_value x)) (sql_get i d)"
  proof (cases "select_id i d")
    case None
    then have "history i d = []" using history_unknown [OF wf] by (simp add: select_id_None)
    with docs_soundD [OF ds, of i] None show ?thesis by (cases "m i") (auto simp: sql_get_def)
  next
    case (Some row)
    then have row: "row \<in> set (d_orders d)" "o_id row = i" using select_id_Some by auto
    with up id_not_empty [OF wf row(1)] obtain v y where m: "m i = Some (v, y)" "o_version row \<le> v"
      by (auto simp: caught_up_def holds_from_def)
    with docs_soundD [OF ds] obtain z where z: "z \<in> set (history i d)" "y = order_value z" "v = o_version z" by blast
    have h: "full_history iso_ok (public row) (history i d)" using wf row by (auto simp: wf_db_def)
    with full_history_last [OF h z(1)] m(2) z(3) have "z = public row" by simp
    with m(1) z Some show ?thesis by (simp add: sql_get_def)
  qed
qed

lemma search_refresh_docs:
  assumes "external_versioning es docs" "search_refresh es s = (r, s')"
  shows "docs s' = docs s"
proof -
  obtain p s1 where p: "es_request es Post_Refresh s = (p, s1)" by (metis surj_pair)
  from es_request_docs [OF assms(1) p] assms(2) show ?thesis
    by (auto simp: search_refresh_def bind_eff_def p raise_for_status_def split: sum.splits if_splits)
qed


definition stale_index :: "ustr \<Rightarrow> (int \<times> pdict) option" where
  "stale_index = (\<lambda>_. None)"


end
