(* ===== verification/Api.thy ===== *)
theory Api
  imports Http_Policy Reindex Sim_Audit Message_Safety
begin

text \<open>
  \<open>mvp-lab/mvp_app/api.py\<close>: the HTTP handler of the order service, over the boundary of \<open>Http_Policy\<close>, the store, the
  cache and the index, with \<open>Search.find\<close> and \<open>Broker.status\<close> of \<open>adapters.py\<close>. The texts of a reply, its headers and
  its transmission are not modelled.
\<close>

section \<open>The search page\<close>

record found =
  fo_orders :: "pdict list"
  fo_total :: pv

definition search_incomplete :: exn where
  "search_incomplete = Problem 503 ''elasticsearch_search_incomplete''"

definition hit_order :: "(ustr \<Rightarrow> bool) \<Rightarrow> pv \<Rightarrow> pdict res" where
  "hit_order iso_ok hit = (case hit of PDict h \<Rightarrow> (case dget h ''_source'' of PDict order \<Rightarrow>
       if pkeys order \<noteq> u ` set order_fields \<or> \<not> py_eq (dget h ''_id'') (dget order ''id'')
       then Inl (Value_Error ''invalid search projection'')
       else bind_res (validate_event iso_ok (PDict [(u ''schema_version'', PInt 1), (u ''event_id'', dget order ''id''),
           (u ''order'', PDict order)])) (\<lambda>x.
         if utf8_encodable (str_of (dget x ''created_at'')) then Inr x else Inl (Value_Error ''UnicodeEncodeError''))
     | _ \<Rightarrow> Inl (Value_Error ''invalid search projection''))
   | _ \<Rightarrow> Inl (Value_Error ''invalid search projection''))"

text \<open>\<open>except (Problem, ValueError)\<close>\<close>

definition incomplete_for :: "exn \<Rightarrow> exn" where
  "incomplete_for e = (case e of Problem _ _ \<Rightarrow> search_incomplete | Value_Error _ \<Rightarrow> search_incomplete | _ \<Rightarrow> e)"

fun hit_orders :: "(ustr \<Rightarrow> bool) \<Rightarrow> pv list \<Rightarrow> pdict list res" where
  "hit_orders iso_ok [] = Inr []"
| "hit_orders iso_ok (h # hs) = (case hit_order iso_ok h of Inl e \<Rightarrow> Inl (incomplete_for e)
     | Inr x \<Rightarrow> bind_res (hit_orders iso_ok hs) (\<lambda>xs. Inr (x # xs)))"

text \<open>The total of a page of \<open>n\<close> hits, \<open>None\<close> when it is not one.\<close>

definition search_total :: "pv \<Rightarrow> nat \<Rightarrow> pv option" where
  "search_total t n = (case (case t of PDict d \<Rightarrow> dget d ''value'' | _ \<Rightarrow> t) of
       PInt k \<Rightarrow> if k < int n then None
         else (case t of PDict d \<Rightarrow> (let rel = dget d ''relation'' in
             if rel = PNone \<or> rel = PStr (u ''eq'') \<or> rel = PStr (u ''gte'')
             then Some (PDict [(u ''value'', PInt k), (u ''relation'', if rel = PNone then PStr (u ''eq'') else rel)]) else None)
           | _ \<Rightarrow> Some t)
     | _ \<Rightarrow> None)"

definition search_page :: "(ustr \<Rightarrow> bool) \<Rightarrow> pv \<Rightarrow> found res" where
  "search_page iso_ok data = (case data of
       PDict d \<Rightarrow> (case (dget d ''timed_out'', dget_or (PDict []) d ''_shards'', dget d ''hits'') of
           (PBool False, PDict sh, PDict h) \<Rightarrow>
             if dget sh ''failed'' \<noteq> PInt 0 then Inl search_incomplete
             else (case dget h ''hits'' of
               PList hits \<Rightarrow> if 50 < length hits then Inl search_incomplete
                 else (case search_total (dget h ''total'') (length hits) of None \<Rightarrow> Inl search_incomplete
                   | Some t \<Rightarrow> bind_res (hit_orders iso_ok hits) (\<lambda>xs. Inr \<lparr>fo_orders = xs, fo_total = t\<rparr>))
             | _ \<Rightarrow> Inl search_incomplete)
         | _ \<Rightarrow> Inl search_incomplete)
     | _ \<Rightarrow> Inl search_incomplete)"

definition search_find :: "(ustr \<Rightarrow> bool) \<Rightarrow> 'e es \<Rightarrow> ustr \<Rightarrow> (found, 'e) eff" where
  "search_find iso_ok es q = bind_eff (es_request es (Post_Search q)) (\<lambda>r. bind_eff (raise_for_status r) (\<lambda>_.
     case re_json r of None \<Rightarrow> raise_exn search_incomplete | Some v \<Rightarrow> lift_res (search_page iso_ok v)))"

definition search_status :: "'e es \<Rightarrow> (pv, 'e) eff" where
  "search_status es = bind_eff (es_request es Get_Count) (\<lambda>r. bind_eff (raise_for_status r) (\<lambda>_.
     lift_res (bind_res (reply_json r) (\<lambda>v. subscript v ''count''))))"

section \<open>The position of the consumer\<close>

record position_row =
  pr_low :: int
  pr_high :: int
  pr_committed :: "int option"
  pr_lag :: int
  pr_state :: string
  pr_gap :: "int option"

definition position_row :: "pv \<Rightarrow> pv \<Rightarrow> pv \<Rightarrow> position_row res" where
  "position_row low high committed = (case (low, high, committed) of
       (PInt l, PInt h, PInt k) \<Rightarrow> if 0 \<le> l \<and> l \<le> h
         then Inr \<lparr>pr_low = l, pr_high = h, pr_committed = (if 0 \<le> k then Some k else None), pr_lag = max 0 (h - max l k),
           pr_state = (if k < 0 then ''uninitialized'' else if k < l then ''below_retention''
             else if h < k then ''ahead_of_log'' else ''in_range''),
           pr_gap = (if 0 \<le> k then Some (max 0 (l - k)) else None)\<rparr>
         else Inl (Runtime_Error ''Kafka returned invalid watermark/checkpoint metadata'')
     | _ \<Rightarrow> Inl (Runtime_Error ''Kafka returned invalid watermark/checkpoint metadata''))"

record broker_report =
  br_lag :: int
  br_rows :: "position_row list"
  br_warning :: bool

text \<open>Per partition its watermarks and the committed positions that were returned, \<open>None\<close> for one with an error.\<close>

fun position_rows :: "(pv \<times> pv \<times> pv option list) list \<Rightarrow> position_row list res" where
  "position_rows [] = Inr []"
| "position_rows ((low, high, positions) # rest) = bind_res (case positions of
       [Some k] \<Rightarrow> position_row low high k
     | _ \<Rightarrow> Inl (Runtime_Error ''Kafka committed position lookup failed; lag is unknown'')) (\<lambda>r.
     bind_res (position_rows rest) (\<lambda>rs. Inr (r # rs)))"

definition broker_status :: "(pv \<times> pv \<times> pv option list) list option \<Rightarrow> broker_report res" where
  "broker_status topic = (case topic of None \<Rightarrow> Inl (Runtime_Error ''Topic unavailable'')
     | Some parts \<Rightarrow> bind_res (position_rows parts) (\<lambda>rs. Inr \<lparr>br_lag = sum_list (map pr_lag rs), br_rows = rs,
         br_warning = list_ex (\<lambda>r. pr_state r \<noteq> ''in_range'') rs\<rparr>))"

section \<open>The application\<close>

text \<open>
  What a request meets: the services, how the transactions end (\<open>ap_c1\<close>, \<open>ap_c2\<close>), what other clients did before the
  first read and between the transactions of a request (\<open>ap_seen\<close>, \<open>ap_later\<close>), the identifiers and the time it draws, the
  collation, \<open>urlsplit\<close>, \<open>parse_qs\<close>, the JSON scanner and the files of the page.
\<close>

record ('c, 'e) api =
  ap_iso :: "ustr \<Rightarrow> bool"
  ap_redis :: "'c redis"
  ap_es :: "'e es"
  ap_c1 :: commit
  ap_c2 :: commit
  ap_seen :: "db \<Rightarrow> db"
  ap_later :: "db \<Rightarrow> db"
  ap_oid :: ustr
  ap_event :: ustr
  ap_now :: ustr
  ap_fresh :: ustr
  ap_lower :: "nat \<Rightarrow> nat"
  ap_ceq :: "nat \<Rightarrow> nat \<Rightarrow> bool"
  ap_cursor :: "ustr \<Rightarrow> pv option"
  ap_ping :: "unit res"
  ap_topic :: "(pv \<times> pv \<times> pv option list) list option res"
  ap_project :: ustr
  ap_urlsplit :: "ustr \<Rightarrow> url_parts option"
  ap_target :: "ustr \<Rightarrow> (ustr \<times> ustr) option"
  ap_query :: "ustr \<Rightarrow> pdict option"
  ap_scan :: scanner
  ap_file :: "bool \<Rightarrow> ustr \<Rightarrow> (bool \<times> bytes) option"

datatype service_status = Sql_Status nat nat | Cache_Status | Search_Status pv | Broker_Status broker_report

datatype payload =
    Study_Info ustr
  | Inspected inspection
  | By_Key "order_data option"
  | Alive
  | Ready
  | Diagnosed "(string \<times> (diagnostic + service_status)) list" bool
  | Order_Page page
  | Order_List "order_data list"
  | Created_Order order_data bool
  | Order_Detail detail_reply
  | Updated_Order order_data
  | Search_Result found
  | Static_File bytes
  | Refused string

type_synonym ('c, 'e) site = "db \<times> 'c \<times> 'e"

definition on_db :: "(db \<Rightarrow> 'a res \<times> db) \<Rightarrow> ('a, ('c, 'e) site) eff" where
  "on_db m = (\<lambda>(d, c, e). case m d of (r, d') \<Rightarrow> (r, d', c, e))"

definition on_shop :: "(db \<times> 'c \<Rightarrow> 'a res \<times> db \<times> 'c) \<Rightarrow> ('a, ('c, 'e) site) eff" where
  "on_shop m = (\<lambda>(d, c, e). case m (d, c) of (r, d', c') \<Rightarrow> (r, d', c', e))"

definition on_index :: "('a, 'e) eff \<Rightarrow> ('a, ('c, 'e) site) eff" where
  "on_index m = (\<lambda>(d, c, e). case m e of (r, e') \<Rightarrow> (r, d, c, e'))"

text \<open>A transaction that only reads.\<close>

definition sql_read :: "commit \<Rightarrow> (db \<Rightarrow> 'a) \<Rightarrow> db \<Rightarrow> 'a res \<times> db" where
  "sql_read k f = transaction k (\<lambda>d. Inr (f d, d))"

definition public_code :: "string \<Rightarrow> exn \<Rightarrow> string" where
  "public_code name e = (case dg_category (safe_error e) of
       Some k \<Rightarrow> if k \<in> {''lock_wait_timeout'', ''deadlock'', ''authentication''} then name @ ''_'' @ k else name @ ''_unavailable''
     | None \<Rightarrow> name @ ''_unavailable'')"

definition backend :: "string \<Rightarrow> ('a, 's) eff \<Rightarrow> ('a, 's) eff" where
  "backend name m = (\<lambda>s. case m s of
       (Inl e, s') \<Rightarrow> (Inl (case e of Problem n k \<Rightarrow> e | _ \<Rightarrow> Problem 503 (public_code name e)), s')
     | r \<Rightarrow> r)"

definition api_detail :: "('c, 'e) api \<Rightarrow> ustr \<Rightarrow> bool \<Rightarrow> (detail_reply, ('c, 'e) site) eff" where
  "api_detail a oid fresh = on_shop (\<lambda>(d, c). case storefront_detail (ap_iso a) (ap_redis a)
       (\<lambda>i. fst (sql_read (ap_c1 a) (sql_get i) d)) oid fresh c of (r, c') \<Rightarrow> (r, d, c'))"

definition stored_order :: "order_data option res \<Rightarrow> pv res" where
  "stored_order r = bind_res r (\<lambda>x. Inr (case x of None \<Rightarrow> PNone | Some y \<Rightarrow> PDict (order_value y)))"

text \<open>\<open>inspect_order\<close>: the row, the cache, the index and the row again are read in this order.\<close>

definition api_inspect :: "('c, 'e) api \<Rightarrow> ustr \<Rightarrow> (inspection, ('c, 'e) site) eff" where
  "api_inspect a oid = (\<lambda>(d, c, e). case order_identifier (PStr oid) of Inl x \<Rightarrow> (Inl x, d, c, e)
     | Inr _ \<Rightarrow> let d' = ap_later a d in (case cache_get (ap_redis a) oid c of (cached, c') \<Rightarrow> (case search_find (ap_iso a) (ap_es a) oid e of (hits, e') \<Rightarrow>
         (inspect_order (ap_iso a) (stored_order (fst (sql_read (ap_c1 a) (sql_get oid) d))) cached
            (bind_res hits (\<lambda>f. Inr (fo_orders f))) (stored_order (fst (sql_read (ap_c2 a) (sql_get oid) d'))) (PStr oid), d', c', e'))))"

definition reachable :: "'a res \<Rightarrow> ('a \<Rightarrow> service_status) \<Rightarrow> diagnostic + service_status" where
  "reachable r f = (case r of Inl e \<Rightarrow> Inl (safe_error e) | Inr x \<Rightarrow> Inr (f x))"

definition api_diagnostics :: "('c, 'e) api \<Rightarrow> (payload, ('c, 'e) site) eff" where
  "api_diagnostics a = (\<lambda>(d, c, e). case search_status (ap_es a) e of (count, e') \<Rightarrow>
     let data = [(''mariadb'', reachable (fst (sql_read (ap_c1 a) sql_status d)) (\<lambda>(n, k). Sql_Status n k)),
                 (''redis'', reachable (ap_ping a) (\<lambda>_. Cache_Status)),
                 (''elasticsearch'', reachable count Search_Status),
                 (''kafka'', reachable (bind_res (ap_topic a) broker_status) Broker_Status)]
     in (Inr (Diagnosed data (list_all (\<lambda>(_, r). is_ok r) data)), d, c, e'))"

definition after :: "string \<Rightarrow> ustr \<Rightarrow> ustr" where
  "after prefix path = drop (length (u prefix)) path"

text \<open>\<open>query.get(k, [dflt])[0]\<close>\<close>

definition first_value :: "pdict \<Rightarrow> string \<Rightarrow> string \<Rightarrow> ustr" where
  "first_value query k dflt = (case dget query k of PList (PStr s # _) \<Rightarrow> s | _ \<Rightarrow> u dflt)"

datatype api_method = Api_Get | Api_Post | Api_Patch

definition get_key :: "('c, 'e) api \<Rightarrow> ustr \<Rightarrow> (payload, ('c, 'e) site) eff" where
  "get_key a key = (if \<not> starts_with (u ''sim-'') key then raise_exn (Problem 400 ''simulation_key_required'')
     else bind_eff (lift_res (request_key (ap_fresh a) (Some key))) (\<lambda>k.
       bind_eff (backend ''mariadb'' (on_db (sql_read (ap_c1 a) (lookup_key k)))) (\<lambda>x. ret (By_Key x))))"

definition get_orders :: "('c, 'e) api \<Rightarrow> pdict \<Rightarrow> (payload, ('c, 'e) site) eff" where
  "get_orders a query = (if query = [] then bind_eff (backend ''mariadb'' (on_db (sql_read (ap_c1 a) list_orders))) (\<lambda>xs. ret (Order_List xs))
     else bind_eff (lift_res (order_page_input (ap_cursor a) (ap_iso a) query)) (\<lambda>p.
       bind_eff (backend ''mariadb'' (on_db (sql_read (ap_c1 a) (list_page (ap_lower a) (ap_ceq a) (nat (pq_limit p)) (pq_q p) (pq_status p) (pq_after p)))))
         (\<lambda>page. ret (Order_Page page))))"

definition post_order :: "('c, 'e) api \<Rightarrow> pv \<Rightarrow> ustr option \<Rightarrow> (int \<times> payload, ('c, 'e) site) eff" where
  "post_order a data key = bind_eff (lift_res (body_fields data [''item'', ''quantity'', ''unit_price''])) (\<lambda>_.
     bind_eff (backend ''mariadb'' (on_db (\<lambda>d. storefront_create (ap_seen a d) (ap_later a) (ap_c1 a) (ap_c2 a) (ap_oid a) (ap_event a)
       (ap_now a) (ap_fresh a) data key d))) (\<lambda>(x, created). ret (if created then 201 else 200, Created_Order x created)))"

definition patch_order :: "('c, 'e) api \<Rightarrow> ustr \<Rightarrow> pv \<Rightarrow> (int \<times> payload, ('c, 'e) site) eff" where
  "patch_order a oid data = bind_eff (lift_res (body_fields data [''status'', ''expected_version''])) (\<lambda>_.
     bind_eff (backend ''mariadb'' (on_shop (storefront_update (ap_c1 a) (ap_redis a) (ap_event a) oid data))) (\<lambda>x. ret (200, Updated_Order x)))"

definition get_search :: "('c, 'e) api \<Rightarrow> ustr \<Rightarrow> (payload, ('c, 'e) site) eff" where
  "get_search a q = (if 100 < length q then raise_exn (Problem 400 ''query_too_long'')
     else bind_eff (backend ''elasticsearch'' (on_index (search_find (ap_iso a) (ap_es a) q))) (\<lambda>f. ret (Search_Result f)))"

definition done_with :: "(payload, 's) eff \<Rightarrow> (int \<times> payload, 's) eff" where
  "done_with m = bind_eff m (\<lambda>p. ret (200, p))"

definition route_get :: "('c, 'e) api \<Rightarrow> ustr \<Rightarrow> pdict \<Rightarrow> (payload, ('c, 'e) site) eff" where
  "route_get a path query =
     (if path = u ''/api/study/info'' then ret (Study_Info (ap_project a))
      else if starts_with (u ''/api/study/order/'') path then bind_eff (api_inspect a (after ''/api/study/order/'' path)) (\<lambda>i. ret (Inspected i))
      else if starts_with (u ''/api/study/key/'') path then get_key a (after ''/api/study/key/'' path)
      else if path = u ''/health/live'' then ret Alive
      else if path = u ''/health/ready'' then bind_eff (backend ''mariadb'' (on_db (sql_read (ap_c1 a) (\<lambda>_. ())))) (\<lambda>_. ret Ready)
      else if path = u ''/api/diagnostics'' then api_diagnostics a
      else if path = u ''/api/orders'' then get_orders a query
      else if starts_with (u ''/api/orders/'') path
        then bind_eff (backend ''mariadb'' (api_detail a (after ''/api/orders/'' path) (first_value query ''fresh'' ''0'' = u ''1''))) (\<lambda>r. ret (Order_Detail r))
      else if path = u ''/api/search'' then get_search a (first_value query ''q'' '''')
      else raise_exn (Problem 404 ''route_not_found''))"

definition route :: "('c, 'e) api \<Rightarrow> api_method \<Rightarrow> ustr \<Rightarrow> pdict \<Rightarrow> pv \<Rightarrow> ustr option \<Rightarrow> (int \<times> payload, ('c, 'e) site) eff" where
  "route a m path query data key = (case m of
       Api_Get \<Rightarrow> done_with (route_get a path query)
     | Api_Post \<Rightarrow> if path = u ''/api/orders'' then post_order a data key else raise_exn (Problem 404 ''route_not_found'')
     | Api_Patch \<Rightarrow> if starts_with (u ''/api/orders/'') path then patch_order a (after ''/api/orders/'' path) data
         else raise_exn (Problem 404 ''route_not_found''))"

section \<open>The handler\<close>

record api_request =
  rq_method :: api_method
  rq_target :: ustr
  rq_headers :: headers
  rq_body :: bytes

definition asset_name :: "ustr \<Rightarrow> bool" where
  "asset_name s \<longleftrightarrow> s \<noteq> [] \<and> is_alnum (hd s) \<and> class_match (\<lambda>x. is_alnum x \<or> x \<in> set (u ''._-'')) 0 180 (tl s)"

definition static_name :: "ustr \<Rightarrow> (bool \<times> ustr) res" where
  "static_name path = (if path = u ''/'' then Inr (False, u ''index.html'')
     else if starts_with (u ''/assets/'') path \<and> asset_name (after ''/assets/'' path) then Inr (True, after ''/assets/'' path)
     else Inl (Problem 404 ''static_file_not_found''))"

text \<open>\<open>ap_file\<close> opens a file below the page's directory without following links: whether it is regular, and its bytes.\<close>

definition static_file :: "('c, 'e) api \<Rightarrow> ustr \<Rightarrow> bytes res" where
  "static_file a path = bind_res (static_name path) (\<lambda>(asset, name). case ap_file a asset name of
       Some (regular, body) \<Rightarrow> if regular \<and> length body \<le> 2 * 1024 ^ 2 then Inr body else Inl (Problem 404 ''static_file_not_found'')
     | None \<Rightarrow> Inl (Problem 404 ''static_file_not_found''))"

definition checked_host :: "('c, 'e) api \<Rightarrow> api_request \<Rightarrow> unit res" where
  "checked_host a q = bind_res (local_host (ap_urlsplit a) (rq_headers q)) (\<lambda>host.
     if rq_method q = Api_Get then Inr ()
     else (case hd_all (rq_headers q) ''Origin'' of
         [] \<Rightarrow> Inr ()
       | origin # _ \<Rightarrow> if origin \<noteq> [] \<and> origin \<noteq> u ''http://'' @ host then Inl (Problem 403 ''cross_origin_write_rejected'') else Inr ()))"

definition request_body :: "('c, 'e) api \<Rightarrow> api_request \<Rightarrow> pv res" where
  "request_body a q = (if rq_method q = Api_Get then Inr PNone
     else bind_res (json_body_length (rq_headers q)) (\<lambda>n.
       if int (length (take (nat n) (rq_body q))) \<noteq> n then Inl (Problem 400 ''invalid_json'')
       else decode_json (ap_scan a) (take (nat n) (rq_body q))))"

definition given_key :: "api_request \<Rightarrow> ustr option" where
  "given_key q = (case hd_all (rq_headers q) ''Idempotency-Key'' of [] \<Rightarrow> None | k # _ \<Rightarrow> Some k)"

definition serve_path :: "('c, 'e) api \<Rightarrow> api_request \<Rightarrow> ustr \<Rightarrow> ustr \<Rightarrow> (int \<times> payload, ('c, 'e) site) eff" where
  "serve_path a q path query =
     (if rq_method q = Api_Get \<and> (path = u ''/'' \<or> starts_with (u ''/assets/'') path)
      then bind_eff (lift_res (static_file a path)) (\<lambda>b. ret (200, Static_File b))
      else bind_eff (lift_res (request_body a q)) (\<lambda>data. case ap_query a query of
          None \<Rightarrow> raise_exn (Problem 400 ''too_many_query_parameters'')
        | Some params \<Rightarrow> route a (rq_method q) path params data (given_key q)))"

text \<open>\<open>urlsplit\<close> of the request's target may raise a \<open>ValueError\<close>.\<close>

definition serve :: "('c, 'e) api \<Rightarrow> api_request \<Rightarrow> (int \<times> payload, ('c, 'e) site) eff" where
  "serve a q = bind_eff (lift_res (checked_host a q)) (\<lambda>_. case ap_target a (rq_target q) of
       None \<Rightarrow> raise_exn (Value_Error ''Invalid IPv6 URL'')
     | Some (path, query) \<Rightarrow> serve_path a q path query)"

definition handle :: "('c, 'e) api \<Rightarrow> api_request \<Rightarrow> ('c, 'e) site \<Rightarrow> (int \<times> payload) \<times> ('c, 'e) site" where
  "handle a q s = (case serve a q s of
       (Inr r, s') \<Rightarrow> (r, s')
     | (Inl e, s') \<Rightarrow> (case e of Problem n k \<Rightarrow> (n, Refused k) | _ \<Rightarrow> (500, Refused ''internal_error''), s'))"

section \<open>Reads\<close>

definition keeps_db :: "('a, ('c, 'e) site) eff \<Rightarrow> bool" where
  "keeps_db m \<longleftrightarrow> (\<forall>s. fst (snd (m s)) = fst s)"

lemma keeps_dbD: "keeps_db m \<Longrightarrow> m (d, c, e) = (r, d', c', e') \<Longrightarrow> d' = d"
  by (metis fst_conv keeps_db_def snd_conv)

lemma api_keeps_bind: "keeps_db m \<Longrightarrow> (\<And>x. keeps_db (f x)) \<Longrightarrow> keeps_db (bind_eff m f)"
  by (auto simp: keeps_db_def bind_eff_def split: prod.splits sum.splits) (metis fst_conv snd_conv)+

lemma keeps_pure: "keeps_db (ret x)" "keeps_db (raise_exn e)" "keeps_db (lift_res r)"
  by (simp_all add: keeps_db_def lift_res_def)

lemma keeps_index: "keeps_db (on_index m)"
  by (auto simp: keeps_db_def on_index_def split: prod.splits)

lemma keeps_backend: "keeps_db m \<Longrightarrow> keeps_db (backend name m)"
  by (auto simp: keeps_db_def backend_def split: prod.splits sum.splits) (metis fst_conv snd_conv)+

lemma sql_read_state: "sql_read k f d = (r, d') \<Longrightarrow> d' = d"
  by (auto simp: sql_read_def transaction_def split: commit.splits)

lemma api_keeps_read: "keeps_db (on_db (sql_read k f))"
  by (auto simp: keeps_db_def on_db_def split: prod.splits dest: sql_read_state)

lemma keeps_detail: "keeps_db (api_detail a oid fresh)"
  by (auto simp: keeps_db_def api_detail_def on_shop_def split: prod.splits)

lemma keeps_inspect: "ap_later a = (\<lambda>d. d) \<Longrightarrow> keeps_db (api_inspect a oid)"
  by (auto simp: keeps_db_def api_inspect_def Let_def split: prod.splits sum.splits)

lemma keeps_diagnostics: "keeps_db (api_diagnostics a)"
  by (auto simp: keeps_db_def api_diagnostics_def Let_def split: prod.splits)

lemma api_keeps_if: "keeps_db m \<Longrightarrow> keeps_db m' \<Longrightarrow> keeps_db (if b then m else m')"
  by simp

lemmas keeps_rules = api_keeps_bind keeps_pure keeps_index keeps_backend api_keeps_read keeps_detail keeps_inspect keeps_diagnostics api_keeps_if

lemma keeps_route_get:
  assumes "ap_later a = (\<lambda>d. d)"
  shows "keeps_db (route_get a path query)"
  unfolding route_get_def get_key_def get_orders_def get_search_def by (intro keeps_rules assms)

section \<open>Which errors reach the caller\<close>

definition reply_codes :: "int set" where
  "reply_codes = {400, 403, 404, 409, 413, 415, 503}"

definition calm_commit :: "commit \<Rightarrow> bool" where
  "calm_commit k \<longleftrightarrow> (case k of Commit_ok \<Rightarrow> True | Commit_lost e \<Rightarrow> \<not> is_Problem e | Commit_unknown e \<Rightarrow> \<not> is_Problem e)"

text \<open>The drivers of the services raise none of the application's own errors.\<close>

definition driver_errors :: "('c, 'e) api \<Rightarrow> bool" where
  "driver_errors a \<longleftrightarrow> calm_commit (ap_c1 a) \<and> calm_commit (ap_c2 a) \<and> (\<forall>q e x. fst (ap_es a q e) = Inl x \<longrightarrow> \<not> is_Problem x)"

text \<open>An application error carries one of the codes; after \<open>backend\<close> every error is an application error.\<close>

definition coded :: "'a res \<Rightarrow> bool" where
  "coded r \<longleftrightarrow> (\<forall>n k. r = Inl (Problem n k) \<longrightarrow> n \<in> reply_codes)"

definition public_error :: "'a res \<Rightarrow> bool" where
  "public_error r \<longleftrightarrow> (\<forall>e. r = Inl e \<longrightarrow> is_Problem e) \<and> coded r"

definition all_coded :: "('a, 's) eff \<Rightarrow> bool" where
  "all_coded m \<longleftrightarrow> (\<forall>s. coded (fst (m s)))"

definition all_public :: "('a, 's) eff \<Rightarrow> bool" where
  "all_public m \<longleftrightarrow> (\<forall>s. public_error (fst (m s)))"

lemma coded_simps [simp]: "coded (Inr x)" "coded (Inl (Problem n k)) \<longleftrightarrow> n \<in> reply_codes" "\<not> is_Problem e \<Longrightarrow> coded (Inl e)"
  by (auto simp: coded_def)

lemma public_simps' [simp]: "public_error (Inr x)" "public_error (Inl (Problem n k)) \<longleftrightarrow> n \<in> reply_codes"
  by (auto simp: public_error_def)

lemma public_coded: "public_error r \<Longrightarrow> coded r"
  by (simp add: public_error_def)

lemma coded_bind_res: "coded r \<Longrightarrow> (\<And>x. coded (f x)) \<Longrightarrow> coded (bind_res r f)"
  by (cases r) (auto simp: coded_def)

lemma public_bind_res: "public_error r \<Longrightarrow> (\<And>x. public_error (f x)) \<Longrightarrow> public_error (bind_res r f)"
  by (cases r) (auto simp: public_error_def coded_def)

lemma coded_bind: "all_coded m \<Longrightarrow> (\<And>x. all_coded (f x)) \<Longrightarrow> all_coded (bind_eff m f)"
  unfolding all_coded_def bind_eff_def by (auto split: prod.splits sum.splits) (metis coded_def fst_conv old.sum.inject(1))

lemma public_bind: "all_public m \<Longrightarrow> (\<And>x. all_public (f x)) \<Longrightarrow> all_public (bind_eff m f)"
  unfolding all_public_def bind_eff_def by (auto split: prod.splits sum.splits) (metis coded_def public_error_def fst_conv old.sum.inject(1))

lemma coded_pure: "all_coded (ret x)" "n \<in> reply_codes \<Longrightarrow> all_coded (raise_exn (Problem n k))" "coded r \<Longrightarrow> all_coded (lift_res r)"
  by (simp_all add: all_coded_def lift_res_def)

lemma public_pure: "all_public (ret x)" "n \<in> reply_codes \<Longrightarrow> all_public (raise_exn (Problem n k))" "public_error r \<Longrightarrow> all_public (lift_res r)"
  by (simp_all add: all_public_def lift_res_def)

lemma backend_public: "all_coded m \<Longrightarrow> all_public (backend name m)"
  unfolding all_public_def all_coded_def
proof
  fix s assume m: "\<forall>s. coded (fst (m s))"
  show "public_error (fst (backend name m s))"
  proof (cases "m s")
    case (Pair r s')
    with m [rule_format, of s] show ?thesis
      by (cases r; cases "projl r") (auto simp: backend_def reply_codes_def)
  qed
qed

lemma transaction_coded:
  assumes "calm_commit k" "\<And>d. coded (body d)"
  shows "coded (fst (transaction k body d))"
  using assms(1) assms(2) [of d] by (cases "body d"; cases k) (auto simp: transaction_def calm_commit_def coded_def)

lemma read_coded: "calm_commit k \<Longrightarrow> all_coded (on_db (sql_read k f))"
  unfolding all_coded_def on_db_def sql_read_def using transaction_coded [of k "\<lambda>d. Inr (f d, d)"]
  by (auto split: prod.splits) (metis coded_simps(1) fst_conv)

lemma existing_coded: "coded (existing r data)"
  by (simp add: existing_def reply_codes_def)

lemma enqueue_coded: "coded (enqueue ev x d)"
  by (simp add: enqueue_def insert_event_def)

lemma create_coded:
  assumes "calm_commit c1" "calm_commit c2"
  shows "coded (fst (sql_create seen later c1 c2 oid ev now data key d))"
proof -
  have a: "coded (create_body seen oid ev now data key d)" for d
    unfolding create_body_def Let_def
    by (auto intro!: coded_bind_res existing_coded enqueue_coded simp: insert_order_def split: option.splits)
  have b: "coded (create_resolve data key d)" for d
    unfolding create_resolve_def by (auto intro!: coded_bind_res existing_coded split: option.splits)
  note ta = transaction_coded [where body = "create_body seen oid ev now data key", OF assms(1) a]
  note tb = transaction_coded [where body = "create_resolve data key", OF assms(2) b]
  show ?thesis
    using ta [of d] tb unfolding sql_create_def by (auto split: prod.splits sum.splits option.splits) (metis coded_def fst_conv old.sum.inject(1))+
qed

lemma body_public: "public_error (body_fields data fs)"
  by (simp add: body_fields_def reply_codes_def split: pv.splits)

lemma key_public: "public_error (request_key fresh key)"
  by (simp add: request_key_def Let_def reply_codes_def)

lemma identifier_public: "public_error (order_identifier v)"
  by (simp add: order_identifier_def reply_codes_def split: pv.splits)

lemma create_input_public: "public_error (create_input data)"
  by (simp add: create_input_def reply_codes_def split: pv.splits)

lemma page_input_public: "public_error (order_page_input loads iso_ok query)"
proof -
  have "public_error (page_cursor loads iso_ok cursor q status)" for cursor q status
    unfolding page_cursor_def by (auto simp: reply_codes_def split: option.splits pv.splits list.splits sum.splits)
  then show ?thesis unfolding order_page_input_def by (auto simp: Let_def reply_codes_def intro!: public_bind_res)
qed

lemma transition_coded: "coded (transition x data)"
  unfolding transition_def by (auto simp: reply_codes_def split: pv.splits option.splits)

lemma storefront_create_coded:
  assumes "calm_commit c1" "calm_commit c2"
  shows "coded (fst (storefront_create seen later c1 c2 oid ev now fresh data key d))"
  using public_coded [OF create_input_public, of data] public_coded [OF key_public, of fresh key] create_coded [OF assms]
  unfolding storefront_create_def by (auto split: sum.splits) (simp_all add: coded_def)

lemma storefront_update_coded:
  assumes "calm_commit c1"
  shows "coded (fst (storefront_update c1 redis ev oid data s))"
proof -
  have "coded (update_body ev i data d)" for i d
    unfolding update_body_def
    by (auto intro!: coded_bind_res transition_coded enqueue_coded simp: reply_codes_def split: option.splits)
  then have "coded (fst (sql_update c1 ev i data d))" for i d unfolding sql_update_def by (rule transaction_coded [OF assms])
  with public_coded [OF identifier_public, of "PStr oid"] show ?thesis
    unfolding storefront_update_def by (auto split: prod.splits sum.splits) (metis coded_def fst_conv old.sum.inject(1))+
qed

lemma detail_coded:
  assumes "calm_commit (ap_c1 a)"
  shows "all_coded (api_detail a oid fresh)"
proof -
  have r: "coded (fst (sql_read (ap_c1 a) (sql_get i) d))" for i d
    unfolding sql_read_def by (rule transaction_coded [OF assms]) simp
  have "coded (fst (storefront_detail iso redis (\<lambda>i. fst (sql_read (ap_c1 a) (sql_get i) d)) oid fresh c))" for iso d and redis :: "'a redis" and c
    using r [of oid d] public_coded [OF identifier_public, of "PStr oid"] unfolding storefront_detail_def
    by (auto simp: reply_codes_def split: prod.splits sum.splits option.splits) (simp_all add: coded_def)
  then show ?thesis unfolding all_coded_def api_detail_def on_shop_def by (auto split: prod.splits) (metis fst_conv)
qed

lemma hits_coded: "coded (hit_orders iso_ok hs)"
proof (induction hs)
  case (Cons h hs)
  have "coded (Inl (incomplete_for e))" for e by (cases e) (simp_all add: incomplete_for_def search_incomplete_def reply_codes_def)
  with Cons show ?case by (auto intro!: coded_bind_res split: sum.splits)
qed simp

lemma search_coded:
  assumes "driver_errors a"
  shows "all_coded (search_find iso_ok (ap_es a) q)"
proof -
  have es: "all_coded (es_request (ap_es a) r)" for r
    using assms unfolding es_request_def all_coded_def driver_errors_def
    by (auto simp: bind_eff_def reply_codes_def split: prod.splits sum.splits) (metis coded_simps(3) fst_conv)
  have st: "all_coded (raise_for_status r)" for r unfolding all_coded_def by (simp add: raise_for_status_def)
  have "coded (search_page iso_ok v)" for v
    unfolding search_page_def
    by (auto intro!: coded_bind_res hits_coded simp: search_incomplete_def reply_codes_def split: pv.splits prod.splits bool.splits option.splits)
  then show ?thesis unfolding search_find_def
    by (intro coded_bind es st) (auto intro!: coded_pure simp: search_incomplete_def reply_codes_def split: option.splits simp del: ret_simps)
qed

section \<open>Every request is answered\<close>

lemma public_if: "all_public m \<Longrightarrow> all_public m' \<Longrightarrow> all_public (if b then m else m')"
  by simp

lemma inspect_public: "all_public (api_inspect a oid)"
  unfolding all_public_def
proof
  fix s :: "('a, 'b) site"
  obtain d k e where s: "s = (d, k, e)" by (cases s)
  show "public_error (fst (api_inspect a oid s))"
  proof (cases "order_identifier (PStr oid)")
    case (Inl x)
    then have "api_inspect a oid s = (Inl x, s)" unfolding api_inspect_def s by (simp only: prod.case Inl sum.case)
    with identifier_public [of "PStr oid"] Inl show ?thesis by (simp only: fst_conv public_error_def coded_def) blast
  next
    case (Inr i)
    then show ?thesis unfolding api_inspect_def s inspect_order_def
      by (simp only: prod.case Inr sum.case Let_def bind_res_simps) (auto split: prod.splits)
  qed
qed

lemma diagnostics_public: "all_public (api_diagnostics a)"
  by (auto simp: all_public_def api_diagnostics_def Let_def split: prod.splits)

lemma codes: "400 \<in> reply_codes" "403 \<in> reply_codes" "404 \<in> reply_codes" "413 \<in> reply_codes" "415 \<in> reply_codes"
  by (simp_all add: reply_codes_def)

lemma on_index_coded: "all_coded m \<Longrightarrow> all_coded (on_index m)"
  unfolding all_coded_def on_index_def by (auto split: prod.splits) (metis fst_conv)

lemma create_shop_coded:
  assumes "driver_errors a"
  shows "all_coded (on_db (\<lambda>d. storefront_create (ap_seen a d) (ap_later a) (ap_c1 a) (ap_c2 a) (ap_oid a) (ap_event a)
       (ap_now a) (ap_fresh a) data key d))"
  using assms storefront_create_coded [of "ap_c1 a" "ap_c2 a"] unfolding all_coded_def on_db_def driver_errors_def
  by (auto split: prod.splits) (metis fst_conv)

lemma update_shop_coded:
  assumes "driver_errors a"
  shows "all_coded (on_shop (storefront_update (ap_c1 a) (ap_redis a) ev oid data))"
proof -
  have "calm_commit (ap_c1 a)" using assms by (simp add: driver_errors_def)
  then have "coded (fst (storefront_update (ap_c1 a) (ap_redis a) ev oid data (d, k)))" for d k by (rule storefront_update_coded)
  then show ?thesis unfolding all_coded_def on_shop_def by (auto split: prod.splits) (metis fst_conv)
qed

lemmas public_rules = public_bind public_pure backend_public public_if body_public key_public page_input_public
  inspect_public diagnostics_public codes

lemma route_public:
  assumes "driver_errors a"
  shows "all_public (route a m path query data key)"
proof -
  have k: "calm_commit (ap_c1 a)" using assms by (simp add: driver_errors_def)
  have "all_public (route_get a path query)"
    unfolding route_get_def get_key_def get_orders_def get_search_def
    by (intro public_rules read_coded k detail_coded on_index_coded search_coded assms)
  moreover have "all_public (post_order a data key)"
    unfolding post_order_def prod.case_eq_if by (intro public_rules create_shop_coded assms)
  moreover have "all_public (patch_order a oid data)" for oid
    unfolding patch_order_def by (intro public_rules update_shop_coded assms)
  ultimately show ?thesis
    unfolding route_def done_with_def by (cases m) (simp_all only: api_method.case, (intro public_rules | assumption)+)
qed

lemma host_public: "public_error (checked_host a q)"
proof -
  have "public_error (local_host (ap_urlsplit a) (rq_headers q))"
    by (auto simp: local_host_def reply_codes_def split: list.splits)
  then show ?thesis unfolding checked_host_def by (auto intro!: public_bind_res simp: reply_codes_def split: list.splits)
qed

lemma request_body_public: "public_error (request_body a q)"
proof -
  have "public_error (json_body_length h)" for h by (auto simp: json_body_length_def reply_codes_def split: list.splits)
  moreover have "public_error (decode_json scan raw)" for scan raw
    by (auto simp: decode_json_def reply_codes_def split: sum.splits)
  ultimately show ?thesis unfolding request_body_def by (auto intro!: public_bind_res simp: reply_codes_def)
qed

lemma static_public: "public_error (static_file a path)"
  unfolding static_file_def static_name_def prod.case_eq_if by (intro public_bind_res) (auto simp: reply_codes_def split: option.splits)

lemma serve_path_public: "driver_errors a \<Longrightarrow> all_public (serve_path a q path query)"
  unfolding serve_path_def
  by (intro public_if public_bind public_pure static_public request_body_public)
     (auto intro!: public_pure route_public codes split: option.splits simp del: ret_simps)

text \<open>The codes of a success.\<close>

definition success :: "(int \<times> payload, 's) eff \<Rightarrow> bool" where
  "success m \<longleftrightarrow> (\<forall>s n p s'. m s = (Inr (n, p), s') \<longrightarrow> n = 200 \<or> n = 201)"

lemma successD: "success m \<Longrightarrow> m s = (Inr (n, p), s') \<Longrightarrow> n = 200 \<or> n = 201"
  unfolding success_def by blast

lemma success_bind: "(\<And>x. success (f x)) \<Longrightarrow> success (bind_eff m f)"
  unfolding success_def by (fastforce simp: bind_eff_Inr)

lemma success_ret: "n = 200 \<or> n = 201 \<Longrightarrow> success (ret (n, p))"
  by (auto simp: success_def)

lemma success_raise: "success (raise_exn e)"
  by (simp add: success_def)

lemma success_if: "success m \<Longrightarrow> success m' \<Longrightarrow> success (if b then m else m')"
  by simp

lemmas success_rules = success_bind success_ret success_raise success_if

lemma route_success: "success (route a m path query data key)"
proof -
  have "success (post_order a data key)"
    unfolding post_order_def prod.case_eq_if by (intro success_rules) auto
  moreover have "success (patch_order a oid data)" for oid
    unfolding patch_order_def by (intro success_rules) auto
  moreover have "success (done_with m)" for m :: "(payload, ('a, 'b) site) eff"
    unfolding done_with_def by (intro success_rules) auto
  ultimately show ?thesis
    unfolding route_def by (cases m) (simp_all only: api_method.case, (intro success_rules | assumption)+)
qed

lemma serve_path_success: "success (serve_path a q path query)"
  unfolding serve_path_def
  by (intro success_rules) (auto intro!: success_rules route_success split: option.splits simp del: ret_simps)


section \<open>Writes are guarded\<close>

definition same_origin :: "('c, 'e) api \<Rightarrow> api_request \<Rightarrow> bool" where
  "same_origin a q \<longleftrightarrow> (\<exists>host. hd_all (rq_headers q) ''Host'' = [host] \<and> host_valid (ap_urlsplit a) host
     \<and> (\<forall>origin rest. hd_all (rq_headers q) ''Origin'' = origin # rest \<longrightarrow> origin = [] \<or> origin = u ''http://'' @ host))"

definition small_object :: "('c, 'e) api \<Rightarrow> api_request \<Rightarrow> string list \<Rightarrow> bool" where
  "small_object a q fs \<longleftrightarrow> (\<exists>n b. n \<le> 16384 \<and> decode_json (ap_scan a) (take n (rq_body q)) = Inr (PDict b) \<and> fst ` set b \<subseteq> u ` set fs)"

definition may_write :: "('c, 'e) api \<Rightarrow> api_request \<Rightarrow> bool" where
  "may_write a q \<longleftrightarrow> same_origin a q \<and> (\<exists>path query. ap_target a (rq_target q) = Some (path, query) \<and>
     (rq_method q = Api_Post \<and> path = u ''/api/orders'' \<and> small_object a q [''item'', ''quantity'', ''unit_price''] \<or>
      rq_method q = Api_Patch \<and> starts_with (u ''/api/orders/'') path \<and> small_object a q [''status'', ''expected_version'']))"

lemma checked_host_origin:
  assumes "checked_host a q = Inr h" "rq_method q \<noteq> Api_Get"
  shows "same_origin a q"
  using assms by (auto simp: checked_host_def local_host_def same_origin_def split: list.splits if_splits)

lemma body_fields_object: "body_fields data fs = Inr x \<Longrightarrow> \<exists>b. data = PDict b \<and> fst ` set b \<subseteq> u ` set fs"
  by (auto simp: body_fields_def split: pv.splits if_splits)

lemma request_body_small:
  assumes "request_body a q = Inr data" "rq_method q \<noteq> Api_Get" "body_fields data fs = Inr x"
  shows "small_object a q fs"
proof -
  obtain n where n: "json_body_length (rq_headers q) = Inr n" "decode_json (ap_scan a) (take (nat n) (rq_body q)) = Inr data"
    using assms(1,2) by (auto simp: request_body_def bind_res_Inr_iff split: if_splits)
  have "n \<le> 16384" using n(1) by (auto simp: json_body_length_def max_body_def split: list.splits if_splits)
  with n(2) body_fields_object [OF assms(3)] show ?thesis unfolding small_object_def by (intro exI [of _ "nat n"]) auto
qed

text \<open>A create or an update that changed the store does not answer with an application error.\<close>

lemma api_created_row: 
  assumes "create_body seen oid ev now data key d = Inr (x, d1)" "d1 \<noteq> d"
  shows "\<exists>y. create_resolve data key d1 = Inr (Some y, d1)"
proof -
  have seen: "select_key key seen = None"
    using assms by (cases "select_key key seen") (auto simp: create_body_def bind_res_Inr_iff)
  let ?x = "new_order oid now data"
  from assms(1) seen obtain d2 where d2: "insert_order (with_key ?x key) d = Inr d2" "enqueue ev ?x d2 = Inr d1"
    by (auto simp: create_body_def Let_def bind_res_Inr_iff)
  have "d_orders d1 = d_orders d @ [with_key ?x key]" "\<forall>r\<in>set (d_orders d). r_key r \<noteq> key"
    using d2 by (auto simp: insert_order_def enqueue_def insert_event_def split: if_splits)
  then obtain r where r: "select_key key d1 = Some r" "r = with_key ?x key"
    using select_key_Some [of key d1] select_key_None [of key d1] by (cases "select_key key d1") force+
  have "existing (with_key ?x key) data = Inr (public (with_key ?x key), False)"
    by (simp add: existing_def with_key_def new_order_def order_data.defs)
  with r show ?thesis by (simp add: create_resolve_def)
qed

lemma create_changed:
  assumes run: "sql_create seen (\<lambda>d. d) c1 c2 oid ev now data key d = (Inl e, d')" and d: "d' \<noteq> d"
    and calm: "calm_commit c1" "calm_commit c2"
  shows "\<not> is_Problem e"
proof -
  obtain r1 d1 where t: "transaction c1 (create_body seen oid ev now data key) d = (r1, d1)" by (metis surj_pair)
  obtain r2 d2 where t2: "transaction c2 (create_resolve data key) d1 = (r2, d2)" by (metis surj_pair)
  have d2: "d2 = d1" using t2 by (cases rule: transaction_cases) (auto simp: create_resolve_def bind_res_Inr_iff split: option.splits)
  with run d t t2 have d1: "d1 \<noteq> d" by (auto simp: sql_create_def split: sum.splits option.splits if_splits)
  from t show ?thesis
  proof (cases rule: transaction_cases)
    case (applied x e1)
    then obtain y where y: "create_resolve data key d1 = Inr (Some y, d1)" using api_created_row d1 by blast
    have "\<not> is_Problem e1" using applied calm(1) by (simp add: calm_commit_def)
    moreover have "r2 = Inr (Some y) \<or> (\<exists>e2. r2 = Inl e2 \<and> \<not> is_Problem e2)"
      using t2 y calm(2) by (cases c2) (auto simp: transaction_def calm_commit_def)
    ultimately show ?thesis using run t t2 applied by (auto simp: sql_create_def split: if_splits)
  qed (use run t d1 in \<open>auto simp: sql_create_def\<close>)
qed

lemma storefront_create_changed:
  assumes "storefront_create seen (\<lambda>d. d) c1 c2 oid ev now fresh data key d = (Inl e, d')" "d' \<noteq> d" "calm_commit c1" "calm_commit c2"
  shows "\<not> is_Problem e"
  using assms create_changed [of seen c1 c2 oid ev now _ _ d e d'] by (auto simp: storefront_create_def split: sum.splits)

lemma storefront_update_changed:
  assumes "storefront_update k redis ev oid data (d, c) = (Inl e, d', c')" "d' \<noteq> d" "calm_commit k"
  shows "\<not> is_Problem e"
proof -
  obtain i where "sql_update k ev i data d = (Inl e, d')"
    using assms(1,2) by (auto simp: storefront_update_def split: sum.splits prod.splits)
  then have "transaction k (update_body ev i data) d = (Inl e, d')" by (simp add: sql_update_def)
  then show ?thesis using assms(2,3) by (cases rule: transaction_cases) (auto simp: calm_commit_def)
qed

lemma backend_answer:
  assumes "bind_eff (backend name m) f s = (r, s')" "\<And>x t. \<exists>y. f x t = (Inr y, t)"
  shows "\<exists>q. m s = (q, s') \<and> (\<forall>n k. r = Inl (Problem n k) \<longrightarrow> n = 503 \<or> q = Inl (Problem n k))"
proof (cases "m s")
  case (Pair q s1)
  show ?thesis
  proof (cases q)
    case (Inl e)
    with assms(1) Pair have "r = Inl (case e of Problem n k \<Rightarrow> e | _ \<Rightarrow> Problem 503 (public_code name e))" "s' = s1"
      by (simp_all add: bind_eff_def backend_def)
    with Pair Inl show ?thesis by (cases e) auto
  next
    case (Inr x)
    with assms(1) Pair have "f x s1 = (r, s')" by (simp add: bind_eff_def backend_def)
    with assms(2) [of x s1] Pair Inr show ?thesis by auto
  qed
qed

lemma checked_first:
  assumes "bind_eff (lift_res r) f (d, c, e) = (q, d', c', e')" "d' \<noteq> d"
  shows "\<exists>x. r = Inr x \<and> f x (d, c, e) = (q, d', c', e')"
  using assms by (cases r) (auto simp: bind_eff_def lift_res_def)

lemma post_changes:
  assumes run: "post_order a data key (d, c, e) = (r, d', c', e')" and d: "d' \<noteq> d"
    and a: "driver_errors a" "ap_later a = (\<lambda>d. d)"
  shows "is_ok (body_fields data [''item'', ''quantity'', ''unit_price'']) \<and> (\<forall>n k. r = Inl (Problem n k) \<longrightarrow> n = 503)"
proof -
  let ?m = "\<lambda>d. storefront_create (ap_seen a d) (ap_later a) (ap_c1 a) (ap_c2 a) (ap_oid a) (ap_event a) (ap_now a) (ap_fresh a) data key d"
  let ?f = "\<lambda>(x, created). ret (if created then 201 else 200, Created_Order x created)"
  obtain x where x: "body_fields data [''item'', ''quantity'', ''unit_price''] = Inr x"
    "bind_eff (backend ''mariadb'' (on_db ?m)) ?f (d, c, e) = (r, d', c', e')"
    using checked_first [OF run [unfolded post_order_def] d] by blast
  obtain q where q: "on_db ?m (d, c, e) = (q, d', c', e')" "\<forall>n k. r = Inl (Problem n k) \<longrightarrow> n = 503 \<or> q = Inl (Problem n k)"
    using backend_answer [OF x(2)] by (auto simp: ret_def)
  have "storefront_create (ap_seen a d) (\<lambda>d. d) (ap_c1 a) (ap_c2 a) (ap_oid a) (ap_event a) (ap_now a) (ap_fresh a) data key d = (q, d')"
    using q(1) a(2) by (simp add: on_db_def split: prod.splits)
  then have "q \<noteq> Inl (Problem n k)" for n k
    using storefront_create_changed [of "ap_seen a d" "ap_c1 a" "ap_c2 a"] d a(1) unfolding driver_errors_def by fastforce
  with q(2) x(1) show ?thesis by auto
qed

lemma patch_changes:
  assumes run: "patch_order a oid data (d, c, e) = (r, d', c', e')" and d: "d' \<noteq> d" and a: "driver_errors a"
  shows "is_ok (body_fields data [''status'', ''expected_version'']) \<and> (\<forall>n k. r = Inl (Problem n k) \<longrightarrow> n = 503)"
proof -
  let ?m = "storefront_update (ap_c1 a) (ap_redis a) (ap_event a) oid data"
  obtain x where x: "body_fields data [''status'', ''expected_version''] = Inr x"
    "bind_eff (backend ''mariadb'' (on_shop ?m)) (\<lambda>x. ret (200, Updated_Order x)) (d, c, e) = (r, d', c', e')"
    using checked_first [OF run [unfolded patch_order_def] d] by blast
  obtain q where q: "on_shop ?m (d, c, e) = (q, d', c', e')" "\<forall>n k. r = Inl (Problem n k) \<longrightarrow> n = 503 \<or> q = Inl (Problem n k)"
    using backend_answer [OF x(2)] by (auto simp: ret_def)
  have "?m (d, c) = (q, d', c')" using q(1) by (simp add: on_shop_def split: prod.splits)
  then have "q \<noteq> Inl (Problem n k)" for n k
    using storefront_update_changed [of "ap_c1 a" "ap_redis a" "ap_event a" oid data d c] d a unfolding driver_errors_def by fastforce
  with q(2) x(1) show ?thesis by auto
qed

lemma route_changes:
  assumes run: "route a m path params data key (d, c, e) = (r, d', c', e')" and d: "d' \<noteq> d"
    and a: "driver_errors a" "ap_later a = (\<lambda>d. d)"
  shows "(m = Api_Post \<and> path = u ''/api/orders'' \<and> is_ok (body_fields data [''item'', ''quantity'', ''unit_price'']) \<or>
      m = Api_Patch \<and> starts_with (u ''/api/orders/'') path \<and> is_ok (body_fields data [''status'', ''expected_version'']))
    \<and> (\<forall>n k. r = Inl (Problem n k) \<longrightarrow> n = 503)"
proof (cases m)
  case Api_Get
  have "keeps_db (done_with (route_get a path params))"
    unfolding done_with_def by (intro api_keeps_bind keeps_route_get a(2) keeps_pure)
  from keeps_dbD [OF this] run d Api_Get show ?thesis by (simp add: route_def)
next
  case Api_Post
  then have p: "path = u ''/api/orders''" and "post_order a data key (d, c, e) = (r, d', c', e')"
    using run d by (simp_all add: route_def split: if_splits)
  with post_changes [OF this(2) d a] Api_Post show ?thesis by auto
next
  case Api_Patch
  then have p: "starts_with (u ''/api/orders/'') path" and "patch_order a (after ''/api/orders/'' path) data (d, c, e) = (r, d', c', e')"
    using run d by (auto simp: route_def split: if_splits)
  with patch_changes [OF this(2) d a(1)] Api_Patch show ?thesis by auto
qed

text \<open>C38: Nothing but an admissible write changes the store. When a request leaves the store changed, it is a POST to the orders
  or a PATCH of one order, from a client that addressed a local host by one \<open>Host\<close> header and named no other origin, with a JSON
  object of at most 16384 bytes and no unexpected field; and its answer is a success or 503, whose outcome the client has to
  look up, never a client error.\<close>

theorem writes_are_guarded:
  assumes "handle a q (d, c, e) = ((status, p), d', c', e')" "d' \<noteq> d"
    and "driver_errors a" "ap_later a = (\<lambda>d. d)"
  shows "may_write a q \<and> status \<in> {200, 201, 503}"
proof -
  obtain r s1 where r: "serve a q (d, c, e) = (r, s1)" by (metis surj_pair)
  have s1: "s1 = (d', c', e')" using assms(1) r by (auto simp: handle_def split: sum.splits)
  obtain h where h: "checked_host a q = Inr h"
    using r s1 assms(2) by (cases "checked_host a q") (auto simp: serve_def bind_eff_def lift_res_def)
  obtain path query where t: "ap_target a (rq_target q) = Some (path, query)"
    using r s1 assms(2) h by (cases "ap_target a (rq_target q)") (auto simp: serve_def bind_eff_def lift_res_def)
  have sp: "serve_path a q path query (d, c, e) = (r, d', c', e')" using r s1 h t by (simp add: serve_def bind_eff_def lift_res_def)
  obtain data params where b: "request_body a q = Inr data" "route a (rq_method q) path params data (given_key q) (d, c, e) = (r, d', c', e')"
  proof -
    have "\<not> (rq_method q = Api_Get \<and> (path = u ''/'' \<or> starts_with (u ''/assets/'') path))"
    proof
      assume "rq_method q = Api_Get \<and> (path = u ''/'' \<or> starts_with (u ''/assets/'') path)"
      then have "serve_path a q path query = bind_eff (lift_res (static_file a path)) (\<lambda>b. ret (200, Static_File b))" unfolding serve_path_def by (rule if_P)
      moreover have "keeps_db (bind_eff (lift_res (static_file a path)) (\<lambda>b. ret (200, Static_File b)))" by (intro api_keeps_bind keeps_pure)
      ultimately show False using keeps_dbD sp assms(2) by metis
    qed
    then show ?thesis using that sp assms(2)
      by (cases "request_body a q"; cases "ap_query a query") (auto simp: serve_path_def bind_eff_def lift_res_def)
  qed
  note w = route_changes [OF b(2) assms(2-4)]
  then have "may_write a q"
    using checked_host_origin [OF h] request_body_small [OF b(1)] t unfolding may_write_def is_ok_iff by auto
  moreover have "status \<in> {200, 201, 503}"
  proof (cases r)
    case (Inl x)
    then have "is_Problem x" using serve_path_public [OF assms(3), of q path query] sp by (metis all_public_def fst_conv public_error_def)
    with w Inl assms(1) r show ?thesis by (cases x) (auto simp: handle_def)
  next
    case (Inr x)
    with assms(1) r have x: "x = (status, p)" by (simp add: handle_def)
    from successD [OF serve_path_success sp [unfolded Inr x]] show ?thesis by auto
  qed
  ultimately show ?thesis ..
qed

section \<open>A request\<close>

definition tea_body :: pv where
  "tea_body = PDict [(u ''item'', PStr (u ''tea'')), (u ''quantity'', PInt 2), (u ''unit_price'', PInt 450)]"

definition quiet_site :: "(unit, ustr \<Rightarrow> (int \<times> pdict) option) api" where
  "quiet_site = \<lparr>ap_iso = \<lambda>_. True, ap_redis = no_redis, ap_es = mem_es, ap_c1 = Commit_ok, ap_c2 = Commit_ok, ap_seen = \<lambda>d. d,
     ap_later = \<lambda>d. d, ap_oid = sample_uuid, ap_event = sample_uuid, ap_now = sample_time, ap_fresh = sample_key,
     ap_lower = id, ap_ceq = (=), ap_cursor = \<lambda>_. None, ap_ping = Inr (), ap_topic = Inr None, ap_project = [],
     ap_urlsplit = \<lambda>_. Some \<lparr>up_hostname = Some (u ''localhost''), up_username = None, up_password = None, up_path = [],
       up_query = [], up_fragment = [], up_port = None\<rparr>,
     ap_target = \<lambda>t. if t = [] then None else Some (t, []), ap_query = \<lambda>_. Some [], ap_scan = \<lambda>_. (tree_of tea_body, False),
     ap_file = \<lambda>_ _. None\<rparr>"

definition tea_request :: api_request where
  "tea_request = \<lparr>rq_method = Api_Post, rq_target = u ''/api/orders'',
     rq_headers = \<lparr>hd_all = \<lambda>k. if k = ''Host'' then [u ''localhost''] else if k = ''Content-Length'' then [u ''2''] else [],
       hd_content_type = u ''application/json''\<rparr>, rq_body = [123, 125]\<rparr>"

lemma quiet_drivers: "driver_errors quiet_site"
proof -
  have "\<not> is_Problem x" if "fst (mem_es q e) = Inl x" for q e x using that by (cases q) (auto simp: mem_es_def split: option.splits if_splits)
  then show ?thesis by (simp add: driver_errors_def quiet_site_def calm_commit_def)
qed

lemma tea_host: "local_host (ap_urlsplit quiet_site) (rq_headers tea_request) = Inr (u ''localhost'')"
proof -
  have "host_valid (ap_urlsplit quiet_site) (u ''localhost'')"
    by (simp add: host_valid_def quiet_site_def local_names_def py_space_def list_ex_iff u_def)
  then show ?thesis by (simp add: local_host_def tea_request_def)
qed

lemma tea_checked: "checked_host quiet_site tea_request = Inr ()"
  unfolding checked_host_def tea_host by (simp add: tea_request_def)

lemma tea_data: "request_body quiet_site tea_request = Inr tea_body"
proof -
  have "json_body_length (rq_headers tea_request) = Inr 2"
    by (simp add: json_body_length_def tea_request_def u_def is_digit_def decimal_def max_body_def)
  moreover have "decode_json (ap_scan quiet_site) raw = Inr tea_body" for raw
    by (simp add: decode_json_def quiet_site_def tea_body_def loads_hooked_def validate_json.simps [of 0 "PDict xs" for xs]
        validate_json.simps [of "Suc 0" "PStr x" for x] validate_json.simps [of "Suc 0" "PInt n" for n])
  ultimately show ?thesis by (simp add: request_body_def) (simp add: tea_request_def)
qed

lemma tea_input: "create_input tea_body = Inr sample_data"
proof -
  have t: "strip (u ''tea'') = u ''tea''" "utf8_encodable (u ''tea'')" "length (u ''tea'') = 3"
    by (simp_all add: strip_def py_space_def u_def utf8_encodable_def)
  show ?thesis by (simp add: create_input_def tea_body_def sample_data_def t)
qed

lemma tea_created:
  "post_order quiet_site tea_body None (empty_db, (), e) = (Inr (201, Created_Order sample_order True), sample_db, (), e)"
proof -
  have key: "request_key sample_key None = Inr sample_key"
    by (simp add: request_key_def Let_def sample_key_def class_match_def key_char_def is_alnum_def is_lower_def is_upper_def is_digit_def u_def)
  have "body_fields tea_body [''item'', ''quantity'', ''unit_price''] = Inr ()" by (simp add: body_fields_def tea_body_def)
  moreover have "storefront_create empty_db (\<lambda>d. d) Commit_ok Commit_ok sample_uuid sample_uuid sample_time sample_key tea_body None empty_db
      = (Inr (sample_order, True), sample_db)"
    using sample_create by (simp add: storefront_create_def tea_input key id_def)
  ultimately show ?thesis by (simp add: post_order_def bind_eff_def lift_res_def backend_def on_db_def quiet_site_def)
qed

lemma tea_handled:
  "handle quiet_site tea_request (empty_db, (), e) = ((201, Created_Order sample_order True), sample_db, (), e)"
proof -
  have t: "rq_method tea_request = Api_Post" "rq_target tea_request = u ''/api/orders''" "given_key tea_request = None"
    by (simp_all add: tea_request_def given_key_def)
  have p: "ap_target quiet_site (u ''/api/orders'') = Some (u ''/api/orders'', [])" "ap_query quiet_site [] = Some []"
    by (simp_all add: quiet_site_def u_def)
  have "serve_path quiet_site tea_request (u ''/api/orders'') [] (empty_db, (), e) = (Inr (201, Created_Order sample_order True), sample_db, (), e)"
    unfolding serve_path_def t(1) tea_data using tea_created by (simp add: bind_eff_def lift_res_def p t(3) route_def)
  then show ?thesis by (simp add: handle_def serve_def tea_checked t(2) p bind_eff_def lift_res_def)
qed

theorem writes_are_guarded_witness: "may_write quiet_site tea_request"
  using writes_are_guarded [OF tea_handled _ quiet_drivers] by (simp add: quiet_site_def sample_db_def empty_db_def)


end
