(* ===== verification/Spec2Isabelle.thy ===== *)
theory Spec2Isabelle
  imports Worker Tx_Audit Tx_Drill Message_Drill Execution Redis_Guard Http_Policy Sim_Audit Sim_Plan Galera Sim_Engine Snapshot Fault_Safety Api
begin

text \<open>
  A verification development for DB Lab, a repository of laboratories for databases and message brokers. What is
  modelled is the Python code that decides: the order service of \<open>mvp-lab\<close> and its worker, the drills that break
  and recover it, the controllers that start, stop and authorize nodes, and the clients whose answers they trust.

  \<^bold>\<open>The programs and how they interact.\<close> The order service (\<open>mvp_app/core.py\<close>, \<open>adapters.py\<close>) writes an order and
  an outbox event in one SQL transaction. The worker (\<open>worker.py\<close>) publishes the outbox to Kafka and projects the
  consumed events into the search index; \<open>inspection.py\<close> compares the two sides and \<open>snapshot.py\<close> saves and restores
  the SQL side. The drills of the same application (\<open>transaction_*.py\<close>, \<open>message_*.py\<close>) run unsafe and protected
  variants of a checkout and of a consumer on resources they own. On the host \<open>tools/simulation.py\<close> drives load against
  the application while \<open>tools/sim_engine.py\<close> and \<open>tools/netem.py\<close> apply one fault to its containers. Ansible reaches
  all of them through one policy and one executor (\<open>ansible/module_utils\<close>). The Redis, MariaDB and Elasticsearch
  laboratories stand beside it with controllers of their own (\<open>redis-lab/ops\<close>, \<open>mariadb-ha-lab/scripts\<close>,
  \<open>elasticsearch/scripts\<close> over \<open>lib/es-lab\<close>).

  \<^bold>\<open>The theories, and the code they model.\<close>

  \<^item> \<open>Prelude\<close>: Python values as JSON delivers them (\<open>pv\<close>), strings as code points, exceptions (\<open>exn\<close>), results
    (\<open>res\<close>), effects (\<open>eff\<close>: a state goes in, a result and the state come out, also when an exception is raised).
    \<open>Wire\<close>: UTF-8, base64 and decimal numbers. \<open>Event_Log\<close>: programs run on an environment that records its calls.
  \<^item> \<open>Core_Orders\<close>: \<open>mvp_app/core.py\<close>. \<open>Order_Store\<close>: the class \<open>SQL\<close> of \<open>adapters.py\<close> on the two tables.
    \<open>Projection\<close>: \<open>Search\<close>, \<open>Cache\<close>, \<open>Broker\<close> and the operations of \<open>Storefront\<close> that use them.
    \<open>Worker\<close>: \<open>worker.py\<close> and \<open>worker_health.py\<close>, with the interleaving of store, publisher, broker and consumer as
    a step relation. \<open>Reindex\<close>: \<open>admin.py\<close>. \<open>Snapshot\<close>: \<open>snapshot.py\<close>. \<open>Http_Policy\<close>: \<open>http_policy.py\<close>.
    \<open>Api\<close>: \<open>api.py\<close>, which composes the boundary, the store, the cache and the index.
  \<^item> \<open>Tx_Model\<close>, \<open>Tx_Sql\<close>, \<open>Tx_Drill\<close>: \<open>transaction_model.py\<close>, \<open>transaction_sql.py\<close>, \<open>transaction_drill.py\<close>;
    \<open>Tx_Audit\<close> relates the SQL repository to the accounting oracle.
  \<^item> \<open>Message_Safety\<close>: \<open>message_safety.py\<close> and \<open>observability.py\<close>. \<open>Message_Runtime\<close>: \<open>message_runtime.py\<close>.
    \<open>Message_Drill\<close>: \<open>message_drill.py\<close>, with the triples over the trace of a drill.
  \<^item> \<open>Sim_Plan\<close>: the plan of \<open>tools/simulation.py\<close>. \<open>Sim_Audit\<close>: \<open>inspection.py\<close> and the reconciliation of a
    simulation. \<open>Sim_Engine\<close>: \<open>sim_engine.py\<close> and \<open>netem.py\<close>.
  \<^item> \<open>Policy\<close>, \<open>Execution\<close>: \<open>ansible/module_utils/db_lab_policy.py\<close>, \<open>db_lab_execution.py\<close> and
    \<open>library/db_lab_control.py\<close>.
  \<^item> \<open>Resp\<close>, \<open>Redis_Guard\<close>: \<open>redis-lab/ops/resp.py\<close> and \<open>common.py\<close>.
  \<^item> \<open>Galera\<close>: \<open>mariadb-ha-lab/scripts/state.py\<close> and the decisions of \<open>lab.py\<close>.
  \<^item> \<open>Es_Client\<close>: \<open>lib/es-lab/lablib_core.py\<close> and the bulk loader of \<open>elasticsearch/scripts/lablib.py\<close>.
    \<open>Fault_Lab\<close>: \<open>elasticsearch/scripts/fault_lab.py\<close>. \<open>Fault_Safety\<close>: what its drills may do, and when.

  \<^bold>\<open>How state and operations correspond.\<close> A class is a record of the fields it keeps and one definition per method;
  a transaction is a function of the tables that returns the tables it commits, with the error it raises as a value of
  a sum type. Code that is not under \<open>src\<close> (Kafka, Elasticsearch, Redis, Docker, the SQL engine's collation and
  \<open>LOWER\<close>, hash functions, the clock, random numbers) is an argument of the definitions that use it; a hypothesis
  about it is named in the statement, and each statement with hypotheses is followed by an instance in which they hold.
  Dictionaries of unknown shape are read with Python's errors: a missing key, a wrong type and a failed attribute are
  the exceptions the code would raise.

  \<^bold>\<open>What is shown.\<close>

  \<^item> The service: every outcome of the order state machine, the normal form of accepted requests, round trips of the
    event, idempotent creation under any interleaving and any lost commit answer, optimistic updates, complete paging.
  \<^item> The read side: the search index never runs ahead of the store, holds everything committed to the log and equals
    the store when it is drained or rebuilt; offsets are committed after the effect; a ready receipt means recent success.
  \<^item> The transaction lab: a protected checkout is all or nothing, can be replayed and keeps the audit clean; the
    evidence of a drill is what the host's check accepts.
  \<^item> Recovery: quarantine envelopes cannot be edited, repairs carry the current row, cleanup removes only what a ledger
    lists and what was verified right before, and a message drill stays on the orders and topics of its run.
  \<^item> Faults: each change is preceded by a saved record that holds what undoes it, on an owned and identified resource,
    and the record is removed only after the fault was read back as undone. This is shown for the Docker faults, the
    Redis experiments and the Elasticsearch drills; for Galera a bootstrap is authorized only for the newest node of one
    cluster after all were seen stopped.
  \<^item> Boundaries: the policy's plans are bounded and need consent, the executor stops at the first failure and ends, a
    pipeline of commands is read back exactly, the JSON decoder accepts exactly the admitted values; only a local,
    same-origin write of the expected shape changes the store, and every request is answered by one of a few codes.
  \<^item> Loading: a bulk load that returns has had each record acknowledged.

  The ordering statements are proved over recorded runs: the environment is wrapped so that each call and its answer is
  appended to a list (\<open>Event_Log\<close>), an operation is shown to append only admissible events, and the locales
  \<open>justified_events\<close>, \<open>lab_client\<close> and \<open>guarded_store\<close> carry this from single calls to whole programs; each is
  interpreted on the definitions of the component that provides the calls.

  \<^bold>\<open>Bounds and fuel.\<close> Loops of the code that end by a deadline take a number of rounds (\<open>fc_rounds\<close>, the first argument
  of \<open>es_wait\<close>, the rounds of the executor and of the simulation's waits). Running out of rounds is the error of the
  deadline, so a statement about a successful run holds for any number of rounds, and the executor is shown to end
  within a computed number. Numbers are unbounded, as in Python; where the code bounds them (versions, seeds, limits of
  requests) the bound is part of the definition. All other recursion is structural or has a measure.

  \<^bold>\<open>Not modelled.\<close> The text of log lines and reports, argument parsers, headers, TLS and credentials, file locks and
  temporary files, threads except where the interleaving is the subject (outbox, connections). The lessons on the SQL
  engines and on Redis eviction observe the servers, not this code. The Kafka and Redis clients and the container
  managers are command lines over packages and tools that are not under \<open>src\<close>; generated data, benchmarks, study
  reports and the repository's own build and test scripts are left out.
\<close>

end
